(* ===== verification/Prelude.thy ===== *)
theory Prelude
  imports Main "HOL-Library.Sublist"
begin

text \<open>
  The prelude of the development: the collections of rewrite rules that the component
  theories fill, the result type of a Go function that returns \<open>(value, error)\<close>, the
  sequencing of such functions, maps read with Go's zero value, and the interface of a
  transition system with an invariant that the stateful components instantiate.
\<close>

named_theorems go_simps \<open>unfolding rules of the small operations of a component\<close>
named_theorems env_simps \<open>lookups in merged environments\<close>
named_theorems inv_intros \<open>preservation of a component's invariant by its operations\<close>

section \<open>Results\<close>

text \<open>
  A Go function that returns \<open>(T, error)\<close> is modelled by a function into \<open>'e + 'a\<close>: \<open>Inl e\<close>
  for a non-nil error and \<open>Inr v\<close> for a value with a nil error. A function that returns
  only \<open>error\<close> is modelled by \<open>'e option\<close>, with \<open>None\<close> for nil, or by \<open>'e + unit\<close>.
\<close>

definition bind_res :: "'e + 'a \<Rightarrow> ('a \<Rightarrow> 'e + 'b) \<Rightarrow> 'e + 'b" where
  "bind_res r f = (case r of Inl e \<Rightarrow> Inl e | Inr v \<Rightarrow> f v)"

definition check :: "bool \<Rightarrow> 'e \<Rightarrow> 'e + unit" where
  "check b e = (if b then Inr () else Inl e)"

lemma bind_res_simps [simp]:
  "bind_res (Inl e) f = Inl e"
  "bind_res (Inr v) f = f v"
  by (simp_all add: bind_res_def)

lemma bind_res_Inr_iff:
  "bind_res r f = Inr v \<longleftrightarrow> (\<exists>u. r = Inr u \<and> f u = Inr v)"
  by (cases r) auto

lemma bind_res_Inl_iff:
  "bind_res r f = Inl e \<longleftrightarrow> r = Inl e \<or> (\<exists>u. r = Inr u \<and> f u = Inl e)"
  by (cases r) auto

lemma bind_res_cong [fundef_cong]:
  "r = r' \<Longrightarrow> (\<And>v. r' = Inr v \<Longrightarrow> f v = f' v) \<Longrightarrow> bind_res r f = bind_res r' f'"
  by (cases r') auto

lemma check_iff [simp]:
  "check b e = Inr u \<longleftrightarrow> b"
  "check b e = Inl e' \<longleftrightarrow> \<not> b \<and> e' = e"
  by (auto simp: check_def)

text \<open>A loop that runs a fallible body over a slice and stops at the first error.\<close>

fun fold_res :: "('a \<Rightarrow> 's \<Rightarrow> 'e + 's) \<Rightarrow> 'a list \<Rightarrow> 's \<Rightarrow> 'e + 's" where
  "fold_res f [] s = Inr s"
| "fold_res f (x # xs) s = bind_res (f x s) (fold_res f xs)"

lemma fold_res_append:
  "fold_res f (xs @ ys) s = bind_res (fold_res f xs s) (fold_res f ys)"
  by (induction xs arbitrary: s) (auto simp: bind_res_def split: sum.splits)

lemma fold_res_inv:
  assumes "fold_res f xs s = Inr s'" and "P s"
    and "\<And>x s s'. x \<in> set xs \<Longrightarrow> P s \<Longrightarrow> f x s = Inr s' \<Longrightarrow> P s'"
  shows "P s'"
  using assms by (induction xs arbitrary: s) (auto simp: bind_res_Inr_iff)

text \<open>The first error of a sequence of checks, in order.\<close>

fun first_error :: "('e option) list \<Rightarrow> 'e option" where
  "first_error [] = None"
| "first_error (None # es) = first_error es"
| "first_error (Some e # es) = Some e"

lemma first_error_None [simp]: "first_error es = None \<longleftrightarrow> (\<forall>e \<in> set es. e = None)"
  by (induction es rule: first_error.induct) auto

lemma first_error_map_None:
  "first_error (map f xs) = None \<longleftrightarrow> (\<forall>x \<in> set xs. f x = None)"
  by auto

section \<open>Maps read with a zero value\<close>

text \<open>
  In Go, reading a missing key of a map gives the zero value of the value type: \<open>m[k]\<close> of
  a \<open>map[string][]string\<close> is the nil slice, of a \<open>map[string]bool\<close> it is false, of a
  \<open>map[string]string\<close> it is the empty string.
\<close>

definition get_or :: "'v \<Rightarrow> ('k \<rightharpoonup> 'v) \<Rightarrow> 'k \<Rightarrow> 'v" where
  "get_or z m k = (case m k of None \<Rightarrow> z | Some v \<Rightarrow> v)"

lemma get_or_upd [simp]:
  "get_or z (m(k \<mapsto> v)) k' = (if k' = k then v else get_or z m k')"
  by (simp add: get_or_def)

lemma get_or_empty [simp]: "get_or z Map.empty k = z"
  by (simp add: get_or_def)

lemma get_or_Some: "m k = Some v \<Longrightarrow> get_or z m k = v"
  by (simp add: get_or_def)

lemma get_or_None: "m k = None \<Longrightarrow> get_or z m k = z"
  by (simp add: get_or_def)

lemma get_or_non_zero: "get_or z m k \<noteq> z \<Longrightarrow> m k = Some (get_or z m k)"
  by (auto simp: get_or_def split: option.splits)

text \<open>
  Ranging over a Go map and storing each pair into another: the result does not depend on
  the order of the pairs.
\<close>

definition upd_pair :: "'k \<times> 'v \<Rightarrow> ('k \<rightharpoonup> 'v) \<Rightarrow> ('k \<rightharpoonup> 'v)" where
  "upd_pair kv m = m(fst kv \<mapsto> snd kv)"

lemma fold_upd_pair:
  "distinct (map fst kvs) \<Longrightarrow> fold upd_pair kvs m = m ++ map_of kvs"
proof (induction kvs arbitrary: m)
  case Nil
  then show ?case by simp
next
  case (Cons kv kvs)
  from Cons.prems have "fst kv \<notin> dom (map_of kvs)" by (simp add: dom_map_of_conv_image_fst)
  then have "upd_pair kv m ++ map_of kvs = m ++ map_of (kv # kvs)"
    by (auto simp: upd_pair_def map_add_def fun_eq_iff split: option.splits)
  moreover have "fold upd_pair (kv # kvs) m = upd_pair kv m ++ map_of kvs"
    using Cons by simp
  ultimately show ?case by (rule trans [rotated])
qed

lemma upd_pair_simp: "upd_pair (k, v) m = m(k \<mapsto> v)"
  by (simp add: upd_pair_def)

section \<open>Lists\<close>

lemma filter_eq_all: "(\<forall>x \<in> set xs. P x) \<Longrightarrow> filter P xs = xs"
  by (induction xs) auto

lemma list_all_take_drop_eq:
  "i < length xs \<Longrightarrow> xs = take i xs @ xs ! i # drop (Suc i) xs"
  by (simp add: id_take_nth_drop)

fun find_index :: "('a \<Rightarrow> bool) \<Rightarrow> 'a list \<Rightarrow> nat option" where
  "find_index P [] = None"
| "find_index P (x # xs) = (if P x then Some 0 else map_option Suc (find_index P xs))"

lemma find_index_Some:
  "find_index P xs = Some i \<Longrightarrow> i < length xs \<and> P (xs ! i) \<and> (\<forall>j < i. \<not> P (xs ! j))"
proof (induction xs arbitrary: i)
  case Nil
  then show ?case by simp
next
  case (Cons x xs)
  show ?case
  proof (cases "P x")
    case True
    with Cons.prems show ?thesis by simp
  next
    case False
    with Cons.prems obtain k where k: "find_index P xs = Some k" "i = Suc k" by auto
    from Cons.IH [OF k(1)] False k(2) show ?thesis
      by (auto simp: less_Suc_eq_0_disj)
  qed
qed

lemma find_index_None [simp]: "find_index P xs = None \<longleftrightarrow> (\<forall>x \<in> set xs. \<not> P x)"
  by (induction xs) auto

section \<open>Operations on a state that may fail\<close>

text \<open>
  An operation that reads and writes a state and returns an error or a value. The state it
  had reached stays when it fails, as the fields of a Go receiver do.
\<close>

type_synonym ('s, 'e, 'a) op = "'s \<Rightarrow> ('e + 'a) \<times> 's"

definition op_return :: "'a \<Rightarrow> ('s, 'e, 'a) op" where
  "op_return v = (\<lambda>s. (Inr v, s))"

definition op_throw :: "'e \<Rightarrow> ('s, 'e, 'a) op" where
  "op_throw e = (\<lambda>s. (Inl e, s))"

definition op_bind :: "('s, 'e, 'a) op \<Rightarrow> ('a \<Rightarrow> ('s, 'e, 'b) op) \<Rightarrow> ('s, 'e, 'b) op" where
  "op_bind m f = (\<lambda>s. case m s of (Inl e, s') \<Rightarrow> (Inl e, s') | (Inr v, s') \<Rightarrow> f v s')"

definition op_then :: "('s, 'e, 'a) op \<Rightarrow> ('s, 'e, 'b) op \<Rightarrow> ('s, 'e, 'b) op" where
  "op_then m n = op_bind m (\<lambda>_. n)"

definition op_lift :: "'e + 'a \<Rightarrow> ('s, 'e, 'a) op" where
  "op_lift r = (\<lambda>s. (r, s))"

definition op_get :: "('s \<Rightarrow> 'a) \<Rightarrow> ('s, 'e, 'a) op" where
  "op_get f = (\<lambda>s. (Inr (f s), s))"

definition op_modify :: "('s \<Rightarrow> 's) \<Rightarrow> ('s, 'e, unit) op" where
  "op_modify f = (\<lambda>s. (Inr (), f s))"

definition op_map_error :: "('e \<Rightarrow> 'e) \<Rightarrow> ('s, 'e, 'a) op \<Rightarrow> ('s, 'e, 'a) op" where
  "op_map_error f m = (\<lambda>s. case m s of (Inl e, s') \<Rightarrow> (Inl (f e), s') | (Inr v, s') \<Rightarrow> (Inr v, s'))"

text \<open>A loop over a slice that returns at the first error, and one that collects values.\<close>

fun op_for :: "'x list \<Rightarrow> ('x \<Rightarrow> ('s, 'e, unit) op) \<Rightarrow> ('s, 'e, unit) op" where
  "op_for [] f = op_return ()"
| "op_for (x # xs) f = op_then (f x) (op_for xs f)"

fun op_map :: "'x list \<Rightarrow> ('x \<Rightarrow> ('s, 'e, 'a) op) \<Rightarrow> ('s, 'e, 'a list) op" where
  "op_map [] f = op_return []"
| "op_map (x # xs) f = op_bind (f x) (\<lambda>v. op_bind (op_map xs f) (\<lambda>vs. op_return (v # vs)))"

text \<open>What an operation keeps of the state, whether it fails or not.\<close>

definition keeps :: "('s \<Rightarrow> 'b) \<Rightarrow> ('s, 'e, 'a) op \<Rightarrow> bool" where
  "keeps f m \<longleftrightarrow> (\<forall>s. f (snd (m s)) = f s)"

named_theorems keeps_intros \<open>operations that keep a part of the state\<close>

lemma keepsD: "keeps f m \<Longrightarrow> m s = (r, s') \<Longrightarrow> f s' = f s"
  unfolding keeps_def by (metis snd_conv)

lemma keeps_basic [keeps_intros]:
  "keeps f (op_return v)" "keeps f (op_throw e)" "keeps f (op_lift r)" "keeps f (op_get h)"
  by (simp_all add: keeps_def op_return_def op_throw_def op_lift_def op_get_def)

lemma keeps_modify [keeps_intros]: "(\<And>s. f (h s) = f s) \<Longrightarrow> keeps f (op_modify h)"
  by (simp add: keeps_def op_modify_def)

lemma keeps_bind [keeps_intros]: "keeps f m \<Longrightarrow> (\<And>v. keeps f (h v)) \<Longrightarrow> keeps f (op_bind m h)"
  by (auto simp: keeps_def op_bind_def split: prod.splits sum.splits) (metis snd_conv)+

lemma keeps_then [keeps_intros]: "keeps f m \<Longrightarrow> keeps f n \<Longrightarrow> keeps f (op_then m n)"
  unfolding op_then_def by (intro keeps_bind)

lemma keeps_map_error [keeps_intros]: "keeps f m \<Longrightarrow> keeps f (op_map_error g m)"
  by (auto simp: keeps_def op_map_error_def split: prod.splits sum.splits) (metis snd_conv)+

lemma keeps_for [keeps_intros]: "(\<And>x. keeps f (h x)) \<Longrightarrow> keeps f (op_for xs h)"
  by (induction xs) (auto intro: keeps_intros)

lemma keeps_map [keeps_intros]: "(\<And>x. keeps f (h x)) \<Longrightarrow> keeps f (op_map xs h)"
  by (induction xs) (auto intro!: keeps_intros)

lemma keeps_if [keeps_intros]: "keeps f m \<Longrightarrow> keeps f n \<Longrightarrow> keeps f (if b then m else n)"
  by simp

lemma op_bind_Inr: "op_bind m h s = (Inr v, t) \<longleftrightarrow> (\<exists>u s'. m s = (Inr u, s') \<and> h u s' = (Inr v, t))"
  by (auto simp: op_bind_def split: prod.splits sum.splits)

lemma op_bind_Inl:
  "op_bind m h s = (Inl e, t) \<longleftrightarrow> m s = (Inl e, t) \<or> (\<exists>u s'. m s = (Inr u, s') \<and> h u s' = (Inl e, t))"
  by (auto simp: op_bind_def split: prod.splits sum.splits)

lemma op_simps:
  "op_return v s = (Inr v, s)" "op_throw e s = (Inl e, s)" "op_lift r s = (r, s)"
  "op_get g s = (Inr (g s), s)" "op_modify h s = (Inr (), h s)"
  by (simp_all add: op_return_def op_throw_def op_lift_def op_get_def op_modify_def)

lemma op_bind_eval:
  "m s = (Inr v, s') \<Longrightarrow> op_bind m h s = h v s'" "m s = (Inl e, s') \<Longrightarrow> op_bind m h s = (Inl e, s')"
  by (simp_all add: op_bind_def)

section \<open>Conditions before and after an operation\<close>

text \<open>
  \<open>valid P E m Q\<close>: from every state with \<open>P\<close>, \<open>m\<close> fails with an error in \<open>E\<close> or gives a value and
  a state in \<open>Q\<close>. One rule per combinator; a proof follows the code.
\<close>

definition valid :: "('s \<Rightarrow> bool) \<Rightarrow> ('e \<Rightarrow> bool) \<Rightarrow> ('s, 'e, 'a) op \<Rightarrow> ('a \<Rightarrow> 's \<Rightarrow> bool) \<Rightarrow> bool" where
  "valid P E m Q \<longleftrightarrow> (\<forall>s. P s \<longrightarrow> (case m s of (Inl e, s') \<Rightarrow> E e | (Inr v, s') \<Rightarrow> Q v s'))"

named_theorems valid_intros \<open>rules for conditions before and after operations\<close>

lemma validD_Inr: "valid P E m Q \<Longrightarrow> P s \<Longrightarrow> m s = (Inr v, s') \<Longrightarrow> Q v s'"
  by (fastforce simp: valid_def)

lemma validD_Inl: "valid P E m Q \<Longrightarrow> P s \<Longrightarrow> m s = (Inl e, s') \<Longrightarrow> E e"
  by (fastforce simp: valid_def)

lemma valid_weaken:
  "valid P E m Q \<Longrightarrow> (\<And>s. P' s \<Longrightarrow> P s) \<Longrightarrow> (\<And>v s. Q v s \<Longrightarrow> Q' v s) \<Longrightarrow> valid P' E m Q'"
  by (fastforce simp: valid_def split: prod.splits sum.splits)

lemma valid_return: "(\<And>s. P s \<Longrightarrow> Q v s) \<Longrightarrow> valid P E (op_return v) Q"
  by (simp add: valid_def op_return_def)

lemma valid_throw: "E e \<Longrightarrow> valid P E (op_throw e) Q"
  by (simp add: valid_def op_throw_def)

lemma valid_get: "(\<And>s. P s \<Longrightarrow> Q (f s) s) \<Longrightarrow> valid P E (op_get f) Q"
  by (simp add: valid_def op_get_def)

lemma valid_modify: "(\<And>s. P s \<Longrightarrow> Q () (f s)) \<Longrightarrow> valid P E (op_modify f) Q"
  by (simp add: valid_def op_modify_def)

lemma valid_bind:
  "valid P E m R \<Longrightarrow> (\<And>v. valid (R v) E (f v) Q) \<Longrightarrow> valid P E (op_bind m f) Q"
  by (fastforce simp: valid_def op_bind_def split: prod.splits sum.splits)

lemma valid_then:
  "valid P E m (\<lambda>_. R) \<Longrightarrow> valid R E n Q \<Longrightarrow> valid P E (op_then m n) Q"
  unfolding op_then_def by (rule valid_bind)

lemma valid_get_bind:
  "(\<And>v. valid (\<lambda>s. P s \<and> v = f s) E (h v) Q) \<Longrightarrow> valid P E (op_bind (op_get f) h) Q"
  by (fastforce simp: valid_def op_bind_def op_get_def split: prod.splits sum.splits)

lemma valid_for:
  "(\<And>x. x \<in> set xs \<Longrightarrow> valid P E (f x) (\<lambda>_. P)) \<Longrightarrow> valid P E (op_for xs f) (\<lambda>_. P)"
  by (induction xs) (auto intro!: valid_return valid_then)

text \<open>The same rules for a condition that is an invariant; \<open>R\<close> is what is known of the value.\<close>

lemma valid_inv_bind:
  assumes "valid I E m (\<lambda>v s. I s \<and> R v)" and "\<And>v. R v \<Longrightarrow> valid I E (k v) Q"
  shows "valid I E (op_bind m k) Q"
proof (rule valid_bind [OF assms(1)])
  show "valid (\<lambda>s. I s \<and> R v) E (k v) Q" for v
    using assms(2) [of v] by (auto simp: valid_def)
qed

lemma valid_inv_seq: "valid I E m (\<lambda>_. I) \<Longrightarrow> (\<And>v. valid I E (k v) Q) \<Longrightarrow> valid I E (op_bind m k) Q"
  by (rule valid_bind)

lemma valid_inv_then: "valid I E m (\<lambda>_. I) \<Longrightarrow> valid I E n Q \<Longrightarrow> valid I E (op_then m n) Q"
  by (rule valid_then)

lemma valid_inv_return: "valid I E (op_return v) (\<lambda>_. I)"
  by (rule valid_return)

lemma valid_inv_get:
  "(\<And>s. I s \<Longrightarrow> valid I E (k (g s)) Q) \<Longrightarrow> valid I E (op_bind (op_get g) k) Q"
  by (fastforce simp: valid_def op_bind_def op_get_def split: prod.splits sum.splits)

lemma valid_case_option:
  assumes "valid P E a Q" and "\<And>x. v = Some x \<Longrightarrow> valid P E (b x) Q"
  shows "valid P E (case v of None \<Rightarrow> a | Some x \<Rightarrow> b x) Q"
  using assms by (cases v) simp_all

lemma valid_total: "(\<And>s. P s \<Longrightarrow> \<exists>v s'. m s = (Inr v, s') \<and> Q v s') \<Longrightarrow> valid P E m Q"
  by (fastforce simp: valid_def)

lemma valid_conj:
  "valid P E m Q \<Longrightarrow> valid P' E' m Q' \<Longrightarrow> valid (\<lambda>s. P s \<and> P' s) E m (\<lambda>v s. Q v s \<and> Q' v s)"
  by (fastforce simp: valid_def split: prod.splits sum.splits)

lemma valid_False: "valid (\<lambda>_. False) E m Q"
  by (simp add: valid_def)

lemma valid_pre: "(\<And>s. P s \<Longrightarrow> valid (\<lambda>t. t = s) E m Q) \<Longrightarrow> valid P E m Q"
  by (fastforce simp: valid_def)

section \<open>Transition systems with an invariant\<close>

text \<open>
  The interface a stateful component offers to its safety properties: a set of start
  states, a step relation, and an invariant that holds at the start and is kept by every
  step. What a client gets is that the invariant holds in every state of every run.
\<close>

locale transition_system =
  fixes start :: "'s \<Rightarrow> bool"
    and trans :: "'s \<Rightarrow> 's \<Rightarrow> bool"
    and inv :: "'s \<Rightarrow> bool"
  assumes inv_start: "start s \<Longrightarrow> inv s"
    and inv_step: "inv s \<Longrightarrow> trans s t \<Longrightarrow> inv t"
begin

lemma inv_steps: "trans\<^sup>*\<^sup>* s t \<Longrightarrow> inv s \<Longrightarrow> inv t"
  by (induction rule: rtranclp_induct) (auto intro: inv_step)

lemma inv_reachable: "start s \<Longrightarrow> trans\<^sup>*\<^sup>* s t \<Longrightarrow> inv t"
  by (rule inv_steps) (auto intro: inv_start)

end

text \<open>
  A system whose steps also decrease a measure: every run is shorter than the measure of
  its first state, so it stops.
\<close>

locale terminating_system = transition_system start trans inv
  for start :: "'s \<Rightarrow> bool" and trans :: "'s \<Rightarrow> 's \<Rightarrow> bool" and inv :: "'s \<Rightarrow> bool" +
  fixes mu :: "'s \<Rightarrow> nat"
  assumes mu_step: "inv s \<Longrightarrow> trans s t \<Longrightarrow> mu t < mu s"
begin

lemma run_bounded: "inv s \<Longrightarrow> (trans ^^ n) s t \<Longrightarrow> n + mu t \<le> mu s"
proof (induction n arbitrary: t)
  case 0
  then show ?case by simp
next
  case (Suc n)
  from Suc.prems(2) obtain u where u: "(trans ^^ n) s u" "trans u t" by auto
  from u(1) have "trans\<^sup>*\<^sup>* s u" by (rule relpowp_imp_rtranclp)
  with Suc.prems(1) have "inv u" by (blast intro: inv_steps)
  with u(2) have "mu t < mu u" by (blast intro: mu_step)
  with Suc.IH [OF Suc.prems(1) u(1)] show ?case by simp
qed

end

end
