(* ===== verification/GoStrings.thy ===== *)
theory GoStrings
  imports Prelude
begin

text \<open>
  The functions of Go's packages \<open>strings\<close>, \<open>bytes\<close> and \<open>strconv\<close> that the modelled code
  calls. A Go string is a sequence of bytes, here a \<open>char list\<close>. Case mapping and white
  space are those of ASCII: the bytes of a code point above 127 are left alone, where Go
  would also map letters of other alphabets and would treat U+0085 and U+00A0 as spaces.
\<close>

section \<open>Prefixes, occurrences and splitting\<close>

definition HasPrefix :: "string \<Rightarrow> string \<Rightarrow> bool" where
  "HasPrefix s p = (take (length p) s = p)"

definition HasSuffix :: "string \<Rightarrow> string \<Rightarrow> bool" where
  "HasSuffix s p = (length p \<le> length s \<and> drop (length s - length p) s = p)"

definition TrimPrefix :: "string \<Rightarrow> string \<Rightarrow> string" where
  "TrimPrefix s p = (if HasPrefix s p then drop (length p) s else s)"

text \<open>\<open>strings.Index\<close>: the first position of a substring; \<open>None\<close> stands for -1.\<close>

fun Index :: "string \<Rightarrow> string \<Rightarrow> nat option" where
  "Index [] p = (if p = [] then Some 0 else None)"
| "Index (c # cs) p = (if HasPrefix (c # cs) p then Some 0 else map_option Suc (Index cs p))"

definition Contains :: "string \<Rightarrow> string \<Rightarrow> bool" where
  "Contains s p = (Index s p \<noteq> None)"

text \<open>\<open>strings.LastIndex\<close> of a one-byte substring.\<close>

definition LastIndexByte :: "string \<Rightarrow> char \<Rightarrow> nat option" where
  "LastIndexByte s c = map_option (\<lambda>i. length s - Suc i) (find_index (\<lambda>d. d = c) (rev s))"

text \<open>\<open>strings.Cut\<close>: what is before and what is after the first occurrence.\<close>

definition Cut :: "string \<Rightarrow> string \<Rightarrow> (string \<times> string) option" where
  "Cut s p = map_option (\<lambda>i. (take i s, drop (i + length p) s)) (Index s p)"

text \<open>\<open>strings.SplitN\<close> with the bound 2.\<close>

definition SplitN2 :: "string \<Rightarrow> string \<Rightarrow> string list" where
  "SplitN2 s p = (case Cut s p of None \<Rightarrow> [s] | Some (a, b) \<Rightarrow> [a, b])"

text \<open>
  \<open>strings.Split\<close> with a non-empty separator: one scan over the bytes. The second argument
  counts the bytes of a separator already recognised that are still to be skipped, the
  third is the current field in reverse.
\<close>

fun split_scan :: "string \<Rightarrow> nat \<Rightarrow> string \<Rightarrow> string \<Rightarrow> string list" where
  "split_scan p k cur [] = [rev cur]"
| "split_scan p (Suc k) cur (c # cs) = split_scan p k cur cs"
| "split_scan p 0 cur (c # cs) =
     (if HasPrefix (c # cs) p then rev cur # split_scan p (length p - 1) [] cs
      else split_scan p 0 (c # cur) cs)"

definition Split :: "string \<Rightarrow> string \<Rightarrow> string list" where
  "Split s p = split_scan p 0 [] s"

fun Join :: "string list \<Rightarrow> string \<Rightarrow> string" where
  "Join [] p = []"
| "Join [x] p = x"
| "Join (x # y # ys) p = x @ p @ Join (y # ys) p"

text \<open>\<open>strings.ReplaceAll\<close> with a non-empty pattern, and \<open>strings.Replace\<close> with the bound 1.\<close>

definition ReplaceAll :: "string \<Rightarrow> string \<Rightarrow> string \<Rightarrow> string" where
  "ReplaceAll s old new = Join (Split s old) new"

definition Replace1 :: "string \<Rightarrow> string \<Rightarrow> string \<Rightarrow> string" where
  "Replace1 s old new = (case Cut s old of None \<Rightarrow> s | Some (a, b) \<Rightarrow> a @ new @ b)"

section \<open>Bytes\<close>

definition byte :: "char \<Rightarrow> nat" where
  "byte c = of_char c"

definition is_upper :: "char \<Rightarrow> bool" where
  "is_upper c = (65 \<le> byte c \<and> byte c \<le> 90)"

definition is_lower :: "char \<Rightarrow> bool" where
  "is_lower c = (97 \<le> byte c \<and> byte c \<le> 122)"

definition is_digit :: "char \<Rightarrow> bool" where
  "is_digit c = (48 \<le> byte c \<and> byte c \<le> 57)"

definition is_space :: "char \<Rightarrow> bool" where
  "is_space c = (byte c \<in> {9, 10, 11, 12, 13, 32})"

definition lower_char :: "char \<Rightarrow> char" where
  "lower_char c = (if is_upper c then char_of (byte c + 32) else c)"

definition upper_char :: "char \<Rightarrow> char" where
  "upper_char c = (if is_lower c then char_of (byte c - 32) else c)"

definition ToLower :: "string \<Rightarrow> string" where
  "ToLower s = map lower_char s"

definition ToUpper :: "string \<Rightarrow> string" where
  "ToUpper s = map upper_char s"

definition EqualFold :: "string \<Rightarrow> string \<Rightarrow> bool" where
  "EqualFold s t = (ToLower s = ToLower t)"

text \<open>\<open>strings.Trim\<close> with a cut set, \<open>strings.TrimSpace\<close>, \<open>strings.Fields\<close>.\<close>

definition trim_both :: "(char \<Rightarrow> bool) \<Rightarrow> string \<Rightarrow> string" where
  "trim_both P s = rev (dropWhile P (rev (dropWhile P s)))"

definition TrimSpace :: "string \<Rightarrow> string" where
  "TrimSpace s = trim_both is_space s"

fun fields_scan :: "string \<Rightarrow> string \<Rightarrow> string list" where
  "fields_scan cur [] = (if cur = [] then [] else [rev cur])"
| "fields_scan cur (c # cs) =
     (if is_space c
      then (if cur = [] then fields_scan [] cs else rev cur # fields_scan [] cs)
      else fields_scan (c # cur) cs)"

definition Fields :: "string \<Rightarrow> string list" where
  "Fields s = fields_scan [] s"

section \<open>Decimal numbers\<close>

fun nat_digits :: "nat \<Rightarrow> string" where
  "nat_digits n =
     (if n < 10 then [char_of (48 + n)] else nat_digits (n div 10) @ [char_of (48 + n mod 10)])"

declare nat_digits.simps [simp del]

definition Itoa :: "int \<Rightarrow> string" where
  "Itoa i = (if i < 0 then CHR ''-'' # nat_digits (nat (- i)) else nat_digits (nat i))"

section \<open>Facts\<close>

lemma HasPrefix_iff: "HasPrefix s p \<longleftrightarrow> prefix p s"
  by (metis HasPrefix_def append_eq_conv_conj prefix_def take_is_prefix)

lemma HasPrefix_Nil [simp]: "HasPrefix s []"
  by (simp add: HasPrefix_def)

lemma HasPrefix_refl [simp]: "HasPrefix s s"
  by (simp add: HasPrefix_def)

lemma HasPrefix_self_append [simp]: "HasPrefix (p @ s) p"
  by (simp add: HasPrefix_def)

lemma HasPrefix_trans: "HasPrefix s t \<Longrightarrow> HasPrefix t u \<Longrightarrow> HasPrefix s u"
  by (auto simp: HasPrefix_iff)

lemma HasPrefix_length: "HasPrefix s p \<Longrightarrow> length p \<le> length s"
  by (auto simp: HasPrefix_iff dest: prefix_length_le)

lemma TrimPrefix_append [simp]: "TrimPrefix (p @ s) p = s"
  by (simp add: TrimPrefix_def)

lemma HasPrefix_split: "HasPrefix s p \<Longrightarrow> s = p @ drop (length p) s"
  by (metis HasPrefix_def append_take_drop_id)

lemma Index_Some: "Index s p = Some i \<Longrightarrow> i \<le> length s \<and> HasPrefix (drop i s) p"
proof (induction s arbitrary: i)
  case Nil
  then show ?case by (auto split: if_splits)
next
  case (Cons c cs)
  then show ?case by (cases "HasPrefix (c # cs) p") auto
qed

lemma Contains_iff: "Contains s p \<longleftrightarrow> (\<exists>a b. s = a @ p @ b)"
proof (induction s)
  case Nil
  then show ?case by (simp add: Contains_def)
next
  case (Cons c cs)
  have "Contains (c # cs) p \<longleftrightarrow> HasPrefix (c # cs) p \<or> Contains cs p"
    by (auto simp: Contains_def)
  also have "\<dots> \<longleftrightarrow> (\<exists>b. c # cs = p @ b) \<or> (\<exists>a b. cs = a @ p @ b)"
    by (simp add: Cons.IH HasPrefix_iff prefix_def)
  also have "\<dots> \<longleftrightarrow> (\<exists>a b. c # cs = a @ p @ b)"
    by (metis append_Cons append_Nil list.inject neq_Nil_conv)
  finally show ?case .
qed

lemma Contains_refl [simp]: "Contains s s"
  unfolding Contains_iff by (metis append_Nil append_Nil2)

lemma Contains_append: "Contains s p \<Longrightarrow> Contains (a @ s @ b) p"
  unfolding Contains_iff by (metis append.assoc)

lemma Contains_single: "Contains s [c] \<longleftrightarrow> c \<in> set s"
  unfolding Contains_iff by (metis append_Cons append_Nil in_set_conv_decomp)

lemma Cut_Some: "Cut s p = Some (a, b) \<Longrightarrow> s = a @ p @ b"
proof -
  assume "Cut s p = Some (a, b)"
  then obtain i where i: "Index s p = Some i" "a = take i s" "b = drop (i + length p) s"
    by (auto simp: Cut_def)
  from Index_Some [OF i(1)] have "drop i s = p @ drop (length p) (drop i s)"
    by (auto dest: HasPrefix_split)
  with i(2,3) show "s = a @ p @ b"
    by (metis add.commute append_take_drop_id drop_drop)
qed

lemma Cut_None: "Cut s p = None \<longleftrightarrow> \<not> Contains s p"
  by (simp add: Cut_def Contains_def)

lemma Index_char:
  "c \<notin> set a \<Longrightarrow> Index (a @ c # b) [c] = Some (length a)"
  by (induction a) (auto simp: HasPrefix_def)

lemma Cut_char: "c \<notin> set a \<Longrightarrow> Cut (a @ c # b) [c] = Some (a, b)"
  by (simp add: Cut_def Index_char)

lemma split_scan_nonempty [simp]: "split_scan p k cur s \<noteq> []"
  by (induction p k cur s rule: split_scan.induct) auto

lemma Split_nonempty [simp]: "Split s p \<noteq> []"
  by (simp add: Split_def)

lemma Join_Cons: "xs \<noteq> [] \<Longrightarrow> Join (x # xs) p = x @ p @ Join xs p"
  by (cases xs) auto

lemma Join_append:
  "xs \<noteq> [] \<Longrightarrow> ys \<noteq> [] \<Longrightarrow> Join (xs @ ys) p = Join xs p @ p @ Join ys p"
  by (induction xs rule: induct_list012) (auto simp: Join_Cons)

lemma split_scan_skip: "split_scan p (length a) cur (a @ s) = split_scan p 0 cur s"
  by (induction a) auto

lemma Join_split_scan:
  "p \<noteq> [] \<Longrightarrow> Join (split_scan p k cur s) p = rev cur @ drop k s"
proof (induction p k cur s rule: split_scan.induct)
  case (3 p cur c cs)
  show ?case
  proof (cases "HasPrefix (c # cs) p")
    case True
    have "c # cs = p @ drop (length p - 1) cs"
      using HasPrefix_split [OF True] 3(3) by (cases p) auto
    then have "p @ drop (length p - 1) cs = c # cs" by simp
    with True 3 show ?thesis by (simp add: Join_Cons del: append_eq_Cons_conv)
  qed (use 3 in simp)
qed auto

theorem Join_Split: "p \<noteq> [] \<Longrightarrow> Join (Split s p) p = s"
  by (simp add: Split_def Join_split_scan)

text \<open>
  A separator no proper suffix of which is also a prefix cannot be found across the edge
  of one of its own occurrences, so splitting distributes over such an occurrence.
\<close>

definition unbordered :: "string \<Rightarrow> bool" where
  "unbordered p \<longleftrightarrow> p \<noteq> [] \<and> (\<forall>k \<in> {1..<length p}. \<not> HasPrefix p (drop k p))"

lemma unbordered_single [simp]: "unbordered [c]"
  by (simp add: unbordered_def)

lemma split_scan_append:
  assumes u: "unbordered p"
  shows "k \<le> length x \<Longrightarrow> split_scan p k cur (x @ p @ y) = split_scan p k cur x @ split_scan p 0 [] y"
proof (induction x arbitrary: k cur)
  case Nil
  from u obtain c q where p: "p = c # q" by (cases p) (auto simp: unbordered_def)
  have "HasPrefix (c # q @ y) (c # q)" by (simp add: HasPrefix_def)
  with Nil p show ?case
    using split_scan_skip [of p q "[]" y] by simp
next
  case (Cons c x)
  show ?case
  proof (cases k)
    case (Suc k')
    with Cons show ?thesis by simp
  next
    case 0
    have pre: "HasPrefix (c # x @ p @ y) p \<longleftrightarrow> HasPrefix (c # x) p"
    proof (cases "length p \<le> Suc (length x)")
      case True
      then show ?thesis by (simp add: HasPrefix_def take_Cons' split: if_splits)
    next
      case False
      let ?k = "Suc (length x)"
      have "\<not> HasPrefix (c # x @ p @ y) p"
      proof
        assume "HasPrefix (c # x @ p @ y) p"
        then have "p = take (length p) ((c # x) @ p @ y)" by (simp add: HasPrefix_def)
        then have "drop ?k p = drop ?k (take (length p) ((c # x) @ p @ y))" by simp
        also have "\<dots> = take (length p - ?k) (p @ y)"
          by (simp add: drop_take)
        also have "\<dots> = take (length p - ?k) p" by simp
        finally have "HasPrefix p (drop ?k p)" by (simp add: HasPrefix_def)
        with u False show False by (auto simp: unbordered_def)
      qed
      moreover from False have "\<not> HasPrefix (c # x) p"
        by (auto dest: HasPrefix_length)
      ultimately show ?thesis by simp
    qed
    show ?thesis
    proof (cases "HasPrefix (c # x) p")
      case True
      then have "length p - 1 \<le> length x" by (auto dest: HasPrefix_length)
      with True 0 pre Cons.IH show ?thesis by simp
    next
      case False
      with 0 pre Cons.IH show ?thesis by simp
    qed
  qed
qed

theorem Split_append: "unbordered p \<Longrightarrow> Split (x @ p @ y) p = Split x p @ Split y p"
  by (simp add: Split_def split_scan_append)

lemma split_scan_none: "\<not> Contains s p \<Longrightarrow> split_scan p 0 cur s = [rev cur @ s]"
  by (induction s arbitrary: cur) (auto simp: Contains_def)

lemma Split_none: "\<not> Contains s p \<Longrightarrow> Split s p = [s]"
  by (simp add: Split_def split_scan_none)

theorem Split_Join:
  "unbordered p \<Longrightarrow> xs \<noteq> [] \<Longrightarrow> \<forall>x \<in> set xs. \<not> Contains x p \<Longrightarrow> Split (Join xs p) p = xs"
proof (induction xs)
  case (Cons x xs)
  then show ?case
    by (cases "xs = []") (auto simp: Join_Cons Split_append Split_none)
qed simp

lemma Split_Join_concat:
  "unbordered p \<Longrightarrow> ys \<noteq> [] \<Longrightarrow> Split (Join ys p) p = concat (map (\<lambda>y. Split y p) ys)"
proof (induction ys)
  case (Cons y ys)
  then show ?case by (cases "ys = []") (auto simp: Join_Cons Split_append)
qed simp

lemma sum_list_gt_length:
  "\<forall>x \<in> set xs. 1 \<le> f x \<Longrightarrow> x \<in> set xs \<Longrightarrow> 2 \<le> f x \<Longrightarrow> length xs < sum_list (map f xs)"
  for f :: "'a \<Rightarrow> nat"
proof (induction xs)
  case (Cons y ys)
  have "length ys \<le> sum_list (map f ys)"
    using Cons.prems(1) sum_list_mono [of ys "\<lambda>_. 1 :: nat" f] by (simp add: sum_list_triv)
  with Cons show ?case by (auto dest: leD)
qed simp

text \<open>No field of a split holds the separator.\<close>

theorem Split_no_sep:
  assumes u: "unbordered p" and x: "x \<in> set (Split s p)"
  shows "\<not> Contains x p"
proof
  let ?f = "\<lambda>y. length (Split y p)"
  assume "Contains x p"
  then obtain a b where ab: "x = a @ p @ b" unfolding Contains_iff by blast
  have one: "1 \<le> ?f y" for y by (simp add: Suc_le_eq)
  have "?f x = ?f a + ?f b" unfolding ab using Split_append [OF u] by simp
  then have "2 \<le> ?f x" using one [of a] one [of b] by simp
  then have "length (Split s p) < sum_list (map ?f (Split s p))"
    using one x by (intro sum_list_gt_length) auto
  also have "\<dots> = length (Split (Join (Split s p) p) p)"
    unfolding Split_Join_concat [OF u Split_nonempty] by (simp add: length_concat comp_def)
  also have "\<dots> = length (Split s p)" using u by (simp add: Join_Split unbordered_def)
  finally show False by simp
qed

lemma split_scan_char_free:
  "f \<in> set (split_scan [c] 0 cur s) \<Longrightarrow> c \<notin> set cur \<Longrightarrow> c \<notin> set f"
proof (induction s arbitrary: cur)
  case Nil
  then show ?case by simp
next
  case (Cons d s)
  from Cons.prems consider "d = c" "f = rev cur" | "d = c" "f \<in> set (split_scan [c] 0 [] s)"
    | "d \<noteq> c" "f \<in> set (split_scan [c] 0 (d # cur) s)"
    by (auto simp: HasPrefix_def split: if_splits)
  then show ?case using Cons.prems(2) Cons.IH [of "[]"] Cons.IH [of "d # cur"]
    by cases auto
qed

lemma Split_char_free: "f \<in> set (Split s [c]) \<Longrightarrow> c \<notin> set f"
  by (auto simp: Split_def dest: split_scan_char_free)

lemma Split_char_none: "c \<notin> set s \<Longrightarrow> Split s [c] = [s]"
  by (simp add: Split_none Contains_single)

lemma fields_scan_no_space:
  "f \<in> set (fields_scan cur s) \<Longrightarrow> \<forall>c \<in> set cur. \<not> is_space c \<Longrightarrow> f \<noteq> [] \<and> (\<forall>c \<in> set f. \<not> is_space c)"
proof (induction s arbitrary: cur)
  case Nil
  then show ?case by (cases "cur = []") auto
next
  case (Cons d s)
  from Cons.prems(1) consider "cur \<noteq> []" "f = rev cur" | "f \<in> set (fields_scan [] s)"
    | "\<not> is_space d" "f \<in> set (fields_scan (d # cur) s)"
    by (cases "is_space d"; cases "cur = []") (simp_all, blast)
  then show ?case
  proof cases
    case 1
    with Cons.prems(2) show ?thesis by simp
  next
    case 2
    then show ?thesis by (rule Cons.IH) simp
  next
    case 3
    from 3(2) show ?thesis by (rule Cons.IH) (use 3(1) Cons.prems(2) in simp)
  qed
qed

lemma Fields_no_space: "f \<in> set (Fields s) \<Longrightarrow> f \<noteq> [] \<and> (\<forall>c \<in> set f. \<not> is_space c)"
  by (auto simp: Fields_def dest: fields_scan_no_space)

lemma byte_lower: "is_upper c \<Longrightarrow> byte (lower_char c) = byte c + 32"
proof -
  assume u: "is_upper c"
  then have "byte c + 32 < 256" by (simp add: is_upper_def)
  then have "of_char (char_of (byte c + 32) :: char) = byte c + 32"
    by (simp only: of_char_of mod_less)
  with u show ?thesis by (simp only: lower_char_def if_True byte_def [of "char_of _"])
qed

lemma not_upper_lower: "\<not> is_upper (lower_char c)"
proof (cases "is_upper c")
  case True
  with byte_lower [OF True] show ?thesis by (simp add: is_upper_def)
qed (simp add: lower_char_def)

lemma lower_char_idem [simp]: "lower_char (lower_char c) = lower_char c"
  using not_upper_lower [of c] by (subst lower_char_def) simp

lemma ToLower_idem [simp]: "ToLower (ToLower s) = ToLower s"
  by (simp add: ToLower_def)

lemma EqualFold_refl [simp]: "EqualFold s s"
  by (simp add: EqualFold_def)

lemma Join_scan_char: "Join (split_scan [c] 0 cur s) [] = rev cur @ filter (\<lambda>x. x \<noteq> c) s"
  by (induction s arbitrary: cur) (auto simp: Join_Cons HasPrefix_def)

lemma drop_char: "ReplaceAll s [c] [] = filter (\<lambda>x. x \<noteq> c) s"
  by (simp add: ReplaceAll_def Split_def Join_scan_char)

end
