(* ===== verification/Variables.thy ===== *)
theory Variables
  imports GoStrings "HOL-Library.List_Lexorder" "HOL-Library.Char_ord"
begin

text \<open>
  Package \<open>variables\<close>: the key-value container behind every environment and variable set
  of the program. The values are Go's \<open>any\<close>, here the shapes YAML can produce. The
  container itself is a \<open>sync.Map\<close>, here a partial map; ranging over it only stores into
  another container, so the order Go picks cannot be seen (\<open>range_Set\<close>).
\<close>

section \<open>Values\<close>

datatype gval =
    GNil
  | GStr string
  | GBool bool
  | GInt int
  | GList "gval list"
  | GMap "(string \<times> gval) list"

text \<open>\<open>fmt.Sprintf("%v", x)\<close>: a map prints its keys in increasing order.\<close>

fun fmt_v :: "gval \<Rightarrow> string" where
  "fmt_v GNil = ''<nil>''"
| "fmt_v (GStr s) = s"
| "fmt_v (GBool b) = (if b then ''true'' else ''false'')"
| "fmt_v (GInt i) = Itoa i"
| "fmt_v (GList xs) = ''['' @ Join (map fmt_v xs) '' '' @ '']''"
| "fmt_v (GMap kvs) =
     ''map['' @ Join (map (\<lambda>(k, s). k @ '':'' @ s)
        (sort_key fst (map (\<lambda>(k, x). (k, fmt_v x)) kvs))) '' '' @ '']''"

section \<open>The container\<close>

type_synonym variables = "string \<rightharpoonup> gval"

definition NewVariables :: variables where
  "NewVariables = Map.empty"

definition FromMap :: "(string \<rightharpoonup> string) \<Rightarrow> variables" where
  "FromMap values = (\<lambda>k. map_option GStr (values k))"

definition FromVarsMap :: "(string \<rightharpoonup> gval) \<Rightarrow> variables" where
  "FromVarsMap values = (\<lambda>k. values k)"

definition Set :: "variables \<Rightarrow> string \<Rightarrow> gval \<Rightarrow> variables" where
  "Set vars key value = vars(key \<mapsto> value)"

definition Get :: "variables \<Rightarrow> string \<Rightarrow> gval" where
  "Get vars key = (case vars key of None \<Rightarrow> GStr '''' | Some v \<Rightarrow> v)"

definition Has :: "variables \<Rightarrow> string \<Rightarrow> bool" where
  "Has vars name = (vars name \<noteq> None)"

definition VarsMap :: "variables \<Rightarrow> (string \<rightharpoonup> gval)" where
  "VarsMap vars = (\<lambda>k. vars k)"

text \<open>\<open>Merge\<close> is called on a pointer that may be nil; the result is a new container.\<close>

definition Merge_ptr :: "variables option \<Rightarrow> variables \<Rightarrow> variables" where
  "Merge_ptr vars src =
     (let dst = (case vars of None \<Rightarrow> NewVariables | Some m \<Rightarrow> NewVariables ++ VarsMap m)
      in dst ++ VarsMap src)"

definition Merge :: "variables \<Rightarrow> variables \<Rightarrow> variables" where
  "Merge vars src = Merge_ptr (Some vars) src"

definition With :: "variables \<Rightarrow> string \<Rightarrow> gval \<Rightarrow> variables" where
  "With vars key value = Set (Merge NewVariables vars) key value"

lemma Set_upd_pair: "Set d k v = upd_pair (k, v) d"
  by (simp add: Set_def upd_pair_def)

lemma range_Set:
  "distinct (map fst kvs) \<Longrightarrow> fold (\<lambda>kv d. Set d (fst kv) (snd kv)) kvs dst = dst ++ map_of kvs"
  by (simp add: Set_upd_pair fold_upd_pair)

lemma Merge_eq: "Merge a b = a ++ b"
  by (simp add: Merge_def Merge_ptr_def NewVariables_def VarsMap_def)

lemma Merge_apply [env_simps]:
  "Merge a b k = (case b k of None \<Rightarrow> a k | Some v \<Rightarrow> Some v)"
  by (simp add: Merge_eq map_add_def)

lemma With_apply [env_simps]: "With a k v k' = (if k' = k then Some v else a k')"
  by (simp add: With_def Set_def Merge_eq NewVariables_def)

lemma Set_apply [env_simps]: "Set a k v k' = (if k' = k then Some v else a k')"
  by (simp add: Set_def)

lemma FromMap_apply [env_simps]: "FromMap m k = map_option GStr (m k)"
  by (simp add: FromMap_def)

lemma NewVariables_apply [env_simps]: "NewVariables k = None"
  by (simp add: NewVariables_def)

lemma VarsMap_id [simp]: "VarsMap v = v"
  by (simp add: VarsMap_def)

lemma Has_Merge [simp]: "Has (Merge a b) k \<longleftrightarrow> Has a k \<or> Has b k"
  by (auto simp: Has_def env_simps split: option.splits)

section \<open>Layers\<close>

text \<open>
  The interface the precedence rules of the program rest on: a container that can be
  looked up and merged, the right operand winning. Clients stack layers from the lowest
  precedence to the highest; what is read is the value of the highest layer that has it.
\<close>

fun winner :: "('k \<Rightarrow> 'v option) list \<Rightarrow> 'k \<Rightarrow> 'v option" where
  "winner [] k = None"
| "winner (l # ls) k = (case winner ls k of None \<Rightarrow> l k | Some v \<Rightarrow> Some v)"

lemma winner_append:
  "winner (ls @ ms) k = (case winner ms k of None \<Rightarrow> winner ls k | Some v \<Rightarrow> Some v)"
  by (induction ls) (auto split: option.splits)

lemma winner_highest: "l k = Some v \<Longrightarrow> \<forall>m \<in> set ms. m k = None \<Longrightarrow> winner (ls @ l # ms) k = Some v"
proof -
  assume a: "l k = Some v" "\<forall>m \<in> set ms. m k = None"
  then have "winner ms k = None" by (induction ms) (auto split: option.splits)
  with a show ?thesis by (simp add: winner_append)
qed

locale layered_env =
  fixes lookup :: "'e \<Rightarrow> 'k \<Rightarrow> 'v option"
    and merge :: "'e \<Rightarrow> 'e \<Rightarrow> 'e"
    and none :: 'e
  assumes lookup_none: "lookup none k = None"
    and lookup_merge: "lookup (merge a b) k = (case lookup b k of None \<Rightarrow> lookup a k | Some v \<Rightarrow> Some v)"
begin

lemma lookup_stack_from:
  "lookup (foldl merge e ls) k = winner (lookup e # map lookup ls) k"
proof (induction ls arbitrary: e)
  case Nil
  then show ?case by simp
next
  case (Cons l ls)
  then show ?case by (auto simp: lookup_merge split: option.splits)
qed

lemma lookup_stack: "lookup (foldl merge none ls) k = winner (map lookup ls) k"
  by (simp add: lookup_stack_from lookup_none split: option.splits)

lemma merge_assoc_lookup: "lookup (merge (merge a b) c) k = lookup (merge a (merge b c)) k"
  by (simp add: lookup_merge split: option.splits)

lemma merge_idem_lookup: "lookup (merge a a) k = lookup a k"
  by (simp add: lookup_merge split: option.splits)

lemma merge_absorb: "lookup b k = None \<Longrightarrow> lookup (merge a b) k = lookup a k"
  by (simp add: lookup_merge)

lemma merge_wins: "lookup b k = Some v \<Longrightarrow> lookup (merge a b) k = Some v"
  by (simp add: lookup_merge)

end

interpretation vars: layered_env "\<lambda>v. VarsMap v" Merge NewVariables
  by unfold_locales (simp_all add: env_simps split: option.splits)

lemma Merge_assoc: "Merge (Merge a b) c = Merge a (Merge b c)"
  using vars.merge_assoc_lookup [of a b c] by (simp add: fun_eq_iff)

text \<open>\<open>ConvertToMapOfStrings\<close> of package \<open>utils\<close>: every value in its \<open>%v\<close> form.\<close>

definition ConvertToMapOfStrings :: "(string \<rightharpoonup> gval) \<Rightarrow> (string \<rightharpoonup> string)" where
  "ConvertToMapOfStrings m = (\<lambda>k. map_option fmt_v (m k))"

lemma ConvertToMapOfStrings_FromMap [simp]: "ConvertToMapOfStrings (FromMap m) = m"
  by (simp add: ConvertToMapOfStrings_def FromMap_def option.map_comp o_def option.map_ident)

end
