(* ===== verification/GoPaths.thy ===== *)
theory GoPaths
  imports GoStrings
begin

text \<open>
  The lexical part of Go's packages \<open>path\<close> and \<open>path/filepath\<close> on a Unix system: the
  slash is the only separator and there is no volume name. A path is read as its list of
  elements; \<open>Clean\<close> runs the stack algorithm of the library over it.
\<close>

definition IsAbs :: "string \<Rightarrow> bool" where
  "IsAbs p = HasPrefix p ''/''"

fun clean_stack :: "bool \<Rightarrow> string list \<Rightarrow> string list \<Rightarrow> string list" where
  "clean_stack rooted out [] = rev out"
| "clean_stack rooted out (e # es) =
     (if e = '''' \<or> e = ''.'' then clean_stack rooted out es
      else if e = ''..'' then
        (case out of
           [] \<Rightarrow> clean_stack rooted (if rooted then [] else [e]) es
         | o1 # os \<Rightarrow> if o1 = ''..'' then clean_stack rooted (e # out) es
                      else clean_stack rooted os es)
      else clean_stack rooted (e # out) es)"

definition clean_elems :: "string \<Rightarrow> string list" where
  "clean_elems p = clean_stack (IsAbs p) [] (Split p ''/'')"

definition Clean :: "string \<Rightarrow> string" where
  "Clean p = (let es = clean_elems p in
     if IsAbs p then CHR ''/'' # Join es ''/''
     else if es = [] then ''.'' else Join es ''/'')"

text \<open>\<open>filepath.Join\<close> ignores empty elements and cleans the rest.\<close>

definition JoinPath :: "string list \<Rightarrow> string" where
  "JoinPath es = (let ne = filter (\<lambda>e. e \<noteq> []) es in
     if ne = [] then [] else Clean (Join ne ''/''))"

text \<open>\<open>Dir\<close>: the cleaned text up to the last slash; \<open>Base\<close>: the last element.\<close>

definition Dir :: "string \<Rightarrow> string" where
  "Dir p = (case LastIndexByte p CHR ''/'' of None \<Rightarrow> Clean [] | Some i \<Rightarrow> Clean (take (Suc i) p))"

definition strip_slashes :: "string \<Rightarrow> string" where
  "strip_slashes p = rev (dropWhile (\<lambda>c. c = CHR ''/'') (rev p))"

definition Base :: "string \<Rightarrow> string" where
  "Base p = (if p = [] then ''.'' else
     let q = strip_slashes p in
     if q = [] then ''/'' else
       (case LastIndexByte q CHR ''/'' of None \<Rightarrow> q | Some i \<Rightarrow> drop (Suc i) q))"

text \<open>\<open>filepath.Ext\<close>: from the last dot of the last element.\<close>

definition Ext :: "string \<Rightarrow> string" where
  "Ext p = (let b = (case LastIndexByte p CHR ''/'' of None \<Rightarrow> p | Some i \<Rightarrow> drop (Suc i) p) in
     case LastIndexByte b CHR ''.'' of None \<Rightarrow> [] | Some i \<Rightarrow> drop i b)"

text \<open>\<open>filepath.Abs\<close> of a path in a working directory.\<close>

definition AbsPath :: "string \<Rightarrow> string \<Rightarrow> string" where
  "AbsPath wd p = (if IsAbs p then Clean p else JoinPath [wd, p])"

text \<open>\<open>filepath.Rel\<close>; \<open>None\<close> is its error.\<close>

fun strip_common :: "'a list \<Rightarrow> 'a list \<Rightarrow> 'a list \<times> 'a list" where
  "strip_common (x # xs) (y # ys) = (if x = y then strip_common xs ys else (x # xs, y # ys))"
| "strip_common xs ys = (xs, ys)"

definition Rel :: "string \<Rightarrow> string \<Rightarrow> string option" where
  "Rel base targ =
     (if Clean targ = Clean base then Some ''.''
      else if IsAbs base \<noteq> IsAbs targ then None
      else (let (bs, ts) = strip_common (clean_elems base) (clean_elems targ) in
        if bs \<noteq> [] \<and> hd bs = ''..'' then None
        else Some (Join (map (\<lambda>_. ''..'') bs @ ts) ''/'')))"

text \<open>\<open>filepath.IsLocal\<close> on Unix: a relative path that stays below its starting point.\<close>

fun local_depth :: "nat \<Rightarrow> string list \<Rightarrow> bool" where
  "local_depth d [] = True"
| "local_depth d (e # es) =
     (if e = '''' \<or> e = ''.'' then local_depth d es
      else if e = ''..'' then (case d of 0 \<Rightarrow> False | Suc d' \<Rightarrow> local_depth d' es)
      else local_depth (Suc d) es)"

definition IsLocal :: "string \<Rightarrow> bool" where
  "IsLocal p = (\<not> IsAbs p \<and> p \<noteq> [] \<and> local_depth 0 (Split p ''/''))"

section \<open>Elements of a cleaned path\<close>

definition plain_elem :: "string \<Rightarrow> bool" where
  "plain_elem e \<longleftrightarrow> e \<noteq> '''' \<and> e \<noteq> ''.'' \<and> e \<noteq> ''..'' \<and> CHR ''/'' \<notin> set e"

lemma clean_stack_rooted:
  "\<forall>e \<in> set es. CHR ''/'' \<notin> set e \<Longrightarrow> \<forall>e \<in> set out. plain_elem e \<Longrightarrow>
     \<forall>e \<in> set (clean_stack True out es). plain_elem e"
proof (induction es arbitrary: out)
  case Nil
  then show ?case by simp
next
  case (Cons e es)
  then have es: "\<forall>e \<in> set es. CHR ''/'' \<notin> set e" by simp
  consider "e = '''' \<or> e = ''.''" | "e = ''..''" | "plain_elem e"
    using Cons.prems(1) by (auto simp: plain_elem_def)
  then show ?case
  proof cases
    case 1
    with Cons.IH [OF es Cons.prems(2)] show ?thesis by auto
  next
    case 2
    then show ?thesis
    proof (cases out)
      case Nil
      with 2 Cons.IH [OF es, of "[]"] show ?thesis by simp
    next
      case (Cons o1 os)
      with Cons.prems(2) have "o1 \<noteq> ''..''" "\<forall>e \<in> set os. plain_elem e"
        by (auto simp: plain_elem_def)
      with 2 Cons Cons.IH [OF es, of os] show ?thesis by simp
    qed
  next
    case 3
    then have ne: "e \<noteq> ''''" "e \<noteq> ''.''" "e \<noteq> ''..''" by (simp_all add: plain_elem_def)
    from 3 Cons.prems(2) have "\<forall>x \<in> set (e # out). plain_elem x" by simp
    from Cons.IH [OF es this] ne show ?thesis by simp
  qed
qed

lemma Split_slash_free: "e \<in> set (Split p ''/'') \<Longrightarrow> CHR ''/'' \<notin> set e"
  by (rule Split_char_free)

lemma clean_elems_abs: "IsAbs p \<Longrightarrow> \<forall>e \<in> set (clean_elems p). plain_elem e"
  using clean_stack_rooted [of "Split p ''/''" "[]"] Split_slash_free [of _ p]
  by (auto simp: clean_elems_def)

lemma clean_stack_plain:
  "\<forall>e \<in> set es. plain_elem e \<Longrightarrow> clean_stack r out es = rev out @ es"
  by (induction es arbitrary: out) (auto simp: plain_elem_def)

lemma Split_plain:
  "es \<noteq> [] \<Longrightarrow> \<forall>e \<in> set es. plain_elem e \<Longrightarrow> Split (Join es ''/'') ''/'' = es"
  by (rule Split_Join) (auto simp: plain_elem_def Contains_single)

lemma Split_Cons_sep: "Split (c # s) [c] = [] # Split s [c]"
  using Split_append [of "[c]" "[]" s] by (simp add: Split_def)

lemma Clean_abs: "IsAbs p \<Longrightarrow> Clean p = CHR ''/'' # Join (clean_elems p) ''/''"
  by (simp add: Clean_def Let_def)

lemma IsAbs_Cons [simp]: "IsAbs (CHR ''/'' # p)"
  by (simp add: IsAbs_def HasPrefix_def)

lemma IsAbs_Clean: "IsAbs p \<Longrightarrow> IsAbs (Clean p)"
  by (simp add: Clean_abs)

lemma clean_elems_rebuild:
  assumes "\<forall>e \<in> set es. plain_elem e"
  shows "clean_elems (CHR ''/'' # Join es ''/'') = es"
proof (cases "es = []")
  case True
  then show ?thesis by (simp add: clean_elems_def Split_Cons_sep Split_def)
next
  case False
  with assms show ?thesis
    by (simp add: clean_elems_def Split_Cons_sep Split_plain clean_stack_plain)
qed

theorem Clean_idem_abs: "IsAbs p \<Longrightarrow> Clean (Clean p) = Clean p"
  by (simp add: Clean_abs IsAbs_Clean clean_elems_rebuild clean_elems_abs)

lemma clean_elems_Clean: "IsAbs p \<Longrightarrow> clean_elems (Clean p) = clean_elems p"
  by (simp add: Clean_abs clean_elems_rebuild clean_elems_abs)

lemma Clean_abs_inject:
  "IsAbs p \<Longrightarrow> IsAbs q \<Longrightarrow> Clean p = Clean q \<longleftrightarrow> clean_elems p = clean_elems q"
  by (metis clean_elems_Clean Clean_abs)

lemma strip_common_prefix: "strip_common xs ys = ([], zs) \<longleftrightarrow> ys = xs @ zs"
  by (induction xs ys rule: strip_common.induct) auto

lemma strip_common_parts:
  "strip_common xs ys = (bs, ts) \<Longrightarrow> \<exists>cs. xs = cs @ bs \<and> ys = cs @ ts"
proof (induction xs ys rule: strip_common.induct)
  case (1 x xs y ys)
  show ?case
  proof (cases "x = y")
    case True
    with 1 obtain cs where "xs = cs @ bs" "ys = cs @ ts" by auto
    with True have "x # xs = (x # cs) @ bs \<and> y # ys = (x # cs) @ ts" by simp
    then show ?thesis by blast
  next
    case False
    with 1(2) show ?thesis by auto
  qed
qed auto

text \<open>A path lies below a directory: its elements extend the directory's.\<close>

definition inside :: "string \<Rightarrow> string \<Rightarrow> bool" where
  "inside base p = prefix (clean_elems base) (clean_elems p)"

text \<open>The relative path between absolute paths tells whether one lies below the other.\<close>

lemma Join_first:
  "ts \<noteq> [] \<Longrightarrow> \<exists>rest. Join ts ''/'' = hd ts @ rest \<and> (rest = [] \<or> hd rest = CHR ''/'')"
  by (cases "tl ts = []"; cases ts) (auto simp: Join_Cons)

lemma first_elem_dots:
  assumes "e @ rest = ''../'' @ s \<or> e @ rest = ''..''" and "rest = [] \<or> hd rest = CHR ''/''"
    and "CHR ''/'' \<notin> set e" and "e \<noteq> ''''" and "e \<noteq> ''.''"
  shows "e = ''..''"
proof -
  obtain c e1 where e: "e = c # e1" using assms(4) by (cases e) auto
  show ?thesis
  proof (cases e1)
    case Nil
    with assms e show ?thesis by (cases rest) auto
  next
    case (Cons d e2)
    show ?thesis using assms e Cons by (cases e2) auto
  qed
qed

lemma Rel_abs:
  assumes b: "IsAbs b" and t: "IsAbs t"
  shows "\<exists>rel. Rel b t = Some rel \<and>
    (rel = ''.'' \<or> \<not> HasPrefix rel ''../'' \<and> rel \<noteq> ''..'' \<longleftrightarrow> inside b t)"
proof (cases "Clean t = Clean b")
  case True
  then have "clean_elems t = clean_elems b" using Clean_abs_inject [OF t b] by simp
  with True show ?thesis by (simp add: Rel_def inside_def)
next
  case False
  obtain bs ts where s: "strip_common (clean_elems b) (clean_elems t) = (bs, ts)" by fastforce
  from strip_common_parts [OF this] obtain cs where
    cs: "clean_elems b = cs @ bs" "clean_elems t = cs @ ts" by blast
  with clean_elems_abs [OF b] clean_elems_abs [OF t]
  have pl: "\<forall>e \<in> set bs. plain_elem e" "\<forall>e \<in> set ts. plain_elem e" by auto
  then have "\<not> (bs \<noteq> [] \<and> hd bs = ''..'')" by (cases bs) (auto simp: plain_elem_def)
  with False b t s have rel: "Rel b t = Some (Join (map (\<lambda>_. ''..'') bs @ ts) ''/'')"
    by (auto simp: Rel_def)
  show ?thesis
  proof (cases bs)
    case Nil
    with cs have i: "inside b t" by (simp add: inside_def)
    have ts: "ts \<noteq> []" using cs Nil False Clean_abs_inject [OF t b] by auto
    then have "plain_elem (hd ts)" using pl(2) by simp
    moreover from Join_first [OF ts] obtain rest where
      r: "Join ts ''/'' = hd ts @ rest" "rest = [] \<or> hd rest = CHR ''/''" by blast
    ultimately have "\<not> HasPrefix (Join ts ''/'') ''../'' \<and> Join ts ''/'' \<noteq> ''..''"
      using first_elem_dots [of "hd ts" rest] unfolding plain_elem_def HasPrefix_iff prefix_def
      by metis
    with rel i Nil show ?thesis by simp
  next
    case (Cons b1 bs')
    have "\<not> prefix (cs @ bs) (cs @ ts)"
    proof
      assume "prefix (cs @ bs) (cs @ ts)"
      then obtain zs where "ts = bs @ zs" by (auto simp: prefix_def)
      then have "strip_common (clean_elems b) (clean_elems t) = ([], zs)"
        using cs by (simp add: strip_common_prefix)
      with s Cons show False by simp
    qed
    then have ni: "\<not> inside b t" using cs by (simp add: inside_def)
    have "\<exists>r. Join (map (\<lambda>_. ''..'') bs @ ts) ''/'' = ''../'' @ r \<or> Join (map (\<lambda>_. ''..'') bs @ ts) ''/'' = ''..''"
      using Cons by (cases "map (\<lambda>_. ''..'') bs' @ ts = []") (auto simp: Join_Cons)
    then have "HasPrefix (Join (map (\<lambda>_. ''..'') bs @ ts) ''/'') ''../'' \<or>
        Join (map (\<lambda>_. ''..'') bs @ ts) ''/'' = ''..''"
      and "Join (map (\<lambda>_. ''..'') bs @ ts) ''/'' \<noteq> ''.''"
      unfolding HasPrefix_iff prefix_def by auto
    with rel ni show ?thesis by simp
  qed
qed

section \<open>Going up a path ends\<close>

definition elems_weight :: "string list \<Rightarrow> nat" where
  "elems_weight es = sum_list (map (\<lambda>e. Suc (length e)) es)"

lemma elems_weight_simps [simp]:
  "elems_weight [] = 0" "elems_weight (e # es) = Suc (length e) + elems_weight es"
  "elems_weight (es @ fs) = elems_weight es + elems_weight fs" "elems_weight (rev es) = elems_weight es"
  by (simp_all add: elems_weight_def rev_map [symmetric] sum_list_rev)

lemma length_Join_slash: "es \<noteq> [] \<Longrightarrow> Suc (length (Join es ''/'')) = elems_weight es"
proof (induction es)
  case Nil
  then show ?case by simp
next
  case (Cons e es)
  then show ?case by (cases "es = []") (auto simp: Join_Cons)
qed

lemma clean_stack_weight:
  "elems_weight (clean_stack r out es) \<le> elems_weight out + elems_weight (filter (\<lambda>e. e \<noteq> '''') es)"
proof (induction r out es rule: clean_stack.induct)
  case (1 rooted out)
  then show ?case by simp
next
  case (2 rooted out e es)
  consider "e = '''' \<or> e = ''.''" | "e = ''..''" | "e \<noteq> ''''" "e \<noteq> ''.''" "e \<noteq> ''..''" by blast
  then show ?case
  proof cases
    case 1
    with 2(1) show ?thesis by auto
  next
    case 2
    with "2.IH"(2-4) show ?thesis by (cases out) (auto split: if_splits)
  next
    case 3
    with 2(5) show ?thesis by simp
  qed
qed

lemma Dir_last_slash:
  assumes "LastIndexByte d c = Some i"
  shows "\<exists>q r. d = q @ c # r \<and> take (Suc i) d = q @ [c]"
proof -
  from assms obtain z where z: "find_index (\<lambda>d. d = c) (rev d) = Some z" "i = length d - Suc z"
    by (auto simp: LastIndexByte_def)
  from find_index_Some [OF z(1)] have "z < length d" "rev d ! z = c" by auto
  with z(2) have i: "i < length d" "d ! i = c" by (auto simp: rev_nth)
  from id_take_nth_drop [OF i(1)] i take_Suc_conv_app_nth [OF i(1)] show ?thesis by metis
qed

lemma Clean_slash_length:
  assumes "q \<noteq> []"
  shows "Clean (q @ ''/'') = ''.'' \<or> length (Clean (q @ ''/'')) \<le> length q"
proof -
  let ?ne = "filter (\<lambda>e. e \<noteq> '''')"
  have s: "Split (q @ ''/'') ''/'' = Split q ''/'' @ [[]]"
    using Split_append [of "''/''" q "[]"] by (simp add: Split_def)
  have w: "elems_weight (Split q ''/'') = Suc (length q)"
    using length_Join_slash [of "Split q ''/''"] by (simp add: Join_Split)
  have f: "elems_weight (?ne es) \<le> elems_weight es" for es by (induction es) auto
  have c: "elems_weight (clean_elems (q @ ''/'')) \<le> elems_weight (?ne (Split q ''/''))"
    using clean_stack_weight [of "IsAbs (q @ ''/'')" "[]" "Split (q @ ''/'') ''/''"]
    by (simp add: clean_elems_def s)
  have a: "IsAbs (q @ ''/'') = IsAbs q" using assms by (cases q) (simp_all add: IsAbs_def HasPrefix_def)
  show ?thesis
  proof (cases "clean_elems (q @ ''/'') = []")
    case True
    with assms show ?thesis by (auto simp: Clean_def Let_def Suc_le_eq)
  next
    case False
    note j = length_Join_slash [OF False]
    show ?thesis
    proof (cases "IsAbs q")
      case True
      then obtain q' where q: "q = CHR ''/'' # q'" by (cases q) (auto simp: IsAbs_def HasPrefix_def)
      have "elems_weight (?ne (Split q ''/'')) \<le> length q"
        using w f [of "Split q' ''/''"] by (simp add: q Split_Cons_sep)
      with c j True a show ?thesis by (simp add: Clean_def)
    next
      case False
      have "elems_weight (?ne (Split q ''/'')) \<le> Suc (length q)" using w f [of "Split q ''/''"] by simp
      with c j False a \<open>clean_elems (q @ ''/'') \<noteq> []\<close> show ?thesis by (simp add: Clean_def)
    qed
  qed
qed

definition up_measure :: "string \<Rightarrow> nat" where
  "up_measure d = (if d = ''.'' then 0 else Suc (length d))"

lemma Dir_shrinks:
  assumes "Dir d \<noteq> d"
  shows "up_measure (Dir d) < up_measure d"
proof (cases "LastIndexByte d CHR ''/''")
  case None
  then have "Dir d = ''.''" by (simp add: Dir_def Clean_def clean_elems_def Split_def IsAbs_def HasPrefix_def)
  with assms show ?thesis by (simp add: up_measure_def)
next
  case (Some i)
  from Dir_last_slash [OF this] obtain q r where q: "d = q @ CHR ''/'' # r" "take (Suc i) d = q @ ''/''" by blast
  then have dir: "Dir d = Clean (q @ ''/'')" using Some by (simp add: Dir_def)
  have nd: "d \<noteq> ''.''" using q(1) by (cases q) auto
  show ?thesis
  proof (cases "q = []")
    case True
    have "Clean ''/'' = ''/''" by (simp add: Clean_def clean_elems_def Split_Cons_sep Split_def)
    with True dir have "Dir d = ''/''" by simp
    with assms q(1) True nd show ?thesis by (cases r) (auto simp: up_measure_def)
  next
    case False
    from Clean_slash_length [OF this] dir q(1) nd show ?thesis by (auto simp: up_measure_def)
  qed
qed

section \<open>Paths of names\<close>

lemma Clean_plain:
  assumes "es \<noteq> []" and "\<forall>e \<in> set es. plain_elem e"
  shows "Clean (Join es ''/'') = Join es ''/''"
proof -
  obtain a as where es: "es = a # as" using assms(1) by (cases es) auto
  with assms(2) have "a \<noteq> []" "CHR ''/'' \<notin> set a" by (auto simp: plain_elem_def)
  then obtain x xs where a: "a = x # xs" "x \<noteq> CHR ''/''" by (cases a) auto
  have "\<not> IsAbs (Join es ''/'')" using a es by (cases as) (auto simp: IsAbs_def HasPrefix_def)
  with assms show ?thesis by (simp add: Clean_def clean_elems_def Split_plain clean_stack_plain)
qed

definition plain_path :: "string \<Rightarrow> bool" where
  "plain_path p \<longleftrightarrow> list_all plain_elem (Split p ''/'')"

lemma plain_path_iff: "plain_path p \<longleftrightarrow> (\<exists>es. es \<noteq> [] \<and> (\<forall>e \<in> set es. plain_elem e) \<and> p = Join es ''/'')"
proof
  assume "plain_path p"
  then show "\<exists>es. es \<noteq> [] \<and> (\<forall>e \<in> set es. plain_elem e) \<and> p = Join es ''/''"
    by (intro exI [of _ "Split p ''/''"]) (simp add: plain_path_def list_all_iff Join_Split)
qed (auto simp: plain_path_def list_all_iff Split_plain)

lemma plain_path_Clean: "plain_path p \<Longrightarrow> Clean p = p"
  by (auto simp: plain_path_iff Clean_plain)

lemma plain_path_append: "plain_path (d @ ''/'' @ e) \<longleftrightarrow> plain_path d \<and> plain_path e"
  using Split_append [of "''/''" d e] by (simp add: plain_path_def)

lemma plain_path_nonempty: "plain_path p \<Longrightarrow> p \<noteq> []"
  by (auto simp: plain_path_def Split_def plain_elem_def)

lemma plain_join:
  assumes "plain_path d" and "plain_path e"
  shows "JoinPath [d, e] = d @ ''/'' @ e" and "plain_path (JoinPath [d, e])"
proof -
  have p: "plain_path (d @ ''/'' @ e)" using assms by (simp only: plain_path_append)
  with assms show j: "JoinPath [d, e] = d @ ''/'' @ e"
    using plain_path_Clean [OF p] plain_path_nonempty by (simp add: JoinPath_def)
  show "plain_path (JoinPath [d, e])" using p by (simp add: j)
qed

lemma plain_path_elem: "plain_elem e \<Longrightarrow> plain_path e"
  by (simp add: plain_path_def Split_char_none plain_elem_def)

end
