(* ===== verification/Utils.thy ===== *)
theory Utils
  imports Variables GoPaths
begin

text \<open>
  Package \<open>internal/utils\<close>: environment lists and env files, the expansion of variables in
  strings, the path sandbox, machine-friendly and base62 names, the naming of nested
  pipelines, and the configuration structs of \<open>binary.go\<close>. What the operating system
  holds (environment, working directory, files) is the record \<open>host\<close>. Go's
  \<open>text/template\<close> engine is the argument \<open>exec\<close> of \<open>ParseTemplate\<close>: it is given the
  \<open>missingkey\<close> option, the template, the variables and the environment, and returns an
  error text or the rendered text.
\<close>

section \<open>The host\<close>

datatype file_kind = RegFile | Directory

datatype stat_result = StatOk file_kind | StatNotExist | StatError

record host =
  host_getenv :: "string \<Rightarrow> string option"
  host_cwd :: "string option"
  host_home :: string
  host_stat :: "string \<Rightarrow> stat_result"
  host_open :: "string \<Rightarrow> string option"
  host_evalsym :: "string \<Rightarrow> string option"

definition FileExists :: "host \<Rightarrow> string \<Rightarrow> bool" where
  "FileExists h file = (host_stat h file \<noteq> StatNotExist)"

section \<open>Env files\<close>

record ModifyEnv =
  Pattern :: string
  Operation :: string

record Envfile =
  Exclude :: "string list"
  Include :: "string list"
  PathValue :: "string list"
  ReplaceChar :: string
  Quote :: bool
  Modify :: "ModifyEnv list"
  GeneratedDir :: string

definition IsValid :: "ModifyEnv \<Rightarrow> bool" where
  "IsValid me = (Contains (Pattern me) ''keyword'' \<and> Contains (Pattern me) ''varname'')"

datatype envfile_error = ErrInvalidOptionsEnvFile | ErrEnvfileFormatIncorrect

fun validate_modify :: "ModifyEnv list \<Rightarrow> envfile_error option" where
  "validate_modify [] = None"
| "validate_modify (v # vs) = (if \<not> IsValid v then Some ErrInvalidOptionsEnvFile else validate_modify vs)"

definition Validate :: "Envfile \<Rightarrow> envfile_error option" where
  "Validate e = validate_modify (Modify e)"

definition REPLACE_CHAR_DEFAULT :: string where
  "REPLACE_CHAR_DEFAULT = '' ''"

text \<open>The zero value \<open>&utils.Envfile{}\<close> and the constructor with its defaults.\<close>

definition ZeroEnvFile :: Envfile where
  "ZeroEnvFile = \<lparr>Exclude = [], Include = [], PathValue = [], ReplaceChar = '''', Quote = False,
     Modify = [], GeneratedDir = ''''\<rparr>"

definition NewEnvFile :: "(Envfile \<Rightarrow> Envfile) list \<Rightarrow> Envfile" where
  "NewEnvFile opts = fold (\<lambda>o1 e. o1 e) opts
     (ZeroEnvFile\<lparr>ReplaceChar := REPLACE_CHAR_DEFAULT, GeneratedDir := ''.eirctl''\<rparr>)"

definition WithPath :: "Envfile \<Rightarrow> string list \<Rightarrow> Envfile" where
  "WithPath e path = e\<lparr>PathValue := path\<rparr>"

definition Path :: "Envfile \<Rightarrow> string list" where
  "Path e = PathValue e"

section \<open>Environment lists\<close>

text \<open>
  A Go map is handed to \<open>ConvertEnv\<close> in the order the runtime picks: the argument is any
  enumeration of the map.
\<close>

definition ConvertEnv :: "(string \<times> string) list \<Rightarrow> string list" where
  "ConvertEnv env = map (\<lambda>(k, v). k @ ''='' @ v) env"

fun convert_from :: "string list \<Rightarrow> (string \<rightharpoonup> string) \<Rightarrow> (string \<rightharpoonup> string)" where
  "convert_from [] envMap = envMap"
| "convert_from (val # env) envMap =
     (let v = Split val ''='' in convert_from env (envMap(hd v \<mapsto> Join (tl v) ''='')))"

definition ConvertFromEnv :: "string list \<Rightarrow> (string \<rightharpoonup> string)" where
  "ConvertFromEnv env = convert_from env Map.empty"

lemma Split_assign: "CHR ''='' \<notin> set k \<Longrightarrow> Split (k @ ''='' @ v) ''='' = k # Split v ''=''"
  using Split_append [of "''=''" k v] by (simp add: Split_char_none)

lemma convert_from_ConvertEnv:
  "\<forall>kv \<in> set kvs. CHR ''='' \<notin> set (fst kv) \<Longrightarrow>
     convert_from (ConvertEnv kvs) m = fold upd_pair kvs m"
proof (induction kvs arbitrary: m)
  case Nil
  then show ?case by (simp add: ConvertEnv_def)
next
  case (Cons kv kvs)
  obtain k v where kv: "kv = (k, v)" by (cases kv)
  with Cons.prems have "Split (k @ ''='' @ v) ''='' = k # Split v ''=''"
    by (intro Split_assign) auto
  moreover have "Join (Split v ''='') ''='' = v" by (rule Join_Split) simp
  ultimately have "convert_from (ConvertEnv (kv # kvs)) m = convert_from (ConvertEnv kvs) (upd_pair kv m)"
    by (simp add: kv ConvertEnv_def upd_pair_simp Let_def)
  with Cons show ?case by simp
qed

theorem ConvertFromEnv_ConvertEnv:
  "distinct (map fst kvs) \<Longrightarrow> \<forall>kv \<in> set kvs. CHR ''='' \<notin> set (fst kv) \<Longrightarrow>
     ConvertFromEnv (ConvertEnv kvs) = map_of kvs"
  by (simp add: ConvertFromEnv_def convert_from_ConvertEnv fold_upd_pair)

section \<open>Expansion of variables: os.Expand\<close>

definition isShellSpecialVar :: "char \<Rightarrow> bool" where
  "isShellSpecialVar c = (c \<in> set ''*#$@!?-'' \<or> is_digit c)"

definition isAlphaNum :: "char \<Rightarrow> bool" where
  "isAlphaNum c = (c = CHR ''_'' \<or> is_digit c \<or> is_lower c \<or> is_upper c)"

definition brace_name :: "string \<Rightarrow> string \<times> nat" where
  "brace_name cs = (case find_index (\<lambda>c. c = CHR 0x7D) cs of
     None \<Rightarrow> ('''', 1)
   | Some i \<Rightarrow> if i = 0 then ('''', 2) else (take i cs, i + 2))"

fun getShellName :: "string \<Rightarrow> string \<times> nat" where
  "getShellName [] = ('''', 0)"
| "getShellName (c # cs) =
     (if c = CHR 0x7B then
        (if 2 \<le> length cs \<and> isShellSpecialVar (hd cs) \<and> hd (tl cs) = CHR 0x7D
         then ([hd cs], 3) else brace_name cs)
      else if isShellSpecialVar c then ([c], 1)
      else (let n = takeWhile isAlphaNum (c # cs) in (n, length n)))"

function Expand :: "(string \<Rightarrow> string) \<Rightarrow> string \<Rightarrow> string" where
  "Expand mapping [] = []"
| "Expand mapping (c # cs) =
     (if c = CHR ''$'' \<and> cs \<noteq> [] then
        (let (name, w) = getShellName cs in
         if name = [] \<and> 0 < w then Expand mapping (drop w cs)
         else if name = [] then c # Expand mapping cs
         else mapping name @ Expand mapping (drop w cs))
      else c # Expand mapping cs)"
  by pat_completeness auto
termination
  by (relation "measure (\<lambda>(m, s). length s)") auto

lemma Expand_no_dollar: "CHR ''$'' \<notin> set s \<Longrightarrow> Expand m s = s"
  by (induction s) auto

definition host_env :: "host \<Rightarrow> string \<Rightarrow> string" where
  "host_env h k = (case host_getenv h k of None \<Rightarrow> '''' | Some v \<Rightarrow> v)"

definition ExpandEnv :: "host \<Rightarrow> string \<Rightarrow> string" where
  "ExpandEnv h s = Expand (host_env h) s"

definition NormalizeHome :: "host \<Rightarrow> string \<Rightarrow> string" where
  "NormalizeHome h v = Replace1 (Expand (\<lambda>s. if ToLower s = ''home'' then host_home h else s) v)
     ''~'' (host_home h)"

section \<open>Reading env files\<close>

text \<open>
  \<open>bufio.Scanner\<close> with \<open>ScanLines\<close>: lines without the newline and one trailing carriage
  return; a line that does not fit its 64 KiB buffer stops the scan with an error.
\<close>

fun lines_scan :: "string \<Rightarrow> string \<Rightarrow> string list" where
  "lines_scan cur [] = (if cur = [] then [] else [rev cur])"
| "lines_scan cur (c # cs) =
     (if c = CHR 0x0A then rev cur # lines_scan [] cs else lines_scan (c # cur) cs)"

definition dropCR :: "string \<Rightarrow> string" where
  "dropCR l = (if l \<noteq> [] \<and> last l = CHR 0x0D then butlast l else l)"

definition MaxScanTokenSize :: nat where
  "MaxScanTokenSize = 65536"

definition scan_lines :: "string \<Rightarrow> string list option" where
  "scan_lines s = (let ls = lines_scan [] s in
     if \<exists>l \<in> set ls. MaxScanTokenSize \<le> length l then None else Some (map dropCR ls))"

definition read_env_line :: "string \<Rightarrow> (string \<rightharpoonup> string) \<Rightarrow> (string \<rightharpoonup> string)" where
  "read_env_line line envs = (let kv = Split line ''='' in
     if 2 \<le> length kv
     then envs(hd kv \<mapsto> Expand (\<lambda>key. get_or '''' envs key) (Join (tl kv) ''=''))
     else envs)"

definition ReadEnvFile :: "string \<Rightarrow> (string \<rightharpoonup> string) option" where
  "ReadEnvFile content = map_option (\<lambda>ls. fold read_env_line ls Map.empty) (scan_lines content)"

section \<open>The path sandbox\<close>

definition abs_path :: "host \<Rightarrow> string \<Rightarrow> string option" where
  "abs_path h p = (if IsAbs p then Some (Clean p) else map_option (\<lambda>wd. JoinPath [wd, p]) (host_cwd h))"

definition real_path :: "host \<Rightarrow> string \<Rightarrow> string" where
  "real_path h p = (case host_evalsym h p of Some r \<Rightarrow> r | None \<Rightarrow> Clean p)"

definition IsPathInsideSandbox :: "host \<Rightarrow> string \<Rightarrow> bool" where
  "IsPathInsideSandbox h resolvedPath =
     (case abs_path h resolvedPath of
        None \<Rightarrow> False
      | Some absPath \<Rightarrow>
          (case host_cwd h of
             None \<Rightarrow> False
           | Some wd \<Rightarrow>
               (case Rel (real_path h wd) (real_path h absPath) of
                  None \<Rightarrow> False
                | Some rel \<Rightarrow>
                    if rel = ''.'' then True
                    else \<not> HasPrefix rel ''../'' \<and> rel \<noteq> ''..'')))"

text \<open>
  \<open>ReaderFromPath\<close>: the paths it opens, in order, with their contents. \<open>None\<close> is the
  result \<open>(nil, false)\<close>: no env file at all, or a file that exists but cannot be opened.
\<close>

fun open_paths :: "host \<Rightarrow> string list \<Rightarrow> (string \<times> string) list \<Rightarrow> (string \<times> string) list option" where
  "open_paths h [] readers = Some readers"
| "open_paths h (p # ps) readers =
     (let p' = ExpandEnv h p in
      if \<not> IsPathInsideSandbox h p' then open_paths h ps readers
      else (case host_stat h p' of
              StatOk k \<Rightarrow> (case host_open h p' of
                  None \<Rightarrow> None
                | Some c \<Rightarrow> open_paths h ps (readers @ [(p', c)]))
            | _ \<Rightarrow> open_paths h ps readers))"

definition ReaderFromPath :: "host \<Rightarrow> Envfile option \<Rightarrow> (string \<times> string) list option" where
  "ReaderFromPath h envfile =
     (case envfile of None \<Rightarrow> None | Some e \<Rightarrow> open_paths h (PathValue e) [])"

definition EIRCTL_ENV_FILE :: string where
  "EIRCTL_ENV_FILE = ''eirctl.env''"

definition DefaultTaskctlEnv :: "host \<Rightarrow> variables" where
  "DefaultTaskctlEnv h =
     (case host_stat h EIRCTL_ENV_FILE of
        StatOk k \<Rightarrow> (case host_open h EIRCTL_ENV_FILE of
            None \<Rightarrow> NewVariables
          | Some c \<Rightarrow> (case ReadEnvFile c of
                None \<Rightarrow> NewVariables
              | Some m \<Rightarrow> Merge NewVariables (FromMap m)))
      | _ \<Rightarrow> NewVariables)"

section \<open>Templates\<close>

type_synonym tmpl_exec = "string \<Rightarrow> string \<Rightarrow> variables \<Rightarrow> variables \<Rightarrow> string + string"

definition ParseTemplate ::
  "tmpl_exec \<Rightarrow> string \<Rightarrow> variables \<Rightarrow> variables \<Rightarrow> string + string" where
  "ParseTemplate exec tmpl variables env =
     (if tmpl = '''' then Inr tmpl
      else (let data = variables(''Env'' := None) in
        case exec ''error'' tmpl data env of
          Inr out \<Rightarrow> Inr out
        | Inl e \<Rightarrow>
            (case exec ''default'' tmpl data env of
               Inl e' \<Rightarrow> Inl e'
             | Inr out \<Rightarrow> Inr (ReplaceAll out ''<no value>'' ''##__EIRCTL_NO_VALUE__##''))))"

section \<open>Names\<close>

definition escapeWinPaths :: "string \<Rightarrow> string" where
  "escapeWinPaths path = ReplaceAll path [CHR 0x5C] [CHR 0x5C, CHR 0x5C]"

definition GetFullPath :: "string \<Rightarrow> string \<Rightarrow> string" where
  "GetFullPath wd path =
     (if IsLocal path then escapeWinPaths (JoinPath [wd, path]) else escapeWinPaths path)"

text \<open>
  \<open>strings.NewReplacer\<close> with several pairs: at each position the first pair whose old
  string is found there is replaced, and the scan goes on behind it.
\<close>

fun replacer_scan :: "(string \<times> string) list \<Rightarrow> nat \<Rightarrow> string \<Rightarrow> string" where
  "replacer_scan ps k [] = []"
| "replacer_scan ps (Suc k) (c # cs) = replacer_scan ps k cs"
| "replacer_scan ps 0 (c # cs) =
     (case find (\<lambda>(old, new). HasPrefix (c # cs) old) ps of
        None \<Rightarrow> c # replacer_scan ps 0 cs
      | Some (old, new) \<Rightarrow> new @ replacer_scan ps (length old - 1) cs)"

definition replaceSequence :: "(string \<times> string) list" where
  "replaceSequence =
     [(''->'', ''__a__''), (''|'', ''__b__''), (''/'', ''__c__''), ([CHR 0x5C], ''__d__''),
      ('':'', ''__e__''), ('' '', ''__f__'')]"

definition ConvertToMachineFriendly :: "string \<Rightarrow> string" where
  "ConvertToMachineFriendly str = replacer_scan replaceSequence 0 str"

definition PipelineDirectionChar :: string where
  "PipelineDirectionChar = ''->''"

definition CascadeName :: "string list \<Rightarrow> string \<Rightarrow> string" where
  "CascadeName parents current =
     Join parents PipelineDirectionChar @ PipelineDirectionChar @ current"

definition TailExtract :: "string \<Rightarrow> string" where
  "TailExtract v = last (Split v PipelineDirectionChar)"

subsection \<open>Base62\<close>

text \<open>\<open>big.Int.SetBytes\<close> and \<open>Bytes\<close> (big endian, no leading zero byte), \<open>Text(62)\<close> and
  \<open>SetString(s, 62)\<close> (an optional sign, then at least one digit).\<close>

definition SetBytes :: "string \<Rightarrow> nat" where
  "SetBytes v = foldl (\<lambda>acc c. acc * 256 + byte c) 0 v"

fun nat_bytes :: "nat \<Rightarrow> string" where
  "nat_bytes n = (if n = 0 then [] else nat_bytes (n div 256) @ [char_of (n mod 256)])"

definition digit62 :: "nat \<Rightarrow> char" where
  "digit62 d = (if d < 10 then char_of (48 + d) else if d < 36 then char_of (97 + (d - 10))
     else char_of (65 + (d - 36)))"

definition value62 :: "char \<Rightarrow> nat option" where
  "value62 c = (if is_digit c then Some (byte c - 48)
     else if is_lower c then Some (byte c - 97 + 10)
     else if is_upper c then Some (byte c - 65 + 36) else None)"

fun nat_text62 :: "nat \<Rightarrow> string" where
  "nat_text62 n = (if n < 62 then [digit62 n] else nat_text62 (n div 62) @ [digit62 (n mod 62)])"

declare nat_bytes.simps [simp del] nat_text62.simps [simp del]

fun read62 :: "nat \<Rightarrow> string \<Rightarrow> nat option" where
  "read62 acc [] = Some acc"
| "read62 acc (c # cs) = (case value62 c of None \<Rightarrow> None | Some d \<Rightarrow> read62 (acc * 62 + d) cs)"

definition SetString62 :: "string \<Rightarrow> nat option" where
  "SetString62 s = (case s of
     [] \<Rightarrow> None
   | c # cs \<Rightarrow> if c = CHR ''+'' \<or> c = CHR ''-'' then (if cs = [] then None else read62 0 cs)
               else read62 0 (c # cs))"

definition EncodeBase62 :: "string \<Rightarrow> string" where
  "EncodeBase62 str = nat_text62 (SetBytes str)"

definition DecodeBase62 :: "string \<Rightarrow> string" where
  "DecodeBase62 str = (case SetString62 str of None \<Rightarrow> '''' | Some i \<Rightarrow> nat_bytes i)"

section \<open>Configuration structs of binary.go\<close>

record Binary =
  Bin :: string
  Args :: "string list"

definition WithBaseArgs :: "Binary \<Rightarrow> string list \<Rightarrow> Binary" where
  "WithBaseArgs b args = b\<lparr>Args := Args b @ args\<rparr>"

definition GetArgs :: "Binary \<Rightarrow> string list" where
  "GetArgs b = Args b"

record Container =
  cName :: string
  Entrypoint :: "string list option"
  EnableDinD :: bool
  EnableBindMount :: bool
  ContainerArgs :: "string list"
  Shell :: string
  ShellArgs :: "string list option"
  PullTimeout :: int

section \<open>Properties\<close>

lemma unbordered_arrow [simp]: "unbordered ''->''"
  by (auto simp: unbordered_def less_Suc_eq_0_disj numeral_2_eq_2 HasPrefix_def)

text \<open>The name of a task in a cascade of pipelines gives the task's own name back, whatever the
  names of the pipelines above it.\<close>

theorem TailExtract_CascadeName:
  assumes "\<not> Contains current PipelineDirectionChar"
  shows "TailExtract (CascadeName parents current) = current"
  using assms Split_append [OF unbordered_arrow]
  by (simp add: TailExtract_def CascadeName_def PipelineDirectionChar_def Split_none)

theorem TailExtract_CascadeName_witness:
  "TailExtract (CascadeName [''ci->x'', ''build''] ''go-test'') = ''go-test''"
  by (rule TailExtract_CascadeName) (simp add: PipelineDirectionChar_def Contains_def HasPrefix_def)

text \<open>An environment written as \<open>k=v\<close> entries is read back as it was: values may hold an equals
  sign, names may not.\<close>

theorem ConvertFromEnv_roundtrip:
  assumes "distinct (map fst kvs)" and "\<forall>kv \<in> set kvs. CHR ''='' \<notin> set (fst kv)"
  shows "ConvertFromEnv (ConvertEnv kvs) = map_of kvs"
  using assms by (rule ConvertFromEnv_ConvertEnv)

theorem ConvertFromEnv_roundtrip_witness:
  "ConvertFromEnv (ConvertEnv [(''A'', ''x=y''), (''B'', '''')]) ''A'' = Some ''x=y''"
  by (subst ConvertFromEnv_roundtrip) simp_all

lemma value62_digit62: "d < 62 \<Longrightarrow> value62 (digit62 d) = Some d"
  by (auto simp: value62_def digit62_def is_digit_def is_lower_def is_upper_def byte_def)

lemma read62_append:
  "read62 acc (xs @ ys) = (case read62 acc xs of None \<Rightarrow> None | Some a \<Rightarrow> read62 a ys)"
  by (induction xs arbitrary: acc) (auto split: option.splits)

lemma read62_text: "read62 0 (nat_text62 n) = Some n"
proof (induction n rule: nat_text62.induct)
  case (1 n)
  then show ?case
    by (cases "n < 62") (simp_all add: nat_text62.simps [of n] read62_append value62_digit62)
qed

lemma nat_text62_nonempty: "nat_text62 n \<noteq> []"
  by (simp add: nat_text62.simps [of n])

lemma SetString62_text: "SetString62 (nat_text62 n) = Some n"
proof -
  obtain c cs where n: "nat_text62 n = c # cs" using nat_text62_nonempty by (cases "nat_text62 n") auto
  with read62_text [of n] have r: "read62 0 (c # cs) = Some n" by simp
  have "value62 CHR ''+'' = None" "value62 CHR ''-'' = None"
    by (simp_all add: value62_def is_digit_def is_lower_def is_upper_def byte_def)
  with r have "c \<noteq> CHR ''+'' \<and> c \<noteq> CHR ''-''" by (auto split: option.splits)
  with r n show ?thesis by (simp add: SetString62_def)
qed

lemma SetBytes_append: "SetBytes (v @ [c]) = SetBytes v * 256 + byte c"
  by (simp add: SetBytes_def)

lemma byte_less: "byte c < 256"
  by (simp add: byte_def)

lemma SetBytes_pos: "v \<noteq> [] \<Longrightarrow> byte (hd v) \<noteq> 0 \<Longrightarrow> 0 < SetBytes v"
proof (induction v rule: rev_induct)
  case (snoc c v)
  show ?case
  proof (cases "v = []")
    case True
    with snoc.prems show ?thesis by (simp add: SetBytes_def)
  next
    case False
    with snoc show ?thesis by (simp add: SetBytes_append)
  qed
qed simp

lemma nat_bytes_SetBytes: "v = [] \<or> byte (hd v) \<noteq> 0 \<Longrightarrow> nat_bytes (SetBytes v) = v"
proof (induction v rule: rev_induct)
  case Nil
  then show ?case by (simp add: SetBytes_def nat_bytes.simps)
next
  case (snoc c v)
  have pos: "0 < SetBytes (v @ [c])" using snoc.prems SetBytes_pos [of "v @ [c]"] by simp
  have "nat_bytes (SetBytes v) = v" using snoc by (cases v) auto
  moreover have "(SetBytes v * 256 + byte c) div 256 = SetBytes v" "(SetBytes v * 256 + byte c) mod 256 = byte c"
    using byte_less [of c] by simp_all
  moreover have "char_of (byte c) = c" by (simp add: byte_def)
  ultimately show ?case
    using pos by (simp add: nat_bytes.simps [of "SetBytes v * 256 + byte c"] SetBytes_append)
qed

text \<open>Base62 decoding inverts encoding, for every string that does not begin with a NUL byte.\<close>

theorem Base62_roundtrip:
  assumes "str = [] \<or> byte (hd str) \<noteq> 0"
  shows "DecodeBase62 (EncodeBase62 str) = str"
  using assms by (simp add: DecodeBase62_def EncodeBase62_def SetString62_text nat_bytes_SetBytes)

theorem Base62_roundtrip_witness:
  "DecodeBase62 (EncodeBase62 ''pipeline->task'') = ''pipeline->task''"
  by (rule Base62_roundtrip) (simp add: byte_def)

text \<open>
  The file system's part of the sandbox: the working directory is absolute, and resolving the
  links of an absolute path gives an absolute path.
\<close>

definition sane_host :: "host \<Rightarrow> string \<Rightarrow> bool" where
  "sane_host h wd \<longleftrightarrow> host_cwd h = Some wd \<and> IsAbs wd \<and>
     (\<forall>p r. IsAbs p \<longrightarrow> host_evalsym h p = Some r \<longrightarrow> IsAbs r)"

lemma sane_real_path: "sane_host h wd \<Longrightarrow> IsAbs p \<Longrightarrow> IsAbs (real_path h p)"
  by (auto simp: sane_host_def real_path_def IsAbs_Clean split: option.splits)

lemma IsAbs_Join: "IsAbs wd \<Longrightarrow> IsAbs (JoinPath [wd, p])"
proof -
  assume w: "IsAbs wd"
  then have "wd \<noteq> []" "IsAbs (wd @ x)" for x by (auto simp: IsAbs_def HasPrefix_iff)
  with w show ?thesis by (auto simp: JoinPath_def Join_Cons intro!: IsAbs_Clean)
qed

lemma sandbox_iff:
  assumes h: "sane_host h wd"
  shows "IsPathInsideSandbox h p \<longleftrightarrow> inside (real_path h wd) (real_path h (AbsPath wd p))"
proof -
  have wd: "host_cwd h = Some wd" "IsAbs wd" using h by (auto simp: sane_host_def)
  have "IsAbs (AbsPath wd p)" using wd(2) by (auto simp: AbsPath_def IsAbs_Clean IsAbs_Join)
  with Rel_abs [OF sane_real_path [OF h wd(2)] sane_real_path [OF h]] obtain rel where
    "Rel (real_path h wd) (real_path h (AbsPath wd p)) = Some rel"
    "rel = ''.'' \<or> \<not> HasPrefix rel ''../'' \<and> rel \<noteq> ''..'' \<longleftrightarrow> inside (real_path h wd) (real_path h (AbsPath wd p))"
    by blast
  moreover have "abs_path h p = Some (AbsPath wd p)" using wd by (simp add: abs_path_def AbsPath_def)
  ultimately show ?thesis using wd by (auto simp: IsPathInsideSandbox_def)
qed

lemma open_paths_inside:
  "open_paths h ps acc = Some rs \<Longrightarrow> (q, c) \<in> set rs \<Longrightarrow>
     (q, c) \<in> set acc \<or> IsPathInsideSandbox h q \<and> host_open h q = Some c \<and> (\<exists>p \<in> set ps. q = ExpandEnv h p)"
proof (induction ps arbitrary: acc)
  case (Cons p ps)
  let ?p = "ExpandEnv h p"
  consider "open_paths h ps acc = Some rs"
    | c' where "IsPathInsideSandbox h ?p" "host_open h ?p = Some c'" "open_paths h ps (acc @ [(?p, c')]) = Some rs"
    using Cons.prems(1) by (auto simp: Let_def split: if_splits stat_result.splits option.splits)
  then show ?case
  proof cases
    case 1
    with Cons.IH Cons.prems(2) show ?thesis by auto
  next
    case 2
    with Cons.IH [OF 2(3) Cons.prems(2)] show ?thesis by auto
  qed
qed simp

text \<open>C16. Every env file that is opened lies inside the project: after expansion of variables and
  resolution of links, its path extends the real path of the working directory.\<close>

theorem ReaderFromPath_sandboxed:
  assumes "sane_host h wd" and "ReaderFromPath h (Some e) = Some readers" and "(q, c) \<in> set readers"
  shows "inside (real_path h wd) (real_path h (AbsPath wd q)) \<and>
    (\<exists>p \<in> set (PathValue e). q = ExpandEnv h p)"
  using open_paths_inside [of h "PathValue e" "[]" readers q c] assms(2,3) sandbox_iff [OF assms(1)]
  by (simp add: ReaderFromPath_def)

definition demo_host :: host where
  "demo_host = \<lparr>host_getenv = (\<lambda>k. None), host_cwd = Some ''/w'', host_home = ''/h'',
     host_stat = (\<lambda>p. StatOk RegFile), host_open = (\<lambda>p. Some ''A=1''), host_evalsym = (\<lambda>p. Some p)\<rparr>"

theorem ReaderFromPath_sandboxed_witness:
  "\<exists>readers. ReaderFromPath demo_host (Some (WithPath ZeroEnvFile [''a.env''])) = Some readers \<and>
     (''a.env'', ''A=1'') \<in> set readers \<and>
     inside (real_path demo_host ''/w'') (real_path demo_host (AbsPath ''/w'' ''a.env''))"
proof -
  have h: "sane_host demo_host ''/w''" by (simp add: sane_host_def demo_host_def IsAbs_def HasPrefix_def)
  have "IsPathInsideSandbox demo_host ''a.env''" by code_simp
  then have r: "ReaderFromPath demo_host (Some (WithPath ZeroEnvFile [''a.env''])) = Some [(''a.env'', ''A=1'')]"
    by (simp add: ReaderFromPath_def WithPath_def ZeroEnvFile_def ExpandEnv_def Expand_no_dollar)
      (simp add: demo_host_def)
  from ReaderFromPath_sandboxed [OF h r, of "''a.env''" "''A=1''"] r show ?thesis by simp
qed

end
