(* ===== verification/Stage.thy ===== *)
theory Stage
  imports Utils
begin

text \<open>
  \<open>scheduler/stage.go\<close>: the stage (a node of an execution graph), its status, and the
  ordering \<open>StageList.Less\<close> that the CI generator sorts with. Pointers to tasks, pipelines
  and env files are numbers into the store of theory \<open>Denormalize\<close>; a \<open>time.Time\<close> is
  \<open>None\<close> while it is zero.
\<close>

section \<open>Status\<close>

datatype status =
    StatusWaiting
  | StatusRunning
  | StatusSkipped
  | StatusDone
  | StatusError
  | StatusCanceled

text \<open>The \<open>int32\<close> constants, in \<open>iota\<close> order; they order the type.\<close>

fun status_code :: "status \<Rightarrow> int" where
  "status_code StatusWaiting = 0"
| "status_code StatusRunning = 1"
| "status_code StatusSkipped = 2"
| "status_code StatusDone = 3"
| "status_code StatusError = 4"
| "status_code StatusCanceled = 5"

lemma status_code_inject: "status_code a = status_code b \<Longrightarrow> a = b"
  by (cases a; cases b) simp_all

instantiation status :: linorder
begin

definition less_eq_status :: "status \<Rightarrow> status \<Rightarrow> bool" where
  "less_eq_status a b = (status_code a \<le> status_code b)"

definition less_status :: "status \<Rightarrow> status \<Rightarrow> bool" where
  "less_status a b = (status_code a < status_code b)"

instance
  by standard (auto simp: less_eq_status_def less_status_def intro: status_code_inject)

end

text \<open>The statuses on which a schedule keeps looping, and those on which it may end.\<close>

definition terminal :: "status \<Rightarrow> bool" where
  "terminal s \<longleftrightarrow> StatusRunning < s"

lemma terminal_iff:
  "terminal s \<longleftrightarrow> s \<noteq> StatusWaiting \<and> s \<noteq> StatusRunning"
  by (cases s) (simp_all add: terminal_def less_status_def)

section \<open>Stages\<close>

type_synonym ref = nat

record Stage =
  sName :: string
  sCondition :: string
  sTask :: "ref option"
  sPipeline :: "ref option"
  sAlias :: string
  sDependsOn :: "string list"
  sDir :: string
  sAllowFailure :: bool
  sStatus :: status
  sEnv :: variables
  sEnvfile :: "ref option"
  sVariables :: variables
  sStart :: "int option"
  sEnd :: "int option"
  sGenerator :: "string \<rightharpoonup> gval"

text \<open>
  \<open>NewStage\<close>: the options run first, then the name and the status are overwritten. The env
  file is freshly allocated, so its reference \<open>ef\<close> comes from the caller.
\<close>

definition NewStage :: "ref \<Rightarrow> string \<Rightarrow> (Stage \<Rightarrow> Stage) list \<Rightarrow> Stage" where
  "NewStage ef name opts =
     (fold (\<lambda>o1 s. o1 s) opts
        \<lparr>sName = '''', sCondition = '''', sTask = None, sPipeline = None, sAlias = '''',
         sDependsOn = [], sDir = '''', sAllowFailure = False, sStatus = StatusWaiting,
         sEnv = NewVariables, sEnvfile = Some ef, sVariables = NewVariables,
         sStart = None, sEnd = None, sGenerator = Map.empty\<rparr>)
       \<lparr>sName := name, sStatus := StatusWaiting\<rparr>"

definition WithEnv :: "Stage \<Rightarrow> variables \<Rightarrow> Stage" where
  "WithEnv s v = s\<lparr>sEnv := Merge (sEnv s) v\<rparr>"

definition WithVariables :: "Stage \<Rightarrow> variables \<Rightarrow> Stage" where
  "WithVariables s v = s\<lparr>sVariables := Merge (sVariables s) v\<rparr>"

definition WithEnvFile :: "Stage \<Rightarrow> ref option \<Rightarrow> Stage" where
  "WithEnvFile s v = s\<lparr>sEnvfile := v\<rparr>"

definition UpdateStatus :: "Stage \<Rightarrow> status \<Rightarrow> Stage" where
  "UpdateStatus s st = s\<lparr>sStatus := st\<rparr>"

definition ReadStatus :: "Stage \<Rightarrow> status" where
  "ReadStatus s = sStatus s"

definition WithStart :: "Stage \<Rightarrow> int \<Rightarrow> Stage" where
  "WithStart s v = s\<lparr>sStart := Some v\<rparr>"

definition WithEnd :: "Stage \<Rightarrow> int \<Rightarrow> Stage" where
  "WithEnd s v = s\<lparr>sEnd := Some v\<rparr>"

definition stage_Duration :: "Stage \<Rightarrow> int" where
  "stage_Duration s = (case sEnd s of None \<Rightarrow> 0 | Some e \<Rightarrow> e) - (case sStart s of None \<Rightarrow> 0 | Some b \<Rightarrow> b)"

text \<open>
  The name given in an option is lost: \<open>NewStage\<close> sets the name after the options.
  \<open>NewExecutionGraph\<close> passes such an option for its root node.
\<close>

lemma NewStage_name [simp]: "sName (NewStage ef name opts) = name"
  by (simp add: NewStage_def)

lemma NewStage_status [simp]: "sStatus (NewStage ef name opts) = StatusWaiting"
  by (simp add: NewStage_def)

section \<open>The order of a stage list\<close>

definition Less :: "Stage \<Rightarrow> Stage \<Rightarrow> bool" where
  "Less si sj =
     (if sName si \<in> set (sDependsOn sj) then True
      else if sName sj \<in> set (sDependsOn si) then False
      else if length (sDependsOn sj) < length (sDependsOn si) then False
      else sName si < sName sj)"

definition StageList_Len :: "Stage list \<Rightarrow> nat" where
  "StageList_Len s = length s"

definition StageList_Swap :: "Stage list \<Rightarrow> nat \<Rightarrow> nat \<Rightarrow> Stage list" where
  "StageList_Swap s i j = s[i := s ! j, j := s ! i]"

end
