(* ===== verification/Graph.thy ===== *)
theory Graph
  imports Stage
begin

text \<open>
  \<open>scheduler/graph.go\<close>: the execution graph. The adjacency maps \<open>parent\<close> and \<open>children\<close>
  are Go maps from a name to a slice; they are association lists here, so that they are
  finite, and the nodes map a name to the reference of a stage. The theory proves that
  \<open>AddStage\<close> refuses exactly the edges that close a cycle and that the breadth-first
  listing visits each reachable stage once.
\<close>

section \<open>Adjacency maps\<close>

type_synonym adj = "(string \<times> string list) list"

definition succs :: "adj \<Rightarrow> string \<Rightarrow> string list" where
  "succs a n = get_or [] (map_of a) n"

fun append_to :: "adj \<Rightarrow> string \<Rightarrow> string \<Rightarrow> adj" where
  "append_to [] k v = [(k, [v])]"
| "append_to ((k', vs) # a) k v = (if k' = k then (k', vs @ [v]) # a else (k', vs) # append_to a k v)"

lemma succs_append_to:
  "succs (append_to a k v) n = (if n = k then succs a n @ [v] else succs a n)"
  by (induction a k v rule: append_to.induct) (auto simp: succs_def get_or_def)

definition edges :: "adj \<Rightarrow> (string \<times> string) set" where
  "edges a = {(x, y). y \<in> set (succs a x)}"

lemma edges_iff [simp]: "(x, y) \<in> edges a \<longleftrightarrow> y \<in> set (succs a x)"
  by (simp add: edges_def)

lemma edges_append_to: "edges (append_to a k v) = insert (k, v) (edges a)"
  by (auto simp: edges_def succs_append_to split: if_splits)

text \<open>All names that occur in an adjacency map: the search space of both searches.\<close>

definition names :: "adj \<Rightarrow> string set" where
  "names a = fst ` set a \<union> (\<Union>(_, vs) \<in> set a. set vs)"

lemma finite_names [simp]: "finite (names a)"
  by (auto simp: names_def)

lemma succs_names: "y \<in> set (succs a x) \<Longrightarrow> x \<in> names a \<and> y \<in> names a"
proof -
  assume y: "y \<in> set (succs a x)"
  then have "map_of a x = Some (succs a x)"
    unfolding succs_def by (intro get_or_non_zero) auto
  then have "(x, succs a x) \<in> set a" by (rule map_of_SomeD)
  with y show ?thesis by (force simp: names_def)
qed


section \<open>Searches in a finite graph\<close>

text \<open>
  What both searches rest on: a set closed under successors holds everything reachable
  from its members.
\<close>

locale succ_graph =
  fixes succ :: "'n \<Rightarrow> 'n list" and space :: "'n set"
  assumes finite_space: "finite space"
    and succ_space: "y \<in> set (succ x) \<Longrightarrow> x \<in> space \<and> y \<in> space"
begin

definition E :: "('n \<times> 'n) set" where
  "E = {(x, y). y \<in> set (succ x)}"

definition closed :: "'n set \<Rightarrow> bool" where
  "closed F \<longleftrightarrow> (\<forall>x \<in> F. set (succ x) \<subseteq> F)"

lemma closed_reach: "closed F \<Longrightarrow> x \<in> F \<Longrightarrow> (x, y) \<in> E\<^sup>* \<Longrightarrow> y \<in> F"
  by (rotate_tac 2, induction rule: rtrancl_induct) (auto simp: closed_def E_def)

lemma closed_reach_plus: "closed F \<Longrightarrow> x \<in> F \<Longrightarrow> (x, y) \<in> E\<^sup>+ \<Longrightarrow> y \<in> F"
  by (meson closed_reach trancl_into_rtrancl)

text \<open>Adding a node whose successors are all in an acyclic closed set keeps both.\<close>

lemma closed_insert: "closed F \<Longrightarrow> set (succ n) \<subseteq> F \<Longrightarrow> closed (insert n F)"
  by (auto simp: closed_def)

lemma no_cycle_insert:
  assumes F: "closed F" and n: "set (succ n) \<subseteq> F" "n \<notin> F"
    and acyc: "\<forall>x \<in> F. (x, x) \<notin> E\<^sup>+"
  shows "\<forall>x \<in> insert n F. (x, x) \<notin> E\<^sup>+"
proof -
  have "(n, n) \<notin> E\<^sup>+"
  proof
    assume "(n, n) \<in> E\<^sup>+"
    then obtain z where z: "(n, z) \<in> E" "(z, n) \<in> E\<^sup>*" by (meson tranclD)
    with n(1) have "z \<in> F" by (auto simp: E_def)
    with F z(2) have "n \<in> F" by (blast intro: closed_reach)
    with n(2) show False ..
  qed
  with acyc show ?thesis by blast
qed

lemma reach_finite: "finite {y. (x, y) \<in> E\<^sup>*}"
proof (rule finite_subset)
  show "{y. (x, y) \<in> E\<^sup>*} \<subseteq> insert x space"
  proof
    fix y assume "y \<in> {y. (x, y) \<in> E\<^sup>*}"
    then have "(x, y) \<in> E\<^sup>*" by simp
    then show "y \<in> insert x space"
      by (cases rule: rtranclE) (auto simp: E_def dest: succ_space)
  qed
qed (simp add: finite_space)

end

interpretation adjg: succ_graph "succs a" "names a" for a
  by unfold_locales (auto dest: succs_names)

lemma adjg_E: "adjg.E a = edges a"
  by (auto simp: adjg.E_def edges_def)

section \<open>Cycle detection\<close>

text \<open>
  \<open>cycleDfs\<close> threads the maps \<open>visited\<close> and \<open>inStack\<close> through the recursion; they are the
  sets of the names mapped to true. The error carries the child and the node between
  which the back edge was found. The two equations of \<open>cycleDfs_children\<close> are the loop over
  the children of \<open>node\<close>.
\<close>

datatype graph_error = ErrCycleDetected string string | ErrNodeNotFound string

function (sequential)
  cycleDfs :: "adj \<Rightarrow> string \<Rightarrow> string set \<Rightarrow> string set \<Rightarrow> graph_error + string set \<times> string set" and
  cycleDfs_children ::
    "adj \<Rightarrow> string \<Rightarrow> string list \<Rightarrow> string set \<Rightarrow> string set \<Rightarrow> graph_error + string set \<times> string set"
where
  "cycleDfs a node visited inStack =
     (case cycleDfs_children a node (succs a node) (insert node visited) (insert node inStack) of
        Inl e \<Rightarrow> Inl e
      | Inr (visited', inStack') \<Rightarrow> Inr (visited', inStack' - {node}))"
| "cycleDfs_children a node [] visited inStack = Inr (visited, inStack)"
| "cycleDfs_children a node (child # rest) visited inStack =
     (if child \<notin> visited then
        (case cycleDfs a child visited inStack of
           Inl e \<Rightarrow> Inl e
         | Inr (visited', inStack') \<Rightarrow>
             if child \<in> inStack' then Inl (ErrCycleDetected child node)
             else cycleDfs_children a node rest visited' inStack')
      else if child \<in> inStack then Inl (ErrCycleDetected child node)
      else cycleDfs_children a node rest visited inStack)"
  by pat_completeness auto

text \<open>The visited set only grows; this is needed for termination already.\<close>

lemma cycleDfs_grows_partial:
  "cycleDfs_cycleDfs_children_dom (Inl (a, n, vis, stk)) \<Longrightarrow>
     cycleDfs a n vis stk = Inr (vis', stk') \<Longrightarrow> insert n vis \<subseteq> vis'"
  "cycleDfs_cycleDfs_children_dom (Inr (a, n, cs, vis, stk)) \<Longrightarrow>
     cycleDfs_children a n cs vis stk = Inr (vis', stk') \<Longrightarrow> vis \<subseteq> vis'"
proof (induction a n vis stk and a n cs vis stk arbitrary: vis' stk' and vis' stk'
    rule: cycleDfs_cycleDfs_children.pinduct)
  case (1 a node visited inStack)
  from 1(3) 1(2) show ?case
    by (auto simp: cycleDfs.psimps [OF 1(1)] split: sum.splits)
next
  case (2 a node visited inStack)
  then show ?case by (simp add: cycleDfs_children.psimps)
next
  case (3 a node child rest visited inStack)
  from 3(5) show ?case
    by (auto simp: cycleDfs_children.psimps(2) [OF 3(1)] split: if_splits sum.splits)
      (use 3(2-4) in blast)+
qed

termination cycleDfs
proof (relation "inv_image (less_than <*lex*> less_than) (\<lambda>p. case p of
    Inl (a, n, vis, stk) \<Rightarrow> (card (names a - insert n vis), 2 * length (succs a n) + 1)
  | Inr (a, n, cs, vis, stk) \<Rightarrow> (card (names a - vis), 2 * length cs))", goal_cases)
  case 1
  then show ?case by auto
next
  case (2 a node visited inStack)
  then show ?case by simp
next
  case (3 a node child rest visited inStack)
  show ?case
  proof (cases "child \<in> names a")
    case True
    with 3 have "card (names a - insert child visited) < card (names a - visited)"
      by (intro psubset_card_mono) auto
    then show ?thesis by simp
  next
    case False
    then have "succs a child = []" by (meson last_in_set succs_names)
    moreover from False have "names a - insert child visited = names a - visited" by auto
    ultimately show ?thesis by simp
  qed
next
  case (4 a node child rest visited inStack r v s)
  then have "insert child visited \<subseteq> v"
    by (metis cycleDfs_grows_partial(1) surjective_pairing sum.inject(2))
  then have "card (names a - v) \<le> card (names a - visited)"
    by (intro card_mono) auto
  then show ?case by auto
next
  case (5 a node child rest visited inStack)
  then show ?case by simp
qed


declare cycleDfs.simps [simp del]

lemma cycleDfs_grows:
  "cycleDfs a n vis stk = Inr (vis', stk') \<Longrightarrow> insert n vis \<subseteq> vis'"
  "cycleDfs_children a n cs vis stk = Inr (vis', stk') \<Longrightarrow> vis \<subseteq> vis'"
proof (induction a n vis stk and a n cs vis stk arbitrary: vis' stk' and vis' stk'
    rule: cycleDfs_cycleDfs_children.induct)
  case (1 a node visited inStack)
  from 1(2) 1(1) show ?case by (auto simp: cycleDfs.simps split: sum.splits)
next
  case (2 a node visited inStack)
  then show ?case by simp
next
  case (3 a node child rest visited inStack)
  from 3(4) show ?case
    by (auto split: if_splits sum.splits) (use 3(1-3) in blast)+
qed

lemma cycleDfs_stack:
  "cycleDfs a n vis stk = Inr (vis', stk') \<Longrightarrow> stk' \<subseteq> stk"
  "cycleDfs_children a n cs vis stk = Inr (vis', stk') \<Longrightarrow> stk' \<subseteq> stk"
proof (induction a n vis stk and a n cs vis stk arbitrary: vis' stk' and vis' stk'
    rule: cycleDfs_cycleDfs_children.induct)
  case (1 a node visited inStack)
  from 1(2) obtain s where "cycleDfs_children a node (succs a node) (insert node visited)
      (insert node inStack) = Inr (vis', s)" "stk' = s - {node}"
    by (auto simp: cycleDfs.simps split: sum.splits)
  with 1(1) [of vis' s] show ?case by blast
next
  case (2 a node visited inStack)
  then show ?case by simp
next
  case (3 a node child rest visited inStack)
  show ?case
  proof (cases "child \<in> visited")
    case True
    with 3(4) have "child \<notin> inStack" "cycleDfs_children a node rest visited inStack = Inr (vis', stk')"
      by (auto split: if_splits)
    with True 3(3) show ?thesis by blast
  next
    case False
    with 3(4) obtain v s where vs: "cycleDfs a child visited inStack = Inr (v, s)" "child \<notin> s"
      "cycleDfs_children a node rest v s = Inr (vis', stk')"
      by (auto split: sum.splits if_splits)
    from 3(1) [OF False vs(1)] 3(2) [OF False vs(1) refl vs(2,3)] show ?thesis by blast
  qed
qed

text \<open>
  The invariant of the search: what is finished (visited and no longer on the stack) is
  closed under successors and holds no cycle.
\<close>

definition dfs_inv :: "adj \<Rightarrow> string set \<Rightarrow> string set \<Rightarrow> bool" where
  "dfs_inv a vis stk \<longleftrightarrow> stk \<subseteq> vis \<and> adjg.closed a (vis - stk) \<and>
     (\<forall>x \<in> vis - stk. (x, x) \<notin> (edges a)\<^sup>+)"

lemma dfs_inv_push: "dfs_inv a vis stk \<Longrightarrow> n \<notin> vis \<Longrightarrow> dfs_inv a (insert n vis) (insert n stk)"
proof -
  assume d: "dfs_inv a vis stk" "n \<notin> vis"
  then have "insert n vis - insert n stk = vis - stk" by auto
  with d show ?thesis by (auto simp: dfs_inv_def)
qed

lemma dfs_inv_pop:
  assumes "dfs_inv a vis (insert n stk)" "set (succs a n) \<subseteq> vis - insert n stk" "n \<notin> stk"
  shows "dfs_inv a vis stk"
proof -
  let ?F = "vis - insert n stk"
  have F: "adjg.closed a ?F" "\<forall>x \<in> ?F. (x, x) \<notin> (edges a)\<^sup>+" and n: "n \<in> vis"
    using assms(1) by (auto simp: dfs_inv_def)
  from n assms(3) have eq: "vis - stk = insert n ?F" by auto
  have "adjg.closed a (insert n ?F)"
    using F(1) assms(2) by (rule adjg.closed_insert)
  moreover have "\<forall>x \<in> insert n ?F. (x, x) \<notin> (edges a)\<^sup>+"
    using adjg.no_cycle_insert [OF F(1) assms(2)] F(2) by (simp add: adjg_E)
  ultimately show ?thesis using assms(1) eq by (auto simp: dfs_inv_def)
qed

lemma cycleDfs_inv:
  "cycleDfs a n vis stk = Inr (vis', stk') \<Longrightarrow> dfs_inv a vis stk \<Longrightarrow> n \<notin> vis \<Longrightarrow>
     dfs_inv a vis' stk' \<and> stk' = stk"
  "cycleDfs_children a n cs vis stk = Inr (vis', stk') \<Longrightarrow> dfs_inv a vis stk \<Longrightarrow>
     dfs_inv a vis' stk' \<and> stk' = stk \<and> set cs \<subseteq> vis' - stk'"
proof (induction a n vis stk and a n cs vis stk arbitrary: vis' stk' and vis' stk'
    rule: cycleDfs_cycleDfs_children.induct)
  case (1 a node visited inStack)
  from 1(2) obtain s where s: "cycleDfs_children a node (succs a node) (insert node visited)
      (insert node inStack) = Inr (vis', s)" "stk' = s - {node}"
    by (auto simp: cycleDfs.simps split: sum.splits)
  from 1(1) [OF s(1) dfs_inv_push [OF 1(3,4)]]
  have r: "dfs_inv a vis' (insert node inStack)" "s = insert node inStack"
    "set (succs a node) \<subseteq> vis' - insert node inStack" by auto
  from 1(3,4) have ni: "node \<notin> inStack" by (auto simp: dfs_inv_def)
  with s(2) r(2) have "stk' = inStack" by auto
  with dfs_inv_pop [OF r(1,3) ni] show ?case by simp
next
  case (2 a node visited inStack)
  then show ?case by simp
next
  case (3 a node child rest visited inStack)
  show ?case
  proof (cases "child \<in> visited")
    case True
    with 3(4) have c: "child \<notin> inStack" "cycleDfs_children a node rest visited inStack = Inr (vis', stk')"
      by (auto split: if_splits)
    have "child \<in> vis'" using cycleDfs_grows(2) [OF c(2)] True by blast
    with 3(3) [OF _ c(1,2) 3(5)] True c(1) show ?thesis by auto
  next
    case False
    with 3(4) obtain v s where vs: "cycleDfs a child visited inStack = Inr (v, s)" "child \<notin> s"
      "cycleDfs_children a node rest v s = Inr (vis', stk')"
      by (auto split: sum.splits if_splits)
    from 3(1) [OF False vs(1) 3(5) False] have r: "dfs_inv a v s" "s = inStack" by auto
    have "child \<in> vis'" using cycleDfs_grows(1) [OF vs(1)] cycleDfs_grows(2) [OF vs(3)] by blast
    with 3(2) [OF False vs(1) refl vs(2,3) r(1)] r(2) vs(2) show ?thesis by auto
  qed
qed

text \<open>The other direction: the error names an edge that closes a cycle reachable from the start.\<close>

lemma cycleDfs_error:
  "cycleDfs a n vis stk = Inl e \<Longrightarrow> \<forall>x \<in> stk. (x, n) \<in> (edges a)\<^sup>* \<Longrightarrow>
     \<exists>c m. e = ErrCycleDetected c m \<and> (m, c) \<in> edges a \<and> (c, m) \<in> (edges a)\<^sup>*"
  "cycleDfs_children a n cs vis stk = Inl e \<Longrightarrow> \<forall>x \<in> stk. (x, n) \<in> (edges a)\<^sup>* \<Longrightarrow>
     set cs \<subseteq> set (succs a n) \<Longrightarrow>
     \<exists>c m. e = ErrCycleDetected c m \<and> (m, c) \<in> edges a \<and> (c, m) \<in> (edges a)\<^sup>*"
proof (induction a n vis stk and a n cs vis stk arbitrary: e and e
    rule: cycleDfs_cycleDfs_children.induct)
  case (1 a node visited inStack)
  from 1(2) have "cycleDfs_children a node (succs a node) (insert node visited)
      (insert node inStack) = Inl e"
    by (auto simp: cycleDfs.simps split: sum.splits)
  from 1(1) [OF this] 1(3) show ?case by simp
next
  case (2 a node visited inStack)
  then show ?case by simp
next
  case (3 a node child rest visited inStack)
  have edge: "(node, child) \<in> edges a" using 3(6) by simp
  have to_child: "\<forall>x \<in> inStack. (x, child) \<in> (edges a)\<^sup>*"
    using 3(5) edge by (meson rtrancl.rtrancl_into_rtrancl)
  consider (vis) "child \<in> visited" "child \<notin> inStack" "cycleDfs_children a node rest visited inStack = Inl e"
    | (hit) "child \<in> inStack" "e = ErrCycleDetected child node"
    | (sub) "child \<notin> visited" "cycleDfs a child visited inStack = Inl e"
    | (next1) v s where "child \<notin> visited" "cycleDfs a child visited inStack = Inr (v, s)" "child \<notin> s"
        "cycleDfs_children a node rest v s = Inl e"
    using 3(4) cycleDfs_stack(1) [of a child visited inStack]
    by (fastforce split: if_splits sum.splits)
  then show ?case
  proof cases
    case vis
    with 3 show ?thesis by auto
  next
    case hit
    with 3(5) edge show ?thesis by blast
  next
    case sub
    with 3(1) to_child show ?thesis by blast
  next
    case next1
    have "s \<subseteq> inStack" using next1(2) by (rule cycleDfs_stack(1))
    with 3(5) have "\<forall>x \<in> s. (x, node) \<in> (edges a)\<^sup>*" by blast
    with 3(2) [OF next1(1,2) refl next1(3,4)] 3(6) show ?thesis by simp
  qed
qed

theorem cycleDfs_start_ok:
  assumes "cycleDfs a p {} {} = Inr vs"
  shows "\<forall>x. (p, x) \<in> (edges a)\<^sup>* \<longrightarrow> (x, x) \<notin> (edges a)\<^sup>+"
proof -
  obtain v s where vs: "vs = (v, s)" by (cases vs)
  have "dfs_inv a {} {}" by (simp add: dfs_inv_def adjg.closed_def)
  with cycleDfs_inv(1) [of a p "{}" "{}" v s] assms vs
  have r: "dfs_inv a v {}" and s: "s = {}" by auto
  from assms vs cycleDfs_grows(1) [of a p "{}" "{}" v s] have "p \<in> v" by simp
  with r show ?thesis
    by (auto simp: dfs_inv_def adjg_E [symmetric] dest: adjg.closed_reach)
qed

theorem cycleDfs_start_error:
  "cycleDfs a p {} {} = Inl e \<Longrightarrow> \<not> acyclic (edges a)"
  using cycleDfs_error(1) [of a p "{}" "{}" e]
  by (auto simp: acyclic_def) (meson edges_iff rtrancl_into_trancl2)

section \<open>The graph\<close>

record ExecutionGraph =
  gGenerator :: "string \<rightharpoonup> gval"
  gEnv :: "string \<rightharpoonup> string"
  gEnvFile :: "ref option"
  gErrors :: "(ref \<times> string) list"
  gName :: string
  gAlias :: string
  gNodes :: "string \<rightharpoonup> ref"
  gParent :: adj
  gChildren :: adj
  gStart :: "int option"
  gEnd :: "int option"

definition RootNodeName :: string where
  "RootNodeName = ''root''"

definition addNode :: "ExecutionGraph \<Rightarrow> string \<Rightarrow> ref \<Rightarrow> ExecutionGraph" where
  "addNode g name stage = g\<lparr>gNodes := (gNodes g)(name \<mapsto> stage)\<rparr>"

definition addEdge :: "ExecutionGraph \<Rightarrow> string \<Rightarrow> string \<Rightarrow> graph_error + ExecutionGraph" where
  "addEdge g parent child =
     (let g' = g\<lparr>gParent := append_to (gParent g) child parent,
                 gChildren := append_to (gChildren g) parent child\<rparr> in
      case cycleDfs (gChildren g') parent {} {} of
        Inl e \<Rightarrow> Inl e
      | Inr _ \<Rightarrow> Inr g')"

definition AddStage :: "ExecutionGraph \<Rightarrow> ref \<Rightarrow> Stage \<Rightarrow> graph_error + ExecutionGraph" where
  "AddStage g r stage =
     (let g1 = addNode g (sName stage) r in
      if sDependsOn stage = [] then addEdge g1 RootNodeName (sName stage)
      else fold_res (\<lambda>dep g. addEdge g dep (sName stage)) (sDependsOn stage) g1)"

definition empty_graph :: "ref \<Rightarrow> string \<Rightarrow> ExecutionGraph" where
  "empty_graph rootNode name =
     \<lparr>gGenerator = Map.empty, gEnv = Map.empty, gEnvFile = None, gErrors = [], gName = name,
      gAlias = '''', gNodes = [RootNodeName \<mapsto> rootNode], gParent = [], gChildren = [],
      gStart = None, gEnd = None\<rparr>"

definition NewExecutionGraph ::
  "ref \<Rightarrow> string \<Rightarrow> (ref \<times> Stage) list \<Rightarrow> graph_error + ExecutionGraph" where
  "NewExecutionGraph rootNode name stages =
     fold_res (\<lambda>rs g. AddStage g (fst rs) (snd rs)) stages (empty_graph rootNode name)"

text \<open>The root node itself, as \<open>NewExecutionGraph\<close> builds it.\<close>

definition root_stage :: "ref \<Rightarrow> string \<Rightarrow> Stage" where
  "root_stage ef name =
     UpdateStatus (NewStage ef name [\<lambda>s. s\<lparr>sName := RootNodeName\<rparr>]) StatusDone"

definition WithAlias :: "ExecutionGraph \<Rightarrow> string \<Rightarrow> ExecutionGraph" where
  "WithAlias g v = g\<lparr>gAlias := v\<rparr>"

definition Node :: "ExecutionGraph \<Rightarrow> string \<Rightarrow> graph_error + ref" where
  "Node g name = (case gNodes g name of None \<Rightarrow> Inl (ErrNodeNotFound name) | Some t \<Rightarrow> Inr t)"

text \<open>
  \<open>Parents\<close> and \<open>Children\<close> return a map from names to stages; a name with no node is mapped
  to nil, here \<open>Some None\<close>.
\<close>

definition node_map :: "ExecutionGraph \<Rightarrow> string list \<Rightarrow> (string \<rightharpoonup> ref option)" where
  "node_map g ns = (\<lambda>n. if n \<in> set ns then Some (gNodes g n) else None)"

definition Parents :: "ExecutionGraph \<Rightarrow> string \<Rightarrow> (string \<rightharpoonup> ref option)" where
  "Parents g name = node_map g (succs (gParent g) name)"

definition Children :: "ExecutionGraph \<Rightarrow> string \<Rightarrow> (string \<rightharpoonup> ref option)" where
  "Children g name = node_map g (succs (gChildren g) name)"

definition WithStageError :: "ExecutionGraph \<Rightarrow> ref \<Rightarrow> string \<Rightarrow> ExecutionGraph" where
  "WithStageError g stage err = g\<lparr>gErrors := gErrors g @ [(stage, err)]\<rparr>"

definition LastError :: "ExecutionGraph \<Rightarrow> string option" where
  "LastError g = (if gErrors g \<noteq> [] then Some (snd (last (gErrors g))) else None)"

definition Error :: "(ref \<Rightarrow> string) \<Rightarrow> ExecutionGraph \<Rightarrow> string option" where
  "Error name_of g =
     (if gErrors g \<noteq> [] then
        Some (''execution fault'' @ [CHR 0x0A] @ ''details:'' @ [CHR 0x0A] @
          concat (map (\<lambda>(r, e). ''- stage: '' @ name_of r @ '', error: '' @ e @ [CHR 0x0A]) (gErrors g)))
      else None)"

definition graph_Duration :: "int \<Rightarrow> ExecutionGraph \<Rightarrow> int" where
  "graph_Duration now g = (let start = (case gStart g of None \<Rightarrow> 0 | Some b \<Rightarrow> b) in
     case gEnd g of None \<Rightarrow> now - start | Some e \<Rightarrow> e - start)"

section \<open>Breadth-first listing\<close>

fun enqueue :: "string list \<Rightarrow> string list \<Rightarrow> string set \<Rightarrow> string list \<times> string set" where
  "enqueue [] queue visited = (queue, visited)"
| "enqueue (child # rest) queue visited =
     (if child \<notin> visited then enqueue rest (queue @ [child]) (insert child visited)
      else enqueue rest queue visited)"

lemma enqueue_eq:
  "enqueue cs q vis = (q', vis') \<Longrightarrow>
     \<exists>ns. q' = q @ ns \<and> distinct ns \<and> set ns = set cs - vis \<and> vis' = vis \<union> set cs"
proof (induction cs arbitrary: q vis)
  case Nil
  then show ?case by auto
next
  case (Cons c cs)
  show ?case
  proof (cases "c \<in> vis")
    case True
    with Cons.prems have "enqueue cs q vis = (q', vis')" by simp
    from Cons.IH [OF this] True show ?thesis by auto
  next
    case False
    with Cons.prems have "enqueue cs (q @ [c]) (insert c vis) = (q', vis')" by simp
    from Cons.IH [OF this] obtain ns where ns: "q' = (q @ [c]) @ ns" "distinct ns"
      "set ns = set cs - insert c vis" "vis' = insert c vis \<union> set cs"
      by blast
    have "q' = q @ (c # ns)" "distinct (c # ns)" "set (c # ns) = set (c # cs) - vis"
      "vis' = vis \<union> set (c # cs)"
      using ns False by auto
    then show ?thesis by blast
  qed
qed

function bfs_loop :: "adj \<Rightarrow> string list \<Rightarrow> string set \<Rightarrow> string list" where
  "bfs_loop a [] visited = []"
| "bfs_loop a (current # queue) visited =
     (let (queue', visited') = enqueue (succs a current) queue visited in
      current # bfs_loop a queue' visited')"
  by pat_completeness auto
termination
proof (relation "measure (\<lambda>(a, q, vis). card (names a - vis) + length q)", goal_cases)
  case 1
  then show ?case by simp
next
  case (2 a current queue visited p q' vis')
  then obtain ns where ns: "q' = queue @ ns" "distinct ns" "set ns = set (succs a current) - visited"
    "vis' = visited \<union> set (succs a current)"
    using enqueue_eq by metis
  have sub: "set ns \<subseteq> names a - visited" using ns(3) by (auto dest: succs_names)
  have "names a - vis' = (names a - visited) - set ns" using ns(3,4) by auto
  then have "card (names a - vis') = card (names a - visited) - length ns"
    using sub ns(2) by (simp add: card_Diff_subset distinct_card)
  moreover have "length ns \<le> card (names a - visited)"
    using card_mono [OF _ sub] ns(2) by (simp add: distinct_card)
  ultimately show ?case using ns(1) by simp
qed

definition BFSNodesFlattened :: "ExecutionGraph \<Rightarrow> string \<Rightarrow> (ref option) list" where
  "BFSNodesFlattened g nodeName =
     map (gNodes g) (filter (\<lambda>n. n \<noteq> RootNodeName) (bfs_loop (gChildren g) [nodeName] {nodeName}))"

lemma bfs_loop_spec:
  "distinct q \<Longrightarrow> set q \<subseteq> vis \<Longrightarrow> (\<forall>x \<in> vis - set q. set (succs a x) \<subseteq> vis) \<Longrightarrow>
     distinct (bfs_loop a q vis) \<and> set q \<subseteq> set (bfs_loop a q vis) \<and>
     set (bfs_loop a q vis) \<inter> (vis - set q) = {} \<and>
     adjg.closed a ((vis - set q) \<union> set (bfs_loop a q vis)) \<and>
     (\<forall>y \<in> set (bfs_loop a q vis). \<exists>x \<in> set q. (x, y) \<in> (edges a)\<^sup>*)"
proof (induction a q vis rule: bfs_loop.induct)
  case (1 a visited)
  then show ?case by (auto simp: adjg.closed_def)
next
  case (2 a c q vis)
  obtain q' vis' where e: "enqueue (succs a c) q vis = (q', vis')" by fastforce
  then obtain ns where ns: "q' = q @ ns" "distinct ns" "set ns = set (succs a c) - vis"
    "vis' = vis \<union> set (succs a c)"
    using enqueue_eq by blast
  let ?r = "bfs_loop a q' vis'"
  have rest: "vis' - set q' = insert c (vis - set (c # q))"
    using ns 2(2,3) by auto
  have pre: "distinct q'" "set q' \<subseteq> vis'" "\<forall>x \<in> vis' - set q'. set (succs a x) \<subseteq> vis'"
    using ns 2(2-4) unfolding rest by auto
  from 2(1) [OF e [symmetric] refl pre]
  have IH: "distinct ?r" "set q' \<subseteq> set ?r" "set ?r \<inter> (vis' - set q') = {}"
    "adjg.closed a ((vis' - set q') \<union> set ?r)"
    "\<forall>y \<in> set ?r. \<exists>x \<in> set q'. (x, y) \<in> (edges a)\<^sup>*" by auto
  have eq: "bfs_loop a (c # q) vis = c # ?r" using e by simp
  have un: "(vis - set (c # q)) \<union> set (c # ?r) = (vis' - set q') \<union> set ?r"
    unfolding rest by auto
  have reach: "\<exists>x \<in> set (c # q). (x, y) \<in> (edges a)\<^sup>*" if y: "y \<in> set ?r" for y
  proof -
    from IH(5) y obtain x where x: "x \<in> set q'" "(x, y) \<in> (edges a)\<^sup>*" by blast
    show ?thesis
    proof (cases "x \<in> set q")
      case True
      with x show ?thesis by auto
    next
      case False
      with x(1) ns(1,3) have "(c, x) \<in> edges a" by auto
      with x(2) have "(c, y) \<in> (edges a)\<^sup>*" by (rule converse_rtrancl_into_rtrancl [rotated])
      then show ?thesis by auto
    qed
  qed
  from IH(3) rest have "c \<notin> set ?r" by blast
  moreover from IH(2) ns(1) have "set q \<subseteq> set ?r" by auto
  moreover from IH(3) have "set ?r \<inter> (vis - set (c # q)) = {}" unfolding rest by blast
  ultimately show ?case
    using IH(1,4) reach 2(2) unfolding eq un by auto
qed

theorem bfs_loop_reach:
  "distinct (bfs_loop a [n] {n}) \<and> set (bfs_loop a [n] {n}) = {y. (n, y) \<in> (edges a)\<^sup>*}"
proof -
  let ?r = "bfs_loop a [n] {n}"
  have s: "distinct ?r" "n \<in> set ?r" "adjg.closed a (set ?r)" "\<forall>y \<in> set ?r. (n, y) \<in> (edges a)\<^sup>*"
    using bfs_loop_spec [of "[n]" "{n}" a] by auto
  have "{y. (n, y) \<in> (edges a)\<^sup>*} \<subseteq> set ?r"
    using adjg.closed_reach [OF s(3,2)] by (auto simp: adjg_E)
  with s show ?thesis by auto
qed

section \<open>Acyclicity of what AddStage builds\<close>

lemma addEdge_Inr:
  "addEdge g p c = Inr g' \<Longrightarrow>
     g' = g\<lparr>gParent := append_to (gParent g) c p, gChildren := append_to (gChildren g) p c\<rparr>"
  by (auto simp: addEdge_def Let_def split: sum.splits)

lemma addEdge_edges:
  "addEdge g p c = Inr g' \<Longrightarrow> edges (gChildren g') = insert (p, c) (edges (gChildren g))"
  by (drule addEdge_Inr) (simp add: edges_append_to)

theorem addEdge_iff:
  assumes "acyclic (edges (gChildren g))"
  shows "(\<exists>g'. addEdge g p c = Inr g') \<longleftrightarrow> acyclic (insert (p, c) (edges (gChildren g)))"
proof -
  let ?a = "append_to (gChildren g) p c"
  have e: "edges ?a = insert (p, c) (edges (gChildren g))" by (rule edges_append_to)
  have "(\<exists>g'. addEdge g p c = Inr g') \<longleftrightarrow> (\<exists>vs. cycleDfs ?a p {} {} = Inr vs)"
    by (auto simp: addEdge_def Let_def split: sum.splits)
  also have "\<dots> \<longleftrightarrow> acyclic (edges ?a)"
  proof
    assume "\<exists>vs. cycleDfs ?a p {} {} = Inr vs"
    then have p: "(p, p) \<notin> (edges ?a)\<^sup>+" using cycleDfs_start_ok by blast
    have "(c, p) \<notin> (edges (gChildren g))\<^sup>*"
    proof
      assume "(c, p) \<in> (edges (gChildren g))\<^sup>*"
      then have "(c, p) \<in> (edges ?a)\<^sup>*" 
        using rtrancl_mono [of "edges (gChildren g)" "edges ?a"] e by auto
      moreover have "(p, c) \<in> edges ?a" using e by simp
      ultimately have "(p, p) \<in> (edges ?a)\<^sup>+" by (rule rtrancl_into_trancl2 [rotated])
      with p show False ..
    qed
    with assms show "acyclic (edges ?a)" by (simp add: e)
  next
    assume ac: "acyclic (edges ?a)"
    show "\<exists>vs. cycleDfs ?a p {} {} = Inr vs"
    proof (cases "cycleDfs ?a p {} {}")
      case (Inl x)
      with ac cycleDfs_start_error show ?thesis by blast
    qed blast
  qed
  finally show ?thesis by (simp add: e)
qed

text \<open>The edges a stage adds: one from each dependency, or one from the root.\<close>

definition new_edges :: "Stage \<Rightarrow> (string \<times> string) set" where
  "new_edges s = (if sDependsOn s = [] then {(RootNodeName, sName s)}
     else set (sDependsOn s) \<times> {sName s})"

lemma addEdges_iff:
  "acyclic (edges (gChildren g)) \<Longrightarrow>
     ((\<exists>g'. fold_res (\<lambda>dep g. addEdge g dep c) ds g = Inr g') \<longleftrightarrow>
        acyclic (edges (gChildren g) \<union> set ds \<times> {c}))"
proof (induction ds arbitrary: g)
  case Nil
  then show ?case by simp
next
  case (Cons d ds)
  let ?E = "edges (gChildren g)"
  have un: "insert (d, c) ?E \<union> set ds \<times> {c} = ?E \<union> set (d # ds) \<times> {c}" by auto
  show ?case
  proof (cases "acyclic (insert (d, c) ?E)")
    case True
    with addEdge_iff [OF Cons.prems] obtain g1 where g1: "addEdge g d c = Inr g1" by blast
    with True Cons.IH [of g1] show ?thesis
      by (simp add: addEdge_edges un)
  next
    case False
    with addEdge_iff [OF Cons.prems, of d c] have "\<forall>g'. addEdge g d c \<noteq> Inr g'" by blast
    moreover from False have "\<not> acyclic (?E \<union> set (d # ds) \<times> {c})"
      unfolding un [symmetric] by (meson acyclic_subset le_supI1 order_refl)
    ultimately show ?thesis by (cases "addEdge g d c") auto
  qed
qed

lemma addEdges_edges:
  "fold_res (\<lambda>dep g. addEdge g dep c) ds g = Inr g' \<Longrightarrow>
     edges (gChildren g') = edges (gChildren g) \<union> set ds \<times> {c}"
  by (induction ds arbitrary: g) (auto simp: bind_res_Inr_iff addEdge_edges)

lemma addNode_children [simp]: "gChildren (addNode g n r) = gChildren g"
  by (simp add: addNode_def)

lemma AddStage_edges:
  "AddStage g r s = Inr g' \<Longrightarrow> edges (gChildren g') = edges (gChildren g) \<union> new_edges s"
  by (auto simp: AddStage_def new_edges_def Let_def addEdge_edges addEdges_edges split: if_splits)

lemma AddStage_ok_iff:
  "acyclic (edges (gChildren g)) \<Longrightarrow>
     (\<exists>g'. AddStage g r s = Inr g') \<longleftrightarrow> acyclic (edges (gChildren g) \<union> new_edges s)"
  using addEdge_iff [of "addNode g (sName s) r" RootNodeName "sName s"]
    addEdges_iff [of "addNode g (sName s) r" "sName s" "sDependsOn s"]
  by (auto simp: AddStage_def new_edges_def Let_def)

lemma addEdge_nodes: "addEdge g p c = Inr g' \<Longrightarrow> gNodes g' = gNodes g \<and> gName g' = gName g"
  by (drule addEdge_Inr) simp

lemma addEdges_nodes:
  "fold_res (\<lambda>dep g. addEdge g dep c) ds g = Inr g' \<Longrightarrow> gNodes g' = gNodes g \<and> gName g' = gName g"
proof (induction ds arbitrary: g)
  case (Cons d ds)
  then obtain g1 where g1: "addEdge g d c = Inr g1" "fold_res (\<lambda>dep g. addEdge g dep c) ds g1 = Inr g'"
    by (auto simp: bind_res_Inr_iff)
  from addEdge_nodes [OF g1(1)] Cons.IH [OF g1(2)] show ?case by simp
qed simp

lemma addEdge_errors: "addEdge g p c = Inr g' \<Longrightarrow> gErrors g' = gErrors g"
  by (drule addEdge_Inr) simp

lemma addEdges_errors:
  "fold_res (\<lambda>dep g. addEdge g dep c) ds g = Inr g' \<Longrightarrow> gErrors g' = gErrors g"
  by (induction ds arbitrary: g) (auto simp: bind_res_Inr_iff dest!: addEdge_errors)

lemma AddStage_nodes:
  "AddStage g r s = Inr g' \<Longrightarrow> gNodes g' = (gNodes g)(sName s \<mapsto> r) \<and> gName g' = gName g"
  by (auto simp: AddStage_def Let_def addNode_def split: if_splits
      dest!: addEdge_nodes addEdges_nodes)

lemma AddStage_errors: "AddStage g r s = Inr g' \<Longrightarrow> gErrors g' = gErrors g"
  by (auto simp: AddStage_def Let_def addNode_def split: if_splits dest!: addEdge_errors addEdges_errors)

text \<open>The two adjacency maps are each other's converse.\<close>

definition converse_maps :: "ExecutionGraph \<Rightarrow> bool" where
  "converse_maps g \<longleftrightarrow> edges (gParent g) = (edges (gChildren g))\<inverse>"

lemma addEdge_converse: "converse_maps g \<Longrightarrow> addEdge g p c = Inr g' \<Longrightarrow> converse_maps g'"
  by (drule addEdge_Inr) (auto simp: converse_maps_def edges_append_to)

lemma addEdges_converse:
  "converse_maps g \<Longrightarrow> fold_res (\<lambda>dep g. addEdge g dep c) ds g = Inr g' \<Longrightarrow> converse_maps g'"
  by (rule fold_res_inv [where P = converse_maps]) (auto intro: addEdge_converse)

lemma AddStage_converse: "converse_maps g \<Longrightarrow> AddStage g r s = Inr g' \<Longrightarrow> converse_maps g'"
  by (auto simp: AddStage_def Let_def converse_maps_def addNode_def split: if_splits
      dest!: addEdge_converse [rotated] addEdges_converse [rotated])

text \<open>What building a graph from a list of stages keeps.\<close>

definition built :: "(ref \<times> Stage) list \<Rightarrow> ExecutionGraph \<Rightarrow> bool" where
  "built stages g \<longleftrightarrow> acyclic (edges (gChildren g)) \<and> converse_maps g \<and>
     edges (gChildren g) = (\<Union>rs \<in> set stages. new_edges (snd rs)) \<and>
     dom (gNodes g) = insert RootNodeName (sName ` snd ` set stages)"

lemma built_acyclic: "built st g \<Longrightarrow> acyclic (edges (gChildren g))"
  unfolding built_def by (rule conjunct1)

lemma built_edges: "built st g \<Longrightarrow> edges (gChildren g) = (\<Union>rs \<in> set st. new_edges (snd rs))"
  unfolding built_def by blast

lemma built_converse: "built st g \<Longrightarrow> edges (gParent g) = (edges (gChildren g))\<inverse>"
  unfolding built_def converse_maps_def by blast

lemma built_nodes: "built st g \<Longrightarrow> dom (gNodes g) = insert RootNodeName (sName ` snd ` set st)"
  unfolding built_def by blast

lemma edges_Nil [simp]: "edges [] = {}"
  by (auto simp: edges_def succs_def get_or_def)

lemma built_empty: "built [] (empty_graph r n)"
  by (simp add: built_def empty_graph_def converse_maps_def acyclic_def)

lemma built_AddStage:
  assumes b: "built stages g" and a: "AddStage g r s = Inr g'"
  shows "built (stages @ [(r, s)]) g'"
proof -
  have ac: "acyclic (edges (gChildren g'))"
    using AddStage_ok_iff [OF built_acyclic [OF b], of r s] a
    unfolding AddStage_edges [OF a] by blast
  moreover have "converse_maps g'"
    using b AddStage_converse [OF _ a] unfolding built_def by blast
  moreover have "edges (gChildren g') = (\<Union>rs \<in> set (stages @ [(r, s)]). new_edges (snd rs))"
    unfolding AddStage_edges [OF a] built_edges [OF b] by auto
  moreover have "dom (gNodes g') = insert RootNodeName (sName ` snd ` set (stages @ [(r, s)]))"
    using AddStage_nodes [OF a] built_nodes [OF b] by auto
  ultimately show ?thesis unfolding built_def by blast
qed

lemma built_fold:
  "built st g \<Longrightarrow> fold_res (\<lambda>rs g. AddStage g (fst rs) (snd rs)) stages g = Inr g' \<Longrightarrow>
     built (st @ stages) g'"
proof (induction stages arbitrary: st g)
  case Nil
  then show ?case by simp
next
  case (Cons rs stages)
  then obtain g1 where g1: "AddStage g (fst rs) (snd rs) = Inr g1"
    "fold_res (\<lambda>rs g. AddStage g (fst rs) (snd rs)) stages g1 = Inr g'"
    by (auto simp: bind_res_Inr_iff)
  from built_AddStage [OF Cons.prems(1) g1(1)] have "built (st @ [rs]) g1" by simp
  from Cons.IH [OF this g1(2)] show ?case by simp
qed

lemma NewExecutionGraph_built: "NewExecutionGraph r n stages = Inr g \<Longrightarrow> built stages g"
  using built_fold [OF built_empty [of r n], of stages g] by (simp add: NewExecutionGraph_def)

text \<open>Building succeeds as long as the edges of all the stages together are acyclic.\<close>

lemma built_fold_ok:
  "built st g \<Longrightarrow> acyclic (\<Union>rs \<in> set (st @ stages). new_edges (snd rs)) \<Longrightarrow>
     \<exists>g'. fold_res (\<lambda>rs g. AddStage g (fst rs) (snd rs)) stages g = Inr g'"
proof (induction stages arbitrary: st g)
  case Nil
  then show ?case by simp
next
  case (Cons rs stages)
  have "acyclic (edges (gChildren g) \<union> new_edges (snd rs))"
    unfolding built_edges [OF Cons.prems(1)]
    by (rule acyclic_subset [OF Cons.prems(2)]) auto
  then obtain g1 where g1: "AddStage g (fst rs) (snd rs) = Inr g1"
    using AddStage_ok_iff [OF built_acyclic [OF Cons.prems(1)]] by blast
  have "built (st @ [rs]) g1" using built_AddStage [OF Cons.prems(1) g1] by simp
  from Cons.IH [OF this] Cons.prems(2) obtain g' where
    "fold_res (\<lambda>rs g. AddStage g (fst rs) (snd rs)) stages g1 = Inr g'" by auto
  with g1 show ?case by simp
qed

lemma NewExecutionGraph_ok_iff:
  "(\<exists>g. NewExecutionGraph r n stages = Inr g) \<longleftrightarrow> acyclic (\<Union>rs \<in> set stages. new_edges (snd rs))"
proof
  assume "\<exists>g. NewExecutionGraph r n stages = Inr g"
  then obtain g where "built stages g" using NewExecutionGraph_built by blast
  then show "acyclic (\<Union>rs \<in> set stages. new_edges (snd rs))"
    using built_acyclic built_edges by metis
next
  assume "acyclic (\<Union>rs \<in> set stages. new_edges (snd rs))"
  with built_fold_ok [OF built_empty [of r n], of stages]
  show "\<exists>g. NewExecutionGraph r n stages = Inr g" by (simp add: NewExecutionGraph_def)
qed

lemma finite_edges: "finite (edges a)"
proof (rule finite_subset)
  show "edges a \<subseteq> names a \<times> names a" by (auto dest: succs_names)
qed simp

lemma built_all_reachable:
  assumes b: "built stages g"
    and deps: "\<forall>rs \<in> set stages. set (sDependsOn (snd rs)) \<subseteq> sName ` snd ` set stages"
    and x: "x \<in> sName ` snd ` set stages"
  shows "(RootNodeName, x) \<in> (edges (gChildren g))\<^sup>*"
proof -
  let ?E = "edges (gChildren g)"
  have "wf ?E" using built_acyclic [OF b] finite_edges by (rule finite_acyclic_wf [rotated])
  then show ?thesis using x
  proof (induction x rule: wf_induct_rule)
    case (less x)
    then obtain rs where rs: "rs \<in> set stages" "x = sName (snd rs)" by blast
    show ?case
    proof (cases "sDependsOn (snd rs) = []")
      case True
      with rs have "(RootNodeName, x) \<in> ?E"
        unfolding built_edges [OF b] by (intro UN_I [of rs]) (auto simp: new_edges_def)
      then show ?thesis by (rule r_into_rtrancl)
    next
      case False
      then obtain d where d: "d \<in> set (sDependsOn (snd rs))" by (meson last_in_set)
      with False rs have e: "(d, x) \<in> ?E"
        unfolding built_edges [OF b] by (intro UN_I [of rs]) (auto simp: new_edges_def)
      from deps rs(1) d have "d \<in> sName ` snd ` set stages" by blast
      from less.IH [OF e this] e show ?thesis by (rule rtrancl_into_rtrancl)
    qed
  qed
qed

lemma built_reach_names:
  assumes b: "built stages g" and r: "(RootNodeName, x) \<in> (edges (gChildren g))\<^sup>*"
    and x: "x \<noteq> RootNodeName"
  shows "x \<in> sName ` snd ` set stages"
proof -
  from r x obtain y where "(y, x) \<in> edges (gChildren g)" by (blast elim: rtranclE)
  then show ?thesis unfolding built_edges [OF b] by (auto simp: new_edges_def split: if_splits)
qed

section \<open>Properties\<close>

text \<open>C3. \<open>NewExecutionGraph\<close> succeeds exactly when the edges its stages declare (from the root
  where a stage depends on nothing) form an acyclic graph: cycle detection refuses every
  cycle and nothing else.\<close>

theorem NewExecutionGraph_refuses_exactly_cycles:
  "(\<exists>g. NewExecutionGraph r n stages = Inr g) \<longleftrightarrow> acyclic (\<Union>rs \<in> set stages. new_edges (snd rs))"
  by (rule NewExecutionGraph_ok_iff)

text \<open>C9. A graph \<open>NewExecutionGraph\<close> returns is acyclic, its edges are exactly those its
  stages declare, and its parent map is the converse of its children map.\<close>

theorem NewExecutionGraph_edges:
  assumes "NewExecutionGraph r n stages = Inr g"
  shows "acyclic (edges (gChildren g)) \<and>
    edges (gChildren g) = (\<Union>rs \<in> set stages. new_edges (snd rs)) \<and>
    edges (gParent g) = (edges (gChildren g))\<inverse>"
  using NewExecutionGraph_built [OF assms] built_acyclic built_edges built_converse by metis

text \<open>Two stages, the second after the first: the instance the witnesses use.\<close>

definition demo_stages :: "(ref \<times> Stage) list" where
  "demo_stages = [(1, NewStage 9 ''a'' []), (2, NewStage 9 ''b'' [\<lambda>s. s\<lparr>sDependsOn := [''a'']\<rparr>])]"

lemma demo_edges: "(\<Union>rs \<in> set demo_stages. new_edges (snd rs)) = {(''root'', ''a''), (''a'', ''b'')}"
  by (auto simp: demo_stages_def new_edges_def NewStage_def RootNodeName_def)

lemma demo_names: "sName ` snd ` set demo_stages = {''a'', ''b''}"
  by (auto simp: demo_stages_def NewStage_def)

lemma demo_deps: "\<forall>rs \<in> set demo_stages. set (sDependsOn (snd rs)) \<subseteq> {''a'', ''b''}"
  by (auto simp: demo_stages_def NewStage_def)

lemma demo_graph: "\<exists>g. NewExecutionGraph 0 ''ci'' demo_stages = Inr g"
proof -
  have "acyclic {(''root'', ''a''), (''a'', ''b'')}"
  proof (rule acyclic_subset [OF wf_acyclic])
    show "wf (measure (\<lambda>n. if n = ''root'' then 0 else if n = ''a'' then 1 else (2 :: nat)))"
      by (rule wf_measure)
  qed auto
  then show ?thesis unfolding NewExecutionGraph_ok_iff demo_edges .
qed

theorem NewExecutionGraph_edges_witness:
  "\<exists>g. NewExecutionGraph 0 ''ci'' demo_stages = Inr g \<and>
     edges (gChildren g) = {(''root'', ''a''), (''a'', ''b'')} \<and> acyclic (edges (gChildren g))"
proof -
  obtain g where g: "NewExecutionGraph 0 ''ci'' demo_stages = Inr g" using demo_graph by blast
  from NewExecutionGraph_edges [OF g] g show ?thesis unfolding demo_edges by blast
qed

text \<open>C10. The breadth-first listing from the root of a graph whose stages depend only on one
  another names every stage exactly once, the root itself excepted.\<close>

theorem BFS_lists_every_stage_once:
  assumes "NewExecutionGraph r n stages = Inr g"
    and "\<forall>rs \<in> set stages. set (sDependsOn (snd rs)) \<subseteq> sName ` snd ` set stages"
    and "RootNodeName \<notin> sName ` snd ` set stages"
  shows "\<exists>ns. BFSNodesFlattened g RootNodeName = map (gNodes g) ns \<and> distinct ns \<and>
    set ns = sName ` snd ` set stages"
proof -
  have b: "built stages g" using assms(1) by (rule NewExecutionGraph_built)
  define q where "q = bfs_loop (gChildren g) [RootNodeName] {RootNodeName}"
  have q: "distinct q" "set q = {y. (RootNodeName, y) \<in> (edges (gChildren g))\<^sup>*}"
    unfolding q_def using bfs_loop_reach by blast+
  have "{y. (RootNodeName, y) \<in> (edges (gChildren g))\<^sup>* \<and> y \<noteq> RootNodeName} = sName ` snd ` set stages"
    using built_all_reachable [OF b assms(2)] built_reach_names [OF b] assms(3) by blast
  with q have "set (filter (\<lambda>n. n \<noteq> RootNodeName) q) = sName ` snd ` set stages" by auto
  with q(1) show ?thesis
    unfolding BFSNodesFlattened_def q_def [symmetric]
    by (intro exI [of _ "filter (\<lambda>n. n \<noteq> RootNodeName) q"]) simp
qed

theorem BFS_lists_every_stage_once_witness:
  "\<exists>g ns. NewExecutionGraph 0 ''ci'' demo_stages = Inr g \<and>
     BFSNodesFlattened g RootNodeName = map (gNodes g) ns \<and> distinct ns \<and> set ns = {''a'', ''b''}"
proof -
  obtain g where g: "NewExecutionGraph 0 ''ci'' demo_stages = Inr g" using demo_graph by blast
  have "RootNodeName \<notin> {''a'', ''b''}" by (simp add: RootNodeName_def)
  with BFS_lists_every_stage_once [OF g] demo_deps g show ?thesis unfolding demo_names by blast
qed

end
