(* ===== verification/Scheduler.thy ===== *)
theory Scheduler
  imports Graph Utils
begin

text \<open>
  \<open>scheduler/scheduler.go\<close>: one call of \<open>Schedule\<close> on a graph, as a step relation. The loop
  of \<open>Schedule\<close> and the goroutine of each started stage interleave: a step is one iteration
  of a loop of the scheduler, one read of a parent's status, or one action of a goroutine.
  The Go runtime picks the order of a map's iteration, so a pass takes any enumeration of
  the nodes and a check any enumeration of the parents. What a stage's task does, and a
  nested pipeline's \<open>Schedule\<close>, is the environment: a running goroutine may end with any
  error or with none, at any time. The outcome of a condition is the environment's too.
  A cancellation from outside (\<open>Scheduler.Cancel\<close>) can come at any time.
\<close>

section \<open>State\<close>

text \<open>
  What a goroutine has done: it runs the stage; the run failed and the status is
  StatusError; the error is stored and the stage is allowed to fail; it ended, after a run
  with or without an error.
\<close>

datatype goroutine =
    GNone
  | GRun
  | GFailed string
  | GRecovered string
  | GEnd "string option"

text \<open>
  Where the loop of \<open>Schedule\<close> is: at its head; inside a pass with the nodes still to visit;
  inside \<open>checkStatus\<close> of a node, with the parents still to read and whether all the parents
  read so far have passed; past the loop in \<open>wg.Wait\<close>; returned.
\<close>

datatype control =
    Head
  | Scan "string list"
  | Check string "string list" bool "string list"
  | WgWait
  | Returned "string option"
  | Panicked

record sched =
  stat :: "ref \<Rightarrow> status"
  go :: "ref \<Rightarrow> goroutine"
  errs :: "(ref \<times> string) list"
  cancelled :: bool
  pc :: control

datatype condition_result = CondError | CondMeets bool

abbreviation node :: "ExecutionGraph \<Rightarrow> string \<Rightarrow> ref" where
  "node g n \<equiv> the (gNodes g n)"

definition enumerates :: "'a list \<Rightarrow> 'a set \<Rightarrow> bool" where
  "enumerates xs A \<longleftrightarrow> distinct xs \<and> set xs = A"

definition set_stat :: "ref \<Rightarrow> status \<Rightarrow> sched \<Rightarrow> sched" where
  "set_stat r v s = s\<lparr>stat := (stat s)(r := v)\<rparr>"

definition set_go :: "ref \<Rightarrow> goroutine \<Rightarrow> sched \<Rightarrow> sched" where
  "set_go r v s = s\<lparr>go := (go s)(r := v)\<rparr>"

lemma set_stat_simps [simp]:
  "stat (set_stat r v s) = (stat s)(r := v)" "go (set_stat r v s) = go s"
  "errs (set_stat r v s) = errs s" "cancelled (set_stat r v s) = cancelled s"
  "pc (set_stat r v s) = pc s"
  by (simp_all add: set_stat_def)

lemma set_go_simps [simp]:
  "stat (set_go r v s) = stat s" "go (set_go r v s) = (go s)(r := v)"
  "errs (set_go r v s) = errs s" "cancelled (set_go r v s) = cancelled s"
  "pc (set_go r v s) = pc s"
  by (simp_all add: set_go_def)

section \<open>Operations\<close>

definition isDone :: "ExecutionGraph \<Rightarrow> sched \<Rightarrow> bool" where
  "isDone g s \<longleftrightarrow>
     (\<forall>r \<in> ran (gNodes g). stat s r \<noteq> StatusWaiting \<and> stat s r \<noteq> StatusRunning)"

text \<open>\<open>Scheduler.Cancel\<close>; the runner's own cancellation is the task runner's.\<close>

definition sched_Cancel :: "sched \<Rightarrow> sched" where
  "sched_Cancel s = s\<lparr>cancelled := True\<rparr>"

text \<open>One iteration of the first loop of \<open>checkStatus\<close>; a parent without a node is a nil stage.\<close>

definition check_parent ::
  "ExecutionGraph \<Rightarrow> (ref \<Rightarrow> Stage) \<Rightarrow> string \<Rightarrow> string \<Rightarrow> string list \<Rightarrow> bool \<Rightarrow> string list \<Rightarrow>
     sched \<Rightarrow> sched" where
  "check_parent g st n p ps ok todo s =
     (case gNodes g p of
        None \<Rightarrow> s\<lparr>pc := Panicked\<rparr>
      | Some q \<Rightarrow>
          if stat s q = StatusDone \<or> stat s q = StatusSkipped then s\<lparr>pc := Check n ps ok todo\<rparr>
          else if stat s q = StatusError then
            (if \<not> sAllowFailure (st q) then
               (set_stat (node g n) StatusCanceled s)\<lparr>pc := Check n ps False todo\<rparr>
             else s\<lparr>pc := Check n ps ok todo\<rparr>)
          else if stat s q = StatusCanceled then
            (set_stat (node g n) StatusCanceled s)\<lparr>pc := Check n ps False todo\<rparr>
          else s\<lparr>pc := Check n ps False todo\<rparr>)"

text \<open>The end of \<open>checkStatus\<close> and what the pass does with its answer.\<close>

definition check_end :: "ExecutionGraph \<Rightarrow> string \<Rightarrow> bool \<Rightarrow> string list \<Rightarrow> sched \<Rightarrow> sched" where
  "check_end g n ok todo s =
     (if \<not> ok then s\<lparr>pc := Scan todo\<rparr>
      else (set_go (node g n) GRun (set_stat (node g n) StatusRunning s))\<lparr>pc := Scan todo\<rparr>)"

text \<open>
  The body of a pass up to \<open>checkStatus\<close>; \<open>ps\<close> enumerates the parents that \<open>checkStatus\<close> is
  about to read and \<open>out\<close> is what the condition's command gave, if there is a condition.
\<close>

definition visit ::
  "ExecutionGraph \<Rightarrow> (ref \<Rightarrow> Stage) \<Rightarrow> condition_result \<Rightarrow> string list \<Rightarrow> string \<Rightarrow> string list \<Rightarrow>
     sched \<Rightarrow> sched" where
  "visit g st out ps n todo s =
     (let r = node g n; check = s\<lparr>pc := Check n ps True todo\<rparr> in
      if stat s r \<noteq> StatusWaiting then s\<lparr>pc := Scan todo\<rparr>
      else if sCondition (st r) \<noteq> '''' then
        (case out of
           CondError \<Rightarrow> sched_Cancel (set_stat r StatusError s)\<lparr>pc := Scan todo\<rparr>
         | CondMeets meets \<Rightarrow>
             if \<not> meets then (set_stat r StatusSkipped s)\<lparr>pc := Scan todo\<rparr> else check)
      else check)"

text \<open>What the two leave alone.\<close>

lemma visit_frame [simp]:
  "go (visit g st out ps n todo s) = go s" "errs (visit g st out ps n todo s) = errs s"
  "r \<noteq> node g n \<Longrightarrow> stat (visit g st out ps n todo s) r = stat s r"
  "cancelled s \<Longrightarrow> cancelled (visit g st out ps n todo s)"
  by (auto simp: visit_def sched_Cancel_def Let_def split: condition_result.splits)

lemma check_parent_frame [simp]:
  "go (check_parent g st n p ps ok todo s) = go s" "errs (check_parent g st n p ps ok todo s) = errs s"
  "r \<noteq> node g n \<Longrightarrow> stat (check_parent g st n p ps ok todo s) r = stat s r"
  "cancelled (check_parent g st n p ps ok todo s) = cancelled s"
  by (auto simp: check_parent_def split: option.splits)

lemma visit_status:
  "stat s (node g n) = StatusWaiting \<Longrightarrow>
     stat (visit g st out ps n todo s) (node g n) = StatusError \<and> cancelled (visit g st out ps n todo s) \<or>
     stat (visit g st out ps n todo s) (node g n) \<in> {StatusWaiting, StatusSkipped}"
  by (auto simp: visit_def sched_Cancel_def Let_def split: condition_result.splits)

lemma check_parent_status:
  "stat (check_parent g st n p ps ok todo s) (node g n) \<in> {stat s (node g n), StatusCanceled}"
  by (auto simp: check_parent_def split: option.splits)

text \<open>The goroutine: the run's result, the stored error, the failure that is allowed.\<close>

definition goroutine_run :: "ref \<Rightarrow> string option \<Rightarrow> sched \<Rightarrow> sched" where
  "goroutine_run r res s =
     (case res of
        None \<Rightarrow> set_go r (GEnd None) (set_stat r StatusDone s)
      | Some e \<Rightarrow> set_go r (GFailed e) (set_stat r StatusError s))"

definition goroutine_store :: "(ref \<Rightarrow> Stage) \<Rightarrow> ref \<Rightarrow> string \<Rightarrow> sched \<Rightarrow> sched" where
  "goroutine_store st r e s =
     (set_go r (if \<not> sAllowFailure (st r) then GEnd (Some e) else GRecovered e) s)
       \<lparr>errs := errs s @ [(r, e)]\<rparr>"

definition goroutine_recover :: "ref \<Rightarrow> string \<Rightarrow> sched \<Rightarrow> sched" where
  "goroutine_recover r e s = set_go r (GEnd (Some e)) (set_stat r StatusDone s)"

definition idle :: "goroutine \<Rightarrow> bool" where
  "idle p = (case p of GNone \<Rightarrow> True | GEnd _ \<Rightarrow> True | _ \<Rightarrow> False)"

definition last_error :: "(ref \<times> string) list \<Rightarrow> string option" where
  "last_error es = (if es \<noteq> [] then Some (snd (last es)) else None)"

text \<open>\<open>Schedule\<close>.\<close>

inductive step :: "ExecutionGraph \<Rightarrow> (ref \<Rightarrow> Stage) \<Rightarrow> sched \<Rightarrow> sched \<Rightarrow> bool" for g st where
  loop_done: "pc s = Head \<Longrightarrow> isDone g s \<Longrightarrow> step g st s (s\<lparr>pc := WgWait\<rparr>)"
| loop_break: "pc s = Head \<Longrightarrow> \<not> isDone g s \<Longrightarrow> cancelled s \<Longrightarrow> step g st s (s\<lparr>pc := WgWait\<rparr>)"
| loop_pass: "pc s = Head \<Longrightarrow> \<not> isDone g s \<Longrightarrow> \<not> cancelled s \<Longrightarrow>
    enumerates ns (dom (gNodes g)) \<Longrightarrow> step g st s (s\<lparr>pc := Scan ns\<rparr>)"
| pass_end: "pc s = Scan [] \<Longrightarrow> step g st s (s\<lparr>pc := Head\<rparr>)"
| pass_visit: "pc s = Scan (n # todo) \<Longrightarrow>
    enumerates ps (set (succs (gParent g) (sName (st (node g n))))) \<Longrightarrow>
    step g st s (visit g st out ps n todo s)"
| check_next: "pc s = Check n (p # ps) ok todo \<Longrightarrow>
    step g st s (check_parent g st n p ps ok todo s)"
| check_last: "pc s = Check n [] ok todo \<Longrightarrow> step g st s (check_end g n ok todo s)"
| run_end: "go s r = GRun \<Longrightarrow> step g st s (goroutine_run r res s)"
| run_store: "go s r = GFailed e \<Longrightarrow> step g st s (goroutine_store st r e s)"
| run_recover: "go s r = GRecovered e \<Longrightarrow> step g st s (goroutine_recover r e s)"
| cancel: "\<not> cancelled s \<Longrightarrow> step g st s (sched_Cancel s)"
| wait_end: "pc s = WgWait \<Longrightarrow> \<forall>r. idle (go s r) \<Longrightarrow>
    step g st s (s\<lparr>pc := Returned (last_error (errs s))\<rparr>)"

definition start_state :: "ExecutionGraph \<Rightarrow> (ref \<Rightarrow> Stage) \<Rightarrow> sched" where
  "start_state g st =
     \<lparr>stat = (\<lambda>r. sStatus (st r)), go = (\<lambda>_. GNone), errs = gErrors g, cancelled = False, pc = Head\<rparr>"

section \<open>Well-formed graphs\<close>

text \<open>
  What a graph that \<open>NewExecutionGraph\<close> built from distinct, existing stages satisfies, and
  all the scheduler needs. The name of the root's stage is not constrained: it is the
  pipeline's.
\<close>

definition wf_graph :: "ExecutionGraph \<Rightarrow> (ref \<Rightarrow> Stage) \<Rightarrow> bool" where
  "wf_graph g st \<longleftrightarrow>
     acyclic (edges (gChildren g)) \<and> edges (gParent g) = (edges (gChildren g))\<inverse> \<and>
     finite (dom (gNodes g)) \<and> inj_on (gNodes g) (dom (gNodes g)) \<and>
     (\<exists>r. gNodes g RootNodeName = Some r \<and> sStatus (st r) = StatusDone) \<and>
     succs (gParent g) RootNodeName = [] \<and>
     (\<forall>n r. gNodes g n = Some r \<longrightarrow> n \<noteq> RootNodeName \<longrightarrow>
        sName (st r) = n \<and> sStatus (st r) = StatusWaiting \<and>
        set (succs (gParent g) n) \<subseteq> dom (gNodes g)) \<and>
     gErrors g = []"


lemma wf_node_inj:
  "wf_graph g st \<Longrightarrow> gNodes g n = Some r \<Longrightarrow> gNodes g m = Some r \<Longrightarrow> n = m"
  unfolding wf_graph_def by (metis domI inj_onD)

lemma wf_name: "wf_graph g st \<Longrightarrow> gNodes g n = Some r \<Longrightarrow> n \<noteq> RootNodeName \<Longrightarrow> sName (st r) = n"
  unfolding wf_graph_def by blast

lemma wf_parents:
  "wf_graph g st \<Longrightarrow> gNodes g n = Some r \<Longrightarrow> n \<noteq> RootNodeName \<Longrightarrow>
     p \<in> set (succs (gParent g) n) \<Longrightarrow> \<exists>q. gNodes g p = Some q"
  unfolding wf_graph_def by blast

lemma wf_root_no_parent: "wf_graph g st \<Longrightarrow> (p, RootNodeName) \<notin> edges (gChildren g)"
proof
  assume w: "wf_graph g st" and e: "(p, RootNodeName) \<in> edges (gChildren g)"
  then have "(RootNodeName, p) \<in> edges (gParent g)" unfolding wf_graph_def by blast
  moreover have "succs (gParent g) RootNodeName = []" using w unfolding wf_graph_def by blast
  ultimately show False by simp
qed

section \<open>What every step does to a status\<close>

definition passed :: "(ref \<Rightarrow> Stage) \<Rightarrow> sched \<Rightarrow> ref \<Rightarrow> bool" where
  "passed st s q \<longleftrightarrow> stat s q = StatusDone \<or> stat s q = StatusSkipped \<or>
     stat s q = StatusError \<and> sAllowFailure (st q)"

definition blocking :: "(ref \<Rightarrow> Stage) \<Rightarrow> sched \<Rightarrow> ref \<Rightarrow> bool" where
  "blocking st s q \<longleftrightarrow> stat s q = StatusCanceled \<or> stat s q = StatusError \<and> \<not> sAllowFailure (st q)"

text \<open>The edges of the status machine.\<close>

inductive status_step :: "bool \<Rightarrow> status \<Rightarrow> status \<Rightarrow> bool" where
  st_start: "status_step a StatusWaiting StatusRunning"
| st_skip: "status_step a StatusWaiting StatusSkipped"
| st_cancel: "status_step a StatusWaiting StatusCanceled"
| st_cond_error: "status_step a StatusWaiting StatusError"
| st_done: "status_step a StatusRunning StatusDone"
| st_error: "status_step a StatusRunning StatusError"
| st_allowed: "status_step True StatusError StatusDone"

inductive_simps status_step_from [simp]:
  "status_step a StatusWaiting v" "status_step a StatusRunning v" "status_step a StatusError v"
  "status_step a StatusDone v" "status_step a StatusSkipped v" "status_step a StatusCanceled v"

lemma passed_stable:
  "stat t q = stat s q \<or> status_step (sAllowFailure (st q)) (stat s q) (stat t q) \<Longrightarrow>
     passed st s q \<Longrightarrow> passed st t q"
  by (auto simp: passed_def)

lemma blocking_stable:
  "stat t q = stat s q \<or> status_step (sAllowFailure (st q)) (stat s q) (stat t q) \<Longrightarrow>
     blocking st s q \<Longrightarrow> blocking st t q"
  by (auto simp: blocking_def)

section \<open>The invariant\<close>

text \<open>The status of a node agrees with what its goroutine has done.\<close>

definition phase_ok :: "(ref \<Rightarrow> Stage) \<Rightarrow> sched \<Rightarrow> ref \<Rightarrow> bool" where
  "phase_ok st s r \<longleftrightarrow>
     (case go s r of
        GNone \<Rightarrow> stat s r \<noteq> StatusRunning \<and> (stat s r = StatusError \<longrightarrow> cancelled s)
      | GRun \<Rightarrow> stat s r = StatusRunning
      | GFailed e \<Rightarrow> stat s r = StatusError
      | GRecovered e \<Rightarrow> stat s r = StatusError \<and> sAllowFailure (st r)
      | GEnd None \<Rightarrow> stat s r = StatusDone
      | GEnd (Some e) \<Rightarrow> stat s r = (if sAllowFailure (st r) then StatusDone else StatusError))"

definition parents_passed :: "ExecutionGraph \<Rightarrow> (ref \<Rightarrow> Stage) \<Rightarrow> sched \<Rightarrow> string set \<Rightarrow> bool" where
  "parents_passed g st s ps \<longleftrightarrow> (\<forall>p \<in> ps. \<exists>q. gNodes g p = Some q \<and> passed st s q)"

definition parent_blocking :: "ExecutionGraph \<Rightarrow> (ref \<Rightarrow> Stage) \<Rightarrow> sched \<Rightarrow> string \<Rightarrow> bool" where
  "parent_blocking g st s n \<longleftrightarrow>
     (\<exists>p \<in> set (succs (gParent g) n). \<exists>q. gNodes g p = Some q \<and> blocking st s q)"

definition nodes_ok :: "ExecutionGraph \<Rightarrow> (ref \<Rightarrow> Stage) \<Rightarrow> sched \<Rightarrow> bool" where
  "nodes_ok g st s \<longleftrightarrow>
     (\<forall>r. r \<notin> ran (gNodes g) \<longrightarrow> go s r = GNone) \<and>
     (\<forall>n r. gNodes g n = Some r \<longrightarrow> phase_ok st s r \<and>
        (n = RootNodeName \<longrightarrow> go s r = GNone \<and> stat s r = StatusDone) \<and>
        (n \<noteq> RootNodeName \<longrightarrow> go s r = GNone \<longrightarrow> stat s r \<noteq> StatusDone) \<and>
        (go s r \<noteq> GNone \<longrightarrow> parents_passed g st s (set (succs (gParent g) n))) \<and>
        (stat s r = StatusCanceled \<longrightarrow> parent_blocking g st s n))"

text \<open>
  The stored errors are the errors of the goroutines that have stored theirs, once each.
\<close>

definition stored :: "goroutine \<Rightarrow> string \<Rightarrow> bool" where
  "stored p e \<longleftrightarrow> p = GRecovered e \<or> p = GEnd (Some e)"

definition errs_ok :: "sched \<Rightarrow> bool" where
  "errs_ok s \<longleftrightarrow> distinct (map fst (errs s)) \<and> (\<forall>r e. (r, e) \<in> set (errs s) \<longleftrightarrow> stored (go s r) e)"

definition pc_ok :: "ExecutionGraph \<Rightarrow> (ref \<Rightarrow> Stage) \<Rightarrow> sched \<Rightarrow> bool" where
  "pc_ok g st s \<longleftrightarrow>
     (case pc s of
        Head \<Rightarrow> True
      | Scan todo \<Rightarrow> set todo \<subseteq> dom (gNodes g)
      | Check n ps ok todo \<Rightarrow>
          n \<noteq> RootNodeName \<and> n \<in> dom (gNodes g) \<and> set todo \<subseteq> dom (gNodes g) \<and>
          go s (node g n) = GNone \<and> set ps \<subseteq> set (succs (gParent g) n) \<and>
          (stat s (node g n) = StatusWaiting \<or> stat s (node g n) = StatusCanceled \<and> \<not> ok) \<and>
          (ok \<longrightarrow> parents_passed g st s (set (succs (gParent g) n) - set ps))
      | WgWait \<Rightarrow> isDone g s \<or> cancelled s
      | Returned res \<Rightarrow> (isDone g s \<or> cancelled s) \<and> (\<forall>r. idle (go s r)) \<and> res = last_error (errs s)
      | Panicked \<Rightarrow> False)"

definition sched_inv :: "ExecutionGraph \<Rightarrow> (ref \<Rightarrow> Stage) \<Rightarrow> sched \<Rightarrow> bool" where
  "sched_inv g st s \<longleftrightarrow> wf_graph g st \<and> nodes_ok g st s \<and> errs_ok s \<and> pc_ok g st s"

lemmas inv_parts = sched_inv_def nodes_ok_def

lemma parents_passed_stable:
  "parents_passed g st s ps \<Longrightarrow> (\<And>q. passed st s q \<Longrightarrow> passed st t q) \<Longrightarrow> parents_passed g st t ps"
  unfolding parents_passed_def by blast

lemma parent_blocking_stable:
  "parent_blocking g st s n \<Longrightarrow> (\<And>q. blocking st s q \<Longrightarrow> blocking st t q) \<Longrightarrow> parent_blocking g st t n"
  unfolding parent_blocking_def by blast

lemma inv_phase: "sched_inv g st s \<Longrightarrow> gNodes g n = Some r \<Longrightarrow> phase_ok st s r"
  unfolding inv_parts by blast

lemma inv_root: "sched_inv g st s \<Longrightarrow> gNodes g RootNodeName = Some r \<Longrightarrow> go s r = GNone \<and> stat s r = StatusDone"
  unfolding inv_parts by blast

lemma inv_go_node: "sched_inv g st s \<Longrightarrow> go s r \<noteq> GNone \<Longrightarrow> \<exists>n. gNodes g n = Some r \<and> n \<noteq> RootNodeName"
  unfolding inv_parts ran_def by blast

lemma inv_waiting_go: "sched_inv g st s \<Longrightarrow> gNodes g n = Some r \<Longrightarrow> stat s r = StatusWaiting \<Longrightarrow> go s r = GNone"
  by (drule (1) inv_phase) (auto simp: phase_ok_def split: goroutine.splits option.splits if_splits)

lemma inv_check:
  "sched_inv g st s \<Longrightarrow> pc s = Check n ps ok todo \<Longrightarrow>
     n \<noteq> RootNodeName \<and> n \<in> dom (gNodes g) \<and> set todo \<subseteq> dom (gNodes g) \<and>
     go s (node g n) = GNone \<and> set ps \<subseteq> set (succs (gParent g) n) \<and>
     (stat s (node g n) = StatusWaiting \<or> stat s (node g n) = StatusCanceled \<and> \<not> ok) \<and>
     (ok \<longrightarrow> parents_passed g st s (set (succs (gParent g) n) - set ps))"
  by (simp add: sched_inv_def pc_ok_def)

lemma inv_scan: "sched_inv g st s \<Longrightarrow> pc s = Scan todo \<Longrightarrow> set todo \<subseteq> dom (gNodes g)"
  by (simp add: sched_inv_def pc_ok_def)

text \<open>Every step moves each status along an edge of the status machine, or not at all.\<close>

lemma step_status:
  assumes i: "sched_inv g st s" and s: "step g st s t"
  shows "stat t r = stat s r \<or> status_step (sAllowFailure (st r)) (stat s r) (stat t r)"
  using s
proof cases
  case (pass_visit n todo ps out)
  then show ?thesis by (auto simp: visit_def sched_Cancel_def Let_def split: condition_result.splits)
next
  case (check_next n p ps ok todo)
  with inv_check [OF i check_next(2)] show ?thesis
    by (auto simp: check_parent_def split: option.splits)
next
  case (check_last n ok todo)
  with inv_check [OF i check_last(2)] show ?thesis by (auto simp: check_end_def)
next
  case (run_end r res)
  with inv_go_node [OF i, of r] inv_phase [OF i] have "stat s r = StatusRunning"
    by (fastforce simp: phase_ok_def)
  with run_end show ?thesis by (auto simp: goroutine_run_def split: option.splits)
next
  case (run_store r e)
  then show ?thesis by (simp add: goroutine_store_def)
next
  case (run_recover r e)
  with inv_go_node [OF i, of r] inv_phase [OF i] have "stat s r = StatusError \<and> sAllowFailure (st r)"
    by (fastforce simp: phase_ok_def)
  with run_recover show ?thesis by (auto simp: goroutine_recover_def)
qed (simp_all add: sched_Cancel_def)

lemma step_passed: "sched_inv g st s \<Longrightarrow> step g st s t \<Longrightarrow> passed st s q \<Longrightarrow> passed st t q"
  by (rule passed_stable [OF step_status])

lemma step_blocking: "sched_inv g st s \<Longrightarrow> step g st s t \<Longrightarrow> blocking st s q \<Longrightarrow> blocking st t q"
  by (rule blocking_stable [OF step_status])

section \<open>Every step keeps the invariant\<close>

lemma phase_ok_other:
  "phase_ok st s r \<Longrightarrow> stat t r = stat s r \<Longrightarrow> go t r = go s r \<Longrightarrow> (cancelled s \<Longrightarrow> cancelled t) \<Longrightarrow>
     phase_ok st t r"
  by (auto simp: phase_ok_def split: goroutine.splits option.splits)

text \<open>A step that touches one node, not the root, and keeps what has passed.\<close>

lemma nodes_ok_update:
  assumes i: "sched_inv g st s" and m: "gNodes g m = Some r0" "m \<noteq> RootNodeName"
    and other: "\<And>r. r \<noteq> r0 \<Longrightarrow> stat t r = stat s r \<and> go t r = go s r"
    and c: "cancelled s \<Longrightarrow> cancelled t"
    and s: "step g st s t"
    and r0: "phase_ok st t r0" "go t r0 \<noteq> GNone \<Longrightarrow> parents_passed g st s (set (succs (gParent g) m))"
      "go t r0 = GNone \<Longrightarrow> stat t r0 \<noteq> StatusDone"
      "stat t r0 = StatusCanceled \<Longrightarrow> parent_blocking g st s m"
  shows "nodes_ok g st t"
proof -
  have n: "nodes_ok g st s" and w: "wf_graph g st" using i by (simp_all add: sched_inv_def)
  note p = step_passed [OF i s] and b = step_blocking [OF i s]
  have "phase_ok st t r \<and> (n = RootNodeName \<longrightarrow> go t r = GNone \<and> stat t r = StatusDone) \<and>
      (n \<noteq> RootNodeName \<longrightarrow> go t r = GNone \<longrightarrow> stat t r \<noteq> StatusDone) \<and>
      (go t r \<noteq> GNone \<longrightarrow> parents_passed g st t (set (succs (gParent g) n))) \<and>
      (stat t r = StatusCanceled \<longrightarrow> parent_blocking g st t n)"
    if nr: "gNodes g n = Some r" for n r
  proof (cases "r = r0")
    case True
    with wf_node_inj [OF w nr] m have "n = m" by simp
    with True r0 m(2) p b show ?thesis by (blast intro: parents_passed_stable parent_blocking_stable)
  next
    case False
    then have o: "stat t r = stat s r" "go t r = go s r" using other by blast+
    from n nr have "phase_ok st s r" "n = RootNodeName \<Longrightarrow> go s r = GNone \<and> stat s r = StatusDone"
      "n \<noteq> RootNodeName \<Longrightarrow> go s r = GNone \<Longrightarrow> stat s r \<noteq> StatusDone"
      "go s r \<noteq> GNone \<Longrightarrow> parents_passed g st s (set (succs (gParent g) n))"
      "stat s r = StatusCanceled \<Longrightarrow> parent_blocking g st s n"
      unfolding nodes_ok_def by blast+
    with phase_ok_other [OF _ o c] p b show ?thesis
      unfolding o by (blast intro: parents_passed_stable parent_blocking_stable)
  qed
  moreover have "go t r = GNone" if "r \<notin> ran (gNodes g)" for r
    using that n other [of r] m(1) by (metis nodes_ok_def ranI)
  ultimately show ?thesis unfolding nodes_ok_def by blast
qed

text \<open>A step that touches no status and no goroutine.\<close>

lemma nodes_ok_same:
  "nodes_ok g st s \<Longrightarrow> stat t = stat s \<Longrightarrow> go t = go s \<Longrightarrow> (cancelled s \<Longrightarrow> cancelled t) \<Longrightarrow> nodes_ok g st t"
proof -
  assume a: "nodes_ok g st s" "stat t = stat s" "go t = go s" "cancelled s \<Longrightarrow> cancelled t"
  then have p: "passed st t = passed st s" "blocking st t = blocking st s"
    by (simp_all add: passed_def blocking_def fun_eq_iff)
  have "phase_ok st t r" if "phase_ok st s r" for r
    using that a by (blast intro: phase_ok_other dest: fun_cong)
  with a(1) show ?thesis
    unfolding nodes_ok_def parents_passed_def parent_blocking_def p a(2,3) by blast
qed

lemma scan_node:
  assumes i: "sched_inv g st s" and p: "pc s = Scan (n # todo)" and w: "stat s (node g n) = StatusWaiting"
  shows "gNodes g n = Some (node g n)" "n \<noteq> RootNodeName" "go s (node g n) = GNone"
    "sName (st (node g n)) = n"
proof -
  show n: "gNodes g n = Some (node g n)" using inv_scan [OF i p] by auto
  then show m: "n \<noteq> RootNodeName" using inv_root [OF i] w by auto
  show "go s (node g n) = GNone" using inv_waiting_go [OF i n w] .
  show "sName (st (node g n)) = n" using wf_name [OF _ n m] i by (simp add: sched_inv_def)
qed

lemma check_parent_cancel:
  "stat (check_parent g st n p ps ok todo s) (node g n) = StatusCanceled \<Longrightarrow>
     p \<in> set (succs (gParent g) n) \<Longrightarrow> stat s (node g n) \<noteq> StatusCanceled \<Longrightarrow> parent_blocking g st s n"
  unfolding parent_blocking_def
  by (rule bexI [of _ p]) (auto simp: check_parent_def blocking_def split: option.splits if_splits)

lemma go_active:
  "sched_inv g st s \<Longrightarrow> go s r \<noteq> GNone \<Longrightarrow>
     \<exists>m. gNodes g m = Some r \<and> m \<noteq> RootNodeName \<and> phase_ok st s r \<and>
       parents_passed g st s (set (succs (gParent g) m))"
  using inv_go_node [of g st s r] unfolding inv_parts by blast

lemma inv_canceled:
  "sched_inv g st s \<Longrightarrow> gNodes g n = Some r \<Longrightarrow> stat s r = StatusCanceled \<Longrightarrow> parent_blocking g st s n"
  unfolding inv_parts by blast

lemma inv_not_done:
  "sched_inv g st s \<Longrightarrow> gNodes g n = Some r \<Longrightarrow> n \<noteq> RootNodeName \<Longrightarrow> go s r = GNone \<Longrightarrow>
     stat s r \<noteq> StatusDone"
  unfolding inv_parts by blast

lemma step_nodes_ok:
  assumes i: "sched_inv g st s" and s: "step g st s t"
  shows "nodes_ok g st t"
proof -
  have n: "nodes_ok g st s" using i by (simp add: sched_inv_def)
  from s show ?thesis
  proof cases
    case (pass_visit m todo ps out)
    show ?thesis
    proof (cases "stat s (node g m) = StatusWaiting")
      case True
      note nd = scan_node [OF i pass_visit(2) True]
      show ?thesis
        by (rule nodes_ok_update [OF i nd(1,2) _ _ s])
          (use pass_visit(1) nd(3) visit_status [OF True, of st out ps todo] in \<open>auto simp: phase_ok_def\<close>)
    next
      case False
      with pass_visit have "t = s\<lparr>pc := Scan todo\<rparr>" by (simp add: visit_def Let_def)
      then show ?thesis by (auto intro: nodes_ok_same [OF n])
    qed
  next
    case (check_next m p ps ok todo)
    have nd: "gNodes g m = Some (node g m)" "m \<noteq> RootNodeName" "go s (node g m) = GNone"
      "p \<in> set (succs (gParent g) m)"
      using inv_check [OF i check_next(2)] by auto
    have pb: "parent_blocking g st s m" if "stat t (node g m) = StatusCanceled"
      using that inv_canceled [OF i nd(1)] check_parent_cancel [OF _ nd(4)] unfolding check_next(1) by blast
    show ?thesis
      by (rule nodes_ok_update [OF i nd(1,2) _ _ s])
        (use check_next(1) nd(3) pb inv_phase [OF i nd(1)] check_parent_status [of g st m p ps ok todo s]
          inv_not_done [OF i nd(1,2,3)] in \<open>auto simp: phase_ok_def\<close>)
  next
    case (check_last m ok todo)
    have nd: "gNodes g m = Some (node g m)" "m \<noteq> RootNodeName" "go s (node g m) = GNone"
      "ok \<Longrightarrow> parents_passed g st s (set (succs (gParent g) m))"
      using inv_check [OF i check_last(2)] by auto
    show ?thesis
    proof (cases ok)
      case True
      with check_last have t: "t = (set_go (node g m) GRun (set_stat (node g m) StatusRunning s))\<lparr>pc := Scan todo\<rparr>"
        by (simp add: check_end_def)
      show ?thesis
        by (rule nodes_ok_update [OF i nd(1,2) _ _ s]) (simp_all add: t phase_ok_def nd(4) [OF True])
    next
      case False
      with check_last have "t = s\<lparr>pc := Scan todo\<rparr>" by (simp add: check_end_def)
      then show ?thesis by (auto intro: nodes_ok_same [OF n])
    qed
  next
    case (run_end r res)
    then obtain m where m: "gNodes g m = Some r" "m \<noteq> RootNodeName" and
      pp: "parents_passed g st s (set (succs (gParent g) m))"
      using go_active [OF i, of r] by auto
    show ?thesis
      by (rule nodes_ok_update [OF i m _ _ s])
        (use run_end pp in \<open>auto simp: goroutine_run_def phase_ok_def split: option.splits\<close>)
  next
    case (run_store r e)
    then obtain m where m: "gNodes g m = Some r" "m \<noteq> RootNodeName" and
      pp: "phase_ok st s r" "parents_passed g st s (set (succs (gParent g) m))"
      using go_active [OF i, of r] by auto
    show ?thesis
      by (rule nodes_ok_update [OF i m _ _ s])
        (use run_store pp in \<open>auto simp: goroutine_store_def phase_ok_def\<close>)
  next
    case (run_recover r e)
    then obtain m where m: "gNodes g m = Some r" "m \<noteq> RootNodeName" and
      pp: "phase_ok st s r" "parents_passed g st s (set (succs (gParent g) m))"
      using go_active [OF i, of r] by auto
    show ?thesis
      by (rule nodes_ok_update [OF i m _ _ s])
        (use run_recover pp in \<open>auto simp: goroutine_recover_def phase_ok_def\<close>)
  qed (rule nodes_ok_same [OF n]; simp add: sched_Cancel_def)+
qed

lemma errs_ok_same: "errs_ok s \<Longrightarrow> errs t = errs s \<Longrightarrow> (\<And>r. stored (go t r) = stored (go s r)) \<Longrightarrow> errs_ok t"
  by (simp add: errs_ok_def)

lemma stored_simps [simp]:
  "stored GNone = (\<lambda>_. False)" "stored GRun = (\<lambda>_. False)" "stored (GFailed e) = (\<lambda>_. False)"
  "stored (GRecovered e) = (\<lambda>d. d = e)" "stored (GEnd None) = (\<lambda>_. False)"
  "stored (GEnd (Some e)) = (\<lambda>d. d = e)"
  by (auto simp: stored_def fun_eq_iff)

lemma step_errs_ok:
  assumes i: "sched_inv g st s" and s: "step g st s t"
  shows "errs_ok t"
proof -
  have e: "errs_ok s" using i by (simp add: sched_inv_def)
  from s show ?thesis
  proof cases
    case (pass_visit m todo ps out)
    then show ?thesis
      by (intro errs_ok_same [OF e]) auto
  next
    case (check_next m p ps ok todo)
    then show ?thesis by (intro errs_ok_same [OF e]) auto
  next
    case (check_last m ok todo)
    then show ?thesis
      using inv_check [OF i check_last(2)] by (intro errs_ok_same [OF e]) (auto simp: check_end_def)
  next
    case (run_end r res)
    then show ?thesis
      by (intro errs_ok_same [OF e]) (auto simp: goroutine_run_def split: option.splits)
  next
    case (run_store r x)
    with e have "r \<notin> fst ` set (errs s)" unfolding errs_ok_def by (metis imageE prod.collapse stored_simps(3))
    with e run_store show ?thesis by (auto simp: errs_ok_def goroutine_store_def)
  next
    case (run_recover r x)
    then show ?thesis by (intro errs_ok_same [OF e]) (auto simp: goroutine_recover_def)
  qed (rule errs_ok_same [OF e]; simp add: sched_Cancel_def)+
qed

lemma check_parent_node:
  assumes i: "sched_inv g st s" and p: "pc s = Check n (p # ps) ok todo"
  shows "\<exists>q. gNodes g p = Some q"
proof -
  note c = inv_check [OF i p]
  then have "gNodes g n = Some (node g n)" by auto
  with wf_parents [of g st n _ p] c i show ?thesis by (auto simp: sched_inv_def)
qed

lemma isDone_stable:
  assumes d: "isDone g s" and m: "\<And>r. stat t r = stat s r \<or> status_step (sAllowFailure (st r)) (stat s r) (stat t r)"
  shows "isDone g t"
proof -
  have "stat t r \<noteq> StatusWaiting \<and> stat t r \<noteq> StatusRunning" if "r \<in> ran (gNodes g)" for r
    using d m [of r] that unfolding isDone_def by (cases "stat s r") auto
  then show ?thesis unfolding isDone_def by blast
qed

text \<open>An action of a goroutine, or a cancellation, leaves the loop where it is.\<close>

lemma pc_ok_other:
  assumes i: "sched_inv g st s" and s: "step g st s t" and p: "pc t = pc s"
    and g: "\<And>r. go s r = GNone \<Longrightarrow> go t r = GNone \<and> stat t r = stat s r"
    and c: "cancelled s \<Longrightarrow> cancelled t"
    and r: "\<And>res. pc s \<noteq> Returned res \<or> (go t = go s \<and> errs t = errs s)"
  shows "pc_ok g st t"
proof -
  note d = isDone_stable [where st = st, OF _ step_status [OF i s]]
  show ?thesis
  proof (cases "pc s")
    case (Check n ps ok todo)
    from inv_check [OF i this] g [of "node g n"]
    have "n \<noteq> RootNodeName" "n \<in> dom (gNodes g)" "set todo \<subseteq> dom (gNodes g)" "go t (node g n) = GNone"
      "set ps \<subseteq> set (succs (gParent g) n)"
      "stat t (node g n) = StatusWaiting \<or> stat t (node g n) = StatusCanceled \<and> \<not> ok"
      "ok \<longrightarrow> parents_passed g st s (set (succs (gParent g) n) - set ps)"
      by auto
    with p Check step_passed [OF i s] show ?thesis
      by (simp add: pc_ok_def) (blast intro: parents_passed_stable)
  qed (use i p c d r in \<open>auto simp: pc_ok_def sched_inv_def\<close>)
qed

lemma returned_idle: "sched_inv g st s \<Longrightarrow> pc s = Returned res \<Longrightarrow> idle (go s r)"
  by (simp add: sched_inv_def pc_ok_def)

lemma step_pc_ok:
  assumes i: "sched_inv g st s" and s: "step g st s t"
  shows "pc_ok g st t"
proof -
  have pp: "parents_passed g st t ps" if "parents_passed g st s ps" for ps
    using that step_passed [OF i s] by (rule parents_passed_stable)
  from s show ?thesis
  proof cases
    case (loop_pass ns)
    then show ?thesis by (auto simp: pc_ok_def enumerates_def)
  next
    case (pass_visit n todo ps out)
    have sub: "set todo \<subseteq> dom (gNodes g)" using inv_scan [OF i pass_visit(2)] by simp
    show ?thesis
    proof (cases "stat s (node g n) = StatusWaiting")
      case True
      with scan_node [OF i pass_visit(2) True] sub pass_visit show ?thesis
        by (auto simp: visit_def sched_Cancel_def Let_def pc_ok_def enumerates_def parents_passed_def
            split: condition_result.splits)
    qed (use sub pass_visit in \<open>simp add: visit_def Let_def pc_ok_def\<close>)
  next
    case (check_next n p ps ok todo)
    note c = inv_check [OF i check_next(2)]
    obtain q where q: "gNodes g p = Some q" using check_parent_node [OF i check_next(2)] by blast
    have eq: "set (succs (gParent g) n) - set ps \<subseteq> insert p (set (succs (gParent g) n) - set (p # ps))"
      by auto
    have all: "parents_passed g st t (set (succs (gParent g) n) - set ps)" if ok "passed st s q"
      using pp [of "set (succs (gParent g) n) - set (p # ps)"] c that q eq step_passed [OF i s]
      unfolding parents_passed_def by blast
    show ?thesis
      using c q all check_next(1)
      by (auto simp: check_parent_def pc_ok_def passed_def)
  next
    case (check_last n ok todo)
    with inv_check [OF i check_last(2)] show ?thesis by (simp add: pc_ok_def check_end_def)
  next
    case (run_end r res)
    have "pc s \<noteq> Returned x" for x using returned_idle [OF i, of x r] run_end(2) by (auto simp: idle_def)
    with run_end show ?thesis
      by (intro pc_ok_other [OF i s]) (auto simp: goroutine_run_def split: option.splits)
  next
    case (run_store r e)
    have "pc s \<noteq> Returned x" for x using returned_idle [OF i, of x r] run_store(2) by (auto simp: idle_def)
    with run_store show ?thesis by (intro pc_ok_other [OF i s]) (auto simp: goroutine_store_def)
  next
    case (run_recover r e)
    have "pc s \<noteq> Returned x" for x using returned_idle [OF i, of x r] run_recover(2) by (auto simp: idle_def)
    with run_recover show ?thesis by (intro pc_ok_other [OF i s]) (auto simp: goroutine_recover_def)
  next
    case cancel
    then show ?thesis by (intro pc_ok_other [OF i s]) (auto simp: sched_Cancel_def)
  next
    case wait_end
    with i show ?thesis by (simp add: pc_ok_def sched_inv_def isDone_def)
  qed (use i in \<open>auto simp: pc_ok_def isDone_def\<close>)
qed

lemma step_inv: "sched_inv g st s \<Longrightarrow> step g st s t \<Longrightarrow> sched_inv g st t"
  using step_nodes_ok step_errs_ok step_pc_ok unfolding sched_inv_def by blast

lemma start_inv: "wf_graph g st \<Longrightarrow> sched_inv g st (start_state g st)"
proof -
  assume w: "wf_graph g st"
  have "nodes_ok g st (start_state g st)"
    unfolding nodes_ok_def
  proof (intro conjI allI impI)
    fix n r assume r: "gNodes g n = Some r"
    with w have "sStatus (st r) = (if n = RootNodeName then StatusDone else StatusWaiting)"
      unfolding wf_graph_def by auto
    then show "phase_ok st (start_state g st) r"
      and "n = RootNodeName \<Longrightarrow> stat (start_state g st) r = StatusDone"
      and "n \<noteq> RootNodeName \<Longrightarrow> stat (start_state g st) r \<noteq> StatusDone"
      and "stat (start_state g st) r = StatusCanceled \<Longrightarrow> parent_blocking g st (start_state g st) n"
      by (auto simp: start_state_def phase_ok_def split: if_splits)
  qed (simp_all add: start_state_def)
  with w show ?thesis
    by (simp add: sched_inv_def errs_ok_def pc_ok_def) (simp add: start_state_def wf_graph_def)
qed

text \<open>The runs of \<open>Schedule\<close> as a transition system with this invariant.\<close>

interpretation sched_sys: transition_system
  "\<lambda>s. wf_graph g st \<and> s = start_state g st" "step g st" "sched_inv g st" for g st
  by unfold_locales (auto intro: start_inv step_inv)

definition reachable :: "ExecutionGraph \<Rightarrow> (ref \<Rightarrow> Stage) \<Rightarrow> sched \<Rightarrow> bool" where
  "reachable g st s \<longleftrightarrow> (step g st)\<^sup>*\<^sup>* (start_state g st) s"

lemma reachable_inv: "wf_graph g st \<Longrightarrow> reachable g st s \<Longrightarrow> sched_inv g st s"
  unfolding reachable_def using sched_sys.inv_reachable by blast

lemma reachable_step: "reachable g st s \<Longrightarrow> step g st s t \<Longrightarrow> reachable g st t"
  unfolding reachable_def by (rule rtranclp.rtrancl_into_rtrancl)

section \<open>A pass ends\<close>

text \<open>
  Between two visits of the loop head only finitely many steps are possible. The measure
  adds up what each goroutine still has to do, what the pass still has to visit, and the one
  cancellation that may still come.
\<close>

definition begins_pass :: "sched \<Rightarrow> sched \<Rightarrow> bool" where
  "begins_pass s t \<longleftrightarrow> pc s = Head \<and> (\<exists>ns. pc t = Scan ns)"

definition inner_step :: "ExecutionGraph \<Rightarrow> (ref \<Rightarrow> Stage) \<Rightarrow> sched \<Rightarrow> sched \<Rightarrow> bool" where
  "inner_step g st s t \<longleftrightarrow> step g st s t \<and> \<not> begins_pass s t"

definition go_left :: "goroutine \<Rightarrow> nat" where
  "go_left p = (case p of GNone \<Rightarrow> 4 | GRun \<Rightarrow> 3 | GFailed _ \<Rightarrow> 2 | GRecovered _ \<Rightarrow> 1 | GEnd _ \<Rightarrow> 0)"

definition visit_cost :: "ExecutionGraph \<Rightarrow> (ref \<Rightarrow> Stage) \<Rightarrow> string \<Rightarrow> nat" where
  "visit_cost g st n = 2 + length (succs (gParent g) (sName (st (node g n))))"

definition pc_left :: "ExecutionGraph \<Rightarrow> (ref \<Rightarrow> Stage) \<Rightarrow> control \<Rightarrow> nat" where
  "pc_left g st c =
     (case c of
        Head \<Rightarrow> 2
      | Scan todo \<Rightarrow> 3 + sum_list (map (visit_cost g st) todo)
      | Check n ps ok todo \<Rightarrow> 4 + length ps + sum_list (map (visit_cost g st) todo)
      | WgWait \<Rightarrow> 1
      | Returned _ \<Rightarrow> 0
      | Panicked \<Rightarrow> 0)"

definition work_left :: "ExecutionGraph \<Rightarrow> (ref \<Rightarrow> Stage) \<Rightarrow> sched \<Rightarrow> nat" where
  "work_left g st s = (\<Sum>r \<in> ran (gNodes g). go_left (go s r)) + pc_left g st (pc s) + (if cancelled s then 0 else 1)"

lemma go_left_sum:
  assumes f: "finite (ran (gNodes g))" and r: "r \<in> ran (gNodes g)"
    and o: "\<And>q. q \<noteq> r \<Longrightarrow> go t q = go s q" and l: "go_left (go t r) < go_left (go s r)"
  shows "(\<Sum>q \<in> ran (gNodes g). go_left (go t q)) < (\<Sum>q \<in> ran (gNodes g). go_left (go s q))"
  using f
proof (rule sum_strict_mono_ex1)
  show "\<forall>x \<in> ran (gNodes g). go_left (go t x) \<le> go_left (go s x)" using o l by (metis le_less)
  show "\<exists>a \<in> ran (gNodes g). go_left (go t a) < go_left (go s a)" using r l by blast
qed

lemma wf_finite: "wf_graph g st \<Longrightarrow> finite (ran (gNodes g))"
proof -
  assume "wf_graph g st"
  then have "finite (dom (gNodes g))" unfolding wf_graph_def by blast
  moreover have "ran (gNodes g) = node g ` dom (gNodes g)" by (force simp: ran_def dom_def)
  ultimately show ?thesis by simp
qed

lemma enumerates_length: "enumerates ps (set xs) \<Longrightarrow> length ps \<le> length xs"
  unfolding enumerates_def by (metis card_length distinct_card)

lemma inner_step_decreases:
  assumes i: "sched_inv g st s" and s: "inner_step g st s t"
  shows "work_left g st t < work_left g st s"
proof -
  have f: "finite (ran (gNodes g))" using i wf_finite by (auto simp: sched_inv_def)
  have go_case: ?thesis if "go s r \<noteq> GNone" "go_left (go t r) < go_left (go s r)" "pc t = pc s"
    "cancelled t = cancelled s" "\<And>q. q \<noteq> r \<Longrightarrow> go t q = go s q" for r
    using go_left_sum [where t = t, OF f _ that(5,2)] inv_go_node [OF i that(1)] that(3,4)
    by (auto simp: work_left_def intro: ranI)
  from s have "step g st s t" "\<not> begins_pass s t" by (simp_all add: inner_step_def)
  then show ?thesis
  proof cases
    case (pass_visit n todo ps out)
    then show ?thesis
      using enumerates_length [OF pass_visit(3)]
      by (auto simp: work_left_def visit_def sched_Cancel_def pc_left_def Let_def visit_cost_def
          split: condition_result.splits)
  next
    case (check_next n p ps ok todo)
    then show ?thesis by (auto simp: work_left_def check_parent_def pc_left_def split: option.splits)
  next
    case (check_last n ok todo)
    with inv_check [OF i check_last(2)] have "node g n \<in> ran (gNodes g)" "go s (node g n) = GNone"
      by (auto intro: ranI)
    with check_last go_left_sum [where t = t and r = "node g n", OF f] show ?thesis
      by (fastforce simp: work_left_def check_end_def pc_left_def go_left_def)
  next
    case (run_end r res)
    then show ?thesis
      by (intro go_case [of r]) (auto simp: goroutine_run_def go_left_def split: option.splits)
  next
    case (run_store r e)
    then show ?thesis by (intro go_case [of r]) (auto simp: goroutine_store_def go_left_def)
  next
    case (run_recover r e)
    then show ?thesis by (intro go_case [of r]) (auto simp: goroutine_recover_def go_left_def)
  qed (auto simp: work_left_def pc_left_def sched_Cancel_def begins_pass_def)
qed

interpretation pass_sys: terminating_system
  "sched_inv g st" "inner_step g st" "sched_inv g st" "work_left g st" for g st
  by unfold_locales (auto simp: inner_step_def intro: step_inv inner_step_decreases)

section \<open>A pass without running stages makes progress\<close>

text \<open>
  A stage whose parents are all terminal leaves StatusWaiting in the pass that visits it:
  this holds of the node \<open>m\<close> from the moment it is among the nodes still to visit.
\<close>

definition will_leave :: "ExecutionGraph \<Rightarrow> string \<Rightarrow> sched \<Rightarrow> bool" where
  "will_leave g m s \<longleftrightarrow>
     (\<forall>p \<in> set (succs (gParent g) m). \<exists>q. gNodes g p = Some q \<and> terminal (stat s q)) \<and>
     (stat s (node g m) \<noteq> StatusWaiting \<or>
      (case pc s of
         Scan todo \<Rightarrow> m \<in> set todo
       | Check n ps ok todo \<Rightarrow> m \<in> set todo \<or> n = m \<and> ok
       | _ \<Rightarrow> False))"

lemma terminal_stable:
  "stat t q = stat s q \<or> status_step (sAllowFailure (st q)) (stat s q) (stat t q) \<Longrightarrow>
     terminal (stat s q) \<Longrightarrow> terminal (stat t q)"
  by (cases "stat s q") (auto simp: terminal_iff)

lemma waiting_stable:
  "stat t q = stat s q \<or> status_step (sAllowFailure (st q)) (stat s q) (stat t q) \<Longrightarrow>
     stat s q \<noteq> StatusWaiting \<Longrightarrow> stat t q \<noteq> StatusWaiting"
  by (cases "stat s q") auto

lemma step_will_leave:
  assumes i: "sched_inv g st s" and m: "gNodes g m = Some (node g m)" and w: "will_leave g m s"
    and s: "step g st s t"
  shows "will_leave g m t"
proof -
  note change = step_status [OF i s]
  have par: "\<forall>p \<in> set (succs (gParent g) m). \<exists>q. gNodes g p = Some q \<and> terminal (stat t q)"
    using w terminal_stable [where st = st, OF change] unfolding will_leave_def by blast
  have wf: "wf_graph g st" using i by (simp add: sched_inv_def)
  show ?thesis
  proof (cases "stat s (node g m) = StatusWaiting")
    case False
    with waiting_stable [where st = st, OF change] par show ?thesis unfolding will_leave_def by blast
  next
    case wait: True
    have other: "node g n \<noteq> node g m" if "gNodes g n = Some (node g n)" "n \<noteq> m" for n
      using wf_node_inj [OF wf that(1)] m that(2) by metis
    from s show ?thesis
    proof cases
      case (pass_visit n todo ps out)
      have n: "gNodes g n = Some (node g n)" using inv_scan [OF i pass_visit(2)] by auto
      show ?thesis
      proof (cases "n = m")
        case True
        with wait pass_visit par show ?thesis
          by (auto simp: will_leave_def visit_def Let_def sched_Cancel_def split: condition_result.splits)
      next
        case False
        with w wait pass_visit par show ?thesis
          by (auto simp: will_leave_def visit_def Let_def sched_Cancel_def split: condition_result.splits)
      qed
    next
      case (check_next n p ps ok todo)
      note c = inv_check [OF i check_next(2)]
      show ?thesis
      proof (cases "n = m")
        case True
        with w c wait check_next(2) have "m \<in> set todo \<or> ok" "p \<in> set (succs (gParent g) m)"
          by (auto simp: will_leave_def)
        moreover from this(2) w obtain q where "gNodes g p = Some q" "terminal (stat s q)"
          unfolding will_leave_def by blast
        ultimately show ?thesis
          using par check_next(1) True
          by (cases "stat s q") (auto simp: will_leave_def check_parent_def terminal_iff)
      next
        case False
        obtain q where "gNodes g p = Some q" using check_parent_node [OF i check_next(2)] by blast
        with False w wait check_next par show ?thesis
          by (auto simp: will_leave_def check_parent_def)
      qed
    next
      case (check_last n ok todo)
      with w wait par show ?thesis by (auto simp: will_leave_def check_end_def)
    next
      case (run_end r res)
      with w par wait show ?thesis
        by (auto simp: will_leave_def goroutine_run_def split: option.splits control.splits)
    next
      case (run_store r e)
      with w par wait show ?thesis
        by (auto simp: will_leave_def goroutine_store_def split: control.splits)
    next
      case (run_recover r e)
      with w par wait show ?thesis
        by (auto simp: will_leave_def goroutine_recover_def split: control.splits)
    next
      case cancel
      with w par wait show ?thesis by (auto simp: will_leave_def sched_Cancel_def split: control.splits)
    qed (use w wait in \<open>auto simp: will_leave_def\<close>)
  qed
qed

lemma leave_steps:
  assumes "sched_inv g st s" and "gNodes g m = Some (node g m)" and "will_leave g m s"
    and "(step g st)\<^sup>*\<^sup>* s t"
  shows "will_leave g m t"
  using assms(4)
proof (induction rule: rtranclp_induct)
  case base
  then show ?case by (rule assms(3))
next
  case (step u v)
  from sched_sys.inv_steps [OF step(1) assms(1)] have "sched_inv g st u" .
  with assms(2) step(2,3) show ?case by (blast intro: step_will_leave)
qed

lemma steps_not_waiting:
  assumes "sched_inv g st s" and "(step g st)\<^sup>*\<^sup>* s t" and "stat s r \<noteq> StatusWaiting"
  shows "stat t r \<noteq> StatusWaiting"
  using assms(2)
proof (induction rule: rtranclp_induct)
  case base
  then show ?case by (rule assms(3))
next
  case (step u v)
  from sched_sys.inv_steps [OF step(1) assms(1)] have "sched_inv g st u" .
  from waiting_stable [where st = st, OF step_status [OF this step(2)] step(3)] show ?case .
qed

text \<open>With no goroutine active, some waiting stage has only terminal parents.\<close>

lemma some_ready:
  assumes i: "sched_inv g st s" and idle: "\<forall>r. idle (go s r)"
    and w: "gNodes g n0 = Some r0" "stat s r0 = StatusWaiting"
  shows "\<exists>m. gNodes g m = Some (node g m) \<and> stat s (node g m) = StatusWaiting \<and>
    (\<forall>p \<in> set (succs (gParent g) m). \<exists>q. gNodes g p = Some q \<and> terminal (stat s q))"
proof -
  have wf: "wf_graph g st" using i by (simp add: sched_inv_def)
  let ?W = "{n. \<exists>r. gNodes g n = Some r \<and> stat s r = StatusWaiting}"
  have "wf (edges (gChildren g))"
    using wf finite_edges by (auto simp: wf_graph_def intro: finite_acyclic_wf)
  moreover have "n0 \<in> ?W" using w by blast
  ultimately obtain m where m: "m \<in> ?W" "\<And>p. (p, m) \<in> edges (gChildren g) \<Longrightarrow> p \<notin> ?W"
    by (metis (no_types, lifting) wf_eq_minimal)
  then have mr: "gNodes g m = Some (node g m)" "stat s (node g m) = StatusWaiting" by auto
  then have root: "m \<noteq> RootNodeName" using inv_root [OF i] by auto
  have "\<exists>q. gNodes g p = Some q \<and> terminal (stat s q)" if p: "p \<in> set (succs (gParent g) m)" for p
  proof -
    from wf_parents [OF wf mr(1) root p] obtain q where q: "gNodes g p = Some q" by blast
    have "(m, p) \<in> edges (gParent g)" using p by simp
    then have "(p, m) \<in> edges (gChildren g)" using wf unfolding wf_graph_def by blast
    with m(2) q have "stat s q \<noteq> StatusWaiting" by blast
    moreover have "stat s q \<noteq> StatusRunning"
      using inv_phase [OF i q] idle
      by (auto simp: phase_ok_def idle_def split: goroutine.splits option.splits if_splits
          dest!: spec [of _ q])
    ultimately show ?thesis using q by (simp add: terminal_iff)
  qed
  with mr show ?thesis by blast
qed

section \<open>From NewExecutionGraph to a well-formed graph\<close>

definition store_of :: "(ref \<times> Stage) list \<Rightarrow> (ref \<Rightarrow> Stage) \<Rightarrow> bool" where
  "store_of stages st \<longleftrightarrow> (\<forall>(r, s) \<in> set stages. st r = s)"

definition good_stages :: "ref \<Rightarrow> (ref \<times> Stage) list \<Rightarrow> bool" where
  "good_stages r0 stages \<longleftrightarrow>
     distinct (r0 # map fst stages) \<and> distinct (RootNodeName # map (sName \<circ> snd) stages) \<and>
     (\<forall>rs \<in> set stages. sStatus (snd rs) = StatusWaiting \<and>
        set (sDependsOn (snd rs)) \<subseteq> sName ` snd ` set stages)"

lemma AddStages_nodes:
  "fold_res (\<lambda>rs g. AddStage g (fst rs) (snd rs)) stages g = Inr g' \<Longrightarrow>
     gNodes g' = fold (\<lambda>rs m. m(sName (snd rs) \<mapsto> fst rs)) stages (gNodes g) \<and> gErrors g' = gErrors g"
proof (induction stages arbitrary: g)
  case (Cons rs stages)
  then obtain g1 where g1: "AddStage g (fst rs) (snd rs) = Inr g1"
    "fold_res (\<lambda>rs g. AddStage g (fst rs) (snd rs)) stages g1 = Inr g'"
    by (auto simp: bind_res_Inr_iff)
  from AddStage_errors [OF g1(1)] Cons.IH [OF g1(2)] AddStage_nodes [OF g1(1)] show ?case by simp
qed simp

lemma fold_upd_Some:
  "fold (\<lambda>x m. m(f x \<mapsto> h x)) xs m0 n = Some r \<Longrightarrow> m0 n = Some r \<or> (\<exists>x \<in> set xs. f x = n \<and> h x = r)"
proof (induction xs arbitrary: m0)
  case (Cons x xs)
  from Cons.IH [of "m0(f x \<mapsto> h x)"] Cons.prems
  consider "(m0(f x \<mapsto> h x)) n = Some r" | "\<exists>x \<in> set xs. f x = n \<and> h x = r" by auto
  then show ?case by cases (auto split: if_splits)
qed simp

lemma fold_upd_other: "n \<notin> f ` set xs \<Longrightarrow> fold (\<lambda>x m. m(f x \<mapsto> h x)) xs m0 n = m0 n"
  by (induction xs arbitrary: m0) auto

lemma distinct_map_eq: "distinct (map f xs) \<Longrightarrow> x \<in> set xs \<Longrightarrow> y \<in> set xs \<Longrightarrow> f x = f y \<Longrightarrow> x = y"
  by (auto simp: distinct_map inj_on_def)

theorem NewExecutionGraph_wf:
  assumes g: "NewExecutionGraph r0 name stages = Inr g"
    and ok: "good_stages r0 stages" "store_of stages st" "sStatus (st r0) = StatusDone"
  shows "wf_graph g st"
proof -
  have b: "built stages g" using g by (rule NewExecutionGraph_built)
  have nodes: "gNodes g = fold (\<lambda>rs m. m(sName (snd rs) \<mapsto> fst rs)) stages [RootNodeName \<mapsto> r0]"
    and errs: "gErrors g = []"
    using AddStages_nodes [OF g [unfolded NewExecutionGraph_def]] by (simp_all add: empty_graph_def)
  have noroot: "RootNodeName \<notin> sName ` snd ` set stages"
    using ok(1) by (auto simp: good_stages_def)
  then have "RootNodeName \<notin> (\<lambda>rs. sName (snd rs)) ` set stages" by auto
  from fold_upd_other [OF this] have root: "gNodes g RootNodeName = Some r0"
    unfolding nodes by (rule trans) simp
  have some: "n = RootNodeName \<and> r = r0 \<or> (\<exists>rs \<in> set stages. sName (snd rs) = n \<and> fst rs = r)"
    if "gNodes g n = Some r" for n r
    using fold_upd_Some [OF that [unfolded nodes]] by (auto split: if_splits)
  have stage: "\<exists>rs \<in> set stages. sName (snd rs) = n \<and> fst rs = r \<and> st r = snd rs"
    if n: "gNodes g n = Some r" "n \<noteq> RootNodeName" for n r
    using some [OF n(1)] n(2) ok(2) by (fastforce simp: store_of_def)
  have par: "set (succs (gParent g) n) \<subseteq> dom (gNodes g)" for n
  proof
    fix p assume "p \<in> set (succs (gParent g) n)"
    then have "(n, p) \<in> edges (gParent g)" by simp
    then have "(p, n) \<in> (\<Union>rs \<in> set stages. new_edges (snd rs))"
      unfolding built_converse [OF b] built_edges [OF b] by simp
    with ok(1) have "p = RootNodeName \<or> p \<in> sName ` snd ` set stages"
      by (auto simp: new_edges_def good_stages_def split: if_splits)
    then show "p \<in> dom (gNodes g)" unfolding built_nodes [OF b] by blast
  qed
  have "p \<notin> set (succs (gParent g) RootNodeName)" for p
  proof
    assume "p \<in> set (succs (gParent g) RootNodeName)"
    then have "(RootNodeName, p) \<in> edges (gParent g)" by simp
    then have "(p, RootNodeName) \<in> (\<Union>rs \<in> set stages. new_edges (snd rs))"
      unfolding built_converse [OF b] built_edges [OF b] by simp
    then have "RootNodeName \<in> sName ` snd ` set stages" by (auto simp: new_edges_def split: if_splits)
    with noroot show False ..
  qed
  then have nopar: "succs (gParent g) RootNodeName = []" by (meson last_in_set)
  have inj: "inj_on (gNodes g) (dom (gNodes g))"
  proof (rule inj_onI)
    fix n m assume "n \<in> dom (gNodes g)" "m \<in> dom (gNodes g)" "gNodes g n = gNodes g m"
    then obtain r where r: "gNodes g n = Some r" "gNodes g m = Some r" by auto
    have d: "distinct (map fst stages)" "r0 \<notin> fst ` set stages" using ok(1) by (auto simp: good_stages_def)
    with some [OF r(1)] some [OF r(2)] show "n = m" by (metis distinct_map_eq imageI)
  qed
  have fin: "finite (dom (gNodes g))" unfolding built_nodes [OF b] by simp
  have each: "sName (st r) = n \<and> sStatus (st r) = StatusWaiting" if n: "gNodes g n = Some r" "n \<noteq> RootNodeName" for n r
    using stage [OF n] ok(1) by (auto simp: good_stages_def)
  show ?thesis
    unfolding wf_graph_def
    using built_acyclic [OF b] built_converse [OF b] fin inj root ok(3) nopar par each errs by blast
qed

section \<open>A pipeline to run\<close>

text \<open>
  Three stages, \<open>a\<close>, then \<open>b\<close> under a condition, then \<open>c\<close>: the instance the witnesses use.
\<close>

definition pipe_stages :: "(ref \<times> Stage) list" where
  "pipe_stages =
     [(11, NewStage 9 ''a'' []),
      (12, NewStage 9 ''b'' [\<lambda>s. s\<lparr>sDependsOn := [''a''], sCondition := ''test -f x''\<rparr>]),
      (13, NewStage 9 ''c'' [\<lambda>s. s\<lparr>sDependsOn := [''b'']\<rparr>])]"

definition pipe_store :: "ref \<Rightarrow> Stage" where
  "pipe_store r = (case map_of pipe_stages r of Some s \<Rightarrow> s | None \<Rightarrow> root_stage 9 ''ci'')"

definition pipe_graph :: ExecutionGraph where
  "pipe_graph = projr (NewExecutionGraph 10 ''ci'' pipe_stages)"

lemma pipe_edges:
  "(\<Union>rs \<in> set pipe_stages. new_edges (snd rs)) = {(''root'', ''a''), (''a'', ''b''), (''b'', ''c'')}"
  by (auto simp: pipe_stages_def new_edges_def NewStage_def RootNodeName_def)

lemma pipe_new: "NewExecutionGraph 10 ''ci'' pipe_stages = Inr pipe_graph"
proof -
  have "acyclic {(''root'', ''a''), (''a'', ''b''), (''b'', ''c'')}"
  proof (rule acyclic_subset [OF wf_acyclic])
    show "wf (measure (\<lambda>n. if n = ''root'' then 0 else if n = ''a'' then 1 else if n = ''b'' then 2 else (3 :: nat)))"
      by (rule wf_measure)
  qed auto
  then have "\<exists>g. NewExecutionGraph 10 ''ci'' pipe_stages = Inr g"
    unfolding NewExecutionGraph_ok_iff pipe_edges .
  then show ?thesis by (auto simp: pipe_graph_def)
qed

lemma pipe_wf: "wf_graph pipe_graph pipe_store"
  by (rule NewExecutionGraph_wf [OF pipe_new])
    (auto simp: good_stages_def store_of_def pipe_store_def pipe_stages_def NewStage_def
      RootNodeName_def root_stage_def UpdateStatus_def)

lemma pipe_nodes: "gNodes pipe_graph = [''root'' \<mapsto> 10, ''a'' \<mapsto> 11, ''b'' \<mapsto> 12, ''c'' \<mapsto> 13]"
  using AddStages_nodes [OF pipe_new [unfolded NewExecutionGraph_def]]
  by (simp add: empty_graph_def RootNodeName_def pipe_stages_def)

lemma pipe_dom: "dom (gNodes pipe_graph) = {''root'', ''a'', ''b'', ''c''}"
  by (auto simp: pipe_nodes)

lemma pipe_child: "(p, n) \<in> edges (gChildren pipe_graph) \<longleftrightarrow>
    (p, n) \<in> {(''root'', ''a''), (''a'', ''b''), (''b'', ''c'')}"
  using built_edges [OF NewExecutionGraph_built [OF pipe_new]] unfolding pipe_edges by simp

lemma pipe_parents: "set (succs (gParent pipe_graph) n) = {p. (p, n) \<in> {(''root'', ''a''), (''a'', ''b''), (''b'', ''c'')}}"
proof -
  have e: "edges (gParent pipe_graph) = {(''root'', ''a''), (''a'', ''b''), (''b'', ''c'')}\<inverse>"
    unfolding built_converse [OF NewExecutionGraph_built [OF pipe_new]]
      built_edges [OF NewExecutionGraph_built [OF pipe_new]] pipe_edges ..
  have "p \<in> set (succs (gParent pipe_graph) n) \<longleftrightarrow> (n, p) \<in> edges (gParent pipe_graph)" for p by simp
  then show ?thesis unfolding e by blast
qed

lemma pipe_store_simps:
  "sStatus (pipe_store 10) = StatusDone" "sStatus (pipe_store 11) = StatusWaiting"
  "sStatus (pipe_store 12) = StatusWaiting" "sStatus (pipe_store 13) = StatusWaiting"
  "sCondition (pipe_store 11) = ''''" "sCondition (pipe_store 12) \<noteq> ''''" "sCondition (pipe_store 13) = ''''"
  "\<not> sAllowFailure (pipe_store 12)" "sName (pipe_store 11) = ''a''" "sName (pipe_store 12) = ''b''" "sName (pipe_store 13) = ''c''"
  by (simp_all add: pipe_store_def pipe_stages_def NewStage_def root_stage_def UpdateStatus_def)

lemma pipe_node:
  "node pipe_graph ''a'' = 11" "node pipe_graph ''b'' = 12" "node pipe_graph ''c'' = 13"
  "gNodes pipe_graph ''root'' = Some 10" "gNodes pipe_graph ''b'' = Some 12"
  by (simp_all add: pipe_nodes)


text \<open>
  A pass that visits \<open>b\<close>, \<open>c\<close>, \<open>a\<close> and the root in this order. The condition of \<open>b\<close> is not met.
\<close>

definition run0 :: sched where "run0 = start_state pipe_graph pipe_store"
definition run1 :: sched where "run1 = run0\<lparr>pc := Scan [''b'', ''c'', ''a'', ''root'']\<rparr>"
definition run2 :: sched where
  "run2 = visit pipe_graph pipe_store (CondMeets False) [''a''] ''b'' [''c'', ''a'', ''root''] run1"
definition run3 :: sched where
  "run3 = visit pipe_graph pipe_store CondError [''b''] ''c'' [''a'', ''root''] run2"
definition run4 :: sched where
  "run4 = check_parent pipe_graph pipe_store ''c'' ''b'' [] True [''a'', ''root''] run3"
definition run5 :: sched where "run5 = check_end pipe_graph ''c'' True [''a'', ''root''] run4"
definition run6 :: sched where
  "run6 = visit pipe_graph pipe_store CondError [''root''] ''a'' [''root''] run5"
definition run7 :: sched where
  "run7 = check_parent pipe_graph pipe_store ''a'' ''root'' [] True [''root''] run6"
definition run8 :: sched where "run8 = check_end pipe_graph ''a'' True [''root''] run7"


lemma run1_eq:
  "stat run1 = sStatus \<circ> pipe_store" "go run1 = (\<lambda>_. GNone)" "cancelled run1 = False"
  "pc run0 = Head" "pc run1 = Scan [''b'', ''c'', ''a'', ''root'']"
  by (auto simp: run1_def run0_def start_state_def fun_eq_iff)

lemma run2_eq: "run2 = (set_stat 12 StatusSkipped run1)\<lparr>pc := Scan [''c'', ''a'', ''root'']\<rparr>"
  by (simp add: run2_def visit_def run1_eq pipe_node pipe_store_simps Let_def)

lemma run3_eq: "run3 = run2\<lparr>pc := Check ''c'' [''b''] True [''a'', ''root'']\<rparr>"
  by (simp add: run3_def visit_def run2_eq run1_eq pipe_node pipe_store_simps Let_def)

lemma run4_eq: "run4 = run2\<lparr>pc := Check ''c'' [] True [''a'', ''root'']\<rparr>"
  by (simp add: run4_def check_parent_def run3_eq run2_eq pipe_node)

lemma run5_eq: "run5 = (set_go 13 GRun (set_stat 13 StatusRunning run2))\<lparr>pc := Scan [''a'', ''root'']\<rparr>"
  by (simp add: run5_def check_end_def run4_eq pipe_node set_go_def set_stat_def)

lemma run6_eq: "run6 = run5\<lparr>pc := Check ''a'' [''root''] True [''root'']\<rparr>"
  by (simp add: run6_def visit_def run5_eq run2_eq run1_eq pipe_node pipe_store_simps Let_def)

lemma run7_eq: "run7 = run5\<lparr>pc := Check ''a'' [] True [''root'']\<rparr>"
  by (simp add: run7_def check_parent_def run6_eq run5_eq run2_eq run1_eq pipe_node pipe_store_simps)

lemma run8_eq: "run8 = (set_go 11 GRun (set_stat 11 StatusRunning run5))\<lparr>pc := Scan [''root'']\<rparr>"
  by (simp add: run8_def check_end_def run7_eq pipe_node set_go_def set_stat_def)

lemmas run_pc = run1_eq(4,5) run2_eq run3_eq run4_eq run5_eq run6_eq run7_eq

lemma run_state:
  "stat run0 12 = StatusWaiting" "stat run8 11 = StatusRunning" "stat run8 12 = StatusSkipped"
  "stat run8 13 = StatusRunning" "go run8 11 = GRun" "go run8 12 = GNone" "go run8 13 = GRun"
  "cancelled run0 = False"
  by (simp_all add: run8_eq run5_eq run2_eq run1_eq)
    (simp_all add: run0_def start_state_def pipe_store_simps)

lemma run_reachable: "reachable pipe_graph pipe_store run8" "reachable pipe_graph pipe_store run1"
proof -
  let ?R = "reachable pipe_graph pipe_store" and ?S = "step pipe_graph pipe_store"
  have names: "sName (pipe_store (node pipe_graph n)) = n" if "n \<in> {''a'', ''b'', ''c''}" for n
    using that pipe_node pipe_store_simps by auto
  have "?R run0" by (simp add: reachable_def run0_def)
  moreover have "?S run0 run1"
    unfolding run1_def
  proof (rule loop_pass)
    show "\<not> isDone pipe_graph run0"
      unfolding isDone_def using run_state(1) ranI [of "gNodes pipe_graph" "''b''" 12] by (auto simp: pipe_nodes)
  qed (simp_all add: run_pc run_state enumerates_def pipe_dom, blast)
  ultimately show r1: "?R run1" by (rule reachable_step)
  moreover have "?S run1 run2"
    unfolding run2_def by (rule pass_visit) (simp_all add: run_pc names enumerates_def pipe_parents)
  ultimately have "?R run2" by (rule reachable_step)
  moreover have "?S run2 run3"
    unfolding run3_def by (rule pass_visit) (simp_all add: run_pc names enumerates_def pipe_parents)
  ultimately have "?R run3" by (rule reachable_step)
  moreover have "?S run3 run4" unfolding run4_def by (rule check_next) (simp add: run_pc)
  ultimately have "?R run4" by (rule reachable_step)
  moreover have "?S run4 run5" unfolding run5_def by (rule check_last) (simp add: run_pc)
  ultimately have "?R run5" by (rule reachable_step)
  moreover have "?S run5 run6"
    unfolding run6_def by (rule pass_visit) (simp_all add: run_pc names enumerates_def pipe_parents)
  ultimately have "?R run6" by (rule reachable_step)
  moreover have "?S run6 run7" unfolding run7_def by (rule check_next) (simp add: run_pc)
  ultimately have "?R run7" by (rule reachable_step)
  moreover have "?S run7 run8" unfolding run8_def by (rule check_last) (simp add: run_pc)
  ultimately show "?R run8" by (rule reachable_step)
qed

text \<open>The same pass when the command of the condition of \<open>b\<close> cannot be run, up to the return.\<close>

definition ce2 :: sched where
  "ce2 = visit pipe_graph pipe_store CondError [''a''] ''b'' [''c'', ''a'', ''root''] run1"
definition ce3 :: sched where
  "ce3 = visit pipe_graph pipe_store CondError [''b''] ''c'' [''a'', ''root''] ce2"
definition ce4 :: sched where
  "ce4 = check_parent pipe_graph pipe_store ''c'' ''b'' [] True [''a'', ''root''] ce3"
definition ce5 :: sched where "ce5 = check_end pipe_graph ''c'' False [''a'', ''root''] ce4"
definition ce6 :: sched where
  "ce6 = visit pipe_graph pipe_store CondError [''root''] ''a'' [''root''] ce5"
definition ce7 :: sched where
  "ce7 = check_parent pipe_graph pipe_store ''a'' ''root'' [] True [''root''] ce6"
definition ce8 :: sched where "ce8 = check_end pipe_graph ''a'' True [''root''] ce7"
definition ce9 :: sched where "ce9 = visit pipe_graph pipe_store CondError [] ''root'' [] ce8"
definition ce10 :: sched where "ce10 = ce9\<lparr>pc := Head\<rparr>"
definition ce11 :: sched where "ce11 = ce10\<lparr>pc := WgWait\<rparr>"
definition ce12 :: sched where "ce12 = goroutine_run 11 None ce11"
definition ce13 :: sched where "ce13 = ce12\<lparr>pc := Returned (last_error (errs ce12))\<rparr>"

lemma ce2_eq: "ce2 = sched_Cancel (set_stat 12 StatusError run1)\<lparr>pc := Scan [''c'', ''a'', ''root'']\<rparr>"
  by (simp add: ce2_def visit_def run1_eq pipe_node pipe_store_simps Let_def)

lemma ce3_eq: "ce3 = ce2\<lparr>pc := Check ''c'' [''b''] True [''a'', ''root'']\<rparr>"
  by (simp add: ce3_def visit_def ce2_eq run1_eq pipe_node pipe_store_simps Let_def sched_Cancel_def)

lemma ce4_eq: "ce4 = (set_stat 13 StatusCanceled ce2)\<lparr>pc := Check ''c'' [] False [''a'', ''root'']\<rparr>"
  by (simp add: ce4_def check_parent_def ce3_eq ce2_eq pipe_node pipe_store_simps sched_Cancel_def set_stat_def)

lemma ce5_eq: "ce5 = (set_stat 13 StatusCanceled ce2)\<lparr>pc := Scan [''a'', ''root'']\<rparr>"
  by (simp add: ce5_def check_end_def ce4_eq)

lemma ce6_eq: "ce6 = ce5\<lparr>pc := Check ''a'' [''root''] True [''root'']\<rparr>"
  by (simp add: ce6_def visit_def ce5_eq ce2_eq run1_eq pipe_node pipe_store_simps Let_def sched_Cancel_def)

lemma ce7_eq: "ce7 = ce5\<lparr>pc := Check ''a'' [] True [''root'']\<rparr>"
  by (simp add: ce7_def check_parent_def ce6_eq ce5_eq ce2_eq run1_eq pipe_node pipe_store_simps sched_Cancel_def)

lemma ce8_eq: "ce8 = (set_go 11 GRun (set_stat 11 StatusRunning ce5))\<lparr>pc := Scan [''root'']\<rparr>"
  by (simp add: ce8_def check_end_def ce7_eq pipe_node set_go_def set_stat_def)

lemma ce9_eq: "ce9 = ce8\<lparr>pc := Scan []\<rparr>"
  by (simp add: ce9_def visit_def ce8_eq ce5_eq ce2_eq run1_eq pipe_node pipe_store_simps Let_def sched_Cancel_def)

lemmas ce_eqs = ce10_def ce9_eq ce8_eq ce5_eq ce2_eq run1_eq sched_Cancel_def

lemma ce_state:
  "cancelled ce10" "stat ce10 11 = StatusRunning" "stat ce10 12 = StatusError"
  "stat ce10 13 = StatusCanceled" "go ce10 = (\<lambda>_. GNone)(11 := GRun)" "errs ce10 = []"
  "pc ce13 = Returned None" "stat ce13 12 = StatusError"
proof -
  show errs: "errs ce10 = []"
    using pipe_wf by (simp add: ce_eqs run1_def run0_def start_state_def wf_graph_def)
  then show "pc ce13 = Returned None"
    by (simp add: ce13_def ce12_def ce11_def goroutine_run_def last_error_def)
  show "stat ce13 12 = StatusError"
    by (simp add: ce13_def ce12_def ce11_def goroutine_run_def ce_eqs)
qed (simp_all add: ce_eqs)

lemma ce_steps:
  "(step pipe_graph pipe_store)\<^sup>*\<^sup>* run1 ce10" "(step pipe_graph pipe_store)\<^sup>*\<^sup>* ce10 ce13"
proof -
  let ?S = "step pipe_graph pipe_store"
  have names: "sName (pipe_store (node pipe_graph n)) = n" if "n \<in> {''a'', ''b'', ''c''}" for n
    using that pipe_node pipe_store_simps by auto
  have "?S run1 ce2"
    unfolding ce2_def by (rule pass_visit) (simp_all add: run_pc names enumerates_def pipe_parents)
  moreover have "?S ce2 ce3"
    unfolding ce3_def by (rule pass_visit) (simp_all add: ce2_eq names enumerates_def pipe_parents)
  moreover have "?S ce3 ce4" unfolding ce4_def by (rule check_next) (simp add: ce3_eq)
  moreover have "?S ce4 ce5" unfolding ce5_def by (rule check_last) (simp add: ce4_eq)
  moreover have "?S ce5 ce6"
    unfolding ce6_def by (rule pass_visit) (simp_all add: ce5_eq names enumerates_def pipe_parents)
  moreover have "?S ce6 ce7" unfolding ce7_def by (rule check_next) (simp add: ce6_eq)
  moreover have "?S ce7 ce8" unfolding ce8_def by (rule check_last) (simp add: ce7_eq)
  moreover have "?S ce8 ce9"
  proof -
    have "sName (pipe_store (node pipe_graph ''root'')) = ''ci''"
      by (simp add: pipe_node pipe_store_def pipe_stages_def root_stage_def UpdateStatus_def)
    then show ?thesis
      unfolding ce9_def by (intro pass_visit) (simp_all add: ce8_eq enumerates_def pipe_parents)
  qed
  moreover have "?S ce9 ce10" unfolding ce10_def by (rule pass_end) (simp add: ce9_eq)
  ultimately show "?S\<^sup>*\<^sup>* run1 ce10" by (meson converse_rtranclp_into_rtranclp rtranclp.rtrancl_refl)
  have "?S ce10 ce11"
    unfolding ce11_def
  proof (rule loop_break)
    show "\<not> isDone pipe_graph ce10"
      unfolding isDone_def using ce_state(2) ranI [of "gNodes pipe_graph" "''a''" 11] by (auto simp: pipe_nodes)
  qed (simp_all add: ce_state, simp add: ce10_def)
  moreover have "?S ce11 ce12"
    unfolding ce12_def by (rule run_end) (simp add: ce11_def ce_state)
  moreover have "?S ce12 ce13"
    unfolding ce13_def
    by (rule wait_end) (auto simp: ce12_def ce11_def goroutine_run_def ce_state idle_def)
  ultimately show "?S\<^sup>*\<^sup>* ce10 ce13" by (meson converse_rtranclp_into_rtranclp rtranclp.rtrancl_refl)
qed

lemma ce_reachable: "reachable pipe_graph pipe_store ce13"
  using run_reachable(2) ce_steps unfolding reachable_def by (meson rtranclp_trans)

section \<open>Properties\<close>

lemma started_after_parents_lemma:
  assumes i: "sched_inv g st s" and n: "gNodes g n = Some r" "go s r \<noteq> GNone"
    and e: "(p, n) \<in> edges (gChildren g)"
  shows "\<exists>q. gNodes g p = Some q \<and> passed st s q"
proof -
  have "(n, p) \<in> edges (gParent g)" using i e unfolding sched_inv_def wf_graph_def by blast
  then have "p \<in> set (succs (gParent g) n)" by simp
  moreover have "parents_passed g st s (set (succs (gParent g) n))"
    using i n unfolding inv_parts by blast
  ultimately show ?thesis unfolding parents_passed_def by blast
qed

text \<open>C1. A stage is started only when every one of its parents has passed: is done, skipped, or
  failed and allowed to fail; and this stays true from then on.\<close>

theorem started_after_parents:
  assumes "wf_graph g st" and "reachable g st s"
    and "gNodes g n = Some r" and "go s r \<noteq> GNone" and "(p, n) \<in> edges (gChildren g)"
  shows "\<exists>q. gNodes g p = Some q \<and> passed st s q"
  using started_after_parents_lemma [OF reachable_inv [OF assms(1,2)] assms(3-5)] .

theorem started_after_parents_witness:
  "go run8 13 = GRun \<and> (\<exists>q. gNodes pipe_graph ''b'' = Some q \<and> passed pipe_store run8 q)"
proof -
  have "gNodes pipe_graph ''c'' = Some 13" by (simp add: pipe_nodes)
  moreover have "go run8 13 \<noteq> GNone" by (simp add: run_state)
  moreover have "(''b'', ''c'') \<in> edges (gChildren pipe_graph)" unfolding pipe_child by simp
  ultimately show ?thesis using started_after_parents [OF pipe_wf run_reachable(1)] run_state by blast
qed

text \<open>
  A stage is bypassed when its condition kept it from running and its children may start all
  the same: it is skipped, or its condition's command broke and it is allowed to fail.
\<close>

definition bypassed :: "(ref \<Rightarrow> Stage) \<Rightarrow> sched \<Rightarrow> ref \<Rightarrow> bool" where
  "bypassed st s r \<longleftrightarrow>
     stat s r = StatusSkipped \<or> stat s r = StatusError \<and> go s r = GNone \<and> sAllowFailure (st r)"

definition live_edges :: "ExecutionGraph \<Rightarrow> (ref \<Rightarrow> Stage) \<Rightarrow> sched \<Rightarrow> (string \<times> string) set" where
  "live_edges g st s = {(p, n) \<in> edges (gChildren g). \<not> bypassed st s (node g p)}"

lemma started_parent:
  assumes w: "wf_graph g st" and s: "reachable g st s"
    and n: "gNodes g n = Some r" "go s r \<noteq> GNone" and e: "(p, n) \<in> live_edges g st s"
  shows "\<exists>q. gNodes g p = Some q \<and> passed st s q \<and> (p = RootNodeName \<or> go s q \<noteq> GNone)"
proof -
  have i: "sched_inv g st s" using w s by (rule reachable_inv)
  from e have e': "(p, n) \<in> edges (gChildren g)" "\<not> bypassed st s (node g p)" by (auto simp: live_edges_def)
  obtain q where q: "gNodes g p = Some q" "passed st s q"
    using started_after_parents_lemma [OF i n e'(1)] by blast
  moreover have "go s q \<noteq> GNone" if "p \<noteq> RootNodeName"
    using inv_not_done [OF i q(1) that] q e'(2) by (auto simp: bypassed_def passed_def)
  ultimately show ?thesis by blast
qed

text \<open>C2. A failed or cancelled stage contains its failure: no stage downstream of it along stages
  that were not bypassed is ever started.\<close>

theorem failure_contained:
  assumes "wf_graph g st" and "reachable g st s"
    and "gNodes g x = Some rx" and "blocking st s rx"
    and "(x, y) \<in> (live_edges g st s)\<^sup>+" and "gNodes g y = Some ry"
  shows "go s ry = GNone"
proof (rule ccontr)
  assume "go s ry \<noteq> GNone"
  with assms(5,6) show False
  proof (induction arbitrary: ry rule: trancl_induct)
    case (base y)
    with started_parent [OF assms(1,2) base(2,3) base(1)] assms(3,4) show False
      by (auto simp: passed_def blocking_def)
  next
    case (step y z)
    from started_parent [OF assms(1,2) step(4,5,2)] obtain q where
      q: "gNodes g y = Some q" "y = RootNodeName \<or> go s q \<noteq> GNone" by blast
    show False
    proof (cases "y = RootNodeName")
      case True
      from step(1) obtain p where "(p, y) \<in> live_edges g st s" by (blast elim: tranclE)
      with True have "(p, RootNodeName) \<in> edges (gChildren g)" by (simp add: live_edges_def)
      with wf_root_no_parent [OF assms(1)] show False by blast
    next
      case False
      with q step.IH show False by blast
    qed
  qed
qed

definition run9 :: sched where "run9 = goroutine_run 11 (Some ''exit 1'') run8"

theorem failure_contained_witness:
  "stat run9 11 = StatusError \<and> go run9 12 = GNone"
proof -
  have "step pipe_graph pipe_store run8 run9"
    unfolding run9_def by (rule run_end) (simp add: run_state)
  with run_reachable(1) have r: "reachable pipe_graph pipe_store run9" by (rule reachable_step)
  have n: "gNodes pipe_graph ''a'' = Some 11" "gNodes pipe_graph ''b'' = Some 12" by (simp_all add: pipe_nodes)
  have e: "stat run9 11 = StatusError" "go run9 11 \<noteq> GNone" by (simp_all add: run9_def goroutine_run_def)
  have "\<not> sAllowFailure (pipe_store 11)" by (simp add: pipe_store_def pipe_stages_def NewStage_def)
  with e have b: "blocking pipe_store run9 11" by (simp add: blocking_def)
  have "(''a'', ''b'') \<in> edges (gChildren pipe_graph)" unfolding pipe_child by simp
  with e n(1) have "(''a'', ''b'') \<in> live_edges pipe_graph pipe_store run9"
    by (simp add: live_edges_def bypassed_def)
  then have "(''a'', ''b'') \<in> (live_edges pipe_graph pipe_store run9)\<^sup>+" by (rule r_into_trancl)
  from failure_contained [OF pipe_wf r n(1) b this n(2)] e show ?thesis by blast
qed

text \<open>A stage skipped by its condition breaks the transitive order: \<open>c\<close> depends on \<open>b\<close> and \<open>b\<close> on
  \<open>a\<close>, the condition of \<open>b\<close> is not met, and \<open>c\<close> runs while \<open>a\<close> is still running. The condition is
  looked at before the parents are, and a skipped parent counts as passed.\<close>

theorem skipped_stage_breaks_order:
  "\<exists>g st s. wf_graph g st \<and> reachable g st s \<and>
     (''a'', ''b'') \<in> edges (gChildren g) \<and> (''b'', ''c'') \<in> edges (gChildren g) \<and>
     stat s (node g ''a'') = StatusRunning \<and> stat s (node g ''b'') = StatusSkipped \<and>
     stat s (node g ''c'') = StatusRunning"
proof (intro exI conjI)
  show "wf_graph pipe_graph pipe_store" by (rule pipe_wf)
  show "reachable pipe_graph pipe_store run8" by (rule run_reachable)
  show "(''a'', ''b'') \<in> edges (gChildren pipe_graph)" "(''b'', ''c'') \<in> edges (gChildren pipe_graph)"
    unfolding pipe_child by simp_all
qed (simp_all add: pipe_node run_state)

definition waiting :: "ExecutionGraph \<Rightarrow> sched \<Rightarrow> string set" where
  "waiting g s = {n. \<exists>r. gNodes g n = Some r \<and> stat s r = StatusWaiting}"

text \<open>C6. A pass that starts with no goroutine active makes progress: when the loop is next outside
  a pass, strictly fewer stages are waiting. With the bound on the steps of a pass, the loop
  cannot spin forever on stages that no running stage can unblock.\<close>

theorem pass_makes_progress:
  assumes "wf_graph g st" and "reachable g st s"
    and "pc s = Scan todo" and "set todo = dom (gNodes g)" and "\<forall>r. idle (go s r)"
    and "waiting g s \<noteq> {}"
    and "(step g st)\<^sup>*\<^sup>* s t" and "pc t \<in> {Head, WgWait} \<union> range Returned"
  shows "waiting g t \<subset> waiting g s"
proof -
  have i: "sched_inv g st s" using assms(1,2) by (rule reachable_inv)
  from assms(6) obtain n r where "gNodes g n = Some r" "stat s r = StatusWaiting"
    unfolding waiting_def by blast
  from some_ready [OF i assms(5) this] obtain m where
    m: "gNodes g m = Some (node g m)" "stat s (node g m) = StatusWaiting"
    "\<forall>p \<in> set (succs (gParent g) m). \<exists>q. gNodes g p = Some q \<and> terminal (stat s q)" by blast
  then have "m \<in> set todo" using assms(4) by blast
  with m assms(3) have "will_leave g m s" by (simp add: will_leave_def)
  from leave_steps [OF i m(1) this assms(7)] assms(8) have "stat t (node g m) \<noteq> StatusWaiting"
    by (auto simp: will_leave_def)
  with m(1) have "m \<notin> waiting g t" by (auto simp: waiting_def)
  moreover have "m \<in> waiting g s" using m unfolding waiting_def by blast
  moreover have "waiting g t \<subseteq> waiting g s"
    using steps_not_waiting [OF i assms(7)] unfolding waiting_def by blast
  ultimately show ?thesis by blast
qed

theorem pass_makes_progress_witness:
  "waiting pipe_graph ce10 \<subset> waiting pipe_graph run1"
proof (rule pass_makes_progress [OF pipe_wf run_reachable(2) run1_eq(5) _ _ _ ce_steps(1)])
  show "set [''b'', ''c'', ''a'', ''root''] = dom (gNodes pipe_graph)" unfolding pipe_dom by auto
  show "\<forall>r. idle (go run1 r)" by (simp add: run1_eq idle_def)
  have "''b'' \<in> waiting pipe_graph run1"
    by (simp add: waiting_def pipe_nodes run1_eq pipe_store_simps)
  then show "waiting pipe_graph run1 \<noteq> {}" by blast
  show "pc ce10 \<in> {Head, WgWait} \<union> range Returned" by (simp add: ce10_def)
qed



lemma never_stuck:
  assumes "wf_graph g st" and "reachable g st s" and "\<forall>res. pc s \<noteq> Returned res"
  shows "pc s \<noteq> Panicked \<and> (\<exists>t. step g st s t)"
proof -
  have i: "sched_inv g st s" using assms(1,2) by (rule reachable_inv)
  then have np: "pc s \<noteq> Panicked" by (auto simp: sched_inv_def pc_ok_def)
  moreover have "\<exists>t. step g st s t"
  proof (cases "pc s")
    case Head
    have "finite (dom (gNodes g))" using assms(1) unfolding wf_graph_def by blast
    then obtain ns where "enumerates ns (dom (gNodes g))"
      unfolding enumerates_def using finite_distinct_list by metis
    with Head loop_done loop_break loop_pass show ?thesis by blast
  next
    case (Scan todo)
    obtain ps where ps: "enumerates ps (set (succs (gParent g) (sName (st (node g (hd todo))))))"
      unfolding enumerates_def using finite_distinct_list [OF finite_set] by metis
    show ?thesis
    proof (cases todo)
      case Nil
      with Scan pass_end show ?thesis by blast
    next
      case (Cons n rest)
      with ps Scan pass_visit [of s n rest ps] show ?thesis by auto
    qed
  next
    case (Check n ps ok todo)
    then show ?thesis using check_next check_last by (cases ps) blast+
  next
    case WgWait
    show ?thesis
    proof (cases "\<forall>r. idle (go s r)")
      case True
      with WgWait wait_end show ?thesis by blast
    next
      case False
      then obtain r where "\<not> idle (go s r)" by blast
      then show ?thesis
        using run_end [of s r] run_store [of s r] run_recover [of s r]
        by (cases "go s r") (auto simp: idle_def)
    qed
  next
    case (Returned res)
    with assms(3) show ?thesis by blast
  next
    case Panicked
    with np show ?thesis ..
  qed
  ultimately show ?thesis ..
qed

text \<open>\<open>Schedule\<close> never dereferences a nil stage and never deadlocks: every reachable state that
  has not returned has a next step.\<close>

theorem schedule_never_stuck:
  assumes "wf_graph g st" and "reachable g st s" and "\<forall>res. pc s \<noteq> Returned res"
  shows "pc s \<noteq> Panicked \<and> (\<exists>t. step g st s t)"
  using never_stuck [OF assms] .

theorem schedule_never_stuck_witness:
  "pc run8 = Scan [''root''] \<and> (\<exists>t. step pipe_graph pipe_store run8 t)"
  using schedule_never_stuck [OF pipe_wf run_reachable(1)] by (simp add: run8_eq)

text \<open>C8. What a return of \<open>Schedule\<close> says: the error is nil exactly when no stage's run failed (a
  failure that was allowed counts), and if the scheduler was not cancelled every stage is done
  after its run, skipped, failed after its run, or cancelled because of such a parent.\<close>

theorem returned_outcome:
  assumes "wf_graph g st" and "reachable g st s" and "pc s = Returned res"
  shows "(res = None \<longleftrightarrow> (\<forall>r e. go s r \<noteq> GEnd (Some e))) \<and>
    (\<not> cancelled s \<longrightarrow> (\<forall>n r. gNodes g n = Some r \<longrightarrow> n \<noteq> RootNodeName \<longrightarrow>
       (stat s r = StatusDone \<and> (\<exists>e. go s r = GEnd e)) \<or> stat s r = StatusSkipped \<or>
       (stat s r = StatusError \<and> \<not> sAllowFailure (st r) \<and> (\<exists>e. go s r = GEnd (Some e))) \<or>
       (stat s r = StatusCanceled \<and> parent_blocking g st s n)))"
proof -
  have i: "sched_inv g st s" using assms(1,2) by (rule reachable_inv)
  then have ret: "isDone g s \<or> cancelled s" "\<forall>r. idle (go s r)" "res = last_error (errs s)"
    and e: "errs_ok s"
    using assms(3) by (auto simp: sched_inv_def pc_ok_def)
  have "res = None \<longleftrightarrow> (\<forall>r e. (r, e) \<notin> set (errs s))"
    using ret(3) by (cases "errs s") (auto simp: last_error_def)
  also have "\<dots> \<longleftrightarrow> (\<forall>r e. \<not> stored (go s r) e)" using e by (simp add: errs_ok_def)
  also have "\<dots> \<longleftrightarrow> (\<forall>r e. go s r \<noteq> GEnd (Some e))"
    using ret(2) by (auto simp: stored_def idle_def split: goroutine.splits)
  finally have 1: "res = None \<longleftrightarrow> (\<forall>r e. go s r \<noteq> GEnd (Some e))" .
  have "(stat s r = StatusDone \<and> (\<exists>e. go s r = GEnd e)) \<or> stat s r = StatusSkipped \<or>
       (stat s r = StatusError \<and> \<not> sAllowFailure (st r) \<and> (\<exists>e. go s r = GEnd (Some e))) \<or>
       (stat s r = StatusCanceled \<and> parent_blocking g st s n)"
    if nc: "\<not> cancelled s" and n: "gNodes g n = Some r" "n \<noteq> RootNodeName" for n r
  proof -
    have t: "stat s r \<noteq> StatusWaiting" "stat s r \<noteq> StatusRunning"
      using ret(1) nc n(1) by (auto simp: isDone_def intro: ranI)
    show ?thesis
    proof (cases "go s r")
      case GNone
      with t inv_phase [OF i n(1)] nc inv_not_done [OF i n] inv_canceled [OF i n(1)] show ?thesis
        by (cases "stat s r") (auto simp: phase_ok_def)
    next
      case (GEnd res')
      with inv_phase [OF i n(1)] show ?thesis
        by (auto simp: phase_ok_def split: option.splits if_splits)
    qed (use ret(2) in \<open>auto simp: idle_def dest!: spec [of _ r]\<close>)
  qed
  with 1 show ?thesis by blast
qed

theorem returned_outcome_witness:
  "pc ce13 = Returned None \<and> (\<forall>r e. go ce13 r \<noteq> GEnd (Some e))"
  using returned_outcome [OF pipe_wf ce_reachable ce_state(7)] ce_state(7) by blast

text \<open>The error of a condition is lost: when the command of a condition cannot be run, the stage
  ends in StatusError and its children are cancelled, but nothing is stored in the graph, and
  \<open>Schedule\<close> returns nil.\<close>

theorem condition_error_is_lost:
  "\<exists>g st s. wf_graph g st \<and> reachable g st s \<and> pc s = Returned None \<and>
     (\<exists>n r. gNodes g n = Some r \<and> stat s r = StatusError \<and> \<not> sAllowFailure (st r))"
proof (intro exI conjI)
  show "wf_graph pipe_graph pipe_store" by (rule pipe_wf)
  show "reachable pipe_graph pipe_store ce13" by (rule ce_reachable)
  show "pc ce13 = Returned None" by (rule ce_state)
  show "gNodes pipe_graph ''b'' = Some 12" by (simp add: pipe_nodes)
  show "stat ce13 12 = StatusError" by (rule ce_state)
  show "\<not> sAllowFailure (pipe_store 12)" by (simp add: pipe_store_def pipe_stages_def NewStage_def)
qed

end
