(* ===== verification/Tasks.thy ===== *)
theory Tasks
  imports Utils "HOL-Library.Word"
begin

text \<open>
  \<open>task/task.go\<close>: the task, its required inputs, its artifact and the capture of its output.
  The mutex-guarded fields are plain fields here: every accessor takes the lock for one read
  or one write. The exit code is Go's \<open>int16\<close>, a 16-bit word.
\<close>

section \<open>Artifacts and required inputs\<close>

datatype ArtifactType = FileArtifactType | DotEnvArtifactType | RuntimeEnvArtifactType | OtherArtifactType string

record Artifact =
  artName :: string
  artPath :: string
  artType :: ArtifactType

record RequiredInput =
  rVars :: "string list"
  rEnv :: "string list"
  rArgs :: "string list"

definition no_required :: RequiredInput where
  "no_required = \<lparr>rVars = [], rEnv = [], rArgs = []\<rparr>"

definition HasRequired :: "RequiredInput \<Rightarrow> bool" where
  "HasRequired ri = (0 < length (rArgs ri) + length (rVars ri) + length (rEnv ri))"

text \<open>The error wraps \<open>ErrRequiredInputMissing\<close>; it names what is missing and what is required.\<close>

datatype required_error =
    MissingEnv "string list" "string list"
  | MissingVars "string list" "string list"

definition not_found :: "variables \<Rightarrow> string list \<Rightarrow> string list" where
  "not_found vars = filter (\<lambda>v. \<not> Has vars v)"

definition RequiredInput_Check :: "RequiredInput \<Rightarrow> variables \<Rightarrow> variables \<Rightarrow> required_error option" where
  "RequiredInput_Check ri env vars =
     (let notFound = not_found env (rEnv ri) in
      if 0 < length notFound then Some (MissingEnv notFound (rEnv ri))
      else (let notFound = notFound @ not_found vars (rVars ri) in
        if 0 < length notFound then Some (MissingVars notFound (rVars ri)) else None))"

lemma not_found_Nil: "not_found vars xs = [] \<longleftrightarrow> (\<forall>v \<in> set xs. Has vars v)"
  by (simp add: not_found_def filter_empty_conv)

lemma Check_None_iff:
  "RequiredInput_Check ri env vars = None \<longleftrightarrow>
     (\<forall>v \<in> set (rEnv ri). Has env v) \<and> (\<forall>v \<in> set (rVars ri). Has vars v)"
  by (auto simp: RequiredInput_Check_def Let_def not_found_Nil [symmetric])

section \<open>Tasks\<close>

record Task =
  tCommands :: "string list"
  tContext :: string
  tEnv :: variables
  tEnvFile :: "Envfile option"
  tVariables :: variables
  tVariations :: "(string \<rightharpoonup> string) list option"
  tDir :: string
  tTimeout :: "int option"
  tAllowFailure :: bool
  tAfter :: "string list"
  tBefore :: "string list"
  tInteractive :: bool
  tResetContext :: bool
  tCondition :: string
  tArtifacts :: "Artifact option"
  tName :: string
  tDescription :: string
  tRequired :: "RequiredInput option"
  tStart :: "int option"
  tEnd :: "int option"
  tSkipped :: bool
  tExitCode :: "16 word"
  tErrored :: bool
  tErrorVal :: "string option"
  tOutput :: "string \<rightharpoonup> string"
  tSourceFile :: string
  tGenerator :: "string \<rightharpoonup> gval"

definition NewTask :: "string \<Rightarrow> Task" where
  "NewTask name =
     \<lparr>tCommands = [], tContext = '''', tEnv = NewVariables, tEnvFile = Some (NewEnvFile []),
      tVariables = NewVariables, tVariations = None, tDir = '''', tTimeout = None,
      tAllowFailure = False, tAfter = [], tBefore = [], tInteractive = False,
      tResetContext = False, tCondition = '''', tArtifacts = None, tName = name,
      tDescription = '''', tRequired = Some no_required, tStart = None, tEnd = None,
      tSkipped = False, tExitCode = -1, tErrored = False, tErrorVal = None,
      tOutput = Map.empty, tSourceFile = '''',
      tGenerator = Map.empty\<rparr>"

text \<open>
  \<open>FromTask\<close>: \<open>mergo.Merge\<close>, which fills the empty fields of its first argument from the
  second, is a parameter; when it fails the task is left as it is.
\<close>

definition FromTask :: "(Task \<Rightarrow> Task \<Rightarrow> Task option) \<Rightarrow> Task \<Rightarrow> Task \<Rightarrow> Task" where
  "FromTask mergo t other =
     (let t1 = (case mergo t other of None \<Rightarrow> t | Some t' \<Rightarrow> t') in
      t1\<lparr>tEnv := Merge (tEnv t1) (tEnv other), tEnvFile := tEnvFile other,
         tVariables := Merge (tVariables t1) (tVariables other)\<rparr>)"

definition task_WithStart :: "Task \<Rightarrow> int \<Rightarrow> Task" where
  "task_WithStart t v = t\<lparr>tStart := Some v\<rparr>"

definition task_WithEnd :: "Task \<Rightarrow> int \<Rightarrow> Task" where
  "task_WithEnd t v = t\<lparr>tEnd := Some v\<rparr>"

definition WithSkipped :: "Task \<Rightarrow> bool \<Rightarrow> Task" where
  "WithSkipped t v = t\<lparr>tSkipped := v\<rparr>"

definition WithExitCode :: "Task \<Rightarrow> 16 word \<Rightarrow> Task" where
  "WithExitCode t v = t\<lparr>tExitCode := v\<rparr>"

definition WithError :: "Task \<Rightarrow> string option \<Rightarrow> Task" where
  "WithError t v = t\<lparr>tErrored := True, tErrorVal := v\<rparr>"

definition FromCommands :: "string \<Rightarrow> string list \<Rightarrow> Task" where
  "FromCommands name commands = (NewTask name)\<lparr>tCommands := commands\<rparr>"

definition task_Duration :: "int \<Rightarrow> Task \<Rightarrow> int" where
  "task_Duration now t = (let start = (case tStart t of None \<Rightarrow> 0 | Some b \<Rightarrow> b) in
     case tEnd t of None \<Rightarrow> now - start | Some e \<Rightarrow> e - start)"

text \<open>\<open>ErrorMessage\<close> calls a method of the stored error: it panics, here \<open>None\<close>, when that is nil.\<close>

definition ErrorMessage :: "Task \<Rightarrow> string option" where
  "ErrorMessage t = (if \<not> tErrored t then Some '''' else tErrorVal t)"

definition task_WithEnv :: "Task \<Rightarrow> string \<Rightarrow> string \<Rightarrow> Task" where
  "task_WithEnv t key v = t\<lparr>tEnv := With (tEnv t) key (GStr v)\<rparr>"

definition GetVariations :: "Task \<Rightarrow> (string \<rightharpoonup> string) list" where
  "GetVariations t = (case tVariations t of None \<Rightarrow> [Map.empty] | Some vs \<Rightarrow> vs)"

lemma WithExitCode_simps [simp]:
  "tErrored (WithExitCode t v) = tErrored t" "tSkipped (WithExitCode t v) = tSkipped t"
  "tExitCode (WithExitCode t v) = v"
  by (simp_all add: WithExitCode_def)

section \<open>Output capture\<close>

definition output_prefix :: string where
  "output_prefix = ''EIRCTL_TASK_OUTPUT_''"

definition is_quote :: "char \<Rightarrow> bool" where
  "is_quote c = (byte c \<in> {0x27, 0x22})"

text \<open>What one field of the output stores: the pair of a captured variable, or nothing.\<close>

definition captured :: "string \<Rightarrow> (string \<times> string) option" where
  "captured segment =
     (if HasPrefix segment output_prefix then
        (case SplitN2 segment ''='' of
           [key, v] \<Rightarrow> Some (TrimPrefix key output_prefix, trim_both is_quote v)
         | _ \<Rightarrow> None)
      else None)"

fun capture_loop :: "string list \<Rightarrow> (string \<rightharpoonup> string) \<Rightarrow> (string \<rightharpoonup> string)" where
  "capture_loop [] output = output"
| "capture_loop (segment # rest) output =
     (case captured segment of
        None \<Rightarrow> capture_loop rest output
      | Some (k, v) \<Rightarrow> capture_loop rest (output(k \<mapsto> v)))"

definition HandleOutputCapture :: "Task \<Rightarrow> string \<Rightarrow> Task" where
  "HandleOutputCapture t b = t\<lparr>tOutput := capture_loop (Fields b) (tOutput t)\<rparr>"

text \<open>The specification: the pairs of all the fields, the last one of a key wins.\<close>

lemma capture_loop_eq:
  "capture_loop segs m = m ++ map_of (rev (List.map_filter captured segs))"
  by (induction segs arbitrary: m) (auto simp: map_filter_simps map_add_def fun_eq_iff split: option.splits)

lemma captured_assign:
  "CHR ''='' \<notin> set k \<Longrightarrow> captured (output_prefix @ k @ ''='' @ v) = Some (k, trim_both is_quote v)"
proof -
  assume k: "CHR ''='' \<notin> set k"
  have "CHR ''='' \<notin> set (output_prefix @ k)" using k by (simp add: output_prefix_def)
  from Cut_char [OF this, of v] have "Cut (output_prefix @ k @ ''='' @ v) ''='' = Some (output_prefix @ k, v)"
    by simp
  then show ?thesis by (simp add: captured_def SplitN2_def HasPrefix_iff)
qed

section \<open>Properties\<close>

text \<open>The captured output of a task is that of the white-space separated fields of the form
  \<open>EIRCTL_TASK_OUTPUT_k=v\<close>, with quotes trimmed off the value; of several fields with one
  key the last wins, every other key keeps what was captured before, and nothing else of the
  task changes.\<close>

theorem HandleOutputCapture_spec:
  "HandleOutputCapture t b =
     t\<lparr>tOutput := tOutput t ++ map_of (rev (List.map_filter captured (Fields b)))\<rparr>"
  by (simp add: HandleOutputCapture_def capture_loop_eq)

text \<open>A task's required inputs are accepted exactly when every required environment variable and
  every required variable is present. When an environment variable is missing the error
  names exactly the missing ones, in their order, and no variable is looked at; otherwise it
  names exactly the missing variables.\<close>

theorem RequiredInput_Check_spec:
  "RequiredInput_Check ri env vars =
     (if set (rEnv ri) \<subseteq> Collect (Has env) then
        if set (rVars ri) \<subseteq> Collect (Has vars) then None
        else Some (MissingVars (filter (- Has vars) (rVars ri)) (rVars ri))
      else Some (MissingEnv (filter (- Has env) (rEnv ri)) (rEnv ri)))"
proof -
  have f: "not_found vars xs = filter (- Has vars) xs" for vars xs
    by (simp add: not_found_def fun_Compl_def)
  have "not_found vars xs = [] \<longleftrightarrow> set xs \<subseteq> Collect (Has vars)" for vars xs
    by (auto simp: not_found_Nil)
  then show ?thesis
    by (auto simp: RequiredInput_Check_def Let_def f [symmetric])
qed

end
