(* ===== verification/Denormalize.thy ===== *)
theory Denormalize
  imports Graph Tasks
begin

text \<open>
  \<open>scheduler/denormalize.go\<close>, with \<open>FromStage\<close> and \<open>EnvFile\<close> of \<open>scheduler/stage.go\<close>: a pipeline
  and the pipelines nested in it are flattened into a table of copies with cascaded names,
  from which the graphs are built anew. The stages, tasks, graphs and env files are objects of
  a heap, since what the copies share is the point: an env file is copied by its pointer.
  The env file of a stored task is the object that \<open>hTaskEnv\<close> names (the field \<open>tEnvFile\<close> of the
  task is what its pointer refers to when the task runs, and is not read here).

  Go ranges over maps in any order: the orders of the nodes of a graph, of the children of a
  node and of the table are parameters, and so are the two merges of mergo. The recursions
  have a depth they may use as fuel.
\<close>

section \<open>The heap\<close>

record heap =
  hTasks :: "ref \<Rightarrow> Task"
  hTaskEnv :: "ref \<Rightarrow> ref option"
  hStages :: "ref \<Rightarrow> Stage"
  hGraphs :: "ref \<Rightarrow> ExecutionGraph"
  hEnvfiles :: "ref \<Rightarrow> Envfile"
  hTable :: "string \<rightharpoonup> ref"
  hNext :: ref

record denorm_params =
  dp_nodes :: "ExecutionGraph \<Rightarrow> string list"
  dp_children :: "ExecutionGraph \<Rightarrow> string \<Rightarrow> string list"
  dp_table :: "(string \<rightharpoonup> ref) \<Rightarrow> (string \<times> ref) list"
  dp_merge_task :: "Task \<Rightarrow> Task \<Rightarrow> Task option"
  dp_merge_env :: "Envfile \<Rightarrow> Envfile \<Rightarrow> Envfile option"

datatype denorm_error = DnNil | DnGraph graph_error | DnFuel

type_synonym 'a dn = "(heap, denorm_error, 'a) op"

definition put_stage :: "ref \<Rightarrow> Stage \<Rightarrow> heap \<Rightarrow> heap" where
  "put_stage r s h = h\<lparr>hStages := (hStages h)(r := s)\<rparr>"

text \<open>An update of a stage that may read the heap.\<close>

definition upd_stage :: "ref \<Rightarrow> (heap \<Rightarrow> Stage \<Rightarrow> Stage) \<Rightarrow> unit dn" where
  "upd_stage r f = op_modify (\<lambda>h. put_stage r (f h (hStages h r)) h)"

definition upd_task :: "ref \<Rightarrow> (heap \<Rightarrow> Task \<Rightarrow> Task) \<Rightarrow> unit dn" where
  "upd_task r f = op_modify (\<lambda>h. h\<lparr>hTasks := (hTasks h)(r := f h (hTasks h r))\<rparr>)"

definition make_envfile :: "ref dn" where
  "make_envfile = (\<lambda>h. (Inr (hNext h), h\<lparr>hEnvfiles := (hEnvfiles h)(hNext h := NewEnvFile []), hNext := Suc (hNext h)\<rparr>))"

definition make_stage :: "string \<Rightarrow> ref dn" where
  "make_stage name = op_bind make_envfile (\<lambda>ef h.
     (Inr (hNext h), (put_stage (hNext h) (NewStage ef name []) h)\<lparr>hNext := Suc (hNext h)\<rparr>))"

definition make_task :: "Task \<Rightarrow> ref option \<Rightarrow> ref dn" where
  "make_task t ef = (\<lambda>h. (Inr (hNext h), h\<lparr>hTasks := (hTasks h)(hNext h := t),
     hTaskEnv := (hTaskEnv h)(hNext h := ef), hNext := Suc (hNext h)\<rparr>))"

text \<open>\<open>NewExecutionGraph\<close> without stages.\<close>

definition make_graph :: "string \<Rightarrow> ref dn" where
  "make_graph name = op_bind make_envfile (\<lambda>ef h.
     (Inr (Suc (hNext h)),
      (put_stage (hNext h) (root_stage ef name) h)\<lparr>
        hGraphs := (hGraphs h)(Suc (hNext h) := empty_graph (hNext h) name), hNext := Suc (Suc (hNext h))\<rparr>))"

definition upd_graph :: "ref \<Rightarrow> (ExecutionGraph \<Rightarrow> ExecutionGraph) \<Rightarrow> unit dn" where
  "upd_graph r f = op_modify (\<lambda>h. h\<lparr>hGraphs := (hGraphs h)(r := f (hGraphs h r))\<rparr>)"

section \<open>Env files\<close>

text \<open>\<open>EnvFile\<close> of a stage allocates one when there is none.\<close>

definition EnvFile :: "ref \<Rightarrow> ref dn" where
  "EnvFile r = op_bind (op_get (\<lambda>h. sEnvfile (hStages h r))) (\<lambda>e. case e of
     Some e \<Rightarrow> op_return e
   | None \<Rightarrow> op_bind make_envfile (\<lambda>e. op_then (upd_stage r (\<lambda>_ s. WithEnvFile s (Some e))) (op_return e)))"

text \<open>The paths of the source that the destination does not have are added at its end; \<open>merge\<close> is
  mergo's merge, which appends slices, and what it does to the paths is overwritten.\<close>

definition add_path :: "string \<Rightarrow> string list \<Rightarrow> string list" where
  "add_path e paths = (if e \<in> set paths then paths else paths @ [e])"

definition merged_envfile :: "(Envfile \<Rightarrow> Envfile \<Rightarrow> Envfile option) \<Rightarrow> Envfile \<Rightarrow> Envfile \<Rightarrow> Envfile" where
  "merged_envfile merge dst src =
     (case merge dst src of None \<Rightarrow> dst | Some m \<Rightarrow> m)\<lparr>PathValue := fold add_path (PathValue src) (PathValue dst)\<rparr>"

definition envfileMerge :: "denorm_params \<Rightarrow> ref option \<Rightarrow> ref \<Rightarrow> unit dn" where
  "envfileMerge p dst src = (case dst of
     None \<Rightarrow> op_throw DnNil
   | Some d \<Rightarrow> op_modify (\<lambda>h. h\<lparr>hEnvfiles := (hEnvfiles h)
       (d := merged_envfile (dp_merge_env p) (hEnvfiles h d) (hEnvfiles h src))\<rparr>))"

section \<open>Copying a stage\<close>

text \<open>\<open>FromStage\<close>: what is copied at once, then the task, the pipeline and the rest. The new task has
  the env file of the original one, and the new pipeline that of the original pipeline.\<close>

definition stage_base :: "ExecutionGraph \<Rightarrow> Stage \<Rightarrow> Stage \<Rightarrow> Stage" where
  "stage_base g orig s = s\<lparr>sCondition := sCondition orig, sDir := sDir orig,
     sAllowFailure := sAllowFailure orig, sGenerator := sGenerator orig,
     sEnv := Merge (Merge (sEnv s) (FromMap (gEnv g))) (sEnv orig),
     sVariables := Merge (sVariables s) (sVariables orig)\<rparr>"

definition cloned_task :: "denorm_params \<Rightarrow> string list \<Rightarrow> ExecutionGraph \<Rightarrow> Task \<Rightarrow> Task" where
  "cloned_task p parents g t =
     (let tsk = FromTask (dp_merge_task p) (NewTask (CascadeName parents (tName t))) t in
      tsk\<lparr>tEnv := Merge (tEnv tsk) (FromMap (gEnv g))\<rparr>)"

definition from_task :: "denorm_params \<Rightarrow> ref \<Rightarrow> ref \<Rightarrow> ref \<Rightarrow> string list \<Rightarrow> ref \<Rightarrow> unit dn" where
  "from_task p new orig gr parents t =
     op_bind (op_get (\<lambda>h. (cloned_task p parents (hGraphs h gr) (hTasks h t), hTaskEnv h t))) (\<lambda>(tsk, ef).
     op_bind (make_task tsk ef) (\<lambda>r.
     op_bind (EnvFile orig) (\<lambda>oe.
     op_then (envfileMerge p ef oe)
     (upd_stage new (\<lambda>_ s. s\<lparr>sTask := Some r\<rparr>)))))"

definition from_pipeline :: "denorm_params \<Rightarrow> ref \<Rightarrow> ref \<Rightarrow> ref \<Rightarrow> string list \<Rightarrow> ref \<Rightarrow> unit dn" where
  "from_pipeline p new orig gr parents q =
     op_bind (op_get (\<lambda>h. (hGraphs h gr, hGraphs h q))) (\<lambda>(g, old).
     op_bind (make_graph (CascadeName parents (gName old))) (\<lambda>r.
     op_then (upd_graph r (\<lambda>x. x\<lparr>gEnv := ConvertToMapOfStrings (VarsMap (Merge (FromMap (gEnv g)) (FromMap (gEnv old))))\<rparr>))
     (op_bind (case gEnvFile old of Some e \<Rightarrow> op_return e | None \<Rightarrow> make_envfile) (\<lambda>ef.
     op_then (upd_graph r (\<lambda>x. x\<lparr>gEnvFile := Some ef\<rparr>))
     (op_bind (EnvFile orig) (\<lambda>oe.
     op_then (envfileMerge p (Some ef) oe)
     (upd_stage new (\<lambda>_ s. s\<lparr>sPipeline := Some r\<rparr>))))))))"

definition FromStage :: "denorm_params \<Rightarrow> ref \<Rightarrow> ref \<Rightarrow> ref \<Rightarrow> string list \<Rightarrow> unit dn" where
  "FromStage p new orig gr parents =
     op_then (upd_stage new (\<lambda>h. stage_base (hGraphs h gr) (hStages h orig)))
     (op_bind (op_get (\<lambda>h. hStages h orig)) (\<lambda>old.
     op_then (case sTask old of None \<Rightarrow> op_return () | Some t \<Rightarrow> from_task p new orig gr parents t)
     (op_then (case sPipeline old of None \<Rightarrow> op_return () | Some q \<Rightarrow> from_pipeline p new orig gr parents q)
     (op_bind (EnvFile orig) (\<lambda>oe.
       upd_stage new (\<lambda>_ s. (WithEnvFile s (Some oe))\<lparr>sDependsOn := map (CascadeName parents) (sDependsOn old)\<rparr>))))))"

section \<open>Flattening\<close>

text \<open>\<open>graphClone\<close>: a pipeline that consists of one nested pipeline is passed over, and the stage of
  the nested one takes the name, the dependencies and the environment of the outer stage.\<close>

definition pass_over :: "ref \<Rightarrow> ref \<Rightarrow> ref \<Rightarrow> unit dn" where
  "pass_over peek cloned orig =
     op_then (upd_stage peek (\<lambda>h s. s\<lparr>sDependsOn := sDependsOn (hStages h cloned)\<rparr>))
     (op_then (upd_stage peek (\<lambda>h s. s\<lparr>sName := sName (hStages h orig)\<rparr>))
     (op_then (upd_stage peek (\<lambda>h s. WithEnv s (sEnv (hStages h orig))))
     (op_then (upd_stage peek (\<lambda>h s. WithVariables s (sVariables (hStages h orig))))
     (op_then (upd_stage peek (\<lambda>h s. WithEnvFile s (sEnvfile (hStages h orig))))
     (op_then (upd_stage cloned (\<lambda>h s. WithEnv s (sEnv (hStages h peek))))
     (op_then (upd_stage cloned (\<lambda>h s. WithVariables s (sVariables (hStages h peek))))
     (upd_stage cloned (\<lambda>h s. WithEnvFile s (sEnvfile (hStages h peek))))))))))"

fun peek_loop :: "ref list \<Rightarrow> ref \<Rightarrow> ref \<Rightarrow> ref dn" where
  "peek_loop [] cloned orig = op_return orig"
| "peek_loop (peek # rest) cloned orig =
     op_bind (op_get (\<lambda>h. hStages h peek)) (\<lambda>s.
       if sName s = RootNodeName \<or> sPipeline s = None then peek_loop rest cloned orig
       else op_then (pass_over peek cloned orig) (peek_loop rest cloned peek))"

definition node_refs :: "denorm_params \<Rightarrow> ExecutionGraph \<Rightarrow> ref list" where
  "node_refs p g = List.map_filter (gNodes g) (dp_nodes p g)"

definition graphClone :: "denorm_params \<Rightarrow> ref \<Rightarrow> ref \<Rightarrow> ref \<Rightarrow> string \<Rightarrow> (ref \<times> ref) dn" where
  "graphClone p q orig cloned name =
     op_bind (make_graph name) (\<lambda>sub.
     op_bind (op_get (\<lambda>h. node_refs p (hGraphs h q))) (\<lambda>peeks.
     op_bind (if length peeks = 2 then peek_loop peeks cloned orig else op_return orig) (\<lambda>orig.
       op_return (sub, orig))))"

text \<open>One node of \<open>Flatten\<close>; the last argument flattens a node of a nested graph.\<close>

definition flatten_nested ::
  "denorm_params \<Rightarrow> (ref \<Rightarrow> string \<Rightarrow> string list \<Rightarrow> unit dn) \<Rightarrow> ref \<Rightarrow> ref \<Rightarrow> string \<Rightarrow> string list \<Rightarrow> ref \<Rightarrow> unit dn" where
  "flatten_nested p rec orig cloned name parents q =
     op_bind (graphClone p q orig cloned name) (\<lambda>(sub, orig).
     op_bind (op_get (\<lambda>h. sPipeline (hStages h orig))) (\<lambda>q. case q of
       None \<Rightarrow> op_throw DnNil
     | Some q \<Rightarrow>
         op_then (op_bind (op_get (\<lambda>h. dp_nodes p (hGraphs h q))) (\<lambda>ns.
           op_for ns (\<lambda>n. op_bind (op_get (\<lambda>h. sName (hStages h orig))) (\<lambda>nm. rec q n (parents @ [nm])))))
         (upd_stage cloned (\<lambda>_ s. s\<lparr>sPipeline := Some sub\<rparr>))))"

definition flatten_node ::
  "denorm_params \<Rightarrow> (ref \<Rightarrow> string \<Rightarrow> string list \<Rightarrow> unit dn) \<Rightarrow> ref \<Rightarrow> string \<Rightarrow> string list \<Rightarrow> unit dn" where
  "flatten_node p rec gr n parents =
     op_bind (op_get (\<lambda>h. gNodes (hGraphs h gr) n)) (\<lambda>node.
     op_bind (make_stage (CascadeName parents n)) (\<lambda>cloned. case node of
       None \<Rightarrow> op_throw DnNil
     | Some orig \<Rightarrow>
         op_then (FromStage p cloned orig gr parents)
         (op_then (op_modify (\<lambda>h. h\<lparr>hTable := (hTable h)(CascadeName parents n \<mapsto> cloned)\<rparr>))
         (op_bind (op_get (\<lambda>h. sPipeline (hStages h orig))) (\<lambda>q. case q of
            None \<Rightarrow> op_return ()
          | Some q \<Rightarrow> flatten_nested p rec orig cloned (CascadeName parents n) parents q)))))"

text \<open>A child is visited under the name that its stage has then; a child without a node is nil.\<close>

fun Flatten :: "denorm_params \<Rightarrow> nat \<Rightarrow> ref \<Rightarrow> string \<Rightarrow> string list \<Rightarrow> unit dn" where
  "Flatten p 0 gr n parents = op_throw DnFuel"
| "Flatten p (Suc k) gr n parents =
     op_then (if n = RootNodeName then op_return () else flatten_node p (Flatten p k) gr n parents)
     (op_bind (op_get (\<lambda>h. map (gNodes (hGraphs h gr)) (dp_children p (hGraphs h gr) n))) (\<lambda>cs.
       op_for cs (\<lambda>c. case c of
         None \<Rightarrow> op_throw DnNil
       | Some r \<Rightarrow> op_bind (op_get (\<lambda>h. sName (hStages h r))) (\<lambda>nm. Flatten p k gr nm parents))))"

section \<open>Rebuilding\<close>

definition below_by :: "string \<Rightarrow> nat \<Rightarrow> string \<Rightarrow> bool" where
  "below_by key0 depth key \<longleftrightarrow> HasPrefix key key0 \<and> key \<noteq> key0 \<and>
     length (drop (length (Split key0 PipelineDirectionChar)) (Split key PipelineDirectionChar)) = depth"

definition NthLevelChildren :: "(string \<times> ref) list \<Rightarrow> string \<Rightarrow> nat \<Rightarrow> ref list" where
  "NthLevelChildren st key0 depth = map snd (filter (\<lambda>kv. below_by key0 depth (fst kv)) st)"

definition RecurseParents :: "(string \<rightharpoonup> ref) \<Rightarrow> string \<Rightarrow> ref list" where
  "RecurseParents st key0 =
     (let parts = Split key0 PipelineDirectionChar in
      rev (List.map_filter (\<lambda>i. st (Join (take (length parts - i) parts) PipelineDirectionChar)) [1..<length parts]))"

definition merge_parent :: "denorm_params \<Rightarrow> ref \<Rightarrow> ref \<Rightarrow> unit dn" where
  "merge_parent p r v =
     op_then (upd_stage r (\<lambda>h s. s\<lparr>sEnv := Merge (sEnv s) (sEnv (hStages h v))\<rparr>))
     (op_then (upd_stage r (\<lambda>h s. s\<lparr>sVariables := Merge (sVariables s) (sVariables (hStages h v))\<rparr>))
     (op_bind (op_get (\<lambda>h. sEnvfile (hStages h r))) (\<lambda>d.
      op_bind (EnvFile v) (envfileMerge p d))))"

definition merge_own_task :: "denorm_params \<Rightarrow> ref \<Rightarrow> ref \<Rightarrow> unit dn" where
  "merge_own_task p r t =
     op_then (upd_task t (\<lambda>h x. x\<lparr>tName := sName (hStages h r)\<rparr>))
     (op_then (upd_task t (\<lambda>h x. x\<lparr>tEnv := Merge (sEnv (hStages h r)) (tEnv x)\<rparr>))
     (op_then (upd_stage r (\<lambda>h s. s\<lparr>sEnv := Merge (sEnv s) (tEnv (hTasks h t))\<rparr>))
     (op_then (upd_task t (\<lambda>h x. x\<lparr>tVariables := Merge (sVariables (hStages h r)) (tVariables x)\<rparr>))
     (op_then (upd_stage r (\<lambda>h s. s\<lparr>sVariables := Merge (sVariables s) (tVariables (hTasks h t))\<rparr>))
     (op_bind (op_get (\<lambda>h. sEnvfile (hStages h r))) (\<lambda>d.
      op_bind (EnvFile r) (envfileMerge p d)))))))"

definition merge_stage :: "denorm_params \<Rightarrow> ref \<Rightarrow> unit dn" where
  "merge_stage p r =
     op_bind (op_get (\<lambda>h. RecurseParents (hTable h) (sName (hStages h r)))) (\<lambda>ps.
     op_then (op_for ps (merge_parent p r))
     (op_bind (op_get (\<lambda>h. sTask (hStages h r))) (\<lambda>t. case t of
        None \<Rightarrow> op_return () | Some t \<Rightarrow> merge_own_task p r t)))"

definition add_stage :: "ref \<Rightarrow> ref \<Rightarrow> unit dn" where
  "add_stage gr r = (\<lambda>h. case AddStage (hGraphs h gr) r (hStages h r) of
     Inl e \<Rightarrow> (Inl (DnGraph e), h) | Inr g \<Rightarrow> (Inr (), h\<lparr>hGraphs := (hGraphs h)(gr := g)\<rparr>))"

definition rebuild_stage :: "denorm_params \<Rightarrow> (ref \<Rightarrow> unit dn) \<Rightarrow> ref \<Rightarrow> ref \<Rightarrow> unit dn" where
  "rebuild_stage p rec gr r =
     op_bind (op_get (\<lambda>h. hStages h r)) (\<lambda>s.
     op_then (if sPipeline s = None then op_return ()
       else op_bind (make_graph (sName s)) (\<lambda>ng. op_then (rec ng) (upd_stage r (\<lambda>_ s. s\<lparr>sPipeline := Some ng\<rparr>))))
     (op_then (merge_stage p r) (add_stage gr r)))"

fun rebuildFromDenormalized :: "denorm_params \<Rightarrow> nat \<Rightarrow> ref \<Rightarrow> unit dn" where
  "rebuildFromDenormalized p 0 gr = op_throw DnFuel"
| "rebuildFromDenormalized p (Suc k) gr =
     op_bind (op_get (\<lambda>h. NthLevelChildren (dp_table p (hTable h)) (gName (hGraphs h gr)) 1)) (\<lambda>sts.
       op_for sts (rebuild_stage p (rebuildFromDenormalized p k) gr))"

definition Denormalize :: "denorm_params \<Rightarrow> nat \<Rightarrow> nat \<Rightarrow> ref \<Rightarrow> ref dn" where
  "Denormalize p n m gr =
     op_bind (op_get (\<lambda>h. gName (hGraphs h gr))) (\<lambda>name.
     op_bind (make_graph name) (\<lambda>dg.
     op_then (op_modify (\<lambda>h. h\<lparr>hTable := Map.empty\<rparr>))
     (op_then (Flatten p n gr RootNodeName [name])
     (op_then (rebuildFromDenormalized p m dg) (op_return dg)))))"

section \<open>The table of stages\<close>

lemma unbordered_dir: "unbordered PipelineDirectionChar"
  by (simp add: unbordered_def PipelineDirectionChar_def) (auto simp: less_Suc_eq HasPrefix_def)

lemma dir_nonempty: "PipelineDirectionChar \<noteq> []"
  by (simp add: PipelineDirectionChar_def)

lemma Join_extend_last: "Join (xs @ [x @ b]) p = Join (xs @ [x]) p @ b"
  by (cases "xs = []") (simp_all add: Join_append)

definition segment :: "string \<Rightarrow> bool" where
  "segment x \<longleftrightarrow> \<not> Contains x PipelineDirectionChar"

lemma Split_segments:
  "ks \<noteq> [] \<Longrightarrow> \<forall>x \<in> set ks. segment x \<Longrightarrow> Split (Join ks PipelineDirectionChar) PipelineDirectionChar = ks"
  by (rule Split_Join [OF unbordered_dir]) (auto simp: segment_def)

lemma Split_prefix_length:
  assumes "HasPrefix key base"
  shows "length (Split base PipelineDirectionChar) \<le> length (Split key PipelineDirectionChar)"
proof -
  let ?p = PipelineDirectionChar
  let ?xs = "Split base ?p"
  from assms obtain b where b: "key = base @ b" by (auto simp: HasPrefix_iff prefix_def)
  have "base = Join ?xs ?p" using dir_nonempty by (simp add: Join_Split)
  also have "\<dots> = Join (butlast ?xs @ [last ?xs]) ?p" by simp
  finally have base: "base = Join (butlast ?xs @ [last ?xs]) ?p" .
  let ?ys = "butlast ?xs @ [last ?xs @ b]"
  have "key = Join ?ys ?p"
    unfolding Join_extend_last base [symmetric] b ..
  then have "Split key ?p = concat (map (\<lambda>y. Split y ?p) ?ys)"
    using Split_Join_concat [OF unbordered_dir, of ?ys] by simp
  moreover have "length ys \<le> length (concat (map (\<lambda>y. Split y ?p) ys))" for ys
  proof (induction ys)
    case Nil
    then show ?case by simp
  next
    case (Cons y ys)
    have "0 < length (Split y ?p)" by simp
    with Cons show ?case by (simp add: Suc_le_eq del: length_greater_0_conv)
  qed
  ultimately have "length ?ys \<le> length (Split key ?p)" by metis
  moreover have "length ?ys = length ?xs" by (simp add: Suc_diff_le Suc_leI)
  ultimately show ?thesis by simp
qed

lemma below_by_exact_lemma:
  "below_by base d key \<longleftrightarrow> HasPrefix key base \<and> key \<noteq> base \<and>
     length (Split key PipelineDirectionChar) = length (Split base PipelineDirectionChar) + d"
proof (cases "HasPrefix key base")
  case True
  from Split_prefix_length [OF this] show ?thesis by (auto simp: below_by_def)
qed (simp add: below_by_def)


text \<open>the children of a nested pipeline are found by the prefix of their names as texts: a stage of
  another pipeline next to it whose name continues this one's name is taken for a child of both.\<close>

theorem sibling_taken_for_child:
  assumes "\<forall>y \<in> set (ps @ [n, n @ x, t]). segment y" and "x \<noteq> ''''"
    and "(CascadeName (ps @ [n @ x]) t, r) \<in> set st"
  shows "r \<in> set (NthLevelChildren st (Join (ps @ [n]) PipelineDirectionChar) 1)"
proof -
  let ?d = PipelineDirectionChar and ?key = "CascadeName (ps @ [n @ x]) t"
  have key: "?key = Join (ps @ [n @ x, t]) ?d"
    using Join_append [of "ps @ [n @ x]" "[t]" ?d] by (simp add: CascadeName_def)
  have pre: "?key = Join (ps @ [n]) ?d @ x @ ?d @ t"
    by (simp add: CascadeName_def Join_extend_last)
  have "Split ?key ?d = ps @ [n @ x, t]" unfolding key using assms(1) by (intro Split_segments) auto
  moreover have "Split (Join (ps @ [n]) ?d) ?d = ps @ [n]" using assms(1) by (intro Split_segments) auto
  moreover have "HasPrefix ?key (Join (ps @ [n]) ?d)" unfolding pre by (simp add: HasPrefix_iff)
  moreover have "?key \<noteq> Join (ps @ [n]) ?d" unfolding pre by (simp add: dir_nonempty)
  ultimately have "below_by (Join (ps @ [n]) ?d) 1 ?key" by (simp add: below_by_exact_lemma)
  with assms(3) show ?thesis by (force simp: NthLevelChildren_def)
qed

theorem sibling_taken_for_child_witness:
  "5 \<in> set (NthLevelChildren [(CascadeName [''ci'', ''dev-eu''] ''build'', 5)] (Join [''ci'', ''dev''] PipelineDirectionChar) 1)"
proof -
  have "\<forall>y \<in> set ([''ci''] @ [''dev'', ''dev'' @ ''-eu'', ''build'']). segment y"
    by (simp add: segment_def Contains_def PipelineDirectionChar_def HasPrefix_def)
  from sibling_taken_for_child [OF this, of 5] show ?thesis by simp
qed

text \<open>the parents of a stage are the table's entries for the proper prefixes of its name, the
  outermost first.\<close>

theorem RecurseParents_prefixes:
  "RecurseParents st key =
     (let parts = Split key PipelineDirectionChar in
      List.map_filter (\<lambda>j. st (Join (take j parts) PipelineDirectionChar)) [1..<length parts])"
proof -
  have r: "rev (List.map_filter g xs) = List.map_filter g (rev xs)" for g :: "nat \<Rightarrow> ref option" and xs
    by (simp add: List.map_filter_def rev_map rev_filter)
  have m: "List.map_filter (\<lambda>i. f (n - i)) xs = List.map_filter f (map ((-) n) xs)" for f :: "nat \<Rightarrow> ref option" and n xs
    by (induction xs) (auto simp: List.map_filter_simps split: option.split)
  have "rev (map ((-) n) [1..<n]) = [1..<n]" for n :: nat
    by (rule nth_equalityI) (auto simp: rev_nth)
  then have "rev (List.map_filter (\<lambda>i. f (n - i)) [1..<n]) = List.map_filter f [1..<n]"
    for f :: "nat \<Rightarrow> ref option" and n
    by (simp only: r m)
  then show ?thesis by (simp add: RecurseParents_def Let_def)
qed

section \<open>The paths of env files\<close>

lemma fold_add_path:
  "fold add_path src dst = dst @ rev (remdups (rev (filter (\<lambda>e. e \<notin> set dst) src)))"
  by (induction src rule: rev_induct) (auto simp: add_path_def)

text \<open>a merge of env files keeps the destination's paths in their order and adds after them each path
  of the source that was missing, once, in the order of their first occurrence.\<close>

theorem envfileMerge_paths:
  "PathValue (merged_envfile merge dst src) =
     PathValue dst @ rev (remdups (rev (filter (\<lambda>e. e \<notin> set (PathValue dst)) (PathValue src))))"
  by (simp add: merged_envfile_def fold_add_path)

end
