(* ===== verification/Flattening.thy ===== *)
theory Flattening
  imports Denormalize
begin

text \<open>
  What the recursions of theory \<open>Denormalize\<close> keep, and that they end. The facts about copying a stage are
  proved once, in the locale \<open>heap_invariant\<close>, for every invariant that the allocations and the changes of
  copies keep; its interpretations are the objects that are left as they were with the names of the
  copies, and the tasks that belong to one copy only.
\<close>

section \<open>Invariants of the flattening\<close>

text \<open>
  What an invariant of the heap has to promise so that copying a stage keeps it: the allocations keep it,
  and so do changes of a copy (an object at or above \<open>N\<close>) that leave its name and its task, the bookkeeping of
  env files, and giving a copy a newly allocated task.
\<close>

definition own_task :: "denorm_params \<Rightarrow> ref \<Rightarrow> ref \<Rightarrow> Task \<Rightarrow> ref option \<Rightarrow> unit dn" where
  "own_task p new orig tsk ef =
     op_bind (make_task tsk ef) (\<lambda>r. op_bind (EnvFile orig) (\<lambda>oe.
       op_then (envfileMerge p ef oe) (upd_stage new (\<lambda>_ s. s\<lparr>sTask := Some r\<rparr>))))"

locale heap_invariant =
  fixes I :: "heap \<Rightarrow> bool" and E :: "denorm_error \<Rightarrow> bool" and N :: ref
  assumes nil: "E DnNil"
    and make_envfile: "valid I E make_envfile (\<lambda>_. I)"
    and make_graph: "valid I E (make_graph n) (\<lambda>r h. I h \<and> N \<le> r)"
    and upd_graph: "N \<le> r \<Longrightarrow> valid I E (upd_graph r g) (\<lambda>_. I)"
    and upd_envfile: "valid I E (upd_stage r (\<lambda>_ s. WithEnvFile s e)) (\<lambda>_. I)"
    and merge_envfile: "valid I E (envfileMerge p d src) (\<lambda>_. I)"
    and upd_copy: "N \<le> r \<Longrightarrow> (\<And>h s. sName (f h s) = sName s \<and> sTask (f h s) = sTask s) \<Longrightarrow>
      valid I E (upd_stage r f) (\<lambda>_. I)"
    and give_task: "N \<le> r \<Longrightarrow> valid I E (own_task p r orig tsk ef) (\<lambda>_. I)"
begin

lemma envfile: "valid I E (EnvFile r) (\<lambda>_. I)"
  unfolding EnvFile_def
  by (intro valid_inv_get valid_case_option valid_inv_seq [OF make_envfile] valid_inv_then upd_envfile valid_inv_return)

lemma from_stage_task: "N \<le> new \<Longrightarrow> valid I E (from_task p new orig gr ps t) (\<lambda>_. I)"
  unfolding from_task_def own_task_def [symmetric]
  by (rule valid_inv_get) (simp add: give_task)

lemma from_stage_pipeline:
  assumes "N \<le> new"
  shows "valid I E (from_pipeline p new orig gr ps q) (\<lambda>_. I)"
proof -
  have ef: "valid I E (case e of Some e \<Rightarrow> op_return e | None \<Rightarrow> make_envfile) (\<lambda>_. I)" for e
    by (intro valid_case_option make_envfile valid_inv_return)
  show ?thesis
    unfolding from_pipeline_def
    by (rule valid_inv_get, simp only: prod.case)
      (intro valid_inv_bind [OF make_graph] valid_inv_then upd_graph valid_inv_seq [OF envfile] merge_envfile
        valid_inv_seq [OF ef] upd_copy assms; simp)
qed

lemma from_stage:
  assumes "N \<le> new"
  shows "valid I E (FromStage p new orig gr ps) (\<lambda>_. I)"
proof -
  have base: "valid I E (upd_stage new (\<lambda>h. stage_base (hGraphs h gr) (hStages h orig))) (\<lambda>_. I)"
    and last: "valid I E (upd_stage new (\<lambda>_ s. (WithEnvFile s (Some oe))\<lparr>sDependsOn := ds\<rparr>)) (\<lambda>_. I)" for oe ds
    using assms by (intro upd_copy; simp add: stage_base_def WithEnvFile_def)+
  show ?thesis
    unfolding FromStage_def
    by (intro valid_inv_then base last valid_inv_get valid_case_option from_stage_task from_stage_pipeline
        valid_inv_seq [OF envfile] valid_inv_return assms)
qed

end


subsection \<open>The objects below the bound\<close>

definition frozen :: "(Stage \<Rightarrow> 'b) \<Rightarrow> ref \<Rightarrow> heap \<Rightarrow> heap \<Rightarrow> bool" where
  "frozen f N h0 h \<longleftrightarrow> N \<le> hNext h \<and>
     (\<forall>x < N. hGraphs h x = hGraphs h0 x \<and> f (hStages h x) = f (hStages h0 x))"

text \<open>The names of the copies in the table, and of the copies that are under way.\<close>

definition named :: "ref \<Rightarrow> (ref \<times> string) set \<Rightarrow> heap \<Rightarrow> bool" where
  "named N tr h \<longleftrightarrow> N \<le> hNext h \<and>
     (\<forall>rk \<in> tr \<union> {(r, k). hTable h k = Some r}.
        N \<le> fst rk \<and> fst rk < hNext h \<and> sName (hStages h (fst rk)) = snd rk)"

lemmas make_defs = make_envfile_def make_stage_def make_graph_def make_task_def op_bind_def put_stage_def

lemmas step_defs = upd_stage_def upd_graph_def envfileMerge_def op_modify_def put_stage_def op_throw_def

lemma valid_own_task:
  assumes "valid I E (make_task tsk ef) (\<lambda>_. I)" and "valid I E (EnvFile orig) (\<lambda>_. I)"
    and "\<And>d s. valid I E (envfileMerge p d s) (\<lambda>_. I)" and "\<And>t. valid I E (upd_stage r (\<lambda>_ s. s\<lparr>sTask := t\<rparr>)) (\<lambda>_. I)"
  shows "valid I E (own_task p r orig tsk ef) (\<lambda>_. I)"
  unfolding own_task_def by (intro valid_inv_seq [OF assms(1)] valid_inv_seq [OF assms(2)] valid_inv_then assms)

lemma frozen_make_task: "valid (frozen f N h0) E (make_task t e) (\<lambda>_. frozen f N h0)"
  by (auto simp: valid_def frozen_def make_defs)

lemma frozen_make_envfile: "valid (frozen f N h0) E make_envfile (\<lambda>_. frozen f N h0)"
  by (auto simp: valid_def frozen_def make_defs)

lemma frozen_make_graph: "valid (frozen f N h0) E (make_graph n) (\<lambda>r h. frozen f N h0 h \<and> N \<le> r)"
  by (auto simp: valid_def frozen_def make_defs)

lemma frozen_make_stage: "valid (frozen f N h0) E (make_stage n) (\<lambda>r h. frozen f N h0 h \<and> N \<le> r)"
  by (auto simp: valid_def frozen_def make_defs)

lemma frozen_upd_stage:
  "N \<le> r \<or> (\<forall>h s. f (g h s) = f s) \<Longrightarrow> valid (frozen f N h0) E (upd_stage r g) (\<lambda>_. frozen f N h0)"
  by (auto simp: valid_def frozen_def step_defs)

lemma frozen_merge: "E DnNil \<Longrightarrow> valid (frozen f N h0) E (envfileMerge p d s) (\<lambda>_. frozen f N h0)"
  by (auto simp: valid_def frozen_def step_defs split: option.split)

text \<open>The parts of a stage that the bookkeeping of env files does not touch.\<close>

definition envfile_free :: "(Stage \<Rightarrow> 'b) \<Rightarrow> bool" where
  "envfile_free f \<longleftrightarrow> (\<forall>s e. f (WithEnvFile s e) = f s)"

lemma frozen_EnvFile: "envfile_free f \<Longrightarrow> valid (frozen f N h0) E (EnvFile r) (\<lambda>_. frozen f N h0)"
  unfolding EnvFile_def
  by (intro valid_inv_get valid_case_option valid_inv_seq [OF frozen_make_envfile] valid_inv_then frozen_upd_stage
      valid_inv_return) (simp add: envfile_free_def)

lemma frozen_invariant:
  assumes "E DnNil" and "envfile_free f"
  shows "heap_invariant (frozen f N h0) E N"
proof
  show "valid (frozen f N h0) E (own_task p r orig tsk ef) (\<lambda>_. frozen f N h0)" if "N \<le> r" for p r orig tsk ef
    using that by (intro valid_own_task frozen_make_task frozen_EnvFile frozen_merge frozen_upd_stage assms disjI1)
  show "valid (frozen f N h0) E (upd_graph r g) (\<lambda>_. frozen f N h0)" if "N \<le> r" for r g
    using that by (auto simp: valid_def frozen_def step_defs)
qed (use assms in \<open>auto intro: frozen_make_envfile frozen_make_graph frozen_upd_stage frozen_merge simp: envfile_free_def\<close>)

lemma named_step:
  assumes "named N tr h" and "hTable h' = hTable h" and "hNext h \<le> hNext h'"
    and "\<And>x. x < hNext h \<Longrightarrow> sName (hStages h' x) = sName (hStages h x)"
  shows "named N tr h'"
  unfolding named_def assms(2)
proof (intro conjI ballI)
  show "N \<le> hNext h'" using assms(1,3) by (simp add: named_def)
  fix rk assume rk: "rk \<in> tr \<union> {(r, k). hTable h k = Some r}"
  from assms(1) have "\<forall>rk \<in> tr \<union> {(r, k). hTable h k = Some r}.
      N \<le> fst rk \<and> fst rk < hNext h \<and> sName (hStages h (fst rk)) = snd rk"
    unfolding named_def by (rule conjunct2)
  from bspec [OF this rk] assms(3) assms(4) [of "fst rk"]
  show "N \<le> fst rk" "fst rk < hNext h'" "sName (hStages h' (fst rk)) = snd rk" by auto
qed

lemma named_upd_stage:
  assumes "\<And>h s. sName (g h s) = sName s"
  shows "valid (named N tr) E (upd_stage r g) (\<lambda>_. named N tr)"
proof -
  have "named N tr h \<Longrightarrow> named N tr (put_stage r (g h (hStages h r)) h)" for h
    by (rule named_step, assumption) (simp_all add: put_stage_def assms)
  then show ?thesis by (simp add: valid_def upd_stage_def op_modify_def)
qed

lemma named_make_envfile: "valid (named N tr) E make_envfile (\<lambda>_. named N tr)"
  by (auto simp: valid_def make_defs intro: named_step)

lemma named_make_task: "valid (named N tr) E (make_task t e) (\<lambda>_. named N tr)"
  by (auto simp: valid_def make_defs intro: named_step)

lemma named_make_graph: "valid (named N tr) E (make_graph n) (\<lambda>r h. named N tr h \<and> N \<le> r)"
proof -
  have "named N tr h \<Longrightarrow> N \<le> hNext h" for h by (simp add: named_def)
  then show ?thesis by (fastforce simp: valid_def make_defs intro: named_step)
qed

lemma named_merge: "E DnNil \<Longrightarrow> valid (named N tr) E (envfileMerge p d s) (\<lambda>_. named N tr)"
  by (auto simp: valid_def step_defs split: option.split intro: named_step)

lemma named_EnvFile: "valid (named N tr) E (EnvFile r) (\<lambda>_. named N tr)"
  unfolding EnvFile_def
  by (intro valid_inv_get valid_case_option valid_inv_seq [OF named_make_envfile] valid_inv_then named_upd_stage
      valid_inv_return) (simp add: WithEnvFile_def)

lemma named_invariant:
  assumes "E DnNil"
  shows "heap_invariant (named N tr) E N"
proof
  show "valid (named N tr) E (own_task p r orig tsk ef) (\<lambda>_. named N tr)" for p r orig tsk ef
    by (intro valid_own_task named_make_task named_EnvFile named_merge named_upd_stage assms) simp
  show "valid (named N tr) E (upd_graph r g) (\<lambda>_. named N tr)" for r g
    by (auto simp: valid_def step_defs intro: named_step)
qed (use assms in \<open>auto intro: named_make_envfile named_make_graph named_upd_stage named_merge simp: WithEnvFile_def\<close>)

lemma invariant_conj:
  assumes "heap_invariant I E N" and "heap_invariant J E N"
  shows "heap_invariant (\<lambda>h. I h \<and> J h) E N"
proof -
  note i = heap_invariant.nil [OF assms(1)] heap_invariant.make_envfile [OF assms(1)] heap_invariant.make_graph [OF assms(1)]
    heap_invariant.upd_graph [OF assms(1)] heap_invariant.upd_envfile [OF assms(1)] heap_invariant.merge_envfile [OF assms(1)]
    heap_invariant.upd_copy [OF assms(1)] heap_invariant.give_task [OF assms(1)]
  note j = heap_invariant.make_envfile [OF assms(2)] heap_invariant.make_graph [OF assms(2)]
    heap_invariant.upd_graph [OF assms(2)] heap_invariant.upd_envfile [OF assms(2)] heap_invariant.merge_envfile [OF assms(2)]
    heap_invariant.upd_copy [OF assms(2)] heap_invariant.give_task [OF assms(2)]
  show ?thesis
  proof
    show "E DnNil" by (rule i(1))
    show "valid (\<lambda>h. I h \<and> J h) E make_envfile (\<lambda>_ h. I h \<and> J h)" by (rule valid_conj [OF i(2) j(1)])
    show "valid (\<lambda>h. I h \<and> J h) E (make_graph n) (\<lambda>r h. (I h \<and> J h) \<and> N \<le> r)" for n
      by (rule valid_weaken [OF valid_conj [OF i(3) j(2)]]) auto
    show "valid (\<lambda>h. I h \<and> J h) E (upd_graph r g) (\<lambda>_ h. I h \<and> J h)" if "N \<le> r" for r g
      by (rule valid_conj [OF i(4) j(3)]) (rule that)+
    show "valid (\<lambda>h. I h \<and> J h) E (upd_stage r (\<lambda>_ s. WithEnvFile s e)) (\<lambda>_ h. I h \<and> J h)" for r e
      by (rule valid_conj [OF i(5) j(4)])
    show "valid (\<lambda>h. I h \<and> J h) E (envfileMerge p d s) (\<lambda>_ h. I h \<and> J h)" for p d s
      by (rule valid_conj [OF i(6) j(5)])
    show "valid (\<lambda>h. I h \<and> J h) E (upd_stage r f) (\<lambda>_ h. I h \<and> J h)"
      if "N \<le> r" "\<And>h s. sName (f h s) = sName s \<and> sTask (f h s) = sTask s" for r f
      by (rule valid_conj [OF i(7) j(6)]) (rule that)+
    show "valid (\<lambda>h. I h \<and> J h) E (own_task p r orig tsk ef) (\<lambda>_ h. I h \<and> J h)" if "N \<le> r" for p r orig tsk ef
      by (rule valid_conj [OF i(8) j(7)]) (rule that)+
  qed
qed

section \<open>Flattening ends\<close>

text \<open>What a pipeline reads of its stages on the way down, with what is copied of them for the schedule.\<close>

definition fixed :: "Stage \<Rightarrow> string \<times> status \<times> string \<times> bool \<times> string list" where
  "fixed s = (sName s, sStatus s, sCondition s, sAllowFailure s, sDependsOn s)"

definition way :: "Stage \<Rightarrow> ref option \<times> string \<times> status \<times> string \<times> bool \<times> string list" where
  "way s = (sPipeline s, fixed s)"

lemma way_envfile_free: "envfile_free way" "envfile_free sPipeline"
  by (simp_all add: envfile_free_def way_def fixed_def WithEnvFile_def)

lemma fixed_eq: "fixed s = fixed t \<longleftrightarrow> sName s = sName t \<and> sStatus s = sStatus t \<and> sCondition s = sCondition t \<and>
    sAllowFailure s = sAllowFailure t \<and> sDependsOn s = sDependsOn t"
  by (simp add: fixed_def)

lemma way_eq: "way s = way t \<longleftrightarrow> sPipeline s = sPipeline t \<and> fixed s = fixed t"
  by (simp add: way_def)

abbreviation kept :: "ref \<Rightarrow> heap \<Rightarrow> (ref \<times> string) set \<Rightarrow> heap \<Rightarrow> bool" where
  "kept N h0 tr \<equiv> \<lambda>h. frozen way N h0 h \<and> named N tr h"

abbreviation no_fuel :: "denorm_error \<Rightarrow> bool" where
  "no_fuel \<equiv> \<lambda>e. e \<noteq> DnFuel"

interpretation kp: heap_invariant "kept N h0 tr" no_fuel N for N h0 tr
  by (rule invariant_conj [OF frozen_invariant named_invariant]) (simp_all add: way_envfile_free)

lemma kept_make_stage:
  assumes "\<And>r. N \<le> r \<Longrightarrow> valid (kept N h0 (insert (r, n) tr)) E (k r) (\<lambda>_. kept N h0 (insert (r, n) tr))"
  shows "valid (kept N h0 tr) E (op_bind (make_stage n) k) (\<lambda>_. kept N h0 tr)"
proof (rule valid_bind)
  show "valid (kept N h0 tr) E (make_stage n) (\<lambda>r h. kept N h0 (insert (r, n) tr) h \<and> N \<le> r)"
  proof (rule valid_total)
    fix h assume k: "kept N h0 tr h"
    obtain r h' where m: "make_stage n h = (Inr r, h')" by (simp add: make_defs)
    then have r: "r = Suc (hNext h)" "hNext h' = Suc (Suc (hNext h))" "hTable h' = hTable h" "sName (hStages h' r) = n"
      "\<And>x. x < hNext h \<Longrightarrow> hStages h' x = hStages h x" "hGraphs h' = hGraphs h"
      by (auto simp: make_defs)
    from k have "named N tr h" ..
    then have n: "named N tr h'" by (rule named_step) (simp_all add: r(2,3,5))
    have N: "N \<le> hNext h" using k by (simp add: frozen_def)
    from n N r(1,2,4) have "named N (insert (r, n) tr) h'" by (simp add: named_def)
    moreover have "frozen way N h0 h'" using k N by (simp add: frozen_def r(2,5,6))
    ultimately show "\<exists>v s'. make_stage n h = (Inr v, s') \<and> kept N h0 (insert (v, n) tr) s' \<and> N \<le> v"
      using m N r(1) by auto
  qed
  show "valid (\<lambda>h. kept N h0 (insert (r, n) tr) h \<and> N \<le> r) E (k r) (\<lambda>_. kept N h0 tr)" for r
  proof (cases "N \<le> r")
    case True
    show ?thesis by (rule valid_weaken [OF assms [OF True]]) (simp_all add: named_def)
  qed (simp add: valid_def)
qed

lemma kept_table:
  assumes "(c, k) \<in> tr"
  shows "valid (kept N h0 tr) E (op_modify (\<lambda>h. h\<lparr>hTable := (hTable h)(k \<mapsto> c)\<rparr>)) (\<lambda>_. kept N h0 tr)"
proof (rule valid_modify)
  fix h assume h: "kept N h0 tr h"
  then have "named N tr (h\<lparr>hTable := (hTable h)(k \<mapsto> c)\<rparr>)"
    using assms by (auto simp: named_def split: if_splits)
  with h show "kept N h0 tr (h\<lparr>hTable := (hTable h)(k \<mapsto> c)\<rparr>)" by (simp add: frozen_def)
qed

text \<open>A pipeline that no stage passes over: when it has two nodes, none of them runs a pipeline.\<close>

definition not_passed_over :: "denorm_params \<Rightarrow> heap \<Rightarrow> ref \<Rightarrow> ref \<Rightarrow> bool" where
  "not_passed_over p h N q \<longleftrightarrow>
     (length (node_refs p (hGraphs h q)) = 2 \<longrightarrow>
       (\<forall>x \<in> set (node_refs p (hGraphs h q)). x < N \<and> (sName (hStages h x) = RootNodeName \<or> sPipeline (hStages h x) = None)))"

text \<open>
  Levels that fall from a node to its children, and from a node that runs a pipeline to all nodes of that
  pipeline: there is such a numbering when the graphs are acyclic and no pipeline is nested in itself.
\<close>

definition levelled :: "denorm_params \<Rightarrow> heap \<Rightarrow> ref \<Rightarrow> ref set \<Rightarrow> (ref \<Rightarrow> string \<Rightarrow> nat) \<Rightarrow> bool" where
  "levelled p h N G lev \<longleftrightarrow> (\<forall>g \<in> G. g < N \<and> (\<forall>n.
     (\<forall>c \<in> set (dp_children p (hGraphs h g) n). \<forall>r. gNodes (hGraphs h g) c = Some r \<longrightarrow>
        r < N \<and> sName (hStages h r) = c \<and> lev g c < lev g n) \<and>
     (n \<noteq> RootNodeName \<longrightarrow> (\<forall>r. gNodes (hGraphs h g) n = Some r \<longrightarrow> r < N \<and>
        (\<forall>q. sPipeline (hStages h r) = Some q \<longrightarrow> q \<in> G \<and> not_passed_over p h N q \<and>
          (\<forall>m \<in> set (dp_nodes p (hGraphs h q)). lev q m < lev g n))))))"

lemma kept_peek_loop:
  assumes "\<forall>x \<in> set xs. x < N \<and> (sName (hStages h0 x) = RootNodeName \<or> sPipeline (hStages h0 x) = None)"
  shows "valid (kept N h0 tr) E (peek_loop xs cloned orig) (\<lambda>o' h. kept N h0 tr h \<and> o' = orig)"
  using assms
proof (induction xs)
  case Nil
  then show ?case by (simp add: valid_def op_simps)
next
  case (Cons x xs)
  show ?case
    unfolding peek_loop.simps
  proof (rule valid_inv_get)
    fix h assume "kept N h0 tr h"
    then have "way (hStages h x) = way (hStages h0 x)" using Cons.prems by (simp add: frozen_def)
    with Cons.prems have skip: "sName (hStages h x) = RootNodeName \<or> sPipeline (hStages h x) = None"
      by (simp add: way_eq fixed_eq)
    show "valid (kept N h0 tr) E (if sName (hStages h x) = RootNodeName \<or> sPipeline (hStages h x) = None
        then peek_loop xs cloned orig else op_then (pass_over x cloned orig) (peek_loop xs cloned x))
        (\<lambda>o' h. kept N h0 tr h \<and> o' = orig)"
      unfolding if_P [OF skip] using Cons by simp
  qed
qed

lemma kept_graphClone:
  assumes "not_passed_over p h0 N q" and "q < N"
  shows "valid (kept N h0 tr) no_fuel (graphClone p q orig cloned name) (\<lambda>v h. kept N h0 tr h \<and> snd v = orig)"
  unfolding graphClone_def
proof (rule valid_inv_bind [OF kp.make_graph], rule valid_inv_get)
  fix sub h assume "kept N h0 tr h"
  with assms(2) have g: "hGraphs h q = hGraphs h0 q" by (simp add: frozen_def)
  have "valid (kept N h0 tr) no_fuel (if length (node_refs p (hGraphs h q)) = 2
      then peek_loop (node_refs p (hGraphs h q)) cloned orig else op_return orig) (\<lambda>o' h. kept N h0 tr h \<and> o' = orig)"
  proof (cases "length (node_refs p (hGraphs h q)) = 2")
    case True
    with assms(1) have "\<forall>x \<in> set (node_refs p (hGraphs h q)). x < N \<and>
        (sName (hStages h0 x) = RootNodeName \<or> sPipeline (hStages h0 x) = None)"
      by (simp add: g not_passed_over_def)
    then show ?thesis unfolding if_P [OF True] by (rule kept_peek_loop)
  qed (simp add: valid_return)
  then show "valid (kept N h0 tr) no_fuel (op_bind (if length (node_refs p (hGraphs h q)) = 2
      then peek_loop (node_refs p (hGraphs h q)) cloned orig else op_return orig) (\<lambda>orig. op_return (sub, orig)))
      (\<lambda>v h. kept N h0 tr h \<and> snd v = orig)"
    by (rule valid_inv_bind) (simp add: valid_return)
qed

lemma kept_flatten_nested:
  assumes "not_passed_over p h0 N q" and "q < N" and "orig < N" and "N \<le> cloned"
    and "sPipeline (hStages h0 orig) = Some q"
    and "\<And>n ps. n \<in> set (dp_nodes p (hGraphs h0 q)) \<Longrightarrow> valid (kept N h0 tr) no_fuel (rec q n ps) (\<lambda>_. kept N h0 tr)"
  shows "valid (kept N h0 tr) no_fuel (flatten_nested p rec orig cloned name ps q) (\<lambda>_. kept N h0 tr)"
  unfolding flatten_nested_def
proof (rule valid_inv_bind [OF kept_graphClone [OF assms(1,2)]], clarsimp, rule valid_inv_get)
  fix a h assume "kept N h0 tr h"
  with assms(3) have "way (hStages h orig) = way (hStages h0 orig)" by (simp add: frozen_def)
  with assms(5) have q: "sPipeline (hStages h orig) = Some q" by (simp add: way_eq)
  show "valid (kept N h0 tr) no_fuel (case sPipeline (hStages h orig) of None \<Rightarrow> op_throw DnNil
     | Some q \<Rightarrow> op_then (op_bind (op_get (\<lambda>h. dp_nodes p (hGraphs h q))) (\<lambda>ns.
           op_for ns (\<lambda>n. op_bind (op_get (\<lambda>h. sName (hStages h orig))) (\<lambda>nm. rec q n (ps @ [nm])))))
         (upd_stage cloned (\<lambda>_ s. s\<lparr>sPipeline := Some a\<rparr>))) (\<lambda>_. kept N h0 tr)"
    unfolding q option.case
  proof (intro valid_inv_then valid_inv_get valid_for kp.upd_copy assms(4))
    fix h n h' assume "kept N h0 tr h" and n: "n \<in> set (dp_nodes p (hGraphs h q))"
    with assms(2) have "n \<in> set (dp_nodes p (hGraphs h0 q))" by (simp add: frozen_def)
    then show "valid (kept N h0 tr) no_fuel (rec q n (ps @ [sName (hStages h' orig)])) (\<lambda>_. kept N h0 tr)"
      by (rule assms(6))
  qed simp
qed

lemma Flatten_kept:
  assumes "levelled p h0 N G lev"
  shows "g \<in> G \<Longrightarrow> lev g n < k \<Longrightarrow> valid (kept N h0 tr) no_fuel (Flatten p k g n ps) (\<lambda>_. kept N h0 tr)"
proof (induction k arbitrary: g n ps tr)
  case 0
  then show ?case by simp
next
  case (Suc k)
  have gN: "g < N" using assms Suc.prems(1) by (simp add: levelled_def)
  have child: "r < N \<and> sName (hStages h0 r) = c \<and> lev g c < lev g n"
    if "c \<in> set (dp_children p (hGraphs h0 g) n)" "gNodes (hGraphs h0 g) c = Some r" for c r
    using assms Suc.prems(1) that unfolding levelled_def by blast
  have nested: "r < N \<and> (\<forall>q. sPipeline (hStages h0 r) = Some q \<longrightarrow> q \<in> G \<and> not_passed_over p h0 N q \<and>
      (\<forall>m \<in> set (dp_nodes p (hGraphs h0 q)). lev q m < lev g n))"
    if "n \<noteq> RootNodeName" "gNodes (hGraphs h0 g) n = Some r" for r
    using assms Suc.prems(1) that unfolding levelled_def by blast
  have node: "valid (kept N h0 tr) no_fuel (flatten_node p (Flatten p k) g n ps) (\<lambda>_. kept N h0 tr)" if nr: "n \<noteq> RootNodeName"
    unfolding flatten_node_def
  proof (rule valid_inv_get, rule kept_make_stage, rule valid_case_option)
    fix h assume h: "kept N h0 tr h"
    fix cloned assume c: "N \<le> cloned"
    let ?tr = "insert (cloned, CascadeName ps n) tr"
    show "valid (kept N h0 ?tr) no_fuel (op_throw DnNil) (\<lambda>_. kept N h0 ?tr)" by (rule valid_throw) simp
    fix orig assume "gNodes (hGraphs h g) n = Some orig"
    with h gN have "gNodes (hGraphs h0 g) n = Some orig" by (simp add: frozen_def)
    note o = nested [OF nr this]
    show "valid (kept N h0 ?tr) no_fuel (op_then (FromStage p cloned orig g ps)
        (op_then (op_modify (\<lambda>h. h\<lparr>hTable := (hTable h)(CascadeName ps n \<mapsto> cloned)\<rparr>))
        (op_bind (op_get (\<lambda>h. sPipeline (hStages h orig))) (\<lambda>q. case q of None \<Rightarrow> op_return ()
          | Some q \<Rightarrow> flatten_nested p (Flatten p k) orig cloned (CascadeName ps n) ps q)))) (\<lambda>_. kept N h0 ?tr)"
    proof (intro valid_inv_then kp.from_stage c kept_table valid_inv_get valid_case_option valid_inv_return)
      fix h2 q assume h2: "kept N h0 ?tr h2" and q: "sPipeline (hStages h2 orig) = Some q"
      from h2 o have "way (hStages h2 orig) = way (hStages h0 orig)" by (simp add: frozen_def)
      with q have q0: "sPipeline (hStages h0 orig) = Some q" by (simp add: way_eq)
      with o have qG: "q \<in> G" "not_passed_over p h0 N q"
        "\<forall>m \<in> set (dp_nodes p (hGraphs h0 q)). lev q m < lev g n" by auto
      have qN: "q < N" using assms qG(1) by (simp add: levelled_def)
      show "valid (kept N h0 ?tr) no_fuel (flatten_nested p (Flatten p k) orig cloned (CascadeName ps n) ps q) (\<lambda>_. kept N h0 ?tr)"
      proof (rule kept_flatten_nested [OF qG(2) qN _ c q0])
        show "orig < N" using o by simp
        fix m ps' assume "m \<in> set (dp_nodes p (hGraphs h0 q))"
        with qG(3) Suc.prems(2) have "lev q m < k" by fastforce
        with qG(1) show "valid (kept N h0 ?tr) no_fuel (Flatten p k q m ps') (\<lambda>_. kept N h0 ?tr)" by (rule Suc.IH)
      qed
    qed simp
  qed
  show ?case
    unfolding Flatten.simps
  proof (intro valid_inv_then valid_inv_get valid_for valid_case_option)
    show "valid (kept N h0 tr) no_fuel (if n = RootNodeName then op_return () else flatten_node p (Flatten p k) g n ps)
        (\<lambda>_. kept N h0 tr)"
      using node by (simp add: valid_inv_return)
    fix h c assume h: "kept N h0 tr h" and c: "c \<in> set (map (gNodes (hGraphs h g)) (dp_children p (hGraphs h g) n))"
    show "valid (kept N h0 tr) no_fuel (op_throw DnNil) (\<lambda>_. kept N h0 tr)" by (rule valid_throw) simp
    fix r h2 assume r: "c = Some r" and h2: "kept N h0 tr h2"
    from h gN have "hGraphs h g = hGraphs h0 g" by (simp add: frozen_def)
    with c r obtain nm where nm: "nm \<in> set (dp_children p (hGraphs h0 g) n)" "gNodes (hGraphs h0 g) nm = Some r" by auto
    note ch = child [OF nm]
    with h2 have "way (hStages h2 r) = way (hStages h0 r)" by (simp add: frozen_def)
    with ch have "sName (hStages h2 r) = nm" by (simp add: way_eq fixed_eq)
    moreover have "lev g nm < k" using ch Suc.prems(2) by simp
    ultimately show "valid (kept N h0 tr) no_fuel (Flatten p k g (sName (hStages h2 r)) ps) (\<lambda>_. kept N h0 tr)"
      using Suc.IH [OF Suc.prems(1)] by simp
  qed
qed

section \<open>What the merges of rebuilding keep\<close>

text \<open>
  An invariant that the bookkeeping of env files and the changes of tasks keep, and the changes of a stage
  that leave what the schedule reads: the merges into a stage keep it.
\<close>

locale rebuild_invariant =
  fixes I :: "heap \<Rightarrow> bool" and E :: "denorm_error \<Rightarrow> bool"
  assumes nil: "E DnNil"
    and upd_stage: "(\<And>h s. fixed (f h s) = fixed s) \<Longrightarrow> valid I E (upd_stage r f) (\<lambda>_. I)"
    and upd_task: "valid I E (upd_task t g) (\<lambda>_. I)"
    and make_envfile: "valid I E make_envfile (\<lambda>_. I)"
    and merge_envfile: "valid I E (envfileMerge p d src) (\<lambda>_. I)"
begin

lemma envfile: "valid I E (EnvFile r) (\<lambda>_. I)"
  unfolding EnvFile_def
  by (intro valid_inv_get valid_case_option valid_inv_seq [OF make_envfile] valid_inv_then upd_stage
      valid_inv_return) (simp add: WithEnvFile_def fixed_def)

lemma merge_parent: "valid I E (merge_parent p r v) (\<lambda>_. I)"
  unfolding merge_parent_def
  by (intro valid_inv_then upd_stage valid_inv_get valid_inv_seq [OF envfile] merge_envfile) (simp_all add: fixed_def)

lemma merge_own_task: "valid I E (merge_own_task p r t) (\<lambda>_. I)"
  unfolding merge_own_task_def
  by (intro valid_inv_then upd_stage upd_task valid_inv_get valid_inv_seq [OF envfile] merge_envfile)
    (simp_all add: fixed_def)

lemma merge_stage: "valid I E (merge_stage p r) (\<lambda>_. I)"
  unfolding merge_stage_def
  by (intro valid_inv_get valid_inv_then valid_for merge_parent valid_case_option valid_inv_return merge_own_task)

end

section \<open>Rebuilding ends\<close>

text \<open>The table does not change, and its stages keep their names.\<close>

definition listed :: "denorm_params \<Rightarrow> (string \<rightharpoonup> ref) \<Rightarrow> heap \<Rightarrow> bool" where
  "listed p T h \<longleftrightarrow> hTable h = T \<and>
     (\<forall>kr \<in> set (dp_table p T). snd kr < hNext h \<and> sName (hStages h (snd kr)) = fst kr)"

lemma listed_step:
  assumes "listed p T h" and "hTable h' = hTable h" and "hNext h \<le> hNext h'"
    and "\<And>x. x < hNext h \<Longrightarrow> sName (hStages h' x) = sName (hStages h x)"
  shows "listed p T h'"
  using assms by (fastforce simp: listed_def)

lemma listed_upd_stage:
  assumes "\<And>h s. sName (g h s) = sName s"
  shows "valid (listed p T) E (upd_stage r g) (\<lambda>_. listed p T)"
proof -
  have "listed p T h \<Longrightarrow> listed p T (put_stage r (g h (hStages h r)) h)" for h
    by (rule listed_step, assumption) (simp_all add: put_stage_def assms)
  then show ?thesis by (simp add: valid_def upd_stage_def op_modify_def)
qed

lemma listed_upd_task: "valid (listed p T) E (upd_task r g) (\<lambda>_. listed p T)"
  by (auto simp: valid_def upd_task_def op_modify_def intro: listed_step)

lemma listed_make_envfile: "valid (listed p T) E make_envfile (\<lambda>_. listed p T)"
  by (auto simp: valid_def make_defs intro: listed_step)

lemma listed_make_graph: "valid (listed p T) E (make_graph n) (\<lambda>r h. listed p T h \<and> gName (hGraphs h r) = n)"
  by (auto simp: valid_def make_defs empty_graph_def intro: listed_step)

lemma listed_merge: "E DnNil \<Longrightarrow> valid (listed p T) E (envfileMerge p' d s) (\<lambda>_. listed p T)"
  by (auto simp: valid_def step_defs split: option.split intro: listed_step)

interpretation ls: rebuild_invariant "listed p T" no_fuel for p T
proof
  show "valid (listed p T) no_fuel (upd_stage r f) (\<lambda>_. listed p T)"
    if "\<And>h s. fixed (f h s) = fixed s" for p T r f
    using that by (intro listed_upd_stage) (simp add: fixed_eq)
qed (simp_all add: listed_upd_task listed_make_envfile listed_merge)

lemma listed_add_stage: "(\<And>e. E (DnGraph e)) \<Longrightarrow> valid (listed p T) E (add_stage gr r) (\<lambda>_. listed p T)"
  by (auto simp: valid_def add_stage_def split: sum.split intro: listed_step)

definition segments :: "string \<Rightarrow> nat" where
  "segments k = length (Split k PipelineDirectionChar)"

lemma rebuild_listed:
  assumes "\<forall>kr \<in> set (dp_table p T). segments (fst kr) \<le> D"
  shows "D < segments nm + m \<Longrightarrow> 0 < m \<Longrightarrow>
    valid (\<lambda>h. listed p T h \<and> gName (hGraphs h gr) = nm) no_fuel (rebuildFromDenormalized p m gr) (\<lambda>_. listed p T)"
proof (induction m arbitrary: nm gr)
  case 0
  then show ?case by simp
next
  case (Suc m)
  let ?sts = "NthLevelChildren (dp_table p T) nm 1"
  have stage: "valid (listed p T) no_fuel (rebuild_stage p (rebuildFromDenormalized p m) gr r) (\<lambda>_. listed p T)"
    if "r \<in> set ?sts" for r
  proof -
    from that obtain k where k: "(k, r) \<in> set (dp_table p T)" "below_by nm 1 k" by (auto simp: NthLevelChildren_def)
    from k(2) have "segments k = Suc (segments nm)" by (simp add: below_by_exact_lemma segments_def)
    moreover from assms k(1) have "segments k \<le> D" by fastforce
    ultimately have m: "D < segments k + m" "0 < m" using Suc.prems by simp_all
    show ?thesis
      unfolding rebuild_stage_def
    proof (rule valid_inv_get, intro valid_inv_then ls.merge_stage listed_add_stage)
      fix h assume "listed p T h"
      with k(1) have nm: "sName (hStages h r) = k" by (fastforce simp: listed_def)
      show "valid (listed p T) no_fuel (if sPipeline (hStages h r) = None then op_return ()
          else op_bind (make_graph (sName (hStages h r))) (\<lambda>ng. op_then (rebuildFromDenormalized p m ng)
            (upd_stage r (\<lambda>_ s. s\<lparr>sPipeline := Some ng\<rparr>)))) (\<lambda>_. listed p T)"
        unfolding nm
        by (auto intro!: valid_inv_return valid_bind [OF listed_make_graph] valid_then [OF Suc.IH [OF m]] listed_upd_stage)
    qed simp_all
  qed
  show ?case
    unfolding rebuildFromDenormalized.simps
  proof (rule valid_get_bind)
    fix v
    show "valid (\<lambda>h. (listed p T h \<and> gName (hGraphs h gr) = nm) \<and>
        v = NthLevelChildren (dp_table p (hTable h)) (gName (hGraphs h gr)) 1) no_fuel
        (op_for v (rebuild_stage p (rebuildFromDenormalized p m) gr)) (\<lambda>_. listed p T)"
    proof (cases "v = ?sts")
      case True
      show ?thesis unfolding True
        by (rule valid_weaken [OF valid_for [OF stage]]) simp_all
    next
      case False
      then show ?thesis by (auto simp: valid_def listed_def)
    qed
  qed
qed


section \<open>A pipeline that is nested in itself\<close>

abbreviation any_error :: "denorm_error \<Rightarrow> bool" where
  "any_error \<equiv> \<lambda>_. True"

interpretation fz: heap_invariant "frozen sPipeline N h0" any_error N for N h0
  by (rule frozen_invariant) (simp_all add: way_envfile_free)

lemma frozen_pass_over: "valid (frozen sPipeline N h0) any_error (pass_over peek c o1) (\<lambda>_. frozen sPipeline N h0)"
  unfolding pass_over_def
  by (intro valid_inv_then frozen_upd_stage disjI2) (simp_all add: WithEnv_def WithVariables_def WithEnvFile_def)

lemma frozen_peek_loop:
  "valid (frozen sPipeline N h0) any_error (peek_loop xs c orig) (\<lambda>o' h. frozen sPipeline N h0 h \<and>
     (o' = orig \<or> o' \<in> set xs \<and> (o' < N \<longrightarrow> sPipeline (hStages h0 o') \<noteq> None)))"
proof (induction xs arbitrary: orig)
  case Nil
  then show ?case by (simp add: valid_def op_simps)
next
  case (Cons x xs)
  show ?case
    unfolding peek_loop.simps
  proof (rule valid_inv_get)
    fix h assume h: "frozen sPipeline N h0 h"
    let ?Q = "\<lambda>o' h. frozen sPipeline N h0 h \<and>
      (o' = orig \<or> o' \<in> set (x # xs) \<and> (o' < N \<longrightarrow> sPipeline (hStages h0 o') \<noteq> None))"
    show "valid (frozen sPipeline N h0) any_error (if sName (hStages h x) = RootNodeName \<or> sPipeline (hStages h x) = None
        then peek_loop xs c orig else op_then (pass_over x c orig) (peek_loop xs c x)) ?Q"
    proof (cases "sName (hStages h x) = RootNodeName \<or> sPipeline (hStages h x) = None")
      case True
      show ?thesis unfolding if_P [OF True] by (rule valid_weaken [OF Cons.IH]) auto
    next
      case False
      with h have "x < N \<longrightarrow> sPipeline (hStages h0 x) \<noteq> None" by (auto simp: frozen_def)
      then show ?thesis unfolding if_not_P [OF False]
        by (intro valid_inv_then frozen_pass_over) (rule valid_weaken [OF Cons.IH], auto)
    qed
  qed
qed

lemma frozen_graphClone:
  "valid (frozen sPipeline N h0) any_error (graphClone p q orig c name) (\<lambda>v h. frozen sPipeline N h0 h \<and>
     (q < N \<longrightarrow> snd v = orig \<or> length (node_refs p (hGraphs h0 q)) = 2 \<and> snd v \<in> set (node_refs p (hGraphs h0 q)) \<and>
        (snd v < N \<longrightarrow> sPipeline (hStages h0 (snd v)) \<noteq> None)))"
  unfolding graphClone_def
proof (rule valid_inv_bind [OF fz.make_graph], rule valid_inv_get)
  fix sub h assume h: "frozen sPipeline N h0 h"
  let ?xs = "node_refs p (hGraphs h q)"
  let ?R = "\<lambda>o'. o' = orig \<or> length ?xs = 2 \<and> o' \<in> set ?xs \<and> (o' < N \<longrightarrow> sPipeline (hStages h0 o') \<noteq> None)"
  have "valid (frozen sPipeline N h0) any_error (if length ?xs = 2 then peek_loop ?xs c orig else op_return orig)
      (\<lambda>o' h. frozen sPipeline N h0 h \<and> ?R o')"
  proof (cases "length ?xs = 2")
    case True
    show ?thesis unfolding if_P [OF True] by (rule valid_weaken [OF frozen_peek_loop]) (use True in auto)
  qed (simp add: valid_return)
  then show "valid (frozen sPipeline N h0) any_error (op_bind (if length ?xs = 2 then peek_loop ?xs c orig
      else op_return orig) (\<lambda>orig. op_return (sub, orig))) (\<lambda>v h. frozen sPipeline N h0 h \<and>
      (q < N \<longrightarrow> snd v = orig \<or> length (node_refs p (hGraphs h0 q)) = 2 \<and> snd v \<in> set (node_refs p (hGraphs h0 q)) \<and>
        (snd v < N \<longrightarrow> sPipeline (hStages h0 (snd v)) \<noteq> None)))"
    by (rule valid_inv_bind, intro valid_return) (use h in \<open>auto simp: frozen_def\<close>)
qed

lemma frozen_clone_pipeline:
  "N \<le> c \<Longrightarrow> valid (frozen sPipeline N h0) any_error (upd_stage c (\<lambda>_ s. s\<lparr>sPipeline := v\<rparr>)) (\<lambda>_. frozen sPipeline N h0)"
  by (rule frozen_upd_stage) simp

lemma frozen_table: "valid (frozen sPipeline N h0) any_error (op_modify (\<lambda>h. h\<lparr>hTable := g h\<rparr>)) (\<lambda>_. frozen sPipeline N h0)"
  by (rule valid_modify) (simp add: frozen_def)

lemma Flatten_frozen:
  "valid (frozen sPipeline N h0) any_error (Flatten p k g n ps) (\<lambda>_. frozen sPipeline N h0)"
proof (induction k arbitrary: g n ps)
  case 0
  then show ?case by (simp add: valid_throw)
next
  case (Suc k)
  have nested: "valid (frozen sPipeline N h0) any_error (flatten_nested p (Flatten p k) orig c nm ps q) (\<lambda>_. frozen sPipeline N h0)"
    if "N \<le> c" for orig c nm q
    unfolding flatten_nested_def
  proof (rule valid_inv_bind [OF frozen_graphClone])
    show "valid (frozen sPipeline N h0) any_error (case v of (sub, orig) \<Rightarrow>
        op_bind (op_get (\<lambda>h. sPipeline (hStages h orig))) (\<lambda>q. case q of None \<Rightarrow> op_throw DnNil
        | Some q \<Rightarrow> op_then (op_bind (op_get (\<lambda>h. dp_nodes p (hGraphs h q))) (\<lambda>ns.
            op_for ns (\<lambda>n. op_bind (op_get (\<lambda>h. sName (hStages h orig))) (\<lambda>nm. Flatten p k q n (ps @ [nm])))))
          (upd_stage c (\<lambda>_ s. s\<lparr>sPipeline := Some sub\<rparr>)))) (\<lambda>_. frozen sPipeline N h0)" for v
      by (cases v, simp only: prod.case)
        (intro valid_inv_get valid_case_option valid_inv_then valid_for Suc frozen_clone_pipeline that valid_throw TrueI)
  qed
  have node: "valid (frozen sPipeline N h0) any_error (flatten_node p (Flatten p k) g n ps) (\<lambda>_. frozen sPipeline N h0)"
    unfolding flatten_node_def
    by (rule valid_inv_get, rule valid_inv_bind [OF frozen_make_stage])
      (intro valid_case_option valid_inv_then fz.from_stage frozen_table valid_inv_get nested valid_throw TrueI
        valid_inv_return)
  then show ?case
    unfolding Flatten.simps
    by (intro valid_inv_then valid_inv_get valid_for valid_case_option Suc valid_throw TrueI)
      (simp add: valid_inv_return)
qed

lemma valid_for_never:
  "x \<in> set xs \<Longrightarrow> (\<And>y. y \<in> set xs \<Longrightarrow> valid I E (f y) (\<lambda>_. I)) \<Longrightarrow> valid I E (f x) (\<lambda>_ _. False) \<Longrightarrow>
   valid I E (op_for xs f) (\<lambda>_ _. False)"
proof (induction xs)
  case Nil
  then show ?case by simp
next
  case (Cons y ys)
  show ?case
  proof (cases "x = y")
    case True
    with Cons.prems(3) show ?thesis by (simp add: valid_then [OF _ valid_False])
  next
    case False
    with Cons show ?thesis by (auto intro: valid_inv_then)
  qed
qed

text \<open>A node of a graph that runs a pipeline of a set, and a set of pipelines each of which has such a node.
  A pipeline of two nodes has no other node that runs a pipeline.\<close>

definition runs :: "heap \<Rightarrow> ref \<Rightarrow> string \<Rightarrow> ref set \<Rightarrow> bool" where
  "runs h g n C \<longleftrightarrow> n \<noteq> RootNodeName \<and>
     (\<exists>r q. gNodes (hGraphs h g) n = Some r \<and> r < hNext h \<and> sPipeline (hStages h r) = Some q \<and> q \<in> C)"

definition nested_in_itself :: "denorm_params \<Rightarrow> heap \<Rightarrow> ref set \<Rightarrow> bool" where
  "nested_in_itself p h C \<longleftrightarrow> (\<forall>g \<in> C. g < hNext h \<and>
     (\<exists>n \<in> set (dp_nodes p (hGraphs h g)). runs h g n C) \<and>
     (length (node_refs p (hGraphs h g)) = 2 \<longrightarrow> (\<forall>x \<in> set (node_refs p (hGraphs h g)).
        x < hNext h \<and> sPipeline (hStages h x) \<in> insert None (Some ` C))))"

lemma Flatten_never:
  assumes C: "nested_in_itself p h0 C"
  shows "g \<in> C \<Longrightarrow> runs h0 g n C \<Longrightarrow>
    valid (frozen sPipeline (hNext h0) h0) any_error (Flatten p k g n ps) (\<lambda>_ _. False)"
proof (induction k arbitrary: g n ps)
  case 0
  then show ?case by (simp add: valid_throw)
next
  case (Suc k)
  let ?N = "hNext h0"
  let ?I = "frozen sPipeline ?N h0"
  have gN: "g < ?N" using C Suc.prems(1) by (simp add: nested_in_itself_def)
  from Suc.prems(2) obtain r q where r: "n \<noteq> RootNodeName" "gNodes (hGraphs h0 g) n = Some r" "r < ?N"
    "sPipeline (hStages h0 r) = Some q" "q \<in> C"
    by (auto simp: runs_def)
  have qN: "q < ?N" using C r(5) by (simp add: nested_in_itself_def)
  have nested: "valid ?I any_error (flatten_nested p (Flatten p k) r c nm ps q) (\<lambda>_ _. False)" for c nm
    unfolding flatten_nested_def
  proof (rule valid_inv_bind [OF frozen_graphClone], clarsimp)
    fix sub o' assume o: "q < ?N \<longrightarrow> o' = r \<or> length (node_refs p (hGraphs h0 q)) = 2 \<and>
      o' \<in> set (node_refs p (hGraphs h0 q)) \<and> (o' < ?N \<longrightarrow> (\<exists>y. sPipeline (hStages h0 o') = Some y))"
    have "o' < ?N \<and> (\<exists>q' \<in> C. sPipeline (hStages h0 o') = Some q')"
    proof (cases "o' = r")
      case True
      with r show ?thesis by blast
    next
      case False
      with o qN have o2: "length (node_refs p (hGraphs h0 q)) = 2" "o' \<in> set (node_refs p (hGraphs h0 q))"
        "o' < ?N \<longrightarrow> (\<exists>y. sPipeline (hStages h0 o') = Some y)" by simp_all
      from bspec [OF C [unfolded nested_in_itself_def] r(5)] o2(1,2)
      have "o' < ?N" "sPipeline (hStages h0 o') \<in> insert None (Some ` C)" by simp_all
      with o2(3) show ?thesis by auto
    qed
    then have oN: "o' < ?N" "\<exists>q' \<in> C. sPipeline (hStages h0 o') = Some q'" by simp_all
    then obtain q' where q': "q' \<in> C" "sPipeline (hStages h0 o') = Some q'" by blast
    from C q'(1) obtain m where m: "m \<in> set (dp_nodes p (hGraphs h0 q'))" "runs h0 q' m C" "q' < ?N"
      by (auto simp: nested_in_itself_def)
    show "valid ?I any_error (op_bind (op_get (\<lambda>h. sPipeline (hStages h o'))) (\<lambda>q. case q of None \<Rightarrow> op_throw DnNil
        | Some q \<Rightarrow> op_then (op_bind (op_get (\<lambda>h. dp_nodes p (hGraphs h q))) (\<lambda>ns.
            op_for ns (\<lambda>n. op_bind (op_get (\<lambda>h. sName (hStages h o'))) (\<lambda>nm. Flatten p k q n (ps @ [nm])))))
          (upd_stage c (\<lambda>_ s. s\<lparr>sPipeline := Some sub\<rparr>)))) (\<lambda>_ _. False)"
    proof (rule valid_inv_get)
      fix h assume "?I h"
      with oN(1) q'(2) have s: "sPipeline (hStages h o') = Some q'" by (simp add: frozen_def)
      show "valid ?I any_error (case sPipeline (hStages h o') of None \<Rightarrow> op_throw DnNil
        | Some q \<Rightarrow> op_then (op_bind (op_get (\<lambda>h. dp_nodes p (hGraphs h q))) (\<lambda>ns.
            op_for ns (\<lambda>n. op_bind (op_get (\<lambda>h. sName (hStages h o'))) (\<lambda>nm. Flatten p k q n (ps @ [nm])))))
          (upd_stage c (\<lambda>_ s. s\<lparr>sPipeline := Some sub\<rparr>))) (\<lambda>_ _. False)"
        unfolding s option.case
      proof (rule valid_then [OF _ valid_False], rule valid_inv_get)
        fix h assume "?I h"
        with m(1,3) have m1: "m \<in> set (dp_nodes p (hGraphs h q'))" by (simp add: frozen_def)
        show "valid ?I any_error (op_for (dp_nodes p (hGraphs h q'))
            (\<lambda>n. op_bind (op_get (\<lambda>h. sName (hStages h o'))) (\<lambda>nm. Flatten p k q' n (ps @ [nm])))) (\<lambda>_ _. False)"
          by (rule valid_for_never [OF m1]) (intro valid_inv_get Flatten_frozen Suc.IH q'(1) m(2))+
      qed
    qed
  qed
  have "valid ?I any_error (flatten_node p (Flatten p k) g n ps) (\<lambda>_ _. False)"
    unfolding flatten_node_def
  proof (rule valid_inv_get, rule valid_inv_bind [OF frozen_make_stage])
    fix h c assume h: "?I h" and c: "?N \<le> c"
    from h gN r(2) have node: "gNodes (hGraphs h g) n = Some r" by (simp add: frozen_def)
    show "valid ?I any_error (case gNodes (hGraphs h g) n of None \<Rightarrow> op_throw DnNil
       | Some orig \<Rightarrow> op_then (FromStage p c orig g ps)
           (op_then (op_modify (\<lambda>h. h\<lparr>hTable := (hTable h)(CascadeName ps n \<mapsto> c)\<rparr>))
           (op_bind (op_get (\<lambda>h. sPipeline (hStages h orig))) (\<lambda>q. case q of None \<Rightarrow> op_return ()
            | Some q \<Rightarrow> flatten_nested p (Flatten p k) orig c (CascadeName ps n) ps q)))) (\<lambda>_ _. False)"
      unfolding node option.case
    proof (intro valid_inv_then fz.from_stage c frozen_table, rule valid_inv_get)
      fix h assume "?I h"
      with r(3,4) have s: "sPipeline (hStages h r) = Some q" by (simp add: frozen_def)
      show "valid ?I any_error (case sPipeline (hStages h r) of None \<Rightarrow> op_return ()
          | Some q \<Rightarrow> flatten_nested p (Flatten p k) r c (CascadeName ps n) ps q) (\<lambda>_ _. False)"
        unfolding s option.case by (rule nested)
    qed
  qed
  with r(1) show ?case by (simp add: valid_then [OF _ valid_False])
qed

text \<open>C14. a pipeline that is nested in itself, directly or through other pipelines, is never denormalized: whatever
  the depth, flattening a stage that runs it does not return. The configuration is accepted, the program
  recurses until its stack overflows.\<close>

theorem nested_pipeline_never_flattened:
  assumes "nested_in_itself p h C" and "g \<in> C" and "runs h g n C"
  shows "Inr () \<notin> range (\<lambda>k. fst (Flatten p k g n parents h))"
proof
  assume "Inr () \<in> range (\<lambda>k. fst (Flatten p k g n parents h))"
  then obtain k where k: "fst (Flatten p k g n parents h) = Inr ()" by auto
  obtain x h' where "Flatten p k g n parents h = (x, h')" by fastforce
  with k have "Flatten p k g n parents h = (Inr (), h')" by simp
  from validD_Inr [OF Flatten_never [OF assms] _ this] show False by (simp add: frozen_def)
qed

section \<open>The copies have tasks of their own\<close>

text \<open>The task of a copy was allocated by the flattening, and no other copy has it.\<close>

definition own_tasks :: "ref \<Rightarrow> heap \<Rightarrow> bool" where
  "own_tasks N h \<longleftrightarrow> N \<le> hNext h \<and> ran (hTable h) \<subseteq> {N..} \<and>
     (\<forall>r \<ge> N. sTask (hStages h r) \<in> insert None (Some ` {N..<hNext h})) \<and>
     inj_on (\<lambda>r. sTask (hStages h r)) {r. N \<le> r \<and> sTask (hStages h r) \<noteq> None}"

lemma own_tasks_step:
  assumes "own_tasks N h" and "hTable h' = hTable h" and "hNext h \<le> hNext h'"
    and s: "\<And>r. N \<le> r \<Longrightarrow> sTask (hStages h' r) \<in> {None, sTask (hStages h r)}"
  shows "own_tasks N h'"
proof -
  have t: "\<forall>r \<ge> N. sTask (hStages h r) \<in> insert None (Some ` {N..<hNext h})"
    and i: "inj_on (\<lambda>r. sTask (hStages h r)) {r. N \<le> r \<and> sTask (hStages h r) \<noteq> None}"
    using assms(1) by (simp_all add: own_tasks_def)
  have "sTask (hStages h' r) \<in> insert None (Some ` {N..<hNext h'})" if "N \<le> r" for r
    using s [OF that] t that assms(3) by fastforce
  moreover have "inj_on (\<lambda>r. sTask (hStages h' r)) {r. N \<le> r \<and> sTask (hStages h' r) \<noteq> None}"
  proof (rule inj_onI)
    fix x y assume xy: "x \<in> {r. N \<le> r \<and> sTask (hStages h' r) \<noteq> None}" "y \<in> {r. N \<le> r \<and> sTask (hStages h' r) \<noteq> None}"
      "sTask (hStages h' x) = sTask (hStages h' y)"
    with s [of x] s [of y] have "sTask (hStages h' x) = sTask (hStages h x)" "sTask (hStages h' y) = sTask (hStages h y)"
      by auto
    with xy i show "x = y" by (intro inj_onD [OF i]) auto
  qed
  ultimately show ?thesis using assms(1-3) by (simp add: own_tasks_def)
qed

lemma own_tasks_N: "own_tasks N h \<Longrightarrow> N \<le> hNext h"
  by (simp add: own_tasks_def)

lemma own_tasks_upd_stage:
  assumes "\<And>h s. sTask (g h s) = sTask s"
  shows "valid (own_tasks N) E (upd_stage r g) (\<lambda>_. own_tasks N)"
proof -
  have "own_tasks N h \<Longrightarrow> own_tasks N (put_stage r (g h (hStages h r)) h)" for h
    by (rule own_tasks_step, assumption) (simp_all add: put_stage_def assms)
  then show ?thesis by (simp add: valid_def upd_stage_def op_modify_def)
qed

lemma own_tasks_make_envfile: "valid (own_tasks N) E make_envfile (\<lambda>_. own_tasks N)"
  by (auto simp: valid_def make_defs intro: own_tasks_step)

lemma own_tasks_make_stage: "valid (own_tasks N) E (make_stage n) (\<lambda>r h. own_tasks N h \<and> N \<le> r)"
  by (auto simp: valid_def make_defs NewStage_def le_SucI dest: own_tasks_N)
    (rule own_tasks_step, assumption, simp_all)

lemma own_tasks_make_graph: "valid (own_tasks N) E (make_graph n) (\<lambda>r h. own_tasks N h \<and> N \<le> r)"
  by (auto simp: valid_def make_defs NewStage_def root_stage_def UpdateStatus_def le_SucI dest: own_tasks_N)
    (rule own_tasks_step, assumption, simp_all)

lemma own_tasks_merge: "E DnNil \<Longrightarrow> valid (own_tasks N) E (envfileMerge p' d s) (\<lambda>_. own_tasks N)"
  by (auto simp: valid_def step_defs split: option.split intro: own_tasks_step)

text \<open>A new task, until it is given to a copy.\<close>

definition spare_task :: "ref \<Rightarrow> ref \<Rightarrow> heap \<Rightarrow> bool" where
  "spare_task N t h \<longleftrightarrow> own_tasks N h \<and> N \<le> t \<and> t < hNext h \<and> (\<forall>r \<ge> N. sTask (hStages h r) \<noteq> Some t)"

lemma spare_upd_stage:
  assumes "\<And>h s. sTask (g h s) = sTask s"
  shows "valid (spare_task N t) E (upd_stage r g) (\<lambda>_. spare_task N t)"
proof -
  have "spare_task N t (put_stage r (g h (hStages h r)) h)" if "spare_task N t h" for h
  proof -
    from that have "own_tasks N h" by (simp add: spare_task_def)
    from validD_Inr [OF own_tasks_upd_stage [of g, OF assms] this]
    have "own_tasks N (put_stage r (g h (hStages h r)) h)" by (simp add: upd_stage_def op_modify_def)
    with that show ?thesis by (simp add: spare_task_def put_stage_def assms)
  qed
  then show ?thesis by (simp add: valid_def upd_stage_def op_modify_def)
qed

lemma spare_step: "spare_task N t h \<Longrightarrow> own_tasks N h' \<Longrightarrow> hStages h' = hStages h \<Longrightarrow> hNext h \<le> hNext h' \<Longrightarrow> spare_task N t h'"
  by (simp add: spare_task_def)

lemma spare_make_envfile: "valid (spare_task N t) E make_envfile (\<lambda>_. spare_task N t)"
proof (rule valid_total)
  fix h assume h: "spare_task N t h"
  then have "own_tasks N h" by (simp add: spare_task_def)
  moreover obtain r h' where m: "make_envfile h = (Inr r, h')" by (simp add: make_defs)
  ultimately have "own_tasks N h'" using validD_Inr [OF own_tasks_make_envfile] by blast
  with m spare_step [OF h] show "\<exists>v h'. make_envfile h = (Inr v, h') \<and> spare_task N t h'"
    by (auto simp: make_defs)
qed

lemma spare_EnvFile: "valid (spare_task N t) E (EnvFile r) (\<lambda>_. spare_task N t)"
  unfolding EnvFile_def
  by (intro valid_inv_get valid_case_option valid_inv_seq [OF spare_make_envfile] valid_inv_then spare_upd_stage
      valid_inv_return) (simp add: WithEnvFile_def)

lemma spare_merge: "E DnNil \<Longrightarrow> valid (spare_task N t) E (envfileMerge p d s) (\<lambda>_. spare_task N t)"
proof -
  assume E: "E DnNil"
  have "own_tasks N h \<Longrightarrow> own_tasks N (h\<lparr>hEnvfiles := x\<rparr>)" for h x
    by (rule own_tasks_step, assumption) simp_all
  with E show ?thesis by (auto simp: valid_def step_defs spare_task_def split: option.split)
qed

lemma give_spare_task:
  assumes "N \<le> r"
  shows "valid (spare_task N t) E (upd_stage r (\<lambda>_ s. s\<lparr>sTask := Some t\<rparr>)) (\<lambda>_. own_tasks N)"
proof -
  have "own_tasks N (put_stage r ((hStages h r)\<lparr>sTask := Some t\<rparr>) h)" if h: "spare_task N t h" for h
  proof -
    have i: "inj_on (\<lambda>r. sTask (hStages h r)) {r. N \<le> r \<and> sTask (hStages h r) \<noteq> None}"
      and u: "\<forall>r \<ge> N. sTask (hStages h r) \<noteq> Some t"
      using h by (simp_all add: spare_task_def own_tasks_def)
    have "inj_on (\<lambda>x. if x = r then Some t else sTask (hStages h x)) {x. N \<le> x \<and> (x = r \<or> sTask (hStages h x) \<noteq> None)}"
    proof (rule inj_onI)
      fix x y
      assume xy: "x \<in> {x. N \<le> x \<and> (x = r \<or> sTask (hStages h x) \<noteq> None)}" "y \<in> {x. N \<le> x \<and> (x = r \<or> sTask (hStages h x) \<noteq> None)}"
        "(if x = r then Some t else sTask (hStages h x)) = (if y = r then Some t else sTask (hStages h y))"
      show "x = y"
      proof (cases "x = r \<or> y = r")
        case True
        with xy u show ?thesis by (auto split: if_splits) (metis+)?
      next
        case False
        with xy show ?thesis by (intro inj_onD [OF i]) auto
      qed
    qed
    moreover have "{x. N \<le> x \<and> sTask (hStages (put_stage r ((hStages h r)\<lparr>sTask := Some t\<rparr>) h) x) \<noteq> None} =
        {x. N \<le> x \<and> (x = r \<or> sTask (hStages h x) \<noteq> None)}"
      by (auto simp: put_stage_def)
    ultimately show ?thesis
      using h by (simp add: own_tasks_def spare_task_def put_stage_def if_distrib cong: if_cong)
  qed
  then show ?thesis by (simp add: valid_def upd_stage_def op_modify_def)
qed

lemma own_tasks_give:
  assumes "E DnNil" and "N \<le> r"
  shows "valid (own_tasks N) E (own_task p r orig tsk ef) (\<lambda>_. own_tasks N)"
  unfolding own_task_def
proof (rule valid_bind)
  show "valid (own_tasks N) E (make_task tsk ef) (\<lambda>t. spare_task N t)"
  proof (rule valid_total)
    fix h assume h: "own_tasks N h"
    obtain t h' where m: "make_task tsk ef h = (Inr t, h')" by (simp add: make_defs)
    have "own_tasks N h'" by (rule own_tasks_step [OF h]) (use m in \<open>auto simp: make_defs\<close>)
    moreover have "\<forall>r \<ge> N. sTask (hStages h r) \<in> insert None (Some ` {N..<hNext h})" "N \<le> hNext h"
      using h by (simp_all add: own_tasks_def)
    ultimately have "spare_task N t h'" using m by (auto simp: spare_task_def make_defs)
    with m show "\<exists>v h'. make_task tsk ef h = (Inr v, h') \<and> spare_task N v h'" by blast
  qed
  show "valid (spare_task N t) E (op_bind (EnvFile orig) (\<lambda>oe. op_then (envfileMerge p ef oe)
      (upd_stage r (\<lambda>_ s. s\<lparr>sTask := Some t\<rparr>)))) (\<lambda>_. own_tasks N)" for t
    by (intro valid_inv_seq [OF spare_EnvFile] valid_inv_then [OF spare_merge] give_spare_task assms)
qed

interpretation ot: heap_invariant "own_tasks N" any_error N for N
proof
  show "valid (own_tasks N) any_error (upd_graph r g) (\<lambda>_. own_tasks N)" for r g
    by (auto simp: valid_def step_defs intro: own_tasks_step)
qed (auto intro: own_tasks_make_envfile own_tasks_make_graph own_tasks_upd_stage own_tasks_merge own_tasks_give
    simp: WithEnvFile_def)

lemma own_tasks_pass_over: "valid (own_tasks N) any_error (pass_over peek c o1) (\<lambda>_. own_tasks N)"
  unfolding pass_over_def
  by (intro valid_inv_then own_tasks_upd_stage) (simp_all add: WithEnv_def WithVariables_def WithEnvFile_def)

lemma own_tasks_peek_loop: "valid (own_tasks N) any_error (peek_loop xs c orig) (\<lambda>_. own_tasks N)"
proof (induction xs arbitrary: orig)
  case Nil
  then show ?case by (simp add: valid_inv_return)
next
  case (Cons x xs)
  show ?case
    unfolding peek_loop.simps
    by (rule valid_inv_get) (simp add: Cons valid_inv_then [OF own_tasks_pass_over])
qed

lemma own_tasks_graphClone: "valid (own_tasks N) any_error (graphClone p q orig c name) (\<lambda>_. own_tasks N)"
  unfolding graphClone_def
proof (rule valid_inv_bind [OF ot.make_graph], rule valid_inv_get, rule valid_inv_seq)
  show "valid (own_tasks N) any_error (if length v = 2 then peek_loop v c orig else op_return orig) (\<lambda>_. own_tasks N)" for v
    by (simp add: own_tasks_peek_loop valid_inv_return)
qed (rule valid_inv_return)

lemma Flatten_own_tasks: "valid (own_tasks N) any_error (Flatten p k g n ps) (\<lambda>_. own_tasks N)"
proof (induction k arbitrary: g n ps)
  case 0
  then show ?case by (simp add: valid_throw)
next
  case (Suc k)
  have nested: "valid (own_tasks N) any_error (flatten_nested p (Flatten p k) orig c nm ps q) (\<lambda>_. own_tasks N)" for orig c nm q
    unfolding flatten_nested_def
  proof (rule valid_inv_seq [OF own_tasks_graphClone])
    show "valid (own_tasks N) any_error (case v of (sub, orig) \<Rightarrow>
        op_bind (op_get (\<lambda>h. sPipeline (hStages h orig))) (\<lambda>q. case q of None \<Rightarrow> op_throw DnNil
        | Some q \<Rightarrow> op_then (op_bind (op_get (\<lambda>h. dp_nodes p (hGraphs h q))) (\<lambda>ns.
            op_for ns (\<lambda>n. op_bind (op_get (\<lambda>h. sName (hStages h orig))) (\<lambda>nm. Flatten p k q n (ps @ [nm])))))
          (upd_stage c (\<lambda>_ s. s\<lparr>sPipeline := Some sub\<rparr>)))) (\<lambda>_. own_tasks N)" for v
      by (cases v, simp only: prod.case)
        (intro valid_inv_get valid_case_option valid_inv_then valid_for Suc own_tasks_upd_stage valid_throw TrueI, simp)
  qed
  have table: "valid (own_tasks N) any_error (op_modify (\<lambda>h. h\<lparr>hTable := (hTable h)(x \<mapsto> c)\<rparr>)) (\<lambda>_. own_tasks N)"
    if "N \<le> c" for x c
  proof (rule valid_modify)
    fix h assume "own_tasks N h"
    moreover have "ran ((hTable h)(x \<mapsto> c)) \<subseteq> insert c (ran (hTable h))" by (auto simp: ran_def)
    ultimately show "own_tasks N (h\<lparr>hTable := (hTable h)(x \<mapsto> c)\<rparr>)"
      using that by (auto simp: own_tasks_def)
  qed
  have node: "valid (own_tasks N) any_error (flatten_node p (Flatten p k) g n ps) (\<lambda>_. own_tasks N)"
    unfolding flatten_node_def
    by (rule valid_inv_get, rule valid_inv_bind [OF own_tasks_make_stage])
      (intro valid_case_option valid_inv_then ot.from_stage table valid_inv_get nested valid_throw TrueI
        valid_inv_return)
  then show ?case
    unfolding Flatten.simps
    by (intro valid_inv_then valid_inv_get valid_for valid_case_option Suc valid_throw TrueI)
      (simp add: valid_inv_return)
qed


section \<open>A small heap\<close>

text \<open>A pipeline \<open>m\<close> of two stages that run the pipelines \<open>p\<close> and \<open>q\<close>; \<open>p\<close> consists of a stage that runs \<open>q\<close>, and
  \<open>q\<close> of a stage that runs \<open>r\<close>, whose only stage has a task.\<close>

definition node_of :: "string \<Rightarrow> ref option \<Rightarrow> ref option \<Rightarrow> Stage" where
  "node_of name t g = NewStage 30 name [\<lambda>s. s\<lparr>sTask := t, sPipeline := g\<rparr>]"

definition graph_of :: "string \<Rightarrow> ref \<Rightarrow> (string \<times> ref) list \<Rightarrow> ExecutionGraph" where
  "graph_of name root ns = (empty_graph root name)\<lparr>gNodes := (map_of ns)(RootNodeName \<mapsto> root),
     gChildren := [(RootNodeName, map fst ns)]\<rparr>"

definition nested_heap :: heap where
  "nested_heap = \<lparr>hTasks = \<lambda>_. NewTask ''z'', hTaskEnv = \<lambda>_. Some 30,
     hStages = (\<lambda>_. root_stage 30 ''m'')(11 := node_of ''s'' None (Some 1), 12 := node_of ''t'' None (Some 2),
       13 := node_of ''x'' None (Some 2), 14 := node_of ''y'' None (Some 3), 15 := node_of ''z'' (Some 20) None),
     hGraphs = (\<lambda>_. graph_of ''m'' 10 [(''s'', 11), (''t'', 12)])(1 := graph_of ''p'' 10 [(''x'', 13)],
       2 := graph_of ''q'' 10 [(''y'', 14)], 3 := graph_of ''r'' 10 [(''z'', 15)]),
     hEnvfiles = \<lambda>_. NewEnvFile [], hTable = Map.empty, hNext = 40\<rparr>"

text \<open>The nodes and the children of a graph in the given order, or in the opposite one.\<close>

definition in_order :: "bool \<Rightarrow> denorm_params" where
  "in_order b = \<lparr>dp_nodes = \<lambda>g. RootNodeName # succs (gChildren g) RootNodeName,
     dp_children = \<lambda>g n. (if b then id else rev) (succs (gChildren g) n),
     dp_table = \<lambda>T. [], dp_merge_task = \<lambda>a b. Some a, dp_merge_env = \<lambda>a b. Some a\<rparr>"

lemma upd_stage_then: "op_then (upd_stage r f) n h = n (put_stage r (f h (hStages h r)) h)"
  by (simp add: op_then_def op_bind_def upd_stage_def op_simps)

lemma upd_stage_ok: "\<exists>h'. upd_stage r f h = (Inr (), h')"
  by (simp add: upd_stage_def op_simps)

lemma upd_task_then: "op_then (upd_task r f) n h = n (h\<lparr>hTasks := (hTasks h)(r := f h (hTasks h r))\<rparr>)"
  by (simp add: op_then_def op_bind_def upd_task_def op_simps)

lemma get_bind: "op_bind (op_get f) n h = n (f h) h"
  by (simp add: op_bind_def op_simps)

lemma pass_over_does:
  assumes "c \<noteq> peek" and "orig \<noteq> peek"
  shows "\<exists>h'. pass_over peek c orig h = (Inr (), h') \<and> hGraphs h' = hGraphs h \<and>
    sName (hStages h' peek) = sName (hStages h orig) \<and> (\<forall>x. sPipeline (hStages h' x) = sPipeline (hStages h x))"
proof -
  let ?I = "\<lambda>nm h'. hGraphs h' = hGraphs h \<and> (\<forall>x. sPipeline (hStages h' x) = sPipeline (hStages h x)) \<and>
    sName (hStages h' orig) = sName (hStages h orig) \<and> sName (hStages h' peek) = nm"
  have keep: "valid (?I nm) (\<lambda>_. False) (upd_stage x f) (\<lambda>_. ?I nm)"
    if "\<And>h s. sName (f h s) = sName s \<and> sPipeline (f h s) = sPipeline s" for nm x f
    unfolding upd_stage_def using that by (intro valid_modify) (auto simp: put_stage_def)
  have rename: "valid (?I nm) (\<lambda>_. False) (upd_stage peek (\<lambda>h s. s\<lparr>sName := sName (hStages h orig)\<rparr>))
      (\<lambda>_. ?I (sName (hStages h orig)))" for nm
    unfolding upd_stage_def using assms by (intro valid_modify) (auto simp: put_stage_def)
  have v: "valid (?I (sName (hStages h peek))) (\<lambda>_. False) (pass_over peek c orig) (\<lambda>_. ?I (sName (hStages h orig)))"
    unfolding pass_over_def
    by (rule valid_then [OF keep], simp, rule valid_then [OF rename])
      (intro valid_inv_then keep; simp add: WithEnv_def WithVariables_def WithEnvFile_def)
  obtain x h' where x: "pass_over peek c orig h = (x, h')" by fastforce
  with validD_Inl [OF v] obtain h' where h': "pass_over peek c orig h = (Inr (), h')" by (cases x) auto
  with validD_Inr [OF v _ h'] show ?thesis by simp
qed

text \<open>a pipeline that consists of one nested pipeline cannot be flattened any more once a stage that runs
  it has been: that stage passes over it and gives its own name to the nested stage, and a visit of
  the pipeline from its root then looks up a node of that name, finds nil and crashes. Which of the
  two is flattened first depends on the order in which Go ranges over the maps.\<close>

theorem passed_over_then_flattened:
  assumes "gNodes (hGraphs h q) = [RootNodeName \<mapsto> rr, y \<mapsto> ry]" and "y \<noteq> RootNodeName"
    and "dp_nodes p (hGraphs h q) = [RootNodeName, y]" and "dp_children p (hGraphs h q) RootNodeName = [y]"
    and "sPipeline (hStages h rr) = None" and "sPipeline (hStages h ry) \<noteq> None"
    and "sName (hStages h ry) \<noteq> RootNodeName" and "sName (hStages h orig) \<notin> {RootNodeName, y}"
    and "orig \<noteq> ry" and "cloned \<noteq> ry" and "{q, rr, ry, orig} \<subseteq> {..<hNext h}"
  shows "\<exists>v h'. graphClone p q orig cloned name h = (Inr v, h') \<and>
    fst (Flatten p (Suc (Suc k)) q RootNodeName parents h') = Inl DnNil"
proof -
  obtain sub h1 where m: "make_graph name h = (Inr sub, h1)" by (simp add: make_defs)
  have old: "hStages h1 x = hStages h x \<and> hGraphs h1 x = hGraphs h x" if "x \<in> {q, rr, ry, orig}" for x
  proof -
    from that assms(11) have "x < hNext h" by auto
    with m show ?thesis by (auto simp: make_defs)
  qed
  have refs: "node_refs p (hGraphs h1 q) = [rr, ry]"
    using old [of q] assms(1-3) by (simp add: node_refs_def List.map_filter_simps)
  obtain h2 where h2: "pass_over ry cloned orig h1 = (Inr (), h2)" "hGraphs h2 = hGraphs h1"
    "sName (hStages h2 ry) = sName (hStages h1 orig)"
    using pass_over_does [OF assms(10,9)] by blast
  have loop: "peek_loop [rr, ry] cloned orig h1 = (Inr ry, h2)"
    proof -
    have "sPipeline (hStages h1 rr) = None" "sPipeline (hStages h1 ry) \<noteq> None" "sName (hStages h1 ry) \<noteq> RootNodeName"
      using old assms(5-7) by simp_all
    then show ?thesis
      by (auto simp: get_bind op_then_def op_bind_eval(1) [where m = "pass_over ry cloned orig", OF h2(1)] op_simps)
  qed
  have clone: "graphClone p q orig cloned name h = (Inr (sub, ry), h2)"
    by (simp add: graphClone_def op_bind_def op_simps m refs loop del: peek_loop.simps)
  have g2: "hGraphs h2 q = hGraphs h q" using old [of q] h2(2) by simp
  have nm: "sName (hStages h2 ry) = sName (hStages h orig)" using old [of orig] h2(3) by simp
  have "gNodes (hGraphs h q) (sName (hStages h orig)) = None" using assms(1,8) by simp
  then have node: "fst (Flatten p (Suc k) q (sName (hStages h orig)) parents h2) = Inl DnNil"
  proof -
    obtain c h3 where c: "make_stage (CascadeName parents (sName (hStages h orig))) h2 = (Inr c, h3)"
      by (simp add: make_defs)
    have "flatten_node p (Flatten p k) q (sName (hStages h orig)) parents h2 = (Inl DnNil, h3)"
      using \<open>gNodes (hGraphs h q) (sName (hStages h orig)) = None\<close>
      by (simp add: flatten_node_def get_bind op_bind_def c g2 op_simps)
    then show ?thesis using assms(8) by (simp add: op_then_def op_bind_def)
  qed
  have "fst (Flatten p (Suc (Suc k)) q RootNodeName parents h2) = Inl DnNil"
  proof -
    have "map (gNodes (hGraphs h2 q)) (dp_children p (hGraphs h2 q) RootNodeName) = [Some ry]"
      using assms(1,2,4) by (simp add: g2)
    moreover obtain e h3 where "Flatten p (Suc k) q (sName (hStages h orig)) parents h2 = (e, h3)" by fastforce
    ultimately show ?thesis
      using node by (subst Flatten.simps) (simp add: op_then_def op_bind_def op_simps nm del: Flatten.simps)
  qed
  with clone show ?thesis by blast
qed

theorem passed_over_then_flattened_witness:
  "\<exists>v h'. graphClone (in_order False) 2 12 40 ''n'' nested_heap = (Inr v, h') \<and>
    fst (Flatten (in_order False) (Suc (Suc 3)) 2 RootNodeName [''m''] h') = Inl DnNil"
  by (rule passed_over_then_flattened [where rr = 10 and y = "''y''" and ry = 14])
    (auto simp: nested_heap_def graph_of_def node_of_def NewStage_def root_stage_def UpdateStatus_def in_order_def
      RootNodeName_def succs_def get_or_def empty_graph_def)

section \<open>Environments\<close>

lemma EnvFile_stages:
  assumes "EnvFile r h = (Inr e, h')"
  shows "sEnv (hStages h' x) = sEnv (hStages h x)" "sVariables (hStages h' x) = sVariables (hStages h x)"
    "hTasks h' = hTasks h" "hTable h' = hTable h" "sName (hStages h' x) = sName (hStages h x)"
    "sTask (hStages h' x) = sTask (hStages h x)"
  using assms
  by (auto simp: EnvFile_def op_bind_def op_simps op_then_def make_envfile_def upd_stage_def put_stage_def
      WithEnvFile_def split: option.splits)

lemma envfileMerge_stages:
  "envfileMerge p d s h = (Inr (), h') \<Longrightarrow> hStages h' = hStages h \<and> hTasks h' = hTasks h \<and> hTable h' = hTable h"
  by (auto simp: envfileMerge_def op_simps split: option.splits)

text \<open>What merging the parents one after the other leaves of the environment of a stage.\<close>

lemma merge_parent_env:
  assumes "merge_parent p r v h = (Inr (), h')" and "v \<noteq> r"
  shows "sEnv (hStages h' r) = sEnv (hStages h r) ++ sEnv (hStages h v)" and
    "\<And>x. x \<noteq> r \<Longrightarrow> sEnv (hStages h' x) = sEnv (hStages h x)" and "hTasks h' = hTasks h"
    and "\<And>x. sTask (hStages h' x) = sTask (hStages h x)"
proof -
  let ?h1 = "put_stage r ((hStages h r)\<lparr>sEnv := Merge (sEnv (hStages h r)) (sEnv (hStages h v))\<rparr>) h"
  let ?h = "put_stage r ((hStages ?h1 r)\<lparr>sVariables := Merge (sVariables (hStages ?h1 r)) (sVariables (hStages ?h1 v))\<rparr>) ?h1"
  from assms(1) have "op_bind (EnvFile v) (envfileMerge p (sEnvfile (hStages ?h r))) ?h = (Inr (), h')"
    by (simp only: merge_parent_def upd_stage_then get_bind)
  then obtain e h2 where e: "EnvFile v ?h = (Inr e, h2)"
    and m: "envfileMerge p (sEnvfile (hStages ?h r)) e h2 = (Inr (), h')"
    unfolding op_bind_Inr by blast
  note f = EnvFile_stages [OF e] envfileMerge_stages [OF m]
  show "sEnv (hStages h' r) = sEnv (hStages h r) ++ sEnv (hStages h v)"
    using f assms(2) by (simp add: put_stage_def Merge_eq)
  show "hTasks h' = hTasks h" using f by (simp add: put_stage_def)
  show "x \<noteq> r \<Longrightarrow> sEnv (hStages h' x) = sEnv (hStages h x)" for x using f by (simp add: put_stage_def)
  show "sTask (hStages h' x) = sTask (hStages h x)" for x using f by (simp add: put_stage_def)
qed

lemma merge_parents_env:
  "op_for ps (merge_parent p r) h = (Inr (), h') \<Longrightarrow> r \<notin> set ps \<Longrightarrow>
     sEnv (hStages h' r) = foldl (++) (sEnv (hStages h r)) (map (\<lambda>v. sEnv (hStages h v)) ps) \<and> hTasks h' = hTasks h \<and>
     (\<forall>x. sTask (hStages h' x) = sTask (hStages h x))"
proof (induction ps arbitrary: h)
  case Nil
  then show ?case by (simp add: op_simps)
next
  case (Cons v ps)
  from Cons.prems obtain h1 where h1: "merge_parent p r v h = (Inr (), h1)" "op_for ps (merge_parent p r) h1 = (Inr (), h')"
    by (auto simp: op_then_def op_bind_Inr)
  have "v \<noteq> r" using Cons.prems(2) by auto
  note m = merge_parent_env [OF h1(1) this]
  have "map (\<lambda>v. sEnv (hStages h1 v)) ps = map (\<lambda>v. sEnv (hStages h v)) ps"
    by (intro map_cong refl m(2)) (use Cons.prems(2) in auto)
  with Cons.IH [OF h1(2)] Cons.prems(2) m(1,3,4) show ?case by simp
qed

lemma map_add_same: "(m :: 'k \<rightharpoonup> 'v) ++ m = m"
  by (auto simp: map_add_def fun_eq_iff split: option.split)

lemma merge_own_task_env:
  assumes "merge_own_task p r t h = (Inr (), h')"
  shows "sEnv (hStages h' r) = sEnv (hStages h r) ++ tEnv (hTasks h t)"
    and "tEnv (hTasks h' t) = sEnv (hStages h r) ++ tEnv (hTasks h t)"
proof -
  let ?v = "sVariables (hStages h r) ++ tVariables (hTasks h t)"
  let ?e = "sEnv (hStages h r) ++ tEnv (hTasks h t)"
  let ?h = "h\<lparr>hTasks := (hTasks h)(t := (hTasks h t)\<lparr>tName := sName (hStages h r), tEnv := ?e, tVariables := ?v\<rparr>),
     hStages := (hStages h)(r := (hStages h r)\<lparr>sEnv := ?e, sVariables := ?v\<rparr>)\<rparr>"
  from assms obtain d e h2 where e: "EnvFile r ?h = (Inr e, h2)" and m: "envfileMerge p d e h2 = (Inr (), h')"
    by (auto simp: merge_own_task_def op_then_def op_bind_Inr op_simps upd_stage_def upd_task_def put_stage_def
        Merge_eq map_add_same)
  note f = EnvFile_stages [OF e] envfileMerge_stages [OF m]
  show "sEnv (hStages h' r) = ?e" "tEnv (hTasks h' t) = ?e" using f by simp_all
qed


section \<open>Env files\<close>

lemma set_fold_add_path: "set (fold add_path src dst) = set dst \<union> set src"
  by (auto simp: fold_add_path)

lemma EnvFile_some: "sEnvfile (hStages h r) = Some e \<Longrightarrow> EnvFile r h = (Inr e, h)"
  by (simp add: EnvFile_def get_bind op_simps)

lemma FromStage_runs:
  assumes "new \<noteq> orig" and "sTask (hStages h orig) = Some t" and "sPipeline (hStages h orig) = None"
    and "hTaskEnv h t = Some e" and "sEnvfile (hStages h orig) = Some e2"
  shows "\<exists>h'. FromStage p new orig gr parents h = (Inr (), h') \<and>
    set (PathValue (hEnvfiles h' e)) = set (PathValue (hEnvfiles h e)) \<union> set (PathValue (hEnvfiles h e2)) \<and>
    (\<exists>t'. sTask (hStages h' new) = Some t' \<and> hTaskEnv h' t' = Some e) \<and> hGraphs h' = hGraphs h \<and>
    sPipeline (hStages h' new) = sPipeline (hStages h new) \<and> sEnvfile (hStages h' new) = Some e2 \<and>
    hTable h' = hTable h \<and> (\<forall>x. x \<noteq> new \<longrightarrow> hStages h' x = hStages h x)"
proof -
  let ?h1 = "put_stage new (stage_base (hGraphs h gr) (hStages h orig) (hStages h new)) h"
  let ?tsk = "cloned_task p parents (hGraphs h gr) (hTasks h t)"
  let ?h2 = "?h1\<lparr>hTasks := (hTasks ?h1)(hNext h := ?tsk), hTaskEnv := (hTaskEnv ?h1)(hNext h := Some e), hNext := Suc (hNext h)\<rparr>"
  let ?h3 = "?h2\<lparr>hEnvfiles := (hEnvfiles h)(e := merged_envfile (dp_merge_env p) (hEnvfiles h e) (hEnvfiles h e2))\<rparr>"
  let ?h4 = "put_stage new ((hStages ?h3 new)\<lparr>sTask := Some (hNext h)\<rparr>) ?h3"
  have o: "hStages ?h1 orig = hStages h orig" "hStages ?h2 orig = hStages h orig" "hStages ?h4 orig = hStages h orig"
    "hGraphs ?h1 gr = hGraphs h gr" "hTasks ?h1 t = hTasks h t" "hTaskEnv ?h1 t = Some e"
    using assms(1,4) by (simp_all add: put_stage_def)
  have m: "make_task ?tsk (Some e) ?h1 = (Inr (hNext h), ?h2)"
    by (simp add: make_task_def put_stage_def)
  have em: "envfileMerge p (Some e) e2 ?h2 = (Inr (), ?h3)"
    by (simp add: envfileMerge_def op_simps put_stage_def)
  have "from_task p new orig gr parents t ?h1 = (Inr (), ?h4)"
    using o m em assms(5)
    by (simp add: from_task_def get_bind op_bind_eval(1) EnvFile_some op_then_def)
      (simp add: upd_stage_def op_simps put_stage_def)
  then obtain h1 h4 where h1: "h1 = ?h1" and ft: "from_task p new orig gr parents t h1 = (Inr (), h4)" and h4: "h4 = ?h4"
    by blast
  have o4: "hStages h4 orig = hStages h orig" and o1: "hStages h1 orig = hStages h orig" using o by (simp_all add: h4 h1)
  have e4: "EnvFile orig h4 = (Inr e2, h4)" using o4 assms(5) by (simp add: EnvFile_some)
  have run: "FromStage p new orig gr parents h =
      upd_stage new (\<lambda>_ s. (WithEnvFile s (Some e2))\<lparr>sDependsOn := map (CascadeName parents) (sDependsOn (hStages h orig))\<rparr>) h4"
    unfolding FromStage_def upd_stage_then h1 [symmetric] get_bind o1 assms(2,3) option.case
    unfolding op_then_def
    by (simp add: op_bind_eval(1) ft e4 op_simps)
  obtain h' where h': "FromStage p new orig gr parents h = (Inr (), h')"
    unfolding run using upd_stage_ok by blast
  then have s: "hEnvfiles h' = hEnvfiles h4" "hTaskEnv h' = hTaskEnv h4" "sTask (hStages h' new) = sTask (hStages h4 new)"
    "\<And>x. x \<noteq> new \<Longrightarrow> hStages h' x = hStages h4 x" "hGraphs h' = hGraphs h4"
    "sPipeline (hStages h' new) = sPipeline (hStages h4 new)" "sEnvfile (hStages h' new) = Some e2" "hTable h' = hTable h4"
    unfolding run by (auto simp: upd_stage_def op_simps put_stage_def WithEnvFile_def)
  have p: "hEnvfiles h4 = (hEnvfiles h)(e := merged_envfile (dp_merge_env p) (hEnvfiles h e) (hEnvfiles h e2))"
    "hTaskEnv h4 (hNext h) = Some e" "sTask (hStages h4 new) = Some (hNext h)" "hGraphs h4 = hGraphs h"
    "\<And>x. x \<noteq> new \<Longrightarrow> hStages h4 x = hStages h x"
    "sPipeline (hStages h4 new) = sPipeline (hStages h new)" "hTable h4 = hTable h"
    by (simp_all add: h4 put_stage_def stage_base_def)
  show ?thesis
    using h' s p by (intro exI [of _ h']) (simp add: merged_envfile_def set_fold_add_path)
qed

text \<open>the env file of a stage leaks into the task of the configuration: the copy of a task has the
  original's env file, and the stage's paths are added to that one, so that every other stage that
  runs the task, in any pipeline, reads them as well.\<close>

theorem stage_envfile_leaks:
  assumes "FromStage p new orig gr parents h = (Inr (), h')" and "new \<noteq> orig"
    and "sTask (hStages h orig) = Some t" and "sPipeline (hStages h orig) = None"
    and "hTaskEnv h t = Some e" and "sEnvfile (hStages h orig) = Some e2"
  shows "set (PathValue (hEnvfiles h' e)) = set (PathValue (hEnvfiles h e)) \<union> set (PathValue (hEnvfiles h e2)) \<and>
    (\<exists>t'. sTask (hStages h' new) = Some t' \<and> hTaskEnv h' t' = Some e)"
  using assms(1) FromStage_runs [OF assms(2-6), of p gr parents] by auto

theorem stage_envfile_leaks_witness:
  "\<exists>h'. FromStage (in_order True) 40 15 3 [''r''] (nested_heap\<lparr>hEnvfiles := (\<lambda>_. NewEnvFile [])
       (31 := (NewEnvFile [])\<lparr>PathValue := [''stage.env'']\<rparr>), hStages := (hStages nested_heap)
       (15 := (hStages nested_heap 15)\<lparr>sEnvfile := Some 31\<rparr>)\<rparr>) = (Inr (), h') \<and>
     ''stage.env'' \<in> set (PathValue (hEnvfiles h' 30))"
proof -
  let ?h = "nested_heap\<lparr>hEnvfiles := (\<lambda>_. NewEnvFile [])(31 := (NewEnvFile [])\<lparr>PathValue := [''stage.env'']\<rparr>),
    hStages := (hStages nested_heap)(15 := (hStages nested_heap 15)\<lparr>sEnvfile := Some 31\<rparr>)\<rparr>"
  have s: "(40 :: ref) \<noteq> 15" "sTask (hStages ?h 15) = Some 20" "sPipeline (hStages ?h 15) = None" "hTaskEnv ?h 20 = Some 30"
    "sEnvfile (hStages ?h 15) = Some 31"
    by (simp_all add: nested_heap_def node_of_def NewStage_def)
  obtain h' where h': "FromStage (in_order True) 40 15 3 [''r''] ?h = (Inr (), h')"
    using FromStage_runs [OF s, of "in_order True" 3 "[''r'']"] by blast
  from stage_envfile_leaks [OF h' s] h' show ?thesis by auto
qed

section \<open>Further instances\<close>


definition self_heap :: heap where
  "self_heap = nested_heap\<lparr>hGraphs := \<lambda>_. graph_of ''m'' 10 [(''s'', 11)],
     hStages := (hStages nested_heap)(11 := node_of ''s'' None (Some 1))\<rparr>"

theorem nested_pipeline_never_flattened_witness:
  "Inr () \<notin> range (\<lambda>k. fst (Flatten (in_order True) k 1 ''s'' [''m''] self_heap))"
  by (rule nested_pipeline_never_flattened [where C = "{1}"])
    (auto simp: nested_in_itself_def runs_def self_heap_def nested_heap_def in_order_def graph_of_def node_of_def
      NewStage_def succs_def get_or_def RootNodeName_def empty_graph_def node_refs_def List.map_filter_simps
      root_stage_def UpdateStatus_def)

lemma flat_runs:
  "\<exists>h'. Flatten (in_order True) 3 3 RootNodeName [''r''] nested_heap = (Inr (), h') \<and>
     (\<exists>r t. hTable h' (CascadeName [''r''] ''z'') = Some r \<and> sTask (hStages h' r) = Some t)"
proof -
  let ?p = "in_order True"
  have g: "gNodes (hGraphs nested_heap 3) = [''z'' \<mapsto> 15, RootNodeName \<mapsto> 10]" "gChildren (hGraphs nested_heap 3) = [(RootNodeName, [''z''])]"
    "hNext nested_heap = 40" "hTaskEnv nested_heap 20 = Some 30"
    and s: "sTask (hStages nested_heap 15) = Some 20" "sPipeline (hStages nested_heap 15) = None"
      "sEnvfile (hStages nested_heap 15) = Some 30" "sName (hStages nested_heap 15) = ''z''"
    by (simp_all add: nested_heap_def graph_of_def node_of_def NewStage_def empty_graph_def)
  have ord: "dp_children ?p x n = succs (gChildren x) n" for x n by (simp add: in_order_def)
  obtain h1 where m: "make_stage (CascadeName [''r''] ''z'') nested_heap = (Inr 41, h1)"
    and h1: "hGraphs h1 = hGraphs nested_heap" "hStages h1 15 = hStages nested_heap 15" "hTaskEnv h1 = hTaskEnv nested_heap"
    by (auto simp: make_defs g)
  obtain h2 t' where f: "FromStage ?p 41 15 3 [''r''] h1 = (Inr (), h2)" "hGraphs h2 = hGraphs h1"
    "hStages h2 15 = hStages h1 15" "sTask (hStages h2 41) = Some t'"
    using FromStage_runs [of 41 15 h1 20 30 30 ?p 3 "[''r'']"] s h1 g by auto
  have z: "''z'' \<noteq> RootNodeName" by (simp add: RootNodeName_def)
  let ?h3 = "h2\<lparr>hTable := (hTable h2)(CascadeName [''r''] ''z'' \<mapsto> 41)\<rparr>"
  have n: "flatten_node ?p rec 3 ''z'' [''r''] nested_heap = (Inr (), ?h3)" for rec
    using f z s h1 by (simp add: flatten_node_def get_bind op_bind_eval(1) m op_then_def op_simps g)
  have c: "succs [(RootNodeName, [''z''])] RootNodeName = [''z'']" "succs [(RootNodeName, [''z''])] ''z'' = []"
    using z by (simp_all add: succs_def get_or_def)
  have inner: "Flatten ?p (Suc k) 3 ''z'' [''r''] nested_heap = (Inr (), ?h3)" for k
    using z f(2) h1(1) by (simp add: op_then_def op_bind_eval(1) n get_bind ord g c op_simps)
  have "Flatten ?p (Suc (Suc 1)) 3 RootNodeName [''r''] nested_heap = (Inr (), ?h3)"
    using z s(4)
    by (subst Flatten.simps) (simp add: op_then_def op_bind_eval(1) get_bind ord g c op_simps inner del: Flatten.simps)
  then show ?thesis using f(4) by (auto simp: numeral_3_eq_3)
qed


text \<open>Nothing fails while every stage has an env file.\<close>

lemma merge_stage_succeeds:
  assumes "\<forall>x. sEnvfile (hStages h x) \<noteq> None"
  shows "\<exists>h'. merge_stage p r h = (Inr (), h')"
proof -
  let ?P = "\<lambda>h :: heap. \<forall>x. sEnvfile (hStages h x) \<noteq> None"
  have st: "valid ?P (\<lambda>_. False) (upd_stage r f) (\<lambda>_. ?P)" if "\<And>h s. sEnvfile (f h s) = sEnvfile s" for r f
    unfolding upd_stage_def using that by (intro valid_modify) (simp add: put_stage_def)
  have tk: "valid ?P (\<lambda>_. False) (upd_task r f) (\<lambda>_. ?P)" for r f
    unfolding upd_task_def by (intro valid_modify) simp
  have ef: "valid ?P (\<lambda>_. False) (op_bind (op_get (\<lambda>h. sEnvfile (hStages h r))) (\<lambda>d. op_bind (EnvFile v) (envfileMerge p d)))
      (\<lambda>_. ?P)" for r v
  proof (rule valid_total)
    fix h assume P: "?P h"
    then obtain d e where "sEnvfile (hStages h r) = Some d" "sEnvfile (hStages h v) = Some e" by fastforce
    with P show "\<exists>x h'. op_bind (op_get (\<lambda>h. sEnvfile (hStages h r))) (\<lambda>d. op_bind (EnvFile v) (envfileMerge p d)) h =
        (Inr x, h') \<and> ?P h'"
      by (simp add: get_bind op_bind_eval(1) EnvFile_some envfileMerge_def op_simps)
  qed
  have "valid ?P (\<lambda>_. False) (merge_stage p r) (\<lambda>_. ?P)"
    unfolding merge_stage_def merge_parent_def merge_own_task_def
    by (intro valid_inv_get [where k = "\<lambda>ps. op_then (op_for ps _) _"] valid_inv_then valid_for st tk ef
        valid_inv_get [where k = "case_option _ _"] valid_case_option valid_inv_return) simp_all
  moreover obtain x h' where "merge_stage p r h = (x, h')" by fastforce
  ultimately show ?thesis using assms by (cases x) (auto dest: validD_Inl)
qed

definition env_heap :: heap where
  "env_heap = nested_heap\<lparr>hTable := [''m'' \<mapsto> 11], hStages := (hStages nested_heap)
     (11 := (hStages nested_heap 11)\<lparr>sEnv := [''A'' \<mapsto> GStr ''outer'']\<rparr>,
      15 := (hStages nested_heap 15)\<lparr>sName := ''m->z'', sEnv := [''A'' \<mapsto> GStr ''own'']\<rparr>)\<rparr>"


end
