(* ===== verification/Flattened.thy ===== *)
theory Flattened
  imports Flattening Scheduler
begin

text \<open>
  From \<open>Denormalize\<close> to \<open>Schedule\<close>: what a flattened pipeline is to the scheduler. The stages of the outer
  pipeline are copied under cascaded names with their conditions and their dependencies renamed alike, the
  recursion into nested pipelines only adds names that are longer, and the rebuilt graph has exactly the
  copies as its stages.
\<close>

section \<open>A copied stage\<close>

definition copy_of :: "string list \<Rightarrow> Stage \<Rightarrow> Stage \<Rightarrow> bool" where
  "copy_of ps old new \<longleftrightarrow> sStatus new = StatusWaiting \<and> sCondition new = sCondition old \<and>
     sAllowFailure new = sAllowFailure old \<and> sDependsOn new = map (CascadeName ps) (sDependsOn old)"

definition outlook :: "Stage \<Rightarrow> string \<times> status \<times> string \<times> bool" where
  "outlook s = (sName s, sStatus s, sCondition s, sAllowFailure s)"

lemma outlook_envfile_free: "envfile_free outlook" "envfile_free fixed"
  by (simp_all add: envfile_free_def outlook_def fixed_def WithEnvFile_def)

lemma frozen_from_task: "valid (frozen outlook N h0) any_error (from_task p c orig g ps t) (\<lambda>_. frozen outlook N h0)"
  unfolding from_task_def
  by (rule valid_inv_get, simp only: prod.case)
    (intro valid_inv_seq [OF frozen_make_task] valid_inv_seq [OF frozen_EnvFile] valid_inv_then frozen_merge
      frozen_upd_stage outlook_envfile_free disjI2; simp add: outlook_def)

lemma frozen_upd_graph: "N \<le> r \<Longrightarrow> valid (frozen f N h0) E (upd_graph r g) (\<lambda>_. frozen f N h0)"
  by (auto simp: valid_def frozen_def step_defs)

lemma frozen_from_pipeline:
  "valid (frozen outlook N h0) any_error (from_pipeline p c orig g ps q) (\<lambda>_. frozen outlook N h0)"
proof -
  have ef: "valid (frozen outlook N h0) any_error (case e of Some e \<Rightarrow> op_return e | None \<Rightarrow> make_envfile)
      (\<lambda>_. frozen outlook N h0)" for e
    by (intro valid_case_option frozen_make_envfile valid_inv_return)
  show ?thesis
    unfolding from_pipeline_def
    by (rule valid_inv_get, simp only: prod.case)
      (intro valid_inv_bind [OF frozen_make_graph] valid_inv_then frozen_upd_graph valid_inv_seq [OF frozen_EnvFile]
        frozen_merge valid_inv_seq [OF ef] frozen_upd_stage outlook_envfile_free disjI2; simp add: outlook_def)
qed

lemma FromStage_copy:
  assumes f: "FromStage p c orig g ps h = (Inr u, h')" and c: "c \<noteq> orig" "c < hNext h" and w: "sStatus (hStages h c) = StatusWaiting"
  shows "copy_of ps (hStages h orig) (hStages h' c) \<and> sName (hStages h' c) = sName (hStages h c)"
proof -
  let ?h1 = "put_stage c (stage_base (hGraphs h g) (hStages h orig) (hStages h c)) h"
  let ?old = "hStages h orig"
  have old: "hStages ?h1 orig = ?old" using c by (simp add: put_stage_def)
  from f obtain h2 h3 h4 oe where
    2: "(case sTask ?old of None \<Rightarrow> op_return () | Some t \<Rightarrow> from_task p c orig g ps t) ?h1 = (Inr (), h2)" and
    3: "(case sPipeline ?old of None \<Rightarrow> op_return () | Some q \<Rightarrow> from_pipeline p c orig g ps q) h2 = (Inr (), h3)" and
    4: "EnvFile orig h3 = (Inr oe, h4)" and
    5: "upd_stage c (\<lambda>_ s. (WithEnvFile s (Some oe))\<lparr>sDependsOn := map (CascadeName ps) (sDependsOn ?old)\<rparr>) h4 = (Inr (), h')"
    unfolding FromStage_def upd_stage_then get_bind old
    by (auto simp: op_then_def op_bind_Inr)
  let ?I = "frozen outlook (hNext h) ?h1"
  have 1: "?I ?h1" by (simp add: frozen_def put_stage_def)
  have "valid ?I any_error (case sTask ?old of None \<Rightarrow> op_return () | Some t \<Rightarrow> from_task p c orig g ps t) (\<lambda>_. ?I)"
    by (intro valid_case_option valid_inv_return frozen_from_task)
  from validD_Inr [OF this 1 2] have I2: "?I h2" .
  have "valid ?I any_error (case sPipeline ?old of None \<Rightarrow> op_return () | Some q \<Rightarrow> from_pipeline p c orig g ps q) (\<lambda>_. ?I)"
    by (intro valid_case_option valid_inv_return frozen_from_pipeline)
  from validD_Inr [OF this I2 3] have I3: "?I h3" .
  from validD_Inr [OF frozen_EnvFile I3 4] outlook_envfile_free have "?I h4" by blast
  then have "outlook (hStages h4 c) = outlook (hStages ?h1 c)" using c(2) by (simp add: frozen_def)
  moreover have "hStages h' c = (WithEnvFile (hStages h4 c) (Some oe))\<lparr>sDependsOn := map (CascadeName ps) (sDependsOn ?old)\<rparr>"
    using 5 by (auto simp: upd_stage_def op_simps put_stage_def)
  ultimately show ?thesis
    using w by (simp add: copy_of_def outlook_def WithEnvFile_def put_stage_def stage_base_def)
qed
text \<open>What copying a stage leaves alone.\<close>

definition same_table :: "(string \<rightharpoonup> ref) \<Rightarrow> ref \<Rightarrow> heap \<Rightarrow> bool" where
  "same_table T N h \<longleftrightarrow> hTable h = T \<and> N \<le> hNext h"

lemma same_table_EnvFile: "valid (same_table T N) any_error (EnvFile r) (\<lambda>_. same_table T N)"
  by (auto simp: valid_def EnvFile_def same_table_def op_bind_def op_then_def op_simps make_envfile_def upd_stage_def
      put_stage_def split: option.splits)

lemma same_table_invariant:
  assumes "N \<le> M"
  shows "heap_invariant (same_table T M) any_error N"
proof
  show "valid (same_table T M) any_error (own_task p r orig tsk ef) (\<lambda>_. same_table T M)" for p r orig tsk ef
    by (intro valid_own_task same_table_EnvFile) (auto simp: valid_def same_table_def make_defs step_defs split: option.split)
qed (use assms in \<open>auto simp: valid_def same_table_def make_defs step_defs split: option.split\<close>)

lemma FromStage_others:
  assumes f: "FromStage p c orig g ps h = (Inr u, h')" and c: "c \<le> hNext h"
  shows "hTable h' = hTable h" "hNext h \<le> hNext h'" "x < c \<Longrightarrow> fixed (hStages h' x) = fixed (hStages h x)"
proof -
  from validD_Inr [OF heap_invariant.from_stage [OF same_table_invariant [OF c] order.refl] _ f]
  have "same_table (hTable h) (hNext h) h'" by (simp add: same_table_def)
  then show "hTable h' = hTable h" "hNext h \<le> hNext h'" by (simp_all add: same_table_def)
  have "heap_invariant (frozen fixed c h) any_error c" by (rule frozen_invariant) (simp_all add: outlook_envfile_free)
  from validD_Inr [OF heap_invariant.from_stage [OF this order.refl] _ f] c
  have "frozen fixed c h h'" by (simp add: frozen_def)
  then show "x < c \<Longrightarrow> fixed (hStages h' x) = fixed (hStages h x)" by (simp add: frozen_def)
qed

lemma FromStage_frozen:
  assumes "FromStage p c orig g ps h = (Inr u, h')" and "N \<le> c" and "frozen way N h0 h"
  shows "frozen way N h0 h'"
proof -
  have "heap_invariant (frozen way N h0) any_error N" by (rule frozen_invariant) (simp_all add: way_envfile_free)
  from validD_Inr [OF heap_invariant.from_stage [OF this assms(2)] assms(3,1)] show ?thesis .
qed

section \<open>A nested pipeline that is not passed over\<close>

lemma peek_loop_skips:
  assumes "frozen way N h0 h" and "\<forall>x \<in> set xs. x < N \<and> (sName (hStages h0 x) = RootNodeName \<or> sPipeline (hStages h0 x) = None)"
  shows "peek_loop xs c orig h = (Inr orig, h)"
  using assms(2)
proof (induction xs)
  case (Cons x xs)
  then have "way (hStages h x) = way (hStages h0 x)" using assms(1) by (simp add: frozen_def)
  with Cons show ?case by (simp add: get_bind way_eq fixed_eq)
qed (simp add: op_simps)

lemma graphClone_skips:
  assumes c: "graphClone p q orig c name h = (Inr v, h')" and f: "frozen way N h0 h" and q: "not_passed_over p h0 N q" "q < N"
  shows "snd v = orig" "hTable h' = hTable h" "hNext h \<le> hNext h'" "x < hNext h \<Longrightarrow> hStages h' x = hStages h x"
    "frozen way N h0 h'"
proof -
  obtain sub h1 where m: "make_graph name h = (Inr sub, h1)" by (simp add: make_defs)
  have f1: "frozen way N h0 h1" using validD_Inr [OF frozen_make_graph f m] by blast
  then have "hGraphs h1 q = hGraphs h0 q" using q(2) by (simp add: frozen_def)
  with peek_loop_skips [OF f1] q(1)
  have p: "(if length (node_refs p (hGraphs h1 q)) = 2 then peek_loop (node_refs p (hGraphs h1 q)) c orig else op_return orig) h1 =
      (Inr orig, h1)"
    by (simp add: not_passed_over_def op_simps)
  have "graphClone p q orig c name h = (Inr (sub, orig), h1)"
    by (simp add: graphClone_def op_bind_eval(1) m get_bind p op_simps)
  with c have "v = (sub, orig)" "h' = h1" by auto
  with m f1 show "snd v = orig" "hTable h' = hTable h" "hNext h \<le> hNext h'" "x < hNext h \<Longrightarrow> hStages h' x = hStages h x"
    "frozen way N h0 h'" by (auto simp: make_defs)
qed

section \<open>The copies of the outer pipeline\<close>

lemma segments_nested: "segments X + 2 \<le> segments (CascadeName (X # Y # rest) n)"
proof -
  let ?s = "\<lambda>x. Split x PipelineDirectionChar"
  have "CascadeName (X # Y # rest) n = Join (X # Y # rest @ [n]) PipelineDirectionChar"
    by (simp add: CascadeName_def Join_Cons Join_append [of "Y # rest" "[n]", simplified])
  then have "?s (CascadeName (X # Y # rest) n) = ?s X @ ?s Y @ concat (map ?s rest) @ ?s n"
    using Split_Join_concat [OF unbordered_dir, of "X # Y # rest @ [n]"] by simp
  moreover have "0 < length (?s Y)" "0 < length (?s n)" by simp_all
  ultimately show ?thesis by (simp add: segments_def del: length_greater_0_conv)
qed

lemma segments_outer: "segment n \<Longrightarrow> segments (CascadeName [X] n) = segments X + 1"
proof -
  assume n: "segment n"
  have "CascadeName [X] n = Join [X, n] PipelineDirectionChar" by (simp add: CascadeName_def)
  then have "Split (CascadeName [X] n) PipelineDirectionChar = Split X PipelineDirectionChar @ Split n PipelineDirectionChar"
    using Split_Join_concat [OF unbordered_dir, of "[X, n]"] by simp
  then show ?thesis using n by (simp add: segments_def segment_def Split_none)
qed

definition copied :: "ref \<Rightarrow> string \<Rightarrow> ExecutionGraph \<Rightarrow> heap \<Rightarrow> string set \<Rightarrow> heap \<Rightarrow> bool" where
  "copied N X gr h0 A h \<longleftrightarrow> A \<subseteq> dom (hTable h) \<and>
     (\<forall>k r. hTable h k = Some r \<longrightarrow> N \<le> r \<and> r < hNext h \<and> sName (hStages h r) = k \<and>
       ((\<exists>n orig. k = CascadeName [X] n \<and> n \<noteq> RootNodeName \<and> gNodes gr n = Some orig \<and>
          copy_of [X] (hStages h0 orig) (hStages h r)) \<or> segments X + 2 \<le> segments k))"

lemma copied_step:
  assumes "copied N X gr h0 A h" and "hTable h' = hTable h" and "hNext h \<le> hNext h'"
    and "\<And>x. x < hNext h \<Longrightarrow> fixed (hStages h' x) = fixed (hStages h x)"
  shows "copied N X gr h0 A h'"
proof -
  have same: "copy_of ps s (hStages h' r) \<longleftrightarrow> copy_of ps s (hStages h r)" "sName (hStages h' r) = sName (hStages h r)"
    if "r < hNext h" for ps s r
    using assms(4) [OF that] by (simp_all add: copy_of_def fixed_eq)
  show ?thesis
    unfolding copied_def assms(2)
  proof (intro conjI allI impI)
    show "A \<subseteq> dom (hTable h)" using assms(1) by (simp add: copied_def)
    fix k r assume "hTable h k = Some r"
    with assms(1) have r: "N \<le> r \<and> r < hNext h \<and> sName (hStages h r) = k \<and>
       ((\<exists>n orig. k = CascadeName [X] n \<and> n \<noteq> RootNodeName \<and> gNodes gr n = Some orig \<and>
          copy_of [X] (hStages h0 orig) (hStages h r)) \<or> segments X + 2 \<le> segments k)"
      by (simp add: copied_def)
    with assms(3) same [of r] show "N \<le> r" "r < hNext h'" "sName (hStages h' r) = k"
      "(\<exists>n orig. k = CascadeName [X] n \<and> n \<noteq> RootNodeName \<and> gNodes gr n = Some orig \<and>
          copy_of [X] (hStages h0 orig) (hStages h' r)) \<or> segments X + 2 \<le> segments k" by simp_all
  qed
qed

text \<open>Where a recursion is: in the outer pipeline, or in one nested in it.\<close>

definition outer :: "ref \<Rightarrow> string \<Rightarrow> ref \<Rightarrow> string list \<Rightarrow> bool" where
  "outer g0 X g ps \<longleftrightarrow> g = g0 \<and> ps = [X]"

definition inner :: "string \<Rightarrow> string list \<Rightarrow> bool" where
  "inner X ps \<longleftrightarrow> 2 \<le> length ps \<and> hd ps = X"

lemma inner_key: "inner X ps \<Longrightarrow> segments X + 2 \<le> segments (CascadeName ps n)"
proof -
  assume "inner X ps"
  then obtain Y rest where "ps = X # Y # rest" by (cases ps; cases "tl ps") (auto simp: inner_def)
  then show ?thesis using segments_nested by simp
qed

lemma inner_nested: "outer g0 X g ps \<or> inner X ps \<Longrightarrow> inner X (ps @ [nm])"
  by (cases ps) (auto simp: outer_def inner_def)

lemma copied_mono: "copied N X gr h0 A h \<Longrightarrow> B \<subseteq> A \<Longrightarrow> copied N X gr h0 B h"
  by (auto simp: copied_def)

lemma op_for_keeps:
  assumes "op_for xs f h = (Inr u, h')" and "\<And>x h h' u. x \<in> set xs \<Longrightarrow> f x h = (Inr u, h') \<Longrightarrow> P h \<Longrightarrow> P h'" and "P h"
  shows "P h'"
  using assms
proof (induction xs arbitrary: h)
  case (Cons x xs)
  from Cons.prems(1) obtain v h1 where 1: "f x h = (Inr v, h1)" "op_for xs f h1 = (Inr u, h')"
    by (auto simp: op_then_def op_bind_Inr)
  show ?case
    by (rule Cons.IH [OF 1(2)]) (use Cons.prems(2,3) 1(1) in auto)
qed (simp add: op_simps)

lemma flatten_nested_copied:
  assumes f: "flatten_nested p rec orig c name ps q h = (Inr u, h')" and fr: "frozen way N h0 h"
    and cp: "copied N X gr h0 A h" and q: "not_passed_over p h0 N q" "q < N" and o: "orig < N" "sPipeline (hStages h0 orig) = Some q"
    and c: "N \<le> c"
    and rec: "\<And>n nm h h' u. rec q n (ps @ [nm]) h = (Inr u, h') \<Longrightarrow> frozen way N h0 h \<Longrightarrow> copied N X gr h0 A h \<Longrightarrow>
      frozen way N h0 h' \<and> copied N X gr h0 A h'"
  shows "frozen way N h0 h' \<and> copied N X gr h0 A h'"
proof -
  from f obtain sub o2 h1 where g: "graphClone p q orig c name h = (Inr (sub, o2), h1)"
    and r: "op_bind (op_get (\<lambda>h. sPipeline (hStages h o2))) (\<lambda>q. case q of
       None \<Rightarrow> op_throw DnNil
     | Some q \<Rightarrow>
         op_then (op_bind (op_get (\<lambda>h. dp_nodes p (hGraphs h q))) (\<lambda>ns.
           op_for ns (\<lambda>n. op_bind (op_get (\<lambda>h. sName (hStages h o2))) (\<lambda>nm. rec q n (ps @ [nm])))))
         (upd_stage c (\<lambda>_ s. s\<lparr>sPipeline := Some sub\<rparr>))) h1 = (Inr u, h')"
    by (auto simp: flatten_nested_def op_bind_Inr)
  note k = graphClone_skips [OF g fr q]
  have o2: "o2 = orig" using k(1) by simp
  have c1: "copied N X gr h0 A h1" by (rule copied_step [OF cp k(2,3)]) (simp add: k(4))
  have "way (hStages h1 orig) = way (hStages h0 orig)" using k(5) o(1) by (simp add: frozen_def)
  then have "sPipeline (hStages h1 orig) = Some q" using o(2) by (simp add: way_eq)
  with r obtain v h2 where 2: "op_for (dp_nodes p (hGraphs h1 q))
      (\<lambda>n. op_bind (op_get (\<lambda>h. sName (hStages h orig))) (\<lambda>nm. rec q n (ps @ [nm]))) h1 = (Inr v, h2)"
    and 3: "upd_stage c (\<lambda>_ s. s\<lparr>sPipeline := Some sub\<rparr>) h2 = (Inr u, h')"
    by (auto simp: o2 get_bind op_then_def op_bind_Inr)
  have "frozen way N h0 h2 \<and> copied N X gr h0 A h2"
  proof (rule op_for_keeps [where P = "\<lambda>h. frozen way N h0 h \<and> copied N X gr h0 A h", OF 2])
    fix m s s' u
    assume "op_bind (op_get (\<lambda>h. sName (hStages h orig))) (\<lambda>nm. rec q m (ps @ [nm])) s = (Inr u, s')"
      and "frozen way N h0 s \<and> copied N X gr h0 A s"
    then show "frozen way N h0 s' \<and> copied N X gr h0 A s'" using rec by (auto simp: get_bind)
  qed (use k(5) c1 in simp)
  moreover from 3 have "h' = put_stage c ((hStages h2 c)\<lparr>sPipeline := Some sub\<rparr>) h2"
    by (simp add: upd_stage_def op_simps)
  ultimately show ?thesis
    using c by (auto simp: frozen_def put_stage_def fixed_def elim!: copied_step)
qed

lemma flatten_node_copied:
  assumes f: "flatten_node p rec g n ps h = (Inr u, h')" and n: "n \<noteq> RootNodeName" and fr: "frozen way N h0 h"
    and cp: "copied N X (hGraphs h0 g0) h0 A h" and g: "g < N"
    and at: "outer g0 X g ps \<or> inner X ps"
    and o: "\<And>r. gNodes (hGraphs h0 g) n = Some r \<Longrightarrow> r < N \<and>
      (\<forall>q. sPipeline (hStages h0 r) = Some q \<longrightarrow> q < N \<and> not_passed_over p h0 N q)"
    and rec: "\<And>r q m nm A h h' u. gNodes (hGraphs h0 g) n = Some r \<Longrightarrow> sPipeline (hStages h0 r) = Some q \<Longrightarrow>
      rec q m (ps @ [nm]) h = (Inr u, h') \<Longrightarrow> frozen way N h0 h \<Longrightarrow> copied N X (hGraphs h0 g0) h0 A h \<Longrightarrow>
      frozen way N h0 h' \<and> copied N X (hGraphs h0 g0) h0 A h'"
  shows "frozen way N h0 h' \<and> copied N X (hGraphs h0 g0) h0 (insert (CascadeName ps n) A) h'"
proof -
  let ?k = "CascadeName ps n"
  obtain c h1 where m: "make_stage ?k h = (Inr c, h1)" by (simp add: make_defs)
  then have h1: "c = Suc (hNext h)" "hNext h1 = Suc c" "hTable h1 = hTable h" "hGraphs h1 = hGraphs h"
    "\<And>x. x < hNext h \<Longrightarrow> hStages h1 x = hStages h x" "sStatus (hStages h1 c) = StatusWaiting"
    "sName (hStages h1 c) = ?k"
    by (auto simp: make_defs NewStage_def)
  have Nh: "N \<le> hNext h" using fr by (simp add: frozen_def)
  have fr1: "frozen way N h0 h1" using fr Nh h1(1,2,4,5) by (simp add: frozen_def)
  have hg: "hGraphs h g = hGraphs h0 g" using fr g by (simp add: frozen_def)
  from f obtain r where r: "gNodes (hGraphs h0 g) n = Some r"
    and rest: "op_then (FromStage p c r g ps) (op_then (op_modify (\<lambda>h. h\<lparr>hTable := (hTable h)(?k \<mapsto> c)\<rparr>))
         (op_bind (op_get (\<lambda>h. sPipeline (hStages h r))) (\<lambda>q. case q of
            None \<Rightarrow> op_return ()
          | Some q \<Rightarrow> flatten_nested p rec r c ?k ps q))) h1 = (Inr u, h')"
    by (auto simp: flatten_node_def get_bind hg op_bind_eval(1) m op_simps split: option.splits)
  note or = o [OF r]
  from rest obtain v h2 where 2: "FromStage p c r g ps h1 = (Inr v, h2)"
    and 3: "(case sPipeline (hStages (h2\<lparr>hTable := (hTable h2)(?k \<mapsto> c)\<rparr>) r) of None \<Rightarrow> op_return ()
          | Some q \<Rightarrow> flatten_nested p rec r c ?k ps q) (h2\<lparr>hTable := (hTable h2)(?k \<mapsto> c)\<rparr>) = (Inr u, h')"
    by (auto simp: op_then_def op_bind_Inr op_simps)
  let ?h = "h2\<lparr>hTable := (hTable h2)(?k \<mapsto> c)\<rparr>"
  have cn: "c \<noteq> r" "c < hNext h1" "c \<le> hNext h1" "N \<le> c" using or Nh h1(1,2) by auto
  note s = FromStage_others [OF 2 cn(3)] and fr2 = FromStage_frozen [OF 2 cn(4) fr1]
  have "way (hStages h1 r) = way (hStages h0 r)" using fr1 or by (simp add: frozen_def)
  then have cpy: "copy_of ps (hStages h0 r) (hStages h2 c)" "sName (hStages h2 c) = ?k"
    using h1(7) FromStage_copy [OF 2 cn(1,2) h1(6)] by (simp_all add: copy_of_def way_eq fixed_eq)
  have cp2: "copied N X (hGraphs h0 g0) h0 A h2"
    by (rule copied_step [OF cp]) (use s h1 in auto)
  have frt: "frozen way N h0 ?h" using fr2 by (simp add: frozen_def)
  have "c < hNext h2" using s(2) h1(2) by simp
  moreover have "(\<exists>n orig. ?k = CascadeName [X] n \<and> n \<noteq> RootNodeName \<and> gNodes (hGraphs h0 g0) n = Some orig \<and>
      copy_of [X] (hStages h0 orig) (hStages h2 c)) \<or> segments X + 2 \<le> segments ?k"
    using at inner_key [of X ps n] cpy r n by (auto simp: outer_def)
  ultimately have cpt: "copied N X (hGraphs h0 g0) h0 (insert ?k A) ?h" using cp2 cpy(2) cn(4) by (auto simp: copied_def)
  have pr: "sPipeline (hStages ?h r) = sPipeline (hStages h0 r)" using frt or by (simp add: frozen_def way_eq)
  show ?thesis
  proof (cases "sPipeline (hStages h0 r)")
    case None
    then show ?thesis using 3 pr frt cpt by (auto simp: op_simps)
  next
    case (Some q)
    with 3 pr have n: "flatten_nested p rec r c ?k ps q ?h = (Inr u, h')" by simp
    show ?thesis
      by (rule flatten_nested_copied [OF n frt cpt]) (use or Some cn rec [OF r Some] in auto)
  qed
qed
text \<open>The keys of the stages that a node leads to.\<close>

definition keys_from :: "string \<Rightarrow> ExecutionGraph \<Rightarrow> string \<Rightarrow> string set" where
  "keys_from X gr n = CascadeName [X] ` ({m. (n, m) \<in> (edges (gChildren gr))\<^sup>*} - {RootNodeName})"

lemma keys_from_step:
  "keys_from X gr n = (if n = RootNodeName then {} else {CascadeName [X] n}) \<union>
     (\<Union>c \<in> set (succs (gChildren gr) n). keys_from X gr c)"
proof -
  have "{m. (n, m) \<in> (edges (gChildren gr))\<^sup>*} =
      insert n (\<Union>c \<in> set (succs (gChildren gr) n). {m. (c, m) \<in> (edges (gChildren gr))\<^sup>*})"
    by (auto elim: converse_rtranclE intro: converse_rtrancl_into_rtrancl)
  then show ?thesis by (auto simp: keys_from_def)
qed

lemma children_copied:
  assumes f: "op_for (map gn cs) (\<lambda>c. case c of None \<Rightarrow> op_throw DnNil
      | Some r \<Rightarrow> op_bind (op_get (\<lambda>h. sName (hStages h r))) rec) h = (Inr u, h')"
    and nm: "\<And>c r. c \<in> set cs \<Longrightarrow> gn c = Some r \<Longrightarrow> r < N \<and> sName (hStages h0 r) = c"
    and rec: "\<And>c A h h' u. c \<in> set cs \<Longrightarrow> rec c h = (Inr u, h') \<Longrightarrow> frozen way N h0 h \<Longrightarrow> copied N X gr h0 A h \<Longrightarrow>
      frozen way N h0 h' \<and> copied N X gr h0 (A \<union> B c) h'"
    and "frozen way N h0 h" and "copied N X gr h0 A h"
  shows "frozen way N h0 h' \<and> copied N X gr h0 (A \<union> (\<Union>c \<in> set cs. B c)) h'"
  using assms
proof (induction cs arbitrary: h A)
  case (Cons c cs)
  from Cons.prems(1) obtain r where r: "gn c = Some r" by (auto simp: op_then_def op_bind_Inr op_simps split: option.splits)
  from Cons.prems(2) [OF _ r] Cons.prems(4) have "way (hStages h r) = way (hStages h0 r)" by (simp add: frozen_def)
  with Cons.prems(2) [OF _ r] have "sName (hStages h r) = c" by (simp add: way_eq fixed_eq)
  with Cons.prems(1) r obtain v h1 where 1: "rec c h = (Inr v, h1)"
    "op_for (map gn cs) (\<lambda>c. case c of None \<Rightarrow> op_throw DnNil
      | Some r \<Rightarrow> op_bind (op_get (\<lambda>h. sName (hStages h r))) rec) h1 = (Inr u, h')"
    by (auto simp: op_then_def op_bind_Inr op_simps)
  from Cons.prems(3) [OF _ 1(1) Cons.prems(4,5)]
  have 2: "frozen way N h0 h1" "copied N X gr h0 (A \<union> B c) h1" by simp_all
  have "frozen way N h0 h' \<and> copied N X gr h0 ((A \<union> B c) \<union> (\<Union>c \<in> set cs. B c)) h'"
  proof (rule Cons.IH [OF 1(2) _ _ 2])
    show "r < N \<and> sName (hStages h0 r) = c'" if "c' \<in> set cs" "gn c' = Some r" for c' r
      by (rule Cons.prems(2)) (use that in simp_all)
    show "frozen way N h0 h' \<and> copied N X gr h0 (A \<union> B c') h'"
      if "c' \<in> set cs" "rec c' h = (Inr u, h')" "frozen way N h0 h" "copied N X gr h0 A h" for c' A h h' u
      by (rule Cons.prems(3) [OF _ that(2-4)]) (use that(1) in simp)
  qed
  then show ?case by (simp add: Un_assoc)
qed (simp add: op_simps)

lemma Flatten_copied:
  assumes lv: "levelled p h0 N G lev" and g0: "g0 \<in> G"
    and ch: "\<And>n. set (dp_children p (hGraphs h0 g0) n) = set (succs (gChildren (hGraphs h0 g0)) n)"
  shows "Flatten p k g n ps h = (Inr u, h') \<Longrightarrow> g \<in> G \<Longrightarrow> outer g0 X g ps \<or> inner X ps \<Longrightarrow> frozen way N h0 h \<Longrightarrow>
    copied N X (hGraphs h0 g0) h0 A h \<Longrightarrow>
    frozen way N h0 h' \<and>
    copied N X (hGraphs h0 g0) h0 (A \<union> (if outer g0 X g ps then keys_from X (hGraphs h0 g0) n else {})) h'"
proof (induction k arbitrary: g n ps h h' u A)
  case 0
  then show ?case by (simp add: op_simps)
next
  case (Suc k)
  let ?gr = "hGraphs h0 g0"
  have gN: "g < N" using lv Suc.prems(2) by (simp add: levelled_def)
  have child: "r < N \<and> sName (hStages h0 r) = c"
    if "c \<in> set (dp_children p (hGraphs h0 g) n)" "gNodes (hGraphs h0 g) c = Some r" for c r
    using lv Suc.prems(2) that unfolding levelled_def by blast
  have nested: "r < N \<and> (\<forall>q. sPipeline (hStages h0 r) = Some q \<longrightarrow> q \<in> G \<and> q < N \<and> not_passed_over p h0 N q)"
    if "n \<noteq> RootNodeName" "gNodes (hGraphs h0 g) n = Some r" for r
    using lv Suc.prems(2) that unfolding levelled_def by blast
  from Suc.prems(1) obtain v h1 where
    1: "(if n = RootNodeName then op_return () else flatten_node p (Flatten p k) g n ps) h = (Inr v, h1)" and
    2: "op_for (map (gNodes (hGraphs h1 g)) (dp_children p (hGraphs h1 g) n)) (\<lambda>c. case c of None \<Rightarrow> op_throw DnNil
       | Some r \<Rightarrow> op_bind (op_get (\<lambda>h. sName (hStages h r))) (\<lambda>nm. Flatten p k g nm ps)) h1 = (Inr u, h')"
    by (auto simp: op_then_def op_bind_Inr get_bind)
  let ?own = "if n = RootNodeName then {} else {CascadeName ps n}"
  have own: "frozen way N h0 h1 \<and> copied N X ?gr h0 (A \<union> ?own) h1"
  proof (cases "n = RootNodeName")
    case True
    with 1 Suc.prems(4,5) show ?thesis by (simp add: op_simps)
  next
    case False
    with 1 have f: "flatten_node p (Flatten p k) g n ps h = (Inr v, h1)" by simp
    have "frozen way N h0 h1 \<and> copied N X ?gr h0 (insert (CascadeName ps n) A) h1"
    proof (rule flatten_node_copied [OF f False Suc.prems(4,5) gN Suc.prems(3)])
      fix r q m nm A h h' u
      assume r: "gNodes (hGraphs h0 g) n = Some r" "sPipeline (hStages h0 r) = Some q"
        and F: "Flatten p k q m (ps @ [nm]) h = (Inr u, h')" "frozen way N h0 h" "copied N X ?gr h0 A h"
      have i: "inner X (ps @ [nm])" using Suc.prems(3) by (rule inner_nested)
      then have "\<not> outer g0 X q (ps @ [nm])" by (auto simp: inner_def outer_def)
      with Suc.IH [OF F(1) _ disjI2 [OF i] F(2,3)] nested [OF False r(1)] r(2)
      show "frozen way N h0 h' \<and> copied N X ?gr h0 A h'" by simp
    qed (use nested [OF False] in blast)
    with False show ?thesis by simp
  qed
  then have hg: "hGraphs h1 g = hGraphs h0 g" using gN by (simp add: frozen_def)
  let ?B = "\<lambda>c. if outer g0 X g ps then keys_from X ?gr c else {}"
  have "frozen way N h0 h' \<and> copied N X ?gr h0 ((A \<union> ?own) \<union> (\<Union>c \<in> set (dp_children p (hGraphs h0 g) n). ?B c)) h'"
    by (rule children_copied [OF 2 [unfolded hg]])
      (use child Suc.IH [OF _ Suc.prems(2,3)] own in auto)
  moreover have "(if outer g0 X g ps then keys_from X ?gr n else {}) \<subseteq> ?own \<union> (\<Union>c \<in> set (dp_children p (hGraphs h0 g) n). ?B c)"
    using keys_from_step [of X ?gr n] ch [of n] by (auto simp: outer_def split: if_splits)
  ultimately show ?case
    using copied_mono [of N X ?gr h0 "(A \<union> ?own) \<union> (\<Union>c \<in> set (dp_children p (hGraphs h0 g) n). ?B c)" h']
    by (metis (no_types, lifting) Un_assoc Un_mono order.refl)
qed
section \<open>The rebuilt graph\<close>

text \<open>The table, the graph that is built, and what a schedule reads of the stages there were when the
  building began.\<close>

definition settled :: "heap \<Rightarrow> ref \<Rightarrow> ExecutionGraph \<Rightarrow> heap \<Rightarrow> bool" where
  "settled h0 dg g h \<longleftrightarrow> hTable h = hTable h0 \<and> hNext h0 \<le> hNext h \<and> hGraphs h dg = g \<and>
     (\<forall>r < hNext h0. fixed (hStages h r) = fixed (hStages h0 r))"

interpretation rb: rebuild_invariant "settled h0 dg g" any_error for h0 dg g
proof
  show "valid (settled h0 dg g) any_error (upd_stage r f) (\<lambda>_. settled h0 dg g)"
    if "\<And>h s. fixed (f h s) = fixed s" for h0 dg g r f
    using that by (auto simp: valid_def settled_def step_defs)
qed (auto simp: valid_def settled_def step_defs upd_task_def make_defs split: option.split)

lemma settled_make_graph:
  "dg < hNext h0 \<Longrightarrow> valid (settled h0 dg g) any_error (make_graph n) (\<lambda>r h. settled h0 dg g h \<and> r \<noteq> dg)"
  by (auto simp: valid_def settled_def make_defs)

lemma settled_add_stage: "gr \<noteq> dg \<Longrightarrow> valid (settled h0 dg g) any_error (add_stage gr r) (\<lambda>_. settled h0 dg g)"
  by (auto simp: valid_def settled_def add_stage_def split: sum.split)

text \<open>What comes before a stage is added, for a recursion that leaves the graph alone.\<close>

lemma settled_rebuild_part:
  assumes "dg < hNext h0" and "\<And>ng. ng \<noteq> dg \<Longrightarrow> valid (settled h0 dg g) any_error (rec ng) (\<lambda>_. settled h0 dg g)"
  shows "valid (settled h0 dg g) any_error (if sPipeline s = None then op_return ()
      else op_bind (make_graph (sName s)) (\<lambda>ng. op_then (rec ng) (upd_stage r (\<lambda>_ s. s\<lparr>sPipeline := Some ng\<rparr>))))
      (\<lambda>_. settled h0 dg g)"
  by (cases "sPipeline s = None")
    (auto simp: fixed_def intro!: valid_inv_return valid_inv_bind [OF settled_make_graph] valid_inv_then assms rb.upd_stage)

lemma rebuild_settled:
  assumes "dg < hNext h0"
  shows "gr \<noteq> dg \<Longrightarrow> valid (settled h0 dg g) any_error (rebuildFromDenormalized p m gr) (\<lambda>_. settled h0 dg g)"
proof (induction m arbitrary: gr)
  case 0
  show ?case by (simp add: valid_throw)
next
  case (Suc m)
  show ?case
    unfolding rebuildFromDenormalized.simps rebuild_stage_def
    by (intro valid_inv_get valid_for valid_inv_then settled_rebuild_part rb.merge_stage settled_add_stage assms Suc)
qed

lemma AddStage_cong:
  "sName s = sName s' \<Longrightarrow> sDependsOn s = sDependsOn s' \<Longrightarrow> AddStage g r s = AddStage g r s'"
  by (simp add: AddStage_def Let_def)

lemma rebuild_stage_adds:
  assumes d: "dg < hNext h0" and r: "r < hNext h0" and s: "settled h0 dg g h"
    and b: "rebuild_stage p (rebuildFromDenormalized p m) dg r h = (Inr u, h')"
  shows "\<exists>g'. AddStage g r (hStages h0 r) = Inr g' \<and> settled h0 dg g' h'"
proof -
  from b obtain v h1 h2 where
    1: "(if sPipeline (hStages h r) = None then op_return ()
       else op_bind (make_graph (sName (hStages h r))) (\<lambda>ng. op_then (rebuildFromDenormalized p m ng)
         (upd_stage r (\<lambda>_ s. s\<lparr>sPipeline := Some ng\<rparr>)))) h = (Inr v, h1)" and
    2: "merge_stage p r h1 = (Inr (), h2)" and 3: "add_stage dg r h2 = (Inr u, h')"
    by (auto simp: rebuild_stage_def get_bind op_then_def op_bind_Inr)
  have "settled h0 dg g h1" by (rule validD_Inr [OF settled_rebuild_part [OF d rebuild_settled [OF d]] s 1])
  from validD_Inr [OF rb.merge_stage this 2] have s2: "settled h0 dg g h2" .
  from 3 obtain g' where a: "AddStage (hGraphs h2 dg) r (hStages h2 r) = Inr g'"
    and h': "h' = h2\<lparr>hGraphs := (hGraphs h2)(dg := g')\<rparr>"
    by (auto simp: add_stage_def split: sum.splits)
  have "fixed (hStages h2 r) = fixed (hStages h0 r)" using s2 r by (simp add: settled_def)
  with a s2 have "AddStage g r (hStages h0 r) = Inr g'"
    by (simp add: settled_def fixed_eq AddStage_cong [of "hStages h2 r" "hStages h0 r"])
  with s2 h' show ?thesis by (auto simp: settled_def)
qed

lemma rebuild_adds:
  assumes d: "dg < hNext h0"
  shows "op_for sts (rebuild_stage p (rebuildFromDenormalized p m) dg) h = (Inr u, h') \<Longrightarrow> \<forall>r \<in> set sts. r < hNext h0 \<Longrightarrow>
    settled h0 dg g h \<Longrightarrow>
    \<exists>g'. fold_res (\<lambda>rs g. AddStage g (fst rs) (snd rs)) (map (\<lambda>r. (r, hStages h0 r)) sts) g = Inr g' \<and> settled h0 dg g' h'"
proof (induction sts arbitrary: h g)
  case Nil
  then show ?case by (simp add: op_simps)
next
  case (Cons r sts)
  from Cons.prems(1) obtain v h1 where 1: "rebuild_stage p (rebuildFromDenormalized p m) dg r h = (Inr v, h1)"
    "op_for sts (rebuild_stage p (rebuildFromDenormalized p m) dg) h1 = (Inr u, h')"
    by (auto simp: op_then_def op_bind_Inr)
  from rebuild_stage_adds [OF d _ Cons.prems(3) 1(1)] Cons.prems(2)
  obtain g1 where g1: "AddStage g r (hStages h0 r) = Inr g1" "settled h0 dg g1 h1" by auto
  from Cons.IH [OF 1(2) _ g1(2)] Cons.prems(2) g1(1) show ?case by simp
qed

lemma rebuild_builds:
  assumes d: "dg < hNext h0" and e: "hGraphs h0 dg = empty_graph r0 X"
    and t: "\<And>k r. (k, r) \<in> set (dp_table p (hTable h0)) \<Longrightarrow> r < hNext h0"
    and b: "rebuildFromDenormalized p m dg h0 = (Inr u, h')"
    and sts: "sts = NthLevelChildren (dp_table p (hTable h0)) X 1"
  shows "\<exists>g'. NewExecutionGraph r0 X (map (\<lambda>r. (r, hStages h0 r)) sts) = Inr g' \<and> settled h0 dg g' h'"
proof -
  have n: "gName (hGraphs h0 dg) = X" by (simp add: e empty_graph_def)
  from b obtain k where "op_for sts (rebuild_stage p (rebuildFromDenormalized p k) dg) h0 = (Inr u, h')"
    by (cases m) (auto simp: op_simps get_bind n sts)
  from rebuild_adds [OF d this, of "empty_graph r0 X"] t e show ?thesis
    by (auto simp: settled_def sts NthLevelChildren_def NewExecutionGraph_def)
qed

section \<open>The graph that is scheduled\<close>

text \<open>A graph whose nodes can be reached from the root and have names without the separator, and one whose stages
  depend on nodes other than the root.\<close>

definition plain_names :: "ExecutionGraph \<Rightarrow> bool" where
  "plain_names gr \<longleftrightarrow> (\<forall>n \<in> dom (gNodes gr). (RootNodeName, n) \<in> (edges (gChildren gr))\<^sup>* \<and>
     (n \<noteq> RootNodeName \<longrightarrow> segment n))"

definition plain_source :: "heap \<Rightarrow> ExecutionGraph \<Rightarrow> bool" where
  "plain_source h gr \<longleftrightarrow> plain_names gr \<and>
     (\<forall>n r. gNodes gr n = Some r \<longrightarrow> n \<noteq> RootNodeName \<longrightarrow>
        (\<forall>d \<in> set (sDependsOn (hStages h r)). d \<noteq> RootNodeName \<and> gNodes gr d \<noteq> None))"

definition lists_table :: "denorm_params \<Rightarrow> (string \<rightharpoonup> ref) \<Rightarrow> bool" where
  "lists_table p T \<longleftrightarrow> distinct (map fst (dp_table p T)) \<and> set (dp_table p T) = {(k, r). T k = Some r}"

lemma key_inj: "CascadeName [X] a = CascadeName [X] b \<longleftrightarrow> a = b"
  by (simp add: CascadeName_def)

lemma key_not_root: "CascadeName ps n \<noteq> RootNodeName"
proof
  assume "CascadeName ps n = RootNodeName"
  then have "set PipelineDirectionChar \<subseteq> set RootNodeName" by (metis CascadeName_def Un_upper1 le_supI2 set_append)
  then show False by (simp add: PipelineDirectionChar_def RootNodeName_def)
qed

lemma below_key:
  assumes "segment n"
  shows "below_by X 1 (CascadeName [X] n)"
  using segments_outer [OF assms, of X]
  by (simp add: below_by_exact_lemma segments_def CascadeName_def dir_nonempty)

lemma levelled_later:
  assumes "levelled p h N G lev" and "N \<le> N'" and "\<And>x. x < N \<Longrightarrow> hGraphs h' x = hGraphs h x \<and> hStages h' x = hStages h x"
  shows "levelled p h' N' G lev"
  unfolding levelled_def
proof (intro ballI conjI allI impI)
  fix g assume g: "g \<in> G"
  have l: "g < N" "\<And>n c r. c \<in> set (dp_children p (hGraphs h g) n) \<Longrightarrow> gNodes (hGraphs h g) c = Some r \<Longrightarrow>
        r < N \<and> sName (hStages h r) = c \<and> lev g c < lev g n"
    "\<And>n r. n \<noteq> RootNodeName \<Longrightarrow> gNodes (hGraphs h g) n = Some r \<Longrightarrow> r < N \<and>
        (\<forall>q. sPipeline (hStages h r) = Some q \<longrightarrow> q \<in> G \<and> not_passed_over p h N q \<and>
          (\<forall>m \<in> set (dp_nodes p (hGraphs h q)). lev q m < lev g n))"
    using assms(1) g unfolding levelled_def by blast+
  note e = assms(3) [OF l(1)]
  show "g < N'" using l(1) assms(2) by simp
  fix n
  {
    fix c r assume "c \<in> set (dp_children p (hGraphs h' g) n)" "gNodes (hGraphs h' g) c = Some r"
    with l(2) [of c n r] e assms(2,3) show "r < N'" "sName (hStages h' r) = c" "lev g c < lev g n" by auto
  }
  {
    fix r assume n: "n \<noteq> RootNodeName" "gNodes (hGraphs h' g) n = Some r"
    with l(3) [of n r] e have r: "r < N" "\<And>q. sPipeline (hStages h r) = Some q \<Longrightarrow> q \<in> G \<and> not_passed_over p h N q \<and>
          (\<forall>m \<in> set (dp_nodes p (hGraphs h q)). lev q m < lev g n)" by auto
    then show "r < N'" using assms(2) by simp
    fix q assume "sPipeline (hStages h' r) = Some q"
    with assms(3) [OF r(1)] r(2) [of q] have q: "q \<in> G" "not_passed_over p h N q"
      "\<forall>m \<in> set (dp_nodes p (hGraphs h q)). lev q m < lev g n" by auto
    have "q < N" using assms(1) q(1) unfolding levelled_def by blast
    note eq = assms(3) [OF this]
    show "q \<in> G" by (rule q(1))
    show "lev q m < lev g n" if "m \<in> set (dp_nodes p (hGraphs h' q))" for m using that q(3) eq by simp
    show "not_passed_over p h' N' q"
      using q(2) assms(2,3) eq unfolding not_passed_over_def by fastforce
  }
qed

lemma wf_graph_stages:
  assumes "wf_graph g st" and "\<And>n r. gNodes g n = Some r \<Longrightarrow> sName (st' r) = sName (st r) \<and> sStatus (st' r) = sStatus (st r)"
  shows "wf_graph g st'"
proof -
  from assms(1) obtain rr where "gNodes g RootNodeName = Some rr" "sStatus (st rr) = StatusDone"
    unfolding wf_graph_def by blast
  with assms(2) have "\<exists>r. gNodes g RootNodeName = Some r \<and> sStatus (st' r) = StatusDone" by auto
  moreover have "sName (st' r) = n \<and> sStatus (st' r) = StatusWaiting \<and> set (succs (gParent g) n) \<subseteq> dom (gNodes g)"
    if n: "gNodes g n = Some r" "n \<noteq> RootNodeName" for n r
    using assms(1) assms(2) [OF n(1)] n unfolding wf_graph_def by auto
  ultimately show ?thesis using assms(1) unfolding wf_graph_def by simp
qed

text \<open>The stages of the table one level below the pipeline are the copies of its stages.\<close>

lemma level_one:
  assumes c: "copied N X gr h0 A h" and l: "lists_table p (hTable h)"
  defines "sts \<equiv> NthLevelChildren (dp_table p (hTable h)) X 1"
  shows "distinct sts" and "distinct (map (\<lambda>r. sName (hStages h r)) sts)"
    and "r \<in> set sts \<Longrightarrow> \<exists>n orig. hTable h (CascadeName [X] n) = Some r \<and> sName (hStages h r) = CascadeName [X] n \<and>
      n \<noteq> RootNodeName \<and> gNodes gr n = Some orig \<and> copy_of [X] (hStages h0 orig) (hStages h r) \<and> N \<le> r \<and> r < hNext h"
    and "segment n \<Longrightarrow> hTable h (CascadeName [X] n) = Some r \<Longrightarrow> r \<in> set sts"
proof -
  let ?kv = "filter (\<lambda>kv. below_by X 1 (fst kv)) (dp_table p (hTable h))"
  have sts: "sts = map snd ?kv" by (simp add: sts_def NthLevelChildren_def)
  have tab: "(k, r) \<in> set (dp_table p (hTable h)) \<longleftrightarrow> hTable h k = Some r" for k r
    using l by (simp add: lists_table_def)
  have nm: "sName (hStages h (snd kr)) = fst kr" if "kr \<in> set ?kv" for kr
    using that tab [of "fst kr" "snd kr"] c by (simp add: copied_def)
  have d: "distinct (map fst ?kv)" using l by (simp add: lists_table_def distinct_map_filter)
  have "map (\<lambda>r. sName (hStages h r)) sts = map fst ?kv" using nm by (simp add: sts)
  then show names: "distinct (map (\<lambda>r. sName (hStages h r)) sts)" using d by simp
  then show "distinct sts" by (simp add: distinct_map)
  show "\<exists>n orig. hTable h (CascadeName [X] n) = Some r \<and> sName (hStages h r) = CascadeName [X] n \<and>
      n \<noteq> RootNodeName \<and> gNodes gr n = Some orig \<and> copy_of [X] (hStages h0 orig) (hStages h r) \<and> N \<le> r \<and> r < hNext h"
    if r: "r \<in> set sts"
  proof -
    from r obtain k where k: "hTable h k = Some r" "below_by X 1 k" by (auto simp: sts tab)
    then have "segments k = segments X + 1" by (simp add: below_by_exact_lemma segments_def)
    with c k(1) show ?thesis by (fastforce simp: copied_def)
  qed
  show "r \<in> set sts" if "segment n" "hTable h (CascadeName [X] n) = Some r"
    using that below_key [OF that(1), of X] by (force simp: sts tab image_iff)
qed

lemma copies_good:
  assumes c: "copied N X (hGraphs h0 g0) h0 (keys_from X (hGraphs h0 g0) RootNodeName) h" and l: "lists_table p (hTable h)"
    and src: "plain_source h0 (hGraphs h0 g0)" and r0: "r0 < N"
    and sts: "sts = NthLevelChildren (dp_table p (hTable h)) X 1"
  shows "good_stages r0 (map (\<lambda>r. (r, hStages h r)) sts)"
proof -
  let ?gr = "hGraphs h0 g0" and ?ss = "map (\<lambda>r. (r, hStages h r)) sts"
  have seg: "segment n" if "n \<in> dom (gNodes ?gr)" "n \<noteq> RootNodeName" for n
    using src that by (auto simp: plain_source_def plain_names_def)
  note one = level_one [OF c l, folded sts]
  have "set (sDependsOn (hStages h r)) \<subseteq> sName ` snd ` set ?ss \<and> sStatus (hStages h r) = StatusWaiting" if "r \<in> set sts" for r
  proof -
    from one(3) [OF that] obtain n orig where n: "n \<noteq> RootNodeName" "gNodes ?gr n = Some orig"
      "copy_of [X] (hStages h0 orig) (hStages h r)" by blast
    have "CascadeName [X] d \<in> sName ` snd ` set ?ss" if d: "d \<in> set (sDependsOn (hStages h0 orig))" for d
    proof -
      from src n(1,2) d have dn: "d \<noteq> RootNodeName" "d \<in> dom (gNodes ?gr)" by (auto simp: plain_source_def)
      then have "CascadeName [X] d \<in> keys_from X ?gr RootNodeName"
        using src by (auto simp: plain_source_def plain_names_def keys_from_def)
      with c obtain r' where r': "hTable h (CascadeName [X] d) = Some r'" by (auto simp: copied_def)
      with one(4) [OF seg [OF dn(2,1)] r'] one(3) [of r'] c show ?thesis
        by (force simp: copied_def image_iff)
    qed
    with n(3) show ?thesis by (auto simp: copy_of_def)
  qed
  moreover have "r0 \<notin> set sts" using one(3) [of r0] r0 by auto
  moreover have "RootNodeName \<noteq> sName (hStages h r)" if "r \<in> set sts" for r
    using one(3) [OF that] key_not_root [of "[X]"] by metis
  ultimately show ?thesis
    using one(1,2) by (auto simp: good_stages_def comp_def)
qed

lemma scheduled_graph:
  assumes lv: "levelled p h (hNext h) G lev" and g: "gr \<in> G"
    and ch: "\<And>n. set (dp_children p (hGraphs h gr) n) = set (succs (gChildren (hGraphs h gr)) n)"
    and src: "plain_names (hGraphs h gr)" and D: "Denormalize p k m gr h = (Inr dg, h')"
    and l: "lists_table p (hTable h')" and X: "X = gName (hGraphs h gr)"
  shows "plain_source h (hGraphs h gr) \<Longrightarrow> wf_graph (hGraphs h' dg) (hStages h')"
    and "edges (gParent (hGraphs h' dg)) = (edges (gChildren (hGraphs h' dg)))\<inverse> \<and> finite (dom (gNodes (hGraphs h' dg)))"
    and "dom (gNodes (hGraphs h' dg)) = insert RootNodeName
      (CascadeName [X] ` (dom (gNodes (hGraphs h gr)) - {RootNodeName}))"
    and "gNodes (hGraphs h gr) n = Some orig \<Longrightarrow> n \<noteq> RootNodeName \<Longrightarrow>
      \<exists>r. gNodes (hGraphs h' dg) (CascadeName [X] n) = Some r \<and> copy_of [X] (hStages h orig) (hStages h' r) \<and>
        sName (hStages h' r) = CascadeName [X] n \<and> (\<forall>d \<in> set (sDependsOn (hStages h orig)).
          (CascadeName [X] d, CascadeName [X] n) \<in> edges (gChildren (hGraphs h' dg)))"
proof -
  obtain h1 where mk: "make_graph X h = (Inr dg, h1)"
    and D1: "op_then (op_modify (\<lambda>h. h\<lparr>hTable := Map.empty\<rparr>)) (op_then (Flatten p k gr RootNodeName [X])
      (op_then (rebuildFromDenormalized p m dg) (op_return dg))) h1 = (Inr dg, h')"
    using D by (auto simp: Denormalize_def get_bind X op_bind_Inr op_then_def op_simps)
  define h2 where "h2 = h1\<lparr>hTable := Map.empty\<rparr>"
  obtain h3 where F: "Flatten p k gr RootNodeName [X] h2 = (Inr (), h3)"
    and R: "rebuildFromDenormalized p m dg h3 = (Inr (), h')"
    using D1 by (auto simp: op_then_def op_bind_Inr op_simps h2_def)
  let ?N = "hNext h2" and ?r0 = "Suc (hNext h)"
  have mk2: "hGraphs h2 dg = empty_graph ?r0 X" "?r0 < ?N" "dg < ?N" "hNext h \<le> ?N" "sStatus (hStages h2 ?r0) = StatusDone"
    "\<And>x. x < hNext h \<Longrightarrow> hGraphs h2 x = hGraphs h x \<and> hStages h2 x = hStages h x" "hTable h2 = Map.empty"
    using mk by (auto simp: h2_def make_defs root_stage_def UpdateStatus_def)
  have grN: "gr < hNext h" using lv g unfolding levelled_def by blast
  then have gr2: "hGraphs h2 gr = hGraphs h gr" using mk2(6) by simp
  have lv2: "levelled p h2 ?N G lev" by (rule levelled_later [OF lv mk2(4) mk2(6)])
  have orig: "orig < hNext h" if "gNodes (hGraphs h gr) n = Some orig" "n \<noteq> RootNodeName" for n orig
    using lv g that unfolding levelled_def by blast
  have fr: "frozen way ?N h2 h2" and c0: "copied ?N X (hGraphs h2 gr) h2 {} h2"
    by (simp_all add: frozen_def copied_def mk2(7))
  have fc: "frozen way ?N h2 h3 \<and> copied ?N X (hGraphs h2 gr) h2
      ({} \<union> (if outer gr X gr [X] then keys_from X (hGraphs h2 gr) RootNodeName else {})) h3"
    by (rule Flatten_copied [OF lv2 g _ F g _ fr c0]) (simp_all add: gr2 ch outer_def)
  then have f3: "frozen way ?N h2 h3" and c3: "copied ?N X (hGraphs h2 gr) h2 (keys_from X (hGraphs h2 gr) RootNodeName) h3"
    by (simp_all add: outer_def)
  let ?sts = "NthLevelChildren (dp_table p (hTable h3)) X 1"
  let ?ss = "map (\<lambda>r. (r, hStages h3 r)) ?sts"
  have dg3: "dg < hNext h3" "gr < hNext h3" "gr \<noteq> dg"
    using f3 mk2(3,4) grN mk by (auto simp: frozen_def make_defs)
  have "settled h3 gr (hGraphs h3 gr) h'"
    by (rule validD_Inr [OF rebuild_settled [OF dg3(2) dg3(3) [symmetric]] _ R]) (simp add: settled_def)
  then have tab: "hTable h' = hTable h3" by (simp add: settled_def)
  with l have l3: "lists_table p (hTable h3)" by simp
  have t3: "r < hNext h3" if "(k, r) \<in> set (dp_table p (hTable h3))" for k r
    using that l3 c3 by (auto simp: lists_table_def copied_def)
  have e3: "hGraphs h3 dg = empty_graph ?r0 X" using f3 mk2(1,3) by (simp add: frozen_def)
  have "\<exists>g'. NewExecutionGraph ?r0 X ?ss = Inr g' \<and> settled h3 dg g' h'"
    by (rule rebuild_builds [OF dg3(1) e3 _ R refl]) (rule t3)
  then obtain g' where N: "NewExecutionGraph ?r0 X ?ss = Inr g'" and s: "settled h3 dg g' h'" by blast
  have g': "hGraphs h' dg = g'" using s by (simp add: settled_def)
  note one = level_one [OF c3 l3] and b = NewExecutionGraph_built [OF N]
  have nodes: "gNodes g' = fold (\<lambda>rs m. m(sName (snd rs) \<mapsto> fst rs)) ?ss [RootNodeName \<mapsto> ?r0]"
    using AddStages_nodes [OF N [unfolded NewExecutionGraph_def]] by (simp add: empty_graph_def)
  have ref: "n = RootNodeName \<and> r = ?r0 \<or> r \<in> set ?sts \<and> sName (hStages h3 r) = n" if "gNodes g' n = Some r" for n r
    using fold_upd_Some [OF that [unfolded nodes]] by (auto split: if_splits)
  have fx: "fixed (hStages h' r) = fixed (hStages h3 r)" if "gNodes g' n = Some r" for n r
  proof -
    have "r < hNext h3" using ref [OF that] one(3) [of r] mk2(2) f3 by (auto simp: frozen_def)
    with s show ?thesis by (simp add: settled_def)
  qed
  show "wf_graph (hGraphs h' dg) (hStages h')" if ps: "plain_source h (hGraphs h gr)"
  proof -
    have "plain_source h2 (hGraphs h2 gr)"
      using ps orig mk2(6) unfolding gr2 plain_source_def by (metis (no_types, lifting))
    note good = copies_good [OF c3 l3 this mk2(2) refl]
    have "sStatus (hStages h3 ?r0) = StatusDone" using f3 mk2(2,5) by (simp add: frozen_def way_eq fixed_eq)
    then have "wf_graph g' (hStages h3)"
      by (rule NewExecutionGraph_wf [where st = "hStages h3", OF N good, rotated]) (simp add: store_of_def)
    then show ?thesis unfolding g' by (rule wf_graph_stages) (use fx in \<open>simp add: fixed_eq\<close>)
  qed
  show "edges (gParent (hGraphs h' dg)) = (edges (gChildren (hGraphs h' dg)))\<inverse> \<and> finite (dom (gNodes (hGraphs h' dg)))"
    unfolding g' built_nodes [OF b] by (simp add: built_converse [OF b])
  have found: "\<exists>r. hTable h3 (CascadeName [X] a) = Some r \<and> r \<in> set ?sts" if a: "a \<in> dom (gNodes (hGraphs h gr))" "a \<noteq> RootNodeName" for a
  proof -
    have "CascadeName [X] a \<in> keys_from X (hGraphs h2 gr) RootNodeName"
      using src a by (auto simp: plain_names_def keys_from_def gr2)
    with c3 obtain r where "hTable h3 (CascadeName [X] a) = Some r" by (auto simp: copied_def)
    with one(4) [OF _ this] src a show ?thesis by (auto simp: plain_names_def)
  qed
  have names: "sName ` snd ` set ?ss = CascadeName [X] ` (dom (gNodes (hGraphs h gr)) - {RootNodeName})"
  proof (intro subset_antisym subsetI)
    fix k assume "k \<in> sName ` snd ` set ?ss"
    then obtain r where "r \<in> set ?sts" "k = sName (hStages h3 r)" by auto
    with one(3) [of r] gr2 show "k \<in> CascadeName [X] ` (dom (gNodes (hGraphs h gr)) - {RootNodeName})" by fastforce
  next
    fix k assume "k \<in> CascadeName [X] ` (dom (gNodes (hGraphs h gr)) - {RootNodeName})"
    then obtain a where a: "k = CascadeName [X] a" "a \<in> dom (gNodes (hGraphs h gr))" "a \<noteq> RootNodeName" by auto
    from found [OF a(2,3)] obtain r where r: "hTable h3 k = Some r" "r \<in> set ?sts" unfolding a(1) by blast
    then have "sName (hStages h3 r) = k" using c3 by (simp add: copied_def)
    with r(2) show "k \<in> sName ` snd ` set ?ss" by force
  qed
  show doms: "dom (gNodes (hGraphs h' dg)) = insert RootNodeName
      (CascadeName [X] ` (dom (gNodes (hGraphs h gr)) - {RootNodeName}))"
    using built_nodes [OF b] names g' by simp
  show "\<exists>r. gNodes (hGraphs h' dg) (CascadeName [X] n) = Some r \<and> copy_of [X] (hStages h orig) (hStages h' r) \<and>
        sName (hStages h' r) = CascadeName [X] n \<and> (\<forall>d \<in> set (sDependsOn (hStages h orig)).
          (CascadeName [X] d, CascadeName [X] n) \<in> edges (gChildren (hGraphs h' dg)))"
    if n: "gNodes (hGraphs h gr) n = Some orig" "n \<noteq> RootNodeName"
  proof -
    have "n \<in> dom (gNodes (hGraphs h gr))" using n(1) by auto
    with n(2) doms g' obtain r where r: "gNodes g' (CascadeName [X] n) = Some r" by (metis DiffI domD imageI insertCI singletonD)
    with ref [OF r] key_not_root [of "[X]" n] have rs: "r \<in> set ?sts" and nm: "sName (hStages h3 r) = CascadeName [X] n"
      by auto
    from one(3) [OF rs] nm obtain o' where "gNodes (hGraphs h2 gr) n = Some o'" "copy_of [X] (hStages h2 o') (hStages h3 r)"
      by (auto simp: key_inj)
    with n gr2 orig [OF n] mk2(6) have cp: "copy_of [X] (hStages h orig) (hStages h3 r)" by auto
    with fx [OF r] nm have "copy_of [X] (hStages h orig) (hStages h' r) \<and> sName (hStages h' r) = CascadeName [X] n"
      by (simp add: copy_of_def fixed_eq)
    moreover have "(CascadeName [X] d, CascadeName [X] n) \<in> edges (gChildren g')" if "d \<in> set (sDependsOn (hStages h orig))" for d
    proof -
      from that cp nm have "(CascadeName [X] d, CascadeName [X] n) \<in> new_edges (hStages h3 r)"
        by (auto simp: new_edges_def copy_of_def)
      with rs show ?thesis unfolding built_edges [OF b] by auto
    qed
    ultimately show ?thesis using r g' by auto
  qed
qed

lemma scheduled_runs:
  assumes "levelled p h (hNext h) G lev" and "gr \<in> G"
    and "\<And>n. set (dp_children p (hGraphs h gr) n) = set (succs (gChildren (hGraphs h gr)) n)"
    and "plain_source h (hGraphs h gr)" and "Denormalize p k m gr h = (Inr dg, h')" and "lists_table p (hTable h')"
    and "reachable (hGraphs h' dg) (hStages h') c"
  shows "pc c \<noteq> Panicked \<and> ((\<forall>res. pc c \<noteq> Returned res) \<longrightarrow> (\<exists>t. step (hGraphs h' dg) (hStages h') c t)) \<and>
    (\<forall>n orig. gNodes (hGraphs h gr) n = Some orig \<longrightarrow> n \<noteq> RootNodeName \<longrightarrow>
       (\<exists>r. gNodes (hGraphs h' dg) (CascadeName [gName (hGraphs h gr)] n) = Some r \<and>
          copy_of [gName (hGraphs h gr)] (hStages h orig) (hStages h' r) \<and>
          (go c r \<noteq> GNone \<longrightarrow> (\<forall>d \<in> set (sDependsOn (hStages h orig)). \<exists>q.
             gNodes (hGraphs h' dg) (CascadeName [gName (hGraphs h gr)] d) = Some q \<and> passed (hStages h') c q))))"
proof -
  let ?g = "hGraphs h' dg" and ?st = "hStages h'" and ?key = "CascadeName [gName (hGraphs h gr)]"
  have "plain_names (hGraphs h gr)" using assms(4) by (simp add: plain_source_def)
  note s = scheduled_graph [OF assms(1-3) this assms(5,6) refl]
  note wf = s(1) [OF assms(4)]
  have inv: "sched_inv ?g ?st c" using wf assms(7) by (rule reachable_inv)
  have "\<exists>r. gNodes ?g (?key n) = Some r \<and> copy_of [gName (hGraphs h gr)] (hStages h orig) (?st r) \<and>
      (go c r \<noteq> GNone \<longrightarrow> (\<forall>d \<in> set (sDependsOn (hStages h orig)). \<exists>q. gNodes ?g (?key d) = Some q \<and> passed ?st c q))"
    if n: "gNodes (hGraphs h gr) n = Some orig" "n \<noteq> RootNodeName" for n orig
  proof -
    from s(4) [OF n] obtain r where r: "gNodes ?g (?key n) = Some r" "copy_of [gName (hGraphs h gr)] (hStages h orig) (?st r)"
      "\<And>d. d \<in> set (sDependsOn (hStages h orig)) \<Longrightarrow> (?key d, ?key n) \<in> edges (gChildren ?g)" by blast
    show ?thesis
      using r started_after_parents_lemma [OF inv r(1) _ r(3)] by blast
  qed
  then show ?thesis
    using inv never_stuck [OF wf assms(7)] by (auto simp: sched_inv_def pc_ok_def)
qed


subsection \<open>A pipeline of one stage\<close>

definition one_table :: denorm_params where
  "one_table = (in_order True)\<lparr>dp_table := \<lambda>T. case T (CascadeName [''r''] ''z'') of
     None \<Rightarrow> [] | Some r \<Rightarrow> [(CascadeName [''r''] ''z'', r)]\<rparr>"

lemma one_flattened:
  assumes h: "hGraphs h 3 = hGraphs nested_heap 3" "hStages h 15 = hStages nested_heap 15" "hTaskEnv h = hTaskEnv nested_heap"
    "15 < hNext h"
  defines "c \<equiv> Suc (hNext h)"
  shows "\<exists>h' t. Flatten one_table 3 3 RootNodeName [''r''] h = (Inr (), h') \<and>
     hTable h' = (hTable h)(CascadeName [''r''] ''z'' \<mapsto> c) \<and> hGraphs h' = hGraphs h \<and>
     sTask (hStages h' c) = Some t \<and> sPipeline (hStages h' c) = None \<and> sEnvfile (hStages h' c) = Some 30 \<and>
     sDependsOn (hStages h' c) = [] \<and> sName (hStages h' c) = CascadeName [''r''] ''z'' \<and>
     (\<forall>x. x \<noteq> c \<longrightarrow> hStages h' x = hStages h x) \<and> c < hNext h'"
proof -
  let ?p = one_table
  have g: "gNodes (hGraphs h 3) = [''z'' \<mapsto> 15, RootNodeName \<mapsto> 10]" "gChildren (hGraphs h 3) = [(RootNodeName, [''z''])]"
    "hTaskEnv h 20 = Some 30"
    and s: "sTask (hStages h 15) = Some 20" "sPipeline (hStages h 15) = None" "sDependsOn (hStages h 15) = []"
      "sEnvfile (hStages h 15) = Some 30" "sName (hStages h 15) = ''z''"
    by (simp_all add: h nested_heap_def graph_of_def node_of_def NewStage_def empty_graph_def)
  have ord: "dp_children ?p x n = succs (gChildren x) n" for x n by (simp add: in_order_def one_table_def)
  obtain h1 where m: "make_stage (CascadeName [''r''] ''z'') h = (Inr c, h1)"
    and h1: "hGraphs h1 = hGraphs h" "hStages h1 15 = hStages h 15" "hTaskEnv h1 = hTaskEnv h" "hTable h1 = hTable h"
      "sPipeline (hStages h1 c) = None" "sStatus (hStages h1 c) = StatusWaiting"
      "sName (hStages h1 c) = CascadeName [''r''] ''z''" "c < hNext h1" "\<And>x. x \<noteq> c \<Longrightarrow> hStages h1 x = hStages h x"
    using h(4) by (auto simp: make_defs c_def NewStage_def)
  have c15: "c \<noteq> 15" using h(4) by (simp add: c_def)
  obtain h2 t' where f: "FromStage ?p c 15 3 [''r''] h1 = (Inr (), h2)" "hGraphs h2 = hGraphs h1"
    "hStages h2 15 = hStages h1 15" "sTask (hStages h2 c) = Some t'" "sPipeline (hStages h2 c) = None"
    "sEnvfile (hStages h2 c) = Some 30" "hTable h2 = hTable h1" "\<And>x. x \<noteq> c \<Longrightarrow> hStages h2 x = hStages h1 x"
    using FromStage_runs [OF c15, of h1 20 30 30 ?p 3 "[''r'']"] s h1 g c15 by auto
  have ch: "c < hNext h2" using FromStage_others(2) [OF f(1)] h1(8) by simp
  have cp: "sDependsOn (hStages h2 c) = []" "sName (hStages h2 c) = CascadeName [''r''] ''z''"
    using FromStage_copy [OF f(1) c15 h1(8,6)] h1(2,7) s(3) by (simp_all add: copy_of_def)
  have z: "''z'' \<noteq> RootNodeName" by (simp add: RootNodeName_def)
  let ?h3 = "h2\<lparr>hTable := (hTable h2)(CascadeName [''r''] ''z'' \<mapsto> c)\<rparr>"
  have n: "flatten_node ?p rec 3 ''z'' [''r''] h = (Inr (), ?h3)" for rec
    using f z s h1 by (simp add: flatten_node_def get_bind op_bind_eval(1) m op_then_def op_simps g)
  have c: "succs [(RootNodeName, [''z''])] RootNodeName = [''z'']" "succs [(RootNodeName, [''z''])] ''z'' = []"
    using z by (simp_all add: succs_def get_or_def)
  have inner: "Flatten ?p (Suc k) 3 ''z'' [''r''] h = (Inr (), ?h3)" for k
    using z f(2) h1(1) by (simp add: op_then_def op_bind_eval(1) n get_bind ord g c op_simps)
  have "Flatten ?p (Suc (Suc 1)) 3 RootNodeName [''r''] h = (Inr (), ?h3)"
    using z s(5)
    by (subst Flatten.simps) (simp add: op_then_def op_bind_eval(1) get_bind ord g c op_simps inner del: Flatten.simps)
  then show ?thesis
    using f h1 cp ch by (intro exI [of _ ?h3] exI [of _ t']) (simp add: numeral_3_eq_3)
qed

lemma one_denormalized:
  "\<exists>dg h'. Denormalize one_table 3 1 3 nested_heap = (Inr dg, h') \<and> lists_table one_table (hTable h')"
proof -
  let ?p = one_table and ?k = "CascadeName [''r''] ''z''"
  have nm: "gName (hGraphs nested_heap 3) = ''r''" by (simp add: nested_heap_def graph_of_def empty_graph_def)
  obtain dg h1 where mk: "make_graph ''r'' nested_heap = (Inr dg, h1)" by (simp add: make_defs)
  let ?h2 = "h1\<lparr>hTable := Map.empty\<rparr>"
  have h2: "hGraphs ?h2 3 = hGraphs nested_heap 3" "hStages ?h2 15 = hStages nested_heap 15" "hTaskEnv ?h2 = hTaskEnv nested_heap"
    "15 < hNext ?h2" "dg = 42" "hNext ?h2 = 43" "hGraphs ?h2 dg = empty_graph 41 ''r''"
    using mk by (auto simp: make_defs nested_heap_def)
  from one_flattened [OF h2(1-4)] obtain h3 t where f: "Flatten ?p 3 3 RootNodeName [''r''] ?h2 = (Inr (), h3)"
    and h3: "hTable h3 = [?k \<mapsto> 44]" "hGraphs h3 = hGraphs ?h2" "sTask (hStages h3 44) = Some t" "sPipeline (hStages h3 44) = None"
      "sEnvfile (hStages h3 44) = Some 30" "sDependsOn (hStages h3 44) = []" "sName (hStages h3 44) = ?k"
      "\<And>x. x \<noteq> 44 \<Longrightarrow> hStages h3 x = hStages ?h2 x" "44 < hNext h3"
    unfolding h2(6) by auto
  have z: "segment ''z''" by (simp add: segment_def PipelineDirectionChar_def Contains_def HasPrefix_def)
  have sts: "NthLevelChildren (dp_table ?p (hTable h3)) ''r'' 1 = [44]"
    using below_key [OF z, of "''r''"] by (simp add: NthLevelChildren_def one_table_def h3(1))
  have e3: "hGraphs h3 dg = empty_graph 41 ''r''" using h2(7) h3(2) by simp
  have "sEnvfile (hStages h3 x) \<noteq> None" for x
    using h3(5,8) mk by (cases "x = 44") (auto simp: make_defs nested_heap_def node_of_def root_stage_def NewStage_def UpdateStatus_def)
  then obtain h4 where m: "merge_stage ?p 44 h3 = (Inr (), h4)" using merge_stage_succeeds [of h3 ?p 44] by blast
  have "settled h3 dg (empty_graph 41 ''r'') h4"
    by (rule validD_Inr [OF rb.merge_stage _ m]) (simp add: settled_def e3)
  then have h4: "hGraphs h4 dg = empty_graph 41 ''r''" "hTable h4 = [?k \<mapsto> 44]"
    "sDependsOn (hStages h4 44) = []" "sName (hStages h4 44) = ?k"
    using h3 by (simp_all add: settled_def fixed_eq)
  have "?k \<noteq> RootNodeName" by (rule key_not_root)
  then obtain g' where g': "AddStage (hGraphs h4 dg) 44 (hStages h4 44) = Inr g'"
    using h4 by (simp add: AddStage_def addNode_def empty_graph_def addEdge_def cycleDfs.simps succs_def get_or_def Let_def)
  have "rebuildFromDenormalized ?p (Suc 0) dg h3 = (Inr (), h4\<lparr>hGraphs := (hGraphs h4)(dg := g')\<rparr>)"
    using sts e3 h3(4,7) m g'
    by (simp add: get_bind empty_graph_def rebuild_stage_def op_then_def op_bind_eval(1) op_simps add_stage_def)
  then have "Denormalize ?p 3 1 3 nested_heap = (Inr dg, h4\<lparr>hGraphs := (hGraphs h4)(dg := g')\<rparr>)"
    using f by (simp add: Denormalize_def get_bind nm op_bind_eval(1) mk op_then_def op_simps)
  moreover have "lists_table ?p [?k \<mapsto> 44]" by (auto simp: lists_table_def one_table_def split: if_splits)
  ultimately show ?thesis using h4(2) by auto
qed


section \<open>A stage that depends on the root by name\<close>

lemma missing_parent_panics:
  assumes g: "finite (dom (gNodes g))" "gNodes g k = Some r" "sName (st r) = k" "sStatus (st r) = StatusWaiting"
    "sCondition (st r) = ''''" and d: "d \<in> set (succs (gParent g) k)" "gNodes g d = None"
  shows "\<exists>c. reachable g st c \<and> pc c = Panicked"
proof -
  let ?s = "start_state g st"
  obtain ns where "enumerates ns (dom (gNodes g) - {k})"
    unfolding enumerates_def using finite_distinct_list [of "dom (gNodes g) - {k}"] g(1) by auto
  then have ns: "enumerates (k # ns) (dom (gNodes g))" using g(2) by (auto simp: enumerates_def)
  obtain ps where "enumerates ps (set (succs (gParent g) k) - {d})"
    unfolding enumerates_def using finite_distinct_list [of "set (succs (gParent g) k) - {d}"] by auto
  then have ps: "enumerates (d # ps) (set (succs (gParent g) (sName (st (node g k)))))"
    using d(1) g(2,3) by (auto simp: enumerates_def)
  have "\<not> isDone g ?s" using g(2,4) by (auto simp: isDone_def start_state_def ran_def)
  then have 1: "step g st ?s (?s\<lparr>pc := Scan (k # ns)\<rparr>)"
    by (intro loop_pass ns) (simp_all add: start_state_def)
  let ?t = "visit g st CondError (d # ps) k ns (?s\<lparr>pc := Scan (k # ns)\<rparr>)"
  have 2: "step g st (?s\<lparr>pc := Scan (k # ns)\<rparr>) ?t" by (rule pass_visit [where st = st, OF _ ps]) simp
  have t: "?t = ?s\<lparr>pc := Check k (d # ps) True ns\<rparr>"
    using g(2,4,5) by (simp add: visit_def start_state_def)
  have "step g st ?t (check_parent g st k d ps True ns ?t)" by (rule check_next) (simp add: t)
  with 1 2 have "reachable g st (check_parent g st k d ps True ns ?t)"
    by (meson reachable_def reachable_step rtranclp.rtrancl_refl)
  moreover have "pc (check_parent g st k d ps True ns ?t) = Panicked" using d(2) by (simp add: check_parent_def)
  ultimately show ?thesis by blast
qed

text \<open>The configuration accepts \<open>root\<close> as a dependency, as each graph has a node of that name. Flattening renames the
  dependency, and below the pipeline's name there is no such stage: the schedule may dereference nil.\<close>

theorem root_dependency_crashes:
  assumes "levelled p h (hNext h) G lev" and "gr \<in> G"
    and "\<And>n. set (dp_children p (hGraphs h gr) n) = set (succs (gChildren (hGraphs h gr)) n)"
    and "plain_names (hGraphs h gr)" and "Denormalize p k m gr h = (Inr dg, h')" and "lists_table p (hTable h')"
    and "gNodes (hGraphs h gr) n = Some orig" and "n \<noteq> RootNodeName"
    and "RootNodeName \<in> set (sDependsOn (hStages h orig))" and "sCondition (hStages h orig) = ''''"
  shows "\<exists>c. reachable (hGraphs h' dg) (hStages h') c \<and> pc c = Panicked"
proof -
  let ?g = "hGraphs h' dg" and ?key = "CascadeName [gName (hGraphs h gr)]"
  note s = scheduled_graph [OF assms(1-6) refl]
  from s(4) [OF assms(7,8)] obtain r where r: "gNodes ?g (?key n) = Some r" "copy_of [gName (hGraphs h gr)] (hStages h orig) (hStages h' r)"
    "sName (hStages h' r) = ?key n" "\<forall>d \<in> set (sDependsOn (hStages h orig)). (?key d, ?key n) \<in> edges (gChildren ?g)" by blast
  have "(?key n, ?key RootNodeName) \<in> edges (gParent ?g)" using s(2) r(4) assms(9) by blast
  then have d: "?key RootNodeName \<in> set (succs (gParent ?g) (?key n))" by simp
  have "?key RootNodeName \<notin> dom (gNodes ?g)" unfolding s(3) by (auto simp: key_inj key_not_root)
  then have none: "gNodes ?g (?key RootNodeName) = None" by blast
  show ?thesis
    by (rule missing_parent_panics [where st = "hStages h'", OF _ r(1,3) _ _ d none]) (use s(2) r(2) assms(10) in \<open>simp_all add: copy_of_def\<close>)
qed

end
