(* ===== verification/Contexts.thy ===== *)
theory Contexts
  imports Tasks
begin

text \<open>
  \<open>runner/context.go\<close> and \<open>internal/config/context.go\<close>: the execution context of a task, its
  container options, the environment it passes on, and how both are built from a
  configuration. Command line parsing of the container arguments is \<open>pflag\<close>'s and matching a
  pattern is \<open>regexp\<close>'s; both are parameters.
\<close>

section \<open>Container contexts\<close>

record ContainerContext =
  ccImage :: string
  ccEntrypoint :: "string list"
  ccShellArgs :: "string list"
  ccPullTimeout :: int
  ccBindMount :: bool
  ccVolumes :: "string set"
  ccEnvOverride :: "string \<rightharpoonup> string"
  ccUser :: string
  ccUserns :: string
  ccPorts :: "string list"
  ccExtraHosts :: "string list"
  ccPlatform :: string
  ccCapabilities :: "string list"

datatype context_error =
    ErrFlagParse string
  | ErrUserTwice string string
  | ErrHostMapping string string
  | ErrPlatformFormatIncorrect string
  | ErrMutuallyExclusiveVarSet
  | ErrBuildContextIncorrect string
  | ErrEnvfile envfile_error

definition NewContainerContext ::
  "string \<Rightarrow> (ContainerContext \<Rightarrow> ContainerContext) list \<Rightarrow> ContainerContext" where
  "NewContainerContext name opts = fold (\<lambda>o1 c. o1 c) opts
     \<lparr>ccImage = name, ccEntrypoint = [], ccShellArgs = [], ccPullTimeout = 0, ccBindMount = False,
      ccVolumes = {}, ccEnvOverride = Map.empty, ccUser = '''', ccUserns = '''', ccPorts = [],
      ccExtraHosts = [], ccPlatform = '''', ccCapabilities = []\<rparr>"

definition WithContainerContextPullTimeout :: "int \<Rightarrow> ContainerContext \<Rightarrow> ContainerContext" where
  "WithContainerContextPullTimeout p cc = cc\<lparr>ccPullTimeout := p\<rparr>"

definition WithVolumes :: "ContainerContext \<Rightarrow> string list \<Rightarrow> ContainerContext" where
  "WithVolumes c vols = c\<lparr>ccVolumes := ccVolumes c \<union> set vols\<rparr>"

definition WithPlatform :: "ContainerContext \<Rightarrow> string \<Rightarrow> ContainerContext" where
  "WithPlatform c v = c\<lparr>ccPlatform := v\<rparr>"

definition WithEnvOverride :: "ContainerContext \<Rightarrow> (string \<rightharpoonup> string) \<Rightarrow> ContainerContext" where
  "WithEnvOverride c env = c\<lparr>ccEnvOverride := ccEnvOverride c ++ env\<rparr>"

subsection \<open>Container arguments\<close>

text \<open>
  What \<open>FlagSet.Parse\<close> finds: the values of each flag in the order they were given; the
  values of the user flag go through \<open>singleUseFlagString.Set\<close>.
\<close>

record parsed_flags =
  pfVolume :: "string list"
  pfPort :: "string list"
  pfUser :: "string list"
  pfUserns :: string
  pfAddHost :: "string list"
  pfCapAdd :: "string list"
  pfPlatform :: string

record singleUseFlagString =
  sufVal :: string
  sufCount :: nat

definition singleUse_Set :: "string \<Rightarrow> singleUseFlagString \<Rightarrow> context_error + singleUseFlagString" where
  "singleUse_Set v s =
     (let s1 = s\<lparr>sufCount := sufCount s + 1\<rparr> in
      if 1 < sufCount s1 then Inl (ErrUserTwice (sufVal s1) v) else Inr (s1\<lparr>sufVal := v\<rparr>))"

definition newContainerArgs_user :: "string list \<Rightarrow> context_error + string" where
  "newContainerArgs_user vs =
     bind_res (fold_res singleUse_Set vs \<lparr>sufVal = '''', sufCount = 0\<rparr>) (\<lambda>s. Inr (sufVal s))"

definition validateHostMapping :: "string \<Rightarrow> string option" where
  "validateHostMapping mapping =
     (case Cut mapping '':'' of
        None \<Rightarrow> Some (''expected format hostname:ip, got '' @ mapping)
      | Some (hostname, ip) \<Rightarrow>
          if hostname = '''' then Some (''hostname cannot be empty in '' @ mapping)
          else if ip = '''' then Some (''IP address cannot be empty in '' @ mapping)
          else None)"

definition parseVolumes :: "parsed_flags \<Rightarrow> ContainerContext \<Rightarrow> context_error + ContainerContext" where
  "parseVolumes pf cc = Inr (WithVolumes cc (map TrimSpace (pfVolume pf)))"

definition parse_extra_host :: "string \<Rightarrow> ContainerContext \<Rightarrow> context_error + ContainerContext" where
  "parse_extra_host h0 cc =
     (let h = TrimSpace h0 in
      if h = '''' then Inr cc
      else (case validateHostMapping h of
              Some e \<Rightarrow> Inl (ErrHostMapping h e)
            | None \<Rightarrow> Inr (cc\<lparr>ccExtraHosts := ccExtraHosts cc @ [h]\<rparr>)))"

definition parseExtraHosts :: "parsed_flags \<Rightarrow> ContainerContext \<Rightarrow> context_error + ContainerContext" where
  "parseExtraHosts pf = fold_res parse_extra_host (pfAddHost pf)"

definition parseAddCapability :: "parsed_flags \<Rightarrow> ContainerContext \<Rightarrow> context_error + ContainerContext" where
  "parseAddCapability pf cc = Inr (cc\<lparr>ccCapabilities := ccCapabilities cc @ pfCapAdd pf\<rparr>)"

definition expand_args :: "host \<Rightarrow> string list \<Rightarrow> string list" where
  "expand_args h args = concat (map (\<lambda>v. Fields (NormalizeHome h (ExpandEnv h v))) args)"

definition parseArgs ::
  "host \<Rightarrow> (string list \<Rightarrow> string + parsed_flags) \<Rightarrow> string list \<Rightarrow> ContainerContext \<Rightarrow>
     context_error + ContainerContext" where
  "parseArgs h pflag args cc =
     (case pflag (expand_args h args) of
        Inl e \<Rightarrow> Inl (ErrFlagParse e)
      | Inr pf \<Rightarrow>
          bind_res (newContainerArgs_user (pfUser pf)) (\<lambda>user.
          let cc1 = cc\<lparr>ccUser := TrimSpace user,
                ccPorts := ccPorts cc @ map (\<lambda>v. ''0.0.0.0:'' @ v @ ''/tcp'') (pfPort pf),
                ccUserns := TrimSpace (pfUserns pf), ccPlatform := TrimSpace (pfPlatform pf)\<rparr> in
          bind_res (parseVolumes pf cc1) (\<lambda>cc2.
          bind_res (parseExtraHosts pf cc2) (parseAddCapability pf))))"

definition ParseContainerArgs ::
  "host \<Rightarrow> (string list \<Rightarrow> string + parsed_flags) \<Rightarrow> string list \<Rightarrow> ContainerContext \<Rightarrow>
     context_error + ContainerContext" where
  "ParseContainerArgs = parseArgs"

subsection \<open>Platform and mounts\<close>

definition Platform :: "ContainerContext \<Rightarrow> context_error + (string \<times> string) option" where
  "Platform c =
     (if length (ccPlatform c) < 1 then Inr None
      else (case SplitN2 (ccPlatform c) ''/'' of
              [os, arch] \<Rightarrow> Inr (Some (os, arch))
            | _ \<Rightarrow> Inl (ErrPlatformFormatIncorrect (ccPlatform c))))"

record BindVolume =
  SourcePath :: string
  TargetPath :: string

definition bind_volume :: "string \<Rightarrow> BindVolume" where
  "bind_volume vol =
     (let splitVol = Split vol '':/'' in
      \<lparr>SourcePath = Join (take (length splitVol - 1) splitVol) '':/'',
       TargetPath = ''/'' @ splitVol ! (length splitVol - 1)\<rparr>)"

definition BindMounts :: "ContainerContext \<Rightarrow> BindVolume set" where
  "BindMounts c = bind_volume ` ccVolumes c"

section \<open>Execution contexts\<close>

record ExecutionContext =
  ecSourceFile :: string
  ecExecutable :: "Binary option"
  ecContainer :: "ContainerContext option"
  ecDir :: string
  ecEnv :: variables
  ecEnvfile :: "Envfile option"
  ecVariables :: variables
  ecQuote :: string
  ecUp :: "string list"
  ecDown :: "string list"
  ecBefore :: "string list"
  ecAfter :: "string list"
  ecStartupError :: "string option"
  ecOnceUp :: bool
  ecOnceDown :: bool

definition NewExecutionContext ::
  "Binary option \<Rightarrow> string \<Rightarrow> variables \<Rightarrow> Envfile option \<Rightarrow> string list \<Rightarrow> string list \<Rightarrow>
     string list \<Rightarrow> string list \<Rightarrow> (ExecutionContext \<Rightarrow> ExecutionContext) list \<Rightarrow> ExecutionContext" where
  "NewExecutionContext executable dir env envfile up downs befores afters options =
     (fold (\<lambda>o1 c. o1 c) options
       \<lparr>ecSourceFile = '''', ecExecutable = None, ecContainer = None, ecDir = '''',
        ecEnv = NewVariables, ecEnvfile = None, ecVariables = NewVariables, ecQuote = '''',
        ecUp = [], ecDown = [], ecBefore = [], ecAfter = [], ecStartupError = None,
        ecOnceUp = False, ecOnceDown = False\<rparr>)
       \<lparr>ecExecutable := executable, ecEnv := env, ecEnvfile := envfile, ecDir := dir,
        ecUp := up, ecDown := downs, ecBefore := befores, ecAfter := afters\<rparr>"

definition WithContainerOpts :: "ContainerContext option \<Rightarrow> ExecutionContext \<Rightarrow> ExecutionContext" where
  "WithContainerOpts containerOpts c = c\<lparr>ecContainer := containerOpts\<rparr>"

definition WithQuote :: "string \<Rightarrow> ExecutionContext \<Rightarrow> ExecutionContext" where
  "WithQuote quote c = c\<lparr>ecQuote := (if quote \<noteq> '''' then quote else [CHR 0x27])\<rparr>"

datatype ExecutorType = DefaultExecutorTyp | ContainerExecutorTyp

definition GetExecutorType :: "ExecutionContext \<Rightarrow> ExecutorType" where
  "GetExecutorType c = (if ecContainer c \<noteq> None then ContainerExecutorTyp else DefaultExecutorTyp)"

text \<open>\<open>os.Environ()\<close> is the list \<open>environ\<close> of \<open>k=v\<close> entries.\<close>

definition DefaultContext :: "string list \<Rightarrow> ExecutionContext" where
  "DefaultContext environ =
     NewExecutionContext None '''' (FromMap (ConvertFromEnv environ)) (Some ZeroEnvFile) [] [] [] [] []"

section \<open>The environment a context passes on\<close>

definition invalidEnvVarKeys :: "string list" where
  "invalidEnvVarKeys = ['''', ''!::'', ''=::'', ''::=::'', ''::=::'' @ [CHR 0x5C]]"

definition includeExcludeSkip :: "Envfile \<Rightarrow> string \<Rightarrow> bool" where
  "includeExcludeSkip e varName =
     (let varName = ToLower varName;
          shouldExclude = list_ex (\<lambda>v. HasPrefix varName (ToLower v)) (Exclude e);
          shouldInclude = (if 0 < length (Include e)
            then list_ex (\<lambda>v. HasPrefix varName (ToLower v)) (Include e) else True)
      in shouldExclude \<or> \<not> shouldInclude)"

text \<open>
  A match of a pattern gives what its groups \<open>keyword\<close> and \<open>varname\<close> matched; the code
  indexes the match by these two names, so the model asks for the two strings.
\<close>

type_synonym regex_match = "string \<Rightarrow> string \<Rightarrow> (string \<times> string) option"

fun modify_loop :: "regex_match \<Rightarrow> ModifyEnv list \<Rightarrow> string \<Rightarrow> string" where
  "modify_loop re [] varName = varName"
| "modify_loop re (m # ms) varName =
     (case re (Pattern m) varName of
        None \<Rightarrow> modify_loop re ms varName
      | Some (keyword, matched) \<Rightarrow>
          keyword @ (if Operation m = ''lower'' then ToLower matched
                     else if Operation m = ''upper'' then ToUpper matched else matched))"

definition modifyName :: "regex_match \<Rightarrow> Envfile \<Rightarrow> string \<Rightarrow> string" where
  "modifyName re e varName = modify_loop re (Modify e) varName"

text \<open>
  The env files of the context, the last one wins; a file that cannot be read is ignored, and
  if one of them cannot be opened none is used.
\<close>

definition merge_readable :: "string \<times> string \<Rightarrow> variables \<Rightarrow> variables" where
  "merge_readable reader acc =
     (case ReadEnvFile (snd reader) of None \<Rightarrow> acc | Some m \<Rightarrow> Merge acc (FromMap m))"

definition envfile_env :: "host \<Rightarrow> Envfile \<Rightarrow> variables" where
  "envfile_env h e =
     (case ReaderFromPath h (Some e) of
        None \<Rightarrow> NewVariables
      | Some readers \<Rightarrow> fold merge_readable readers NewVariables)"

text \<open>The loop over the environment; the pairs come in the order Go's map iteration picks.\<close>

fun envfile_lines :: "regex_match \<Rightarrow> Envfile \<Rightarrow> (string \<times> gval) list \<Rightarrow> string list" where
  "envfile_lines re e [] = []"
| "envfile_lines re e ((varName, varValue) # rest) =
     (if varName \<in> set invalidEnvVarKeys then envfile_lines re e rest
      else (let varName = modifyName re e varName in
        if includeExcludeSkip e varName then envfile_lines re e rest
        else (varName @ ''='' @ fmt_v varValue) # envfile_lines re e rest))"

definition enumerates_map :: "('k \<times> 'v) list \<Rightarrow> ('k \<rightharpoonup> 'v) \<Rightarrow> bool" where
  "enumerates_map kvs m \<longleftrightarrow> distinct (map fst kvs) \<and> map_of kvs = m"

text \<open>
  \<open>ProcessEnvfile\<close>: the new environment replaces the context's. \<open>kvs\<close> enumerates the merged
  environment.
\<close>

definition ProcessEnvfile ::
  "regex_match \<Rightarrow> Envfile \<Rightarrow> (string \<times> gval) list \<Rightarrow> ExecutionContext \<Rightarrow>
     context_error option \<times> ExecutionContext" where
  "ProcessEnvfile re e kvs c =
     (if 0 < length (Exclude e) \<and> 0 < length (Include e) then (Some ErrMutuallyExclusiveVarSet, c)
      else (None, c\<lparr>ecEnv := FromMap (ConvertFromEnv (envfile_lines re e kvs))\<rparr>))"

definition merged_env :: "host \<Rightarrow> Envfile \<Rightarrow> variables \<Rightarrow> variables" where
  "merged_env h e env = Merge (envfile_env h e) env"

section \<open>Contexts from a configuration\<close>

record ContextDefinition =
  cdSourceFile :: string
  cdDir :: string
  cdUp :: "string list"
  cdDown :: "string list"
  cdBefore :: "string list"
  cdAfter :: "string list"
  cdEnv :: "string \<rightharpoonup> string"
  cdEnvfile :: "Envfile option"
  cdVariables :: "string \<rightharpoonup> string"
  cdExecutable :: "Binary option"
  cdQuote :: string
  cdContainer :: "Container option"

definition DefaultContainerExcludes :: "string list" where
  "DefaultContainerExcludes = [''PATH'', ''HOME'', ''TMPDIR'']"

definition newEnvFile :: "Envfile \<Rightarrow> bool \<Rightarrow> context_error + Envfile" where
  "newEnvFile def isContainerContext =
     (let envFile = NewEnvFile [\<lambda>e. e\<lparr>
            Exclude := Exclude def @ (if isContainerContext then DefaultContainerExcludes else []),
            PathValue := PathValue def, Include := Include def, Modify := Modify def,
            Quote := Quote def, ReplaceChar := ReplaceChar def\<rparr>] in
      case Validate def of Some e \<Rightarrow> Inl (ErrEnvfile e) | None \<Rightarrow> Inr envFile)"

definition forbiddenContainerArgsPairs :: "string list" where
  "forbiddenContainerArgsPairs = [''docker.sock:'']"

definition forbiddenContainerArgsSwitches :: "string list" where
  "forbiddenContainerArgsSwitches = [''--privileged'']"

text \<open>\<open>slices.Index\<close>: the first position of a value.\<close>

definition slices_Index :: "'a list \<Rightarrow> 'a \<Rightarrow> nat option" where
  "slices_Index xs v = find_index (\<lambda>x. x = v) xs"

definition verbotenArgIdx :: "string list \<Rightarrow> nat list" where
  "verbotenArgIdx cargs =
     concat (map (\<lambda>pair. List.map_filter (slices_Index cargs) (filter (\<lambda>s. Contains s pair) cargs))
       forbiddenContainerArgsPairs) @
     List.map_filter (slices_Index cargs) forbiddenContainerArgsSwitches"

definition checkForbiddenContainerArgs :: "string list \<Rightarrow> string list" where
  "checkForbiddenContainerArgs cargs =
     (if length cargs = 0 then cargs
      else map snd (filter (\<lambda>(idx, arg). idx \<notin> set (verbotenArgIdx cargs))
        (zip [0..<length cargs] cargs)))"

definition contextExecutable ::
  "host \<Rightarrow> (string list \<Rightarrow> string + parsed_flags) \<Rightarrow> string \<Rightarrow> Container option \<Rightarrow>
     context_error + ContainerContext option" where
  "contextExecutable h pflag pwd container =
     (case container of
        None \<Rightarrow> Inr None
      | Some c \<Rightarrow>
          if cName c = '''' then Inr None
          else (let cc = NewContainerContext (cName c) [WithContainerContextPullTimeout (PullTimeout c)];
                    cc = cc\<lparr>ccBindMount := EnableBindMount c\<rparr>;
                    cc = WithVolumes cc [pwd @ '':/eirctl''];
                    cc = (if EnableDinD c then
                            WithVolumes cc [(case host_getenv h ''EIRCTL_DOCKER_HOST'' of
                               None \<Rightarrow> ''/var/run/docker.sock'' | Some p \<Rightarrow> p) @ '':/var/run/docker.sock'']
                          else cc) in
            bind_res (ParseContainerArgs h pflag (checkForbiddenContainerArgs (ContainerArgs c)) cc)
              (\<lambda>cc. let cc = (case Entrypoint c of None \<Rightarrow> cc | Some ep \<Rightarrow> cc\<lparr>ccEntrypoint := ep\<rparr>) in
                Inr (Some (if Shell c \<noteq> '''' then
                       (case ShellArgs c of None \<Rightarrow> cc | Some args \<Rightarrow> cc\<lparr>ccShellArgs := Shell c # args\<rparr>)
                     else cc\<lparr>ccShellArgs := [''sh'', ''-c'']\<rparr>)))))"

definition buildContext ::
  "host \<Rightarrow> (string list \<Rightarrow> string + parsed_flags) \<Rightarrow> string \<Rightarrow> string list \<Rightarrow> ContextDefinition \<Rightarrow>
     context_error + ExecutionContext" where
  "buildContext h pflag pwd environ def =
     (let dir = (if cdDir def = '''' then pwd else cdDir def) in
      if (case cdContainer def of None \<Rightarrow> False | Some c \<Rightarrow> cName c = '''') then
        Inl (ErrBuildContextIncorrect ''either container image must be specified'')
      else if (case cdExecutable def of None \<Rightarrow> False | Some b \<Rightarrow> Bin b = '''') then
        Inl (ErrBuildContextIncorrect ''executable binary must be specified'')
      else (let defEnvfile = (case cdEnvfile def of None \<Rightarrow> ZeroEnvFile | Some e \<Rightarrow> e);
                buildEnvVars = Merge (FromMap (ConvertFromEnv environ)) (FromMap (cdEnv def)) in
        bind_res (newEnvFile defEnvfile (cdContainer def \<noteq> None)) (\<lambda>envFile.
        bind_res (contextExecutable h pflag pwd (cdContainer def)) (\<lambda>utilContainer.
          Inr ((NewExecutionContext (cdExecutable def) dir buildEnvVars (Some envFile)
             (cdUp def) (cdDown def) (cdBefore def) (cdAfter def)
             [WithQuote (cdQuote def), \<lambda>c. c\<lparr>ecVariables := FromMap (cdVariables def)\<rparr>,
              WithContainerOpts utilContainer])\<lparr>ecSourceFile := cdSourceFile def\<rparr>)))))"

section \<open>Forbidden container arguments\<close>

definition forbidden_arg :: "string \<Rightarrow> bool" where
  "forbidden_arg a \<longleftrightarrow> Contains a ''docker.sock:'' \<or> a = ''--privileged''"

lemma slices_Index_iff:
  "slices_Index xs v = Some i \<longleftrightarrow> i < length xs \<and> xs ! i = v \<and> (\<forall>j < i. xs ! j \<noteq> v)"
proof
  assume "slices_Index xs v = Some i"
  then show "i < length xs \<and> xs ! i = v \<and> (\<forall>j < i. xs ! j \<noteq> v)"
    unfolding slices_Index_def by (drule_tac find_index_Some) blast
next
  assume i: "i < length xs \<and> xs ! i = v \<and> (\<forall>j < i. xs ! j \<noteq> v)"
  then have "slices_Index xs v \<noteq> None" unfolding slices_Index_def by auto
  then obtain k where k: "slices_Index xs v = Some k" by blast
  then have "k < length xs \<and> xs ! k = v \<and> (\<forall>j < k. xs ! j \<noteq> v)"
    unfolding slices_Index_def by (drule_tac find_index_Some) blast
  with i have "k = i" by (metis linorder_neqE_nat)
  with k show "slices_Index xs v = Some i" by simp
qed

lemma map_filter_mem: "y \<in> set (List.map_filter f xs) \<longleftrightarrow> (\<exists>x \<in> set xs. f x = Some y)"
  by (force simp: List.map_filter_def)

lemma verboten_iff:
  "i \<in> set (verbotenArgIdx cargs) \<longleftrightarrow>
     i < length cargs \<and> forbidden_arg (cargs ! i) \<and> (\<forall>j < i. cargs ! j \<noteq> cargs ! i)"
  unfolding verbotenArgIdx_def forbiddenContainerArgsPairs_def forbiddenContainerArgsSwitches_def
    forbidden_arg_def
  by (auto simp: map_filter_mem slices_Index_iff simp del: map_filter_simps)

lemma nths_same: "(\<And>i. i < length xs \<Longrightarrow> i \<in> A \<longleftrightarrow> i \<in> B) \<Longrightarrow> nths xs A = nths xs B"
  unfolding nths_def by (intro arg_cong [where f = "map fst"] filter_cong) (auto simp: set_zip)

lemma zip_upt_filter:
  "map snd (filter (\<lambda>(i, a). P i) (zip [0..<length xs] xs)) = nths xs {i. P i}"
proof -
  have "filter (\<lambda>(i, a). P i) (zip [0..<length xs] xs) =
      map prod.swap (filter (\<lambda>p. snd p \<in> {i. P i}) (zip xs [0..<length xs]))"
    unfolding zip_commute [of "[0..<length xs]" xs] filter_map by (simp add: comp_def case_prod_unfold prod.swap_def)
  then show ?thesis by (simp add: nths_def comp_def)
qed

text \<open>Exactly the first occurrence of each forbidden argument is dropped.\<close>

lemma checkForbidden_eq:
  "checkForbiddenContainerArgs cargs =
     nths cargs {i. \<not> (forbidden_arg (cargs ! i) \<and> (\<forall>j < i. cargs ! j \<noteq> cargs ! i))}"
proof -
  have "checkForbiddenContainerArgs cargs = nths cargs {i. i \<notin> set (verbotenArgIdx cargs)}"
    by (cases "cargs = []") (simp_all add: checkForbiddenContainerArgs_def zip_upt_filter)
  also have "\<dots> = nths cargs {i. \<not> (forbidden_arg (cargs ! i) \<and> (\<forall>j < i. cargs ! j \<noteq> cargs ! i))}"
    unfolding verboten_iff by (rule nths_same) auto
  finally show ?thesis .
qed

lemma nths_filter: "(\<And>i. i < length xs \<Longrightarrow> i \<in> A \<longleftrightarrow> P (xs ! i)) \<Longrightarrow> nths xs A = filter P xs"
proof (induction xs arbitrary: A)
  case (Cons x xs)
  have "nths xs {j. Suc j \<in> A} = filter P xs"
    using Cons.prems by (intro Cons.IH) fastforce
  with Cons.prems [of 0] show ?case by (simp add: nths_Cons)
qed simp

section \<open>What the environment of a context holds\<close>

lemma convert_from_dom:
  "convert_from ls m k = Some v \<Longrightarrow> m k = Some v \<or> (\<exists>l \<in> set ls. hd (Split l ''='') = k)"
proof (induction ls arbitrary: m)
  case (Cons l ls)
  then have "convert_from ls (m(hd (Split l ''='') \<mapsto> Join (tl (Split l ''='')) ''='')) k = Some v"
    by (simp add: Let_def)
  from Cons.IH [OF this] show ?case by (auto split: if_splits)
qed simp

lemma hd_Split_prefix: "hd (Split (a @ ''='' @ b) ''='') = hd (Split a ''='')"
  using Split_append [of "''=''" a b] by (simp add: hd_append)

lemma prefix_hd_Split: "prefix (hd (Split a ''='')) a"
proof -
  have "Join (Split a ''='') ''='' = a" by (rule Join_Split) simp
  then show ?thesis by (cases "Split a ''=''"; cases "tl (Split a ''='')") (auto simp: prefix_def Join_Cons)
qed

lemma envfile_lines_mem:
  "l \<in> set (envfile_lines re e kvs) \<Longrightarrow>
     \<exists>k v. (k, v) \<in> set kvs \<and> k \<notin> set invalidEnvVarKeys \<and> \<not> includeExcludeSkip e (modifyName re e k) \<and>
       l = modifyName re e k @ ''='' @ fmt_v v"
  by (induction re e kvs rule: envfile_lines.induct) (auto simp: Let_def split: if_splits)

definition excluded :: "Envfile \<Rightarrow> string \<Rightarrow> bool" where
  "excluded e k \<longleftrightarrow> (\<exists>v \<in> set (Exclude e). HasPrefix (ToLower k) (ToLower v))"

lemma ToLower_prefix: "prefix a b \<Longrightarrow> prefix (ToLower a) (ToLower b)"
  by (auto simp: ToLower_def prefix_def)

lemma excluded_skip: "excluded e k \<Longrightarrow> prefix k n \<Longrightarrow> includeExcludeSkip e n"
  unfolding excluded_def includeExcludeSkip_def Let_def list_ex_iff HasPrefix_iff
  by (meson ToLower_prefix prefix_order.trans)

lemma ProcessEnvfile_excludes:
  assumes "ProcessEnvfile re e kvs c = (None, c')" and x: "excluded e k"
  shows "ecEnv c' k = None"
proof (rule ccontr)
  assume "ecEnv c' k \<noteq> None"
  with assms(1) obtain v where "convert_from (envfile_lines re e kvs) Map.empty k = Some v"
    by (auto simp: ProcessEnvfile_def ConvertFromEnv_def FromMap_def split: if_splits)
  from convert_from_dom [OF this] obtain l where
    l: "l \<in> set (envfile_lines re e kvs)" "hd (Split l ''='') = k" by auto
  from envfile_lines_mem [OF l(1)] obtain n v' where
    n: "\<not> includeExcludeSkip e (modifyName re e n)" "l = modifyName re e n @ ''='' @ fmt_v v'" by blast
  from l(2) n(2) have "hd (Split (modifyName re e n) ''='') = k" by (simp only: hd_Split_prefix)
  with prefix_hd_Split have "prefix k (modifyName re e n)" by metis
  with excluded_skip [OF x] n(1) show False by blast
qed

lemma newEnvFile_Exclude:
  "newEnvFile def b = Inr e \<Longrightarrow>
     Exclude e = Exclude def @ (if b then DefaultContainerExcludes else []) \<and> Include e = Include def"
  by (auto simp: newEnvFile_def NewEnvFile_def Let_def split: option.splits)

text \<open>Without \<open>modify\<close> rules the lines are the selected entries of the environment.\<close>

lemma envfile_lines_plain:
  "Modify e = [] \<Longrightarrow> envfile_lines re e kvs =
     ConvertEnv (map (\<lambda>(k, v). (k, fmt_v v))
       (filter (\<lambda>(k, v). k \<notin> set invalidEnvVarKeys \<and> \<not> includeExcludeSkip e k) kvs))"
proof (induction kvs)
  case (Cons kv kvs)
  then show ?case by (cases kv) (simp add: ConvertEnv_def modifyName_def Let_def)
qed (simp add: ConvertEnv_def)

lemma map_of_filter_key:
  "map_of (filter (\<lambda>(k, v). P k) kvs) k = (if P k then map_of kvs k else None)"
  by (induction kvs) auto

lemma map_of_map_snd: "map_of (map (\<lambda>(k, v). (k, f v)) kvs) k = map_option f (map_of kvs k)"
  by (induction kvs) auto

lemma ProcessEnvfile_selection:
  assumes "Modify e = []" and "enumerates_map kvs (merged_env h e env)"
    and "\<forall>k \<in> dom (merged_env h e env). k \<notin> set invalidEnvVarKeys \<longrightarrow> CHR ''='' \<notin> set k"
    and "ProcessEnvfile re e kvs c = (None, c')"
  shows "ecEnv c' k =
    (if k \<in> set invalidEnvVarKeys \<or> includeExcludeSkip e k then None
     else map_option (GStr \<circ> fmt_v) (case env k of Some v \<Rightarrow> Some v | None \<Rightarrow> envfile_env h e k))"
proof -
  let ?sel = "filter (\<lambda>(k, v). k \<notin> set invalidEnvVarKeys \<and> \<not> includeExcludeSkip e k) kvs"
  let ?kvs = "map (\<lambda>(k, v). (k, fmt_v v)) ?sel"
  have kvs: "distinct (map fst kvs)" "map_of kvs = merged_env h e env"
    using assms(2) by (auto simp: enumerates_map_def)
  have fst_map: "map fst ?kvs = map fst ?sel" by (simp add: comp_def case_prod_unfold)
  have "distinct (map fst ?kvs)" unfolding fst_map using kvs(1) by (rule distinct_map_filter)
  moreover have "\<forall>kv \<in> set ?kvs. CHR ''='' \<notin> set (fst kv)"
  proof
    fix kv assume "kv \<in> set ?kvs"
    then obtain v where v: "(fst kv, v) \<in> set kvs" "fst kv \<notin> set invalidEnvVarKeys" by auto
    then have "fst kv \<in> dom (merged_env h e env)"
      unfolding kvs(2) [symmetric] by (simp add: dom_map_of_conv_image_fst image_iff) force
    with v(2) assms(3) show "CHR ''='' \<notin> set (fst kv)" by blast
  qed
  ultimately have "ConvertFromEnv (envfile_lines re e kvs) = map_of ?kvs"
    unfolding envfile_lines_plain [OF assms(1)] by (rule ConvertFromEnv_ConvertEnv)
  with assms(4) have "ecEnv c' k = map_option GStr (map_of ?kvs k)"
    by (auto simp: ProcessEnvfile_def FromMap_def split: if_splits)
  then show ?thesis
    by (simp add: map_of_map_snd map_of_filter_key kvs(2) merged_env_def Merge_apply option.map_comp)
qed

section \<open>Properties\<close>

text \<open>Of the container arguments exactly the first occurrence of each forbidden argument is
  dropped, and everything else is kept in order.\<close>

theorem checkForbiddenContainerArgs_spec:
  "checkForbiddenContainerArgs cargs =
     nths cargs {i. \<not> (forbidden_arg (cargs ! i) \<and> (\<forall>j < i. cargs ! j \<noteq> cargs ! i))}"
  by (rule checkForbidden_eq)

text \<open>A forbidden argument that is given twice survives: the Docker socket can be mounted by
  writing the same mount two times.\<close>

theorem forbidden_arg_survives_twice:
  assumes "forbidden_arg a"
  shows "checkForbiddenContainerArgs [a, a] = [a] \<and> checkForbiddenContainerArgs [a] = []"
  using assms unfolding checkForbidden_eq by (simp add: nths_Cons)

theorem forbidden_arg_survives_twice_witness:
  "checkForbiddenContainerArgs
     [''-v /var/run/docker.sock:/s.sock'', ''-v /var/run/docker.sock:/s.sock''] =
     [''-v /var/run/docker.sock:/s.sock'']"
proof -
  have "forbidden_arg (''-v /var/run/'' @ ''docker.sock:'' @ ''/s.sock'')"
    unfolding forbidden_arg_def Contains_iff by blast
  then have "forbidden_arg ''-v /var/run/docker.sock:/s.sock''" by simp
  from forbidden_arg_survives_twice [OF this] show ?thesis by blast
qed

text \<open>C18. No variable whose name starts, in any case, with an excluded prefix is in the environment
  that \<open>ProcessEnvfile\<close> gives the context, whatever the \<open>modify\<close> rules make of the names; for a
  container this covers PATH, HOME and TMPDIR of the host.\<close>

theorem container_env_excludes:
  assumes "newEnvFile def True = Inr e" and "ProcessEnvfile re e kvs c = (None, c')"
    and "\<exists>p \<in> set (Exclude def @ [''PATH'', ''HOME'', ''TMPDIR'']). HasPrefix (ToLower k) (ToLower p)"
  shows "ecEnv c' k = None"
  using assms(3) newEnvFile_Exclude [OF assms(1)]
  by (intro ProcessEnvfile_excludes [OF assms(2)]) (simp add: excluded_def DefaultContainerExcludes_def)

theorem container_env_excludes_witness:
  "\<exists>e c'. newEnvFile ZeroEnvFile True = Inr e \<and>
     ProcessEnvfile (\<lambda>p n. None) e [(''Path'', GStr ''/bin''), (''A'', GStr ''1'')] (DefaultContext []) = (None, c') \<and>
     ecEnv c' ''Path'' = None"
proof -
  obtain e where e: "newEnvFile ZeroEnvFile True = Inr e"
    by (simp add: newEnvFile_def Validate_def ZeroEnvFile_def Let_def)
  obtain c' where c: "ProcessEnvfile (\<lambda>p n. None) e [(''Path'', GStr ''/bin''), (''A'', GStr ''1'')] (DefaultContext []) = (None, c')"
    using newEnvFile_Exclude [OF e] by (simp add: ProcessEnvfile_def ZeroEnvFile_def)
  have "HasPrefix (ToLower ''Path'') (ToLower ''PATH'')" by code_simp
  with container_env_excludes [OF e c, of "''Path''"] e c show ?thesis by auto
qed

text \<open>\<open>include\<close> cannot be used with a container: the default excludes are always there, so
  \<open>ProcessEnvfile\<close> refuses the two lists as mutually exclusive.\<close>

theorem container_include_always_refused:
  assumes "newEnvFile def True = Inr e" and "Include def \<noteq> []"
  shows "ProcessEnvfile re e kvs c = (Some ErrMutuallyExclusiveVarSet, c)"
  using newEnvFile_Exclude [OF assms(1)] assms(2)
  by (simp add: ProcessEnvfile_def DefaultContainerExcludes_def)

theorem container_include_always_refused_witness:
  "\<exists>e. newEnvFile (ZeroEnvFile\<lparr>Include := [''CI'']\<rparr>) True = Inr e \<and>
     ProcessEnvfile (\<lambda>p n. None) e [] (DefaultContext []) = (Some ErrMutuallyExclusiveVarSet, DefaultContext [])"
proof -
  obtain e where e: "newEnvFile (ZeroEnvFile\<lparr>Include := [''CI'']\<rparr>) True = Inr e"
    by (simp add: newEnvFile_def Validate_def ZeroEnvFile_def Let_def)
  from container_include_always_refused [OF e, of "\<lambda>p n. None" "[]" "DefaultContext []"] e
  show ?thesis by simp
qed

text \<open>Without \<open>modify\<close> rules the environment of a context is exactly the selection of the merged
  environment: the names that are neither invalid nor filtered, with their values printed;
  the given environment wins over the env files.\<close>

theorem ProcessEnvfile_selects:
  assumes "Modify e = []" and "enumerates_map kvs (merged_env h e env)"
    and "\<forall>k \<in> dom (merged_env h e env). k \<notin> set invalidEnvVarKeys \<longrightarrow> CHR ''='' \<notin> set k"
    and "ProcessEnvfile re e kvs c = (None, c')"
  shows "ecEnv c' k =
    (if k \<in> set invalidEnvVarKeys \<or> includeExcludeSkip e k then None
     else map_option (GStr \<circ> fmt_v) (case env k of Some v \<Rightarrow> Some v | None \<Rightarrow> envfile_env h e k))"
  using assms by (rule ProcessEnvfile_selection)

theorem ProcessEnvfile_selects_witness:
  "\<exists>c'. ProcessEnvfile (\<lambda>p n. None) ZeroEnvFile [(''A'', GBool True)] (DefaultContext []) = (None, c') \<and>
     ecEnv c' ''A'' = Some (GStr ''true'')"
proof -
  obtain c' where c: "ProcessEnvfile (\<lambda>p n. None) ZeroEnvFile [(''A'', GBool True)] (DefaultContext []) = (None, c')"
    by (simp add: ProcessEnvfile_def ZeroEnvFile_def)
  have f: "envfile_env demo_host ZeroEnvFile = NewVariables"
    by (simp add: envfile_env_def ReaderFromPath_def ZeroEnvFile_def)
  then have m: "merged_env demo_host ZeroEnvFile [''A'' \<mapsto> GBool True] = [''A'' \<mapsto> GBool True]"
    by (auto simp: merged_env_def fun_eq_iff Merge_apply NewVariables_def split: option.splits)
  have "ecEnv c' ''A'' =
    (if ''A'' \<in> set invalidEnvVarKeys \<or> includeExcludeSkip ZeroEnvFile ''A'' then None
     else map_option (GStr \<circ> fmt_v) (case [''A'' \<mapsto> GBool True] ''A'' of Some v \<Rightarrow> Some v
       | None \<Rightarrow> envfile_env demo_host ZeroEnvFile ''A''))"
  proof (rule ProcessEnvfile_selects [where h = demo_host and env = "[''A'' \<mapsto> GBool True]", OF _ _ _ c])
    show "Modify ZeroEnvFile = []" by (simp add: ZeroEnvFile_def)
    show "enumerates_map [(''A'', GBool True)] (merged_env demo_host ZeroEnvFile [''A'' \<mapsto> GBool True])"
      unfolding m by (simp add: enumerates_map_def)
    show "\<forall>k \<in> dom (merged_env demo_host ZeroEnvFile [''A'' \<mapsto> GBool True]).
        k \<notin> set invalidEnvVarKeys \<longrightarrow> CHR ''='' \<notin> set k"
      unfolding m by simp
  qed
  then have "ecEnv c' ''A'' = Some (GStr ''true'')"
    by (simp add: invalidEnvVarKeys_def includeExcludeSkip_def ZeroEnvFile_def)
  with c show ?thesis by blast
qed

text \<open>A volume \<open>src:/dst\<close> is taken apart at its last \<open>:/\<close>: source and target, joined by a colon,
  give the volume back, and the target is an absolute path.\<close>

theorem BindMounts_roundtrip:
  assumes "vol \<in> ccVolumes c" and "Contains vol '':/''"
  shows "\<exists>b \<in> BindMounts c. SourcePath b @ '':'' @ TargetPath b = vol \<and> HasPrefix (TargetPath b) ''/'' \<and>
    \<not> Contains (tl (TargetPath b)) '':/''"
proof -
  let ?s = "Split vol '':/''"
  obtain a b where ab: "vol = a @ '':/'' @ b" using assms(2) unfolding Contains_iff by blast
  have ub: "unbordered '':/''" by (auto simp: unbordered_def less_Suc_eq_0_disj numeral_2_eq_2 HasPrefix_def)
  from ab have s: "?s = Split a '':/'' @ Split b '':/''" using Split_append [OF ub] by simp
  then have l: "butlast ?s \<noteq> []" by (simp add: butlast_append)
  have "vol = Join ?s '':/''" using Join_Split [of "'':/''" vol] by simp
  also have "\<dots> = Join (butlast ?s @ [last ?s]) '':/''" by simp
  also have "\<dots> = Join (butlast ?s) '':/'' @ '':/'' @ last ?s"
    unfolding Join_append [OF l not_Cons_self2] by simp
  finally have v: "Join (butlast ?s) '':/'' @ '':/'' @ last ?s = vol" ..
  have bv: "bind_volume vol = \<lparr>SourcePath = Join (butlast ?s) '':/'', TargetPath = ''/'' @ last ?s\<rparr>"
    by (simp add: bind_volume_def Let_def butlast_conv_take last_conv_nth)
  have "\<not> Contains (last ?s) '':/''" using Split_no_sep [OF ub] last_in_set [OF Split_nonempty] by blast
  with bv v have "SourcePath (bind_volume vol) @ '':'' @ TargetPath (bind_volume vol) = vol \<and>
      HasPrefix (TargetPath (bind_volume vol)) ''/'' \<and> \<not> Contains (tl (TargetPath (bind_volume vol))) '':/''"
    by (simp add: HasPrefix_def)
  moreover have "bind_volume vol \<in> BindMounts c" using assms(1) unfolding BindMounts_def by (rule imageI)
  ultimately show ?thesis by blast
qed

theorem BindMounts_roundtrip_witness:
  "\<exists>b \<in> BindMounts (WithVolumes (NewContainerContext ''alpine'' []) [''C:/w'' @ '':/'' @ ''eirctl'']).
     SourcePath b @ '':'' @ TargetPath b = ''C:/w:/eirctl''"
proof -
  have v: "''C:/w'' @ '':/'' @ ''eirctl'' \<in>
      ccVolumes (WithVolumes (NewContainerContext ''alpine'' []) [''C:/w'' @ '':/'' @ ''eirctl''])"
    by (simp add: WithVolumes_def)
  have "Contains (''C:/w'' @ '':/'' @ ''eirctl'') '':/''" unfolding Contains_iff by blast
  from BindMounts_roundtrip [OF v this] show ?thesis by auto
qed

end
