(* ===== verification/Runner.thy ===== *)
theory Runner
  imports Contexts Stage
begin

text \<open>
  \<open>runner/compiler.go\<close>, \<open>runner/job.go\<close>, \<open>runner/executor.go\<close>, \<open>runner/executor_default.go\<close> and
  \<open>runner/runner.go\<close>: how a task is compiled into jobs and run. Contexts are shared between
  the tasks that name them, so they live in a heap. The shell interpreter, the container
  engine, the template engine and the clock are parameters; a world of any type is threaded
  through every command that is run.
\<close>

section \<open>Jobs and executors\<close>

record Job =
  jCommand :: string
  jDir :: string
  jEnv :: variables
  jVars :: variables
  jTimeout :: "int option"
  jIsShell :: bool

definition NewJobFromCommand :: "string \<Rightarrow> Job" where
  "NewJobFromCommand command =
     \<lparr>jCommand = command, jDir = '''', jEnv = NewVariables, jVars = NewVariables, jTimeout = None,
      jIsShell = False\<rparr>"

text \<open>The exit status is Go's \<open>uint8\<close>.\<close>

datatype exec_result = ExecOk | ExecStatus "8 word" | ExecErr string

definition IsExitStatus :: "exec_result \<Rightarrow> 8 word option" where
  "IsExitStatus r = (case r of ExecStatus n \<Rightarrow> Some n | _ \<Rightarrow> None)"

datatype run_error =
    NoSuchContext string
  | ServiceError exec_result
  | EnvfileError context_error
  | EnvfileFormat
  | TemplateError string
  | RequiredMissing required_error
  | ExecutorError string
  | ExecutionError exec_result
  | OutputError string
  | BeforeCompile run_error
  | AfterCompile run_error
  | ArtifactFailed
  | ArtifactUnreadable
  | NilPointer

text \<open>
  The parameters. \<open>p_shell\<close> parses and runs a command in an environment and a directory;
  \<open>p_container\<close> runs a job in a container; \<open>p_enum\<close> is the order in which Go ranges over a
  map; \<open>p_new_default\<close> and \<open>p_new_container\<close> are the errors of building an executor.
\<close>

record 'w params =
  p_host :: host
  p_environ :: "string list"
  p_regex :: regex_match
  p_tmpl :: tmpl_exec
  p_enum :: "variables \<Rightarrow> (string \<times> gval) list"
  p_shell :: "bool \<Rightarrow> string \<Rightarrow> string list \<Rightarrow> string \<Rightarrow> int option \<Rightarrow> 'w \<Rightarrow> exec_result \<times> 'w"
  p_container :: "ExecutionContext \<Rightarrow> bool \<Rightarrow> Job \<Rightarrow> 'w \<Rightarrow> exec_result \<times> 'w"
  p_new_default :: "'w \<Rightarrow> string option"
  p_new_container :: "ExecutionContext \<Rightarrow> 'w \<Rightarrow> string option"
  p_new_output :: "Task \<Rightarrow> string \<Rightarrow> string option"
  p_start_output :: "Task \<Rightarrow> string option"
  p_now :: "'w \<Rightarrow> int"
  p_contexts :: "string \<rightharpoonup> ref"
  p_variables :: variables
  p_compiler_variables :: variables
  p_output_format :: string

record 'w rstate =
  rsHeap :: "ref \<Rightarrow> ExecutionContext"
  rsNext :: ref
  rsTask :: Task
  rsEnv :: variables
  rsCleanup :: "string \<rightharpoonup> ref"
  rsWorld :: 'w

type_synonym ('w, 'a) run = "('w rstate, run_error, 'a) op"

text \<open>The environment list of a job; the values are printed as \<open>ConvertToMapOfStrings\<close> does.\<close>

definition env_list :: "'w params \<Rightarrow> variables \<Rightarrow> string list" where
  "env_list p env = ConvertEnv (map (\<lambda>(k, v). (k, fmt_v v)) (p_enum p env))"

definition DefaultExecute :: "'w params \<Rightarrow> bool \<Rightarrow> Job \<Rightarrow> 'w \<Rightarrow> exec_result \<times> 'w" where
  "DefaultExecute p doReset job w =
     (case ParseTemplate (p_tmpl p) (jCommand job) (jVars job) (jEnv job) of
        Inl e \<Rightarrow> (ExecErr e, w)
      | Inr command \<Rightarrow>
          p_shell p doReset command (p_environ p @ env_list p (jEnv job))
            (if jDir job = '''' then (case host_cwd (p_host p) of None \<Rightarrow> '''' | Some d \<Rightarrow> d) else jDir job)
            (jTimeout job) w)"

definition GetExecutorFactory :: "'w params \<Rightarrow> ExecutionContext \<Rightarrow> 'w \<Rightarrow> string option" where
  "GetExecutorFactory p c w =
     (case GetExecutorType c of
        DefaultExecutorTyp \<Rightarrow> p_new_default p w
      | ContainerExecutorTyp \<Rightarrow> p_new_container p c w)"

definition executor_Execute ::
  "'w params \<Rightarrow> ExecutionContext \<Rightarrow> bool \<Rightarrow> Job \<Rightarrow> 'w \<Rightarrow> exec_result \<times> 'w" where
  "executor_Execute p c doReset job w =
     (case GetExecutorType c of
        DefaultExecutorTyp \<Rightarrow> DefaultExecute p doReset job w
      | ContainerExecutorTyp \<Rightarrow> p_container p c doReset job w)"

section \<open>Service commands of a context\<close>

definition runServiceCommand ::
  "'w params \<Rightarrow> string \<Rightarrow> ExecutionContext \<Rightarrow> 'w \<Rightarrow> run_error option \<times> 'w" where
  "runServiceCommand p command c w =
     (case p_new_default p w of
        Some e \<Rightarrow> (Some (ExecutorError e), w)
      | None \<Rightarrow>
          (let job = (NewJobFromCommand command)\<lparr>jDir := ecDir c, jEnv := ecEnv c, jVars := ecVariables c\<rparr>;
               (r, w') = DefaultExecute p False job w in
           (if r = ExecOk then None else Some (ServiceError r), w')))"

text \<open>The loop of \<open>Up\<close>: it goes on after an error, and the last error is the one that stays.\<close>

fun up_loop :: "'w params \<Rightarrow> ExecutionContext \<Rightarrow> string list \<Rightarrow> run_error option \<Rightarrow> 'w \<Rightarrow> run_error option \<times> 'w" where
  "up_loop p c [] err w = (err, w)"
| "up_loop p c (command # rest) err w =
     (case runServiceCommand p command c w of
        (None, w') \<Rightarrow> up_loop p c rest err w'
      | (Some e, w') \<Rightarrow> up_loop p c rest (Some e) w')"

text \<open>\<open>Down\<close> only logs the errors.\<close>

fun down_loop :: "'w params \<Rightarrow> ExecutionContext \<Rightarrow> string list \<Rightarrow> 'w \<Rightarrow> 'w" where
  "down_loop p c [] w = w"
| "down_loop p c (command # rest) w = down_loop p c rest (snd (runServiceCommand p command c w))"

text \<open>\<open>Before\<close> and \<open>After\<close> stop at the first error.\<close>

fun service_loop :: "'w params \<Rightarrow> ExecutionContext \<Rightarrow> string list \<Rightarrow> 'w \<Rightarrow> run_error option \<times> 'w" where
  "service_loop p c [] w = (None, w)"
| "service_loop p c (command # rest) w =
     (case runServiceCommand p command c w of
        (None, w') \<Rightarrow> service_loop p c rest w'
      | (Some e, w') \<Rightarrow> (Some e, w'))"

text \<open>
  The startup error is kept beside the context, as a function from references: \<open>ecOnceUp\<close> and
  \<open>ecOnceDown\<close> are the two \<open>sync.Once\<close>.
\<close>

definition set_ctx :: "ref \<Rightarrow> ExecutionContext \<Rightarrow> 'w rstate \<Rightarrow> 'w rstate" where
  "set_ctx r c s = s\<lparr>rsHeap := (rsHeap s)(r := c)\<rparr>"

definition error_text :: "run_error \<Rightarrow> string" where
  "error_text e = (case e of ExecutorError m \<Rightarrow> m | ServiceError (ExecErr m) \<Rightarrow> m | _ \<Rightarrow> ''exit status'')"

definition Up :: "'w params \<Rightarrow> ref \<Rightarrow> ('w, unit) run" where
  "Up p r s =
     (let c = rsHeap s r;
          s1 = (if ecOnceUp c then s
                else (let (err, w') = up_loop p c (ecUp c) None (rsWorld s) in
                  set_ctx r (c\<lparr>ecOnceUp := True,
                      ecStartupError := (case err of None \<Rightarrow> ecStartupError c | Some e \<Rightarrow> Some (error_text e))\<rparr>)
                    (s\<lparr>rsWorld := w'\<rparr>)))
      in (case ecStartupError (rsHeap s1 r) of
            None \<Rightarrow> Inr () | Some e \<Rightarrow> Inl (ServiceError (ExecErr e)), s1))"

definition Down :: "'w params \<Rightarrow> ref \<Rightarrow> 'w rstate \<Rightarrow> 'w rstate" where
  "Down p r s =
     (let c = rsHeap s r in
      if ecOnceDown c then s
      else set_ctx r (c\<lparr>ecOnceDown := True\<rparr>) (s\<lparr>rsWorld := down_loop p c (ecDown c) (rsWorld s)\<rparr>))"

definition service_cmds ::
  "(ExecutionContext \<Rightarrow> string list) \<Rightarrow> 'w params \<Rightarrow> ref \<Rightarrow> ('w, unit) run" where
  "service_cmds cmds p r s =
     (let c = rsHeap s r; (err, w') = service_loop p c (cmds c) (rsWorld s) in
      (case err of None \<Rightarrow> Inr () | Some e \<Rightarrow> Inl e, s\<lparr>rsWorld := w'\<rparr>))"

definition Before :: "'w params \<Rightarrow> ref \<Rightarrow> ('w, unit) run" where
  "Before = service_cmds ecBefore"

definition After :: "'w params \<Rightarrow> ref \<Rightarrow> ('w, unit) run" where
  "After = service_cmds ecAfter"

section \<open>The context of a task\<close>

definition alloc_ctx :: "ExecutionContext \<Rightarrow> ('w, ref) run" where
  "alloc_ctx c s = (Inr (rsNext s), set_ctx (rsNext s) c (s\<lparr>rsNext := Suc (rsNext s)\<rparr>))"

definition lookup_ctx :: "'w params \<Rightarrow> Task \<Rightarrow> ref \<Rightarrow> ('w, ref) run" where
  "lookup_ctx p t r =
     (if tContext t \<noteq> '''' then
        (case p_contexts p (tContext t) of
           None \<Rightarrow> op_throw (NoSuchContext (tContext t))
         | Some c \<Rightarrow> op_then (op_modify (\<lambda>s. s\<lparr>rsCleanup := (rsCleanup s)(tContext t \<mapsto> c)\<rparr>)) (op_return c))
      else op_return r)"

definition contextForTask :: "'w params \<Rightarrow> Task \<Rightarrow> ('w, ref) run" where
  "contextForTask p t =
     op_bind (alloc_ctx (DefaultContext (p_environ p))) (\<lambda>r0.
     op_bind (lookup_ctx p t r0) (\<lambda>r.
     op_then (Up p r)
    (op_then (Before p r)
    (op_then (op_modify (\<lambda>s. set_ctx r ((rsHeap s r)\<lparr>ecEnv :=
        Merge (ecEnv (rsHeap s r)) (DefaultTaskctlEnv (p_host p))\<rparr>) s))
    (op_return r)))))"

definition Finish :: "'w params \<Rightarrow> string list \<Rightarrow> 'w rstate \<Rightarrow> 'w rstate" where
  "Finish p names s = fold (\<lambda>n s. case rsCleanup s n of None \<Rightarrow> s | Some r \<Rightarrow> Down p r s) names s"

section \<open>Compiling\<close>

text \<open>The variables of a task are templates over one another, rendered one after the other.\<close>

fun renderTaskVariables :: "'w params \<Rightarrow> variables \<Rightarrow> (string \<times> gval) list \<Rightarrow> variables \<Rightarrow> run_error + variables" where
  "renderTaskVariables p tenv [] vars = Inr vars"
| "renderTaskVariables p tenv ((key, v) # rest) vars =
     (case v of
        GStr str \<Rightarrow>
          (case ParseTemplate (p_tmpl p) str vars tenv of
             Inl e \<Rightarrow> Inl (TemplateError e)
           | Inr rendered \<Rightarrow> renderTaskVariables p tenv rest (Set vars key (GStr rendered)))
      | _ \<Rightarrow> renderTaskVariables p tenv rest vars)"

definition job_command :: "ExecutionContext \<Rightarrow> string \<Rightarrow> string" where
  "job_command c command =
     (case ecExecutable c of
        None \<Rightarrow> Join [command] '' ''
      | Some b \<Rightarrow> Join ([Bin b] @ Args b @ [ecQuote c @ command @ ecQuote c]) '' '')"

definition process_env :: "'w params \<Rightarrow> ref \<Rightarrow> variables \<Rightarrow> ('w, unit) run" where
  "process_env p r env s =
     (case ecEnvfile (rsHeap s r) of
        None \<Rightarrow> (Inr (), s)
      | Some e \<Rightarrow>
          (let (err, c') = ProcessEnvfile (p_regex p) e (p_enum p (merged_env (p_host p) e env)) (rsHeap s r) in
           (case err of None \<Rightarrow> Inr () | Some x \<Rightarrow> Inl (EnvfileError x), set_ctx r c' s)))"

definition required_ok :: "Task \<Rightarrow> variables \<Rightarrow> variables \<Rightarrow> run_error + unit" where
  "required_ok t env vars =
     (case tRequired t of
        None \<Rightarrow> Inr ()
      | Some ri \<Rightarrow>
          if HasRequired ri then
            (case RequiredInput_Check ri (Merge env (tEnv t)) vars of
               Some e \<Rightarrow> Inl (RequiredMissing e) | None \<Rightarrow> Inr ())
          else Inr ())"

definition compileCommand ::
  "'w params \<Rightarrow> ref \<Rightarrow> Task \<Rightarrow> string \<Rightarrow> variables \<Rightarrow> variables \<Rightarrow> ('w, Job) run" where
  "compileCommand p r t command env vars =
     op_then (process_env p r env)
    (op_bind (op_get (\<lambda>s. rsHeap s r)) (\<lambda>c.
     let jvars = Merge (p_compiler_variables p) vars;
         dir = (if tDir t \<noteq> '''' then tDir t else if ecDir c \<noteq> '''' then ecDir c else '''') in
     op_bind (op_lift (case ParseTemplate (p_tmpl p) dir jvars (ecEnv c) of
        Inl e \<Rightarrow> Inl (TemplateError e) | Inr d \<Rightarrow> Inr d)) (\<lambda>d.
     op_then (op_lift (required_ok t (ecEnv c) jvars))
     (op_return \<lparr>jCommand = job_command c command, jDir = d, jEnv = ecEnv c, jVars = jvars,
        jTimeout = tTimeout t, jIsShell = False\<rparr>))))"

definition CompileTask ::
  "'w params \<Rightarrow> ref \<Rightarrow> Task \<Rightarrow> variables \<Rightarrow> variables \<Rightarrow> ('w, Job list) run" where
  "CompileTask p r t env vars0 =
     (let merged = Merge (tVariables t) vars0 in
      op_bind (op_lift (renderTaskVariables p (tEnv t) (p_enum p merged) merged)) (\<lambda>vars.
      op_bind (op_map (List.product (GetVariations t) (tCommands t)) (\<lambda>(variant, command).
         compileCommand p r t command (Merge env (FromMap variant)) vars)) (\<lambda>jobs.
      if tInteractive t then
        (case jobs of [] \<Rightarrow> op_throw NilPointer | j # js \<Rightarrow> op_return (j\<lparr>jIsShell := True\<rparr> # js))
      else op_return jobs)))"

section \<open>Running\<close>

definition op_world :: "('w \<Rightarrow> 'a \<times> 'w) \<Rightarrow> ('w, 'a) run" where
  "op_world f s = (let (v, w') = f (rsWorld s) in (Inr v, s\<lparr>rsWorld := w'\<rparr>))"

definition op_fail_if :: "('w \<Rightarrow> run_error option) \<Rightarrow> ('w, unit) run" where
  "op_fail_if f s = (case f (rsWorld s) of None \<Rightarrow> Inr () | Some e \<Rightarrow> Inl e, s)"

definition mod_task :: "(Task \<Rightarrow> Task) \<Rightarrow> ('w, unit) run" where
  "mod_task f = op_modify (\<lambda>s. s\<lparr>rsTask := f (rsTask s)\<rparr>)"

definition end_task :: "'w params \<Rightarrow> ('w, unit) run" where
  "end_task p = op_modify (\<lambda>s. s\<lparr>rsTask := task_WithEnd (rsTask s) (p_now p (rsWorld s))\<rparr>)"

text \<open>What \<open>execute\<close> does with the error of a job: the exit code, and the failure of the task.\<close>

definition note_exit :: "exec_result \<Rightarrow> ('w, unit) run" where
  "note_exit res =
     (case IsExitStatus res of
        Some n \<Rightarrow> mod_task (\<lambda>t. WithExitCode t (ucast n)) | None \<Rightarrow> op_return ())"

definition fail_task :: "'w params \<Rightarrow> exec_result \<Rightarrow> ('w, unit) run" where
  "fail_task p res =
     op_then (mod_task (\<lambda>t. WithError t (Some ''execution error'')))
    (op_then (end_task p) (op_throw (ExecutionError res)))"

text \<open>One iteration of the loop of \<open>execute\<close>.\<close>

definition execute_job :: "'w params \<Rightarrow> Task \<Rightarrow> ExecutionContext \<Rightarrow> Job \<Rightarrow> ('w, unit) run" where
  "execute_job p t c job =
     op_bind (op_lift (case ParseTemplate (p_tmpl p) (jCommand job) (jVars job) (jEnv job) of
        Inl e \<Rightarrow> Inl (TemplateError e) | Inr cmd \<Rightarrow> Inr cmd)) (\<lambda>cmd.
     op_bind (op_world (executor_Execute p c (tResetContext t) (job\<lparr>jCommand := cmd\<rparr>))) (\<lambda>res.
     if res = ExecOk then op_return ()
     else op_then (note_exit res)
         (if IsExitStatus res \<noteq> None \<and> tAllowFailure t then end_task p else fail_task p res)))"

definition execute :: "'w params \<Rightarrow> Task \<Rightarrow> Job list \<Rightarrow> ('w, unit) run" where
  "execute p t jobs =
     op_bind (contextForTask p t) (\<lambda>r.
     op_bind (op_get (\<lambda>s. rsHeap s r)) (\<lambda>c.
     op_then (op_fail_if (\<lambda>w. map_option ExecutorError (GetExecutorFactory p c w)))
    (op_then (op_modify (\<lambda>s. s\<lparr>rsTask := task_WithStart (rsTask s) (p_now p (rsWorld s))\<rparr>))
    (op_then (op_for jobs (execute_job p t c)) (end_task p)))))"

definition runner_before :: "'w params \<Rightarrow> Task \<Rightarrow> variables \<Rightarrow> variables \<Rightarrow> ('w, unit) run" where
  "runner_before p t env vars =
     (if length (tBefore t) = 0 then op_return ()
      else op_bind (contextForTask p t) (\<lambda>r. op_for (tBefore t) (\<lambda>command.
        op_bind (op_map_error BeforeCompile (compileCommand p r t command env vars)) (\<lambda>job.
        op_then (op_fail_if (\<lambda>w. map_option ExecutorError (p_new_default p w)))
       (op_bind (op_world (DefaultExecute p False job)) (\<lambda>res.
        if res = ExecOk then op_return () else op_throw (ExecutionError res)))))))"

definition runner_after :: "'w params \<Rightarrow> Task \<Rightarrow> variables \<Rightarrow> variables \<Rightarrow> ('w, unit) run" where
  "runner_after p t env vars =
     (if length (tAfter t) = 0 then op_return ()
      else op_bind (contextForTask p t) (\<lambda>r. op_for (tAfter t) (\<lambda>command.
        op_bind (op_map_error AfterCompile (compileCommand p r t command env vars)) (\<lambda>job.
        op_bind (op_get (\<lambda>s. rsHeap s r)) (\<lambda>c.
        op_then (op_fail_if (\<lambda>w. map_option ExecutorError (GetExecutorFactory p c w)))
       (op_bind (op_world (executor_Execute p c False job)) (\<lambda>res. op_return ())))))))"

definition checkTaskCondition :: "'w params \<Rightarrow> Task \<Rightarrow> ('w, bool) run" where
  "checkTaskCondition p t =
     (if tCondition t = '''' then op_return True
      else op_bind (contextForTask p t) (\<lambda>r.
           op_bind (op_get rsEnv) (\<lambda>renv.
           op_bind (compileCommand p r t (tCondition t) renv (p_variables p)) (\<lambda>job.
           op_bind (op_get (\<lambda>s. rsHeap s r)) (\<lambda>c.
           op_then (op_fail_if (\<lambda>w. map_option ExecutorError (GetExecutorFactory p c w)))
          (op_bind (op_world (executor_Execute p c False job)) (\<lambda>res.
             if res = ExecOk then op_return True
             else if IsExitStatus res \<noteq> None then op_return False
             else op_throw (ExecutionError res))))))))"

definition set_all :: "(string \<rightharpoonup> string) \<Rightarrow> variables \<Rightarrow> variables" where
  "set_all m env = (\<lambda>k. case m k of None \<Rightarrow> env k | Some v \<Rightarrow> Some (GStr v))"

definition storeTaskOutput :: "'w params \<Rightarrow> Task \<Rightarrow> ('w, unit) run" where
  "storeTaskOutput p t =
     (case tArtifacts t of
        None \<Rightarrow> op_return ()
      | Some a \<Rightarrow>
          if artType a = DotEnvArtifactType then
            (case host_open (p_host p) (artPath a) of
               None \<Rightarrow> op_throw ArtifactFailed
             | Some b \<Rightarrow>
                 (case ReadEnvFile b of
                    None \<Rightarrow> op_throw ArtifactUnreadable
                  | Some m \<Rightarrow> op_modify (\<lambda>s. s\<lparr>rsEnv := set_all m (rsEnv s)\<rparr>)))
          else if artType a = RuntimeEnvArtifactType then
            op_modify (\<lambda>s. s\<lparr>rsEnv := set_all (tOutput (rsTask s)) (rsEnv s)\<rparr>)
          else op_return ())"

text \<open>The env files of the task itself; one that cannot be read stops the run.\<close>

definition task_envfile_env :: "'w params \<Rightarrow> Task \<Rightarrow> run_error + variables" where
  "task_envfile_env p t =
     (case ReaderFromPath (p_host p) (tEnvFile t) of
        None \<Rightarrow> Inr NewVariables
      | Some readers \<Rightarrow> fold_res (\<lambda>reader acc. case ReadEnvFile (snd reader) of
            None \<Rightarrow> Inl EnvfileFormat | Some m \<Rightarrow> Inr (Merge acc (FromMap m))) readers NewVariables)"

definition run_env :: "'w params \<Rightarrow> Task \<Rightarrow> variables \<Rightarrow> variables \<Rightarrow> variables" where
  "run_env p t renv cenv =
     Merge (With (Merge renv cenv) ''TASK_NAME'' (GStr (tName t))) (tEnv t)"

text \<open>The part of \<open>Run\<close> between the deferred call and the return.\<close>

definition run_body :: "'w params \<Rightarrow> Task \<Rightarrow> ref \<Rightarrow> ('w, unit) run" where
  "run_body p t r =
     (let vars = Merge (p_variables p) (tVariables t) in
      op_bind (op_get (\<lambda>s. run_env p t (rsEnv s) (ecEnv (rsHeap s r)))) (\<lambda>env0.
      op_bind (op_lift (task_envfile_env p t)) (\<lambda>envfileEnv.
      let env = Merge envfileEnv env0 in
      op_bind (checkTaskCondition p t) (\<lambda>meets.
      if \<not> meets then mod_task (\<lambda>t. WithSkipped t True)
      else op_then (runner_before p t env vars)
          (op_bind (CompileTask p r t env vars) (\<lambda>jobs.
           op_then (op_fail_if (\<lambda>w. map_option OutputError (p_start_output p t)))
          (op_then (execute p t jobs)
          (op_then (storeTaskOutput p t) (runner_after p t env vars)))))))))"

text \<open>The deferred call: the commands after the use of the context, and the exit code.\<close>

definition run_deferred :: "'w params \<Rightarrow> ref \<Rightarrow> 'w rstate \<Rightarrow> 'w rstate" where
  "run_deferred p r s =
     (let s1 = snd (After p r s) in
      if \<not> tErrored (rsTask s1) \<and> \<not> tSkipped (rsTask s1)
      then s1\<lparr>rsTask := WithExitCode (rsTask s1) 0\<rparr> else s1)"

definition Run :: "'w params \<Rightarrow> ('w, unit) run" where
  "Run p s =
     (let t = rsTask s in
      case contextForTask p t s of
        (Inl e, s1) \<Rightarrow> (Inl e, s1)
      | (Inr r, s1) \<Rightarrow>
          (case p_new_output p t (if tInteractive t then ''raw'' else p_output_format p) of
             Some e \<Rightarrow> (Inl (OutputError e), s1)
           | None \<Rightarrow> (let (res, s2) = run_body p t r s1 in (res, run_deferred p r s2))))"

section \<open>What the operations keep\<close>

abbreviation task_flags :: "'w rstate \<Rightarrow> bool \<times> bool" where
  "task_flags s \<equiv> (tErrored (rsTask s), tSkipped (rsTask s))"

lemma keeps_Up: "keeps rsTask (Up p r)"
  by (auto simp: keeps_def Up_def Let_def set_ctx_def split: prod.splits)

lemma keeps_service: "keeps rsTask (service_cmds f p r)"
  by (auto simp: keeps_def service_cmds_def Let_def split: prod.splits)

lemma keeps_context: "keeps rsTask (contextForTask p t)"
  unfolding contextForTask_def lookup_ctx_def Before_def
  by (intro keeps_intros keeps_Up keeps_service)
    (auto simp: keeps_def alloc_ctx_def set_ctx_def op_simps op_bind_def op_then_def split: option.splits)

lemma keeps_compile: "keeps rsTask (compileCommand p r t command env vars)"
  unfolding compileCommand_def Let_def
  by (intro keeps_intros) (auto simp: keeps_def process_env_def set_ctx_def split: option.splits prod.splits)

text \<open>
  An operation is quiet when it leaves the flags of the task alone unless it fails with the
  error of an execution.
\<close>

definition quiet :: "('w, 'a) run \<Rightarrow> bool" where
  "quiet m \<longleftrightarrow> (\<forall>s r s'. m s = (r, s') \<longrightarrow>
     task_flags s' = task_flags s \<or> (\<exists>x. r = Inl (ExecutionError x)))"

named_theorems quiet_intros \<open>quiet operations\<close>

lemma quietD: "quiet m \<Longrightarrow> m s = (r, s') \<Longrightarrow> task_flags s' = task_flags s \<or> (\<exists>x. r = Inl (ExecutionError x))"
  unfolding quiet_def by blast

lemma quiet_keeps: "keeps rsTask m \<Longrightarrow> quiet m"
  unfolding quiet_def by (metis keepsD)

lemma quiet_bind [quiet_intros]:
  assumes "quiet m" and "\<And>v. quiet (h v)"
  shows "quiet (op_bind m h)"
  unfolding quiet_def
proof (intro allI impI)
  fix s r s' assume b: "op_bind m h s = (r, s')"
  obtain r1 s1 where m: "m s = (r1, s1)" by (cases "m s")
  note 1 = quietD [OF assms(1) m]
  show "task_flags s' = task_flags s \<or> (\<exists>x. r = Inl (ExecutionError x))"
  proof (cases r1)
    case (Inl e)
    with b m 1 show ?thesis by (auto simp: op_bind_def)
  next
    case (Inr v)
    with b m have "h v s1 = (r, s')" by (simp add: op_bind_def)
    from quietD [OF assms(2) this] 1 Inr show ?thesis by auto
  qed
qed

lemma quiet_then [quiet_intros]: "quiet m \<Longrightarrow> quiet n \<Longrightarrow> quiet (op_then m n)"
  unfolding op_then_def by (rule quiet_bind)

lemma quiet_for [quiet_intros]: "(\<And>x. quiet (h x)) \<Longrightarrow> quiet (op_for xs h)"
  by (induction xs) (auto intro: quiet_intros quiet_keeps keeps_intros)

lemma quiet_if [quiet_intros]: "quiet m \<Longrightarrow> quiet n \<Longrightarrow> quiet (if b then m else n)"
  by simp

lemma quiet_basic [quiet_intros]:
  "quiet (op_return v)" "quiet (op_throw e)" "quiet (op_lift r)" "quiet (op_get h)"
  "quiet (op_world f)" "quiet (op_fail_if g)"
  by (auto simp: quiet_def op_simps op_world_def op_fail_if_def split: prod.splits option.splits)

lemma quiet_end [quiet_intros]: "quiet (end_task p)"
  by (auto simp: quiet_def end_task_def op_simps task_WithEnd_def)

lemma quiet_note_exit [quiet_intros]: "quiet (note_exit res)"
  by (auto simp: quiet_def note_exit_def mod_task_def op_simps split: option.splits)

lemma quiet_fail_task [quiet_intros]: "quiet (fail_task p res)"
  by (auto simp: quiet_def fail_task_def op_then_def op_bind_def mod_task_def end_task_def op_simps)

lemma quiet_execute_job [quiet_intros]: "quiet (execute_job p t c job)"
  unfolding execute_job_def by (intro quiet_intros)

lemma quiet_start: "quiet (op_modify (\<lambda>s. s\<lparr>rsTask := task_WithStart (rsTask s) (p_now p (rsWorld s))\<rparr>))"
  by (simp add: quiet_def op_simps task_WithStart_def)

lemma quiet_execute [quiet_intros]: "quiet (execute p t jobs)"
  unfolding execute_def by (intro quiet_intros quiet_start quiet_keeps keeps_context)

lemma quiet_compile [quiet_intros]: "quiet (compileCommand p r t command env vars)"
  by (rule quiet_keeps [OF keeps_compile])

lemma quiet_CompileTask [quiet_intros]: "quiet (CompileTask p r t env vars)"
  unfolding CompileTask_def Let_def case_prod_unfold
  by (intro quiet_intros quiet_keeps keeps_map keeps_compile) (auto split: list.splits intro: keeps_intros)

lemma quiet_compile_error [quiet_intros]:
  "quiet (op_map_error f (compileCommand p r t command env vars))"
  by (intro quiet_keeps keeps_map_error keeps_compile)

lemma quiet_before [quiet_intros]: "quiet (runner_before p t env vars)"
  unfolding runner_before_def by (intro quiet_intros quiet_keeps keeps_context)

lemma quiet_after [quiet_intros]: "quiet (runner_after p t env vars)"
  unfolding runner_after_def by (intro quiet_intros quiet_keeps keeps_context)

lemma quiet_condition [quiet_intros]: "quiet (checkTaskCondition p t)"
  unfolding checkTaskCondition_def by (intro quiet_intros quiet_keeps keeps_context)

lemma quiet_store [quiet_intros]: "quiet (storeTaskOutput p t)"
  unfolding storeTaskOutput_def
  by (auto intro!: quiet_intros quiet_keeps keeps_modify split: option.splits)

text \<open>A failure of the body other than that of an execution leaves the task's flags alone.\<close>

lemma run_body_error:
  assumes b: "run_body p t r s = (Inl e, s')" and e: "\<forall>x. e \<noteq> ExecutionError x"
  shows "task_flags s' = task_flags s"
proof -
  let ?rest = "\<lambda>env. op_then (runner_before p t env (Merge (p_variables p) (tVariables t)))
      (op_bind (CompileTask p r t env (Merge (p_variables p) (tVariables t))) (\<lambda>jobs.
       op_then (op_fail_if (\<lambda>w. map_option OutputError (p_start_output p t)))
      (op_then (execute p t jobs)
      (op_then (storeTaskOutput p t) (runner_after p t env (Merge (p_variables p) (tVariables t)))))))"
  have rest: "quiet (?rest env)" for env by (intro quiet_intros)
  from b consider "task_flags s' = task_flags s"
    | "checkTaskCondition p t s = (Inl e, s')"
    | env s1 where "checkTaskCondition p t s = (Inr True, s1)" "?rest env s1 = (Inl e, s')"
    unfolding run_body_def Let_def
    by (auto simp: op_bind_Inl op_simps mod_task_def split: if_splits)
  then show ?thesis
  proof cases
    case 2
    with quietD [OF quiet_condition] e show ?thesis by blast
  next
    case 3
    from quietD [OF quiet_condition 3(1)] quietD [OF rest 3(2)] e show ?thesis by auto
  qed
qed

section \<open>Contexts are started once\<close>

lemma Up_again: "Up p r (snd (Up p r s)) = Up p r s"
proof (cases "ecOnceUp (rsHeap s r)")
  case True
  then show ?thesis by (simp add: Up_def Let_def)
next
  case False
  then show ?thesis
    by (auto simp: Up_def Let_def set_ctx_def split: prod.splits)
qed

lemma Down_again: "Down p r (Down p r s) = Down p r s"
  by (auto simp: Down_def Let_def set_ctx_def)

lemma Up_env: "ecEnv (rsHeap (snd (Up p r s)) q) = ecEnv (rsHeap s q)"
  by (auto simp: Up_def Let_def set_ctx_def split: prod.splits)

lemma service_heap: "rsHeap (snd (service_cmds f p r s)) = rsHeap s"
  by (auto simp: service_cmds_def Let_def split: prod.splits)

section \<open>The environment of a job\<close>

lemma compileCommand_Inr:
  assumes "compileCommand p r t command env vars s = (Inr j, s')"
    and "ecEnvfile (rsHeap s r) = Some e"
  shows "\<exists>c'. ProcessEnvfile (p_regex p) e (p_enum p (merged_env (p_host p) e env)) (rsHeap s r) = (None, c') \<and>
    s' = set_ctx r c' s \<and> jEnv j = ecEnv c'"
  using assms
  by (auto simp: compileCommand_def Let_def op_then_def op_bind_Inr op_simps process_env_def set_ctx_def
      split: prod.splits option.splits)

lemma contextForTask_named:
  assumes "contextForTask p t s = (Inr r', s')" and "tContext t \<noteq> ''''"
    and "p_contexts p (tContext t) = Some r" and "r < rsNext s"
  shows "r' = r \<and> ecEnv (rsHeap s' r) = Merge (ecEnv (rsHeap s r)) (DefaultTaskctlEnv (p_host p))"
proof -
  let ?s1 = "set_ctx (rsNext s) (DefaultContext (p_environ p)) (s\<lparr>rsNext := Suc (rsNext s)\<rparr>)"
  let ?s2 = "?s1\<lparr>rsCleanup := (rsCleanup ?s1)(tContext t \<mapsto> r)\<rparr>"
  from assms(1-3) obtain u2 s3 u3 s4 where
    u: "Up p r ?s2 = (Inr u2, s3)" "service_cmds ecBefore p r s3 = (Inr u3, s4)" "r' = r"
    "s' = set_ctx r ((rsHeap s4 r)\<lparr>ecEnv := Merge (ecEnv (rsHeap s4 r)) (DefaultTaskctlEnv (p_host p))\<rparr>) s4"
    by (auto simp: contextForTask_def alloc_ctx_def lookup_ctx_def op_then_def op_bind_Inr op_simps Before_def)
  have "ecEnv (rsHeap s4 r) = ecEnv (rsHeap s3 r)"
    using service_heap [of ecBefore p r s3] u(2) by simp
  also have "\<dots> = ecEnv (rsHeap ?s2 r)" using Up_env [of p r ?s2 r] u(1) by simp
  also have "\<dots> = ecEnv (rsHeap s r)" using assms(4) by (simp add: set_ctx_def)
  finally show ?thesis using u(3,4) by (simp add: set_ctx_def)
qed

text \<open>The layers of the environment \<open>Run\<close> hands to the compiler, lowest first.\<close>

lemma run_env_layers:
  "Merge (Merge envfileEnv (run_env p t renv cenv)) variant k =
     winner [envfileEnv, renv, cenv, [''TASK_NAME'' \<mapsto> GStr (tName t)], tEnv t, variant] k"
  by (auto simp: run_env_def env_simps split: option.splits)

section \<open>Failures of the jobs\<close>

lemma execute_job_error:
  assumes "execute_job p t c job s = (Inl e, s')"
  shows "(\<exists>m. e = TemplateError m \<and> s' = s) \<or>
    (\<exists>res. e = ExecutionError res \<and> tErrored (rsTask s') \<and>
       (\<forall>n. res = ExecStatus n \<longrightarrow> \<not> tAllowFailure t \<and> tExitCode (rsTask s') = ucast n))"
  using assms
  by (auto simp: execute_job_def op_bind_Inl op_then_def op_simps op_world_def note_exit_def fail_task_def
      mod_task_def end_task_def IsExitStatus_def WithError_def task_WithEnd_def
      split: sum.splits prod.splits if_splits exec_result.splits option.splits)

lemma op_for_error:
  "op_for xs f s = (Inl e, s') \<Longrightarrow> \<exists>x \<in> set xs. \<exists>s0. f x s0 = (Inl e, s')"
  by (induction xs arbitrary: s) (auto simp: op_then_def op_bind_Inl op_simps)

section \<open>An instance\<close>

text \<open>
  One context with a command before and a command after each use, one task with one command;
  every command succeeds and the world counts them.
\<close>

definition count_params :: "nat params" where
  "count_params =
     \<lparr>p_host = demo_host\<lparr>host_stat := \<lambda>f. StatNotExist\<rparr>, p_environ = [], p_regex = (\<lambda>q n. None),
      p_tmpl = (\<lambda>o1 s vs es. Inr s),
      p_enum = (\<lambda>m. []),
      p_shell = (\<lambda>b c e d t w. (ExecOk, Suc w)), p_container = (\<lambda>c b j w. (ExecOk, Suc w)),
      p_new_default = (\<lambda>w. None), p_new_container = (\<lambda>c w. None), p_new_output = (\<lambda>t f. None),
      p_start_output = (\<lambda>t. None), p_now = (\<lambda>w. int w), p_contexts = [''ci'' \<mapsto> 5],
      p_variables = NewVariables, p_compiler_variables = NewVariables, p_output_format = ''raw''\<rparr>"

definition count_ctx :: ExecutionContext where
  "count_ctx = NewExecutionContext None ''/w'' NewVariables (Some ZeroEnvFile) [] [] [''login''] [''logout''] []"

definition count_task :: Task where
  "count_task = (NewTask ''t'')\<lparr>tContext := ''ci'', tCommands := [''make''], tEnv := [''SECRET'' \<mapsto> GStr ''x'']\<rparr>"

definition count_state :: "Task \<Rightarrow> nat rstate" where
  "count_state t = \<lparr>rsHeap = (\<lambda>_. count_ctx), rsNext = 10, rsTask = t, rsEnv = NewVariables,
     rsCleanup = Map.empty, rsWorld = 0\<rparr>"

definition secret_params :: "nat params" where
  "secret_params = count_params\<lparr>p_enum := \<lambda>m. [(''TASK_NAME'', GStr ''t''), (''SECRET'', GStr ''x'')]\<rparr>"

lemma count_envfile [simp]: "ecEnvfile count_ctx = Some ZeroEnvFile"
  by (simp add: count_ctx_def NewExecutionContext_def)

lemma count_heap [simp]: "rsHeap (count_state t) r = count_ctx"
  by (simp add: count_state_def)

lemma zero_lists [simp]:
  "Exclude ZeroEnvFile = []" "Include ZeroEnvFile = []" "Modify ZeroEnvFile = []" "PathValue ZeroEnvFile = []"
  by (simp_all add: ZeroEnvFile_def)

lemma no_envfile [simp]: "envfile_env h ZeroEnvFile = NewVariables"
  by (simp add: envfile_env_def ReaderFromPath_def)

lemma no_taskctl [simp]: "DefaultTaskctlEnv (p_host secret_params) = NewVariables"
  by (simp add: DefaultTaskctlEnv_def secret_params_def count_params_def)

lemma tmpl_id: "ParseTemplate (\<lambda>o1 s vs es. Inr s) s vars env = Inr s"
  by (simp add: ParseTemplate_def Let_def)

lemma secret_compile:
  "\<exists>j. compileCommand secret_params 5 count_task ''make'' env vars (count_state count_task) =
     (Inr j, set_ctx 5 (count_ctx\<lparr>ecEnv := jEnv j\<rparr>) (count_state count_task)) \<and>
     jEnv j = FromMap [''TASK_NAME'' \<mapsto> ''t'', ''SECRET'' \<mapsto> ''x'']"
proof -
  have lines: "envfile_lines re ZeroEnvFile [(''TASK_NAME'', GStr ''t''), (''SECRET'', GStr ''x'')] =
      ConvertEnv [(''TASK_NAME'', ''t''), (''SECRET'', ''x'')]" for re
    by (simp add: invalidEnvVarKeys_def modifyName_def includeExcludeSkip_def Let_def ConvertEnv_def)
  have conv: "ConvertFromEnv (ConvertEnv [(''TASK_NAME'', ''t''), (''SECRET'', ''x'')]) =
      [''TASK_NAME'' \<mapsto> ''t'', ''SECRET'' \<mapsto> ''x'']"
    by (subst ConvertFromEnv_ConvertEnv) (auto simp: fun_eq_iff)
  have req: "required_ok count_task e v = Inr ()" for e v
    by (simp add: required_ok_def count_task_def NewTask_def no_required_def HasRequired_def)
  show ?thesis
    by (simp add: compileCommand_def process_env_def ProcessEnvfile_def secret_params_def lines conv
        op_then_def op_bind_def op_simps Let_def count_params_def tmpl_id req set_ctx_def
        del: envfile_lines.simps)
qed

text \<open>With these parameters every command succeeds and counts one.\<close>

definition counting :: "nat params \<Rightarrow> bool" where
  "counting p \<longleftrightarrow> p_tmpl p = (\<lambda>o1 s vs es. Inr s) \<and> p_shell p = (\<lambda>b c e d t w. (ExecOk, Suc w)) \<and>
     p_new_default p = (\<lambda>w. None)"

lemma counting_params: "counting count_params" "counting secret_params"
  by (simp_all add: counting_def secret_params_def count_params_def)

lemma counting_execute: "counting p \<Longrightarrow> DefaultExecute p b job w = (ExecOk, Suc w)"
  by (simp add: counting_def DefaultExecute_def tmpl_id)

lemma counting_service: "counting p \<Longrightarrow> runServiceCommand p cmd c w = (None, Suc w)"
  using counting_execute [of p] by (simp add: runServiceCommand_def Let_def) (simp add: counting_def)

lemma counting_loop: "counting p \<Longrightarrow> service_loop p c cmds w = (None, w + length cmds)"
  by (induction cmds arbitrary: w) (simp_all add: counting_service)

lemma counting_up: "counting p \<Longrightarrow> up_loop p c cmds e w = (e, w + length cmds)"
  by (induction cmds arbitrary: w) (simp_all add: counting_service)

lemma counting_context:
  assumes "counting p" and "tContext t = n" and "p_contexts p n = Some r \<and> n \<noteq> '''' \<or> n = '''' \<and> r = rsNext s"
    and "ecStartupError (rsHeap (set_ctx (rsNext s) (DefaultContext (p_environ p)) s) r) = None"
  shows "\<exists>s'. contextForTask p t s = (Inr r, s') \<and> rsTask s' = rsTask s \<and>
    ecEnvfile (rsHeap s' r) = ecEnvfile (rsHeap (set_ctx (rsNext s) (DefaultContext (p_environ p)) s) r)"
  using assms
  by (auto simp: contextForTask_def alloc_ctx_def lookup_ctx_def op_then_def op_bind_def op_simps Up_def
      Before_def service_cmds_def set_ctx_def Let_def counting_loop counting_up)

lemma count_context:
  assumes h: "rsHeap s 5 = count_ctx\<lparr>ecOnceUp := b, ecEnv := X\<rparr>" and n: "5 < rsNext s"
  shows "\<exists>s' Y. contextForTask count_params count_task s = (Inr 5, s') \<and>
    rsHeap s' 5 = count_ctx\<lparr>ecOnceUp := True, ecEnv := Y\<rparr> \<and> 5 < rsNext s' \<and>
    rsTask s' = rsTask s \<and> rsWorld s' = rsWorld s + 1"
proof -
  have c: "ecUp count_ctx = []" "ecBefore count_ctx = [''login'']" "ecStartupError count_ctx = None"
    by (simp_all add: count_ctx_def NewExecutionContext_def)
  have t: "tContext count_task = ''ci''" by (simp add: count_task_def)
  have pc: "p_contexts count_params ''ci'' = Some 5" by (simp add: count_params_def)
  show ?thesis
    using n
    by (cases b) (auto simp: contextForTask_def alloc_ctx_def lookup_ctx_def op_then_def op_bind_def op_simps
      Up_def Before_def service_cmds_def set_ctx_def Let_def counting_loop [OF counting_params(1)]
      counting_up [OF counting_params(1)] h c t pc, auto simp: count_ctx_def NewExecutionContext_def)
qed

lemma count_compile:
  assumes h: "ecEnvfile (rsHeap s 5) = Some ZeroEnvFile"
  shows "\<exists>j Y. CompileTask count_params 5 count_task env vars s =
    (Inr [j], set_ctx 5 ((rsHeap s 5)\<lparr>ecEnv := Y\<rparr>) s)"
proof -
  let ?p = count_params
  have pe: "ProcessEnvfile re ZeroEnvFile (p_enum ?p m) c = (None, c\<lparr>ecEnv := FromMap (ConvertFromEnv [])\<rparr>)" for re m c
    by (simp add: ProcessEnvfile_def count_params_def)
  have pt: "ParseTemplate (p_tmpl ?p) d v1 v2 = Inr d" for d v1 v2 by (simp add: count_params_def tmpl_id)
  have task: "GetVariations count_task = [Map.empty]" "tCommands count_task = [''make'']"
    "tInteractive count_task = False" "tRequired count_task = Some no_required"
    by (simp_all add: count_task_def NewTask_def GetVariations_def)
  have vars: "renderTaskVariables ?p tenv (p_enum ?p m) m = Inr m" for tenv m by (simp add: count_params_def)
  have req: "required_ok count_task e v = Inr ()" for e v
    by (simp add: required_ok_def task no_required_def HasRequired_def)
  show ?thesis
    by (auto simp: CompileTask_def compileCommand_def process_env_def op_bind_def op_then_def op_simps Let_def
        task vars pe pt req h set_ctx_def)
qed

lemma count_execute:
  assumes h: "rsHeap s 5 = count_ctx\<lparr>ecOnceUp := True, ecEnv := X\<rparr>" and n: "5 < rsNext s"
  shows "\<exists>s' Y. execute count_params count_task [j] s = (Inr (), s') \<and>
    rsHeap s' 5 = count_ctx\<lparr>ecOnceUp := True, ecEnv := Y\<rparr> \<and> rsWorld s' = rsWorld s + 2"
proof -
  let ?p = count_params
  obtain s1 Y where s1: "contextForTask ?p count_task s = (Inr 5, s1)"
    "rsHeap s1 5 = count_ctx\<lparr>ecOnceUp := True, ecEnv := Y\<rparr>" "rsWorld s1 = rsWorld s + 1"
    using count_context [OF h n] by blast
  have d: "GetExecutorType (count_ctx\<lparr>ecOnceUp := True, ecEnv := Y\<rparr>) = DefaultExecutorTyp"
    by (simp add: count_ctx_def NewExecutionContext_def GetExecutorType_def)
  have nd: "p_new_default ?p w = None" for w by (simp add: count_params_def)
  have pt: "ParseTemplate (p_tmpl ?p) d v1 v2 = Inr d" for d v1 v2 by (simp add: count_params_def tmpl_id)
  show ?thesis
    by (simp add: execute_def op_bind_def op_then_def op_simps op_fail_if_def GetExecutorFactory_def
        executor_Execute_def execute_job_def op_world_def end_task_def s1 d nd pt
        counting_execute [OF counting_params(1)]) (rule exI, rule refl)
qed

section \<open>Properties\<close>




text \<open>The failure of a job is recorded: when the jobs of a task fail with the result of a
  command, the task is marked as failed, and if that result is an exit status the task does
  not allow failure and its exit code is that status; an allowed exit status never stops the
  jobs.\<close>

theorem job_failure_recorded:
  assumes "op_for jobs (execute_job p t c) s = (Inl e, s')" and "\<forall>m. e \<noteq> TemplateError m"
  shows "\<exists>res. e = ExecutionError res \<and> tErrored (rsTask s') \<and>
    (\<forall>n. res = ExecStatus n \<longrightarrow> \<not> tAllowFailure t \<and> tExitCode (rsTask s') = ucast n)"
  using op_for_error [OF assms(1)] execute_job_error assms(2) by metis

definition failing_params :: "nat params" where
  "failing_params = count_params\<lparr>p_shell := \<lambda>b c e d t w. (ExecStatus 2, Suc w)\<rparr>"

theorem job_failure_recorded_witness:
  "\<exists>e s'. op_for [NewJobFromCommand ''make''] (execute_job failing_params count_task count_ctx) (count_state count_task) =
     (Inl e, s') \<and> e = ExecutionError (ExecStatus 2) \<and> tErrored (rsTask s') \<and> tExitCode (rsTask s') = 2"
proof -
  have a: "\<not> tAllowFailure count_task" by (simp add: count_task_def NewTask_def)
  have d: "GetExecutorType count_ctx = DefaultExecutorTyp"
    by (simp add: count_ctx_def NewExecutionContext_def GetExecutorType_def)
  obtain s' where s': "op_for [NewJobFromCommand ''make''] (execute_job failing_params count_task count_ctx)
      (count_state count_task) = (Inl (ExecutionError (ExecStatus 2)), s')"
    using a d
    by (simp add: execute_job_def op_bind_def op_then_def op_simps op_world_def note_exit_def fail_task_def
        mod_task_def end_task_def IsExitStatus_def failing_params_def count_params_def tmpl_id
        executor_Execute_def DefaultExecute_def)
  from job_failure_recorded [OF s'] have "tErrored (rsTask s') \<and> tExitCode (rsTask s') = 2" by simp
  with s' show ?thesis by blast
qed

text \<open>A run that fails outside its jobs leaves the task with exit code 0 and not marked as failed:
  the deferred call takes the missing mark for success, whether a condition, a command
  before the task, the compilation or an artifact failed.\<close>

theorem failed_run_reports_exit_code_0:
  assumes "contextForTask p (rsTask s) s = (Inr r, s1)"
    and "p_new_output p (rsTask s) (if tInteractive (rsTask s) then ''raw'' else p_output_format p) = None"
    and "run_body p (rsTask s) r s1 = (Inl e, s2)" and "\<forall>x. e \<noteq> ExecutionError x"
    and "\<not> tErrored (rsTask s)" and "\<not> tSkipped (rsTask s)"
  shows "\<exists>s'. Run p s = (Inl e, s') \<and> tExitCode (rsTask s') = 0 \<and> \<not> tErrored (rsTask s')"
proof -
  have "rsTask s1 = rsTask s" using keepsD [OF keeps_context assms(1)] .
  with run_body_error [OF assms(3,4)] assms(5,6) have f: "\<not> tErrored (rsTask s2)" "\<not> tSkipped (rsTask s2)"
    by simp_all
  have k: "rsTask (snd (After p r s2)) = rsTask s2"
    using keeps_service [of ecAfter p r] unfolding After_def keeps_def by blast
  have "Run p s = (Inl e, run_deferred p r s2)" using assms(1-3) by (simp add: Run_def Let_def)
  then show ?thesis using f k by (simp add: run_deferred_def Let_def)
qed

definition needy_task :: Task where
  "needy_task = (NewTask ''t'')\<lparr>tCommands := [''make''],
     tRequired := Some (no_required\<lparr>rEnv := [''TOKEN'']\<rparr>)\<rparr>"

theorem failed_run_reports_exit_code_0_witness:
  "\<exists>s'. Run count_params (count_state needy_task) = (Inl (RequiredMissing (MissingEnv [''TOKEN''] [''TOKEN''])), s') \<and>
     tExitCode (rsTask s') = 0 \<and> \<not> tErrored (rsTask s')"
proof -
  let ?p = count_params and ?s = "count_state needy_task"
  have d: "DefaultTaskctlEnv (p_host ?p) = NewVariables"
    by (simp add: DefaultTaskctlEnv_def count_params_def)
  have dc: "ecStartupError (DefaultContext []) = None" "ecEnvfile (DefaultContext e) = Some ZeroEnvFile" for e
    by (simp_all add: DefaultContext_def NewExecutionContext_def)
  have t10: "rsNext ?s = 10" "tContext needy_task = ''''"
    by (simp_all add: count_state_def needy_task_def NewTask_def)
  obtain s1 where s1: "contextForTask ?p needy_task ?s = (Inr 10, s1)" "ecEnvfile (rsHeap s1 10) = Some ZeroEnvFile"
    using counting_context [OF counting_params(1) t10(2), of 10 ?s] dc
    by (auto simp: t10 set_ctx_def count_params_def)
  have env: "task_envfile_env ?p needy_task = Inr NewVariables"
    by (simp add: task_envfile_env_def ReaderFromPath_def needy_task_def NewTask_def NewEnvFile_def)
  have cond: "checkTaskCondition ?p needy_task = op_return True" "runner_before ?p needy_task e v = op_return ()" for e v
    by (simp_all add: checkTaskCondition_def runner_before_def needy_task_def NewTask_def)
  have req: "required_ok needy_task NewVariables v = Inl (RequiredMissing (MissingEnv [''TOKEN''] [''TOKEN'']))" for v
    by (simp add: required_ok_def needy_task_def NewTask_def no_required_def HasRequired_def
        RequiredInput_Check_def not_found_def Has_def NewVariables_def Merge_apply Let_def)
  have empty: "FromMap (ConvertFromEnv []) = NewVariables"
    by (simp add: ConvertFromEnv_def FromMap_def NewVariables_def)
  have pe: "ProcessEnvfile re ZeroEnvFile (p_enum ?p m) c = (None, c\<lparr>ecEnv := NewVariables\<rparr>)" for re m c
    by (simp add: ProcessEnvfile_def empty count_params_def)
  have pt: "ParseTemplate (p_tmpl ?p) d v1 v2 = Inr d" for d v1 v2 by (simp add: count_params_def tmpl_id)
  have cmd: "\<exists>s2. compileCommand ?p 10 needy_task ''make'' e v s1 =
      (Inl (RequiredMissing (MissingEnv [''TOKEN''] [''TOKEN''])), s2)" for e v
    by (simp add: compileCommand_def process_env_def s1(2) pe pt op_then_def op_bind_def op_simps Let_def
        set_ctx_def req)
  have task: "GetVariations needy_task = [Map.empty]" "tCommands needy_task = [''make'']"
    "tVariables needy_task = NewVariables"
    by (simp_all add: needy_task_def NewTask_def GetVariations_def)
  have vars: "renderTaskVariables ?p tenv (p_enum ?p m) m = Inr m" for tenv m by (simp add: count_params_def)
  have comp: "\<exists>s2. CompileTask ?p 10 needy_task e v s1 =
      (Inl (RequiredMissing (MissingEnv [''TOKEN''] [''TOKEN''])), s2)" for e v
    using cmd [of "Merge e (FromMap Map.empty)" "Merge NewVariables v"]
    by (auto simp: CompileTask_def op_bind_def op_simps Let_def task vars)
  obtain s2 where c: "CompileTask ?p 10 needy_task
      (Merge NewVariables (run_env ?p needy_task (rsEnv s1) (ecEnv (rsHeap s1 10))))
      (Merge (p_variables ?p) (tVariables needy_task)) s1 =
      (Inl (RequiredMissing (MissingEnv [''TOKEN''] [''TOKEN''])), s2)"
    using comp by blast
  have body: "run_body ?p needy_task 10 s1 = (Inl (RequiredMissing (MissingEnv [''TOKEN''] [''TOKEN''])), s2)"
    by (simp add: run_body_def Let_def op_bind_def op_then_def op_simps env cond c)
  have t: "rsTask ?s = needy_task" by (simp add: count_state_def)
  have "p_new_output ?p needy_task f = None" for f by (simp add: count_params_def)
  with failed_run_reports_exit_code_0 [of ?p ?s 10 s1, unfolded t, OF s1(1) _ body] show ?thesis
    by (simp add: needy_task_def NewTask_def)
qed

text \<open>The environment of a task leaks into the next task of the same context: what the compiler
  put into a job's environment is the context's environment from then on, and the next task
  that names the context starts from it.\<close>

theorem task_env_leaks_through_context:
  assumes "compileCommand p r t1 command env vars s = (Inr j, s1)"
    and "ecEnvfile (rsHeap s r) = Some e" and "r < rsNext s"
    and "tContext t2 \<noteq> ''''" and "p_contexts p (tContext t2) = Some r"
    and "contextForTask p t2 s1 = (Inr r', s2)"
    and "jEnv j k = Some v" and "DefaultTaskctlEnv (p_host p) k = None"
  shows "ecEnv (rsHeap s2 r') k = Some v"
proof -
  from compileCommand_Inr [OF assms(1,2)] obtain c' where c: "s1 = set_ctx r c' s" "jEnv j = ecEnv c'" by blast
  then have "rsNext s1 = rsNext s" "ecEnv (rsHeap s1 r) = jEnv j" by (simp_all add: set_ctx_def)
  with contextForTask_named [OF assms(6,4,5)] assms(3,7,8) show ?thesis by (simp add: Merge_apply)
qed

definition other_task :: Task where
  "other_task = (NewTask ''u'')\<lparr>tContext := ''ci''\<rparr>"

theorem task_env_leaks_through_context_witness:
  "\<exists>j s1 s2. compileCommand secret_params 5 count_task ''make'' NewVariables NewVariables (count_state count_task) = (Inr j, s1) \<and>
     contextForTask secret_params other_task s1 = (Inr 5, s2) \<and> tEnv other_task ''SECRET'' = None \<and>
     ecEnv (rsHeap s2 5) ''SECRET'' = Some (GStr ''x'')"
proof -
  obtain j where j: "compileCommand secret_params 5 count_task ''make'' NewVariables NewVariables (count_state count_task) =
     (Inr j, set_ctx 5 (count_ctx\<lparr>ecEnv := jEnv j\<rparr>) (count_state count_task))"
    "jEnv j = FromMap [''TASK_NAME'' \<mapsto> ''t'', ''SECRET'' \<mapsto> ''x'']"
    using secret_compile by blast
  let ?s1 = "set_ctx 5 (count_ctx\<lparr>ecEnv := jEnv j\<rparr>) (count_state count_task)"
  have c: "ecUp count_ctx = []" "ecBefore count_ctx = [''login'']" "ecOnceUp count_ctx = False"
    "ecStartupError count_ctx = None" "tContext other_task = ''ci''"
    by (simp_all add: count_ctx_def NewExecutionContext_def other_task_def)
  have pc: "p_contexts secret_params ''ci'' = Some 5" by (simp add: secret_params_def count_params_def)
  obtain s2 where s2: "contextForTask secret_params other_task ?s1 = (Inr 5, s2)"
    using counting_context [OF counting_params(2) c(5), of 5 ?s1] c pc
    by (auto simp: set_ctx_def count_state_def)
  have "ecEnv (rsHeap s2 5) ''SECRET'' = Some (GStr ''x'')"
  proof (rule task_env_leaks_through_context [OF j(1) _ _ _ _ s2])
    show "jEnv j ''SECRET'' = Some (GStr ''x'')" by (simp add: j(2) FromMap_apply)
  qed (simp_all add: c pc, simp_all add: count_state_def NewVariables_def)
  with j s2 show ?thesis by (auto simp: other_task_def NewTask_def NewVariables_def)
qed

text \<open>The commands before each use of a context run twice for one task, the commands after it
  once: the context is looked up for the run and again for the execution, and each lookup
  runs them. Here one command before, the task's command and one command after make four.\<close>

theorem context_before_runs_twice:
  "length (ecBefore count_ctx) = 1 \<and> length (tCommands count_task) = 1 \<and> length (ecAfter count_ctx) = 1 \<and>
     Run count_params (count_state count_task) = (Inr (), snd (Run count_params (count_state count_task))) \<and>
     rsWorld (snd (Run count_params (count_state count_task))) = 4"
proof -
  let ?p = count_params and ?s = "count_state count_task" and ?t = count_task
  have s0: "rsHeap ?s 5 = count_ctx\<lparr>ecOnceUp := False, ecEnv := NewVariables\<rparr>" "5 < rsNext ?s"
    "rsWorld ?s = 0" "rsTask ?s = ?t"
    by (simp_all add: count_state_def count_ctx_def NewExecutionContext_def)
  obtain s1 Y where s1: "contextForTask ?p ?t ?s = (Inr 5, s1)"
    "rsHeap s1 5 = count_ctx\<lparr>ecOnceUp := True, ecEnv := Y\<rparr>" "5 < rsNext s1" "rsWorld s1 = 1"
    using count_context [OF s0(1,2)] s0(3) by auto
  have env: "task_envfile_env ?p ?t = Inr NewVariables"
    by (simp add: task_envfile_env_def ReaderFromPath_def count_task_def NewTask_def NewEnvFile_def)
  have none: "checkTaskCondition ?p ?t = op_return True" "runner_before ?p ?t e v = op_return ()"
    "runner_after ?p ?t e v = op_return ()" "storeTaskOutput ?p ?t = op_return ()" for e v
    by (simp_all add: checkTaskCondition_def runner_before_def runner_after_def storeTaskOutput_def
        count_task_def NewTask_def)
  obtain j Z where c: "CompileTask ?p 5 ?t
      (Merge NewVariables (run_env ?p ?t (rsEnv s1) (ecEnv (rsHeap s1 5)))) (Merge (p_variables ?p) (tVariables ?t)) s1 =
      (Inr [j], set_ctx 5 ((rsHeap s1 5)\<lparr>ecEnv := Z\<rparr>) s1)"
    using count_compile [of s1] s1(2) by fastforce
  let ?s2 = "set_ctx 5 ((rsHeap s1 5)\<lparr>ecEnv := Z\<rparr>) s1"
  have s2: "rsHeap ?s2 5 = count_ctx\<lparr>ecOnceUp := True, ecEnv := Z\<rparr>" "5 < rsNext ?s2" "rsWorld ?s2 = 1"
    using s1 by (simp_all add: set_ctx_def)
  obtain s3 W where s3: "execute ?p ?t [j] ?s2 = (Inr (), s3)"
    "rsHeap s3 5 = count_ctx\<lparr>ecOnceUp := True, ecEnv := W\<rparr>" "rsWorld s3 = 3"
    using count_execute [OF s2(1,2), of j] s2(3) by auto
  have so: "p_start_output ?p t = None" "p_new_output ?p t f = None" for t f by (simp_all add: count_params_def)
  have body: "run_body ?p ?t 5 s1 = (Inr (), s3)"
    by (simp add: run_body_def Let_def op_bind_def op_then_def op_simps env none c op_fail_if_def so s3(1))
  have run: "Run ?p ?s = (Inr (), run_deferred ?p 5 s3)"
    by (simp add: Run_def Let_def s0(4) s1(1) so body)
  have after: "ecAfter count_ctx = [''logout'']" by (simp add: count_ctx_def NewExecutionContext_def)
  have "rsWorld (snd (After ?p 5 s3)) = 4"
    by (simp add: After_def service_cmds_def Let_def s3 after counting_loop [OF counting_params(1)])
  then have "rsWorld (run_deferred ?p 5 s3) = 4" by (simp add: run_deferred_def Let_def)
  with run show ?thesis by (simp add: after count_ctx_def NewExecutionContext_def count_task_def)
qed

end
