(* ===== verification/RunCancel.thy ===== *)
theory RunCancel
  imports Runner
begin

text \<open>
  The cancellation protocol of \<open>TaskRunner\<close> (\<open>runner/runner.go\<close>): \<open>Cancel\<close> sets \<open>canceling\<close> and
  then receives from \<open>doneCh\<close>; the first deferred function of every \<open>Run\<close> closes \<open>doneCh\<close> when
  \<open>canceling\<close> is set. Nothing is ever sent on the channel, so a receive returns only once it
  is closed, and closing it a second time panics. Runs are started by the goroutines of a
  scheduler, several at a time.
\<close>

record runner_cancel =
  canceling :: bool
  doneClosed :: bool
  inFlight :: nat
  blockedCancels :: nat
  crashed :: bool

definition fresh_runner :: runner_cancel where
  "fresh_runner = \<lparr>canceling = False, doneClosed = False, inFlight = 0, blockedCancels = 0, crashed = False\<rparr>"

datatype cancel_event = RunStart | RunEnd | CancelCall | CancelReturn

text \<open>The deferred function of \<open>Run\<close>.\<close>

definition run_end_cancel :: "runner_cancel \<Rightarrow> runner_cancel" where
  "run_end_cancel s =
     (let s1 = s\<lparr>inFlight := inFlight s - 1\<rparr> in
      if canceling s1 then (if doneClosed s1 then s1\<lparr>crashed := True\<rparr> else s1\<lparr>doneClosed := True\<rparr>) else s1)"

definition Cancel_call :: "runner_cancel \<Rightarrow> runner_cancel" where
  "Cancel_call s = s\<lparr>canceling := True, blockedCancels := blockedCancels s + 1\<rparr>"

inductive cancel_step :: "runner_cancel \<Rightarrow> cancel_event \<Rightarrow> runner_cancel \<Rightarrow> bool" where
  c_start: "\<not> crashed s \<Longrightarrow> cancel_step s RunStart (s\<lparr>inFlight := inFlight s + 1\<rparr>)"
| c_end: "\<not> crashed s \<Longrightarrow> 0 < inFlight s \<Longrightarrow> cancel_step s RunEnd (run_end_cancel s)"
| c_call: "\<not> crashed s \<Longrightarrow> cancel_step s CancelCall (Cancel_call s)"
| c_return: "\<not> crashed s \<Longrightarrow> 0 < blockedCancels s \<Longrightarrow> doneClosed s \<Longrightarrow>
    cancel_step s CancelReturn (s\<lparr>blockedCancels := blockedCancels s - 1\<rparr>)"

inductive_cases cancel_step_cases: "cancel_step s e t"

inductive cancel_run :: "runner_cancel \<Rightarrow> cancel_event list \<Rightarrow> runner_cancel \<Rightarrow> bool" where
  run_nil: "cancel_run s [] s"
| run_cons: "cancel_step s e t \<Longrightarrow> cancel_run t es u \<Longrightarrow> cancel_run s (e # es) u"

inductive_cases cancel_run_Cons: "cancel_run s (e # es) u"

definition run_ends :: "cancel_event list \<Rightarrow> nat" where
  "run_ends es = length (filter (\<lambda>e. e = RunEnd) es)"

lemma run_ends_simps [simp]:
  "run_ends [] = 0" "run_ends (e # es) = (if e = RunEnd then Suc (run_ends es) else run_ends es)"
  by (simp_all add: run_ends_def)

text \<open>
  After the cancellation the channel is closed by the first run that ends; a further end
  crashes, so a run of the protocol that does not crash sees at most one.
\<close>

lemma ends_after_cancel:
  "cancel_run s es t \<Longrightarrow> canceling s \<Longrightarrow> \<not> crashed t \<Longrightarrow>
     run_ends es + (if doneClosed s then 1 else 0) \<le> 1"
proof (induction rule: cancel_run.induct)
  case (run_nil s)
  then show ?case by simp
next
  case (run_cons s e t es u)
  from run_cons(1) show ?case
  proof cases
    case c_end
    show ?thesis
    proof (cases "doneClosed s")
      case True
      with c_end run_cons(4) have "crashed t" by (simp add: run_end_cancel_def Let_def)
      with run_cons(2,5) show ?thesis by (cases es) (auto elim: cancel_run.cases cancel_step.cases)
    next
      case False
      with c_end run_cons(4) have "canceling t" "doneClosed t" by (simp_all add: run_end_cancel_def Let_def)
      with run_cons(3,5) c_end False show ?thesis by simp
    qed
  qed (use run_cons in \<open>simp_all add: Cancel_call_def\<close>)
qed

lemma no_end_not_closed:
  "cancel_run s es t \<Longrightarrow> inFlight s = 0 \<Longrightarrow> \<not> doneClosed s \<Longrightarrow> RunStart \<notin> set es \<Longrightarrow>
     \<not> doneClosed t \<and> inFlight t = 0 \<and> CancelReturn \<notin> set es"
proof (induction rule: cancel_run.induct)
  case (run_nil s)
  then show ?case by simp
next
  case (run_cons s e t es u)
  from run_cons(1) show ?case
    by cases (use run_cons in \<open>simp_all add: Cancel_call_def\<close>)
qed

section \<open>Properties\<close>

text \<open>Once the runner is cancelled at most one run may end without a crash: when two tasks are in
  flight, the second one to end closes the channel again, which panics.\<close>

theorem one_run_may_end_after_cancel:
  assumes "cancel_run s es t" and "canceling s" and "\<not> crashed t"
  shows "run_ends es \<le> 1"
  using ends_after_cancel [OF assms] by simp

theorem one_run_may_end_after_cancel_witness:
  "\<exists>s t. canceling s \<and> inFlight s = 2 \<and> cancel_run s [RunEnd] t \<and> run_ends [RunEnd] \<le> 1"
proof -
  let ?s = "fresh_runner\<lparr>inFlight := 2, canceling := True, blockedCancels := 1\<rparr>"
  have r: "cancel_run ?s [RunEnd] (run_end_cancel ?s)"
    by (rule run_cons [OF c_end run_nil]) (simp_all add: fresh_runner_def)
  have "\<not> crashed (run_end_cancel ?s)" by (simp add: run_end_cancel_def fresh_runner_def)
  with one_run_may_end_after_cancel [OF r] r show ?thesis
    by (intro exI [of _ ?s] exI [of _ "run_end_cancel ?s"]) simp
qed

text \<open>Two tasks in flight at the cancellation crash the program: the events start, start, cancel,
  end, end lead from a fresh runner to a panic.\<close>

theorem two_runs_in_flight_crash:
  "\<exists>t. cancel_run fresh_runner [RunStart, RunStart, CancelCall, RunEnd, RunEnd] t \<and> crashed t"
proof -
  let ?s1 = "fresh_runner\<lparr>inFlight := inFlight fresh_runner + 1\<rparr>"
  let ?s2 = "?s1\<lparr>inFlight := inFlight ?s1 + 1\<rparr>"
  let ?t = "run_end_cancel (run_end_cancel (Cancel_call ?s2))"
  have "cancel_run fresh_runner [RunStart, RunStart, CancelCall, RunEnd, RunEnd] ?t"
    by (rule run_cons [OF c_start run_cons [OF c_start run_cons [OF c_call run_cons [OF c_end run_cons [OF c_end run_nil]]]]])
      (simp_all add: fresh_runner_def Cancel_call_def run_end_cancel_def)
  moreover have "crashed ?t" by (simp add: fresh_runner_def Cancel_call_def run_end_cancel_def)
  ultimately show ?thesis by blast
qed

text \<open>\<open>Cancel\<close> with no run in flight does not return unless another run is started: this is the
  state a scheduler is in when the command of its first stage's condition cannot be run.\<close>

theorem cancel_without_run_blocks:
  assumes "cancel_run s (CancelCall # es) t" and "inFlight s = 0" and "\<not> doneClosed s"
    and "RunStart \<notin> set es"
  shows "CancelReturn \<notin> set es \<and> 0 < blockedCancels t"
proof -
  from assms(1) have r: "cancel_run (Cancel_call s) es t"
    by (auto elim!: cancel_run_Cons elim: cancel_step_cases)
  have i: "inFlight (Cancel_call s) = 0" "\<not> doneClosed (Cancel_call s)"
    using assms(2,3) by (simp_all add: Cancel_call_def)
  have no: "CancelReturn \<notin> set es" using no_end_not_closed [OF r i assms(4)] by blast
  have "blockedCancels s' \<le> blockedCancels t" if "cancel_run s' es' t" "CancelReturn \<notin> set es'" for s' es'
    using that
  proof (induction rule: cancel_run.induct)
    case (run_cons s e t es u)
    from run_cons(1) show ?case
      by cases (use run_cons in \<open>auto simp: Cancel_call_def run_end_cancel_def Let_def split: if_splits\<close>)
  qed simp
  from this [OF r no] no show ?thesis by (simp add: Cancel_call_def)
qed

theorem cancel_without_run_blocks_witness:
  "\<exists>t. cancel_run fresh_runner [CancelCall] t \<and> 0 < blockedCancels t"
proof -
  have r: "cancel_run fresh_runner [CancelCall] (Cancel_call fresh_runner)"
    by (rule run_cons [OF c_call run_nil]) (simp add: fresh_runner_def)
  from cancel_without_run_blocks [OF r] r show ?thesis by (auto simp: fresh_runner_def)
qed

end
