(* ===== verification/Imports.thy ===== *)
theory Imports
  imports Utils
begin

text \<open>
  \<open>internal/schema/schema.go\<close> (import entries and their hashes), the part of
  \<open>internal/config/loader.go\<close> that writes imported files, and \<open>internal/config/cache.go\<close>.
  Everything that reads or writes outside of the process is in the record \<open>io\<close> of functions
  on a world \<open>'w\<close>; \<open>sha256\<close> is the digest in hexadecimal. A reader is its content.
\<close>

section \<open>Import entries\<close>

record ImportEntry =
  Src :: string
  Hash :: string
  Dest :: string

definition plain_import :: "string \<Rightarrow> ImportEntry" where
  "plain_import src = \<lparr>Src = src, Hash = '''', Dest = ''''\<rparr>"

datatype HashType = Sha256 | OtherHash string

definition hash_type :: "string \<Rightarrow> HashType" where
  "hash_type s = (if s = ''sha256'' then Sha256 else OtherHash s)"

record ParsedHash =
  hTyp :: HashType
  hVal :: string

datatype import_error =
    ErrUnsupportedHashFormat string
  | ErrUnsupportedHashAlgorithm string
  | ErrSrcEmpty
  | ErrNotStringOrObject
  | ErrDecode string
  | ErrHashMismatch string string
  | ErrPathTraversal string string
  | ErrCreateDir string
  | ErrCreateFile string
  | ErrCopy string

definition IsFileImport :: "ImportEntry \<Rightarrow> bool" where
  "IsFileImport ie = (0 < length (Dest ie))"

text \<open>\<open>None\<close> is the result \<open>false\<close>: no hash to check.\<close>

definition HasHash :: "ImportEntry \<Rightarrow> import_error + ParsedHash option" where
  "HasHash ie =
     (if 0 < length (Hash ie) then
        (case SplitN2 (Hash ie) '':'' of
           [a, b] \<Rightarrow> if hash_type a \<in> set [Sha256] then Inr (Some \<lparr>hTyp = hash_type a, hVal = b\<rparr>)
             else Inl (ErrUnsupportedHashAlgorithm a)
         | _ \<Rightarrow> Inl (ErrUnsupportedHashFormat (Hash ie)))
      else Inr None)"

text \<open>A node of the YAML library, with its kind; \<open>decode\<close> is \<open>Node.Decode\<close> into the struct of
  the target type.\<close>

datatype yaml_node =
    ScalarNode string
  | SequenceNode "yaml_node list"
  | MappingNode "(yaml_node \<times> yaml_node) list"
  | OtherYaml

definition ImportEntry_UnmarshalYAML ::
  "(yaml_node \<Rightarrow> string + ImportEntry) \<Rightarrow> yaml_node \<Rightarrow> ImportEntry \<Rightarrow> import_error + ImportEntry" where
  "ImportEntry_UnmarshalYAML decode node ie =
     (case node of
        ScalarNode v \<Rightarrow> if 0 < length v then Inr (ie\<lparr>Src := v\<rparr>) else Inl ErrSrcEmpty
      | MappingNode kvs \<Rightarrow>
          (case decode node of
             Inl e \<Rightarrow> Inl (ErrDecode e)
           | Inr tmp \<Rightarrow> if 0 < length (Src tmp) then Inr tmp else Inl ErrSrcEmpty)
      | _ \<Rightarrow> Inl ErrNotStringOrObject)"

definition StringSlice_UnmarshalYAML ::
  "(yaml_node \<Rightarrow> string + string) \<Rightarrow> (yaml_node \<Rightarrow> string + string list) \<Rightarrow> yaml_node \<Rightarrow>
     import_error + string list" where
  "StringSlice_UnmarshalYAML decode_string decode_list node =
     (case node of
        ScalarNode v \<Rightarrow>
          (case decode_string node of Inl e \<Rightarrow> Inl (ErrDecode e) | Inr single \<Rightarrow> Inr [single])
      | SequenceNode ns \<Rightarrow>
          (case decode_list node of Inl e \<Rightarrow> Inl (ErrDecode e) | Inr list \<Rightarrow> Inr list)
      | _ \<Rightarrow> Inl ErrNotStringOrObject)"

section \<open>The world outside\<close>

record 'w io =
  io_home :: string
  io_sha256 :: "string \<Rightarrow> string"
  io_exists :: "'w \<Rightarrow> string \<Rightarrow> bool"
  io_stat :: "'w \<Rightarrow> string \<Rightarrow> string + bool"
  io_open :: "'w \<Rightarrow> string \<Rightarrow> string option"
  io_glob :: "'w \<Rightarrow> string \<Rightarrow> string list"
  io_mkdir :: "string \<Rightarrow> 'w \<Rightarrow> bool \<times> 'w"
  io_create :: "string \<Rightarrow> 'w \<Rightarrow> bool \<times> 'w"
  io_write :: "string \<Rightarrow> string \<Rightarrow> 'w \<Rightarrow> nat option \<times> 'w"

text \<open>\<open>io_stat\<close> tells whether a path is a directory, \<open>io_mkdir\<close> whether \<open>MkdirAll\<close> succeeded,
  \<open>io_create\<close> whether a file could be created (or emptied). \<open>io_write\<close> is \<open>io.Copy\<close> into that
  file: \<open>Some n\<close> says that it failed after the first \<open>n\<close> bytes of the content were read.\<close>

section \<open>Writing imported files\<close>

definition VerifyHash :: "'w io \<Rightarrow> string \<Rightarrow> HashType \<Rightarrow> string \<Rightarrow> import_error option" where
  "VerifyHash io content hashTyp expectedDigest =
     (case hashTyp of
        Sha256 \<Rightarrow>
          if io_sha256 io content \<noteq> expectedDigest
          then Some (ErrHashMismatch expectedDigest (io_sha256 io content)) else None
      | OtherHash a \<Rightarrow> Some (ErrUnsupportedHashAlgorithm a))"

definition clean_dest :: "string \<Rightarrow> string \<Rightarrow> string" where
  "clean_dest baseDir dest =
     (if IsAbs dest then Clean dest else Clean (JoinPath [baseDir, dest]))"

definition storeImportedFile ::
  "'w io \<Rightarrow> string \<Rightarrow> ImportEntry \<Rightarrow> string \<Rightarrow> ('w, import_error, unit) op" where
  "storeImportedFile io baseDir entry content = (\<lambda>w.
     let cleanDest = clean_dest baseDir (Dest entry) in
     if \<not> HasPrefix cleanDest (Clean baseDir) then (Inl (ErrPathTraversal (Dest entry) baseDir), w)
     else (case io_mkdir io (Dir cleanDest) w of
         (False, w') \<Rightarrow> (Inl (ErrCreateDir cleanDest), w')
       | (True, w') \<Rightarrow>
           (case io_create io cleanDest w' of
              (False, w'') \<Rightarrow> (Inl (ErrCreateFile cleanDest), w'')
            | (True, w'') \<Rightarrow>
                (case io_write io cleanDest content w'' of
                   (Some n, w3) \<Rightarrow> (Inl (ErrCopy cleanDest), w3)
                 | (None, w3) \<Rightarrow> (Inr (), w3)))))"

definition writeImportedFile ::
  "'w io \<Rightarrow> string \<Rightarrow> ImportEntry \<Rightarrow> string \<Rightarrow> ('w, import_error, unit) op" where
  "writeImportedFile io dir entry content =
     (case HasHash entry of
        Inl e \<Rightarrow> op_throw e
      | Inr None \<Rightarrow> storeImportedFile io dir entry content
      | Inr (Some h) \<Rightarrow>
          (case VerifyHash io content (hTyp h) (hVal h) of
             Some e \<Rightarrow> op_throw e
           | None \<Rightarrow> storeImportedFile io dir entry content))"

section \<open>The cache\<close>

definition getCachePath :: "'w io \<Rightarrow> string \<Rightarrow> string" where
  "getCachePath io fullPath = JoinPath [io_home io, ''.eirctl'', ''cache'', EncodeBase62 fullPath]"

text \<open>\<open>Store\<close>: whether it worked, and what it has read of the content. Its callers only log the
  error, but they go on with what has been read: the content comes through a \<open>TeeReader\<close>.\<close>

definition cache_Store :: "'w io \<Rightarrow> string \<Rightarrow> string \<Rightarrow> 'w \<Rightarrow> bool \<times> string \<times> 'w" where
  "cache_Store io fullPath content w =
     (let cp = getCachePath io fullPath in
      case io_mkdir io (Dir cp) w of
        (False, w') \<Rightarrow> (False, '''', w')
      | (True, w') \<Rightarrow>
          (case io_create io cp w' of
             (False, w'') \<Rightarrow> (False, '''', w'')
           | (True, w'') \<Rightarrow>
               (case io_write io cp content w'' of
                  (Some n, w3) \<Rightarrow> (False, take n content, w3)
                | (None, w3) \<Rightarrow> (True, content, w3))))"

datatype cache_error =
    ErrFileNotInCache string
  | ErrFailedToWriteImport import_error
  | ErrFailedToParse string

text \<open>\<open>Get\<close>, for the decoder of the configuration and the empty configuration: a file import that
  is in the cache is copied to its destination.\<close>

definition cache_Get ::
  "'w io \<Rightarrow> (string \<Rightarrow> string + 'c) \<Rightarrow> 'c \<Rightarrow> string \<Rightarrow> ImportEntry \<Rightarrow> 'w \<Rightarrow> (cache_error + 'c) \<times> 'w" where
  "cache_Get io decode none dir entry w =
     (case io_open io w (getCachePath io (Src entry)) of
        None \<Rightarrow> (Inl (ErrFileNotInCache (getCachePath io (Src entry))), w)
      | Some contents \<Rightarrow>
          if IsFileImport entry then
            (case writeImportedFile io dir entry contents w of
               (Inl e, w') \<Rightarrow> (Inl (ErrFailedToWriteImport e), w')
             | (Inr u, w') \<Rightarrow> (Inr none, w'))
          else (case decode contents of
              Inl e \<Rightarrow> (Inl (ErrFailedToParse e), w)
            | Inr cfg \<Rightarrow> (Inr cfg, w)))"

section \<open>Facts\<close>

lemma SplitN2_two: "SplitN2 s p = [a, b] \<Longrightarrow> s = a @ p @ b"
  by (auto simp: SplitN2_def split: option.splits dest: Cut_Some)

lemma HasHash_Inr:
  assumes "HasHash ie = Inr h"
  shows "h = None \<and> Hash ie = '''' \<or>
    (\<exists>v. h = Some \<lparr>hTyp = Sha256, hVal = v\<rparr> \<and> Hash ie = ''sha256:'' @ v)"
  using assms
  by (auto simp: HasHash_def hash_type_def split: if_splits list.splits dest!: SplitN2_two)

lemma writeImportedFile_checked:
  assumes "writeImportedFile io d e c w = (r, w')" and "w' \<noteq> w \<or> r = Inr ()"
  shows "Hash e \<in> {'''', ''sha256:'' @ io_sha256 io c}"
proof (cases "HasHash e")
  case (Inl x)
  with assms show ?thesis by (simp add: writeImportedFile_def op_simps)
next
  case (Inr h)
  from HasHash_Inr [OF this] show ?thesis
  proof
    assume "\<exists>v. h = Some \<lparr>hTyp = Sha256, hVal = v\<rparr> \<and> Hash e = ''sha256:'' @ v"
    then obtain v where h: "h = Some \<lparr>hTyp = Sha256, hVal = v\<rparr>" and v: "Hash e = ''sha256:'' @ v" by blast
    have "io_sha256 io c = v"
    proof (rule ccontr)
      assume "io_sha256 io c \<noteq> v"
      with assms Inr h show False
        by (simp add: writeImportedFile_def VerifyHash_def op_simps)
    qed
    with v show ?thesis by simp
  qed simp
qed

lemma plain_append:
  assumes "plain_elem e" "plain_elem x"
  shows "plain_elem (e @ x)"
  using assms by (auto simp: plain_elem_def append_eq_Cons_conv)

lemma sibling_elems:
  assumes "IsAbs base" "Clean base = base" "base \<noteq> ''/''" "plain_elem sfx"
  shows "clean_elems (base @ sfx) = butlast (clean_elems base) @ [last (clean_elems base) @ sfx]"
    and "Clean (base @ sfx) = base @ sfx" and "clean_elems base \<noteq> []"
proof -
  let ?es = "clean_elems base"
  have b: "base = CHR ''/'' # Join ?es ''/''" using Clean_abs [OF assms(1)] assms(2) by simp
  with assms(3) show ne: "?es \<noteq> []" by auto
  have pl: "\<forall>e \<in> set ?es. plain_elem e" by (rule clean_elems_abs [OF assms(1)])
  let ?fs = "butlast ?es @ [last ?es @ sfx]"
  have "Join ?es ''/'' @ sfx = Join ?fs ''/''"
  proof (cases "butlast ?es = []")
    case True
    with ne have "?es = [last ?es]" by (metis append_butlast_last_id append_Nil)
    with True show ?thesis by (metis Join.simps(2) append_Nil)
  next
    case False
    have "Join ?es ''/'' = Join (butlast ?es) ''/'' @ ''/'' @ last ?es"
      using Join_append [OF False, of "[last ?es]" "''/''"] ne by simp
    moreover have "Join ?fs ''/'' = Join (butlast ?es) ''/'' @ ''/'' @ last ?es @ sfx"
      using Join_append [OF False, of "[last ?es @ sfx]" "''/''"] by simp
    ultimately show ?thesis by simp
  qed
  then have bs: "base @ sfx = CHR ''/'' # Join ?fs ''/''" by (subst b) simp
  have fs: "\<forall>e \<in> set ?fs. plain_elem e"
    using pl ne plain_append assms(4) by (auto dest: in_set_butlastD)
  show e: "clean_elems (base @ sfx) = ?fs"
    unfolding bs by (rule clean_elems_rebuild [OF fs])
  have "IsAbs (base @ sfx)" unfolding bs by simp
  from Clean_abs [OF this] e bs show "Clean (base @ sfx) = base @ sfx" by simp
qed

lemma sibling_not_inside:
  assumes "IsAbs base" "Clean base = base" "base \<noteq> ''/''" "plain_elem sfx"
  shows "\<not> inside base (base @ sfx)"
proof
  let ?es = "clean_elems base"
  assume "inside base (base @ sfx)"
  then have p: "prefix ?es (butlast ?es @ [last ?es @ sfx])"
    by (simp add: inside_def sibling_elems(1) [OF assms])
  have ne: "?es \<noteq> []" by (rule sibling_elems(3) [OF assms])
  then have "length ?es = length (butlast ?es @ [last ?es @ sfx])" by simp
  from p obtain zs where z: "butlast ?es @ [last ?es @ sfx] = ?es @ zs" by (rule prefixE)
  with \<open>length ?es = _\<close> have "zs = []" by (metis append_Nil2 append_eq_append_conv)
  with z have "?es = butlast ?es @ [last ?es @ sfx]" by simp
  with ne have "last ?es = last ?es @ sfx" by (metis last_snoc)
  with assms(4) show False by (simp add: plain_elem_def)
qed

section \<open>Properties\<close>


text \<open>Files as a map; creating a directory always works.\<close>

definition map_io :: "(string \<rightharpoonup> string) io" where
  "map_io = \<lparr>io_home = ''/h'', io_sha256 = \<lambda>c. c, io_exists = \<lambda>w p. w p \<noteq> None,
     io_stat = \<lambda>w p. (if w p = None then Inl ''no such file'' else Inr False), io_open = \<lambda>w p. w p,
     io_glob = \<lambda>w p. [], io_mkdir = \<lambda>p w. (True, w), io_create = \<lambda>p w. (True, w(p \<mapsto> '''')),
     io_write = \<lambda>p c w. (None, w(p \<mapsto> c))\<rparr>"


text \<open>The destination check compares strings, not paths: a file import whose destination is
  the project directory's name with something appended is written beside the project, not
  inside it.\<close>

theorem dest_check_accepts_sibling:
  assumes "IsAbs base" "Clean base = base" "base \<noteq> ''/''" "plain_elem sfx"
    and "Dest e = base @ sfx"
    and "io_mkdir io (Dir (base @ sfx)) w = (True, w1)"
    and "io_create io (base @ sfx) w1 = (True, w2)" "io_write io (base @ sfx) c w2 = (None, w3)"
  shows "storeImportedFile io base e c w = (Inr (), w3) \<and> \<not> inside base (base @ sfx)"
proof
  have "clean_dest base (Dest e) = base @ sfx"
    using assms(1) sibling_elems(2) [OF assms(1-4)] assms(5)
    by (cases base) (auto simp: clean_dest_def IsAbs_def HasPrefix_def)
  with assms(2,6-8) show "storeImportedFile io base e c w = (Inr (), w3)"
    by (simp add: storeImportedFile_def)
  show "\<not> inside base (base @ sfx)" by (rule sibling_not_inside [OF assms(1-4)])
qed

theorem dest_check_accepts_sibling_witness:
  "storeImportedFile map_io ''/proj'' \<lparr>Src = ''s'', Hash = '''', Dest = ''/proj-evil''\<rparr> ''c'' Map.empty
     = (Inr (), [''/proj-evil'' \<mapsto> ''c'']) \<and> \<not> inside ''/proj'' (''/proj'' @ ''-evil'')"
proof -
  have c: "Clean ''/proj'' = ''/proj''" by code_simp
  have e: "plain_elem ''-evil''" by (simp add: plain_elem_def)
  show ?thesis
    by (rule dest_check_accepts_sibling [OF _ c _ e, where ?w1.0 = Map.empty and
        ?w2.0 = "[''/proj-evil'' \<mapsto> '''']"]) (simp_all add: map_io_def)
qed

end
