(* ===== verification/Definitions.thy ===== *)
theory Definitions
  imports Imports Contexts Tasks
begin

text \<open>
  \<open>internal/config/definitions.go\<close>: what a configuration file holds, as it is decoded. A nil
  map is the empty map, and the pointers to definitions are not nil (an entry without a value
  is not modelled). The records of import entries and contexts are those of theories
  \<open>Imports\<close> and \<open>Contexts\<close>. The merge of an imported configuration, of
  \<open>internal/config/loader.go\<close>, is here as well, since it is about these records alone.
\<close>

section \<open>Definitions\<close>

type_synonym EnvVarMapType = "string \<rightharpoonup> string"
type_synonym VariablesVarMapType = "string \<rightharpoonup> gval"
type_synonym ImportList = "ImportEntry list"

record PipelineDefinition =
  pdSourceFile :: string
  pdName :: string
  pdCondition :: string
  pdTask :: string
  pdPipeline :: string
  pdDependsOn :: "string list"
  pdAllowFailure :: bool
  pdDir :: string
  pdEnv :: EnvVarMapType
  pdEnvfile :: "Envfile option"
  pdVariables :: VariablesVarMapType
  pdGenerator :: "string \<rightharpoonup> gval"

record Generator =
  gnVersion :: string
  gnTargetOptions :: "string \<rightharpoonup> gval"

record TaskDefinition =
  tdSourceFile :: string
  tdName :: string
  tdDescription :: string
  tdCondition :: string
  tdCommand :: "string list"
  tdAfter :: "string list"
  tdBefore :: "string list"
  tdContext :: string
  tdVariations :: "(string \<rightharpoonup> string) list option"
  tdDir :: string
  tdTimeout :: "int option"
  tdAllowFailure :: bool
  tdInteractive :: bool
  tdArtifacts :: "Artifact option"
  tdEnv :: EnvVarMapType
  tdEnvfile :: "Envfile option"
  tdVariables :: VariablesVarMapType
  tdResetContext :: bool
  tdGenerator :: "string \<rightharpoonup> gval"
  tdRequired :: "RequiredInput option"

record WatcherDefinition =
  wdEvents :: "string list"
  wdWatch :: "string list"
  wdExclude :: "string list"
  wdTask :: string
  wdVariables :: "string \<rightharpoonup> string"

record ConfigDefinition =
  cfImport :: ImportList
  cfContexts :: "string \<rightharpoonup> ContextDefinition"
  cfPipelines :: "string \<rightharpoonup> PipelineDefinition list"
  cfTasks :: "string \<rightharpoonup> TaskDefinition"
  cfWatchers :: "string \<rightharpoonup> WatcherDefinition"
  cfDebug :: bool
  cfDryRun :: bool
  cfSummary :: bool
  cfVerbose :: bool
  cfOutput :: string
  cfVariables :: EnvVarMapType
  cfGenerator :: "Generator option"

definition EmptyConfig :: ConfigDefinition where
  "EmptyConfig = \<lparr>cfImport = [], cfContexts = Map.empty, cfPipelines = Map.empty, cfTasks = Map.empty,
     cfWatchers = Map.empty, cfDebug = False, cfDryRun = False, cfSummary = False, cfVerbose = False,
     cfOutput = '''', cfVariables = Map.empty, cfGenerator = None\<rparr>"

section \<open>Merging an imported configuration\<close>

text \<open>
  The three loops of \<open>mergeExistingWithImported\<close>. Go ranges over a map in any order, and the
  error names the first key it meets that is there already: the error of the model carries
  all the keys that it may name.
\<close>

datatype merge_section = TaskSection | PipelineSection | ContextSection

datatype clash = ErrImportKeyClash string merge_section "string set"

definition merge_section_res ::
  "merge_section \<Rightarrow> string \<Rightarrow> ('v \<Rightarrow> 'v) \<Rightarrow> (string \<rightharpoonup> 'v) \<Rightarrow> (string \<rightharpoonup> 'v) \<Rightarrow> clash + (string \<rightharpoonup> 'v)" where
  "merge_section_res sec path enrich base imported =
     (if dom base \<inter> dom imported \<noteq> {} then Inl (ErrImportKeyClash path sec (dom base \<inter> dom imported))
      else Inr (base ++ (map_option enrich \<circ> imported)))"

definition mergeExistingWithImported ::
  "ConfigDefinition \<Rightarrow> ConfigDefinition \<Rightarrow> string \<Rightarrow> clash + ConfigDefinition" where
  "mergeExistingWithImported base imported path =
     bind_res (merge_section_res TaskSection path (\<lambda>v. v\<lparr>tdSourceFile := path\<rparr>)
         (cfTasks base) (cfTasks imported)) (\<lambda>tasks.
     bind_res (merge_section_res PipelineSection path (map (\<lambda>p. p\<lparr>pdSourceFile := path\<rparr>))
         (cfPipelines base) (cfPipelines imported)) (\<lambda>pipelines.
     bind_res (merge_section_res ContextSection path (\<lambda>v. v\<lparr>cdSourceFile := path\<rparr>)
         (cfContexts base) (cfContexts imported)) (\<lambda>contexts.
       Inr (base\<lparr>cfTasks := tasks, cfPipelines := pipelines, cfContexts := contexts\<rparr>))))"

text \<open>A merge is refused exactly when a task, a pipeline or a context has a name that is taken;
  otherwise both sides are there, and the rest of the base stays.\<close>

lemma merge_section_Inr:
  "merge_section_res sec path f base imported = Inr m \<longleftrightarrow>
     dom base \<inter> dom imported = {} \<and> m = base ++ (map_option f \<circ> imported)"
  by (auto simp: merge_section_res_def)

lemma dom_map_option_comp [simp]: "dom (map_option f \<circ> m) = dom m"
  by auto

lemma mergeExisting_Inr:
  assumes "mergeExistingWithImported base imported path = Inr cfg"
  shows "dom (cfTasks cfg) = dom (cfTasks base) \<union> dom (cfTasks imported)"
    and "cfTasks base \<subseteq>\<^sub>m cfTasks cfg"
    and "cfPipelines base \<subseteq>\<^sub>m cfPipelines cfg" and "cfContexts base \<subseteq>\<^sub>m cfContexts cfg"
    and "dom (cfPipelines cfg) = dom (cfPipelines base) \<union> dom (cfPipelines imported)"
    and "dom (cfContexts cfg) = dom (cfContexts base) \<union> dom (cfContexts imported)"
    and "cfImport cfg = cfImport base"
proof -
  from assms have
    d: "dom (cfTasks base) \<inter> dom (cfTasks imported) = {}"
      "dom (cfPipelines base) \<inter> dom (cfPipelines imported) = {}"
      "dom (cfContexts base) \<inter> dom (cfContexts imported) = {}" and
    c: "cfg = base\<lparr>cfTasks := cfTasks base ++ (map_option (\<lambda>v. v\<lparr>tdSourceFile := path\<rparr>) \<circ> cfTasks imported),
        cfPipelines := cfPipelines base ++ (map_option (map (\<lambda>p. p\<lparr>pdSourceFile := path\<rparr>)) \<circ> cfPipelines imported),
        cfContexts := cfContexts base ++ (map_option (\<lambda>v. v\<lparr>cdSourceFile := path\<rparr>) \<circ> cfContexts imported)\<rparr>"
    unfolding mergeExistingWithImported_def bind_res_Inr_iff merge_section_Inr by auto
  have sub: "m \<subseteq>\<^sub>m m ++ (map_option f \<circ> n)" if "dom m \<inter> dom n = {}" for m n and f :: "'v \<Rightarrow> 'v"
    using map_add_comm [of m "map_option f \<circ> n"] that by (metis dom_map_option_comp map_le_map_add)
  show "dom (cfTasks cfg) = dom (cfTasks base) \<union> dom (cfTasks imported)"
    "dom (cfPipelines cfg) = dom (cfPipelines base) \<union> dom (cfPipelines imported)"
    "dom (cfContexts cfg) = dom (cfContexts base) \<union> dom (cfContexts imported)"
    "cfImport cfg = cfImport base"
    by (simp_all add: c del: o_apply) blast+
  show "cfTasks base \<subseteq>\<^sub>m cfTasks cfg" "cfPipelines base \<subseteq>\<^sub>m cfPipelines cfg"
    "cfContexts base \<subseteq>\<^sub>m cfContexts cfg"
    using sub [OF d(1)] sub [OF d(2)] sub [OF d(3)] by (simp_all add: c)
qed

end
