(* ===== verification/SshConfig.thy ===== *)
theory SshConfig
  imports Utils
begin

text \<open>
  The SSH half of \<open>internal/config/loader_git.go\<close>: where the options of an SSH connection to
  a git host come from (\<open>GIT_SSH_COMMAND\<close>, the ssh configuration file, the defaults), how
  known-hosts paths are taken apart, and which host key check results. Strings are byte
  strings holding valid UTF-8, so a scan by runes and a scan by bytes agree on the ASCII
  characters the code looks for.

  Of the libraries the record \<open>ssh_params\<close> holds what the code calls: \<open>shell.Fields\<close>, the flag
  set of \<open>GIT_SSH_COMMAND\<close> (identity, file and the \<open>-o\<close> options in the order in which the
  map is ranged over), the decoder of ssh configuration files, the key parser and
  \<open>knownhosts.New\<close>. A decoded configuration is the values that the code reads of it.
\<close>

section \<open>Parameters and state\<close>

record SSHConfigAuth =
  IdentityFile :: string
  ConfigFile :: string
  sshUser :: string
  sshPort :: string
  Hostname :: string
  UserKnownHostsFile :: string
  SystemKnownHostsFile :: string
  UserKnownHostsFiles :: "string list"
  SystemKnownHostsFiles :: "string list"
  StrictHostKeyChecking :: string

definition ZeroSSHConfig :: SSHConfigAuth where
  "ZeroSSHConfig = \<lparr>IdentityFile = '''', ConfigFile = '''', sshUser = '''', sshPort = '''', Hostname = '''',
     UserKnownHostsFile = '''', SystemKnownHostsFile = '''', UserKnownHostsFiles = [],
     SystemKnownHostsFiles = [], StrictHostKeyChecking = ''''\<rparr>"

text \<open>A node of a host block: a key with its value and its printed line, an include with its
  \<open>GetAll\<close>, or something else (a comment, an empty line).\<close>

datatype ssh_node =
    KV string string string
  | IncludeNode "string \<Rightarrow> string \<Rightarrow> string list"
  | OtherNode

record ssh_host =
  hostMatches :: "string \<Rightarrow> bool"
  hostNodes :: "ssh_node list"

record ssh_file =
  cfgGet :: "string \<Rightarrow> string \<Rightarrow> string"
  cfgHosts :: "ssh_host list"

text \<open>\<open>&ssh_config.Config{}\<close> has no hosts, and \<open>Get\<close> finds nothing in it.\<close>

definition empty_ssh_file :: ssh_file where
  "empty_ssh_file = \<lparr>cfgGet = \<lambda>_ _. '''', cfgHosts = []\<rparr>"

record git_flags =
  fIdentity :: string
  fConfFile :: string
  fOptions :: "(string \<times> string) list"

record ('k, 'c) ssh_params =
  sp_host :: host
  sp_windows :: bool
  sp_fields :: "string \<Rightarrow> string list option"
  sp_flags :: "string list \<Rightarrow> git_flags"
  sp_decode :: "string \<Rightarrow> string + ssh_file"
  sp_parse_key :: "string \<Rightarrow> string option \<Rightarrow> string + 'k"
  sp_knownhosts :: "string list \<Rightarrow> string + 'c"

datatype ssh_error =
    ErrConfigOpen string
  | ErrConfigDecode string
  | ErrAmbiguousKnownHosts
  | ErrNoIdentityFile string
  | ErrIdentityRead string
  | ErrIdentityParse string
  | ErrKnownHostsUnreadable string string
  | ErrNoKnownHosts string
  | ErrKnownHostsLoad string

section \<open>Paths in ssh configuration values\<close>

abbreviation backslash :: char where "backslash \<equiv> CHR 0x5C"

definition isSSHConfigWhitespace :: "char \<Rightarrow> bool" where
  "isSSHConfigWhitespace c = (c = CHR '' '' \<or> c = CHR 0x09 \<or> c = CHR 0x0D \<or> c = CHR 0x0A)"

definition isSSHPathEscape :: "char \<Rightarrow> bool" where
  "isSSHPathEscape c = (c = CHR '' '' \<or> c = CHR 0x09 \<or> c = CHR 0x27 \<or> c = CHR 0x22 \<or> c = CHR ''#'')"

fun hasEscapedSSHPathSeparator :: "string \<Rightarrow> bool" where
  "hasEscapedSSHPathSeparator [] = False"
| "hasEscapedSSHPathSeparator (c # cs) =
     (if c = backslash \<and> cs \<noteq> [] \<and> isSSHPathEscape (hd cs) then True
      else hasEscapedSSHPathSeparator cs)"

fun preserveSSHPathBackslashes :: "string \<Rightarrow> string" where
  "preserveSSHPathBackslashes [] = []"
| "preserveSSHPathBackslashes (c # cs) =
     (if c = backslash \<and> cs \<noteq> [] \<and> \<not> isSSHPathEscape (hd cs) then [backslash] else []) @
     c # preserveSSHPathBackslashes cs"

text \<open>The flag says whether the character before is a backslash.\<close>

fun escape_from :: "bool \<Rightarrow> string \<Rightarrow> string" where
  "escape_from b [] = []"
| "escape_from b (c # cs) =
     (if c = CHR ''$'' \<and> \<not> b then [backslash] else []) @ c # escape_from (c = backslash) cs"

definition escapeSSHPathVariables :: "string \<Rightarrow> string" where
  "escapeSSHPathVariables value = escape_from False value"

definition splitSSHConfigPaths :: "('k, 'c) ssh_params \<Rightarrow> string \<Rightarrow> string list option" where
  "splitSSHConfigPaths p value = sp_fields p (escapeSSHPathVariables (preserveSSHPathBackslashes value))"

definition is_file :: "('k, 'c) ssh_params \<Rightarrow> string \<Rightarrow> bool" where
  "is_file p path = (host_stat (sp_host p) path = StatOk RegFile)"

definition known_path :: "('k, 'c) ssh_params \<Rightarrow> string \<Rightarrow> string" where
  "known_path p path = Clean (NormalizeHome (sp_host p) path)"

definition sshConfigPathExists :: "('k, 'c) ssh_params \<Rightarrow> string \<Rightarrow> bool" where
  "sshConfigPathExists p path = is_file p (known_path p path)"

fun allSSHConfigPathsExist :: "('k, 'c) ssh_params \<Rightarrow> string list \<Rightarrow> bool" where
  "allSSHConfigPathsExist p [] = True"
| "allSSHConfigPathsExist p (x # xs) =
     (if \<not> sshConfigPathExists p x then False else allSSHConfigPathsExist p xs)"

text \<open>\<open>strings.IndexByte\<close> gives -1 where nothing is found, which fails \<open>firstQuote > 0\<close>.\<close>

definition restoreStrippedSSHConfigQuotes :: "string \<Rightarrow> string" where
  "restoreStrippedSSHConfigQuotes value =
     (case (find_index (\<lambda>c. c = CHR 0x22) value, LastIndexByte value CHR 0x22) of
        (Some firstQuote, Some lastQuote) \<Rightarrow>
          if 0 < firstQuote \<and> firstQuote < lastQuote \<and> lastQuote + 1 < length value \<and>
             \<not> isSSHConfigWhitespace (value ! (firstQuote - 1)) \<and>
             \<not> isSSHConfigWhitespace (value ! (lastQuote + 1))
          then [CHR 0x22] @ value @ [CHR 0x22] else value
      | _ \<Rightarrow> value)"

definition included_fields :: "('k, 'c) ssh_params \<Rightarrow> string \<Rightarrow> ssh_error + string list" where
  "included_fields p value =
     (let fields = Fields value in
      if length fields < 2 then Inr [value]
      else if sshConfigPathExists p value \<and> allSSHConfigPathsExist p fields then Inl ErrAmbiguousKnownHosts
      else if allSSHConfigPathsExist p fields then Inr fields
      else Inr [value])"

definition splitIncludedSSHConfigPaths :: "('k, 'c) ssh_params \<Rightarrow> string \<Rightarrow> ssh_error + string list" where
  "splitIncludedSSHConfigPaths p value =
     (if Contains value [CHR 0x22] \<or> hasEscapedSSHPathSeparator value then
        (case splitSSHConfigPaths p (restoreStrippedSSHConfigQuotes value) of
           Some paths \<Rightarrow> Inr paths
         | None \<Rightarrow> included_fields p value)
      else included_fields p value)"

definition splitSSHConfigPathDirective ::
  "('k, 'c) ssh_params \<Rightarrow> string \<Rightarrow> string \<Rightarrow> string \<Rightarrow> string list" where
  "splitSSHConfigPathDirective p key val text =
     (let line = TrimSpace text in
      if length line < length key then [val]
      else (let line = TrimSpace (drop (length key) line);
                line = TrimSpace (TrimPrefix line ''='') in
        case splitSSHConfigPaths p line of
          None \<Rightarrow> [val]
        | Some paths \<Rightarrow> if paths = [] then [val] else paths))"

text \<open>The loops that append the results of their calls until one fails.\<close>

fun concat_res :: "('a \<Rightarrow> 'e + 'b list) \<Rightarrow> 'a list \<Rightarrow> 'e + 'b list" where
  "concat_res f [] = Inr []"
| "concat_res f (x # xs) =
     bind_res (f x) (\<lambda>ys. bind_res (concat_res f xs) (\<lambda>zs. Inr (ys @ zs)))"

definition includedSSHConfigPathValues ::
  "('k, 'c) ssh_params \<Rightarrow> (string \<Rightarrow> string \<Rightarrow> string list) \<Rightarrow> string \<Rightarrow> string \<Rightarrow> ssh_error + string list" where
  "includedSSHConfigPathValues p getAll hostname option =
     concat_res (splitIncludedSSHConfigPaths p) (getAll hostname option)"

fun sshConfigNodePathValues ::
  "('k, 'c) ssh_params \<Rightarrow> string \<Rightarrow> string \<Rightarrow> ssh_node \<Rightarrow> ssh_error + string list" where
  "sshConfigNodePathValues p hostname option (KV key val text) =
     (if EqualFold key option then Inr (splitSSHConfigPathDirective p key val text) else Inr [])"
| "sshConfigNodePathValues p hostname option (IncludeNode getAll) =
     includedSSHConfigPathValues p getAll hostname option"
| "sshConfigNodePathValues p hostname option OtherNode = Inr []"

definition sshConfigHostPathValues ::
  "('k, 'c) ssh_params \<Rightarrow> string \<Rightarrow> string \<Rightarrow> ssh_host \<Rightarrow> ssh_error + string list" where
  "sshConfigHostPathValues p hostname option h =
     (if \<not> hostMatches h hostname then Inr []
      else concat_res (sshConfigNodePathValues p hostname option) (hostNodes h))"

definition sshConfigPathValues ::
  "('k, 'c) ssh_params \<Rightarrow> ssh_file \<Rightarrow> string \<Rightarrow> string \<Rightarrow> ssh_error + string list" where
  "sshConfigPathValues p cfg hostname option =
     concat_res (sshConfigHostPathValues p hostname option) (cfgHosts cfg)"

section \<open>Merging the configuration file\<close>

text \<open>A value that the command already gave is kept.\<close>

definition ssh_value :: "ssh_file \<Rightarrow> string \<Rightarrow> string \<Rightarrow> string \<Rightarrow> string \<Rightarrow> string" where
  "ssh_value cfg hostname option dflt val =
     (if val \<noteq> '''' then val
      else if cfgGet cfg hostname option = '''' then dflt else cfgGet cfg hostname option)"

definition mergeSSHScalarDefaults :: "ssh_file \<Rightarrow> string \<Rightarrow> SSHConfigAuth \<Rightarrow> SSHConfigAuth" where
  "mergeSSHScalarDefaults cfg hostname c =
     (let c = c\<lparr>sshPort := ssh_value cfg hostname ''Port'' ''22'' (sshPort c)\<rparr>;
          c = c\<lparr>sshUser := ssh_value cfg hostname ''User'' ''git'' (sshUser c)\<rparr> in
      c\<lparr>Hostname := ssh_value cfg hostname ''Hostname'' hostname (Hostname c)\<rparr>)"

definition mergeSSHIdentityFile :: "ssh_file \<Rightarrow> string \<Rightarrow> SSHConfigAuth \<Rightarrow> SSHConfigAuth" where
  "mergeSSHIdentityFile cfg hostname c =
     (if IdentityFile c = '''' then c\<lparr>IdentityFile := cfgGet cfg hostname ''IdentityFile''\<rparr> else c)"

definition mergeSSHKnownHostsFile ::
  "('k, 'c) ssh_params \<Rightarrow> ssh_file \<Rightarrow> string \<Rightarrow> string \<Rightarrow> string list \<Rightarrow> string \<Rightarrow>
     ssh_error + string list \<times> string" where
  "mergeSSHKnownHostsFile p cfg hostname option paths legacyPath =
     (if 0 < length paths \<or> legacyPath \<noteq> '''' then Inr (paths, legacyPath)
      else bind_res (sshConfigPathValues p cfg hostname option) (\<lambda>paths.
        Inr (paths, if 0 < length paths then hd paths else legacyPath)))"

definition mergeSSHKnownHostsFiles ::
  "('k, 'c) ssh_params \<Rightarrow> ssh_file \<Rightarrow> string \<Rightarrow> SSHConfigAuth \<Rightarrow> ssh_error + SSHConfigAuth" where
  "mergeSSHKnownHostsFiles p cfg hostname c =
     bind_res (mergeSSHKnownHostsFile p cfg hostname ''UserKnownHostsFile''
         (UserKnownHostsFiles c) (UserKnownHostsFile c)) (\<lambda>(ps, l).
       let c = c\<lparr>UserKnownHostsFiles := ps, UserKnownHostsFile := l\<rparr> in
     bind_res (mergeSSHKnownHostsFile p cfg hostname ''GlobalKnownHostsFile''
         (SystemKnownHostsFiles c) (SystemKnownHostsFile c)) (\<lambda>(ps, l).
       Inr (c\<lparr>SystemKnownHostsFiles := ps, SystemKnownHostsFile := l\<rparr>)))"

definition mergeSSHStrictHostKeyChecking :: "ssh_file \<Rightarrow> string \<Rightarrow> SSHConfigAuth \<Rightarrow> SSHConfigAuth" where
  "mergeSSHStrictHostKeyChecking cfg hostname c =
     (if StrictHostKeyChecking c = '''' then
        c\<lparr>StrictHostKeyChecking := cfgGet cfg hostname ''StrictHostKeyChecking''\<rparr> else c)"

definition processSSHConfig ::
  "('k, 'c) ssh_params \<Rightarrow> ssh_file \<Rightarrow> string \<Rightarrow> SSHConfigAuth \<Rightarrow> ssh_error + SSHConfigAuth" where
  "processSSHConfig p cfg hostname c =
     bind_res (mergeSSHKnownHostsFiles p cfg hostname
         (mergeSSHIdentityFile cfg hostname (mergeSSHScalarDefaults cfg hostname c)))
       (\<lambda>c. Inr (mergeSSHStrictHostKeyChecking cfg hostname c))"

section \<open>The git command in the environment\<close>

fun matchesSSHOption :: "string \<Rightarrow> string list \<Rightarrow> bool" where
  "matchesSSHOption key [] = False"
| "matchesSSHOption key (option # options) =
     (if EqualFold key option then True else matchesSSHOption key options)"

text \<open>The values of one argument of \<open>-o\<close>, and the loop over the arguments.\<close>

definition option_value :: "string list \<Rightarrow> string \<Rightarrow> string list" where
  "option_value options argument =
     (case Cut argument ''='' of
        None \<Rightarrow> []
      | Some (key, val) \<Rightarrow> if matchesSSHOption key options then [val] else [])"

fun sshOptionValues :: "string list \<Rightarrow> string list \<Rightarrow> string list" where
  "sshOptionValues [] options = []"
| "sshOptionValues (a # args) options =
     (if a = ''-o'' then
        (case args of
           [] \<Rightarrow> []
         | b # args' \<Rightarrow> option_value options b @ sshOptionValues args' options)
      else if HasPrefix a ''-o'' then
        option_value options (TrimPrefix a ''-o'') @ sshOptionValues args options
      else sshOptionValues args options)"

definition set_option :: "string \<times> string \<Rightarrow> SSHConfigAuth \<Rightarrow> SSHConfigAuth" where
  "set_option kv c = (case kv of (key, v) \<Rightarrow>
     (let k = ToLower key in
      if k = ''hostname'' then c\<lparr>Hostname := v\<rparr>
      else if k = ''port'' then c\<lparr>sshPort := v\<rparr>
      else if k = ''userknownhostsfile'' then
        c\<lparr>UserKnownHostsFile := v, UserKnownHostsFiles := UserKnownHostsFiles c @ [v]\<rparr>
      else if k = ''globalknownhostsfile'' \<or> k = ''systemknownhostsfile'' then
        c\<lparr>SystemKnownHostsFile := v, SystemKnownHostsFiles := SystemKnownHostsFiles c @ [v]\<rparr>
      else if k = ''stricthostkeychecking'' then c\<lparr>StrictHostKeyChecking := v\<rparr>
      else c))"

definition parseGitSshCommandEnv :: "('k, 'c) ssh_params \<Rightarrow> SSHConfigAuth" where
  "parseGitSshCommandEnv p =
     (case sp_fields p (host_env (sp_host p) ''GIT_SSH_COMMAND'') of
        None \<Rightarrow> ZeroSSHConfig
      | Some args \<Rightarrow>
          if length args < 1 then ZeroSSHConfig
          else (let flags = sp_flags p args;
                    c = ZeroSSHConfig\<lparr>IdentityFile := fIdentity flags, ConfigFile := fConfFile flags\<rparr>;
                    c = fold set_option (fOptions flags) c;
                    c = c\<lparr>UserKnownHostsFiles := sshOptionValues args [''userknownhostsfile'']\<rparr>;
                    c = (if 0 < length (UserKnownHostsFiles c)
                         then c\<lparr>UserKnownHostsFile := hd (UserKnownHostsFiles c)\<rparr> else c);
                    c = c\<lparr>SystemKnownHostsFiles :=
                           sshOptionValues args [''globalknownhostsfile'', ''systemknownhostsfile'']\<rparr> in
                (if 0 < length (SystemKnownHostsFiles c)
                 then c\<lparr>SystemKnownHostsFile := hd (SystemKnownHostsFiles c)\<rparr> else c)))"

definition default_ssh_file :: "host \<Rightarrow> string list \<Rightarrow> string" where
  "default_ssh_file h files = (case find (FileExists h) files of None \<Rightarrow> '''' | Some f \<Rightarrow> f)"

definition parseDefaultSshConfigFilePaths :: "host \<Rightarrow> SSHConfigAuth" where
  "parseDefaultSshConfigFilePaths h =
     (let homeDir = JoinPath [host_home h] in
      ZeroSSHConfig\<lparr>ConfigFile := default_ssh_file h
          [JoinPath [homeDir, ''.ssh'', ''config''], JoinPath [''/'', ''etc'', ''ssh'', ''ssh_config'']],
        IdentityFile := default_ssh_file h
          [JoinPath [homeDir, ''.ssh'', ''id_rsa''], JoinPath [homeDir, ''.ssh'', ''id_ed25519'']]\<rparr>)"

section \<open>Known hosts\<close>

definition configuredKnownHosts :: "('k, 'c) ssh_params \<Rightarrow> string list \<Rightarrow> string \<Rightarrow> string list" where
  "configuredKnownHosts p paths legacy =
     (if 0 < length paths then paths
      else if legacy = '''' then []
      else (case sp_fields p legacy of None \<Rightarrow> [legacy] | Some fs \<Rightarrow> fs))"

definition user_hosts :: "('k, 'c) ssh_params \<Rightarrow> SSHConfigAuth \<Rightarrow> string list" where
  "user_hosts p c = configuredKnownHosts p (UserKnownHostsFiles c) (UserKnownHostsFile c)"

definition system_hosts :: "('k, 'c) ssh_params \<Rightarrow> SSHConfigAuth \<Rightarrow> string list" where
  "system_hosts p c = configuredKnownHosts p (SystemKnownHostsFiles c) (SystemKnownHostsFile c)"

fun unreadable :: "('k, 'c) ssh_params \<Rightarrow> string \<Rightarrow> string list \<Rightarrow> ssh_error option" where
  "unreadable p label [] = None"
| "unreadable p label (c # cs) =
     (if is_file p (known_path p c) then unreadable p label cs
      else Some (ErrKnownHostsUnreadable label (known_path p c)))"

definition validateConfiguredKnownHostsFiles ::
  "('k, 'c) ssh_params \<Rightarrow> SSHConfigAuth \<Rightarrow> ssh_error option" where
  "validateConfiguredKnownHostsFiles p c =
     (case unreadable p ''UserKnownHostsFile'' (user_hosts p c) of
        Some e \<Rightarrow> Some e
      | None \<Rightarrow> unreadable p ''GlobalKnownHostsFile'' (system_hosts p c))"

definition defaultPlatformKnownHostsFiles :: "('k, 'c) ssh_params \<Rightarrow> string list" where
  "defaultPlatformKnownHostsFiles p =
     (if sp_windows p then
        (let programData = host_env (sp_host p) ''ProgramData'';
             programData = (if programData = '''' then ''C:'' @ [backslash, backslash] @ ''ProgramData''
                            else programData) in
         [JoinPath [programData, ''ssh'', ''ssh_known_hosts'']])
      else [''/etc/ssh/ssh_known_hosts'', ''/etc/ssh/ssh_known_hosts2''])"

definition known_candidates :: "('k, 'c) ssh_params \<Rightarrow> SSHConfigAuth \<Rightarrow> string list" where
  "known_candidates p c =
     (if 0 < length (user_hosts p c) then user_hosts p c
      else (let homeDir = host_home (sp_host p) in
        [JoinPath [homeDir, ''.ssh'', ''known_hosts''], JoinPath [homeDir, ''.ssh'', ''known_hosts2'']])) @
     (if 0 < length (system_hosts p c) then system_hosts p c else defaultPlatformKnownHostsFiles p)"

definition knownHostsFiles :: "('k, 'c) ssh_params \<Rightarrow> SSHConfigAuth \<Rightarrow> string list" where
  "knownHostsFiles p c = filter (is_file p) (map (known_path p) (known_candidates p c))"

section \<open>The host key check and the authentication\<close>

text \<open>The callback that verifies wraps the one of \<open>knownhosts.New\<close>; the address is what its
  error message names.\<close>

datatype 'c host_key_check = InsecureIgnoreHostKey | VerifyHostKey 'c string

text \<open>\<open>net.JoinHostPort\<close> puts an address with a colon in brackets.\<close>

definition JoinHostPort :: "string \<Rightarrow> string \<Rightarrow> string" where
  "JoinHostPort host port =
     (if CHR '':'' \<in> set host then ''['' @ host @ '']:'' @ port else host @ '':'' @ port)"

definition hostKeyCallback ::
  "('k, 'c) ssh_params \<Rightarrow> SSHConfigAuth \<Rightarrow> ssh_error + 'c host_key_check" where
  "hostKeyCallback p c =
     (if EqualFold (StrictHostKeyChecking c) ''no'' then Inr InsecureIgnoreHostKey
      else (case validateConfiguredKnownHostsFiles p c of
          Some e \<Rightarrow> Inl e
        | None \<Rightarrow>
            (let paths = knownHostsFiles p c in
             if length paths = 0 then Inl (ErrNoKnownHosts (Hostname c))
             else (case sp_knownhosts p paths of
                 Inl e \<Rightarrow> Inl (ErrKnownHostsLoad e)
               | Inr callback \<Rightarrow>
                   Inr (VerifyHostKey callback
                     (JoinHostPort (Hostname c) (if sshPort c = '''' then ''22'' else sshPort c)))))))"

definition SSHKeySigner :: "('k, 'c) ssh_params \<Rightarrow> string \<Rightarrow> ssh_error + 'k" where
  "SSHKeySigner p key =
     (case sp_parse_key p key (host_getenv (sp_host p) ''GIT_SSH_PASSPHRASE'') of
        Inl e \<Rightarrow> Inl (ErrIdentityParse e) | Inr k \<Rightarrow> Inr k)"

record ('k, 'c) ssh_auth =
  authUser :: string
  authSigner :: 'k
  authHostKey :: "'c host_key_check"

definition ssh_file_of :: "('k, 'c) ssh_params \<Rightarrow> string \<Rightarrow> ssh_error + ssh_file" where
  "ssh_file_of p file =
     (if file = '''' then Inr empty_ssh_file
      else (case host_open (sp_host p) file of
          None \<Rightarrow> Inl (ErrConfigOpen file)
        | Some content \<Rightarrow>
            (case sp_decode p content of Inl e \<Rightarrow> Inl (ErrConfigDecode e) | Inr cfg \<Rightarrow> Inr cfg)))"

definition command_config :: "('k, 'c) ssh_params \<Rightarrow> SSHConfigAuth" where
  "command_config p =
     (let c = parseGitSshCommandEnv p in
      if ConfigFile c = '''' then c\<lparr>ConfigFile := ConfigFile (parseDefaultSshConfigFilePaths (sp_host p))\<rparr>
      else c)"

definition getGitSSHAuth ::
  "('k, 'c) ssh_params \<Rightarrow> string \<Rightarrow> ssh_error + SSHConfigAuth \<times> ('k, 'c) ssh_auth" where
  "getGitSSHAuth p hostname =
     bind_res (ssh_file_of p (ConfigFile (command_config p))) (\<lambda>cfg.
     bind_res (processSSHConfig p cfg hostname (command_config p)) (\<lambda>c.
       let c = (if IdentityFile c = '''' then
                  c\<lparr>IdentityFile := IdentityFile (parseDefaultSshConfigFilePaths (sp_host p))\<rparr> else c) in
       if IdentityFile c = '''' then Inl (ErrNoIdentityFile hostname)
       else (case host_open (sp_host p) (NormalizeHome (sp_host p) (IdentityFile c)) of
           None \<Rightarrow> Inl (ErrIdentityRead (IdentityFile c))
         | Some key \<Rightarrow>
             bind_res (SSHKeySigner p key) (\<lambda>signer.
             bind_res (hostKeyCallback p c) (\<lambda>cb.
               Inr (c, \<lparr>authUser = sshUser c, authSigner = signer, authHostKey = cb\<rparr>))))))"

section \<open>Facts\<close>

lemma unreadable_None: "unreadable p l cs = None \<longleftrightarrow> set (map (known_path p) cs) \<subseteq> Collect (is_file p)"
  by (induction cs) auto

lemma validate_None:
  "validateConfiguredKnownHostsFiles p c = None \<longleftrightarrow>
     set (map (known_path p) (user_hosts p c @ system_hosts p c)) \<subseteq> Collect (is_file p)"
proof -
  have "validateConfiguredKnownHostsFiles p c = None \<longleftrightarrow>
      unreadable p ''UserKnownHostsFile'' (user_hosts p c) = None \<and>
      unreadable p ''GlobalKnownHostsFile'' (system_hosts p c) = None"
    by (simp add: validateConfiguredKnownHostsFiles_def split: option.split)
  then show ?thesis by (simp add: unreadable_None)
qed

lemma candidates_configured: "set (user_hosts p c @ system_hosts p c) \<subseteq> set (known_candidates p c)"
  by (auto simp: known_candidates_def)

lemma knownHostsFiles_configured:
  assumes "validateConfiguredKnownHostsFiles p c = None"
  shows "set (map (known_path p) (user_hosts p c @ system_hosts p c)) \<subseteq> set (knownHostsFiles p c)"
  using assms candidates_configured [of p c] unfolding validate_None knownHostsFiles_def by auto

lemma hostKeyCallback_Inr:
  assumes "hostKeyCallback p c = Inr cb"
  shows "if EqualFold (StrictHostKeyChecking c) ''no'' then cb = InsecureIgnoreHostKey
    else \<exists>k a. cb = VerifyHostKey k a \<and> sp_knownhosts p (knownHostsFiles p c) = Inr k \<and>
      knownHostsFiles p c \<noteq> [] \<and> validateConfiguredKnownHostsFiles p c = None"
  using assms by (auto simp: hostKeyCallback_def Let_def split: if_splits option.splits sum.splits)

definition known_files_ok :: "('k, 'c) ssh_params \<Rightarrow> SSHConfigAuth \<Rightarrow> string list \<Rightarrow> bool" where
  "known_files_ok p c files \<longleftrightarrow> files \<noteq> [] \<and> set files \<subseteq> Collect (is_file p) \<and>
     set (map (known_path p) (user_hosts p c @ system_hosts p c)) \<subseteq> set files"

lemma hostKeyCallback_verifies:
  assumes "hostKeyCallback p c = Inr cb" and "\<not> EqualFold (StrictHostKeyChecking c) ''no''"
  shows "\<exists>k a files. cb = VerifyHostKey k a \<and> sp_knownhosts p files = Inr k \<and> known_files_ok p c files"
proof -
  from hostKeyCallback_Inr [OF assms(1)] assms(2) obtain k a where
    k: "cb = VerifyHostKey k a" "sp_knownhosts p (knownHostsFiles p c) = Inr k"
    and f: "knownHostsFiles p c \<noteq> []" "validateConfiguredKnownHostsFiles p c = None" by auto
  have "set (knownHostsFiles p c) \<subseteq> Collect (is_file p)" by (auto simp: knownHostsFiles_def)
  with k f knownHostsFiles_configured [OF f(2)] show ?thesis unfolding known_files_ok_def by blast
qed

subsection \<open>What each step leaves alone\<close>

lemma mergeSSHKnownHostsFile_keeps:
  "mergeSSHKnownHostsFile p cfg h option ps l = Inr (ps', l') \<Longrightarrow> ps \<noteq> [] \<Longrightarrow> ps' = ps"
  by (simp add: mergeSSHKnownHostsFile_def)

lemma mergeSSHKnownHostsFiles_Inr:
  assumes "mergeSSHKnownHostsFiles p cfg h c = Inr c'"
  obtains us u ss s where
    "c' = c\<lparr>UserKnownHostsFiles := us, UserKnownHostsFile := u,
       SystemKnownHostsFiles := ss, SystemKnownHostsFile := s\<rparr>"
    and "UserKnownHostsFiles c \<noteq> [] \<Longrightarrow> us = UserKnownHostsFiles c"
    and "SystemKnownHostsFiles c \<noteq> [] \<Longrightarrow> ss = SystemKnownHostsFiles c"
proof -
  from assms obtain us u ss s where
    1: "mergeSSHKnownHostsFile p cfg h ''UserKnownHostsFile'' (UserKnownHostsFiles c)
        (UserKnownHostsFile c) = Inr (us, u)" and
    2: "mergeSSHKnownHostsFile p cfg h ''GlobalKnownHostsFile'' (SystemKnownHostsFiles c)
        (SystemKnownHostsFile c) = Inr (ss, s)" and
    3: "c' = c\<lparr>UserKnownHostsFiles := us, UserKnownHostsFile := u,
       SystemKnownHostsFiles := ss, SystemKnownHostsFile := s\<rparr>"
    by (auto simp: mergeSSHKnownHostsFiles_def bind_res_Inr_iff Let_def)
  show ?thesis
    by (rule that [OF 3 mergeSSHKnownHostsFile_keeps [OF 1] mergeSSHKnownHostsFile_keeps [OF 2]])
qed

lemma processSSHConfig_Inr:
  assumes "processSSHConfig p cfg h c = Inr c'"
  shows "StrictHostKeyChecking c' = (if StrictHostKeyChecking c = '''' then
      cfgGet cfg h ''StrictHostKeyChecking'' else StrictHostKeyChecking c)"
    and "IdentityFile c' = (if IdentityFile c = '''' then cfgGet cfg h ''IdentityFile'' else IdentityFile c)"
    and "sshPort c' = ssh_value cfg h ''Port'' ''22'' (sshPort c)"
    and "sshUser c' = ssh_value cfg h ''User'' ''git'' (sshUser c)"
    and "Hostname c' = ssh_value cfg h ''Hostname'' h (Hostname c)"
    and "UserKnownHostsFiles c \<noteq> [] \<Longrightarrow> UserKnownHostsFiles c' = UserKnownHostsFiles c"
    and "SystemKnownHostsFiles c \<noteq> [] \<Longrightarrow> SystemKnownHostsFiles c' = SystemKnownHostsFiles c"
proof -
  from assms obtain c1 where
    m: "mergeSSHKnownHostsFiles p cfg h
        (mergeSSHIdentityFile cfg h (mergeSSHScalarDefaults cfg h c)) = Inr c1"
    and c': "c' = mergeSSHStrictHostKeyChecking cfg h c1"
    by (auto simp: processSSHConfig_def bind_res_Inr_iff)
  show "StrictHostKeyChecking c' = (if StrictHostKeyChecking c = '''' then
      cfgGet cfg h ''StrictHostKeyChecking'' else StrictHostKeyChecking c)"
    and "IdentityFile c' = (if IdentityFile c = '''' then cfgGet cfg h ''IdentityFile'' else IdentityFile c)"
    and "sshPort c' = ssh_value cfg h ''Port'' ''22'' (sshPort c)"
    and "sshUser c' = ssh_value cfg h ''User'' ''git'' (sshUser c)"
    and "Hostname c' = ssh_value cfg h ''Hostname'' h (Hostname c)"
    and "UserKnownHostsFiles c \<noteq> [] \<Longrightarrow> UserKnownHostsFiles c' = UserKnownHostsFiles c"
    and "SystemKnownHostsFiles c \<noteq> [] \<Longrightarrow> SystemKnownHostsFiles c' = SystemKnownHostsFiles c"
    by (rule mergeSSHKnownHostsFiles_Inr [OF m], simp add: c' mergeSSHStrictHostKeyChecking_def
        mergeSSHIdentityFile_def mergeSSHScalarDefaults_def Let_def)+
qed

lemma fold_set_option_user: "sshUser (fold set_option kvs c) = sshUser c"
  by (induction kvs arbitrary: c) (auto simp: set_option_def Let_def split: prod.splits)

lemma command_user: "sshUser (parseGitSshCommandEnv p) = ''''"
  by (simp add: parseGitSshCommandEnv_def Let_def fold_set_option_user ZeroSSHConfig_def split: option.split)

lemma command_config_same [simp]:
  "IdentityFile (command_config p) = IdentityFile (parseGitSshCommandEnv p)"
  "sshUser (command_config p) = sshUser (parseGitSshCommandEnv p)"
  "sshPort (command_config p) = sshPort (parseGitSshCommandEnv p)"
  "Hostname (command_config p) = Hostname (parseGitSshCommandEnv p)"
  "StrictHostKeyChecking (command_config p) = StrictHostKeyChecking (parseGitSshCommandEnv p)"
  "UserKnownHostsFiles (command_config p) = UserKnownHostsFiles (parseGitSshCommandEnv p)"
  "SystemKnownHostsFiles (command_config p) = SystemKnownHostsFiles (parseGitSshCommandEnv p)"
  by (simp_all add: command_config_def Let_def)

lemma getGitSSHAuth_Inr:
  assumes "getGitSSHAuth p h = Inr (c, auth)"
  obtains cfg c0 where "ssh_file_of p (ConfigFile (command_config p)) = Inr cfg"
    and "processSSHConfig p cfg h (command_config p) = Inr c0"
    and "c = c0 \<or> c = c0\<lparr>IdentityFile := IdentityFile (parseDefaultSshConfigFilePaths (sp_host p))\<rparr> \<and> IdentityFile c0 = ''''"
    and "IdentityFile c \<noteq> ''''"
    and "hostKeyCallback p c = Inr (authHostKey auth)" and "authUser auth = sshUser c"
  using assms
  by (auto simp: getGitSSHAuth_def Let_def bind_res_Inr_iff split: if_splits option.splits)

text \<open>The setting that is in force: that of the git command, else that of the file.\<close>

definition strict_setting :: "('k, 'c) ssh_params \<Rightarrow> ssh_file \<Rightarrow> string \<Rightarrow> string" where
  "strict_setting p cfg h =
     (if StrictHostKeyChecking (parseGitSshCommandEnv p) = '''' then cfgGet cfg h ''StrictHostKeyChecking''
      else StrictHostKeyChecking (parseGitSshCommandEnv p))"

lemma auth_strict:
  assumes "getGitSSHAuth p h = Inr (c, auth)" and "ssh_file_of p (ConfigFile (command_config p)) = Inr cfg"
  shows "StrictHostKeyChecking c = strict_setting p cfg h"
  using assms(1)
  by (rule getGitSSHAuth_Inr) (use assms(2) in \<open>auto simp: processSSHConfig_Inr(1) strict_setting_def\<close>)

text \<open>The first of some values that is set, or a default.\<close>

definition first_set :: "string list \<Rightarrow> string \<Rightarrow> string" where
  "first_set xs d = (case find (\<lambda>x. x \<noteq> '''') xs of None \<Rightarrow> d | Some x \<Rightarrow> x)"

subsection \<open>Escaped dollar signs\<close>

text \<open>Outside of quotes a backslash escapes the character behind it: no dollar sign is left bare.\<close>

fun dollars_escaped :: "bool \<Rightarrow> string \<Rightarrow> bool" where
  "dollars_escaped esc [] = True"
| "dollars_escaped esc (c # cs) =
     (if esc then dollars_escaped False cs
      else if c = backslash then dollars_escaped True cs
      else c \<noteq> CHR ''$'' \<and> dollars_escaped False cs)"

fun has_backslash_dollar :: "string \<Rightarrow> bool" where
  "has_backslash_dollar [] = False"
| "has_backslash_dollar (c # cs) =
     (c = backslash \<and> cs \<noteq> [] \<and> hd cs = CHR ''$'' \<or> has_backslash_dollar cs)"

lemma has_backslash_dollar_iff:
  "has_backslash_dollar v \<longleftrightarrow> (\<exists>a b. v = a @ [backslash] @ ''$'' @ b)"
proof (induction v)
  case Nil
  then show ?case by simp
next
  case (Cons c cs)
  have "(\<exists>a b. c # cs = a @ [backslash] @ ''$'' @ b) \<longleftrightarrow>
      (\<exists>b. c # cs = [backslash] @ ''$'' @ b) \<or> (\<exists>a b. cs = a @ [backslash] @ ''$'' @ b)"
    by (auto simp: Cons_eq_append_conv)
  moreover have "(\<exists>b. c # cs = [backslash] @ ''$'' @ b) \<longleftrightarrow>
      c = backslash \<and> cs \<noteq> [] \<and> hd cs = CHR ''$''"
    by (cases cs) auto
  ultimately show ?case using Cons by simp
qed

lemma dollars_escape_from:
  "dollars_escaped False (escape_from b (preserveSSHPathBackslashes v)) \<longleftrightarrow>
     \<not> (b \<and> v \<noteq> [] \<and> hd v = CHR ''$'') \<and> \<not> has_backslash_dollar v"
proof (induction v arbitrary: b rule: length_induct)
  case (1 v)
  show ?case
  proof (cases v)
    case Nil
    then show ?thesis by simp
  next
    case (Cons c cs)
    have IH: "dollars_escaped False (escape_from b (preserveSSHPathBackslashes cs)) \<longleftrightarrow>
        \<not> (b \<and> cs \<noteq> [] \<and> hd cs = CHR ''$'') \<and> \<not> has_backslash_dollar cs" for b
      using 1 Cons by simp
    show ?thesis
    proof (cases "c = backslash \<and> cs \<noteq> [] \<and> isSSHPathEscape (hd cs)")
      case True
      then obtain e es where cs: "cs = e # es" and e: "isSSHPathEscape e" by (cases cs) auto
      from e have ne: "e \<noteq> backslash" "e \<noteq> CHR ''$''" by (auto simp: isSSHPathEscape_def)
      have "dollars_escaped False (escape_from False (preserveSSHPathBackslashes es)) \<longleftrightarrow>
          \<not> has_backslash_dollar es"
        using 1 Cons cs by simp
      with True e ne show ?thesis by (simp add: Cons cs)
    next
      case False
      show ?thesis
      proof (cases "c = backslash")
        case True
        with False have "cs = [] \<or> \<not> isSSHPathEscape (hd cs)" by simp
        then show ?thesis
        proof
          assume "cs = []"
          with True show ?thesis by (simp add: Cons)
        next
          assume "\<not> isSSHPathEscape (hd cs)"
          with True IH [of True] show ?thesis by (cases "cs = []") (simp_all add: Cons)
        qed
      next
        case False
        with IH [of False] show ?thesis by (cases b) (simp_all add: Cons)
      qed
    qed
  qed
qed

section \<open>Properties\<close>

text \<open>A host where every path is a file, with an empty git command and an empty configuration file.\<close>

definition plain_ssh :: "(unit, unit) ssh_params" where
  "plain_ssh = \<lparr>sp_host = \<lparr>host_getenv = \<lambda>_. None, host_cwd = Some ''/'', host_home = ''/'',
       host_stat = \<lambda>_. StatOk RegFile, host_open = \<lambda>_. Some '''', host_evalsym = \<lambda>_. None\<rparr>,
     sp_windows = False, sp_fields = \<lambda>s. Some (Fields s),
     sp_flags = \<lambda>_. \<lparr>fIdentity = '''', fConfFile = '''', fOptions = []\<rparr>,
     sp_decode = \<lambda>_. Inr empty_ssh_file, sp_parse_key = \<lambda>_ _. Inr (), sp_knownhosts = \<lambda>_. Inr ()\<rparr>"

definition plain_auth :: "SSHConfigAuth \<times> (unit, unit) ssh_auth" where
  "plain_auth = (case getGitSSHAuth plain_ssh ''git'' of Inr a \<Rightarrow> a)"

lemma plain_ssh_auth: "getGitSSHAuth plain_ssh ''git'' = Inr plain_auth"
  by code_simp

lemma plain_ssh_file: "ssh_file_of plain_ssh (ConfigFile (command_config plain_ssh)) = Inr empty_ssh_file"
proof -
  have "ConfigFile (command_config plain_ssh) \<noteq> ''''" by code_simp
  then show ?thesis by (simp add: ssh_file_of_def plain_ssh_def)
qed

text \<open>C20. The check of the host key is only switched off by an explicit StrictHostKeyChecking=no, given
  in \<open>GIT_SSH_COMMAND\<close> or, when that does not give the option, in the configuration file for
  the host. In every other case the connection verifies the key against a non-empty list of
  existing files that holds every known-hosts file the user configured.\<close>

theorem host_key_verified_unless_no:
  assumes "getGitSSHAuth p h = Inr (c, auth)" and "ssh_file_of p (ConfigFile (command_config p)) = Inr cfg"
  shows "if EqualFold (strict_setting p cfg h) ''no'' then authHostKey auth = InsecureIgnoreHostKey
    else \<exists>k a files. authHostKey auth = VerifyHostKey k a \<and> sp_knownhosts p files = Inr k \<and>
      known_files_ok p c files"
proof -
  have s: "StrictHostKeyChecking c = strict_setting p cfg h" by (rule auth_strict [OF assms])
  from assms(1) have cb: "hostKeyCallback p c = Inr (authHostKey auth)" by (rule getGitSSHAuth_Inr)
  show ?thesis
    using hostKeyCallback_Inr [OF cb] hostKeyCallback_verifies [OF cb] unfolding s by presburger
qed

theorem host_key_verified_unless_no_witness:
  "\<not> EqualFold (strict_setting plain_ssh empty_ssh_file ''git'') ''no'' \<and>
     (\<exists>k a files. authHostKey (snd plain_auth) = VerifyHostKey k a \<and>
        sp_knownhosts plain_ssh files = Inr k \<and> known_files_ok plain_ssh (fst plain_auth) files)"
proof -
  have n: "\<not> EqualFold (strict_setting plain_ssh empty_ssh_file ''git'') ''no''" by code_simp
  have "getGitSSHAuth plain_ssh ''git'' = Inr (fst plain_auth, snd plain_auth)"
    using plain_ssh_auth by simp
  from host_key_verified_unless_no [OF this plain_ssh_file] n show ?thesis by simp
qed

text \<open>The precedence of the connection's options: what \<open>GIT_SSH_COMMAND\<close> gives wins over the
  configuration file, and that over the defaults, for the port, the host name, the identity
  file and the known-hosts files; the user comes from the file or is \<open>git\<close>.\<close>

theorem ssh_options_precedence:
  assumes "getGitSSHAuth p h = Inr (c, auth)" and "ssh_file_of p (ConfigFile (command_config p)) = Inr cfg"
    and "cmd = parseGitSshCommandEnv p"
  shows "sshPort c = first_set [sshPort cmd, cfgGet cfg h ''Port''] ''22'' \<and>
    Hostname c = first_set [Hostname cmd, cfgGet cfg h ''Hostname''] h \<and>
    authUser auth = first_set [cfgGet cfg h ''User''] ''git'' \<and>
    IdentityFile c = first_set [IdentityFile cmd, cfgGet cfg h ''IdentityFile'']
      (IdentityFile (parseDefaultSshConfigFilePaths (sp_host p))) \<and>
    UserKnownHostsFiles cmd \<in> {[], UserKnownHostsFiles c} \<and>
    SystemKnownHostsFiles cmd \<in> {[], SystemKnownHostsFiles c}"
proof -
  from assms(1) obtain c0 where
    p: "processSSHConfig p cfg h (command_config p) = Inr c0" and
    c: "c = (if IdentityFile c0 = '''' then
      c0\<lparr>IdentityFile := IdentityFile (parseDefaultSshConfigFilePaths (sp_host p))\<rparr> else c0)" and
    u: "authUser auth = sshUser c"
    by (rule getGitSSHAuth_Inr) (use assms(2) in auto)
  note r = processSSHConfig_Inr [OF p, unfolded command_config_same]
  have ids: "sshPort c = sshPort c0" "Hostname c = Hostname c0" "sshUser c = sshUser c0"
    "UserKnownHostsFiles c = UserKnownHostsFiles c0" "SystemKnownHostsFiles c = SystemKnownHostsFiles c0"
    "IdentityFile c = (if IdentityFile c0 = '''' then
       IdentityFile (parseDefaultSshConfigFilePaths (sp_host p)) else IdentityFile c0)"
    unfolding c by simp_all
  have k: "UserKnownHostsFiles cmd \<in> {[], UserKnownHostsFiles c}"
    "SystemKnownHostsFiles cmd \<in> {[], SystemKnownHostsFiles c}"
    unfolding ids assms(3) using r(6,7) by simp_all metis+
  have v: "ssh_value f hn opt d v = first_set [v, cfgGet f hn opt] d" for f hn opt d v
    by (simp add: ssh_value_def first_set_def)
  have i: "IdentityFile c = first_set [IdentityFile cmd, cfgGet cfg h ''IdentityFile'']
      (IdentityFile (parseDefaultSshConfigFilePaths (sp_host p)))"
    unfolding ids r(2) assms(3) by (simp add: first_set_def)
  have n: "authUser auth = first_set [cfgGet cfg h ''User''] ''git''"
    unfolding u ids r(4) v command_user by (simp add: first_set_def)
  show ?thesis
    using k i n unfolding ids(1,2) r(3,5) v assms(3) by blast
qed

theorem ssh_options_precedence_witness:
  "sshPort (fst plain_auth) = ''22'' \<and> Hostname (fst plain_auth) = ''git'' \<and>
     authUser (snd plain_auth) = ''git''"
proof -
  have "getGitSSHAuth plain_ssh ''git'' = Inr (fst plain_auth, snd plain_auth)"
    using plain_ssh_auth by simp
  from ssh_options_precedence [OF this plain_ssh_file refl]
  have "sshPort (fst plain_auth) = first_set [sshPort (parseGitSshCommandEnv plain_ssh), ''''] ''22''"
    "Hostname (fst plain_auth) = first_set [Hostname (parseGitSshCommandEnv plain_ssh), ''''] ''git''"
    "authUser (snd plain_auth) = first_set [''''] ''git''"
    by (simp_all add: empty_ssh_file_def)
  moreover have "sshPort (parseGitSshCommandEnv plain_ssh) = ''''"
    "Hostname (parseGitSshCommandEnv plain_ssh) = ''''" by code_simp+
  ultimately show ?thesis by (simp add: first_set_def)
qed

text \<open>In the text that is given to the shell's field splitter every dollar sign is escaped if and
  only if none follows a backslash in the configuration value: in a path such as \<open>\$HOME\<close> the
  backslash is doubled, the dollar sign is taken for escaped, and the variable is expanded.\<close>

theorem dollar_after_backslash_expands:
  "dollars_escaped False (escapeSSHPathVariables (preserveSSHPathBackslashes value)) \<longleftrightarrow>
     value \<notin> {a @ [backslash] @ ''$'' @ b |a b. True}"
  unfolding escapeSSHPathVariables_def
  by (simp add: dollars_escape_from has_backslash_dollar_iff)

end
