(* ===== verification/GitSource.thy ===== *)
theory GitSource
  imports SshConfig Imports
begin

text \<open>
  The git half of \<open>internal/config/loader_git.go\<close>: import strings of the form
  \<open>git::<protocol>://<repository>//<path>?ref=<revision>\<close>, and how the file is found in the
  repository. What go-git does is in the record \<open>git_params\<close>; a revision, a commit and a tree
  are handles (strings), a repository is of type \<open>'r\<close>.
\<close>

section \<open>Import strings\<close>

definition gitPrefix :: string where
  "gitPrefix = ''git::''"

definition IsGit :: "string \<Rightarrow> bool" where
  "IsGit raw = HasPrefix raw gitPrefix"

text \<open>
  \<open>gitRegexp\<close>, with the groups protocol, repository, path and revision: the repository is the
  shortest non-empty text without a newline that is followed by two slashes and a tail that
  matches the rest of the expression. A missing revision is the empty string, as
  \<open>FindStringSubmatch\<close> gives it.
\<close>

definition match_tail :: "string \<Rightarrow> (string \<times> string) option" where
  "match_tail tail =
     (let path = takeWhile (\<lambda>c. c \<noteq> CHR ''?'') tail; rest = dropWhile (\<lambda>c. c \<noteq> CHR ''?'') tail in
      if path = '''' then None
      else if rest = '''' then Some (path, '''')
      else if HasPrefix rest ''?ref='' \<and> drop 5 rest \<noteq> '''' \<and> CHR ''&'' \<notin> set (drop 5 rest)
      then Some (path, drop 5 rest)
      else None)"

fun match_repo :: "string \<Rightarrow> string \<Rightarrow> (string \<times> string \<times> string) option" where
  "match_repo cur [] = None"
| "match_repo cur (c # cs) =
     (case (if cur \<noteq> [] \<and> HasPrefix (c # cs) ''//'' then match_tail (tl cs) else None) of
        Some (path, tag) \<Rightarrow> Some (rev cur, path, tag)
      | None \<Rightarrow> if c = CHR 0x0A then None else match_repo (c # cur) cs)"

definition git_protocols :: "string list" where
  "git_protocols = [''ssh'', ''https'', ''http'', ''file'']"

definition match_proto :: "string \<Rightarrow> string \<Rightarrow> (string \<times> string \<times> string \<times> string) option" where
  "match_proto s proto =
     (if HasPrefix s (proto @ ''://'') then
        map_option (Pair proto) (match_repo [] (drop (length proto + 3) s))
      else None)"

definition gitRegexp :: "string \<Rightarrow> (string \<times> string \<times> string \<times> string) option" where
  "gitRegexp raw =
     (if HasPrefix raw gitPrefix then
        (case List.map_filter (match_proto (drop (length gitPrefix) raw)) git_protocols of
           [] \<Rightarrow> None | m # _ \<Rightarrow> Some m)
      else None)"

section \<open>Sources\<close>

datatype git_error =
    ErrIncorrectlyFormattedGit string
  | ErrSsh ssh_error
  | ErrClone string
  | ErrGitTagBranchRevisionWrong
  | ErrHead
  | ErrCommit
  | ErrTree
  | ErrTreeFile string
  | ErrGitWrite import_error
  | ErrGitDecode string

record ('k, 'c) git_source =
  gsSshConfig :: "SSHConfigAuth option"
  gsURL :: string
  gsAuth :: "('k, 'c) ssh_auth option"
  gsYamlPath :: string
  gsTag :: string
  gsEntry :: ImportEntry

record ('w, 'r, 'k, 'c) git_params =
  g_ssh :: "('k, 'c) ssh_params"
  g_clone :: "string \<Rightarrow> ('k, 'c) ssh_auth option \<Rightarrow> 'w \<Rightarrow> string + 'r"
  g_resolve :: "'r \<Rightarrow> string \<Rightarrow> string option"
  g_new_hash :: "string \<Rightarrow> string"
  g_head :: "'r \<Rightarrow> string option"
  g_commit :: "'r \<Rightarrow> string \<Rightarrow> string option"
  g_tree :: "'r \<Rightarrow> string \<Rightarrow> string option"
  g_file :: "'r \<Rightarrow> string \<Rightarrow> string \<Rightarrow> string option"

definition ssh_url :: "SSHConfigAuth \<Rightarrow> string list \<Rightarrow> string" where
  "ssh_url c path =
     ''ssh://'' @ sshUser c @ ''@'' @ Hostname c @ '':'' @ sshPort c @ ''/'' @ Join path ''/''"

definition NewGitSource ::
  "('w, 'r, 'k, 'c) git_params \<Rightarrow> ImportEntry \<Rightarrow> git_error + ('k, 'c) git_source" where
  "NewGitSource p entry =
     (let gs = \<lparr>gsSshConfig = None, gsURL = '''', gsAuth = None, gsYamlPath = '''', gsTag = '''',
                gsEntry = entry\<rparr> in
      case gitRegexp (Src entry) of
        None \<Rightarrow> Inl (ErrIncorrectlyFormattedGit (Src entry))
      | Some (proto, repo, path, tag) \<Rightarrow>
          bind_res
            (if proto = ''ssh'' then
               (let p1 = Split repo ''/'' in
                case getGitSSHAuth (g_ssh p) (hd p1) of
                  Inl e \<Rightarrow> Inl (ErrSsh e)
                | Inr (c, auth) \<Rightarrow>
                    Inr (gs\<lparr>gsSshConfig := Some c, gsURL := ssh_url c (tl p1), gsAuth := Some auth\<rparr>))
             else if proto = ''http'' \<or> proto = ''https'' then Inr (gs\<lparr>gsURL := ''https://'' @ repo\<rparr>)
             else if proto = ''file'' then Inr (gs\<lparr>gsURL := repo\<rparr>)
             else Inl (ErrIncorrectlyFormattedGit (Src entry)))
            (\<lambda>gs. Inr (gs\<lparr>gsYamlPath := path, gsTag := tag\<rparr>)))"

definition Clone :: "('w, 'r, 'k, 'c) git_params \<Rightarrow> ('k, 'c) git_source \<Rightarrow> 'w \<Rightarrow> git_error + 'r" where
  "Clone p gs w = (case g_clone p (gsURL gs) (gsAuth gs) w of Inl e \<Rightarrow> Inl (ErrClone e) | Inr r \<Rightarrow> Inr r)"

text \<open>\<open>getCommitFuncFallback\<close>: the revision, the remote branch, and the text as a hash.\<close>

definition commit_by_revision ::
  "('w, 'r, 'k, 'c) git_params \<Rightarrow> 'r \<Rightarrow> string \<Rightarrow> string option" where
  "commit_by_revision p r tag =
     (case g_resolve p r tag of
        Some h \<Rightarrow> g_commit p r h
      | None \<Rightarrow>
          (case g_resolve p r (''refs/remotes/origin/'' @ tag) of
             Some h \<Rightarrow> g_commit p r h
           | None \<Rightarrow> None))"

definition commit_by_hash :: "('w, 'r, 'k, 'c) git_params \<Rightarrow> 'r \<Rightarrow> string \<Rightarrow> string option" where
  "commit_by_hash p r tag = g_commit p r (g_new_hash p tag)"

definition getCommit ::
  "('w, 'r, 'k, 'c) git_params \<Rightarrow> ('k, 'c) git_source \<Rightarrow> 'r \<Rightarrow> git_error + string" where
  "getCommit p gs r =
     (if gsTag gs \<noteq> '''' then
        (case List.map_filter (\<lambda>fn. fn r (gsTag gs)) [commit_by_revision p, commit_by_hash p] of
           c # _ \<Rightarrow> Inr c
         | [] \<Rightarrow> Inl ErrGitTagBranchRevisionWrong)
      else (case g_head p r of
          None \<Rightarrow> Inl ErrHead
        | Some h \<Rightarrow> (case g_commit p r h of None \<Rightarrow> Inl ErrCommit | Some c \<Rightarrow> Inr c)))"

definition git_tree ::
  "('w, 'r, 'k, 'c) git_params \<Rightarrow> ('k, 'c) git_source \<Rightarrow> 'r \<Rightarrow> git_error + string" where
  "git_tree p gs r =
     bind_res (getCommit p gs r) (\<lambda>c. case g_tree p r c of None \<Rightarrow> Inl ErrTree | Some t \<Rightarrow> Inr t)"

definition git_File ::
  "('w, 'r, 'k, 'c) git_params \<Rightarrow> ('k, 'c) git_source \<Rightarrow> 'r \<Rightarrow> git_error + string" where
  "git_File p gs r =
     bind_res (git_tree p gs r) (\<lambda>t.
       case g_file p r t (gsYamlPath gs) of
         None \<Rightarrow> Inl (ErrTreeFile (gsYamlPath gs)) | Some content \<Rightarrow> Inr content)"

text \<open>\<open>Config\<close> with the loader's \<open>writeImportedFile\<close> (for its directory) and the cache's \<open>Store\<close>;
  a document that is null makes the configuration nil, here \<open>None\<close>.\<close>

definition git_Config ::
  "('w, 'r, 'k, 'c) git_params \<Rightarrow> 'w io \<Rightarrow> (string \<Rightarrow> string + 'd option) \<Rightarrow> 'd \<Rightarrow> string \<Rightarrow>
     ('k, 'c) git_source \<Rightarrow> 'r \<Rightarrow> 'w \<Rightarrow> (git_error + 'd option) \<times> 'w" where
  "git_Config p io decode none dir gs r w =
     (case git_File p gs r of
        Inl e \<Rightarrow> (Inl e, w)
      | Inr contents \<Rightarrow>
          (let (ok, content, w1) = cache_Store io (Src (gsEntry gs)) contents w in
           if IsFileImport (gsEntry gs) then
             (case writeImportedFile io dir (gsEntry gs) content w1 of
                (Inl e, w2) \<Rightarrow> (Inl (ErrGitWrite e), w2)
              | (Inr u, w2) \<Rightarrow> (Inr (Some none), w2))
           else (case decode content of
               Inl e \<Rightarrow> (Inl (ErrGitDecode e), w1)
             | Inr cfg \<Rightarrow> (Inr cfg, w1))))"

section \<open>Facts and properties\<close>

text \<open>A git that finds nothing, on the host of \<open>plain_ssh\<close>.\<close>

definition no_git :: "(unit, unit, unit, unit) git_params" where
  "no_git = \<lparr>g_ssh = plain_ssh, g_clone = \<lambda>u a w. Inl '''', g_resolve = \<lambda>r t. None, g_new_hash = \<lambda>t. t,
     g_head = \<lambda>r. None, g_commit = \<lambda>r h. None, g_tree = \<lambda>r c. None, g_file = \<lambda>r t f. None\<rparr>"

definition import_string :: "string \<Rightarrow> string \<Rightarrow> string \<Rightarrow> string \<Rightarrow> string" where
  "import_string proto repo path tag =
     ''git::'' @ proto @ ''://'' @ repo @ ''//'' @ path @ (if tag = '''' then '''' else ''?ref='' @ tag)"

lemma match_tail_parts:
  assumes "path \<noteq> ''''" "CHR ''?'' \<notin> set path" "CHR ''&'' \<notin> set tag"
  shows "match_tail (path @ (if tag = '''' then '''' else ''?ref='' @ tag)) = Some (path, tag)"
proof -
  have all: "\<forall>c \<in> set path. c \<noteq> CHR ''?''" using assms(2) by blast
  show ?thesis
  proof (cases "tag = ''''")
    case True
    have f: "takeWhile (\<lambda>c. c \<noteq> CHR ''?'') path = path" "dropWhile (\<lambda>c. c \<noteq> CHR ''?'') path = ''''"
      using all by (auto simp: takeWhile_eq_all_conv)
    show ?thesis using assms(1) unfolding match_tail_def Let_def True by (simp only: append_Nil2 f simp_thms if_True if_False)
  next
    case False
    have "takeWhile (\<lambda>c. c \<noteq> CHR ''?'') (path @ ''?ref='' @ tag) = path"
      "dropWhile (\<lambda>c. c \<noteq> CHR ''?'') (path @ ''?ref='' @ tag) = ''?ref='' @ tag"
      using all by (simp_all add: takeWhile_append dropWhile_append)
    moreover have "HasPrefix (''?ref='' @ tag) ''?ref=''" by (rule HasPrefix_self_append)
    moreover have "drop 5 (''?ref='' @ tag) = tag" by simp
    ultimately show ?thesis using False assms unfolding match_tail_def Let_def by simp
  qed
qed

lemma match_repo_shortest:
  assumes "match_tail tail = Some (path, tag)" and "cur \<noteq> [] \<or> repo \<noteq> []"
    and "\<not> Contains (repo @ ''/'') ''//''" and "CHR 0x0A \<notin> set repo"
  shows "match_repo cur (repo @ ''//'' @ tail) = Some (rev cur @ repo, path, tag)"
  using assms
proof (induction repo arbitrary: cur)
  case Nil
  then show ?case by (simp add: HasPrefix_def)
next
  case (Cons c cs)
  have nc: "\<not> Contains (cs @ ''/'') ''//''"
    using Cons.prems(3) Contains_append [of "cs @ ''/''" "''//''" "[c]" "[]"] by auto
  have np: "\<not> HasPrefix (c # cs @ ''//'' @ tail) ''//''"
  proof
    assume "HasPrefix (c # cs @ ''//'' @ tail) ''//''"
    then have "HasPrefix ((c # cs) @ ''/'') ''//''"
      by (cases cs) (auto simp: HasPrefix_def)
    then have "Contains ((c # cs) @ ''/'') ''//''"
      unfolding HasPrefix_iff prefix_def Contains_iff by (metis append_Nil)
    with Cons.prems(3) show False by simp
  qed
  have "match_repo (c # cur) (cs @ ''//'' @ tail) = Some (rev (c # cur) @ cs, path, tag)"
    using Cons.prems(1,4) nc by (intro Cons.IH) auto
  moreover from Cons.prems(4) have "c \<noteq> CHR 0x0A" by auto
  ultimately show ?case using np by simp
qed

lemma gitRegexp_parts:
  assumes "proto \<in> {''https'', ''http'', ''file'', ''ssh''}"
    and "match_repo [] rest = Some (repo, path, tag)"
  shows "gitRegexp (''git::'' @ proto @ ''://'' @ rest) = Some (proto, repo, path, tag)"
  using assms
  by (auto simp: gitRegexp_def gitPrefix_def match_proto_def git_protocols_def HasPrefix_def
      List.map_filter_simps)

text \<open>An import string is taken apart into what it was built from: for a repository that holds no
  double slash and does not end in one, the shortest match gives back the repository, the
  path and the revision; http is upgraded to https.\<close>

theorem NewGitSource_parses:
  assumes "proto \<in> {''https'', ''http'', ''file''}" and "Src e = import_string proto repo path tag"
    and "repo \<noteq> ''''" "\<not> Contains (repo @ ''/'') ''//''" "CHR 0x0A \<notin> set repo"
    and "path \<noteq> ''''" "CHR ''?'' \<notin> set path" "CHR ''&'' \<notin> set tag"
  shows "NewGitSource p e = Inr \<lparr>gsSshConfig = None,
    gsURL = (if proto = ''file'' then repo else ''https://'' @ repo), gsAuth = None,
    gsYamlPath = path, gsTag = tag, gsEntry = e\<rparr>"
proof -
  have m: "match_repo [] (repo @ ''//'' @ path @ (if tag = '''' then '''' else ''?ref='' @ tag))
      = Some (repo, path, tag)"
    using match_repo_shortest [OF match_tail_parts [OF assms(6-8)], of "[]" repo] assms(3-5) by simp
  have "gitRegexp (Src e) = Some (proto, repo, path, tag)"
    unfolding assms(2) import_string_def using assms(1) by (intro gitRegexp_parts [OF _ m]) blast
  with assms(1) show ?thesis by (auto simp: NewGitSource_def)
qed

theorem NewGitSource_parses_witness:
  "let e = plain_import (import_string ''https'' ''h/o/r'' ''d/e.yaml'' ''v1'') in
   Src e = ''git::https://h/o/r//d/e.yaml?ref=v1'' \<and>
   NewGitSource no_git e = Inr \<lparr>gsSshConfig = None, gsURL = ''https://h/o/r'', gsAuth = None,
     gsYamlPath = ''d/e.yaml'', gsTag = ''v1'', gsEntry = e\<rparr>"
proof -
  let ?e = "plain_import (import_string ''https'' ''h/o/r'' ''d/e.yaml'' ''v1'')"
  have c: "\<not> Contains (''h/o/r'' @ ''/'') ''//''" by code_simp
  have "NewGitSource no_git ?e = Inr \<lparr>gsSshConfig = None,
    gsURL = (if ''https'' = ''file'' then ''h/o/r'' else ''https://'' @ ''h/o/r''), gsAuth = None,
    gsYamlPath = ''d/e.yaml'', gsTag = ''v1'', gsEntry = ?e\<rparr>"
    by (rule NewGitSource_parses [OF _ _ _ c]) (simp_all add: plain_import_def)
  then show ?thesis by (simp add: plain_import_def import_string_def Let_def)
qed

end
