(* ===== verification/Loader.thy ===== *)
theory Loader
  imports Definitions GitSource
begin

text \<open>
  The recursive part of \<open>internal/config/loader.go\<close>: reading one source (a URL, a git path, a
  file) and following its imports. The loader's state is the set of visited sources, the
  project directory and the world; the operations are state-error computations on it.

  The recursion \<open>load\<close> - \<open>parseImports\<close> - \<open>loadDir\<close> - \<open>load\<close> ends because every nested call is
  on a source that was not visited; since the number of sources is not bounded by the
  program, \<open>load\<close> takes the depth it may still use as fuel, and \<open>load_terminates\<close> says how much
  is enough. The library functions that the code calls are in \<open>loader_params\<close>: \<open>url.Parse\<close>'s
  refusals, \<open>http.Get\<close> (status and the bytes of the body that arrive), YAML decoding from a
  stream (a null document gives \<open>None\<close>) and from bytes.
\<close>

section \<open>Parameters, errors and state\<close>

record ('w, 'r, 'k, 'c) loader_params =
  lp_io :: "'w io"
  lp_git :: "('w, 'r, 'k, 'c) git_params"
  lp_url_err :: "string \<Rightarrow> bool"
  lp_http :: "string \<Rightarrow> 'w \<Rightarrow> string + (nat \<times> string)"
  lp_decode :: "string \<Rightarrow> string + ConfigDefinition option"
  lp_unmarshal :: "string \<Rightarrow> string + ConfigDefinition"

datatype loader_error =
    ErrHttp string
  | ErrHttpStatus nat
  | ErrConfigNotFound string
  | ErrOpenFile string
  | ErrDecodeConfig string
  | ErrWriteImport import_error
  | ErrGit git_error
  | ErrImportFileFailed string
  | ErrClash clash
  | ErrInFile string loader_error
  | ErrLoadImport string loader_error
  | ErrOutOfFuel

record 'w lstate =
  lImports :: "string set"
  lDir :: string
  lWorld :: 'w

text \<open>\<open>utils.IsURL\<close>: the scheme in front of the first colon, in lower case.\<close>

fun url_scheme :: "string \<Rightarrow> string \<Rightarrow> string" where
  "url_scheme cur [] = ''''"
| "url_scheme cur (c # cs) =
     (if is_lower c \<or> is_upper c then url_scheme (cur @ [c]) cs
      else if is_digit c \<or> c \<in> set ''+-.'' then (if cur = '''' then '''' else url_scheme (cur @ [c]) cs)
      else if c = CHR '':'' then ToLower cur
      else '''')"

definition IsURL :: "('w, 'r, 'k, 'c) loader_params \<Rightarrow> string \<Rightarrow> bool" where
  "IsURL p s = (\<not> lp_url_err p s \<and> HasPrefix (url_scheme '''' s) ''http'')"

section \<open>Reading one source\<close>

type_synonym ('w, 'a) ld = "('w lstate, loader_error, 'a) op"

text \<open>An operation on the world only.\<close>

definition on_world :: "('w \<Rightarrow> (loader_error + 'a) \<times> 'w) \<Rightarrow> ('w, 'a) ld" where
  "on_world f = (\<lambda>s. case f (lWorld s) of (r, w) \<Rightarrow> (r, s\<lparr>lWorld := w\<rparr>))"

definition write_import ::
  "('w, 'r, 'k, 'c) loader_params \<Rightarrow> ImportEntry \<Rightarrow> string \<Rightarrow> ('w, unit) ld" where
  "write_import p entry content = (\<lambda>s. on_world (\<lambda>w.
     case writeImportedFile (lp_io p) (lDir s) entry content w of
       (Inl e, w') \<Rightarrow> (Inl (ErrWriteImport e), w') | (Inr u, w') \<Rightarrow> (Inr u, w')) s)"

definition readURL ::
  "('w, 'r, 'k, 'c) loader_params \<Rightarrow> ImportEntry \<Rightarrow> ('w, ConfigDefinition option) ld" where
  "readURL p url = (\<lambda>s.
     case lp_http p (Src url) (lWorld s) of
       Inl e \<Rightarrow> (Inl (ErrHttp e), s)
     | Inr (status, body) \<Rightarrow>
         if status \<noteq> 200 then (Inl (ErrHttpStatus status), s)
         else (let (ok, content, w) = cache_Store (lp_io p) (Src url) body (lWorld s);
                   s = s\<lparr>lWorld := w\<rparr> in
           if IsFileImport url then
             op_bind (write_import p url content) (\<lambda>_. op_return (Some EmptyConfig)) s
           else (case lp_decode p content of
               Inl e \<Rightarrow> (Inl (ErrDecodeConfig e), s)
             | Inr cm \<Rightarrow> (Inr cm, s))))"

definition readFile ::
  "('w, 'r, 'k, 'c) loader_params \<Rightarrow> ImportEntry \<Rightarrow> ('w, ConfigDefinition option) ld" where
  "readFile p entry = (\<lambda>s.
     case io_open (lp_io p) (lWorld s) (Src entry) of
       None \<Rightarrow> (Inl (ErrOpenFile (Src entry)), s)
     | Some data \<Rightarrow>
         if IsFileImport entry then
           op_bind (write_import p entry data) (\<lambda>_. op_return (Some EmptyConfig)) s
         else (case lp_decode p data of
             Inl e \<Rightarrow> (Inl (ErrDecodeConfig e), s)
           | Inr None \<Rightarrow> (Inr (Some EmptyConfig), s)
           | Inr (Some cm) \<Rightarrow> (Inr (Some cm), s)))"

text \<open>The cache comes first; what goes wrong there is not an error.\<close>

definition cached ::
  "('w, 'r, 'k, 'c) loader_params \<Rightarrow> ImportEntry \<Rightarrow> ('w, ConfigDefinition option) ld" where
  "cached p file = (\<lambda>s.
     case cache_Get (lp_io p) (lp_unmarshal p) EmptyConfig (lDir s) file (lWorld s) of
       (Inl e, w) \<Rightarrow> (Inr None, s\<lparr>lWorld := w\<rparr>)
     | (Inr cfg, w) \<Rightarrow> (Inr (Some cfg), s\<lparr>lWorld := w\<rparr>))"

definition read_git ::
  "('w, 'r, 'k, 'c) loader_params \<Rightarrow> ImportEntry \<Rightarrow> ('w, ConfigDefinition option) ld" where
  "read_git p file = (\<lambda>s.
     case bind_res (NewGitSource (lp_git p) file) (\<lambda>gs.
            bind_res (Clone (lp_git p) gs (lWorld s)) (\<lambda>r. Inr (gs, r))) of
       Inl e \<Rightarrow> (Inl (ErrGit e), s)
     | Inr (gs, r) \<Rightarrow>
         on_world (\<lambda>w. case git_Config (lp_git p) (lp_io p) (lp_decode p) EmptyConfig (lDir s) gs r w of
             (Inl e, w') \<Rightarrow> (Inl (ErrGit e), w') | (Inr cm, w') \<Rightarrow> (Inr cm, w')) s)"

text \<open>\<open>getGetConfigFunc\<close>: the three readers in their order; \<open>None\<close> is a result that is not ok.\<close>

definition or_read ::
  "('w, ConfigDefinition option) ld \<Rightarrow> ('w, ConfigDefinition option) ld \<Rightarrow> ('w, ConfigDefinition option) ld" where
  "or_read m n = op_bind m (\<lambda>c. case c of Some cfg \<Rightarrow> op_return (Some cfg) | None \<Rightarrow> n)"

definition get_url where
  "get_url p file = (if IsURL p (Src file) then or_read (cached p file) (readURL p file) else op_return None)"

definition get_git where
  "get_git p file = (if IsGit (Src file) then or_read (cached p file) (read_git p file) else op_return None)"

definition get_file ::
  "('w, 'r, 'k, 'c) loader_params \<Rightarrow> ImportEntry \<Rightarrow> ('w, ConfigDefinition option) ld" where
  "get_file p file = (\<lambda>s.
     if \<not> io_exists (lp_io p) (lWorld s) (Src file) then (Inl (ErrConfigNotFound (Src file)), s)
     else readFile p file s)"

definition get_config ::
  "('w, 'r, 'k, 'c) loader_params \<Rightarrow> ImportEntry \<Rightarrow> ('w, ConfigDefinition) ld" where
  "get_config p file =
     op_map_error (ErrInFile (Src file))
       (op_bind (or_read (get_url p file) (or_read (get_git p file) (get_file p file)))
         (\<lambda>c. op_return (case c of None \<Rightarrow> EmptyConfig | Some cfg \<Rightarrow> cfg)))"

section \<open>Following the imports\<close>

definition merge_op ::
  "ConfigDefinition \<Rightarrow> ConfigDefinition \<Rightarrow> string \<Rightarrow> ('w, ConfigDefinition) ld" where
  "merge_op base imported path =
     op_lift (case mergeExistingWithImported base imported path of
       Inl c \<Rightarrow> Inl (ErrClash c) | Inr cfg \<Rightarrow> Inr cfg)"

text \<open>\<open>loadDir\<close>, for the loader \<open>ld\<close> of one file.\<close>

fun load_files ::
  "(ImportEntry \<Rightarrow> ('w, ConfigDefinition) ld) \<Rightarrow> string list \<Rightarrow> ConfigDefinition \<Rightarrow> ('w, ConfigDefinition) ld" where
  "load_files ld [] cm = op_return cm"
| "load_files ld (f # fs) cm =
     op_bind (op_get lImports) (\<lambda>vis.
       if f \<in> vis then load_files ld fs cm
       else op_bind (op_map_error (ErrLoadImport f) (ld (plain_import f))) (\<lambda>cml.
         op_bind (merge_op cm cml f) (load_files ld fs)))"

definition yaml_pattern :: "string \<Rightarrow> string" where
  "yaml_pattern dir = JoinPath [dir, ''*.yaml'']"

definition loadDir where
  "loadDir p ld dir =
     op_bind (op_get (\<lambda>s. io_glob (lp_io p) (lWorld s) (yaml_pattern dir)))
       (\<lambda>q. load_files ld q EmptyConfig)"

text \<open>The path of a file import.\<close>

definition import_file :: "string \<Rightarrow> string \<Rightarrow> string" where
  "import_file importDir src =
     (if IsAbs src then src
      else if importDir \<noteq> ''http:'' then JoinPath [importDir, src] else '''')"

definition remote :: "('w, 'r, 'k, 'c) loader_params \<Rightarrow> string \<Rightarrow> bool" where
  "remote p src = (IsURL p src \<or> IsGit src)"

text \<open>One step of the loop of \<open>parseImports\<close>.\<close>

definition import_one ::
  "('w, 'r, 'k, 'c) loader_params \<Rightarrow> (ImportEntry \<Rightarrow> ('w, ConfigDefinition) ld) \<Rightarrow> string \<Rightarrow>
     ImportEntry \<Rightarrow> ConfigDefinition \<Rightarrow> ('w, ConfigDefinition) ld" where
  "import_one p ld importDir entry base =
     op_bind (op_get lImports) (\<lambda>vis.
     if remote p (Src entry) then
       (if Src entry \<in> vis then op_return base
        else op_bind (op_map_error (ErrLoadImport (Src entry)) (ld entry)) (\<lambda>cfg.
          merge_op base cfg (Src entry)))
     else (let importFile = import_file importDir (Src entry); entry = entry\<lparr>Src := importFile\<rparr> in
       if importFile \<in> vis then op_return base
       else op_bind (op_get (\<lambda>s. io_stat (lp_io p) (lWorld s) importFile)) (\<lambda>st.
         case st of
           Inl e \<Rightarrow> op_throw (ErrImportFileFailed importFile)
         | Inr isDir \<Rightarrow>
             if isDir then op_bind (op_map_error (ErrLoadImport importFile) (loadDir p ld importFile))
               (\<lambda>cfg. merge_op base cfg importFile)
             else op_bind (op_map_error (ErrLoadImport importFile) (ld entry))
               (\<lambda>cfg. merge_op base cfg importFile))))"

fun parseImports ::
  "('w, 'r, 'k, 'c) loader_params \<Rightarrow> (ImportEntry \<Rightarrow> ('w, ConfigDefinition) ld) \<Rightarrow> string \<Rightarrow>
     ImportEntry list \<Rightarrow> ConfigDefinition \<Rightarrow> ('w, ConfigDefinition) ld" where
  "parseImports p ld importDir [] base = op_return base"
| "parseImports p ld importDir (entry # es) base =
     op_bind (import_one p ld importDir entry base) (parseImports p ld importDir es)"

definition visit_source :: "string \<Rightarrow> ('w, unit) ld" where
  "visit_source src = op_modify (\<lambda>s. s\<lparr>lImports := insert src (lImports s)\<rparr>)"

fun load ::
  "('w, 'r, 'k, 'c) loader_params \<Rightarrow> nat \<Rightarrow> ImportEntry \<Rightarrow> ('w, ConfigDefinition) ld" where
  "load p 0 file = op_throw ErrOutOfFuel"
| "load p (Suc n) file =
     op_then (visit_source (Src file))
       (op_bind (get_config p file) (\<lambda>config.
          parseImports p (load p n) (Dir (Src file)) (cfImport config) config))"

section \<open>The recursion ends\<close>

fun out_of_fuel :: "loader_error \<Rightarrow> bool" where
  "out_of_fuel ErrOutOfFuel = True"
| "out_of_fuel (ErrInFile f e) = out_of_fuel e"
| "out_of_fuel (ErrLoadImport f e) = out_of_fuel e"
| "out_of_fuel e = False"

definition starved :: "loader_error + 'a \<Rightarrow> bool" where
  "starved r \<longleftrightarrow> (\<exists>e. r = Inl e \<and> out_of_fuel e)"

lemma starved_simps [simp]: "\<not> starved (Inr v)" "starved (Inl e) = out_of_fuel e"
  by (simp_all add: starved_def)

subsection \<open>More fuel changes nothing\<close>

text \<open>One computation extends another: it gives the same unless the other ran out of fuel.\<close>

definition ext :: "('w, 'a) ld \<Rightarrow> ('w, 'a) ld \<Rightarrow> bool" where
  "ext m m' \<longleftrightarrow> (\<forall>s. \<not> starved (fst (m s)) \<longrightarrow> m' s = m s)"

named_theorems ext_intros \<open>computations extended by computations\<close>

lemma ext_refl [ext_intros]: "ext m m"
  by (simp add: ext_def)

lemma ext_bind [ext_intros]:
  assumes "ext m m'" and "\<And>v. ext (h v) (h' v)"
  shows "ext (op_bind m h) (op_bind m' h')"
  unfolding ext_def
proof (intro allI impI)
  fix s assume n: "\<not> starved (fst (op_bind m h s))"
  obtain r s1 where r: "m s = (r, s1)" by (cases "m s")
  show "op_bind m' h' s = op_bind m h s"
  proof (cases r)
    case (Inl e)
    with n r assms(1) have "m' s = m s" by (simp add: ext_def op_bind_def)
    with r Inl show ?thesis by (simp add: op_bind_def)
  next
    case (Inr v)
    with r assms(1) have m: "m' s = m s" by (simp add: ext_def)
    from n r Inr have "\<not> starved (fst (h v s1))" by (simp add: op_bind_def)
    with assms(2) have "h' v s1 = h v s1" by (simp add: ext_def)
    with m r Inr show ?thesis by (simp add: op_bind_def)
  qed
qed

lemma ext_then [ext_intros]: "ext m m' \<Longrightarrow> ext n n' \<Longrightarrow> ext (op_then m n) (op_then m' n')"
  unfolding op_then_def by (rule ext_bind)

lemma ext_map_error [ext_intros]:
  "(\<And>e. out_of_fuel (f e) = out_of_fuel e) \<Longrightarrow> ext m m' \<Longrightarrow> ext (op_map_error f m) (op_map_error f m')"
  by (fastforce simp: ext_def op_map_error_def split: prod.splits sum.splits)

lemma ext_if [ext_intros]: "ext m m' \<Longrightarrow> ext n n' \<Longrightarrow> ext (if b then m else n) (if b then m' else n')"
  by simp

lemma ext_load_files: "(\<And>e. ext (ld e) (ld' e)) \<Longrightarrow> ext (load_files ld fs cm) (load_files ld' fs cm)"
  by (induction fs arbitrary: cm) (auto intro!: ext_intros)

lemma ext_loadDir: "(\<And>e. ext (ld e) (ld' e)) \<Longrightarrow> ext (loadDir p ld d) (loadDir p ld' d)"
  unfolding loadDir_def by (intro ext_intros ext_load_files)

lemma ext_import_one:
  assumes "\<And>e. ext (ld e) (ld' e)"
  shows "ext (import_one p ld d e b) (import_one p ld' d e b)"
proof -
  have s: "ext (case st of Inl e \<Rightarrow> a e | Inr v \<Rightarrow> f v) (case st of Inl e \<Rightarrow> a e | Inr v \<Rightarrow> g v)"
    if "\<And>v. ext (f v) (g v)" for st :: "string + bool" and a f g
    using that by (auto intro: ext_refl split: sum.split)
  show ?thesis
    unfolding import_one_def Let_def
    by (intro ext_intros ext_loadDir s assms) simp_all
qed

lemma ext_parseImports:
  "(\<And>e. ext (ld e) (ld' e)) \<Longrightarrow> ext (parseImports p ld d es b) (parseImports p ld' d es b)"
  by (induction es arbitrary: b) (auto intro!: ext_intros ext_import_one)

lemma ext_load: "ext (load p n e) (load p (n + k) e)"
proof (induction n arbitrary: e)
  case 0
  show ?case by (simp add: ext_def op_throw_def)
next
  case (Suc n)
  show ?case by (simp del: op_then_def) (intro ext_intros ext_parseImports Suc)
qed

subsection \<open>Enough fuel\<close>

text \<open>
  The configurations that can arrive, and a set of sources that is closed under the imports of
  these configurations.
\<close>

definition configs :: "('w, 'r, 'k, 'c) loader_params \<Rightarrow> ConfigDefinition set" where
  "configs p = insert EmptyConfig
     ({c. \<exists>x. lp_decode p x = Inr (Some c)} \<union> {c. \<exists>x. lp_unmarshal p x = Inr c})"

definition target :: "('w, 'r, 'k, 'c) loader_params \<Rightarrow> string \<Rightarrow> string \<Rightarrow> string" where
  "target p dir src = (if remote p src then src else import_file dir src)"

definition closed_sources :: "('w, 'r, 'k, 'c) loader_params \<Rightarrow> string set \<Rightarrow> bool" where
  "closed_sources p U \<longleftrightarrow>
     (\<forall>src \<in> U. \<forall>cfg \<in> configs p. \<forall>e \<in> set (cfImport cfg).
        target p (Dir src) (Src e) \<in> U \<and>
        (\<forall>w. set (io_glob (lp_io p) w (yaml_pattern (target p (Dir src) (Src e)))) \<subseteq> U))"

text \<open>
  What a computation does to the visited sources: they grow, stay in \<open>U\<close>, and when it runs out
  of \<open>n\<close> units of fuel, \<open>n\<close> sources have been added.
\<close>

definition deep_at :: "string set \<Rightarrow> nat \<Rightarrow> ('w, 'a) ld \<Rightarrow> 'w lstate \<Rightarrow> bool" where
  "deep_at U n m s \<longleftrightarrow> (\<forall>r s'. m s = (r, s') \<longrightarrow>
     lImports s \<subseteq> lImports s' \<and> finite (lImports s' - lImports s) \<and>
     (lImports s \<subseteq> U \<longrightarrow> lImports s' \<subseteq> U) \<and>
     (starved r \<longrightarrow> n \<le> card (lImports s' - lImports s)))"

lemma deep_at_basic:
  "deep_at U n (op_return v) s" "deep_at U n (op_get f) s"
  "\<not> out_of_fuel e \<Longrightarrow> deep_at U n (op_throw e) s"
  "\<not> starved r \<Longrightarrow> deep_at U n (op_lift r) s"
  by (auto simp: deep_at_def op_simps)

lemma deep_at_bind:
  assumes m: "deep_at U n m s"
    and h: "\<And>v s1. m s = (Inr v, s1) \<Longrightarrow> deep_at U n (h v) s1"
  shows "deep_at U n (op_bind m h) s"
  unfolding deep_at_def
proof (intro allI impI)
  fix r s' assume b: "op_bind m h s = (r, s')"
  obtain r1 s1 where m1: "m s = (r1, s1)" by (cases "m s")
  note d = m [unfolded deep_at_def, rule_format, OF m1]
  show "lImports s \<subseteq> lImports s' \<and> finite (lImports s' - lImports s) \<and>
     (lImports s \<subseteq> U \<longrightarrow> lImports s' \<subseteq> U) \<and>
     (starved r \<longrightarrow> n \<le> card (lImports s' - lImports s))"
  proof (cases r1)
    case (Inl e)
    with b m1 have "r = Inl e" "s' = s1" by (auto simp: op_bind_def)
    with d Inl show ?thesis by simp
  next
    case (Inr v)
    with b m1 have "h v s1 = (r, s')" by (simp add: op_bind_def)
    note e = h [OF m1 [unfolded Inr], unfolded deep_at_def, rule_format, OF this]
    have sub: "lImports s' - lImports s1 \<subseteq> lImports s' - lImports s" using d by blast
    have fin: "finite (lImports s' - lImports s)"
      by (rule finite_subset [of _ "(lImports s' - lImports s1) \<union> (lImports s1 - lImports s)"])
        (use d e in auto)
    have "card (lImports s' - lImports s1) \<le> card (lImports s' - lImports s)"
      by (rule card_mono [OF fin sub])
    with d e fin show ?thesis by auto
  qed
qed

lemma deep_at_get: "deep_at U n (h (f s)) s \<Longrightarrow> deep_at U n (op_bind (op_get f) h) s"
  by (simp add: deep_at_def op_bind_def op_get_def)

lemma deep_at_map_error:
  "(\<And>e. out_of_fuel (f e) = out_of_fuel e) \<Longrightarrow> deep_at U n m s \<Longrightarrow> deep_at U n (op_map_error f m) s"
  by (auto simp: deep_at_def op_map_error_def starved_def split: prod.splits sum.splits)

lemma deep_at_merge: "deep_at U n (merge_op base cfg path) s"
  unfolding merge_op_def by (rule deep_at_basic) (simp split: sum.split)

text \<open>The readers change the world only, do not run out of fuel, and give configurations of
  \<open>configs\<close>.\<close>

definition reads :: "('w, 'r, 'k, 'c) loader_params \<Rightarrow> ('w, ConfigDefinition option) ld \<Rightarrow> bool" where
  "reads p m \<longleftrightarrow> (\<forall>s r s'. m s = (r, s') \<longrightarrow> lImports s' = lImports s \<and> lDir s' = lDir s \<and> \<not> starved r \<and>
     (\<forall>c. r = Inr (Some c) \<longrightarrow> c \<in> configs p))"

lemma readsD: "reads p m \<Longrightarrow> m s = (r, s') \<Longrightarrow>
    lImports s' = lImports s \<and> lDir s' = lDir s \<and> \<not> starved r \<and> (\<forall>c. r = Inr (Some c) \<longrightarrow> c \<in> configs p)"
  unfolding reads_def by blast

lemma reads_or: "reads p m \<Longrightarrow> reads p n \<Longrightarrow> reads p (or_read m n)"
  unfolding reads_def or_read_def op_bind_def op_return_def
  by (fastforce split: prod.splits sum.splits option.splits)

lemma reads_None: "reads p (op_return None)"
  by (simp add: reads_def op_return_def)

lemma reads_if: "reads p m \<Longrightarrow> reads p n \<Longrightarrow> reads p (if b then m else n)"
  by simp

lemma configs_mem:
  "EmptyConfig \<in> configs p" "lp_decode p x = Inr (Some c) \<Longrightarrow> c \<in> configs p"
  "lp_unmarshal p x = Inr c \<Longrightarrow> c \<in> configs p"
  by (auto simp: configs_def)

lemma write_import_reads: "reads p (op_bind (write_import p e c) (\<lambda>_. op_return (Some EmptyConfig)))"
  by (auto simp: reads_def op_bind_def op_return_def write_import_def on_world_def configs_mem
      split: prod.splits sum.splits)

lemma readURL_reads: "reads p (readURL p e)"
  unfolding reads_def
proof (intro allI impI)
  fix s r s' assume a: "readURL p e s = (r, s')"
  show "lImports s' = lImports s \<and> lDir s' = lDir s \<and> \<not> starved r \<and> (\<forall>c. r = Inr (Some c) \<longrightarrow> c \<in> configs p)"
  proof (cases "IsFileImport e")
    case True
    with a readsD [OF write_import_reads [of p e]] show ?thesis
      by (fastforce simp: readURL_def Let_def split: sum.splits prod.splits if_splits)
  next
    case False
    with a show ?thesis
      by (auto simp: readURL_def Let_def configs_mem split: sum.splits prod.splits if_splits)
  qed
qed

lemma readFile_reads: "reads p (readFile p e)"
  unfolding reads_def
proof (intro allI impI)
  fix s r s' assume a: "readFile p e s = (r, s')"
  show "lImports s' = lImports s \<and> lDir s' = lDir s \<and> \<not> starved r \<and> (\<forall>c. r = Inr (Some c) \<longrightarrow> c \<in> configs p)"
  proof (cases "IsFileImport e")
    case True
    with a readsD [OF write_import_reads [of p e]] show ?thesis
      by (auto simp: readFile_def split: option.splits)
  next
    case False
    with a show ?thesis
      by (auto simp: readFile_def configs_mem split: sum.splits option.splits)
  qed
qed

lemma get_file_reads: "reads p (get_file p e)"
  using readFile_reads [of p e] by (auto simp: get_file_def reads_def split: if_splits)

lemma cache_Get_configs:
  assumes "cache_Get io (lp_unmarshal p) EmptyConfig d e w = (Inr c, w')"
  shows "c \<in> configs p"
  using assms configs_mem
  by (auto simp: cache_Get_def split: option.splits if_splits sum.splits prod.splits)

lemma cached_reads: "reads p (cached p e)"
  unfolding reads_def cached_def using cache_Get_configs [of "lp_io p" p _ e]
  by (auto split: prod.splits sum.splits)

lemma git_Config_configs:
  assumes "git_Config g io (lp_decode p) EmptyConfig d gs r w = (Inr (Some c), w')"
  shows "c \<in> configs p"
  using assms configs_mem
  by (auto simp: git_Config_def Let_def split: if_splits sum.splits prod.splits)

lemma read_git_reads: "reads p (read_git p e)"
  unfolding reads_def read_git_def on_world_def using git_Config_configs [of "lp_git p" "lp_io p" p]
  by (auto split: prod.splits sum.splits)

lemmas all_reads = reads_or reads_if reads_None readURL_reads cached_reads read_git_reads get_file_reads

lemma get_config_reads:
  assumes "get_config p e s = (r, s')"
  shows "lImports s' = lImports s \<and> lDir s' = lDir s \<and> \<not> starved r \<and> (\<forall>c. r = Inr c \<longrightarrow> c \<in> configs p)"
proof -
  let ?m = "or_read (get_url p e) (or_read (get_git p e) (get_file p e))"
  have "reads p ?m" unfolding get_url_def get_git_def by (intro all_reads)
  moreover obtain r1 s1 where m: "?m s = (r1, s1)" by (cases "?m s")
  ultimately have d: "lImports s1 = lImports s \<and> lDir s1 = lDir s \<and> \<not> starved r1 \<and>
      (\<forall>c. r1 = Inr (Some c) \<longrightarrow> c \<in> configs p)"
    by (rule readsD)
  with m assms show ?thesis
    by (cases r1) (auto simp: get_config_def op_map_error_def op_bind_def op_return_def configs_mem
        split: option.splits)
qed

lemma deep_at_load_files:
  assumes ld: "\<And>e s. Src e \<in> U \<Longrightarrow> Src e \<notin> lImports s \<Longrightarrow> deep_at U n (ld e) s"
    and "set fs \<subseteq> U"
  shows "deep_at U n (load_files ld fs cm) s"
  using assms(2)
proof (induction fs arbitrary: cm s)
  case Nil
  show ?case by (simp add: deep_at_basic)
next
  case (Cons f fs)
  then have f: "f \<in> U" and IH: "\<And>cm s. deep_at U n (load_files ld fs cm) s" by auto
  have "deep_at U n (op_map_error (ErrLoadImport f) (ld (plain_import f))) s" if "f \<notin> lImports s" for s
    using ld [of "plain_import f"] f that by (intro deep_at_map_error) (auto simp: plain_import_def)
  then have "deep_at U n (op_bind (op_map_error (ErrLoadImport f) (ld (plain_import f))) (\<lambda>cml.
      op_bind (merge_op cm cml f) (load_files ld fs))) s" if "f \<notin> lImports s" for s
    using that by (intro deep_at_bind deep_at_merge IH)
  with IH show ?case by (auto intro!: deep_at_get)
qed

lemma deep_at_import_one:
  assumes ld: "\<And>e s. Src e \<in> U \<Longrightarrow> Src e \<notin> lImports s \<Longrightarrow> deep_at U n (ld e) s"
    and t: "target p d (Src e) \<in> U" and g: "\<And>w. set (io_glob (lp_io p) w (yaml_pattern (target p d (Src e)))) \<subseteq> U"
  shows "deep_at U n (import_one p ld d e base) s"
proof (cases "remote p (Src e)")
  case True
  with t have u: "Src e \<in> U" by (simp add: target_def)
  have "deep_at U n (op_bind (op_map_error (ErrLoadImport (Src e)) (ld e)) (\<lambda>cfg. merge_op base cfg (Src e))) s"
    if "Src e \<notin> lImports s"
    using ld [OF u that] by (intro deep_at_bind deep_at_map_error deep_at_merge) simp_all
  with True show ?thesis
    unfolding import_one_def by (intro deep_at_get) (simp add: deep_at_basic)
next
  case False
  let ?f = "import_file d (Src e)"
  from False t g have u: "?f \<in> U" and q: "\<And>w. set (io_glob (lp_io p) w (yaml_pattern ?f)) \<subseteq> U"
    by (simp_all add: target_def)
  have one: "deep_at U n (op_bind (op_map_error (ErrLoadImport ?f) (ld (e\<lparr>Src := ?f\<rparr>)))
      (\<lambda>cfg. merge_op base cfg ?f)) s" if "?f \<notin> lImports s"
    using ld [of "e\<lparr>Src := ?f\<rparr>" s] u that by (intro deep_at_bind deep_at_map_error deep_at_merge) simp_all
  have "deep_at U n (loadDir p ld ?f) s"
    unfolding loadDir_def by (intro deep_at_get deep_at_load_files ld q)
  then have dir: "deep_at U n (op_bind (op_map_error (ErrLoadImport ?f) (loadDir p ld ?f))
      (\<lambda>cfg. merge_op base cfg ?f)) s"
    by (intro deep_at_bind deep_at_map_error deep_at_merge) simp_all
  show ?thesis
    unfolding import_one_def Let_def using False one dir
    by (intro deep_at_get) (auto simp: deep_at_basic intro!: deep_at_get split: sum.split)
qed

lemma deep_at_parseImports:
  assumes ld: "\<And>e s. Src e \<in> U \<Longrightarrow> Src e \<notin> lImports s \<Longrightarrow> deep_at U n (ld e) s"
    and es: "\<forall>e \<in> set es. target p d (Src e) \<in> U \<and>
      (\<forall>w. set (io_glob (lp_io p) w (yaml_pattern (target p d (Src e)))) \<subseteq> U)"
  shows "deep_at U n (parseImports p ld d es base) s"
  using es
proof (induction es arbitrary: base s)
  case Nil
  show ?case by (simp add: deep_at_basic)
next
  case (Cons e es)
  have one: "deep_at U n (import_one p ld d e base) s" for base s
    using Cons.prems by (intro deep_at_import_one ld) auto
  have "deep_at U n (parseImports p ld d es base) s" for base s
    using Cons.prems by (intro Cons.IH) simp
  then show ?case unfolding parseImports.simps by (intro deep_at_bind one)
qed

lemma load_deep:
  assumes U: "closed_sources p U" and "Src e \<in> U" "Src e \<notin> lImports s"
  shows "deep_at U n (load p n e) s"
  using assms(2,3)
proof (induction n arbitrary: e s)
  case 0
  show ?case by (simp add: deep_at_def op_throw_def)
next
  case (Suc n)
  let ?s1 = "s\<lparr>lImports := insert (Src e) (lImports s)\<rparr>"
  let ?m = "op_bind (get_config p e) (\<lambda>config. parseImports p (load p n) (Dir (Src e)) (cfImport config) config)"
  have m: "deep_at U n ?m ?s1"
  proof (rule deep_at_bind)
    show "deep_at U n (get_config p e) ?s1"
      unfolding deep_at_def
    proof (intro allI impI)
      fix r s' assume "get_config p e ?s1 = (r, s')"
      from get_config_reads [OF this] have "lImports s' = lImports ?s1" "\<not> starved r" by auto
      then show "lImports ?s1 \<subseteq> lImports s' \<and> finite (lImports s' - lImports ?s1) \<and>
         (lImports ?s1 \<subseteq> U \<longrightarrow> lImports s' \<subseteq> U) \<and>
         (starved r \<longrightarrow> n \<le> card (lImports s' - lImports ?s1))" by simp
    qed
    fix c s2 assume "get_config p e ?s1 = (Inr c, s2)"
    then have "c \<in> configs p" by (auto dest: get_config_reads)
    with U Suc.prems(1) show "deep_at U n (parseImports p (load p n) (Dir (Src e)) (cfImport c) c) s2"
      by (intro deep_at_parseImports Suc.IH) (auto simp: closed_sources_def)
  qed
  show ?case
    unfolding deep_at_def
  proof (intro allI impI)
    fix r s' assume "load p (Suc n) e s = (r, s')"
    then have "?m ?s1 = (r, s')"
      by (simp add: op_then_def visit_source_def op_modify_def op_bind_def)
    note d = m [unfolded deep_at_def, rule_format, OF this, simplified]
    have eq: "lImports s' - lImports s = insert (Src e) (lImports s' - insert (Src e) (lImports s))"
      using d Suc.prems(2) by blast
    have "card (lImports s' - lImports s) = Suc (card (lImports s' - insert (Src e) (lImports s)))"
      unfolding eq using d by (subst card_insert_disjoint) auto
    moreover have "finite (lImports s' - lImports s)" unfolding eq using d by simp
    ultimately show "lImports s \<subseteq> lImports s' \<and> finite (lImports s' - lImports s) \<and>
       (lImports s \<subseteq> U \<longrightarrow> lImports s' \<subseteq> U) \<and> (starved r \<longrightarrow> Suc n \<le> card (lImports s' - lImports s))"
      using d Suc.prems by auto
  qed
qed

lemma load_not_starved:
  assumes "closed_sources p U" "finite U" "Src e \<in> U" "lImports s \<subseteq> U" "Src e \<notin> lImports s"
    and "card U < n"
  shows "\<not> starved (fst (load p n e s))"
proof
  obtain r s' where l: "load p n e s = (r, s')" by (cases "load p n e s")
  assume "starved (fst (load p n e s))"
  with load_deep [OF assms(1,3,5), of n] l assms(4)
  have "n \<le> card (lImports s' - lImports s)" "lImports s' \<subseteq> U" by (auto simp: deep_at_def)
  moreover have "card (lImports s' - lImports s) \<le> card U"
    using assms(2) \<open>lImports s' \<subseteq> U\<close> by (intro card_mono) auto
  ultimately show False using assms(6) by simp
qed

lemma load_stable:
  assumes "\<not> starved (fst (load p n e s))" and "n \<le> m"
  shows "load p m e s = load p n e s"
  using ext_load [of p n e "m - n"] assms by (simp add: ext_def)

section \<open>What an import contributes\<close>

text \<open>A configuration keeps everything of another and has at most more tasks, pipelines and
  contexts.\<close>

definition extends_config :: "ConfigDefinition \<Rightarrow> ConfigDefinition \<Rightarrow> bool" where
  "extends_config c c' \<longleftrightarrow> cfTasks c \<subseteq>\<^sub>m cfTasks c' \<and> cfPipelines c \<subseteq>\<^sub>m cfPipelines c' \<and>
     cfContexts c \<subseteq>\<^sub>m cfContexts c' \<and>
     c' = c\<lparr>cfTasks := cfTasks c', cfPipelines := cfPipelines c', cfContexts := cfContexts c'\<rparr>"

lemma extends_refl: "extends_config c c"
  by (simp add: extends_config_def)

lemma extends_trans: "extends_config a b \<Longrightarrow> extends_config b c \<Longrightarrow> extends_config a c"
  unfolding extends_config_def by (cases a; cases b; cases c) (auto intro: map_le_trans)

lemma mergeExisting_extends:
  assumes "mergeExistingWithImported base imported path = Inr cfg"
  shows "extends_config base cfg"
proof -
  from assms have "cfg = base\<lparr>cfTasks := cfTasks cfg, cfPipelines := cfPipelines cfg, cfContexts := cfContexts cfg\<rparr>"
    by (auto simp: mergeExistingWithImported_def bind_res_Inr_iff)
  with mergeExisting_Inr(2-4) [OF assms] show ?thesis by (simp add: extends_config_def)
qed

lemma merge_op_Inr: "merge_op base cfg path s = (Inr c, s') \<Longrightarrow> extends_config base c"
  by (auto simp: merge_op_def op_lift_def split: sum.splits dest: mergeExisting_extends)

lemma import_one_Inr:
  assumes "import_one p ld d e base s = (Inr c, s')"
  shows "extends_config base c"
  using assms
  by (auto simp: import_one_def Let_def op_bind_Inr op_simps extends_refl
      split: if_splits sum.splits dest!: merge_op_Inr)

lemma parseImports_Inr:
  "parseImports p ld d es base s = (Inr c, s') \<Longrightarrow> extends_config base c"
proof (induction es arbitrary: base s)
  case Nil
  then show ?case by (simp add: op_simps extends_refl)
next
  case (Cons e es)
  then obtain b s1 where "import_one p ld d e base s = (Inr b, s1)"
    "parseImports p ld d es b s1 = (Inr c, s')" by (auto simp: op_bind_Inr)
  with Cons.IH show ?case by (blast intro: extends_trans import_one_Inr)
qed

lemma load_Inr:
  assumes "load p n e s = (Inr c, s')"
  obtains cfg s1 where "get_config p e (s\<lparr>lImports := insert (Src e) (lImports s)\<rparr>) = (Inr cfg, s1)"
    and "extends_config cfg c"
proof (cases n)
  case 0
  with assms show thesis by (simp add: op_simps)
next
  case (Suc k)
  with assms obtain cfg s1 where
    g: "get_config p e (s\<lparr>lImports := insert (Src e) (lImports s)\<rparr>) = (Inr cfg, s1)" and
    r: "parseImports p (load p k) (Dir (Src e)) (cfImport cfg) cfg s1 = (Inr c, s')"
    by (auto simp: op_then_def op_bind_Inr visit_source_def op_simps)
  show thesis by (rule that [OF g parseImports_Inr [OF r]])
qed

section \<open>Hashes of configurations\<close>

lemma IsFileImport_Hash [simp]: "IsFileImport (e\<lparr>Hash := h\<rparr>) = IsFileImport e"
  by (simp add: IsFileImport_def)

lemma get_config_ignores_hash:
  assumes "\<not> IsFileImport e"
  shows "get_config p (e\<lparr>Hash := h\<rparr>) = get_config p e"
proof -
  have nf: "IsFileImport e = False" using assms by simp
  have src: "Src (e\<lparr>Hash := h\<rparr>) = Src e" by simp
  note same = IsFileImport_Hash nf src if_False
  have c: "cached p (e\<lparr>Hash := h\<rparr>) = cached p e"
    unfolding cached_def cache_Get_def same ..
  have u: "readURL p (e\<lparr>Hash := h\<rparr>) = readURL p e"
    unfolding readURL_def same ..
  have f: "get_file p (e\<lparr>Hash := h\<rparr>) = get_file p e"
    unfolding get_file_def readFile_def same ..
  have n: "NewGitSource g (e\<lparr>Hash := h\<rparr>) =
      bind_res (NewGitSource g e) (\<lambda>gs. Inr (gs\<lparr>gsEntry := e\<lparr>Hash := h\<rparr>\<rparr>))" for g :: "('a, 'b, 'c, 'd) git_params"
    by (auto simp: NewGitSource_def Let_def split: option.split sum.split prod.split)
  have e: "gsEntry gs = e" if "NewGitSource g e = Inr gs" for g :: "('a, 'b, 'c, 'd) git_params" and gs
    using that by (auto simp: NewGitSource_def Let_def bind_res_Inr_iff split: option.splits sum.splits if_splits)
  have "read_git p (e\<lparr>Hash := h\<rparr>) s = read_git p e s" for s
  proof (cases "NewGitSource (lp_git p) e")
    case (Inl x)
    then show ?thesis by (simp add: read_git_def n)
  next
    case (Inr gs)
    note en = e [OF Inr]
    have ge: "gsEntry (gs\<lparr>gsEntry := x\<rparr>) = x" "gsTag (gs\<lparr>gsEntry := x\<rparr>) = gsTag gs"
      "gsYamlPath (gs\<lparr>gsEntry := x\<rparr>) = gsYamlPath gs" for x by simp_all
    have "git_Config (lp_git p) io dc em d (gs\<lparr>gsEntry := e\<lparr>Hash := h\<rparr>\<rparr>) r w
        = git_Config (lp_git p) io dc em d gs r w" for io dc and em :: ConfigDefinition and d r w
      unfolding git_Config_def git_File_def git_tree_def getCommit_def ge en same ..
    with Inr show ?thesis by (simp add: read_git_def n Clone_def split: sum.split)
  qed
  then have "read_git p (e\<lparr>Hash := h\<rparr>) = read_git p e" by (simp add: fun_eq_iff)
  with c u f show ?thesis by (simp add: get_config_def get_url_def get_git_def)
qed

section \<open>Properties\<close>

text \<open>Two files that import each other, in a world where nothing else can be reached.\<close>

definition loop_config :: ConfigDefinition where
  "loop_config = EmptyConfig\<lparr>cfImport := [plain_import ''/a'', plain_import ''/b'']\<rparr>"

definition loop_io :: "unit io" where
  "loop_io = \<lparr>io_home = ''/h'', io_sha256 = \<lambda>c. c, io_exists = \<lambda>w p. True, io_stat = \<lambda>w p. Inr False,
     io_open = \<lambda>w p. Some '''', io_glob = \<lambda>w p. [], io_mkdir = \<lambda>p w. (False, w),
     io_create = \<lambda>p w. (False, w), io_write = \<lambda>p c w. (Some 0, w)\<rparr>"

definition loop_params :: "(unit, unit, unit, unit) loader_params" where
  "loop_params = \<lparr>lp_io = loop_io, lp_git = no_git, lp_url_err = \<lambda>s. False,
     lp_http = \<lambda>u w. Inr (200, ''body''), lp_decode = \<lambda>s. Inr (Some loop_config),
     lp_unmarshal = \<lambda>s. Inr loop_config\<rparr>"

definition start_state :: "unit lstate" where
  "start_state = \<lparr>lImports = {}, lDir = ''/'', lWorld = ()\<rparr>"

lemma loop_configs: "configs loop_params = {EmptyConfig, loop_config}"
  by (auto simp: configs_def loop_params_def)

lemma loop_closed: "closed_sources loop_params {''/a'', ''/b''}"
proof -
  have r: "\<not> remote p ''/a''" "\<not> remote p ''/b''" for p :: "(unit, unit, unit, unit) loader_params"
    by (simp_all add: remote_def IsURL_def IsGit_def gitPrefix_def HasPrefix_def is_lower_def
        is_upper_def is_digit_def byte_def)
  have "target loop_params d ''/a'' = ''/a''" "target loop_params d ''/b'' = ''/b''" for d
    by (simp_all add: target_def r import_file_def)
  moreover have "set (cfImport loop_config) = {plain_import ''/a'', plain_import ''/b''}"
    "cfImport EmptyConfig = []" "\<And>x. Src (plain_import x) = x"
    by (simp_all add: loop_config_def EmptyConfig_def plain_import_def)
  moreover have "io_glob (lp_io loop_params) w q = []" for w q
    by (simp add: loop_params_def loop_io_def)
  ultimately show ?thesis by (auto simp: closed_sources_def loop_configs)
qed



text \<open>C22. A file's own definitions are never changed by its imports: a loaded configuration is the one
  that was read from the source with at most further tasks, pipelines and contexts. Nothing
  else of an imported file (watchers, variables, output and flags) has an effect.\<close>

theorem load_keeps_own_definitions:
  assumes "load p n e s = (Inr c, s')"
  shows "\<exists>cfg s1. get_config p e (s\<lparr>lImports := insert (Src e) (lImports s)\<rparr>) = (Inr cfg, s1) \<and>
    extends_config cfg c"
  using load_Inr [OF assms] by blast

lemma loop_get: "get_config loop_params (plain_import ''/a'') s = (Inr loop_config, s)"
proof -
  have "\<not> IsURL loop_params ''/a''" "\<not> IsGit ''/a''"
    by (simp_all add: IsURL_def IsGit_def gitPrefix_def HasPrefix_def is_lower_def is_upper_def
        is_digit_def byte_def)
  then show ?thesis
    by (simp add: get_config_def get_url_def get_git_def get_file_def readFile_def or_read_def
        op_bind_def op_return_def op_map_error_def plain_import_def IsFileImport_def loop_params_def loop_io_def)
qed

lemma loop_visited:
  "import_one loop_params ld d (plain_import f) b s = (Inr b, s)" if "f \<in> lImports s" "IsAbs f" "\<not> remote loop_params f"
  using that by (simp add: import_one_def plain_import_def import_file_def op_bind_def op_get_def
      op_return_def Let_def)

theorem load_keeps_own_definitions_witness:
  "\<exists>c s'. load loop_params (Suc 9) (plain_import ''/a'') (start_state\<lparr>lImports := {''/b''}\<rparr>) = (Inr c, s') \<and>
     extends_config loop_config c"
proof -
  let ?s = "start_state\<lparr>lImports := {''/b''}\<rparr>" and ?e = "plain_import ''/a''"
  have r: "\<not> remote loop_params ''/a''" "\<not> remote loop_params ''/b''"
    by (simp_all add: remote_def IsURL_def IsGit_def gitPrefix_def HasPrefix_def is_lower_def
        is_upper_def is_digit_def byte_def)
  let ?s1 = "?s\<lparr>lImports := {''/a'', ''/b''}\<rparr>"
  have i: "Src ?e = ''/a''" "cfImport loop_config = [?e, plain_import ''/b'']"
    by (simp_all add: plain_import_def loop_config_def)
  have "IsAbs ''/a''" "IsAbs ''/b''" by simp_all
  then have q: "parseImports loop_params (load loop_params 9) (Dir ''/a'') (cfImport loop_config) loop_config ?s1
      = (Inr loop_config, ?s1)"
    by (simp add: i op_bind_def loop_visited r op_return_def)
  have "?s\<lparr>lImports := insert ''/a'' (lImports ?s)\<rparr> = ?s1" by simp
  with q have l: "load loop_params (Suc 9) ?e ?s = (Inr loop_config, ?s1)"
    by (simp only: load.simps op_then_def op_bind_def visit_source_def op_modify_def loop_get i
        prod.case sum.case)
  from load_keeps_own_definitions [OF l] obtain cfg s1 where
    "get_config loop_params ?e (?s\<lparr>lImports := insert (Src ?e) (lImports ?s)\<rparr>) = (Inr cfg, s1)"
    "extends_config cfg loop_config" by blast
  then have "extends_config loop_config loop_config" by (simp add: loop_get)
  with l show ?thesis by blast
qed

text \<open>The hash of a configuration import is never looked at: with any hash, or none, the import
  loads the same configuration. Only file imports are verified.\<close>

theorem config_hash_never_checked:
  assumes "\<not> IsFileImport e"
  shows "load p n (e\<lparr>Hash := h\<rparr>) = load p n e"
  by (cases n) (simp_all add: get_config_ignores_hash [OF assms])

theorem config_hash_never_checked_witness:
  "load loop_params 10 \<lparr>Src = ''/a'', Hash = ''sha256:00'', Dest = ''''\<rparr> = load loop_params 10 (plain_import ''/a'')"
  using config_hash_never_checked [of "plain_import ''/a''" loop_params 10 "''sha256:00''"]
  by (simp add: plain_import_def IsFileImport_def)

text \<open>What was downloaded is lost when the cache cannot be written: the content reaches the
  destination only through the copy into the cache, whose failure is merely logged. A file
  import then writes an empty file and succeeds as if nothing had happened.\<close>

theorem failed_cache_loses_download:
  assumes "lp_http p (Src e) (lWorld s) = Inr (200, body)"
    and "io_mkdir (lp_io p) (Dir (getCachePath (lp_io p) (Src e))) (lWorld s) = (False, w)"
    and "IsFileImport e"
  shows "readURL p e s =
    op_bind (write_import p e '''') (\<lambda>_. op_return (Some EmptyConfig)) (s\<lparr>lWorld := w\<rparr>)"
  using assms by (simp add: readURL_def cache_Store_def Let_def)

theorem failed_cache_loses_download_witness:
  "readURL loop_params \<lparr>Src = ''http://h'', Hash = '''', Dest = ''d''\<rparr> start_state =
    op_bind (write_import loop_params \<lparr>Src = ''http://h'', Hash = '''', Dest = ''d''\<rparr> '''')
      (\<lambda>_. op_return (Some EmptyConfig)) (start_state\<lparr>lWorld := ()\<rparr>)"
  by (rule failed_cache_loses_download [of _ _ _ "''body''"])
    (simp_all add: loop_params_def loop_io_def IsFileImport_def)

text \<open>One source has one destination: of two file imports of the same source the second is skipped
  as already visited, whatever its destination is, and nothing is written for it.\<close>

theorem second_destination_skipped:
  assumes "remote p (Src e)" "Src e \<in> lImports s"
  shows "import_one p ld d (e\<lparr>Dest := dest\<rparr>) base s = (Inr base, s)"
  using assms by (simp add: import_one_def op_bind_def op_get_def op_return_def)

theorem second_destination_skipped_witness:
  "import_one loop_params (load loop_params 10) ''/'' \<lparr>Src = ''git::x'', Hash = '''', Dest = ''second''\<rparr> EmptyConfig
     (start_state\<lparr>lImports := {''git::x''}\<rparr>) = (Inr EmptyConfig, start_state\<lparr>lImports := {''git::x''}\<rparr>)"
  using second_destination_skipped [of loop_params "plain_import ''git::x''" "start_state\<lparr>lImports := {''git::x''}\<rparr>"]
  by (simp add: plain_import_def remote_def IsGit_def gitPrefix_def HasPrefix_def)

end
