(* ===== verification/Watch.thy ===== *)
theory Watch
  imports RunCancel
begin

text \<open>
  \<open>internal/watch/watch.go\<close>: the construction of a file watcher, and what its goroutines do with
  the task runner. \<open>doublestar\<close> and \<open>fsnotify\<close> are in the record \<open>watch_params\<close>. The running
  watcher is a step relation over the cancellation protocol of theory \<open>RunCancel\<close>: the first
  run of the task, and one handler per accepted event, which cancels the runner and runs the
  task again.
\<close>

section \<open>Construction\<close>

record watch_params =
  wp_fsnotify :: "string option"
  wp_glob :: "string \<Rightarrow> string + string list"
  wp_match :: "string \<Rightarrow> string \<Rightarrow> string + bool"

record Watcher =
  wName :: string
  wPaths :: "string list"
  wEvents :: "string set"
  wTask :: ref

definition all_events :: "string list" where
  "all_events = [''create'', ''write'', ''remove'', ''rename'', ''chmod'']"

fun excluded_path :: "watch_params \<Rightarrow> string list \<Rightarrow> string \<Rightarrow> string + bool" where
  "excluded_path p [] path = Inr False"
| "excluded_path p (e # es) path =
     bind_res (wp_match p e path) (\<lambda>matched. if matched then Inr True else excluded_path p es path)"

fun keep_paths :: "watch_params \<Rightarrow> string list \<Rightarrow> string list \<Rightarrow> string + string list" where
  "keep_paths p exclude [] = Inr []"
| "keep_paths p exclude (path # rest) =
     bind_res (excluded_path p exclude path) (\<lambda>ex.
     bind_res (keep_paths p exclude rest) (\<lambda>ps. Inr (if ex then ps else path # ps)))"

fun watch_paths :: "watch_params \<Rightarrow> string list \<Rightarrow> string list \<Rightarrow> string + string list" where
  "watch_paths p exclude [] = Inr []"
| "watch_paths p exclude (pattern # rest) =
     bind_res (wp_glob p pattern) (\<lambda>matches.
     bind_res (keep_paths p exclude matches) (\<lambda>ps.
     bind_res (watch_paths p exclude rest) (\<lambda>qs. Inr (ps @ qs))))"

definition NewWatcher ::
  "watch_params \<Rightarrow> string \<Rightarrow> string list \<Rightarrow> string list \<Rightarrow> string list \<Rightarrow> ref \<Rightarrow> string + Watcher" where
  "NewWatcher p name events watch exclude t =
     (case wp_fsnotify p of
        Some e \<Rightarrow> Inl e
      | None \<Rightarrow>
          bind_res (watch_paths p exclude watch) (\<lambda>paths.
            Inr \<lparr>wName = name, wPaths = paths,
                 wEvents = set (if length events = 0 then all_events else events), wTask = t\<rparr>))"

text \<open>\<open>fsnotifyMap\<close>: an event that is several operations at once has no entry, which gives the
  empty name.\<close>

datatype fs_op = Create | Write | Remove | Rename | Chmod | Combined

fun fsnotify_name :: "fs_op \<Rightarrow> string" where
  "fsnotify_name Create = ''create''"
| "fsnotify_name Write = ''write''"
| "fsnotify_name Remove = ''remove''"
| "fsnotify_name Rename = ''rename''"
| "fsnotify_name Chmod = ''chmod''"
| "fsnotify_name Combined = ''''"

definition accepts :: "Watcher \<Rightarrow> fs_op \<Rightarrow> bool" where
  "accepts w ev \<longleftrightarrow> fsnotify_name ev \<in> wEvents w"

text \<open>What \<open>handle\<close> puts into the task before it runs it again.\<close>

definition event_task :: "Task \<Rightarrow> string \<Rightarrow> string \<Rightarrow> Task" where
  "event_task t eventName path =
     t\<lparr>tEnv := Merge (tEnv t) (FromMap [''EventName'' \<mapsto> eventName, ''EventPath'' \<mapsto> path]),
       tVariables := Merge (tVariables t) (FromMap [''EVENT_NAME'' \<mapsto> eventName, ''EVENT_PATH'' \<mapsto> path])\<rparr>"

section \<open>The running watcher\<close>

text \<open>The handlers that wait in \<open>Cancel\<close>, that have come back from it, that run the task, and that
  have finished.\<close>

record watch_state =
  wsRunner :: runner_cancel
  wsStarted :: bool
  wsWaiting :: nat
  wsReady :: nat
  wsRunning :: nat
  wsFinished :: nat

definition watch_start :: watch_state where
  "watch_start = \<lparr>wsRunner = fresh_runner, wsStarted = False, wsWaiting = 0, wsReady = 0,
     wsRunning = 0, wsFinished = 0\<rparr>"

inductive watch_step :: "Watcher \<Rightarrow> watch_state \<Rightarrow> watch_state \<Rightarrow> bool" for w where
  w_first: "\<not> wsStarted s \<Longrightarrow> cancel_step (wsRunner s) RunStart r \<Longrightarrow>
    watch_step w s (s\<lparr>wsRunner := r, wsStarted := True\<rparr>)"
| w_first_end: "wsRunning s < inFlight (wsRunner s) \<Longrightarrow> cancel_step (wsRunner s) RunEnd r \<Longrightarrow>
    watch_step w s (s\<lparr>wsRunner := r\<rparr>)"
| w_ignored: "\<not> accepts w ev \<Longrightarrow> \<not> crashed (wsRunner s) \<Longrightarrow> watch_step w s s"
| w_event: "accepts w ev \<Longrightarrow> cancel_step (wsRunner s) CancelCall r \<Longrightarrow>
    watch_step w s (s\<lparr>wsRunner := r, wsWaiting := wsWaiting s + 1\<rparr>)"
| w_cancelled: "0 < wsWaiting s \<Longrightarrow> cancel_step (wsRunner s) CancelReturn r \<Longrightarrow>
    watch_step w s (s\<lparr>wsRunner := r, wsWaiting := wsWaiting s - 1, wsReady := wsReady s + 1\<rparr>)"
| w_rerun: "0 < wsReady s \<Longrightarrow> cancel_step (wsRunner s) RunStart r \<Longrightarrow>
    watch_step w s (s\<lparr>wsRunner := r, wsReady := wsReady s - 1, wsRunning := wsRunning s + 1\<rparr>)"
| w_rerun_end: "0 < wsRunning s \<Longrightarrow> cancel_step (wsRunner s) RunEnd r \<Longrightarrow>
    watch_step w s (s\<lparr>wsRunner := r, wsRunning := wsRunning s - 1, wsFinished := wsFinished s + 1\<rparr>)"

inductive_cases watch_step_cases: "watch_step w s t"

text \<open>Whoever has come back from \<open>Cancel\<close> has seen the channel closed, and a run that ends then
  closes it again.\<close>

definition watch_inv :: "watch_state \<Rightarrow> bool" where
  "watch_inv s \<longleftrightarrow>
     (0 < wsReady s + wsRunning s \<longrightarrow> doneClosed (wsRunner s)) \<and>
     (doneClosed (wsRunner s) \<longrightarrow> canceling (wsRunner s)) \<and>
     (0 < wsFinished s \<longrightarrow> crashed (wsRunner s))"

lemma watch_inv_start: "watch_inv watch_start"
  by (simp add: watch_inv_def watch_start_def fresh_runner_def)

lemma watch_inv_step:
  assumes "watch_step w s t" and "watch_inv s"
  shows "watch_inv t"
  using assms(1)
proof cases
  case (w_first_end r)
  from w_first_end(3) assms(2) w_first_end(1) show ?thesis
    by cases (auto simp: watch_inv_def run_end_cancel_def Let_def split: if_splits)
next
  case (w_rerun_end r)
  from w_rerun_end(3) assms(2) w_rerun_end(1,2) show ?thesis
    by cases (auto simp: watch_inv_def run_end_cancel_def Let_def split: if_splits)
next
  case (w_cancelled r)
  from w_cancelled(3) assms(2) w_cancelled(1) show ?thesis
    by cases (auto simp: watch_inv_def)
next
  case (w_first r)
  from w_first(3) assms(2) w_first(1) show ?thesis by cases (auto simp: watch_inv_def)
next
  case (w_event ev r)
  from w_event(3) assms(2) w_event(1) show ?thesis by cases (auto simp: watch_inv_def Cancel_call_def)
next
  case (w_rerun r)
  from w_rerun(3) assms(2) w_rerun(1,2) show ?thesis by cases (auto simp: watch_inv_def)
next
  case (w_ignored ev)
  with assms(2) show ?thesis by simp
qed

interpretation wi: transition_system "\<lambda>s. s = watch_start" "watch_step w" watch_inv for w
  by unfold_locales (auto intro: watch_inv_start watch_inv_step)

text \<open>A watcher never gets through a second run of its task: a handler that was let through by
  \<open>Cancel\<close> crashes the process when its run ends, since that closes the channel again.\<close>

theorem watcher_never_reruns:
  assumes "(watch_step w)\<^sup>*\<^sup>* watch_start s" and "0 < wsFinished s"
  shows "crashed (wsRunner s)"
  using wi.inv_reachable [OF refl assms(1)] assms(2) by (simp add: watch_inv_def)

text \<open>The first file event during the first run does just that.\<close>

definition any_watcher :: Watcher where
  "any_watcher = \<lparr>wName = ''w'', wPaths = [], wEvents = {''write''}, wTask = 10\<rparr>"

definition crash_state :: watch_state where
  "crash_state = \<lparr>wsRunner = \<lparr>canceling = True, doneClosed = True, inFlight = 0, blockedCancels = 0,
     crashed = True\<rparr>, wsStarted = True, wsWaiting = 0, wsReady = 0, wsRunning = 0, wsFinished = 1\<rparr>"

lemma first_event_reaches: "(watch_step any_watcher)\<^sup>*\<^sup>* watch_start crash_state"
proof -
  define r where "r c d f b = \<lparr>canceling = c, doneClosed = d, inFlight = f, blockedCancels = b, crashed = False\<rparr>"
    for c d f b
  define st where "st x a b c d = \<lparr>wsRunner = x, wsStarted = True, wsWaiting = a, wsReady = b, wsRunning = c,
    wsFinished = d\<rparr>" for x a b c d
  have "watch_step any_watcher watch_start (st (r False False 1 0) 0 0 0 0)"
    using w_first [of watch_start, OF _ c_start]
    by (simp add: watch_start_def fresh_runner_def st_def r_def)
  moreover have "watch_step any_watcher (st (r False False 1 0) 0 0 0 0) (st (r True False 1 1) 1 0 0 0)"
    using w_event [of any_watcher Write "st (r False False 1 0) 0 0 0 0", OF _ c_call]
    by (simp add: accepts_def any_watcher_def Cancel_call_def st_def r_def)
  moreover have "watch_step any_watcher (st (r True False 1 1) 1 0 0 0) (st (r True True 0 1) 1 0 0 0)"
    using w_first_end [of "st (r True False 1 1) 1 0 0 0", OF _ c_end]
    by (simp add: run_end_cancel_def Let_def st_def r_def)
  moreover have "watch_step any_watcher (st (r True True 0 1) 1 0 0 0) (st (r True True 0 0) 0 1 0 0)"
    using w_cancelled [of "st (r True True 0 1) 1 0 0 0", OF _ c_return]
    by (simp add: st_def r_def)
  moreover have "watch_step any_watcher (st (r True True 0 0) 0 1 0 0) (st (r True True 1 0) 0 0 1 0)"
    using w_rerun [of "st (r True True 0 0) 0 1 0 0", OF _ c_start]
    by (simp add: st_def r_def)
  moreover have "watch_step any_watcher (st (r True True 1 0) 0 0 1 0) crash_state"
    using w_rerun_end [of "st (r True True 1 0) 0 0 1 0", OF _ c_end]
    by (simp add: run_end_cancel_def Let_def st_def r_def crash_state_def)
  ultimately show ?thesis
    by (meson converse_rtranclp_into_rtranclp rtranclp.rtrancl_refl)
qed

theorem watcher_never_reruns_witness:
  "(watch_step any_watcher)\<^sup>*\<^sup>* watch_start crash_state \<and> crashed (wsRunner crash_state)"
  using first_event_reaches watcher_never_reruns [OF first_event_reaches] by (simp add: crash_state_def)

section \<open>The watched paths\<close>

text \<open>The watched paths are the matches of the patterns, in order, without those that match an
  exclusion.\<close>

definition glob_of :: "watch_params \<Rightarrow> string \<Rightarrow> string list" where
  "glob_of p pattern = (case wp_glob p pattern of Inl e \<Rightarrow> [] | Inr ms \<Rightarrow> ms)"

definition matches_any :: "watch_params \<Rightarrow> string list \<Rightarrow> string \<Rightarrow> bool" where
  "matches_any p exclude path \<longleftrightarrow> Inr True \<in> (\<lambda>e. wp_match p e path) ` set exclude"

lemma excluded_path_Inr: "excluded_path p es path = Inr b \<Longrightarrow> b = matches_any p es path"
  by (induction es) (auto simp: bind_res_Inr_iff matches_any_def split: if_splits)

lemma keep_paths_Inr:
  "keep_paths p ex ms = Inr ps \<Longrightarrow> ps = filter (\<lambda>m. \<not> matches_any p ex m) ms"
  by (induction ms arbitrary: ps) (auto simp: bind_res_Inr_iff dest: excluded_path_Inr)

lemma watch_paths_Inr:
  "watch_paths p ex pats = Inr ps \<Longrightarrow>
     ps = filter (\<lambda>m. \<not> matches_any p ex m) (concat (map (glob_of p) pats))"
proof (induction pats arbitrary: ps)
  case Nil
  then show ?case by simp
next
  case (Cons pat pats)
  then obtain ms qs rs where "wp_glob p pat = Inr ms" "keep_paths p ex ms = Inr qs"
    "watch_paths p ex pats = Inr rs" "ps = qs @ rs"
    by (auto simp: bind_res_Inr_iff)
  with Cons.IH [of rs] keep_paths_Inr [of p ex ms qs] show ?case by (simp add: glob_of_def)
qed

text \<open>A new watcher watches exactly what its patterns match and no exclusion matches, and with no
  events named it accepts all of them.\<close>

theorem NewWatcher_paths:
  assumes "NewWatcher p name events watch exclude t = Inr w"
  shows "wPaths w = filter (\<lambda>m. \<not> matches_any p exclude m) (concat (map (glob_of p) watch)) \<and>
    wEvents w = (if events = [] then set all_events else set events)"
  using assms
  by (auto simp: NewWatcher_def bind_res_Inr_iff split: option.splits dest: watch_paths_Inr)

end
