(* ===== verification/Build.thy ===== *)
theory Build
  imports Graph Definitions Watch
begin

text \<open>
  \<open>internal/config/task.go\<close>, \<open>pipeline.go\<close>, \<open>watcher.go\<close> and \<open>config.go\<close>: from the definitions of
  a configuration file to tasks, pipelines and watchers. Tasks, stages, graphs and env files
  are shared by pointers in the code (a stage points to the task of the configuration, and
  building it writes to that task), so they live in a store and are named by references.

  Go ranges over maps in any order: where a map is ranged over, the definitions take an
  enumeration of it. The merges of the library mergo are parameters.
\<close>

section \<open>The store\<close>

record store =
  stTasks :: "ref \<Rightarrow> Task"
  stStages :: "ref \<Rightarrow> Stage"
  stGraphs :: "ref \<Rightarrow> ExecutionGraph"
  stEnvfiles :: "ref \<Rightarrow> Envfile"
  stNext :: ref

datatype build_error =
    ErrNoSuchTask string
  | ErrNoSuchPipeline string
  | ErrStageNoName string
  | ErrForbiddenName string
  | ErrStageExists string
  | ErrGraph graph_error
  | ErrMissingDependency "(string \<times> string) list"
  | ErrNoStartingPoint string
  | ErrWatcherTask string
  | ErrWatcher string
  | ErrContext context_error
  | NilDereference

type_synonym 'a build = "(store, build_error, 'a) op"

text \<open>Each allocation takes the next reference.\<close>

definition new_task :: "Task \<Rightarrow> ref build" where
  "new_task t = (\<lambda>s. (Inr (stNext s), s\<lparr>stTasks := (stTasks s)(stNext s := t), stNext := stNext s + 1\<rparr>))"

definition new_stage :: "Stage \<Rightarrow> ref build" where
  "new_stage t = (\<lambda>s. (Inr (stNext s), s\<lparr>stStages := (stStages s)(stNext s := t), stNext := stNext s + 1\<rparr>))"

definition new_graph :: "ExecutionGraph \<Rightarrow> ref build" where
  "new_graph t = (\<lambda>s. (Inr (stNext s), s\<lparr>stGraphs := (stGraphs s)(stNext s := t), stNext := stNext s + 1\<rparr>))"

definition new_envfile :: "Envfile \<Rightarrow> ref build" where
  "new_envfile t = (\<lambda>s. (Inr (stNext s), s\<lparr>stEnvfiles := (stEnvfiles s)(stNext s := t), stNext := stNext s + 1\<rparr>))"

definition set_task :: "ref \<Rightarrow> (Task \<Rightarrow> Task) \<Rightarrow> unit build" where
  "set_task r f = op_modify (\<lambda>s. s\<lparr>stTasks := (stTasks s)(r := f (stTasks s r))\<rparr>)"

definition set_stage :: "ref \<Rightarrow> (Stage \<Rightarrow> Stage) \<Rightarrow> unit build" where
  "set_stage r f = op_modify (\<lambda>s. s\<lparr>stStages := (stStages s)(r := f (stStages s r))\<rparr>)"

definition set_graph :: "ref \<Rightarrow> (ExecutionGraph \<Rightarrow> ExecutionGraph) \<Rightarrow> unit build" where
  "set_graph r f = op_modify (\<lambda>s. s\<lparr>stGraphs := (stGraphs s)(r := f (stGraphs s r))\<rparr>)"

section \<open>Tasks\<close>

record build_params =
  bp_goos :: string
  bp_goarch :: string
  bp_tempdir :: string
  bp_merge_envfile :: "Envfile \<Rightarrow> Envfile \<Rightarrow> Envfile option"
  bp_watch :: watch_params
  bp_context :: "ContextDefinition \<Rightarrow> context_error + ExecutionContext"

text \<open>\<open>bp_context\<close> is \<open>buildContext\<close> of theory \<open>Contexts\<close> on the host's state. A failed merge of an
  env file is ignored.\<close>

definition default_vars :: "build_params \<Rightarrow> Task \<Rightarrow> variables" where
  "default_vars p t = FromVarsMap
     [''Context'' \<mapsto> GMap [(''Name'', GStr (tContext t))],
      ''Task'' \<mapsto> GMap [(''Name'', GStr (tName t))],
      ''Current'' \<mapsto> GMap [(''OS'', GStr (bp_goos p)), (''Arch'', GStr (bp_goarch p))]]"

definition setDefaultVariables :: "build_params \<Rightarrow> Task \<Rightarrow> Task" where
  "setDefaultVariables p t = t\<lparr>tVariables := Merge (tVariables t) (default_vars p t)\<rparr>"

definition buildTask :: "build_params \<Rightarrow> TaskDefinition \<Rightarrow> string \<Rightarrow> Task" where
  "buildTask p def lcDir =
     (let t = NewTask (tdName def);
          ef = NewEnvFile [];
          ef = (case tdEnvfile def of
                  None \<Rightarrow> ef
                | Some d \<Rightarrow> (case bp_merge_envfile p ef d of None \<Rightarrow> ef | Some m \<Rightarrow> m));
          t = t\<lparr>tDescription := tdDescription def, tCondition := tdCondition def,
                tCommands := tdCommand def, tVariations := tdVariations def,
                tTimeout := tdTimeout def, tAllowFailure := tdAllowFailure def,
                tAfter := tdAfter def, tBefore := tdBefore def, tArtifacts := tdArtifacts def,
                tContext := tdContext def, tInteractive := tdInteractive def,
                tResetContext := tdResetContext def, tRequired := tdRequired def,
                tEnv := Merge (FromMap (tdEnv def)) (tEnv t), tEnvFile := Some ef,
                tVariables := Merge (FromVarsMap (tdVariables def)) (tVariables t),
                tDir := (if tdDir def = '''' then lcDir else tdDir def),
                tSourceFile := tdSourceFile def, tGenerator := tdGenerator def\<rparr> in
      setDefaultVariables p t)"

section \<open>Pipelines\<close>

definition forbiddenCharSequence :: "string list" where
  "forbiddenCharSequence = [PipelineDirectionChar]"

text \<open>What the code knows of the configuration that is being built.\<close>

record built_maps =
  bmTasks :: "string \<rightharpoonup> ref"
  bmPipelines :: "string \<rightharpoonup> ref"

text \<open>The task or the pipeline of a stage; its generator options are overwritten by the stage's.\<close>

definition stage_target ::
  "PipelineDefinition \<Rightarrow> built_maps \<Rightarrow> (ref option \<times> ref option) build" where
  "stage_target def cfg =
     (if pdTask def \<noteq> '''' then
        (case bmTasks cfg (pdTask def) of
           None \<Rightarrow> op_throw (ErrNoSuchTask (pdTask def))
         | Some t \<Rightarrow> op_then (set_task t (\<lambda>t. t\<lparr>tGenerator := pdGenerator def\<rparr>)) (op_return (Some t, None)))
      else (case bmPipelines cfg (pdPipeline def) of
          None \<Rightarrow> op_throw (ErrNoSuchPipeline (pdPipeline def))
        | Some g \<Rightarrow> op_then (set_graph g (\<lambda>g. g\<lparr>gGenerator := pdGenerator def\<rparr>)) (op_return (None, Some g))))"

definition stage_opts :: "PipelineDefinition \<Rightarrow> ref option \<Rightarrow> ref option \<Rightarrow> Stage \<Rightarrow> Stage" where
  "stage_opts def t g s = s\<lparr>sCondition := pdCondition def, sTask := t, sPipeline := g,
     sDependsOn := pdDependsOn def, sDir := pdDir def, sAllowFailure := pdAllowFailure def,
     sGenerator := pdGenerator def\<rparr>"

definition stage_vars :: "PipelineDefinition \<Rightarrow> variables" where
  "stage_vars def = Set (FromVarsMap (pdVariables def)) ''.Stage.Name'' (GStr (pdName def))"

definition aliased :: "PipelineDefinition \<Rightarrow> ref option \<Rightarrow> bool" where
  "aliased def g \<longleftrightarrow> g \<noteq> None \<and> pdName def \<noteq> '''' \<and> pdPipeline def \<noteq> pdName def"

text \<open>The stage as it is when its name is settled; \<open>ef\<close> is the env file that \<open>NewStage\<close> makes,
  \<open>def_ef\<close> the one of the definition, which replaces it even when it is nil.\<close>

definition stage_of ::
  "PipelineDefinition \<Rightarrow> ref \<Rightarrow> ref option \<Rightarrow> ref option \<Rightarrow> ref option \<Rightarrow> Stage" where
  "stage_of def ef def_ef t g =
     (let s = NewStage ef (pdName def) [stage_opts def t g];
          s = (if aliased def g then s\<lparr>sAlias := pdPipeline def\<rparr> else s);
          s = WithEnvFile (WithEnv s (FromMap (pdEnv def))) def_ef in
      WithVariables s (stage_vars def))"

definition stage_name :: "PipelineDefinition \<Rightarrow> string" where
  "stage_name def =
     (if pdName def = '''' then (if pdPipeline def \<noteq> '''' then pdPipeline def else pdTask def)
      else pdName def)"

definition envfile_ref :: "Envfile option \<Rightarrow> ref option build" where
  "envfile_ref e = (case e of None \<Rightarrow> op_return None | Some e \<Rightarrow> op_bind (new_envfile e) (\<lambda>r. op_return (Some r)))"

text \<open>The directory of a stage is written to its task; a stage that runs a pipeline has none.\<close>

definition stage_dir :: "string \<Rightarrow> ref option \<Rightarrow> unit build" where
  "stage_dir dir t =
     (if dir = '''' then op_return ()
      else (case t of
          None \<Rightarrow> op_throw NilDereference
        | Some t \<Rightarrow> set_task t (\<lambda>t. t\<lparr>tDir := dir\<rparr>)))"

definition add_stage_to :: "ref \<Rightarrow> ref \<Rightarrow> Stage \<Rightarrow> unit build" where
  "add_stage_to gr sr stage = (\<lambda>s.
     case AddStage (stGraphs s gr) sr stage of
       Inl e \<Rightarrow> (Inl (ErrGraph e), s)
     | Inr g \<Rightarrow> (Inr (), s\<lparr>stGraphs := (stGraphs s)(gr := g)\<rparr>))"

definition buildStage :: "ref \<Rightarrow> built_maps \<Rightarrow> PipelineDefinition \<Rightarrow> string build" where
  "buildStage gr cfg def =
     op_bind (stage_target def cfg) (\<lambda>(t, g).
     op_bind (new_envfile (NewEnvFile [])) (\<lambda>ef.
     op_bind (envfile_ref (pdEnvfile def)) (\<lambda>def_ef.
     op_then (case g of
         Some g \<Rightarrow> if aliased def (Some g) then set_graph g (\<lambda>x. WithAlias x (pdPipeline def)) else op_return ()
       | None \<Rightarrow> op_return ())
     (op_then (stage_dir (pdDir def) t)
     (let stage = (stage_of def ef def_ef t g)\<lparr>sName := stage_name def\<rparr> in
      if stage_name def = '''' then op_throw (ErrStageNoName (pdTask def))
      else if stage_name def \<in> set forbiddenCharSequence then op_throw (ErrForbiddenName (stage_name def))
      else op_bind (op_get (\<lambda>s. gNodes (stGraphs s gr) (stage_name def))) (\<lambda>old.
        if old \<noteq> None then op_throw (ErrStageExists (stage_name def))
        else op_bind (new_stage stage) (\<lambda>sr.
          op_then (add_stage_to gr sr stage) (op_return (stage_name def)))))))))"

text \<open>
  The final walk over the nodes, the root node and those of the given names: every dependency
  names a node. The error names one of the missing ones, which one depends on the order in
  which Go ranges over the nodes; here it carries all of them. The nodes without
  dependencies, whose names are collected, include the root node, which has none.
\<close>

definition node_stages :: "store \<Rightarrow> ExecutionGraph \<Rightarrow> string list \<Rightarrow> Stage list" where
  "node_stages s g ns = map (stStages s) (List.map_filter (gNodes g) (RootNodeName # ns))"

definition missing_deps :: "store \<Rightarrow> ExecutionGraph \<Rightarrow> string list \<Rightarrow> (string \<times> string) list" where
  "missing_deps s g ns =
     concat (map (\<lambda>st. map (Pair (sName st)) (filter (\<lambda>d. gNodes g d = None) (sDependsOn st)))
       (node_stages s g ns))"

definition root_names :: "store \<Rightarrow> ExecutionGraph \<Rightarrow> string list \<Rightarrow> string list" where
  "root_names s g ns = map sName (filter (\<lambda>st. sDependsOn st = []) (node_stages s g ns))"

definition check_pipeline :: "ref \<Rightarrow> string list \<Rightarrow> unit build" where
  "check_pipeline gr ns = (\<lambda>s.
     let g = stGraphs s gr in
     if missing_deps s g ns \<noteq> [] then (Inl (ErrMissingDependency (missing_deps s g ns)), s)
     else if root_names s g ns = [] then (Inl (ErrNoStartingPoint (gName g)), s)
     else (Inr (), s))"

definition buildPipeline :: "ref \<Rightarrow> PipelineDefinition list \<Rightarrow> built_maps \<Rightarrow> unit build" where
  "buildPipeline gr stages cfg =
     op_bind (op_map stages (buildStage gr cfg)) (check_pipeline gr)"

section \<open>The configuration\<close>

record Config =
  cSourceFile :: string
  cImport :: ImportList
  cContexts :: "string \<rightharpoonup> ExecutionContext"
  cPipelines :: "string \<rightharpoonup> ref"
  cTasks :: "string \<rightharpoonup> ref"
  cWatchers :: "string \<rightharpoonup> Watcher"
  cQuiet :: bool
  cDebug :: bool
  cVerbose :: bool
  cDryRun :: bool
  cSummary :: bool
  cOutput :: string
  cVariables :: variables
  cGenerate :: "Generator option"

definition defaultConfigVariables :: "build_params \<Rightarrow> variables" where
  "defaultConfigVariables p = FromMap [''TempDir'' \<mapsto> bp_tempdir p]"

definition NewConfig :: "build_params \<Rightarrow> Config" where
  "NewConfig p = \<lparr>cSourceFile = '''', cImport = [], cContexts = Map.empty, cPipelines = Map.empty,
     cTasks = Map.empty, cWatchers = Map.empty, cQuiet = False, cDebug = False, cVerbose = False,
     cDryRun = False, cSummary = False, cOutput = '''', cVariables = defaultConfigVariables p,
     cGenerate = None\<rparr>"

text \<open>How the merge of two configurations by mergo may end. \<open>merge\<close> recovers from a panic and then
  returns no error.\<close>

datatype merge_end = MergeDone Config | MergeFailed string | MergePanicked Config

fun config_merge :: "merge_end \<Rightarrow> string + Config" where
  "config_merge (MergeDone c) = Inr c"
| "config_merge (MergeFailed e) = Inl e"
| "config_merge (MergePanicked c) = Inr c"

definition buildWatcher ::
  "build_params \<Rightarrow> string \<Rightarrow> WatcherDefinition \<Rightarrow> (string \<rightharpoonup> ref) \<Rightarrow> Watcher build" where
  "buildWatcher p name def tasks =
     (case tasks (wdTask def) of
        None \<Rightarrow> op_throw (ErrWatcherTask (wdTask def))
      | Some t \<Rightarrow>
          (case NewWatcher (bp_watch p) name (wdEvents def) (wdWatch def) (wdExclude def) t of
             Inl e \<Rightarrow> op_throw (ErrWatcher e) | Inr w \<Rightarrow> op_return w))"

definition build_contexts ::
  "build_params \<Rightarrow> (string \<times> ContextDefinition) list \<Rightarrow> (string \<times> ExecutionContext) list build" where
  "build_contexts p kvs = op_map kvs (\<lambda>(k, v).
     case bp_context p v of Inl e \<Rightarrow> op_throw (ErrContext e) | Inr c \<Rightarrow> op_return (k, c))"

text \<open>A task without a name takes that of its key.\<close>

definition build_tasks ::
  "build_params \<Rightarrow> string \<Rightarrow> (string \<times> TaskDefinition) list \<Rightarrow> (string \<times> ref) list build" where
  "build_tasks p lcDir kvs = op_map kvs (\<lambda>(k, v).
     op_bind (new_task (buildTask p (if tdName v = '''' then v\<lparr>tdName := k\<rparr> else v) lcDir))
       (\<lambda>r. op_return (k, r)))"

definition build_watchers ::
  "build_params \<Rightarrow> (string \<rightharpoonup> ref) \<Rightarrow> (string \<times> WatcherDefinition) list \<Rightarrow> (string \<times> Watcher) list build" where
  "build_watchers p tasks kvs = op_map kvs (\<lambda>(k, v).
     if tasks (wdTask v) = None then op_throw (ErrNoSuchTask (wdTask v))
     else op_bind (buildWatcher p k v tasks) (\<lambda>w. op_return (k, w)))"

text \<open>Every pipeline exists, empty, before the first is built, so that they may refer to each other.\<close>

definition new_pipeline :: "string \<Rightarrow> ref build" where
  "new_pipeline name =
     op_bind (new_envfile (NewEnvFile [])) (\<lambda>ef.
     op_bind (new_stage (root_stage ef name)) (\<lambda>rs. new_graph (empty_graph rs name)))"

definition new_pipelines ::
  "(string \<times> PipelineDefinition list) list \<Rightarrow> (string \<times> ref) list build" where
  "new_pipelines kvs = op_map kvs (\<lambda>(k, v). op_bind (new_pipeline k) (\<lambda>r. op_return (k, r)))"

definition build_pipelines ::
  "(string \<times> PipelineDefinition list) list \<Rightarrow> built_maps \<Rightarrow> unit build" where
  "build_pipelines kvs cfg = op_for kvs (\<lambda>(k, v).
     case bmPipelines cfg k of None \<Rightarrow> op_return () | Some gr \<Rightarrow> buildPipeline gr v cfg)"

text \<open>An order in which the maps of a definition are ranged over.\<close>

record map_order =
  moContexts :: "(string \<times> ContextDefinition) list"
  moTasks :: "(string \<times> TaskDefinition) list"
  moWatchers :: "(string \<times> WatcherDefinition) list"
  moPipelines :: "(string \<times> PipelineDefinition list) list"

definition orders :: "map_order \<Rightarrow> ConfigDefinition \<Rightarrow> bool" where
  "orders mo def \<longleftrightarrow> enumerates_map (moContexts mo) (cfContexts def) \<and>
     enumerates_map (moTasks mo) (cfTasks def) \<and> enumerates_map (moWatchers mo) (cfWatchers def) \<and>
     enumerates_map (moPipelines mo) (cfPipelines def)"

definition buildFromDefinition ::
  "build_params \<Rightarrow> map_order \<Rightarrow> ConfigDefinition \<Rightarrow> string \<Rightarrow> Config build" where
  "buildFromDefinition p mo def lcDir =
     op_bind (build_contexts p (moContexts mo)) (\<lambda>contexts.
     op_bind (build_tasks p lcDir (moTasks mo)) (\<lambda>tasks.
     op_bind (build_watchers p (map_of tasks) (moWatchers mo)) (\<lambda>watchers.
     op_bind (new_pipelines (moPipelines mo)) (\<lambda>pipelines.
     op_then (build_pipelines (moPipelines mo) \<lparr>bmTasks = map_of tasks, bmPipelines = map_of pipelines\<rparr>)
     (let cfg = NewConfig p in
      op_return (cfg\<lparr>cContexts := map_of contexts, cTasks := map_of tasks,
        cWatchers := map_of watchers, cPipelines := map_of pipelines,
        cImport := cfImport def, cDebug := cfDebug def, cVerbose := cfVerbose def,
        cOutput := cfOutput def, cVariables := Merge (cVariables cfg) (FromMap (cfVariables def)),
        cSummary := cfSummary def, cGenerate := cfGenerator def\<rparr>))))))"

section \<open>What building a stage does to the store\<close>

text \<open>The part of a graph that a schedule reads.\<close>

definition shape :: "ExecutionGraph \<Rightarrow> (string \<rightharpoonup> ref) \<times> adj \<times> adj \<times> (ref \<times> string) list" where
  "shape g = (gNodes g, gParent g, gChildren g, gErrors g)"

text \<open>An operation that touches neither a stage nor the shape of a graph.\<close>

definition frame :: "'a build \<Rightarrow> bool" where
  "frame m \<longleftrightarrow> keeps stStages m \<and> keeps (\<lambda>s. shape \<circ> stGraphs s) m \<and> (\<forall>s. stNext s \<le> stNext (snd (m s)))"

named_theorems frame_intros \<open>operations that touch neither stages nor shapes\<close>

lemma frameD:
  assumes "frame m" "m s = (r, s')"
  shows "stStages s' = stStages s" and "shape (stGraphs s' x) = shape (stGraphs s x)"
    and "stNext s \<le> stNext s'"
proof -
  have k: "keeps stStages m" "keeps (\<lambda>s. shape \<circ> stGraphs s) m" "\<forall>s. stNext s \<le> stNext (snd (m s))"
    using assms(1) by (auto simp: frame_def)
  show "stStages s' = stStages s" by (rule keepsD [OF k(1) assms(2)])
  show "shape (stGraphs s' x) = shape (stGraphs s x)"
    using keepsD [OF k(2) assms(2)] by (metis comp_apply)
  show "stNext s \<le> stNext s'" using k(3) assms(2) by (metis snd_conv)
qed

lemma frame_basic [frame_intros]:
  "frame (op_return v)" "frame (op_throw e)" "frame (op_get f)" "frame (op_lift r)"
  by (simp_all add: frame_def keeps_intros op_simps)

lemma frame_bind [frame_intros]:
  assumes "frame m" "\<And>v. frame (h v)"
  shows "frame (op_bind m h)"
proof -
  have "stNext s \<le> stNext (snd (op_bind m h s))" for s
  proof -
    obtain r s1 where m: "m s = (r, s1)" by (cases "m s")
    have 1: "stNext s \<le> stNext s1" using frameD(3) [OF assms(1) m] .
    show ?thesis
    proof (cases r)
      case (Inl e)
      with m 1 show ?thesis by (simp add: op_bind_def)
    next
      case (Inr v)
      obtain r2 s2 where "h v s1 = (r2, s2)" by (cases "h v s1")
      with frameD(3) [OF assms(2) this] 1 m Inr show ?thesis by (simp add: op_bind_def)
    qed
  qed
  with assms show ?thesis by (simp add: frame_def keeps_bind)
qed

lemma frame_then [frame_intros]: "frame m \<Longrightarrow> frame n \<Longrightarrow> frame (op_then m n)"
  unfolding op_then_def by (rule frame_bind)

lemma frame_new [frame_intros]: "frame (new_envfile e)" "frame (new_task t)"
  by (simp_all add: frame_def keeps_def new_envfile_def new_task_def)

lemma frame_set_task [frame_intros]: "frame (set_task r f)"
  by (simp add: frame_def keeps_def set_task_def op_modify_def)

lemma frame_set_graph [frame_intros]: "(\<And>g. shape (f g) = shape g) \<Longrightarrow> frame (set_graph r f)"
  by (auto simp: frame_def keeps_def set_graph_def op_modify_def fun_eq_iff)

lemma shape_update [simp]: "shape (g\<lparr>gGenerator := x\<rparr>) = shape g" "shape (WithAlias g a) = shape g"
  by (simp_all add: shape_def WithAlias_def)

lemma frame_stage_target [frame_intros]: "frame (stage_target def cfg)"
  by (auto simp: stage_target_def split: option.split intro!: frame_intros)

lemma frame_stage_dir [frame_intros]: "frame (stage_dir d t)"
  by (auto simp: stage_dir_def split: option.split intro!: frame_intros)

lemma frame_envfile_ref [frame_intros]: "frame (envfile_ref e)"
  by (auto simp: envfile_ref_def split: option.split intro!: frame_intros)

lemma stage_target_one:
  "stage_target def cfg s = (Inr (t, g), s') \<Longrightarrow> (t = None) \<noteq> (g = None)"
  by (auto simp: stage_target_def op_simps op_then_def op_bind_Inr split: if_splits option.splits) metis+

lemma stage_of_fields:
  "sName (stage_of def ef def_ef t g) = pdName def" "sDependsOn (stage_of def ef def_ef t g) = pdDependsOn def"
  "sTask (stage_of def ef def_ef t g) = t" "sPipeline (stage_of def ef def_ef t g) = g"
  "sStatus (stage_of def ef def_ef t g) = StatusWaiting"
  by (simp_all add: stage_of_def Let_def NewStage_def stage_opts_def WithEnvFile_def WithEnv_def WithVariables_def)

text \<open>The stage of a definition, as the graph is to have it.\<close>

definition stage_fits :: "string \<Rightarrow> Stage \<Rightarrow> bool" where
  "stage_fits n st \<longleftrightarrow> sName st = n \<and> n \<noteq> '''' \<and> n \<noteq> PipelineDirectionChar \<and>
     (sTask st = None) \<noteq> (sPipeline st = None) \<and> sStatus st = StatusWaiting"

lemma buildStage_Inr:
  assumes "buildStage gr cfg def s = (Inr n, s')"
  obtains sr st g where "n = stage_name def" and "stage_fits n st" and "sDependsOn st = pdDependsOn def"
    and "gNodes (stGraphs s gr) n = None"
    and "stStages s' = (stStages s)(sr := st)" and "stNext s \<le> sr" and "sr < stNext s'"
    and "shape g = shape (stGraphs s gr)" and "AddStage g sr st = Inr (stGraphs s' gr)"
    and "\<And>x. x \<noteq> gr \<Longrightarrow> shape (stGraphs s' x) = shape (stGraphs s x)"
proof -
  let ?al = "\<lambda>g. case g of
     Some g \<Rightarrow> if aliased def (Some g) then set_graph g (\<lambda>x. WithAlias x (pdPipeline def)) else op_return ()
   | None \<Rightarrow> op_return ()"
  from assms obtain t g s1 ef s2 def_ef s3 s4 s5 sr s6 where
    1: "stage_target def cfg s = (Inr (t, g), s1)" and
    2: "new_envfile (NewEnvFile []) s1 = (Inr ef, s2)" and
    3: "envfile_ref (pdEnvfile def) s2 = (Inr def_ef, s3)" and
    4: "?al g s3 = (Inr (), s4)" and
    5: "stage_dir (pdDir def) t s4 = (Inr (), s5)" and
    nn: "stage_name def \<noteq> ''''" and nf: "stage_name def \<notin> set forbiddenCharSequence" and
    old: "gNodes (stGraphs s5 gr) (stage_name def) = None" and
    6: "new_stage ((stage_of def ef def_ef t g)\<lparr>sName := stage_name def\<rparr>) s5 = (Inr sr, s6)" and
    7: "add_stage_to gr sr ((stage_of def ef def_ef t g)\<lparr>sName := stage_name def\<rparr>) s6 = (Inr (), s')" and
    n: "n = stage_name def"
    unfolding buildStage_def op_then_def Let_def op_bind_Inr
    by (auto simp: op_simps op_bind_Inr split: if_splits)
  let ?st = "(stage_of def ef def_ef t g)\<lparr>sName := stage_name def\<rparr>"
  have fal: "frame (?al g)" by (auto split: option.split intro!: frame_intros)
  note f = frameD [OF frame_stage_target 1] frameD [OF frame_new(1) 2] frameD [OF frame_envfile_ref 3]
    frameD [OF fal 4] frameD [OF frame_stage_dir 5]
  have st5: "stStages s5 = stStages s" using f by simp
  have sh5: "shape (stGraphs s5 x) = shape (stGraphs s x)" for x using f(2,5,8,11,14) by simp
  have nx5: "stNext s \<le> stNext s5" using f by simp
  from 6 have s6: "sr = stNext s5" "stStages s6 = (stStages s5)(sr := ?st)" "stNext s6 = stNext s5 + 1"
    "stGraphs s6 = stGraphs s5" by (auto simp: new_stage_def)
  from 7 have s': "AddStage (stGraphs s6 gr) sr ?st = Inr (stGraphs s' gr)" "stStages s' = stStages s6"
    "stNext s' = stNext s6" by (auto simp: add_stage_to_def split: sum.splits)
  from 7 have o6: "stGraphs s' x = stGraphs s6 x" if "x \<noteq> gr" for x
    using that by (auto simp: add_stage_to_def split: sum.splits)
  show thesis
  proof (rule that [where sr = sr and st = ?st and g = "stGraphs s5 gr"])
    show "stage_fits n ?st"
      using nn nf n stage_target_one [OF 1]
      by (simp add: stage_fits_def stage_of_fields forbiddenCharSequence_def)
    show "gNodes (stGraphs s gr) n = None" using old n sh5 [of gr] by (simp add: shape_def)
    show "shape (stGraphs s5 gr) = shape (stGraphs s gr)" by (rule sh5)
    show "AddStage (stGraphs s5 gr) sr ?st = Inr (stGraphs s' gr)" using s'(1) s6(4) by simp
    show "shape (stGraphs s' x) = shape (stGraphs s x)" if "x \<noteq> gr" for x
      using o6 [OF that] s6(4) sh5 [of x] by simp
  qed (use n st5 nx5 s6 s' in \<open>simp_all add: stage_of_fields\<close>)
qed

section \<open>Well-formed pipelines\<close>

text \<open>A graph under construction, with the names of the stages that were added.\<close>

definition declared_edges :: "store \<Rightarrow> ExecutionGraph \<Rightarrow> string list \<Rightarrow> (string \<times> string) set" where
  "declared_edges s g ns = (\<Union>n \<in> set ns. new_edges (stStages s (the (gNodes g n))))"

lemma declared_edges_cong:
  assumes "\<And>n. n \<in> set ns \<Longrightarrow> \<exists>r. gNodes g n = Some r \<and> gNodes g' n = Some r \<and> stStages s' r = stStages s r"
  shows "declared_edges s' g' ns = declared_edges s g ns"
proof -
  have "stStages s' (the (gNodes g' n)) = stStages s (the (gNodes g n))" if "n \<in> set ns" for n
    using assms [OF that] by auto
  then show ?thesis by (simp add: declared_edges_def)
qed

definition growing :: "store \<Rightarrow> ref \<Rightarrow> string list \<Rightarrow> bool" where
  "growing s gr ns \<longleftrightarrow>
     (let g = stGraphs s gr in
      dom (gNodes g) = insert RootNodeName (set ns) \<and> distinct (RootNodeName # ns) \<and>
      acyclic (edges (gChildren g)) \<and> converse_maps g \<and> gErrors g = [] \<and>
      edges (gChildren g) = declared_edges s g ns \<and>
      (\<exists>rr. gNodes g RootNodeName = Some rr \<and> rr < stNext s \<and> sDependsOn (stStages s rr) = [] \<and>
        sStatus (stStages s rr) = StatusDone) \<and>
      (\<forall>n \<in> set ns. \<exists>r. gNodes g n = Some r \<and> r < stNext s \<and> stage_fits n (stStages s r)))"

lemma shape_parts:
  "shape g = shape g' \<longleftrightarrow>
     gNodes g = gNodes g' \<and> gParent g = gParent g' \<and> gChildren g = gChildren g' \<and> gErrors g = gErrors g'"
  by (simp add: shape_def)

lemma growing_buildStage:
  assumes b: "buildStage gr cfg def s = (Inr n, s')" and i: "growing s gr ns"
  shows "growing s' gr (ns @ [n])"
proof -
  from b obtain sr st g where fits: "stage_fits n st"
    and old: "gNodes (stGraphs s gr) n = None"
    and st': "stStages s' = (stStages s)(sr := st)" and sr: "stNext s \<le> sr" "sr < stNext s'"
    and sh: "shape g = shape (stGraphs s gr)" and add: "AddStage g sr st = Inr (stGraphs s' gr)"
    by (rule buildStage_Inr)
  let ?g = "stGraphs s gr" and ?g' = "stGraphs s' gr"
  have g: "gNodes g = gNodes ?g" "gParent g = gParent ?g" "gChildren g = gChildren ?g"
    "gErrors g = gErrors ?g"
    using sh by (simp_all add: shape_parts)
  have i': "dom (gNodes ?g) = insert RootNodeName (set ns)" "distinct (RootNodeName # ns)"
    "acyclic (edges (gChildren ?g))" "converse_maps ?g" "gErrors ?g = []"
    "edges (gChildren ?g) = declared_edges s ?g ns"
    using i by (auto simp: growing_def Let_def)
  obtain rr where rr: "gNodes ?g RootNodeName = Some rr" "rr < stNext s" "sDependsOn (stStages s rr) = []"
    "sStatus (stStages s rr) = StatusDone"
    using i by (auto simp: growing_def Let_def)
  have each: "\<exists>r. gNodes ?g m = Some r \<and> r < stNext s \<and> stage_fits m (stStages s r)" if "m \<in> set ns" for m
    using i that by (simp add: growing_def Let_def)
  have nn: "sName st = n" using fits by (simp add: stage_fits_def)
  have nodes: "gNodes ?g' = (gNodes ?g)(n \<mapsto> sr)" using AddStage_nodes [OF add] nn g by simp
  have new: "n \<notin> insert RootNodeName (set ns)" using old i'(1) by auto
  have "acyclic (edges (gChildren g))" using i'(3) g by simp
  with AddStage_ok_iff [of g sr st] AddStage_edges [OF add] add
  have ac: "acyclic (edges (gChildren ?g'))" by auto
  have "converse_maps g" using i'(4) g by (simp add: converse_maps_def)
  then have cm: "converse_maps ?g'" by (rule AddStage_converse [OF _ add])
  have lt: "r < stNext s' \<and> r \<noteq> sr" if "r < stNext s" for r using that sr by simp
  have er: "gErrors ?g' = []" using AddStage_errors [OF add] g(4) i'(5) by simp
  have "declared_edges s' ?g' ns = declared_edges s ?g ns"
  proof (rule declared_edges_cong)
    fix m assume m: "m \<in> set ns"
    with new have "m \<noteq> n" by auto
    with each [OF m] lt show "\<exists>r. gNodes ?g m = Some r \<and> gNodes ?g' m = Some r \<and> stStages s' r = stStages s r"
      by (auto simp: nodes st')
  qed
  then have ed: "edges (gChildren ?g') = declared_edges s' ?g' (ns @ [n])"
    using AddStage_edges [OF add] g(3) i'(6) by (simp add: declared_edges_def nodes st' Un_commute)
  have root: "gNodes ?g' RootNodeName = Some rr \<and> rr < stNext s' \<and> sDependsOn (stStages s' rr) = [] \<and>
    sStatus (stStages s' rr) = StatusDone"
    using rr lt [OF rr(2)] new by (auto simp: nodes st')
  have all: "\<exists>r. gNodes ?g' m = Some r \<and> r < stNext s' \<and> stage_fits m (stStages s' r)"
    if m: "m \<in> set (ns @ [n])" for m
  proof (cases "m = n")
    case True
    with fits sr show ?thesis by (simp add: nodes st')
  next
    case False
    with m each obtain r where "gNodes ?g m = Some r" "r < stNext s" "stage_fits m (stStages s r)" by auto
    with False lt show ?thesis by (simp add: nodes st')
  qed
  have "dom (gNodes ?g') = insert RootNodeName (set (ns @ [n]))" using i'(1) by (auto simp: nodes)
  moreover have "distinct (RootNodeName # ns @ [n])" using i'(2) new by auto
  ultimately show ?thesis
    unfolding growing_def Let_def using ac cm er ed root all by blast
qed

lemma op_map_Cons_Inr:
  "op_map (x # xs) f s = (Inr ys, s') \<longleftrightarrow>
     (\<exists>v s1 vs. f x s = (Inr v, s1) \<and> op_map xs f s1 = (Inr vs, s') \<and> ys = v # vs)"
  by (auto simp: op_bind_Inr op_simps)

lemma growing_stages:
  "op_map defs (buildStage gr cfg) s = (Inr ms, s') \<Longrightarrow> growing s gr ns \<Longrightarrow> growing s' gr (ns @ ms)"
proof (induction defs arbitrary: s ns ms)
  case Nil
  then show ?case by (simp add: op_simps)
next
  case (Cons def defs)
  then obtain n s1 ms' where 1: "buildStage gr cfg def s = (Inr n, s1)"
    "op_map defs (buildStage gr cfg) s1 = (Inr ms', s')" "ms = n # ms'"
    unfolding op_map_Cons_Inr by blast
  from growing_buildStage [OF 1(1) Cons.prems(2)] have "growing s1 gr (ns @ [n])" .
  from Cons.IH [OF 1(2) this] 1(3) show ?case by simp
qed

lemma growing_new_pipeline:
  assumes "new_pipeline name s = (Inr gr, s')"
  shows "growing s' gr [] \<and> gName (stGraphs s' gr) = name"
proof -
  have "converse_maps (empty_graph rr name)" for rr by (simp add: converse_maps_def empty_graph_def)
  with assms show ?thesis
    by (auto simp: new_pipeline_def op_bind_Inr new_envfile_def new_stage_def new_graph_def
        growing_def Let_def empty_graph_def root_stage_def NewStage_def UpdateStatus_def
        acyclic_def declared_edges_def split: if_splits)
qed

text \<open>
  What a finished pipeline is: its stages have distinct names, none of them empty, the root's or the
  separator of nested names, each runs either a task or a pipeline, every dependency is a stage of
  the pipeline (or its root), and the edges are acyclic and stored in both directions.
\<close>

definition wf_pipeline :: "store \<Rightarrow> ref \<Rightarrow> string list \<Rightarrow> bool" where
  "wf_pipeline s gr ns \<longleftrightarrow> growing s gr ns \<and>
     (\<forall>n \<in> set ns. \<forall>r. gNodes (stGraphs s gr) n = Some r \<longrightarrow>
        set (sDependsOn (stStages s r)) \<subseteq> insert RootNodeName (set ns))"

lemma check_pipeline_Inr:
  assumes "check_pipeline gr ns s = (Inr u, s')" and "growing s gr ns"
  shows "s' = s \<and> wf_pipeline s gr ns"
proof -
  let ?g = "stGraphs s gr"
  from assms(1) have m: "missing_deps s ?g ns = []" and s': "s' = s"
    by (auto simp: check_pipeline_def Let_def split: if_splits)
  have "set (sDependsOn (stStages s r)) \<subseteq> insert RootNodeName (set ns)"
    if "n \<in> set ns" "gNodes ?g n = Some r" for n r
  proof
    fix d assume d: "d \<in> set (sDependsOn (stStages s r))"
    have "stStages s r \<in> set (node_stages s ?g ns)"
      using that map_filter_mem [of r "gNodes ?g" "RootNodeName # ns"]
      unfolding node_stages_def set_map by (metis image_eqI list.set_intros(2))
    with d m have "gNodes ?g d \<noteq> None"
      by (auto simp: missing_deps_def filter_empty_conv)
    with assms(2) show "d \<in> insert RootNodeName (set ns)" by (auto simp: growing_def Let_def)
  qed
  with assms(2) s' show ?thesis by (simp add: wf_pipeline_def)
qed

lemma buildPipeline_wf:
  assumes "growing s gr []" and "buildPipeline gr defs cfg s = (Inr u, s')"
  shows "\<exists>ns. length ns = length defs \<and> wf_pipeline s' gr ns"
proof -
  from assms(2) obtain ns s1 where 1: "op_map defs (buildStage gr cfg) s = (Inr ns, s1)"
    "check_pipeline gr ns s1 = (Inr u, s')"
    by (auto simp: buildPipeline_def op_bind_Inr)
  have "length ns = length defs" using 1(1)
    by (induction defs arbitrary: s ns) (auto simp: op_simps op_bind_Inr)
  moreover from growing_stages [OF 1(1) assms(1)] have "growing s1 gr ns" by simp
  ultimately show ?thesis using check_pipeline_Inr [OF 1(2)] by blast
qed

text \<open>The check for a starting point never fails: the root node has no dependencies.\<close>

lemma no_starting_point_never:
  assumes "growing s gr ns"
  shows "fst (check_pipeline gr ns s) \<noteq> Inl (ErrNoStartingPoint name)"
proof -
  let ?g = "stGraphs s gr"
  obtain rr where "gNodes ?g RootNodeName = Some rr" "sDependsOn (stStages s rr) = []"
    using assms by (auto simp: growing_def Let_def)
  then have "root_names s ?g ns \<noteq> []"
    by (simp add: root_names_def node_stages_def List.map_filter_simps)
  then show ?thesis by (simp add: check_pipeline_def Let_def)
qed

section \<open>All pipelines of a configuration\<close>

text \<open>What a graph and its stages are read from is as it was.\<close>

definition same_for :: "store \<Rightarrow> store \<Rightarrow> ref \<Rightarrow> bool" where
  "same_for s s' gr \<longleftrightarrow> shape (stGraphs s' gr) = shape (stGraphs s gr) \<and> stNext s \<le> stNext s' \<and>
     (\<forall>r < stNext s. stStages s' r = stStages s r)"

lemma same_for_refl: "same_for s s gr"
  by (simp add: same_for_def)

lemma same_for_trans: "same_for s t gr \<Longrightarrow> same_for t u gr \<Longrightarrow> same_for s u gr"
  by (auto simp: same_for_def)

lemma growing_same:
  assumes "growing s gr ns" and "same_for s s' gr"
  shows "growing s' gr ns"
proof -
  have sh: "gNodes (stGraphs s' gr) = gNodes (stGraphs s gr)"
    "gChildren (stGraphs s' gr) = gChildren (stGraphs s gr)"
    "converse_maps (stGraphs s' gr) = converse_maps (stGraphs s gr)"
    "gErrors (stGraphs s' gr) = gErrors (stGraphs s gr)"
    using assms(2) by (simp_all add: same_for_def shape_parts converse_maps_def)
  have st: "r < stNext s' \<and> stStages s' r = stStages s r" if "r < stNext s" for r
    using assms(2) that by (simp add: same_for_def)
  have "\<exists>r. gNodes (stGraphs s gr) n = Some r \<and> r < stNext s" if "n \<in> set ns" for n
    using assms(1) that by (auto simp: growing_def Let_def)
  then have "declared_edges s' (stGraphs s' gr) ns = declared_edges s (stGraphs s gr) ns"
    by (intro declared_edges_cong) (metis sh(1) st)
  with assms(1) st show ?thesis unfolding growing_def Let_def sh by metis
qed

lemma wf_same:
  assumes "wf_pipeline s gr ns" and "same_for s s' gr"
  shows "wf_pipeline s' gr ns"
proof -
  have g: "growing s gr ns" using assms(1) by (simp add: wf_pipeline_def)
  have sh: "gNodes (stGraphs s' gr) = gNodes (stGraphs s gr)"
    using assms(2) by (simp add: same_for_def shape_parts)
  have "stStages s' r = stStages s r" if "n \<in> set ns" "gNodes (stGraphs s gr) n = Some r" for n r
  proof -
    from g that have "r < stNext s" by (auto simp: growing_def Let_def)
    with assms(2) show ?thesis by (simp add: same_for_def)
  qed
  with assms growing_same [OF g assms(2)] show ?thesis by (simp add: wf_pipeline_def sh)
qed

lemma buildStage_others:
  assumes "buildStage gr cfg def s = (Inr n, s')" and "x \<noteq> gr"
  shows "same_for s s' x"
  using assms(1) by (rule buildStage_Inr) (use assms(2) in \<open>auto simp: same_for_def\<close>)

lemma buildPipeline_others:
  assumes "buildPipeline gr defs cfg s = (Inr u, s')" and "x \<noteq> gr"
  shows "same_for s s' x"
proof -
  have "op_map defs (buildStage gr cfg) s = (Inr ns, s1) \<Longrightarrow> same_for s s1 x" for ns s s1
  proof (induction defs arbitrary: s ns)
    case Nil
    then show ?case by (simp add: op_simps same_for_refl)
  next
    case (Cons d ds)
    then show ?case
      unfolding op_map_Cons_Inr using buildStage_others [OF _ assms(2)] by (meson same_for_trans)
  qed
  moreover from assms(1) obtain ns where "op_map defs (buildStage gr cfg) s = (Inr ns, s')"
    by (auto simp: buildPipeline_def op_bind_Inr check_pipeline_def Let_def split: if_splits)
  ultimately show ?thesis by blast
qed

lemma build_pipelines_wf:
  assumes "build_pipelines kvs cfg s = (Inr u, s')" and "distinct (map fst kvs)"
    and "\<And>k. k \<in> fst ` set kvs \<Longrightarrow> \<exists>gr. bmPipelines cfg k = Some gr \<and> growing s gr []"
    and "inj_on (bmPipelines cfg) (fst ` set kvs)"
  shows "(\<forall>(k, v) \<in> set kvs. \<exists>gr ns. bmPipelines cfg k = Some gr \<and> length ns = length v \<and> wf_pipeline s' gr ns) \<and>
    (\<forall>gr. Some gr \<notin> bmPipelines cfg ` fst ` set kvs \<longrightarrow> same_for s s' gr)"
  using assms
proof (induction kvs arbitrary: s)
  case Nil
  then show ?case by (simp add: build_pipelines_def op_simps same_for_refl)
next
  case (Cons kv kvs)
  obtain k v where kv: "kv = (k, v)" by (cases kv)
  from Cons.prems(3) [of k] kv obtain gr where gr: "bmPipelines cfg k = Some gr" "growing s gr []" by auto
  from Cons.prems(1) kv gr obtain s1 where 1: "buildPipeline gr v cfg s = (Inr (), s1)"
    "build_pipelines kvs cfg s1 = (Inr u, s')"
    by (auto simp: build_pipelines_def op_then_def op_bind_Inr)
  from buildPipeline_wf [OF gr(2) 1(1)] obtain ns where ns: "length ns = length v" "wf_pipeline s1 gr ns" by blast
  have k: "k \<notin> fst ` set kvs" using Cons.prems(2) kv by simp
  have ne: "gr' \<noteq> gr" if "k' \<in> fst ` set kvs" "bmPipelines cfg k' = Some gr'" for k' gr'
  proof
    assume "gr' = gr"
    with that gr(1) have "bmPipelines cfg k' = bmPipelines cfg k" by simp
    moreover have "k' \<in> fst ` set (kv # kvs)" "k \<in> fst ` set (kv # kvs)" using that(1) kv by auto
    ultimately have "k' = k" by (rule inj_onD [OF Cons.prems(4)])
    with k that(1) show False by simp
  qed
  have IH: "(\<forall>(k, v) \<in> set kvs. \<exists>gr ns. bmPipelines cfg k = Some gr \<and> length ns = length v \<and> wf_pipeline s' gr ns) \<and>
    (\<forall>gr. Some gr \<notin> bmPipelines cfg ` fst ` set kvs \<longrightarrow> same_for s1 s' gr)"
  proof (rule Cons.IH [OF 1(2)])
    show "distinct (map fst kvs)" using Cons.prems(2) by simp
    show "inj_on (bmPipelines cfg) (fst ` set kvs)"
      using Cons.prems(4) by (rule inj_on_subset) auto
    fix k' assume k': "k' \<in> fst ` set kvs"
    then obtain gr' where g': "bmPipelines cfg k' = Some gr'" "growing s gr' []"
      using Cons.prems(3) [of k'] by auto
    from growing_same [OF g'(2) buildPipeline_others [OF 1(1) ne [OF k' g'(1)]]] g'(1)
    show "\<exists>gr. bmPipelines cfg k' = Some gr \<and> growing s1 gr []" by blast
  qed
  have "Some gr \<notin> bmPipelines cfg ` fst ` set kvs"
  proof
    assume "Some gr \<in> bmPipelines cfg ` fst ` set kvs"
    then obtain k' where "k' \<in> fst ` set kvs" "bmPipelines cfg k' = Some gr" by (metis imageE)
    from ne [OF this] show False by simp
  qed
  with IH have "same_for s1 s' gr" by blast
  then have first: "wf_pipeline s' gr ns" by (rule wf_same [OF ns(2)])
  have rest: "same_for s s' x" if "Some x \<notin> bmPipelines cfg ` fst ` set (kv # kvs)" for x
  proof -
    from that kv gr(1) have "x \<noteq> gr" "Some x \<notin> bmPipelines cfg ` fst ` set kvs" by auto
    with IH have "same_for s1 s' x" by blast
    with buildPipeline_others [OF 1(1) \<open>x \<noteq> gr\<close>] show ?thesis by (rule same_for_trans)
  qed
  have "\<exists>gr ns. bmPipelines cfg k = Some gr \<and> length ns = length v \<and> wf_pipeline s' gr ns"
    using first gr(1) ns(1) by blast
  with IH rest show ?case unfolding kv by simp
qed

lemma new_pipeline_others:
  assumes "new_pipeline name s = (Inr gr, s')"
  shows "stNext s \<le> gr \<and> gr < stNext s' \<and> (\<forall>x < stNext s. same_for s s' x)"
  using assms
  by (auto simp: new_pipeline_def op_bind_Inr new_envfile_def new_stage_def new_graph_def same_for_def)

lemma new_pipelines_growing:
  assumes "new_pipelines kvs s = (Inr prs, s')"
  shows "map fst prs = map fst kvs \<and> distinct (map snd prs) \<and> stNext s \<le> stNext s' \<and>
    (\<forall>(k, gr) \<in> set prs. stNext s \<le> gr \<and> gr < stNext s' \<and> growing s' gr []) \<and>
    (\<forall>x < stNext s. same_for s s' x)"
  using assms
proof (induction kvs arbitrary: s prs)
  case Nil
  then show ?case by (simp add: new_pipelines_def op_simps same_for_refl)
next
  case (Cons kv kvs)
  obtain k v where kv: "kv = (k, v)" by (cases kv)
  from Cons.prems obtain gr s1 rest where 1: "new_pipeline k s = (Inr gr, s1)"
    "new_pipelines kvs s1 = (Inr rest, s')" "prs = (k, gr) # rest"
    unfolding new_pipelines_def op_map_Cons_Inr kv by (auto simp: op_bind_Inr op_simps)
  note n = new_pipeline_others [OF 1(1)] and g = growing_new_pipeline [OF 1(1)] and IH = Cons.IH [OF 1(2)]
  have "growing s' gr []" using growing_same [of s1 gr "[]" s'] g IH n by blast
  moreover have "gr \<notin> snd ` set rest" using IH n by force
  moreover have "same_for s s' x" if "x < stNext s" for x
  proof -
    from that n have "same_for s s1 x" by blast
    moreover from this that have "x < stNext s1" by (auto simp: same_for_def)
    then have "same_for s1 s' x" using IH by blast
    ultimately show ?thesis by (rule same_for_trans)
  qed
  ultimately show ?case using IH n 1(3) kv by (fastforce simp: same_for_def)
qed


section \<open>Properties\<close>

lemma fst_set_map_of: "fst ` set kvs = dom (map_of kvs)"
  by (simp add: dom_map_of_conv_image_fst)

lemma buildFromDefinition_Inr:
  assumes "buildFromDefinition p mo def dir s = (Inr cfg, s')"
  obtains cs s1 ts s2 ws s3 ps s4 where "build_contexts p (moContexts mo) s = (Inr cs, s1)"
    and "build_tasks p dir (moTasks mo) s1 = (Inr ts, s2)"
    and "build_watchers p (map_of ts) (moWatchers mo) s2 = (Inr ws, s3)"
    and "new_pipelines (moPipelines mo) s3 = (Inr ps, s4)"
    and "build_pipelines (moPipelines mo) \<lparr>bmTasks = map_of ts, bmPipelines = map_of ps\<rparr> s4 = (Inr (), s')"
    and "cTasks cfg = map_of ts" and "cContexts cfg = map_of cs" and "cPipelines cfg = map_of ps"
    and "cWatchers cfg = map_of ws"
  using assms unfolding buildFromDefinition_def op_then_def op_bind_Inr Let_def
  by (auto simp: op_simps)

lemma built_well_formed:
  assumes "orders mo def" and "buildFromDefinition p mo def dir s = (Inr cfg, s')"
  shows "dom (cPipelines cfg) = dom (cfPipelines def) \<and>
    (\<forall>k defs. cfPipelines def k = Some defs \<longrightarrow>
       (\<exists>gr ns. cPipelines cfg k = Some gr \<and> length ns = length defs \<and> wf_pipeline s' gr ns))"
proof -
  have d: "distinct (map fst (moPipelines mo))" and m: "map_of (moPipelines mo) = cfPipelines def"
    using assms(1) by (simp_all add: orders_def enumerates_map_def)
  obtain ts ps s3 s4 where 1: "new_pipelines (moPipelines mo) s3 = (Inr ps, s4)"
    "build_pipelines (moPipelines mo) \<lparr>bmTasks = map_of ts, bmPipelines = map_of ps\<rparr> s4 = (Inr (), s')"
    "cPipelines cfg = map_of ps"
    using assms(2) by (rule buildFromDefinition_Inr)
  from new_pipelines_growing [OF 1(1)] have ps: "map fst ps = map fst (moPipelines mo)"
    "distinct (map snd ps)" "\<And>k gr. (k, gr) \<in> set ps \<Longrightarrow> growing s4 gr []" by auto
  have keys: "fst ` set ps = fst ` set (moPipelines mo)" using ps(1) by (metis set_map)
  have "inj_on (map_of ps) (fst ` set ps)"
  proof (rule inj_onI)
    fix k k' assume k: "k \<in> fst ` set ps" "k' \<in> fst ` set ps" "map_of ps k = map_of ps k'"
    from k(1) obtain gr where gr: "map_of ps k = Some gr" by (auto simp: fst_set_map_of)
    from map_of_SomeD [OF gr] map_of_SomeD [of ps k' gr] gr k(3)
    have "(k, gr) \<in> set ps" "(k', gr) \<in> set ps" by auto
    with ps(2) show "k = k'" by (metis (no_types, lifting) distinct_map inj_onD snd_conv prod.inject)
  qed
  with keys have inj: "inj_on (map_of ps) (fst ` set (moPipelines mo))" by simp
  have ex: "\<exists>gr. map_of ps k = Some gr \<and> growing s4 gr []" if "k \<in> fst ` set (moPipelines mo)" for k
  proof -
    from that keys obtain gr where gr: "map_of ps k = Some gr" by (metis domD fst_set_map_of)
    with ps(3) [OF map_of_SomeD [OF gr]] show ?thesis by blast
  qed
  from build_pipelines_wf [OF 1(2) d] ex inj
  have wf: "\<forall>(k, v) \<in> set (moPipelines mo). \<exists>gr ns. map_of ps k = Some gr \<and> length ns = length v \<and>
      wf_pipeline s' gr ns" by simp
  have "dom (cPipelines cfg) = dom (cfPipelines def)"
    unfolding 1(3) m [symmetric] using keys by (simp add: fst_set_map_of)
  moreover have "\<exists>gr ns. cPipelines cfg k = Some gr \<and> length ns = length defs \<and> wf_pipeline s' gr ns"
    if "cfPipelines def k = Some defs" for k defs
  proof -
    from that m have "(k, defs) \<in> set (moPipelines mo)" by (metis map_of_SomeD)
    with wf 1(3) show ?thesis by auto
  qed
  ultimately show ?thesis by blast
qed

text \<open>C23. every pipeline of a configuration that is built is well-formed: it has one node for each
  of its stages, with distinct non-empty names that are not the separator, each stage runs either a
  task or a pipeline, each dependency is a node of the pipeline, and the edges, stored in both
  directions, are acyclic and exactly those the stages declare. Building a later pipeline leaves the earlier ones so.\<close>

theorem built_pipelines:
  assumes "orders mo def" and "buildFromDefinition p mo def dir s = (Inr cfg, s')"
  shows "dom (cPipelines cfg) = dom (cfPipelines def) \<and>
    (\<forall>k defs. cfPipelines def k = Some defs \<longrightarrow>
       (\<exists>gr ns. cPipelines cfg k = Some gr \<and> length ns = length defs \<and> wf_pipeline s' gr ns))"
  using built_well_formed [OF assms] .

text \<open>What the stages of a pipeline leave of a task's directory.\<close>

definition stage_task_dir :: "built_maps \<Rightarrow> ref \<Rightarrow> PipelineDefinition \<Rightarrow> string \<Rightarrow> string" where
  "stage_task_dir cfg t d x =
     (if pdTask d \<noteq> '''' \<and> bmTasks cfg (pdTask d) = Some t \<and> pdDir d \<noteq> '''' then pdDir d else x)"

lemma buildStage_task_dir:
  assumes "buildStage gr cfg def s = (Inr n, s')"
  shows "tDir (stTasks s' x) = stage_task_dir cfg x def (tDir (stTasks s x))"
proof -
  let ?al = "\<lambda>g. case g of
     Some g \<Rightarrow> if aliased def (Some g) then set_graph g (\<lambda>x. WithAlias x (pdPipeline def)) else op_return ()
   | None \<Rightarrow> op_return ()"
  let ?st = "\<lambda>ef def_ef t g. (stage_of def ef def_ef t g)\<lparr>sName := stage_name def\<rparr>"
  from assms obtain t g s1 ef s2 def_ef s3 s4 s5 sr s6 where
    1: "stage_target def cfg s = (Inr (t, g), s1)" and
    2: "new_envfile (NewEnvFile []) s1 = (Inr ef, s2)" and
    3: "envfile_ref (pdEnvfile def) s2 = (Inr def_ef, s3)" and
    4: "?al g s3 = (Inr (), s4)" and
    5: "stage_dir (pdDir def) t s4 = (Inr (), s5)" and
    6: "new_stage (?st ef def_ef t g) s5 = (Inr sr, s6)" and
    7: "add_stage_to gr sr (?st ef def_ef t g) s6 = (Inr (), s')"
    unfolding buildStage_def op_then_def Let_def op_bind_Inr
    by (auto simp: op_simps op_bind_Inr split: if_splits)
  have "stTasks s2 = stTasks s1" using 2 by (auto simp: new_envfile_def)
  moreover have "stTasks s3 = stTasks s2"
    using 3 by (auto simp: envfile_ref_def new_envfile_def op_simps op_bind_Inr split: option.splits)
  moreover have "stTasks s4 = stTasks s3"
    using 4 by (auto simp: set_graph_def op_simps split: option.splits if_splits)
  moreover have "stTasks s6 = stTasks s5" using 6 by (auto simp: new_stage_def)
  moreover have "stTasks s' = stTasks s6" using 7 by (auto simp: add_stage_to_def split: sum.splits)
  moreover have "tDir (stTasks s1 x) = tDir (stTasks s x)"
    using 1 by (auto simp: stage_target_def set_task_def set_graph_def op_simps op_then_def op_bind_Inr
        split: if_splits option.splits)
  moreover have "tDir (stTasks s5 x) = stage_task_dir cfg x def (tDir (stTasks s4 x))"
  proof (cases "pdTask def = ''''")
    case True
    with 1 5 show ?thesis
      by (auto simp: stage_target_def stage_dir_def op_simps op_then_def op_bind_Inr stage_task_dir_def
          split: if_splits option.splits)
  next
    case False
    with 1 have "bmTasks cfg (pdTask def) = t"
      by (auto simp: stage_target_def op_simps op_then_def op_bind_Inr split: option.splits)
    with False 5 show ?thesis
      by (auto simp: stage_dir_def set_task_def op_simps stage_task_dir_def split: if_splits option.splits)
  qed
  ultimately show ?thesis by simp
qed

lemma buildStages_task_dir:
  "op_map defs (buildStage gr cfg) s = (Inr ns, s') \<Longrightarrow>
   tDir (stTasks s' t) = fold (stage_task_dir cfg t) defs (tDir (stTasks s t))"
proof (induction defs arbitrary: s ns)
  case Nil
  then show ?case by (simp add: op_simps)
next
  case (Cons d ds)
  from Cons.prems obtain n s1 ms where "buildStage gr cfg d s = (Inr n, s1)"
    "op_map ds (buildStage gr cfg) s1 = (Inr ms, s')"
    unfolding op_map_Cons_Inr by blast
  with Cons.IH buildStage_task_dir show ?case by simp
qed

text \<open>a stage's directory is written to the task it names, which all pipelines share: once a
  pipeline is built, the directory of a task is that of the last of the pipeline's stages that names
  the task and has one, and what it was before when there is none.\<close>

theorem buildPipeline_task_dir:
  assumes "buildPipeline gr defs cfg s = (Inr u, s')"
  shows "tDir (stTasks s' t) = fold (stage_task_dir cfg t) defs (tDir (stTasks s t))"
proof -
  from assms obtain ns where "op_map defs (buildStage gr cfg) s = (Inr ns, s')"
    by (auto simp: buildPipeline_def op_bind_Inr check_pipeline_def Let_def split: if_splits)
  then show ?thesis by (rule buildStages_task_dir)
qed

text \<open>a stage that runs a pipeline and has a directory ends the program: the directory is
  written to the stage's task, which is nil.\<close>

theorem pipeline_stage_dir_crashes:
  assumes "pdTask def = ''''" and "bmPipelines cfg (pdPipeline def) = Some g" and "pdDir def \<noteq> ''''"
  shows "fst (buildStage gr cfg def s) = Inl NilDereference"
  using assms
  by (simp add: buildStage_def stage_target_def stage_dir_def envfile_ref_def new_envfile_def
      set_graph_def op_simps op_then_def op_bind_def Let_def split: option.split)

text \<open>The check of a stage's name compares it with the separator, it does not look for the separator in it.\<close>

lemma forbidden_name_is_separator:
  assumes "fst (buildStage gr cfg def s) = Inl (ErrForbiddenName n)"
  shows "n = PipelineDirectionChar"
  using assms
  by (auto simp: buildStage_def stage_target_def stage_dir_def envfile_ref_def new_envfile_def new_stage_def
      set_task_def set_graph_def add_stage_to_def op_simps op_then_def op_bind_def Let_def forbiddenCharSequence_def
      split: if_splits option.splits sum.splits)

section \<open>A small configuration\<close>

definition demo_params :: build_params where
  "demo_params = \<lparr>bp_goos = ''linux'', bp_goarch = ''amd64'', bp_tempdir = ''/tmp'',
     bp_merge_envfile = (\<lambda>a b. Some b),
     bp_watch = \<lparr>wp_fsnotify = None, wp_glob = (\<lambda>p. Inr [p]), wp_match = (\<lambda>p q. Inr (p = q))\<rparr>,
     bp_context = (\<lambda>c. Inl ErrMutuallyExclusiveVarSet)\<rparr>"

definition demo_task :: TaskDefinition where
  "demo_task = \<lparr>tdSourceFile = '''', tdName = '''', tdDescription = '''', tdCondition = '''',
     tdCommand = [''true''], tdAfter = [], tdBefore = [], tdContext = '''', tdVariations = None, tdDir = '''',
     tdTimeout = None, tdAllowFailure = False, tdInteractive = False, tdArtifacts = None, tdEnv = Map.empty,
     tdEnvfile = None, tdVariables = Map.empty, tdResetContext = False, tdGenerator = Map.empty, tdRequired = None\<rparr>"

definition demo_stage :: "string \<Rightarrow> string \<Rightarrow> string \<Rightarrow> PipelineDefinition" where
  "demo_stage t pl d = \<lparr>pdSourceFile = '''', pdName = '''', pdCondition = '''', pdTask = t, pdPipeline = pl,
     pdDependsOn = [], pdAllowFailure = False, pdDir = d, pdEnv = Map.empty, pdEnvfile = None,
     pdVariables = Map.empty, pdGenerator = Map.empty\<rparr>"

definition demo_config :: ConfigDefinition where
  "demo_config = EmptyConfig\<lparr>cfTasks := [''a'' \<mapsto> demo_task], cfPipelines := [''ci'' \<mapsto> [demo_stage ''a'' '''' ''/x'']]\<rparr>"

definition demo_order :: map_order where
  "demo_order = \<lparr>moContexts = [], moTasks = [(''a'', demo_task)], moWatchers = [],
     moPipelines = [(''ci'', [demo_stage ''a'' '''' ''/x''])]\<rparr>"

lemma AddStage_first:
  assumes "gParent g = []" and "gChildren g = []" and "sDependsOn st = []" and "sName st \<noteq> RootNodeName"
  shows "AddStage g sr st = Inr ((addNode g (sName st) sr)\<lparr>gParent := [(sName st, [RootNodeName])],
    gChildren := [(RootNodeName, [sName st])]\<rparr>)"
  using assms
  by (simp add: AddStage_def addNode_def addEdge_def cycleDfs.simps succs_def get_or_def Let_def)

definition demo_store :: store where
  "demo_store = \<lparr>stTasks = \<lambda>_. NewTask ''a'', stStages = \<lambda>_. root_stage 0 ''ci'',
     stGraphs = \<lambda>_. empty_graph 0 ''ci'', stEnvfiles = \<lambda>_. NewEnvFile [], stNext = 10\<rparr>"

lemmas demo_eval = op_simps op_bind_def op_then_def Let_def buildStage_def stage_target_def demo_stage_def
  stage_name_def envfile_ref_def stage_dir_def set_task_def set_graph_def new_envfile_def new_stage_def
  forbiddenCharSequence_def PipelineDirectionChar_def empty_graph_def RootNodeName_def add_stage_to_def
  AddStage_first stage_of_fields addNode_def buildPipeline_def check_pipeline_def missing_deps_def
  root_names_def node_stages_def List.map_filter_simps root_stage_def NewStage_def UpdateStatus_def

lemma demo_built:
  "\<exists>cfg s'. buildFromDefinition demo_params demo_order demo_config ''/w'' s = (Inr cfg, s')"
  by (simp add: buildFromDefinition_def demo_order_def build_contexts_def build_tasks_def build_watchers_def
    new_pipelines_def build_pipelines_def new_pipeline_def new_task_def new_graph_def demo_eval)

theorem built_pipelines_witness:
  "\<exists>cfg s'. buildFromDefinition demo_params demo_order demo_config ''/w'' demo_store = (Inr cfg, s') \<and>
     (\<exists>gr ns. cPipelines cfg ''ci'' = Some gr \<and> length ns = 1 \<and> wf_pipeline s' gr ns)"
proof -
  obtain cfg s' where b: "buildFromDefinition demo_params demo_order demo_config ''/w'' demo_store = (Inr cfg, s')"
    using demo_built by blast
  have "orders demo_order demo_config"
    by (auto simp: orders_def demo_order_def demo_config_def EmptyConfig_def enumerates_map_def)
  note all = conjunct2 [OF built_pipelines [OF this b], rule_format]
  have "cfPipelines demo_config ''ci'' = Some [demo_stage ''a'' '''' ''/x'']" by (simp add: demo_config_def)
  from all [OF this] have "\<exists>gr ns. cPipelines cfg ''ci'' = Some gr \<and> length ns = 1 \<and> wf_pipeline s' gr ns"
    by simp
  with b show ?thesis by auto
qed

theorem buildPipeline_task_dir_witness:
  "\<exists>s'. buildPipeline 0 [demo_stage ''a'' '''' ''/x'']
      \<lparr>bmTasks = [''a'' \<mapsto> 7], bmPipelines = Map.empty\<rparr> demo_store = (Inr (), s') \<and> tDir (stTasks s' 7) = ''/x''"
proof -
  let ?cfg = "\<lparr>bmTasks = [''a'' \<mapsto> 7], bmPipelines = Map.empty\<rparr>"
  have "\<exists>s'. buildPipeline 0 [demo_stage ''a'' '''' ''/x''] ?cfg demo_store = (Inr (), s')"
    by (simp add: demo_eval demo_store_def)
  then obtain s' where s': "buildPipeline 0 [demo_stage ''a'' '''' ''/x''] ?cfg demo_store = (Inr (), s')" by blast
  from buildPipeline_task_dir [OF s', of 7] s' show ?thesis
    by (simp add: stage_task_dir_def demo_stage_def)
qed

theorem pipeline_stage_dir_crashes_witness:
  "fst (buildStage 0 \<lparr>bmTasks = Map.empty, bmPipelines = [''ci'' \<mapsto> 1]\<rparr>
     (demo_stage '''' ''ci'' ''/x'') demo_store) = Inl NilDereference"
  by (rule pipeline_stage_dir_crashes) (simp_all add: demo_stage_def)

end
