(* ===== verification/ConfigLoad.thy ===== *)
theory ConfigLoad
  imports Loader Build
begin

text \<open>
  The entry points of \<open>internal/config/loader.go\<close>: \<open>Load\<close> reads the global configuration of the
  user, finds the project's file, loads and builds it, merges it into the global one and
  validates the result. It composes theory \<open>Loader\<close> (reading definitions) and theory \<open>Build\<close> (building
  them). \<open>mergo.Merge\<close> is a parameter; it may also write to what the configurations point to, so
  it takes and returns the store.
\<close>

section \<open>State and parameters\<close>

record ('w, 'r, 'k, 'c) config_params =
  cp_loader :: "('w, 'r, 'k, 'c) loader_params"
  cp_build :: build_params
  cp_order :: "ConfigDefinition \<Rightarrow> map_order"
  cp_range :: "Config \<Rightarrow> (string \<times> ref) list"
  cp_merge :: "Config \<Rightarrow> Config \<Rightarrow> store \<Rightarrow> merge_end \<times> store"
  cp_home :: string

text \<open>\<open>cp_order\<close> and \<open>cp_range\<close> are the orders in which Go ranges over the maps of a definition and over
  the tasks of a configuration.\<close>

record 'w config_loader =
  clLoad :: "'w lstate"
  clDst :: Config
  clStore :: store

datatype config_error =
    ErrLoad loader_error
  | ErrBuild build_error
  | ErrMerge string
  | ErrNoDefaultConfig
  | ErrValidation string string

type_synonym ('w, 'a) cl = "('w config_loader, config_error, 'a) op"

text \<open>The operations of the other theories on their part of the state.\<close>

definition loading :: "('w, 'a) ld \<Rightarrow> ('w, 'a) cl" where
  "loading m = (\<lambda>s. case m (clLoad s) of
     (Inl e, t) \<Rightarrow> (Inl (ErrLoad e), s\<lparr>clLoad := t\<rparr>) | (Inr v, t) \<Rightarrow> (Inr v, s\<lparr>clLoad := t\<rparr>))"

definition building :: "'a build \<Rightarrow> ('w, 'a) cl" where
  "building m = (\<lambda>s. case m (clStore s) of
     (Inl e, t) \<Rightarrow> (Inl (ErrBuild e), s\<lparr>clStore := t\<rparr>) | (Inr v, t) \<Rightarrow> (Inr v, s\<lparr>clStore := t\<rparr>))"

section \<open>The default file\<close>

definition DefaultFileNames :: "string list" where
  "DefaultFileNames = [''eirctl.yaml'', ''tasks.yaml'']"

definition default_file :: "(string \<Rightarrow> bool) \<Rightarrow> string \<Rightarrow> string option" where
  "default_file exists_file dir = find exists_file (map (\<lambda>v. JoinPath [dir, v]) DefaultFileNames)"

text \<open>The loop of \<open>ResolveDefaultConfigFile\<close>: a directory that is its own parent ends it.\<close>

function resolve_up :: "(string \<Rightarrow> bool) \<Rightarrow> string \<Rightarrow> (string \<times> string) option" where
  "resolve_up exists_file dir =
     (if dir = Dir dir then None
      else (case default_file exists_file dir of
          Some file \<Rightarrow> Some (file, dir)
        | None \<Rightarrow> resolve_up exists_file (Dir dir)))"
  by pat_completeness auto
termination
  by (relation "measure (\<lambda>(ex, d). up_measure d)") (auto dest: Dir_shrinks not_sym)

declare resolve_up.simps [simp del]

definition ResolveDefaultConfigFile :: "('w, 'r, 'k, 'c) config_params \<Rightarrow> ('w, string) cl" where
  "ResolveDefaultConfigFile p = (\<lambda>s.
     case resolve_up (io_exists (lp_io (cp_loader p)) (lWorld (clLoad s))) (lDir (clLoad s)) of
       None \<Rightarrow> (Inl ErrNoDefaultConfig, s)
     | Some (file, dir) \<Rightarrow> (Inr file, s\<lparr>clLoad := (clLoad s)\<lparr>lDir := dir\<rparr>\<rparr>))"

section \<open>Loading a configuration\<close>

definition reset_imports :: "('w, unit) cl" where
  "reset_imports = op_modify (\<lambda>s. s\<lparr>clLoad := (clLoad s)\<lparr>lImports := {}\<rparr>\<rparr>)"

definition build_config ::
  "('w, 'r, 'k, 'c) config_params \<Rightarrow> nat \<Rightarrow> string \<Rightarrow> string \<Rightarrow> ('w, Config) cl" where
  "build_config p n file dir =
     op_bind (loading (load (cp_loader p) n (plain_import file))) (\<lambda>def.
       building (buildFromDefinition (cp_build p) (cp_order p def) def dir))"

definition merge_into :: "('w, 'r, 'k, 'c) config_params \<Rightarrow> Config \<Rightarrow> ('w, unit) cl" where
  "merge_into p src = (\<lambda>s.
     case cp_merge p (clDst s) src (clStore s) of
       (ending, st) \<Rightarrow> (case config_merge ending of
           Inl e \<Rightarrow> (Inl (ErrMerge e), s\<lparr>clStore := st\<rparr>)
         | Inr c \<Rightarrow> (Inr (), s\<lparr>clStore := st, clDst := c\<rparr>)))"

definition global_file :: "string \<Rightarrow> string" where
  "global_file home = JoinPath [home, ''.eirctl'', ''config.yaml'']"

definition LoadGlobalConfig :: "('w, 'r, 'k, 'c) config_params \<Rightarrow> nat \<Rightarrow> ('w, unit) cl" where
  "LoadGlobalConfig p n =
     (if cp_home p = '''' then op_return ()
      else op_bind (op_get (\<lambda>s. io_exists (lp_io (cp_loader p)) (lWorld (clLoad s)) (global_file (cp_home p))))
        (\<lambda>found. if \<not> found then op_return ()
          else op_bind (build_config p n (global_file (cp_home p)) '''') (merge_into p)))"

text \<open>The first task, in the order of the range, whose context is named and does not exist.\<close>

definition bad_context :: "store \<Rightarrow> Config \<Rightarrow> string \<times> ref \<Rightarrow> bool" where
  "bad_context st c kr \<longleftrightarrow> (let t = stTasks st (snd kr) in tContext t \<noteq> '''' \<and> cContexts c (tContext t) = None)"

definition Validate :: "('w, 'r, 'k, 'c) config_params \<Rightarrow> ('w, Config) cl" where
  "Validate p = (\<lambda>s.
     case find (bad_context (clStore s) (clDst s)) (cp_range p (clDst s)) of
       Some kr \<Rightarrow> (let t = stTasks (clStore s) (snd kr) in (Inl (ErrValidation (tName t) (tContext t)), s))
     | None \<Rightarrow> (Inr (clDst s), s))"

definition config_path :: "('w, 'r, 'k, 'c) loader_params \<Rightarrow> string \<Rightarrow> string \<Rightarrow> string" where
  "config_path p dir file = (if \<not> IsURL p file \<and> \<not> IsAbs file then JoinPath [dir, file] else file)"

definition note_source :: "string \<Rightarrow> string \<Rightarrow> ('w, unit) cl" where
  "note_source dir file = op_modify (\<lambda>s. s\<lparr>clDst := (clDst s)
     \<lparr>cVariables := Set (cVariables (clDst s)) ''Root'' (GStr dir), cSourceFile := file\<rparr>\<rparr>)"

definition Load :: "('w, 'r, 'k, 'c) config_params \<Rightarrow> nat \<Rightarrow> string \<Rightarrow> ('w, Config) cl" where
  "Load p n arg =
     op_then reset_imports
     (op_bind (op_get (\<lambda>s. lDir (clLoad s))) (\<lambda>cwd.
     op_then (LoadGlobalConfig p n)
     (op_bind (if arg = '''' then ResolveDefaultConfigFile p else op_return arg) (\<lambda>arg.
     op_bind (op_get (\<lambda>s. lDir (clLoad s))) (\<lambda>dir.
     (let file = config_path (cp_loader p) dir arg in
     op_bind (build_config p n file cwd) (\<lambda>localCfg.
     op_then (merge_into p localCfg)
     (op_then (note_source dir file)
     (Validate p)))))))))"

lemma ex_nat_Suc: "(\<exists>n. Q n) \<longleftrightarrow> Q 0 \<or> (\<exists>n. Q (Suc n))"
  by (metis not0_implies_Suc)

section \<open>The search for the default file\<close>

text \<open>the default file that is found is the one of the nearest directory above the start that
  has one, \<open>eirctl.yaml\<close> before \<open>tasks.yaml\<close>; the directories that are searched are those strictly
  below the one that is its own parent.\<close>

theorem resolve_up_nearest:
  "resolve_up ex d = Some (fl, dir) \<longleftrightarrow>
     (\<exists>n. dir = (Dir ^^ n) d \<and> default_file ex dir = Some fl \<and> Dir dir \<noteq> dir \<and>
       (\<lambda>m. (Dir ((Dir ^^ m) d) = (Dir ^^ m) d, default_file ex ((Dir ^^ m) d))) ` {..< n} \<subseteq> {(False, None)})"
    (is "_ \<longleftrightarrow> (\<exists>n. ?P ex d n)")
proof (induction ex d rule: resolve_up.induct)
  case (1 ex d)

  have up: "?P ex d (Suc n) \<longleftrightarrow> Dir d \<noteq> d \<and> default_file ex d = None \<and> ?P ex (Dir d) n" for n
    by (auto simp: lessThan_Suc_eq_insert_0 image_image funpow_swap1 image_subset_iff)
  have zero: "?P ex d 0 \<longleftrightarrow> dir = d \<and> default_file ex d = Some fl \<and> Dir d \<noteq> d" by auto
  have e: "(\<exists>n. ?P ex d n) \<longleftrightarrow> dir = d \<and> default_file ex d = Some fl \<and> Dir d \<noteq> d \<or>
      Dir d \<noteq> d \<and> default_file ex d = None \<and> (\<exists>n. ?P ex (Dir d) n)"
    unfolding ex_nat_Suc [of "?P ex d"] up zero by blast
  show ?case
  proof (cases "d = Dir d")
    case True
    have "resolve_up ex d = None" by (subst resolve_up.simps) (simp add: True [symmetric])
    then show ?thesis unfolding e using True by simp
  next
    case False
    show ?thesis
    proof (cases "default_file ex d")
      case None
      have "resolve_up ex d = resolve_up ex (Dir d)"
        using False None by (subst resolve_up.simps) simp
      then show ?thesis unfolding e using False None "1.IH" [OF False None] by simp
    next
      case (Some f)
      have "resolve_up ex d = Some (f, d)"
        using False Some by (subst resolve_up.simps) simp
      then show ?thesis unfolding e using False Some by auto
    qed
  qed
qed

text \<open>the root directory is never searched: started there, the search for the default file fails
  whatever files there are.\<close>

theorem root_directory_not_searched:
  "lDir (clLoad s) = ''/'' \<Longrightarrow> ResolveDefaultConfigFile p s = (Inl ErrNoDefaultConfig, s)"
  by (simp add: ResolveDefaultConfigFile_def resolve_up.simps Dir_def LastIndexByte_def Clean_def
      clean_elems_def Split_def HasPrefix_def IsAbs_def)

section \<open>What is validated\<close>

lemma Validate_Inr:
  assumes "Validate p s = (Inr cfg, s')" and "enumerates_map (cp_range p (clDst s)) (cTasks (clDst s))"
  shows "s' = s \<and> cfg = clDst s \<and>
    (\<lambda>r. tContext (stTasks (clStore s) r)) ` ran (cTasks cfg) \<subseteq> insert '''' (dom (cContexts cfg))"
proof -
  from assms(1) have f: "find (bad_context (clStore s) (clDst s)) (cp_range p (clDst s)) = None"
    and s: "s' = s" "cfg = clDst s"
    by (auto simp: Validate_def Let_def split: option.splits)
  have "tContext (stTasks (clStore s) r) \<in> insert '''' (dom (cContexts cfg))" if "r \<in> ran (cTasks cfg)" for r
  proof -
    from that s assms(2) obtain k where "(k, r) \<in> set (cp_range p (clDst s))"
      by (auto simp: ran_def enumerates_map_def) (metis map_of_SomeD)
    with f have "\<not> bad_context (clStore s) (clDst s) (k, r)" by (auto simp: find_None_iff)
    with s show ?thesis by (auto simp: bad_context_def Let_def)
  qed
  with s show ?thesis by blast
qed

lemma Load_Inr:
  assumes "Load p n arg s = (Inr cfg, s')"
  obtains s2 localCfg s3 s4 s5 dir fl
  where "LoadGlobalConfig p n (s\<lparr>clLoad := (clLoad s)\<lparr>lImports := {}\<rparr>\<rparr>) = (Inr (), s2)"
    and "clDst s3 = clDst s2" and "merge_into p localCfg s3 = (Inr (), s4)"
    and "note_source dir fl s4 = (Inr (), s5)" and "Validate p s5 = (Inr cfg, s')"
proof -
  have kb: "clDst t' = clDst t" if "build_config p n f d t = (r, t')" for f d t r t'
    using that
    by (auto simp: build_config_def op_bind_def loading_def building_def split: prod.splits sum.splits)
  have kr: "clDst t' = clDst t" if "ResolveDefaultConfigFile p t = (r, t')" for t r t'
    using that by (auto simp: ResolveDefaultConfigFile_def split: option.splits)
  from assms show thesis
    unfolding Load_def op_then_def op_bind_Inr Let_def
    by (auto simp: op_simps reset_imports_def split: if_splits dest!: kb kr intro: that)
qed

text \<open>in a configuration that loads, every task names no context or one that exists.\<close>

theorem loaded_contexts_exist:
  assumes "enumerates_map (cp_range p cfg) (cTasks cfg)" and "Load p n arg s = (Inr cfg, s')"
  shows "(\<lambda>r. tContext (stTasks (clStore s') r)) ` ran (cTasks cfg) \<subseteq> insert '''' (dom (cContexts cfg))"
proof -
  from assms(2) obtain s5 where v: "Validate p s5 = (Inr cfg, s')" by (rule Load_Inr)
  have "cfg = clDst s5" using v by (auto simp: Validate_def Let_def split: option.splits)
  with assms(1) Validate_Inr [OF v] show ?thesis by simp
qed

section \<open>The global configuration\<close>

text \<open>What mergo documents of a merge without overrides: a value of the destination that is set stays.\<close>

definition keeps_set_values :: "('w, 'r, 'k, 'c) config_params \<Rightarrow> bool" where
  "keeps_set_values p \<longleftrightarrow>
     (\<forall>dst src st c. config_merge (fst (cp_merge p dst src st)) = Inr c \<longrightarrow> cOutput dst \<noteq> '''' \<longrightarrow>
        cOutput c = cOutput dst)"

text \<open>an output format set in the global configuration is not overwritten by the project's own.\<close>

theorem global_output_wins:
  assumes "keeps_set_values p"
    and "LoadGlobalConfig p n (s\<lparr>clLoad := (clLoad s)\<lparr>lImports := {}\<rparr>\<rparr>) = (Inr (), t)" and "cOutput (clDst t) \<noteq> ''''"
    and "Load p n arg s = (Inr cfg, s')"
  shows "cOutput cfg = cOutput (clDst t)"
proof -
  from assms(4) obtain s2 localCfg s3 s4 s5 dir fl
    where 1: "LoadGlobalConfig p n (s\<lparr>clLoad := (clLoad s)\<lparr>lImports := {}\<rparr>\<rparr>) = (Inr (), s2)"
      "clDst s3 = clDst s2" "merge_into p localCfg s3 = (Inr (), s4)"
      "note_source dir fl s4 = (Inr (), s5)" "Validate p s5 = (Inr cfg, s')"
    by (rule Load_Inr)
  from 1(1,2) assms(2) have "clDst s3 = clDst t" by simp
  moreover have "cOutput (clDst s4) = cOutput (clDst s3)" if "cOutput (clDst s3) \<noteq> ''''"
    using 1(3) that assms(1)
    by (auto simp: merge_into_def keeps_set_values_def split: prod.splits sum.splits) (metis fst_conv)
  moreover have "cOutput (clDst s5) = cOutput (clDst s4)" using 1(4) by (auto simp: note_source_def op_simps)
  moreover have "cfg = clDst s5" using 1(5) by (auto simp: Validate_def Let_def split: option.splits)
  ultimately show ?thesis using assms(3) by simp
qed

section \<open>Imports of the global configuration\<close>

text \<open>what the global configuration has imported the project's file does not get: \<open>Load\<close> forgets
  the visited sources before the global configuration only, so a project file all of whose imports the
  global configuration has loaded is loaded without any of them.\<close>

theorem global_imports_hidden:
  assumes "LoadGlobalConfig p k s = (Inr (), t)"
    and "get_config (cp_loader p) e ((clLoad t)\<lparr>lImports := insert (Src e) (lImports (clLoad t))\<rparr>) = (Inr config, s1)"
    and "(\<lambda>i. target (cp_loader p) (Dir (Src e)) (Src i)) ` set (cfImport config) \<subseteq> lImports (clLoad t)"
  shows "load (cp_loader p) (Suc n) e (clLoad t) = (Inr config, s1)"
proof -
  have vis: "lImports s1 = insert (Src e) (lImports (clLoad t))" using get_config_reads [OF assms(2)] by simp
  have one: "import_one q ld d i b s1 = (Inr b, s1)" if "target q d (Src i) \<in> lImports s1" for q ld d i b
    using that by (auto simp: import_one_def target_def op_bind_def op_simps Let_def)
  have "parseImports q ld d is b s1 = (Inr b, s1)" if "(\<lambda>i. target q d (Src i)) ` set is \<subseteq> lImports s1"
    for q ld d "is" b
    using that by (induction "is" arbitrary: b) (auto simp: op_bind_def op_simps one)
  moreover have "(\<lambda>i. target (cp_loader p) (Dir (Src e)) (Src i)) ` set (cfImport config) \<subseteq> lImports s1"
    using assms(3) vis by blast
  ultimately have "parseImports (cp_loader p) (load (cp_loader p) n) (Dir (Src e)) (cfImport config) config s1
      = (Inr config, s1)" by blast
  then show ?thesis
    using assms(2) by (simp add: op_then_def op_bind_def visit_source_def op_modify_def)
qed

section \<open>A small run\<close>

text \<open>A user with a global configuration, and a project that sets the output as well.\<close>

definition small_io :: "unit io" where
  "small_io = \<lparr>io_home = ''/h'', io_sha256 = \<lambda>c. c, io_exists = \<lambda>w p. True, io_stat = \<lambda>w p. Inr False,
     io_open = \<lambda>w p. Some p, io_glob = \<lambda>w p. [], io_mkdir = \<lambda>p w. (False, w),
     io_create = \<lambda>p w. (False, w), io_write = \<lambda>p c w. (Some 0, w)\<rparr>"

definition global_def :: ConfigDefinition where
  "global_def = EmptyConfig\<lparr>cfOutput := ''raw'', cfImport := [plain_import ''/lib'']\<rparr>"

definition local_def :: ConfigDefinition where
  "local_def = EmptyConfig\<lparr>cfOutput := ''prefixed'', cfTasks := [''a'' \<mapsto> demo_task],
     cfImport := [plain_import ''/lib'']\<rparr>"

definition small_loader :: "(unit, unit, unit, unit) loader_params" where
  "small_loader = \<lparr>lp_io = small_io, lp_git = no_git, lp_url_err = \<lambda>s. True, lp_http = \<lambda>u w. Inr (404, ''''),
     lp_decode = \<lambda>s. Inr (Some (if s = ''/w/eirctl.yaml'' then local_def else if s = ''/lib'' then EmptyConfig else global_def)),
     lp_unmarshal = \<lambda>s. Inr EmptyConfig\<rparr>"

definition small_params :: "(unit, unit, unit, unit) config_params" where
  "small_params = \<lparr>cp_loader = small_loader, cp_build = demo_params,
     cp_order = \<lambda>def. \<lparr>moContexts = [], moTasks = (if cfOutput def = ''prefixed'' then [(''a'', demo_task)] else []),
       moWatchers = [], moPipelines = []\<rparr>,
     cp_range = \<lambda>c. [(''a'', 10)],
     cp_merge = \<lambda>dst src st. (MergeDone (src\<lparr>cOutput := (if cOutput dst = '''' then cOutput src else cOutput dst)\<rparr>), st),
     cp_home = ''/h''\<rparr>"

definition small_start :: "unit config_loader" where
  "small_start = \<lparr>clLoad = \<lparr>lImports = {}, lDir = ''/w'', lWorld = ()\<rparr>, clDst = NewConfig demo_params,
     clStore = demo_store\<rparr>"

lemma small_global_file: "global_file ''/h'' = ''/h/.eirctl/config.yaml''"
  by code_simp

lemma small_get:
  "HasPrefix f ''/'' \<Longrightarrow> get_config small_loader (plain_import f) s =
     (Inr (if f = ''/w/eirctl.yaml'' then local_def else if f = ''/lib'' then EmptyConfig else global_def), s)"
  by (cases f) (simp_all add: get_config_def get_url_def get_git_def get_file_def readFile_def or_read_def
        op_bind_def op_return_def op_map_error_def plain_import_def IsFileImport_def small_loader_def small_io_def
        IsURL_def IsGit_def gitPrefix_def HasPrefix_def)

lemma merge_empty: "mergeExistingWithImported b EmptyConfig path = Inr b"
proof -
  have "map_option f \<circ> Map.empty = Map.empty" for f :: "'x \<Rightarrow> 'y" by auto
  then show ?thesis
    by (simp add: mergeExistingWithImported_def merge_section_res_def EmptyConfig_def bind_res_def)
qed

lemma small_remote: "\<not> remote small_loader ''/lib''"
  by (simp add: remote_def IsURL_def small_loader_def IsGit_def gitPrefix_def HasPrefix_def)

lemma small_load_lib:
  "load small_loader (Suc n) (plain_import ''/lib'') s = (Inr EmptyConfig, s\<lparr>lImports := insert ''/lib'' (lImports s)\<rparr>)"
proof -
  have "HasPrefix ''/lib'' ''/''" by (simp add: HasPrefix_def)
  then show ?thesis
    by (simp add: op_then_def op_bind_def visit_source_def op_modify_def small_get plain_import_def [of "''/lib''"])
      (simp add: plain_import_def [symmetric] small_get EmptyConfig_def op_return_def)
qed

lemma small_import:
  "import_one small_loader (load small_loader (Suc n)) d (plain_import ''/lib'') b s =
     (Inr b, s\<lparr>lImports := insert ''/lib'' (lImports s)\<rparr>)"
proof -
  have "IsAbs ''/lib''" by simp
  then have f: "import_file d ''/lib'' = ''/lib''" by (simp add: import_file_def)
  show ?thesis
  proof (cases "''/lib'' \<in> lImports s")
    case True
    then show ?thesis
      by (simp add: import_one_def plain_import_def small_remote [unfolded plain_import_def] f op_bind_def op_simps
          Let_def insert_absorb)
  next
    case False
    have e: "(plain_import ''/lib'')\<lparr>Src := ''/lib''\<rparr> = plain_import ''/lib''" "Src (plain_import ''/lib'') = ''/lib''"
      by (simp_all add: plain_import_def)
    have "io_stat (lp_io small_loader) w p = Inr False" for w p by (simp add: small_loader_def small_io_def)
    with False show ?thesis
      by (simp add: import_one_def small_remote f op_bind_def op_simps Let_def e small_load_lib op_map_error_def
          merge_op_def merge_empty del: load.simps)
  qed
qed

lemma small_load:
  assumes "f = ''/w/eirctl.yaml'' \<and> c = local_def \<or> f = ''/h/.eirctl/config.yaml'' \<and> c = global_def"
  shows "load small_loader (Suc (Suc n)) (plain_import f) s = (Inr c, s\<lparr>lImports := {''/lib'', f} \<union> lImports s\<rparr>)"
proof -
  have "HasPrefix f ''/''" using assms by (auto simp: HasPrefix_def)
  then have g: "get_config small_loader (plain_import f) s = (Inr c, s)" for s
    using assms by (auto simp: small_get)
  have i: "cfImport c = [plain_import ''/lib'']" "Src (plain_import f) = f"
    using assms by (auto simp: local_def_def global_def_def plain_import_def)
  show ?thesis
    by (simp add: op_then_def op_bind_def visit_source_def op_simps g i small_import del: load.simps(2) [of small_loader "Suc n"])
qed

lemma small_build_global:
  "\<exists>c. buildFromDefinition demo_params (cp_order small_params global_def) global_def d st = (Inr c, st) \<and>
     cOutput c = ''raw''"
  by (simp add: buildFromDefinition_def small_params_def global_def_def EmptyConfig_def build_contexts_def
      build_tasks_def build_watchers_def new_pipelines_def build_pipelines_def op_simps op_bind_def op_then_def Let_def)

lemma small_build_local:
  "\<exists>c st'. buildFromDefinition demo_params (cp_order small_params local_def) local_def d st = (Inr c, st') \<and>
     cOutput c = ''prefixed'' \<and> cTasks c = [''a'' \<mapsto> stNext st] \<and> tContext (stTasks st' (stNext st)) = ''''"
  by (simp add: buildFromDefinition_def small_params_def local_def_def EmptyConfig_def build_contexts_def
      build_tasks_def build_watchers_def new_pipelines_def build_pipelines_def op_simps op_bind_def op_then_def Let_def
      new_task_def buildTask_def setDefaultVariables_def demo_task_def)

lemma small_global:
  "\<exists>t. LoadGlobalConfig small_params 2 (small_start\<lparr>clLoad := (clLoad small_start)\<lparr>lImports := {}\<rparr>\<rparr>) = (Inr (), t) \<and>
     cOutput (clDst t) = ''raw'' \<and> clStore t = demo_store \<and> ''/lib'' \<in> lImports (clLoad t) \<and> lDir (clLoad t) = ''/w''"
proof -
  have io: "io_exists (lp_io small_loader) w f" for w f by (simp add: small_loader_def small_io_def)
  have p: "cp_home small_params = ''/h''" "cp_loader small_params = small_loader" "cp_build small_params = demo_params"
    by (simp_all add: small_params_def)
  note m = small_params_def [THEN arg_cong [of _ _ cp_merge]]
  have g: "load small_loader 2 (plain_import ''/h/.eirctl/config.yaml'') s =
      (Inr global_def, s\<lparr>lImports := {''/lib'', ''/h/.eirctl/config.yaml''} \<union> lImports s\<rparr>)" for s
    using small_load [of "''/h/.eirctl/config.yaml''" global_def 0] by (simp add: numeral_2_eq_2 del: load.simps)
  obtain c where c: "buildFromDefinition demo_params (cp_order small_params global_def) global_def '''' demo_store =
      (Inr c, demo_store)" "cOutput c = ''raw''"
    using small_build_global by blast
  show ?thesis
    by (simp add: LoadGlobalConfig_def op_bind_def op_simps p io small_global_file build_config_def loading_def g
        building_def small_start_def c merge_into_def m NewConfig_def del: load.simps)
qed

lemma small_Load:
  "\<exists>cfg s'. Load small_params 2 ''/w/eirctl.yaml'' small_start = (Inr cfg, s') \<and> cTasks cfg = [''a'' \<mapsto> 10]"
proof -
  have p: "cp_home small_params = ''/h''" "cp_loader small_params = small_loader" "cp_build small_params = demo_params"
    "cp_range small_params c = [(''a'', 10)]" for c
    by (simp_all add: small_params_def)
  note m = small_params_def [THEN arg_cong [of _ _ cp_merge]]
  have g: "load small_loader 2 (plain_import ''/w/eirctl.yaml'') s =
      (Inr local_def, s\<lparr>lImports := {''/lib'', ''/w/eirctl.yaml''} \<union> lImports s\<rparr>)" for s
    using small_load [of "''/w/eirctl.yaml''" local_def 0] by (simp add: numeral_2_eq_2 del: load.simps)
  obtain t where t: "LoadGlobalConfig small_params 2 (small_start\<lparr>clLoad := (clLoad small_start)\<lparr>lImports := {}\<rparr>\<rparr>) = (Inr (), t)"
    "clStore t = demo_store" "lDir (clLoad t) = ''/w''"
    using small_global by blast
  obtain c st where c: "buildFromDefinition demo_params (cp_order small_params local_def) local_def ''/w'' demo_store =
      (Inr c, st)" "cTasks c = [''a'' \<mapsto> 10]" "tContext (stTasks st 10) = ''''"
    using small_build_local [of "''/w''" demo_store] by (auto simp: demo_store_def)
  define t2 where "t2 = t\<lparr>clLoad := (clLoad t)\<lparr>lImports := {''/lib'', ''/w/eirctl.yaml''} \<union> lImports (clLoad t)\<rparr>, clStore := st\<rparr>"
  define t3 where "t3 = t2\<lparr>clDst := c\<lparr>cOutput := (if cOutput (clDst t) = '''' then cOutput c else cOutput (clDst t))\<rparr>\<rparr>"
  have b: "build_config small_params 2 ''/w/eirctl.yaml'' ''/w'' t = (Inr c, t2)"
    by (simp add: build_config_def loading_def building_def op_bind_def p g t(2) c(1) t2_def del: load.simps)
  have e: "merge_into small_params c t2 = (Inr (), t3)"
    by (simp add: merge_into_def m t2_def t3_def)
  have v: "\<exists>cfg s'. op_bind (note_source d f) (\<lambda>_. Validate small_params) t3 = (Inr cfg, s') \<and> cTasks cfg = [''a'' \<mapsto> 10]" for d f
    by (simp add: op_bind_def note_source_def op_simps Validate_def p bad_context_def t3_def t2_def c)
  have "IsAbs ''/w/eirctl.yaml''" by simp
  then have f: "config_path small_loader dir ''/w/eirctl.yaml'' = ''/w/eirctl.yaml''" for dir
    by (simp add: config_path_def)
  have r: "reset_imports small_start = (Inr (), small_start\<lparr>clLoad := (clLoad small_start)\<lparr>lImports := {}\<rparr>\<rparr>)"
    by (simp add: reset_imports_def op_simps)
  have w: "lDir (clLoad small_start) = ''/w''"
    by (simp add: small_start_def)
  have "\<exists>d. Load small_params 2 ''/w/eirctl.yaml'' small_start = op_bind (note_source d ''/w/eirctl.yaml'') (\<lambda>_. Validate small_params) t3"
    unfolding Load_def op_then_def Let_def p
    by (rule exI) (simp add: op_bind_eval(1) r w t(1) b e f op_simps del: load.simps)
  with v show ?thesis by metis
qed

theorem loaded_contexts_exist_witness:
  "\<exists>cfg s'. Load small_params 2 ''/w/eirctl.yaml'' small_start = (Inr cfg, s') \<and> cTasks cfg = [''a'' \<mapsto> 10] \<and>
     tContext (stTasks (clStore s') 10) \<in> insert '''' (dom (cContexts cfg))"
proof -
  obtain cfg s' where l: "Load small_params 2 ''/w/eirctl.yaml'' small_start = (Inr cfg, s')"
    "cTasks cfg = [''a'' \<mapsto> 10]"
    using small_Load by blast
  have "enumerates_map (cp_range small_params cfg) (cTasks cfg)"
    by (simp add: enumerates_map_def small_params_def l(2))
  have r: "10 \<in> ran (cTasks cfg)" by (auto simp: ran_def l(2))
  from loaded_contexts_exist [OF \<open>enumerates_map (cp_range small_params cfg) (cTasks cfg)\<close> l(1)] r
  have "tContext (stTasks (clStore s') 10) \<in> insert '''' (dom (cContexts cfg))" by (rule subsetD [OF _ imageI])
  with l show ?thesis by blast
qed

theorem global_output_wins_witness:
  "\<exists>cfg s'. Load small_params 2 ''/w/eirctl.yaml'' small_start = (Inr cfg, s') \<and> cOutput cfg = ''raw''"
proof -
  obtain cfg s' where l: "Load small_params 2 ''/w/eirctl.yaml'' small_start = (Inr cfg, s')"
    using small_Load by blast
  obtain t where t: "LoadGlobalConfig small_params 2 (small_start\<lparr>clLoad := (clLoad small_start)\<lparr>lImports := {}\<rparr>\<rparr>) = (Inr (), t)"
    "cOutput (clDst t) = ''raw''"
    using small_global by blast
  have k: "keeps_set_values small_params" by (auto simp: keeps_set_values_def small_params_def)
  from t(2) have "cOutput (clDst t) \<noteq> ''''" by simp
  from global_output_wins [OF k t(1) this l] l t(2) show ?thesis by simp
qed

theorem global_imports_hidden_witness:
  "\<exists>t s1. LoadGlobalConfig small_params 2 (small_start\<lparr>clLoad := (clLoad small_start)\<lparr>lImports := {}\<rparr>\<rparr>) = (Inr (), t) \<and>
     load small_loader 2 (plain_import ''/w/eirctl.yaml'') (clLoad t) = (Inr local_def, s1)"
proof -
  obtain t where t: "LoadGlobalConfig small_params 2 (small_start\<lparr>clLoad := (clLoad small_start)\<lparr>lImports := {}\<rparr>\<rparr>) = (Inr (), t)"
    "''/lib'' \<in> lImports (clLoad t)"
    using small_global by blast
  have p: "cp_loader small_params = small_loader" by (simp add: small_params_def)
  have "HasPrefix ''/w/eirctl.yaml'' ''/''" by (simp add: HasPrefix_def)
  then have g: "get_config (cp_loader small_params) (plain_import ''/w/eirctl.yaml'') s = (Inr local_def, s)" for s
    by (simp add: p small_get)
  have "IsAbs ''/lib''" by simp
  then have "target small_loader d ''/lib'' = ''/lib''" for d
    by (simp add: target_def small_remote import_file_def)
  then have "(\<lambda>i. target (cp_loader small_params) (Dir (Src (plain_import ''/w/eirctl.yaml''))) (Src i)) `
      set (cfImport local_def) \<subseteq> lImports (clLoad t)"
    using t(2) by (simp add: p local_def_def plain_import_def [of "''/lib''"])
  from global_imports_hidden [OF t(1) g this, of 1] t(1) show ?thesis
    unfolding p by (metis Suc_1)
qed

theorem root_directory_not_searched_witness:
  "ResolveDefaultConfigFile small_params (small_start\<lparr>clLoad := (clLoad small_start)\<lparr>lDir := ''/''\<rparr>\<rparr>) =
     (Inl ErrNoDefaultConfig, small_start\<lparr>clLoad := (clLoad small_start)\<lparr>lDir := ''/''\<rparr>\<rparr>)"
  by (rule root_directory_not_searched) simp

end
