(* ===== verification/RunStage.thy ===== *)
theory RunStage
  imports Flattening
begin

text \<open>
  \<open>runStage\<close> and \<open>cloneEnvFile\<close> of \<open>scheduler/scheduler.go\<close>: what the goroutine of a stage does before it
  hands the stage's task to the runner, on the heap of theory \<open>Denormalize\<close>. Scheduling a nested
  pipeline and running the task are parameters: theories \<open>Scheduler\<close> and \<open>Runner\<close> model them.
\<close>

definition cloneEnvFile :: "Envfile option \<Rightarrow> Envfile option" where
  "cloneEnvFile source = map_option (\<lambda>source. NewEnvFile [\<lambda>envfile. envfile\<lparr>Exclude := Exclude source,
     Include := Include source, PathValue := PathValue source, ReplaceChar := ReplaceChar source, Quote := Quote source,
     Modify := Modify source, GeneratedDir := GeneratedDir source\<rparr>]) source"

text \<open>The clone is a new object, which the task has from then on.\<close>

definition own_envfile :: "ref \<Rightarrow> unit dn" where
  "own_envfile t = (\<lambda>h. case hTaskEnv h t of
     None \<Rightarrow> (Inr (), h)
   | Some e \<Rightarrow> (Inr (), h\<lparr>hEnvfiles := (hEnvfiles h)(hNext h := the (cloneEnvFile (Some (hEnvfiles h e)))),
       hTaskEnv := (hTaskEnv h)(t := Some (hNext h)), hNext := Suc (hNext h)\<rparr>))"

definition prepare_task :: "denorm_params \<Rightarrow> ref \<Rightarrow> ref \<Rightarrow> unit dn" where
  "prepare_task p r t =
     op_then (own_envfile t)
    (op_then (upd_task t (\<lambda>h x. x\<lparr>tEnv := Merge (tEnv x) (sEnv (hStages h r))\<rparr>))
    (op_then (upd_task t (\<lambda>h x. x\<lparr>tVariables := Merge (tVariables x) (sVariables (hStages h r))\<rparr>))
    (op_bind (op_get (\<lambda>h. hTaskEnv h t)) (\<lambda>d. op_bind (EnvFile r) (envfileMerge p d)))))"

definition runStage :: "denorm_params \<Rightarrow> (ref \<Rightarrow> 'a dn) \<Rightarrow> (ref \<Rightarrow> 'a dn) \<Rightarrow> ref \<Rightarrow> 'a dn" where
  "runStage p schedule run r =
     op_bind (op_get (\<lambda>h. hStages h r)) (\<lambda>stage.
     case sPipeline stage of
       Some g \<Rightarrow> schedule g
     | None \<Rightarrow> (case sTask stage of
         None \<Rightarrow> op_throw DnNil
       | Some t \<Rightarrow> op_then (prepare_task p r t) (run t)))"

lemma clone_same: "the (cloneEnvFile (Some e)) = e"
  by (simp add: cloneEnvFile_def NewEnvFile_def ZeroEnvFile_def)

text \<open>What the task and the heap are when the runner gets the task.\<close>

definition prepared :: "denorm_params \<Rightarrow> ref \<Rightarrow> ref \<Rightarrow> ref \<Rightarrow> ref \<Rightarrow> heap \<Rightarrow> heap" where
  "prepared p r t e e2 h = h\<lparr>
    hTasks := (hTasks h)(t := (hTasks h t)\<lparr>tEnv := tEnv (hTasks h t) ++ sEnv (hStages h r),
      tVariables := tVariables (hTasks h t) ++ sVariables (hStages h r)\<rparr>),
    hTaskEnv := (hTaskEnv h)(t := Some (hNext h)),
    hEnvfiles := (hEnvfiles h)(hNext h := merged_envfile (dp_merge_env p) (hEnvfiles h e) (hEnvfiles h e2)),
    hNext := Suc (hNext h)\<rparr>"

lemma prepare_task_eq:
  assumes "hTaskEnv h t = Some e" and "sEnvfile (hStages h r) = Some e2" and "e2 < hNext h"
  shows "prepare_task p r t h = (Inr (), prepared p r t e e2 h)"
proof -
  let ?h0 = "h\<lparr>hEnvfiles := (hEnvfiles h)(hNext h := hEnvfiles h e), hTaskEnv := (hTaskEnv h)(t := Some (hNext h)), hNext := Suc (hNext h)\<rparr>"
  let ?h1 = "?h0\<lparr>hTasks := (hTasks h)(t := (hTasks h t)\<lparr>tEnv := tEnv (hTasks h t) ++ sEnv (hStages h r),
      tVariables := tVariables (hTasks h t) ++ sVariables (hStages h r)\<rparr>)\<rparr>"
  have o: "own_envfile t h = (Inr (), ?h0)" using assms(1) by (simp add: own_envfile_def clone_same)
  have u: "op_then (upd_task t f) m h = m (h\<lparr>hTasks := (hTasks h)(t := f h (hTasks h t))\<rparr>)" for f and m :: "unit dn" and h
    by (simp add: upd_task_def op_then_def op_bind_def op_simps)
  have "EnvFile r ?h1 = (Inr e2, ?h1)" using assms(2) by (intro EnvFile_some) simp
  then have b: "op_bind (EnvFile r) k ?h1 = k e2 ?h1" for k :: "ref \<Rightarrow> unit dn" by (rule op_bind_eval(1))
  have "prepare_task p r t h = op_bind (op_get (\<lambda>h. hTaskEnv h t)) (\<lambda>d. op_bind (EnvFile r) (envfileMerge p d)) ?h1"
    using o by (simp add: prepare_task_def op_then_def [of "own_envfile t"] op_bind_eval(1) u Merge_eq)
  also have "\<dots> = envfileMerge p (Some (hNext h)) e2 ?h1"
    by (subst op_bind_def) (simp add: op_simps b)
  finally show ?thesis using assms(3) by (simp add: envfileMerge_def op_simps prepared_def)
qed

lemma runStage_prepared:
  assumes "sTask (hStages h r) = Some t" and "sPipeline (hStages h r) = None"
    and "hTaskEnv h t = Some e" and "sEnvfile (hStages h r) = Some e2" and "e2 < hNext h"
  shows "runStage p schedule run r h = run t (prepared p r t e e2 h)"
  using prepare_task_eq [OF assms(3-5), of p] assms(1,2) by (simp add: runStage_def op_bind_def op_then_def op_simps)

section \<open>Properties\<close>

text \<open>running a stage leaves every env file there was before alone: the paths of the stage are added to a copy
  of the task's env file, which holds the paths of both, so that stages that run at the same time never
  write to an env file they share.\<close>

theorem running_keeps_envfiles:
  assumes "sTask (hStages h r) = Some t" and "sPipeline (hStages h r) = None"
    and "hTaskEnv h t = Some e" and "sEnvfile (hStages h r) = Some e2" and "e2 < hNext h"
  shows "\<exists>h'. runStage p schedule run r h = run t h' \<and> (\<forall>x < hNext h. hEnvfiles h' x = hEnvfiles h x) \<and>
    (\<exists>x. hTaskEnv h' t = Some x \<and> hNext h \<le> x \<and>
      set (PathValue (hEnvfiles h' x)) = set (PathValue (hEnvfiles h e)) \<union> set (PathValue (hEnvfiles h e2)))"
  unfolding runStage_prepared [OF assms]
  by (intro exI [of _ "prepared p r t e e2 h"]) (auto simp: prepared_def merged_envfile_def set_fold_add_path)

lemma stage_15: "sTask (hStages nested_heap 15) = Some 20" "sPipeline (hStages nested_heap 15) = None"
  "hTaskEnv nested_heap 20 = Some 30" "sEnvfile (hStages nested_heap 15) = Some 30" "30 < hNext nested_heap"
  by (simp_all add: nested_heap_def node_of_def NewStage_def)

theorem running_keeps_envfiles_witness:
  "\<exists>h' :: heap. (\<forall>x < hNext nested_heap. hEnvfiles h' x = hEnvfiles nested_heap x) \<and> (\<exists>x. hTaskEnv h' 20 = Some x \<and> hNext nested_heap \<le> x)"
  using running_keeps_envfiles [OF stage_15, of "in_order True" op_return "\<lambda>t h. (Inr t, h)"] by blast

text \<open>the runner gets the task with the environment of the stage over its own: for a stage of a denormalized
  pipeline, whose task already has the environment of the stage, running it once more changes nothing.\<close>

theorem running_env:
  assumes "sTask (hStages h r) = Some t" and "sPipeline (hStages h r) = None"
    and "hTaskEnv h t = Some e" and "sEnvfile (hStages h r) = Some e2" and "e2 < hNext h"
  shows "\<exists>h'. runStage p schedule run r h = run t h' \<and> tEnv (hTasks h' t) = tEnv (hTasks h t) ++ sEnv (hStages h r) \<and>
    (tEnv (hTasks h t) = sEnv (hStages h r) \<longrightarrow> tEnv (hTasks h' t) = tEnv (hTasks h t))"
  unfolding runStage_prepared [OF assms]
  by (intro exI conjI, rule refl) (simp_all add: prepared_def map_add_same)

theorem running_env_witness:
  "\<exists>h'. runStage (in_order True) op_return (\<lambda>t h. (Inr t, h)) 15 nested_heap = (Inr 20, h') \<and>
    tEnv (hTasks h' 20) = tEnv (hTasks nested_heap 20) ++ sEnv (hStages nested_heap 15)"
  using running_env [OF stage_15, of "in_order True" op_return "\<lambda>t h. (Inr t, h)"] by auto

text \<open>a task without an env file ends the program when a stage runs it.\<close>

theorem running_without_envfile_crashes:
  assumes "sTask (hStages h r) = Some t" and "sPipeline (hStages h r) = None" and "hTaskEnv h t = None"
  shows "fst (runStage p schedule run r h) = Inl DnNil"
proof -
  have "fst (prepare_task p r t h) = Inl DnNil"
    using assms(3) by (simp add: prepare_task_def own_envfile_def upd_task_def op_then_def op_bind_def op_simps EnvFile_def
        make_envfile_def upd_stage_def envfileMerge_def split: prod.splits option.splits)
  with assms show ?thesis
    by (cases "prepare_task p r t h") (simp add: runStage_def op_bind_def op_then_def op_simps)
qed

theorem running_without_envfile_crashes_witness:
  "fst (runStage (in_order True) op_return op_return 15 (nested_heap\<lparr>hTaskEnv := \<lambda>_. None\<rparr>)) = Inl DnNil"
  by (rule running_without_envfile_crashes [where t = 20]) (simp_all add: stage_15)

end
