(* ===== verification/Output.thy ===== *)
theory Output
  imports Tasks Stage
begin

text \<open>
  Package \<open>output\<close>: the writers a task's output goes through. An \<open>io.Writer\<close> is a function that is
  given the bytes and the world and returns the count, the error and the world after. A decorator
  captures the task's output variables and passes the output on through a \<open>SafeWriter\<close>, whose lock
  makes each write one step. The terminal spinner of the cockpit is \<open>briandowns/spinner\<close>'s; what the
  decorator does with it is kept as a list of its calls.
\<close>

section \<open>Writers\<close>

type_synonym write_result = "int \<times> string option"

datatype 'w io_writer =
    PlainWriter "string \<Rightarrow> 'w \<Rightarrow> write_result \<times> 'w"
  | multiWriter "'w io_writer list"

fun Write :: "'w io_writer \<Rightarrow> string \<Rightarrow> 'w \<Rightarrow> write_result \<times> 'w"
  and write_all :: "'w io_writer list \<Rightarrow> string \<Rightarrow> 'w \<Rightarrow> write_result \<times> 'w" where
  "Write (PlainWriter f) p w = f p w"
| "Write (multiWriter ws) p w = write_all ws p w"
| "write_all [] p w = ((int (length p), None), w)"
| "write_all (x # xs) p w =
     (case Write x p w of
        ((n, Some e), w') \<Rightarrow> ((n, Some e), w')
      | ((n, None), w') \<Rightarrow> write_all xs p w')"

fun writers_of :: "'w io_writer \<Rightarrow> 'w io_writer list" where
  "writers_of (multiWriter ws) = ws"
| "writers_of (PlainWriter f) = [PlainWriter f]"

definition MultiWriter :: "'w io_writer list \<Rightarrow> 'w io_writer" where
  "MultiWriter ws = multiWriter (concat (map writers_of ws))"

text \<open>A \<open>SafeWriter\<close> inside a decorator of a task: the bytes it has been given, and the world.\<close>

record 'w decorated =
  dcTask :: Task
  dcBytes :: string
  dcWorld :: 'w

definition SafeWriter_Write :: "'w io_writer \<Rightarrow> string \<Rightarrow> 'w decorated \<Rightarrow> write_result \<times> 'w decorated" where
  "SafeWriter_Write io p d =
     (case Write io p (dcWorld d) of
        (r, w) \<Rightarrow> (r, d\<lparr>dcBytes := dcBytes d @ p, dcWorld := w\<rparr>))"

definition SafeWriter_String :: "'w decorated \<Rightarrow> string" where
  "SafeWriter_String d = dcBytes d"

definition SafeWriter_Len :: "'w decorated \<Rightarrow> nat" where
  "SafeWriter_Len d = length (dcBytes d)"

definition capture :: "string \<Rightarrow> 'w decorated \<Rightarrow> 'w decorated" where
  "capture p d = d\<lparr>dcTask := HandleOutputCapture (dcTask d) p\<rparr>"

section \<open>Decorators\<close>

definition raw_Write :: "'w io_writer \<Rightarrow> string \<Rightarrow> 'w decorated \<Rightarrow> write_result \<times> 'w decorated" where
  "raw_Write io b d = SafeWriter_Write io b (capture b d)"

text \<open>\<open>bufio.ScanLines\<close> at the end of the input: how far to advance, and the line.\<close>

definition ScanLines :: "string \<Rightarrow> nat \<times> string" where
  "ScanLines p =
     (if p = [] then (0, [])
      else case find_index (\<lambda>c. c = CHR 0x0A) p of
             Some i \<Rightarrow> (i + 1, dropCR (take i p))
           | None \<Rightarrow> (length p, dropCR p))"

definition esc :: char where
  "esc = CHR 0x1B"

definition prefixed_line :: "string \<Rightarrow> string \<Rightarrow> string" where
  "prefixed_line name line = esc # ''[36m'' @ name @ esc # ''[0m: '' @ line @ [CHR 0x0D, CHR 0x0A]"

function prefixed_loop :: "'w io_writer \<Rightarrow> string \<Rightarrow> 'w decorated \<Rightarrow> string option \<times> 'w decorated" where
  "prefixed_loop io p d =
     (case ScanLines p of (advance, line) \<Rightarrow>
       if advance = 0 then (None, d)
       else (case SafeWriter_Write io (prefixed_line (tName (dcTask d)) line) (capture line d) of
          ((n, Some e), d') \<Rightarrow> (Some e, d')
        | ((n, None), d') \<Rightarrow> prefixed_loop io (drop advance p) d'))"
  by pat_completeness auto
termination
  by (relation "measure (\<lambda>(io, p, d). length p)") (auto simp: ScanLines_def split: if_splits option.splits)

declare prefixed_loop.simps [simp del]

definition prefixed_Write :: "'w io_writer \<Rightarrow> string \<Rightarrow> 'w decorated \<Rightarrow> write_result \<times> 'w decorated" where
  "prefixed_Write io p d =
     (case prefixed_loop io p d of
        (Some e, d') \<Rightarrow> ((0, Some e), d')
      | (None, d') \<Rightarrow> ((int (length p), None), d'))"

definition prefixed_WriteHeader :: "'w io_writer \<Rightarrow> 'w decorated \<Rightarrow> string option \<times> 'w decorated" where
  "prefixed_WriteHeader io d =
     (case SafeWriter_Write io (esc # ''[36m[INFO]'' @ esc # ''[0m: Running task '' @ tName (dcTask d) @ ''...'' @ [CHR 0x0A]) d of
        ((n, e), d') \<Rightarrow> (e, d'))"

definition prefixed_WriteFooter ::
  "(Task \<Rightarrow> string) \<Rightarrow> 'w io_writer \<Rightarrow> 'w decorated \<Rightarrow> string option \<times> 'w decorated" where
  "prefixed_WriteFooter duration io d =
     (case SafeWriter_Write io (esc # ''[36m[INFO]'' @ esc # ''[0m: '' @ tName (dcTask d) @ '' finished. Duration '' @
         duration (dcTask d) @ [CHR 0x0A]) d of
        ((n, e), d') \<Rightarrow> (e, d'))"

definition cockpit_Write :: "string \<Rightarrow> 'w decorated \<Rightarrow> write_result \<times> 'w decorated" where
  "cockpit_Write p d = ((int (length p), None), capture p d)"

section \<open>The cockpit\<close>

text \<open>
  The base of a cockpit: its running tasks, and the calls made on its spinner when there is one.
\<close>

datatype spinner_call = SpStart | SpFinal string | SpRestart

record baseCockpit =
  bcTasks :: "ref list"
  bcSpinner :: "spinner_call list option"

definition cockpit_start :: "baseCockpit \<Rightarrow> spinner_call list" where
  "cockpit_start b = (case bcSpinner b of Some s \<Rightarrow> s | None \<Rightarrow> [SpStart])"

definition cockpit_add :: "ref \<Rightarrow> baseCockpit \<Rightarrow> baseCockpit" where
  "cockpit_add t b =
     (let b = b\<lparr>bcTasks := bcTasks b @ [t]\<rparr> in
      if bcSpinner b = None then b\<lparr>bcSpinner := Some (cockpit_start b)\<rparr> else b)"

text \<open>
  The loop of \<open>remove\<close> ranges over the slice as it was when it began, \<open>n\<close> elements of the array \<open>arr\<close>,
  while each deletion shifts the current slice, the first \<open>len\<close> elements of the same array, in place.
  \<open>None\<close> is the panic of a slice out of its bounds.
\<close>

function remove_loop :: "ref \<Rightarrow> nat \<Rightarrow> nat \<Rightarrow> ref list \<Rightarrow> nat \<Rightarrow> (ref list \<times> nat) option" where
  "remove_loop t n k arr len =
     (if n \<le> k then Some (arr, len)
      else if arr ! k = t then
        (if len < k + 1 then None
         else remove_loop t n (k + 1)
           (take k arr @ take (len - (k + 1)) (drop (k + 1) arr) @ drop (len - 1) arr) (len - 1))
      else remove_loop t n (k + 1) arr len)"
  by pat_completeness auto
termination by (relation "measure (\<lambda>(t, n, k, arr, len). n - k)") auto

declare remove_loop.simps [simp del]

definition cockpit_tasks_without :: "ref \<Rightarrow> ref list \<Rightarrow> ref list option" where
  "cockpit_tasks_without t ts =
     map_option (\<lambda>(arr, len). take len arr) (remove_loop t (length ts) 0 ts (length ts))"

definition cockpit_mark :: "bool \<Rightarrow> string" where
  "cockpit_mark errored =
     esc # (if errored then ''[31m'' else ''[32m'') @
     map char_of (if errored then [0xE2, 0x9C, 0x97] else [0xE2, 0x9C, 0x94 :: nat]) @ esc # ''[0m''"

definition cockpit_remove :: "(Task \<Rightarrow> string) \<Rightarrow> Task \<Rightarrow> ref \<Rightarrow> baseCockpit \<Rightarrow> baseCockpit option" where
  "cockpit_remove duration tsk t b =
     (case cockpit_tasks_without t (bcTasks b) of None \<Rightarrow> None
      | Some ts \<Rightarrow> (case bcSpinner b of None \<Rightarrow> None
        | Some calls \<Rightarrow>
            Some (b\<lparr>bcTasks := ts, bcSpinner := Some (calls @
              [SpFinal (cockpit_mark (tErrored tsk) @ '' Finished '' @ esc # ''[1m'' @ tName tsk @ '' in '' @ duration tsk @
                 [CHR 0x0D, CHR 0x0A]), SpRestart, SpFinal ''''])\<rparr>)))"

section \<open>The output of a task\<close>

datatype OutputEnum = RawOutput | PrefixedOutput | CockpitOutput

definition output_enum :: "string \<Rightarrow> OutputEnum option" where
  "output_enum format =
     (if format = ''raw'' then Some RawOutput
      else if format = ''prefixed'' then Some PrefixedOutput
      else if format = ''cockpit'' then Some CockpitOutput else None)"

record TaskOutput =
  toDecorator :: OutputEnum
  toCockpitCh :: ref
  toClosed :: bool
  toCloseCh :: ref

text \<open>The channel made for the output is also the one a cockpit waits on.\<close>

definition NewTaskOutput :: "string \<Rightarrow> ref \<Rightarrow> string + TaskOutput" where
  "NewTaskOutput format ch =
     (case output_enum format of
        None \<Rightarrow> Inl (''unknown output decorator '' @ CHR 0x22 # format @ CHR 0x22 # '' requested'')
      | Some d \<Rightarrow> Inr \<lparr>toDecorator = d, toCockpitCh = ch, toClosed = False, toCloseCh = ch\<rparr>)"

definition WithCloseCh :: "ref \<Rightarrow> TaskOutput \<Rightarrow> TaskOutput" where
  "WithCloseCh ch o1 = o1\<lparr>toCloseCh := ch\<rparr>"

text \<open>\<open>Close\<close> returns the channel it closes, if any.\<close>

definition Close :: "TaskOutput \<Rightarrow> ref option \<times> TaskOutput" where
  "Close o1 = (if toClosed o1 then (None, o1) else (Some (toCloseCh o1), o1\<lparr>toClosed := True\<rparr>))"

text \<open>A write to the standard output or error of a task: both are its decorator.\<close>

definition output_Write ::
  "OutputEnum \<Rightarrow> 'w io_writer \<Rightarrow> string \<Rightarrow> 'w decorated \<Rightarrow> write_result \<times> 'w decorated" where
  "output_Write k io p d =
     (case k of RawOutput \<Rightarrow> raw_Write io p d
      | PrefixedOutput \<Rightarrow> prefixed_Write io p d
      | CockpitOutput \<Rightarrow> cockpit_Write p d)"

section \<open>Writers in a row\<close>

lemma write_all_append:
  "write_all (xs @ ys) p w =
     (case write_all xs p w of ((n, Some e), w') \<Rightarrow> ((n, Some e), w') | ((n, None), w') \<Rightarrow> write_all ys p w')"
  by (induction xs arbitrary: w) (auto split: prod.splits option.splits)

lemma write_all_writers_of:
  "write_all (writers_of x) p w =
     (case Write x p w of ((n, Some e), w') \<Rightarrow> ((n, Some e), w') | ((n, None), w') \<Rightarrow> ((int (length p), None), w'))"
proof (cases x)
  case (multiWriter ws)
  have "fst (write_all ws p w) = (n, None) \<Longrightarrow> n = int (length p)" for n
    by (induction ws arbitrary: w) (auto split: prod.splits option.splits)
  with multiWriter show ?thesis by (auto split: prod.splits option.splits)
qed (auto split: prod.splits option.splits)

text \<open>a writer made of writers, some of which are made of writers themselves, takes them apart once and
  still writes to every one in its order, stops at the same error with the same count, and leaves the
  world the same as the nested writers do.\<close>

theorem MultiWriter_flattens: "Write (MultiWriter ws) p w = Write (multiWriter ws) p w"
proof -
  have "write_all (concat (map writers_of ws)) p w = write_all ws p w"
    by (induction ws arbitrary: w) (auto simp: write_all_append write_all_writers_of split: prod.splits option.splits)
  then show ?thesis by (simp add: MultiWriter_def)
qed

section \<open>Lines\<close>

lemma lines_scan_cur: "lines_scan cur s = (if s = [] then (if cur = [] then [] else [rev cur]) else
    (case find_index (\<lambda>c. c = CHR 0x0A) s of None \<Rightarrow> [rev cur @ s]
     | Some i \<Rightarrow> (rev cur @ take i s) # lines_scan [] (drop (i + 1) s)))"
proof (induction s arbitrary: cur)
  case Nil
  then show ?case by simp
next
  case (Cons c s)
  show ?case
  proof (cases "c = CHR 0x0A")
    case False
    then show ?thesis
      by (cases "s = []"; cases "find_index (\<lambda>c. c = CHR 0x0A) s") (simp_all add: Cons.IH [of "c # cur"] del: find_index_None)
  qed simp
qed

lemma lines_scan_ScanLines:
  "map dropCR (lines_scan [] p) =
     (if p = [] then [] else snd (ScanLines p) # map dropCR (lines_scan [] (drop (fst (ScanLines p)) p)))"
  unfolding lines_scan_cur [of "[]" p]
  by (cases "find_index (\<lambda>c. c = CHR 0x0A) p") (simp_all add: ScanLines_def del: find_index_None)

section \<open>Fields of a text in pieces\<close>

lemma fields_scan_space: "is_space c \<Longrightarrow> fields_scan cur (a @ c # b) = fields_scan cur a @ fields_scan [] b"
  by (induction a arbitrary: cur) auto

lemma Fields_space: "is_space c \<Longrightarrow> Fields (a @ c # b) = Fields a @ Fields b"
  by (simp add: Fields_def fields_scan_space)

lemma line_ends_are_spaces: "is_space (CHR 0x0D)" "is_space (CHR 0x0A)"
  by code_simp+

lemma Fields_dropCR: "Fields (dropCR l) = Fields l"
proof (cases "l \<noteq> [] \<and> last l = CHR 0x0D")
  case True
  then have "l = butlast l @ [CHR 0x0D]" by (metis append_butlast_last_id)
  with Fields_space [OF line_ends_are_spaces(1), of "butlast l" "[]"] have "Fields l = Fields (butlast l)"
    by (simp add: Fields_def)
  with True show ?thesis by (simp add: dropCR_def)
qed (auto simp: dropCR_def)

lemma capture_pieces:
  "is_space c \<Longrightarrow> HandleOutputCapture (HandleOutputCapture t a) b = HandleOutputCapture t (a @ c # b)"
  by (simp add: HandleOutputCapture_def Fields_space capture_loop_eq List.map_filter_def)

lemma capture_ScanLines:
  assumes "p \<noteq> []"
  shows "HandleOutputCapture (HandleOutputCapture t (snd (ScanLines p))) (drop (fst (ScanLines p)) p) = HandleOutputCapture t p"
proof (cases "find_index (\<lambda>c. c = CHR 0x0A) p")
  case None
  with assms have "HandleOutputCapture t (snd (ScanLines p)) = HandleOutputCapture t p"
    by (simp add: ScanLines_def HandleOutputCapture_def Fields_dropCR del: find_index_None)
  moreover have "HandleOutputCapture t [] = t" for t by (simp add: HandleOutputCapture_def Fields_def)
  ultimately show ?thesis using None assms by (simp add: ScanLines_def del: find_index_None)
next
  case (Some i)
  from find_index_Some [OF Some] have i: "i < length p" "p ! i = CHR 0x0A" by simp_all
  have "take i p @ CHR 0x0A # drop (i + 1) p = p" using id_take_nth_drop [OF i(1)] i(2) by simp
  then have "HandleOutputCapture (HandleOutputCapture t (take i p)) (drop (i + 1) p) = HandleOutputCapture t p"
    by (simp only: capture_pieces [OF line_ends_are_spaces(2)])
  with Some assms show ?thesis by (simp add: ScanLines_def HandleOutputCapture_def Fields_dropCR)
qed

section \<open>Decorators over a writer that takes everything\<close>

definition reliable :: "'w io_writer \<Rightarrow> bool" where
  "reliable io \<longleftrightarrow> (\<forall>p w. fst (Write io p w) = (int (length p), None))"

lemma SafeWriter_reliable:
  "reliable io \<Longrightarrow> SafeWriter_Write io p d =
     ((int (length p), None), d\<lparr>dcBytes := dcBytes d @ p, dcWorld := snd (Write io p (dcWorld d))\<rparr>)"
  by (simp add: SafeWriter_Write_def reliable_def split: prod.split) (metis fst_conv snd_conv)

lemma capture_simps [simp]:
  "dcTask (capture p d) = HandleOutputCapture (dcTask d) p" "dcBytes (capture p d) = dcBytes d"
  "dcWorld (capture p d) = dcWorld d" "tName (HandleOutputCapture t p) = tName t"
  by (simp_all add: capture_def HandleOutputCapture_def)

text \<open>
  What a task's output relies on in a decorator: it takes every byte, and captures what the output
  says, whatever it shows of it.
\<close>

locale output_decorator =
  fixes wr :: "'w io_writer \<Rightarrow> string \<Rightarrow> 'w decorated \<Rightarrow> write_result \<times> 'w decorated"
  assumes takes_all: "reliable io \<Longrightarrow> fst (wr io p d) = (int (length p), None)"
    and captures: "reliable io \<Longrightarrow> dcTask (snd (wr io p d)) = HandleOutputCapture (dcTask d) p"
begin

lemma captures_sequence:
  "reliable io \<Longrightarrow> dcTask (fold (\<lambda>p d. snd (wr io p d)) ps d) = fold (\<lambda>p t. HandleOutputCapture t p) ps (dcTask d)"
  by (induction ps arbitrary: d) (simp_all add: captures)

end

lemma prefixed_loop_reliable:
  "reliable io \<Longrightarrow> \<exists>d'. prefixed_loop io p d = (None, d') \<and> dcTask d' = HandleOutputCapture (dcTask d) p \<and>
    dcBytes d' = dcBytes d @ concat (map (prefixed_line (tName (dcTask d)) \<circ> dropCR) (lines_scan [] p))"
proof (induction io p d rule: prefixed_loop.induct)
  case (1 io p d)
  show ?case
  proof (cases "p = []")
    case True
    then show ?thesis
      unfolding True prefixed_loop.simps [of io "[]"] by (simp add: ScanLines_def HandleOutputCapture_def Fields_def)
  next
    case False
    let ?a = "fst (ScanLines p)" and ?l = "snd (ScanLines p)"
    let ?d = "snd (SafeWriter_Write io (prefixed_line (tName (dcTask d)) ?l) (capture ?l d))"
    have a: "?a \<noteq> 0" using False by (auto simp: ScanLines_def split: option.split)
    note sw = SafeWriter_reliable [OF "1.prems"]
    have "\<exists>d'. prefixed_loop io (drop ?a p) ?d = (None, d') \<and> dcTask d' = HandleOutputCapture (dcTask ?d) (drop ?a p) \<and>
      dcBytes d' = dcBytes ?d @ concat (map (prefixed_line (tName (dcTask ?d)) \<circ> dropCR) (lines_scan [] (drop ?a p)))"
      by (rule "1.IH" [OF prod.collapse a]) (simp_all add: sw "1.prems")
    then obtain d' where
      d': "prefixed_loop io (drop ?a p) ?d = (None, d')" "dcTask d' = HandleOutputCapture (dcTask ?d) (drop ?a p)"
        "dcBytes d' = dcBytes ?d @ concat (map (prefixed_line (tName (dcTask ?d)) \<circ> dropCR) (lines_scan [] (drop ?a p)))"
      by blast
    have "prefixed_loop io p d = (None, d')"
      using a d'(1) by (simp add: prefixed_loop.simps [of io p] sw case_prod_beta)
    moreover have "dcTask d' = HandleOutputCapture (dcTask d) p"
      using capture_ScanLines [OF False] d'(2) by (simp add: sw)
    moreover have "dcBytes d' = dcBytes d @ concat (map (prefixed_line (tName (dcTask d)) \<circ> dropCR) (lines_scan [] p))"
      using d'(3) False arg_cong [OF lines_scan_ScanLines [of p], of "\<lambda>ls. concat (map (prefixed_line (tName (dcTask d))) ls)"]
      by (simp add: sw)
    ultimately show ?thesis by blast
  qed
qed

interpretation raw: output_decorator raw_Write
  by unfold_locales (simp_all add: raw_Write_def SafeWriter_reliable)

interpretation prefixed: output_decorator prefixed_Write
proof
  fix io :: "'a io_writer" and p d
  assume "reliable io"
  from prefixed_loop_reliable [OF this, of p d] show "fst (prefixed_Write io p d) = (int (length p), None)"
    "dcTask (snd (prefixed_Write io p d)) = HandleOutputCapture (dcTask d) p"
    by (auto simp: prefixed_Write_def)
qed

interpretation cockpit: output_decorator "\<lambda>io. cockpit_Write"
  by unfold_locales (simp_all add: cockpit_Write_def)

interpretation outw: output_decorator "output_Write k" for k
  by unfold_locales
    (simp_all add: output_Write_def raw.takes_all raw.captures prefixed.takes_all prefixed.captures
      cockpit.takes_all cockpit.captures split: OutputEnum.split)

definition output_writes ::
  "OutputEnum \<Rightarrow> 'w io_writer \<Rightarrow> string list \<Rightarrow> 'w decorated \<Rightarrow> 'w decorated" where
  "output_writes k io ps d = fold (\<lambda>p d. snd (output_Write k io p d)) ps d"

section \<open>Properties\<close>

text \<open>the output variables a task captures do not depend on the output format: every decorator captures
  from each write exactly what the task's own capture finds in its bytes, whether it passes the bytes on
  raw, line by line, or not at all.\<close>

theorem capture_ignores_format:
  assumes "reliable io"
  shows "dcTask (output_writes k io ps d) = fold (\<lambda>p t. HandleOutputCapture t p) ps (dcTask d)"
  unfolding output_writes_def by (rule outw.captures_sequence [OF assms])

definition silent_io :: "unit io_writer" where
  "silent_io = PlainWriter (\<lambda>p w. ((int (length p), None), w))"

lemma silent_io_reliable: "reliable silent_io"
  by (simp add: reliable_def silent_io_def)

theorem capture_ignores_format_witness:
  "tOutput (dcTask (output_writes PrefixedOutput silent_io [''EIRCTL_TASK_OUTPUT_A=1'']
     \<lparr>dcTask = NewTask ''t'', dcBytes = [], dcWorld = ()\<rparr>)) ''A'' = Some ''1''"
  by (subst capture_ignores_format [OF silent_io_reliable]) code_simp

text \<open>the prefixed decorator writes one line for each line of a write, cut as a scanner cuts lines:
  the name of the task in colour, the line without its end, and a carriage return and newline.\<close>

theorem prefixed_Write_lines:
  assumes "reliable io"
  shows "dcBytes (snd (prefixed_Write io p d)) =
    dcBytes d @ concat (map (\<lambda>l. prefixed_line (tName (dcTask d)) (dropCR l)) (lines_scan [] p))"
  using prefixed_loop_reliable [OF assms, of p d] by (auto simp: prefixed_Write_def comp_def)

theorem prefixed_Write_lines_witness:
  "dcBytes (snd (prefixed_Write silent_io [CHR ''a'', CHR 0x0D, CHR 0x0A, CHR ''b'']
     \<lparr>dcTask = NewTask ''t'', dcBytes = [], dcWorld = ()\<rparr>)) = prefixed_line ''t'' ''a'' @ prefixed_line ''t'' ''b''"
  by (subst prefixed_Write_lines [OF silent_io_reliable]) code_simp

lemma fields_scan_one: "\<forall>c \<in> set s. \<not> is_space c \<Longrightarrow> fields_scan cur s = (if cur = [] \<and> s = [] then [] else [rev cur @ s])"
  by (induction s arbitrary: cur) auto

lemma Fields_one: "s \<noteq> [] \<Longrightarrow> \<forall>c \<in> set s. \<not> is_space c \<Longrightarrow> Fields s = [s]"
  by (simp add: Fields_def fields_scan_one)

lemma output_prefix_no_space: "\<forall>c \<in> set output_prefix. \<not> is_space c"
  by code_simp

lemma HandleOutputCapture_assign:
  assumes "CHR ''='' \<notin> set k" and "\<forall>c \<in> set (k @ v). \<not> is_space c"
  shows "HandleOutputCapture t (output_prefix @ k @ CHR ''='' # v) = t\<lparr>tOutput := (tOutput t)(k \<mapsto> trim_both is_quote v)\<rparr>"
proof -
  have "\<not> is_space CHR ''=''" by code_simp
  with assms(2) output_prefix_no_space have "Fields (output_prefix @ k @ ''='' @ v) = [output_prefix @ k @ ''='' @ v]"
    by (intro Fields_one) auto
  with captured_assign [OF assms(1), of v] show ?thesis by (simp add: HandleOutputCapture_def)
qed

lemma HandleOutputCapture_other:
  assumes "\<forall>c \<in> set b. \<not> is_space c" and "\<not> HasPrefix b output_prefix"
  shows "HandleOutputCapture t b = t"
proof (cases "b = []")
  case False
  from Fields_one [OF False assms(1)] assms(2) show ?thesis by (simp add: HandleOutputCapture_def captured_def)
qed (simp add: HandleOutputCapture_def Fields_def)

text \<open>a captured value is cut where the output happens to be split between two writes: when the bytes of
  one field arrive in two pieces, every decorator stores the part of the value in the first piece, where
  a single write of the same bytes stores the whole value.\<close>

theorem capture_cut_by_write:
  assumes "reliable io" and "CHR ''='' \<notin> set k" and "\<forall>c \<in> set (k @ a @ b). \<not> is_space c"
    and "\<not> HasPrefix b output_prefix"
  shows "tOutput (dcTask (output_writes f io [output_prefix @ k @ ''='' @ a, b] d)) k = Some (trim_both is_quote a) \<and>
    tOutput (dcTask (output_writes f io [output_prefix @ k @ ''='' @ a @ b] d)) k = Some (trim_both is_quote (a @ b))"
proof -
  note c = outw.captures_sequence [OF assms(1), where k = f, folded output_writes_def]
  from assms(3) have "\<forall>c \<in> set (k @ a). \<not> is_space c" "\<forall>c \<in> set (k @ (a @ b)). \<not> is_space c" "\<forall>c \<in> set b. \<not> is_space c"
    by auto
  then show ?thesis
    using assms(2,4) by (simp add: c HandleOutputCapture_assign [OF assms(2)] HandleOutputCapture_other
        HandleOutputCapture_assign [OF assms(2), of "a @ b", simplified])
qed

theorem capture_cut_by_write_witness:
  "tOutput (dcTask (output_writes RawOutput silent_io [output_prefix @ ''A'' @ ''='' @ ''ver'', ''sion'']
     \<lparr>dcTask = NewTask ''t'', dcBytes = [], dcWorld = ()\<rparr>)) ''A'' = Some ''ver''"
proof -
  have "CHR ''='' \<notin> set ''A''" "\<forall>c \<in> set (''A'' @ ''ver'' @ ''sion''). \<not> is_space c" "\<not> HasPrefix ''sion'' output_prefix"
    "trim_both is_quote ''ver'' = ''ver''"
    by (simp, code_simp+)
  with capture_cut_by_write [OF silent_io_reliable this(1-3), of RawOutput] show ?thesis by simp
qed

section \<open>The tasks of a cockpit\<close>

lemma remove_loop_passes:
  "k \<le> m \<Longrightarrow> m \<le> n \<Longrightarrow> \<forall>j. k \<le> j \<and> j < m \<longrightarrow> arr ! j \<noteq> t \<Longrightarrow> remove_loop t n k arr len = remove_loop t n m arr len"
proof (induction "m - k" arbitrary: k)
  case (Suc x)
  then have k: "k < m" "arr ! k \<noteq> t" by auto
  then have "remove_loop t n k arr len = remove_loop t n (k + 1) arr len"
    using Suc.prems(2) by (subst remove_loop.simps) simp
  also have "\<dots> = remove_loop t n m arr len" using Suc.prems Suc.hyps(2) k(1) by (intro Suc.hyps(1)) auto
  finally show ?case .
qed simp

text \<open>the loop that deletes from the slice it ranges over finds and deletes a task that is there once,
  and leaves the other tasks in their order.\<close>

theorem cockpit_removes_task:
  assumes "t \<notin> set (xs @ ys)"
  shows "cockpit_tasks_without t (xs @ t # ys) = Some (xs @ ys)"
proof -
  let ?n = "length (xs @ t # ys)" and ?k = "length xs"
  let ?arr = "xs @ ys @ [last (t # ys)]"
  have "remove_loop t ?n 0 (xs @ t # ys) ?n = remove_loop t ?n ?k (xs @ t # ys) ?n"
    using assms by (intro remove_loop_passes) (auto simp: nth_append in_set_conv_nth)
  also have "\<dots> = remove_loop t ?n (?k + 1) ?arr (?n - 1)"
  proof -
    have d: "drop (?n - 1) (xs @ t # ys) = [last (t # ys)]"
      by (cases ys rule: rev_cases) auto
    have "take ?k (xs @ t # ys) @ take (?n - (?k + 1)) (drop (?k + 1) (xs @ t # ys)) @ drop (?n - 1) (xs @ t # ys) = ?arr"
      unfolding d by simp
    then show ?thesis by (subst remove_loop.simps) (simp del: drop_append take_append)
  qed
  also have "\<dots> = remove_loop t ?n ?n ?arr (?n - 1)"
    using assms
    by (intro remove_loop_passes) (auto simp: nth_append nth_Cons in_set_conv_nth last_conv_nth split: nat.splits)
  also have "\<dots> = Some (?arr, ?n - 1)" by (subst remove_loop.simps) simp
  finally show ?thesis by (simp add: cockpit_tasks_without_def)
qed

theorem cockpit_removes_task_witness: "cockpit_tasks_without 7 ([3] @ 7 # [5, 9]) = Some ([3] @ [5, 9])"
  by (rule cockpit_removes_task) simp

text \<open>A task that was started twice in the same cockpit ends the program when it finishes.\<close>

theorem cockpit_twice_panics: "cockpit_tasks_without t [t, t] = None"
  by (simp add: cockpit_tasks_without_def remove_loop.simps)

end
