(* ===== verification/ContainerExec.thy ===== *)
theory ContainerExec
  imports Runner
begin

text \<open>
  \<open>runner/executor_container.go\<close>, \<open>container_auth.go\<close>, \<open>container_opts_unix.go\<close> and the configuration of
  \<open>container_opts_windows.go\<close>: a job is run in a container of an engine. The engine is the Docker client,
  a parameter: each call is a function of its arguments and the world. The calls that were made are
  recorded in the state, with the container context, which the executor writes to and the next job of
  the context reads. Where the code selects over channels the world decides which of them is ready first.
  Left out are the goroutines that copy the streams of a container, the drawing of the progress bar, and
  the signals of a terminal that is resized.
\<close>

section \<open>The registry's credentials\<close>

record AuthConfig =
  acUsername :: string
  acPassword :: string
  acIdentityToken :: string

text \<open>Reading a Docker configuration and looking up a registry in it is \<open>docker/cli\<close>'s.\<close>

record 'k auth_params =
  ap_home :: "string option"
  ap_host :: host
  ap_load :: "string \<Rightarrow> string + 'k"
  ap_empty :: 'k
  ap_lookup :: "'k \<Rightarrow> string \<Rightarrow> string + AuthConfig"

datatype auth_error = ErrUserHomeDir | ErrAuthFileRead string | ErrAuthFileLoad string | ErrAuthLookup string

definition DOCKER_CONFIG_FILE :: string where
  "DOCKER_CONFIG_FILE = ''.docker/config.json''"

definition CONTAINER_CONFIG_FILE :: string where
  "CONTAINER_CONFIG_FILE = ''.config/containers/auth.json''"

definition auth_files :: "string \<Rightarrow> string list \<Rightarrow> string list" where
  "auth_files home contextEnv =
     (let authFiles = [JoinPath [home, DOCKER_CONFIG_FILE], JoinPath [home, CONTAINER_CONFIG_FILE]];
          containerEnv = ConvertFromEnv contextEnv in
      case containerEnv ''REGISTRY_AUTH_FILE'' of
        Some regFile \<Rightarrow> regFile # authFiles
      | None \<Rightarrow>
          (case containerEnv ''DOCKER_CONFIG'' of
             Some regFile \<Rightarrow> JoinPath [regFile, ''config.json''] # authFiles
           | None \<Rightarrow> authFiles))"

fun load_first :: "'k auth_params \<Rightarrow> string list \<Rightarrow> auth_error + 'k" where
  "load_first p [] = Inr (ap_empty p)"
| "load_first p (authFile # rest) =
     (case host_stat (ap_host p) authFile of
        StatOk k \<Rightarrow>
          (case host_open (ap_host p) authFile of
             None \<Rightarrow> Inl (ErrAuthFileRead authFile)
           | Some b \<Rightarrow> (case ap_load p b of Inl e \<Rightarrow> Inl (ErrAuthFileLoad e) | Inr af \<Rightarrow> Inr af))
      | _ \<Rightarrow> load_first p rest)"

definition registryAuthFile :: "'k auth_params \<Rightarrow> string list \<Rightarrow> auth_error + 'k" where
  "registryAuthFile p contextEnv =
     (case ap_home p of
        None \<Rightarrow> Inl ErrUserHomeDir
      | Some home \<Rightarrow> load_first p (auth_files home contextEnv))"

text \<open>Package \<open>encoding/base64\<close>, the standard alphabet with padding.\<close>

definition base64_alphabet :: string where
  "base64_alphabet = ''ABCDEFGHIJKLMNOPQRSTUVWXYZabcdefghijklmnopqrstuvwxyz0123456789+/''"

fun base64_groups :: "nat list \<Rightarrow> nat list" where
  "base64_groups (a # b # c # rest) =
     a div 4 # (a mod 4 * 16 + b div 16) # (b mod 16 * 4 + c div 64) # c mod 64 # base64_groups rest"
| "base64_groups [a, b] = [a div 4, a mod 4 * 16 + b div 16, b mod 16 * 4, 64]"
| "base64_groups [a] = [a div 4, a mod 4 * 16, 64, 64]"
| "base64_groups [] = []"

definition EncodeToString :: "string \<Rightarrow> string" where
  "EncodeToString s = map (\<lambda>i. (base64_alphabet @ ''='') ! i) (base64_groups (map byte s))"

definition quoted_field :: "string \<Rightarrow> string \<Rightarrow> string" where
  "quoted_field key v = CHR 0x22 # key @ CHR 0x22 # CHR '':'' # CHR 0x22 # v @ [CHR 0x22]"

definition container_registry_auth_basic :: "string \<Rightarrow> string \<Rightarrow> string" where
  "container_registry_auth_basic user password =
     ''{'' @ quoted_field ''username'' user @ '','' @ quoted_field ''password'' password @ ''}''"

definition container_registry_auth_oidc :: "string \<Rightarrow> string" where
  "container_registry_auth_oidc token = ''{'' @ quoted_field ''identitytoken'' token @ ''}''"

definition AuthLookupFunc :: "'k auth_params \<Rightarrow> string \<Rightarrow> string list \<Rightarrow> auth_error + string" where
  "AuthLookupFunc p img env =
     bind_res (registryAuthFile p env) (\<lambda>af.
       case ap_lookup p af (hd (Split img ''/'')) of
         Inl e \<Rightarrow> Inl (ErrAuthLookup e)
       | Inr authConf \<Rightarrow>
           if acUsername authConf \<noteq> '''' \<and> acPassword authConf \<noteq> '''' then
             Inr (EncodeToString (container_registry_auth_basic (acUsername authConf) (acPassword authConf)))
           else if acIdentityToken authConf \<noteq> '''' then
             Inr (EncodeToString (container_registry_auth_oidc (acIdentityToken authConf)))
           else Inr '''')"

section \<open>The configuration of a container\<close>

record ContainerConfig =
  cfImage :: string
  cfEntrypoint :: "string list"
  cfEnv :: "string list"
  cfCmd :: "string list"
  cfTty :: bool
  cfAttachStdin :: bool
  cfAttachStdout :: bool
  cfAttachStderr :: bool
  cfOpenStdin :: bool
  cfWorkingDir :: string
  cfUser :: string
  cfExposedPorts :: "string set"

record HostConfig =
  hcMounts :: "BindVolume set"
  hcBinds :: "string set"
  hcUsernsMode :: string
  hcPortBindings :: "string \<rightharpoonup> (string \<times> string) list"
  hcAutoRemove :: bool
  hcExtraHosts :: "string list"
  hcCapAdd :: "string list"
  hcConsoleSize :: "int \<times> int"

text \<open>Port specifications are parsed by \<open>go-connections\<close>: \<open>None\<close> is its error.\<close>

type_synonym port_parser = "string list \<Rightarrow> (string set \<times> (string \<rightharpoonup> (string \<times> string) list)) option"

definition Ports :: "port_parser \<Rightarrow> ContainerContext \<Rightarrow> string set \<times> (string \<rightharpoonup> (string \<times> string) list)" where
  "Ports pp c = (case pp (ccPorts c) of None \<Rightarrow> ({}, Map.empty) | Some r \<Rightarrow> r)"

definition container_config ::
  "port_parser \<Rightarrow> ContainerContext \<Rightarrow> string list \<Rightarrow> string list \<Rightarrow> string \<Rightarrow> bool \<Rightarrow> bool \<Rightarrow> ContainerConfig" where
  "container_config pp c cEnv cmd wd tty attachStdin =
     \<lparr>cfImage = ccImage c, cfEntrypoint = ccEntrypoint c, cfEnv = cEnv, cfCmd = cmd, cfTty = tty,
      cfAttachStdin = attachStdin, cfAttachStdout = False, cfAttachStderr = False, cfOpenStdin = False,
      cfWorkingDir = wd, cfUser = ccUser c, cfExposedPorts = fst (Ports pp c)\<rparr>"

definition host_config :: "port_parser \<Rightarrow> ContainerContext \<Rightarrow> BindVolume set \<Rightarrow> string set \<Rightarrow> HostConfig" where
  "host_config pp c mounts binds =
     \<lparr>hcMounts = mounts, hcBinds = binds, hcUsernsMode = ccUserns c, hcPortBindings = snd (Ports pp c),
      hcAutoRemove = True, hcExtraHosts = ccExtraHosts c, hcCapAdd = ccCapabilities c, hcConsoleSize = (0, 0)\<rparr>"

text \<open>
  On Unix a volume is a mount when the context asks for it and a bind otherwise; on Windows it is always a
  mount. The volumes come out of a map, in any order: the model keeps them as sets.
\<close>

definition platformContainerConfig ::
  "port_parser \<Rightarrow> ContainerContext \<Rightarrow> string list \<Rightarrow> string list \<Rightarrow> string \<Rightarrow> bool \<Rightarrow> bool \<Rightarrow> ContainerConfig \<times> HostConfig" where
  "platformContainerConfig pp c cEnv cmd wd tty attachStdin =
     (container_config pp c cEnv cmd wd tty attachStdin,
      host_config pp c (if ccBindMount c then BindMounts c else {})
        (if ccBindMount c then {} else (\<lambda>v. SourcePath v @ '':'' @ TargetPath v @ '':rw'') ` BindMounts c))"

definition platformContainerConfig_windows ::
  "port_parser \<Rightarrow> ContainerContext \<Rightarrow> string list \<Rightarrow> string list \<Rightarrow> string \<Rightarrow> bool \<Rightarrow> bool \<Rightarrow> ContainerConfig \<times> HostConfig" where
  "platformContainerConfig_windows pp c cEnv cmd wd tty attachStdin =
     (container_config pp c cEnv cmd wd tty attachStdin, host_config pp c (BindMounts c) {})"

text \<open>The first word of the command is always there: the command of the job is appended to the shell's.\<close>

definition mutateShellContainerConfig :: "ContainerConfig \<Rightarrow> ContainerConfig" where
  "mutateShellContainerConfig c =
     c\<lparr>cfTty := True, cfOpenStdin := True, cfAttachStdin := True, cfAttachStdout := True, cfAttachStderr := True,
       cfCmd := take 1 (cfCmd c)\<rparr>"

section \<open>The engine\<close>

datatype engine_error = IsNotFound string | EngineError string

text \<open>
  What ends a wait for a container: an error of the wait (or nil), an error of the log stream, the job's
  own context, or the container itself with its status.
\<close>

datatype wake = WaitErr "string option" | StreamErr "string option" | CtxCanceled | CtxDeadline | Exited int

datatype pull_result = PullRefused string | PullBroken string | PullDone

record 'w engine =
  en_create :: "ContainerConfig \<Rightarrow> HostConfig \<Rightarrow> (string \<times> string) option \<Rightarrow> 'w \<Rightarrow> (engine_error + string) \<times> 'w"
  en_pull :: "string \<Rightarrow> string \<Rightarrow> int option \<Rightarrow> 'w \<Rightarrow> pull_result \<times> 'w"
  en_start :: "string \<Rightarrow> 'w \<Rightarrow> string option \<times> 'w"
  en_logs :: "string \<Rightarrow> 'w \<Rightarrow> string option \<times> 'w"
  en_attach :: "string \<Rightarrow> 'w \<Rightarrow> string option \<times> 'w"
  en_raw :: "'w \<Rightarrow> string option \<times> 'w"
  en_wait :: "string \<Rightarrow> 'w \<Rightarrow> wake \<times> 'w"
  en_stop :: "string \<Rightarrow> 'w \<Rightarrow> string option \<times> 'w"
  en_remove :: "string \<Rightarrow> 'w \<Rightarrow> string option \<times> 'w"
  en_inspect :: "string \<Rightarrow> 'w \<Rightarrow> (engine_error + int) \<times> 'w"

datatype engine_call =
    CallCreate ContainerConfig HostConfig "engine_error + string"
  | CallPull string
  | CallStart string
  | CallLogs string
  | CallAttach string
  | CallRaw
  | CallWait string
  | CallStop string
  | CallRemove string
  | CallInspect string "engine_error + int"
  | CallClose

datatype container_error =
    ErrContainerPlatform context_error
  | ErrContainerAuth auth_error
  | ErrImagePull string
  | ErrPullCopy string
  | ErrContainerCreate string
  | ErrCreateFailed container_error
  | ErrContainerAttach string
  | ErrMakeRaw string
  | ErrContainerStart string
  | ErrContainerWait string
  | ErrContainerLogs string
  | ErrStream string
  | ErrDeadline
  | ExitStatus "8 word"
  | NeverCreated

record 'w cstate =
  csWorld :: 'w
  csCalls :: "engine_call list"
  csContainer :: ContainerContext

type_synonym ('w, 'a) ce = "('w cstate, container_error, 'a) op"

definition engine_call :: "('r \<Rightarrow> engine_call) \<Rightarrow> ('w \<Rightarrow> 'r \<times> 'w) \<Rightarrow> ('w, 'r) ce" where
  "engine_call c f = (\<lambda>s. case f (csWorld s) of (r, w) \<Rightarrow> (Inr r, s\<lparr>csWorld := w, csCalls := csCalls s @ [c r]\<rparr>))"

definition or_throw :: "(string \<Rightarrow> container_error) \<Rightarrow> string option \<Rightarrow> ('w, unit) ce" where
  "or_throw f r = (case r of None \<Rightarrow> op_return () | Some e \<Rightarrow> op_throw (f e))"

record ('w, 'k) container_params =
  cp_engine :: "'w engine"
  cp_auth :: "'k auth_params"
  cp_ports :: port_parser
  cp_tmpl :: tmpl_exec
  cp_enum :: "variables \<Rightarrow> (string \<times> gval) list"
  cp_stdin :: bool
  cp_terminal :: "(int \<times> int) \<times> bool"

section \<open>Creating a container\<close>

definition PullImage :: "('w, 'k) container_params \<Rightarrow> ContainerConfig \<Rightarrow> ('w, unit) ce" where
  "PullImage p cfg =
     op_bind (op_lift (case AuthLookupFunc (cp_auth p) (cfImage cfg) (cfEnv cfg) of
        Inl e \<Rightarrow> Inl (ErrContainerAuth e) | Inr a \<Rightarrow> Inr a)) (\<lambda>auth.
     op_bind (op_get (\<lambda>s. ccPullTimeout (csContainer s))) (\<lambda>t.
     op_bind (engine_call (\<lambda>_. CallPull (cfImage cfg))
        (en_pull (cp_engine p) (cfImage cfg) auth (if 0 < t then Some t else None))) (\<lambda>r.
     case r of
       PullRefused e \<Rightarrow> op_throw (ErrImagePull e)
     | PullBroken e \<Rightarrow> op_throw (ErrPullCopy e)
     | PullDone \<Rightarrow> op_return ())))"

text \<open>The recursion after a pull has no bound in the code; the first argument bounds the model's.\<close>

fun createContainer :: "nat \<Rightarrow> ('w, 'k) container_params \<Rightarrow> ContainerConfig \<Rightarrow> HostConfig \<Rightarrow> ('w, string) ce" where
  "createContainer 0 p cfg hc = op_throw NeverCreated"
| "createContainer (Suc n) p cfg hc =
     op_bind (op_get (\<lambda>s. Platform (csContainer s))) (\<lambda>pl.
     case pl of Inl e \<Rightarrow> op_throw (ErrContainerPlatform e)
     | Inr platform \<Rightarrow>
         op_bind (engine_call (CallCreate cfg hc) (en_create (cp_engine p) cfg hc platform)) (\<lambda>r.
         case r of
           Inr ident \<Rightarrow> op_return ident
         | Inl (IsNotFound m) \<Rightarrow> op_then (PullImage p cfg) (createContainer n p cfg hc)
         | Inl (EngineError m) \<Rightarrow> op_throw (ErrContainerCreate m)))"

section \<open>Running a job\<close>

text \<open>The errors of stopping and removing a container are only logged.\<close>

definition cleanupContainer :: "('w, 'k) container_params \<Rightarrow> string \<Rightarrow> ('w, unit) ce" where
  "cleanupContainer p c =
     op_bind (engine_call (\<lambda>_. CallStop c) (en_stop (cp_engine p) c)) (\<lambda>_.
     op_bind (engine_call (\<lambda>_. CallRemove c) (en_remove (cp_engine p) c)) (\<lambda>_. op_return ()))"

definition gone :: "engine_error \<Rightarrow> bool" where
  "gone e = (case e of IsNotFound _ \<Rightarrow> True | EngineError m \<Rightarrow> Contains m ''no such container'')"

definition checkExitStatus :: "('w, 'k) container_params \<Rightarrow> string \<Rightarrow> ('w, unit) ce" where
  "checkExitStatus p c =
     op_bind (engine_call (CallInspect c) (en_inspect (cp_engine p) c)) (\<lambda>r.
     case r of
       Inl e \<Rightarrow>
         if gone e then op_return ()
         else op_then (cleanupContainer p c) (op_throw (ExitStatus 125))
     | Inr exitCode \<Rightarrow>
         op_then (cleanupContainer p c)
           (if exitCode \<noteq> 0 then op_throw (ExitStatus (word_of_int exitCode)) else op_return ()))"

definition after_wait :: "('w, 'k) container_params \<Rightarrow> string \<Rightarrow> wake \<Rightarrow> ('w, unit) ce" where
  "after_wait p c wk =
     (case wk of
        WaitErr e \<Rightarrow> op_then (cleanupContainer p c) (op_then (or_throw ErrContainerWait e) (checkExitStatus p c))
      | StreamErr e \<Rightarrow> op_then (cleanupContainer p c) (op_then (or_throw ErrStream e) (checkExitStatus p c))
      | CtxCanceled \<Rightarrow> cleanupContainer p c
      | CtxDeadline \<Rightarrow> op_then (cleanupContainer p c) (op_throw ErrDeadline)
      | Exited _ \<Rightarrow> checkExitStatus p c)"

definition container_execute ::
  "nat \<Rightarrow> ('w, 'k) container_params \<Rightarrow> ContainerConfig \<Rightarrow> HostConfig \<Rightarrow> ('w, unit) ce" where
  "container_execute n p cfg hc =
     op_bind (op_map_error ErrCreateFailed (createContainer n p cfg (hc\<lparr>hcAutoRemove := False\<rparr>))) (\<lambda>c.
     op_bind (engine_call (\<lambda>_. CallStart c) (en_start (cp_engine p) c)) (\<lambda>e.
     op_then (or_throw ErrContainerStart e)
    (op_bind (engine_call (\<lambda>_. CallLogs c) (en_logs (cp_engine p) c)) (\<lambda>e.
     op_then (or_throw ErrContainerLogs e)
    (op_bind (engine_call (\<lambda>_. CallWait c) (en_wait (cp_engine p) c)) (after_wait p c))))))"

definition after_shell_wait :: "('w, 'k) container_params \<Rightarrow> string \<Rightarrow> wake \<Rightarrow> ('w, unit) ce" where
  "after_shell_wait p c wk =
     op_then (cleanupContainer p c)
       (case wk of
          WaitErr e \<Rightarrow> or_throw ErrContainerWait e
        | StreamErr e \<Rightarrow> op_return ()
        | CtxCanceled \<Rightarrow> op_return ()
        | CtxDeadline \<Rightarrow> op_throw ErrDeadline
        | Exited status \<Rightarrow> if status \<noteq> 0 then op_throw (ExitStatus (word_of_int status)) else op_return ())"

definition container_shell ::
  "nat \<Rightarrow> ('w, 'k) container_params \<Rightarrow> ContainerConfig \<Rightarrow> HostConfig \<Rightarrow> ('w, unit) ce" where
  "container_shell n p cfg hc =
     (let size = fst (cp_terminal p) in
      op_bind (createContainer n p (mutateShellContainerConfig cfg) (hc\<lparr>hcConsoleSize := (snd size, fst size)\<rparr>)) (\<lambda>c.
      op_bind (engine_call (\<lambda>_. CallAttach c) (en_attach (cp_engine p) c)) (\<lambda>e.
      op_then (or_throw ErrContainerAttach e)
     (op_then (if snd (cp_terminal p)
         then op_bind (engine_call (\<lambda>_. CallRaw) (en_raw (cp_engine p))) (or_throw ErrMakeRaw) else op_return ())
     (op_bind (engine_call (\<lambda>_. CallStart c) (en_start (cp_engine p) c)) (\<lambda>e.
      op_then (or_throw ErrContainerStart e)
     (op_bind (engine_call (\<lambda>_. CallWait c) (en_wait (cp_engine p) c)) (after_shell_wait p c))))))))"

text \<open>The directory of the job inside the container, and the environment it is given.\<close>

definition container_dir :: "ExecutionContext \<Rightarrow> Job \<Rightarrow> string" where
  "container_dir ec job = JoinPath [''/eirctl'', (if ecDir ec \<noteq> jDir job then jDir job else '''')]"

definition container_env ::
  "('w, 'k) container_params \<Rightarrow> ContainerContext \<Rightarrow> Job \<Rightarrow> string \<Rightarrow> string list" where
  "container_env p cc job wd =
     ConvertEnv (map (\<lambda>(k, v). (k, fmt_v v))
       (cp_enum p (Merge (Merge (jEnv job) (FromMap [''PWD'' \<mapsto> wd])) (FromMap (ccEnvOverride cc)))))"

definition resolve_image :: "('w, 'k) container_params \<Rightarrow> Job \<Rightarrow> ('w, unit) ce" where
  "resolve_image p job =
     op_modify (\<lambda>s. s\<lparr>csContainer := (csContainer s)\<lparr>ccImage :=
       (case ParseTemplate (cp_tmpl p) (ccImage (csContainer s)) (VarsMap (jVars job)) (VarsMap (jEnv job)) of
          Inl _ \<Rightarrow> '''' | Inr img \<Rightarrow> img)\<rparr>\<rparr>)"

definition ContainerExecutor_Execute ::
  "nat \<Rightarrow> ('w, 'k) container_params \<Rightarrow> ExecutionContext \<Rightarrow> Job \<Rightarrow> ('w, unit) ce" where
  "ContainerExecutor_Execute n p ec job = (\<lambda>s.
     case op_then (resolve_image p job)
       (op_bind (op_get csContainer) (\<lambda>cc.
        let wd = container_dir ec job;
            (cfg, hc) = platformContainerConfig (cp_ports p) cc (container_env p cc job wd)
              (ccShellArgs cc @ [jCommand job]) wd False False in
        if jIsShell job \<and> cp_stdin p then container_shell n p cfg hc else container_execute n p cfg hc)) s of
       (r, s') \<Rightarrow> (r, s'\<lparr>csCalls := csCalls s' @ [CallClose]\<rparr>))"

text \<open>What the caller sees of a result.\<close>

fun exec_of :: "container_error + unit \<Rightarrow> exec_result" where
  "exec_of (Inr _) = ExecOk"
| "exec_of (Inl (ExitStatus n)) = ExecStatus n"
| "exec_of (Inl _) = ExecErr ''container error''"

section \<open>The calls of an execution\<close>

lemma engine_bind:
  "op_bind (engine_call c f) k s =
     k (fst (f (csWorld s))) (s\<lparr>csWorld := snd (f (csWorld s)), csCalls := csCalls s @ [c (fst (f (csWorld s)))]\<rparr>)"
  by (simp add: op_bind_def engine_call_def split: prod.split)

lemma get_then_eq: "op_bind (op_get f) k s = k (f s) s" "op_bind (op_lift (Inr v)) k s = k v s"
  "op_bind (op_lift (Inl e)) k s = (Inl e, s)"
  by (simp_all add: op_bind_def op_simps)

lemma or_throw_then:
  "op_then (or_throw f r) m s = (case r of None \<Rightarrow> m s | Some e \<Rightarrow> (Inl (f e), s))"
  by (simp add: or_throw_def op_then_def op_bind_def op_simps split: option.split)

lemmas ce_steps = engine_bind get_then_eq or_throw_then op_simps

definition created :: "engine_call list \<Rightarrow> string set" where
  "created calls = {c. \<exists>cfg hc. CallCreate cfg hc (Inr c) \<in> set calls}"

definition settled :: "engine_call list \<Rightarrow> string set" where
  "settled calls = {c. CallRemove c \<in> set calls \<or> (\<exists>e. CallInspect c (Inl e) \<in> set calls \<and> gone e)}"

definition leaked :: "engine_call list \<Rightarrow> string set" where
  "leaked calls = created calls - settled calls"

lemma created_simps [simp]:
  "created [] = {}" "created (xs @ ys) = created xs \<union> created ys"
  "created (x # xs) = (case x of CallCreate _ _ (Inr c) \<Rightarrow> {c} | _ \<Rightarrow> {}) \<union> created xs"
  by (auto simp: created_def split: engine_call.splits sum.splits)

lemma settled_simps [simp]:
  "settled [] = {}" "settled (xs @ ys) = settled xs \<union> settled ys"
  "settled (x # xs) = (case x of CallRemove c \<Rightarrow> {c} | CallInspect c (Inl e) \<Rightarrow> if gone e then {c} else {} | _ \<Rightarrow> {}) \<union> settled xs"
  by (auto simp: settled_def split: engine_call.splits sum.splits if_splits)

definition before_wait :: "container_error \<Rightarrow> bool" where
  "before_wait e = (case e of ErrContainerStart _ \<Rightarrow> True | ErrContainerLogs _ \<Rightarrow> True
     | ErrContainerAttach _ \<Rightarrow> True | ErrMakeRaw _ \<Rightarrow> True | _ \<Rightarrow> False)"

lemma PullImage_calls:
  "PullImage p cfg s = (r, s') \<Longrightarrow> created (csCalls s') = created (csCalls s) \<and> settled (csCalls s') = settled (csCalls s) \<and>
     (\<forall>e. r = Inl e \<longrightarrow> \<not> before_wait e)"
  by (auto simp: PullImage_def ce_steps before_wait_def split: sum.splits pull_result.splits)

lemma createContainer_calls:
  "createContainer n p cfg hc s = (r, s') \<Longrightarrow> settled (csCalls s') = settled (csCalls s) \<and>
     created (csCalls s') = created (csCalls s) \<union> (case r of Inr c \<Rightarrow> {c} | Inl _ \<Rightarrow> {}) \<and> (\<forall>e. r = Inl e \<longrightarrow> \<not> before_wait e)"
proof (induction n arbitrary: s)
  case 0
  then show ?case by (auto simp: ce_steps before_wait_def)
next
  case (Suc n)
  show ?case
  proof (cases "Platform (csContainer s)")
    case (Inl e)
    with Suc.prems show ?thesis by (auto simp: ce_steps before_wait_def)
  next
    case (Inr platform)
    let ?c = "en_create (cp_engine p) cfg hc platform (csWorld s)"
    let ?t = "s\<lparr>csWorld := snd ?c, csCalls := csCalls s @ [CallCreate cfg hc (fst ?c)]\<rparr>"
    consider (ok) c where "fst ?c = Inr c" | (nf) m where "fst ?c = Inl (IsNotFound m)" | (err) m where "fst ?c = Inl (EngineError m)"
      by (cases "fst ?c"; cases "projl (fst ?c)") auto
    then show ?thesis
    proof cases
      case nf
      with Suc.prems Inr have m: "op_then (PullImage p cfg) (createContainer n p cfg hc) ?t = (r, s')"
        by (simp add: ce_steps)
      obtain q t where q: "PullImage p cfg ?t = (q, t)" by fastforce
      from PullImage_calls [OF q] nf have t: "created (csCalls t) = created (csCalls s)" "settled (csCalls t) = settled (csCalls s)"
        "\<forall>e. q = Inl e \<longrightarrow> \<not> before_wait e" by auto
      show ?thesis
      proof (cases q)
        case (Inl e)
        with m q t show ?thesis by (auto simp: op_then_def op_bind_def)
      next
        case (Inr u)
        with m q have "createContainer n p cfg hc t = (r, s')" by (simp add: op_then_def op_bind_def)
        from Suc.IH [OF this] t show ?thesis by simp
      qed
    qed (use Suc.prems Inr in \<open>auto simp: ce_steps before_wait_def\<close>)
  qed
qed

definition cleaned :: "('w, 'k) container_params \<Rightarrow> string \<Rightarrow> 'w cstate \<Rightarrow> 'w cstate" where
  "cleaned p c s = s\<lparr>csWorld := snd (en_remove (cp_engine p) c (snd (en_stop (cp_engine p) c (csWorld s)))),
     csCalls := csCalls s @ [CallStop c, CallRemove c]\<rparr>"

lemma cleaned_calls [simp]:
  "csCalls (cleaned p c s) = csCalls s @ [CallStop c, CallRemove c]" "csContainer (cleaned p c s) = csContainer s"
  by (simp_all add: cleaned_def)

lemma cleanup_eq: "cleanupContainer p c s = (Inr (), cleaned p c s)"
  by (simp add: cleanupContainer_def cleaned_def ce_steps)

lemma cleanup_then: "op_then (cleanupContainer p c) m s = m (cleaned p c s)"
  by (simp add: op_then_def op_bind_def cleanup_eq)

lemma checkExitStatus_calls:
  assumes "checkExitStatus p c s = (r, s')"
  shows "created (csCalls s') = created (csCalls s) \<and> settled (csCalls s') = insert c (settled (csCalls s)) \<and>
    (\<forall>e. r = Inl e \<longrightarrow> \<not> before_wait e)"
  using assms
  by (auto simp: checkExitStatus_def ce_steps cleanup_then before_wait_def split: sum.splits if_splits)

lemma after_wait_calls:
  assumes "after_wait p c wk s = (r, s')"
  shows "created (csCalls s') = created (csCalls s) \<and> settled (csCalls s') = insert c (settled (csCalls s)) \<and>
    (\<forall>e. r = Inl e \<longrightarrow> \<not> before_wait e)"
  using assms
  by (cases wk)
    (auto simp: after_wait_def ce_steps cleanup_then cleanup_eq before_wait_def split: option.splits
      dest!: checkExitStatus_calls)

lemma after_shell_wait_calls:
  assumes "after_shell_wait p c wk s = (r, s')"
  shows "created (csCalls s') = created (csCalls s) \<and> settled (csCalls s') = insert c (settled (csCalls s)) \<and>
    (\<forall>e. r = Inl e \<longrightarrow> \<not> before_wait e)"
  using assms
  by (cases wk)
    (auto simp: after_shell_wait_def ce_steps cleanup_then cleanup_eq before_wait_def or_throw_def split: option.splits if_splits)

text \<open>What both ways of running a container share: whatever was called between the creation and the wait.\<close>

definition settles :: "engine_call list \<Rightarrow> container_error + unit \<Rightarrow> engine_call list \<Rightarrow> bool" where
  "settles calls r calls' \<longleftrightarrow>
     (leaked calls = {} \<longrightarrow> ((\<exists>e. r = Inl e \<and> before_wait e) \<longrightarrow> leaked calls' \<noteq> {} \<or> created calls' \<inter> settled calls \<noteq> {}) \<and>
       ((\<forall>e. r = Inl e \<longrightarrow> \<not> before_wait e) \<longrightarrow> leaked calls' = {}))"

lemma settlesI:
  assumes "created calls' = created calls \<union> C" and "settled calls' = settled calls \<union> (if (\<exists>e. r = Inl e \<and> before_wait e) then {} else C)"
    and "(\<exists>e. r = Inl e \<and> before_wait e) \<Longrightarrow> C \<noteq> {}"
  shows "settles calls r calls'"
  using assms by (auto simp: settles_def leaked_def split: if_splits)

lemma container_execute_settles:
  assumes "container_execute n p cfg hc s = (r, s')"
  shows "settles (csCalls s) r (csCalls s')"
proof -
  obtain q t where q: "createContainer n p cfg (hc\<lparr>hcAutoRemove := False\<rparr>) s = (q, t)" by fastforce
  note k = createContainer_calls [OF q]
  show ?thesis
  proof (cases q)
    case (Inl e)
    with assms q have "r = Inl (ErrCreateFailed e)" "s' = t"
      by (auto simp: container_execute_def op_map_error_def op_bind_def)
    with k Inl show ?thesis by (intro settlesI [of _ _ "{}"]) (auto simp: before_wait_def)
  next
    case (Inr c)
    with assms q k show ?thesis
      by (intro settlesI [of _ _ "{c}"])
        (auto simp: container_execute_def op_map_error_def op_bind_eval(1) ce_steps before_wait_def
          split: option.splits dest!: after_wait_calls)
  qed
qed

lemma container_shell_settles:
  assumes "container_shell n p cfg hc s = (r, s')"
  shows "settles (csCalls s) r (csCalls s')"
proof -
  let ?size = "fst (cp_terminal p)"
  obtain q t where q: "createContainer n p (mutateShellContainerConfig cfg) (hc\<lparr>hcConsoleSize := (snd ?size, fst ?size)\<rparr>) s = (q, t)"
    by fastforce
  note k = createContainer_calls [OF q]
  show ?thesis
  proof (cases q)
    case (Inl e)
    with assms q have "r = Inl e" "s' = t"
      by (auto simp: container_shell_def Let_def op_bind_def)
    with k Inl show ?thesis by (intro settlesI [of _ _ "{}"]) auto
  next
    case (Inr c)
    have i: "op_then (if b then m else op_return ()) m' u = (if b then op_then m m' u else m' u)" for b m m' and u :: "'a cstate"
      by (simp add: op_then_def op_bind_def op_simps)
    have a: "op_then (op_bind (engine_call d f) g) m' u = op_bind (engine_call d f) (\<lambda>x. op_then (g x) m') u" for d f g m' and u :: "'a cstate"
      by (simp add: op_then_def op_bind_def engine_call_def split: prod.split)
    from Inr assms q k show ?thesis
      by (intro settlesI [of _ _ "{c}"])
        (auto simp: container_shell_def Let_def op_bind_eval(1) ce_steps i a before_wait_def
          split: option.splits if_splits dest!: after_shell_wait_calls)
  qed
qed

lemma Execute_settles:
  assumes "ContainerExecutor_Execute n p ec job s = (r, s')"
  shows "settles (csCalls s) r (csCalls s')"
proof -
  have close: "settles a q (b @ [CallClose]) \<longleftrightarrow> settles a q b" for a q b
    by (simp add: settles_def leaked_def)
  show ?thesis
    using assms
    by (auto simp: ContainerExecutor_Execute_def resolve_image_def op_then_def op_bind_def op_simps Let_def close
        split: prod.splits if_splits dest!: container_shell_settles container_execute_settles)
qed

section \<open>Properties\<close>


section \<open>What the calls of an execution say\<close>

text \<open>\<open>only P m\<close>: every call that \<open>m\<close> makes satisfies \<open>P\<close>, whether it fails or not.\<close>

definition only :: "(engine_call \<Rightarrow> bool) \<Rightarrow> ('w, 'a) ce \<Rightarrow> bool" where
  "only P m \<longleftrightarrow> (\<forall>s. list_all P (csCalls s) \<longrightarrow> list_all P (csCalls (snd (m s))))"

named_theorems only_intros \<open>operations whose calls satisfy a predicate\<close>

lemma only_basic [only_intros]:
  "only P (op_return v)" "only P (op_throw e)" "only P (op_lift r)" "only P (op_get h)"
  by (simp_all add: only_def op_simps)

lemma only_bind [only_intros]: "only P m \<Longrightarrow> (\<And>v. only P (h v)) \<Longrightarrow> only P (op_bind m h)"
  by (fastforce simp: only_def op_bind_def split: prod.splits sum.splits)

lemma only_then [only_intros]: "only P m \<Longrightarrow> only P n \<Longrightarrow> only P (op_then m n)"
  unfolding op_then_def by (intro only_bind)

lemma only_map_error [only_intros]: "only P m \<Longrightarrow> only P (op_map_error g m)"
  by (fastforce simp: only_def op_map_error_def split: prod.splits sum.splits)

lemma only_call [only_intros]: "(\<And>r. P (c r)) \<Longrightarrow> only P (engine_call c f)"
  by (auto simp: only_def engine_call_def split: prod.split)

lemma only_or_throw [only_intros]: "only P (or_throw f r)"
  by (auto simp: or_throw_def intro: only_intros split: option.split)

lemma only_if [only_intros]: "only P m \<Longrightarrow> only P n \<Longrightarrow> only P (if b then m else n)"
  by simp

definition with_image :: "string \<Rightarrow> engine_call \<Rightarrow> bool" where
  "with_image img c = (case c of CallCreate cfg _ _ \<Rightarrow> cfImage cfg = img | CallPull i \<Rightarrow> i = img | _ \<Rightarrow> True)"

lemma PullImage_image [only_intros]: "only (with_image (cfImage cfg)) (PullImage p cfg)"
  unfolding PullImage_def by (intro only_intros) (auto simp: with_image_def intro: only_intros split: pull_result.split)

lemma createContainer_image [only_intros]: "only (with_image (cfImage cfg)) (createContainer n p cfg hc)"
proof (induction n)
  case (Suc n)
  then show ?case
    by (auto intro!: only_intros split: sum.split engine_error.split simp: with_image_def [of _ "CallCreate _ _ _"])
qed (simp add: only_intros)

lemma cleanup_image [only_intros]: "only (with_image img) (cleanupContainer p c)"
  unfolding cleanupContainer_def by (intro only_intros) (simp_all add: with_image_def)

lemma after_image [only_intros]:
  "only (with_image img) (checkExitStatus p c)" "only (with_image img) (after_wait p c wk)"
  "only (with_image img) (after_shell_wait p c wk)"
proof -
  show c: "only (with_image img) (checkExitStatus p c)"
    unfolding checkExitStatus_def
    by (auto intro!: only_intros split: sum.split simp: with_image_def [of _ "CallInspect _ _"])
  show "only (with_image img) (after_wait p c wk)"
    by (cases wk) (auto simp: after_wait_def intro!: only_intros c)
  show "only (with_image img) (after_shell_wait p c wk)"
    by (cases wk) (auto simp: after_shell_wait_def intro!: only_intros)
qed

lemma container_execute_image: "cfImage cfg = img \<Longrightarrow> only (with_image img) (container_execute n p cfg hc)"
  unfolding container_execute_def
  by (auto intro!: only_intros simp: with_image_def [of _ "CallStart _"] with_image_def [of _ "CallLogs _"]
      with_image_def [of _ "CallWait _"])

lemma container_shell_image: "cfImage cfg = img \<Longrightarrow> only (with_image img) (container_shell n p cfg hc)"
proof -
  assume "cfImage cfg = img"
  then have "cfImage (mutateShellContainerConfig cfg) = img" by (simp add: mutateShellContainerConfig_def)
  from createContainer_image [of "mutateShellContainerConfig cfg" n p, unfolded this]
  show ?thesis unfolding container_shell_def Let_def
    by (auto intro!: only_intros simp: with_image_def [of _ "CallStart _"] with_image_def [of _ "CallAttach _"]
        with_image_def [of _ CallRaw] with_image_def [of _ "CallWait _"])
qed

text \<open>The image a job is run with: the template of the shared context, and nothing when it cannot be resolved.\<close>

definition resolved_image :: "('w, 'k) container_params \<Rightarrow> Job \<Rightarrow> string \<Rightarrow> string" where
  "resolved_image p job img =
     (case ParseTemplate (cp_tmpl p) img (VarsMap (jVars job)) (VarsMap (jEnv job)) of Inl _ \<Rightarrow> '''' | Inr i \<Rightarrow> i)"

lemma Execute_image:
  assumes "csCalls s = []"
  shows "list_all (with_image (resolved_image p job (ccImage (csContainer s))))
    (csCalls (snd (ContainerExecutor_Execute n p ec job s)))"
proof -
  let ?img = "resolved_image p job (ccImage (csContainer s))"
  let ?s = "s\<lparr>csContainer := (csContainer s)\<lparr>ccImage := ?img\<rparr>\<rparr>"
  let ?cc = "csContainer ?s" and ?wd = "container_dir ec job"
  obtain cfg hc where cfg: "platformContainerConfig (cp_ports p) ?cc (container_env p ?cc job ?wd)
      (ccShellArgs ?cc @ [jCommand job]) ?wd False False = (cfg, hc)" "cfImage cfg = ?img"
    by (simp add: platformContainerConfig_def container_config_def)
  let ?m = "if jIsShell job \<and> cp_stdin p then container_shell n p cfg hc else container_execute n p cfg hc"
  have "only (with_image ?img) ?m"
    using cfg(2) by (auto intro: container_shell_image container_execute_image)
  with assms have "list_all (with_image ?img) (csCalls (snd (?m ?s)))" by (simp add: only_def)
  moreover have "csCalls (snd (ContainerExecutor_Execute n p ec job s)) = csCalls (snd (?m ?s)) @ [CallClose]"
    using cfg(1) by (simp add: ContainerExecutor_Execute_def resolve_image_def op_then_def op_bind_def op_simps Let_def
        resolved_image_def split: prod.split)
  ultimately show ?thesis by (simp add: with_image_def)
qed

lemma keeps_call [keeps_intros]: "keeps csContainer (engine_call c f)"
  by (auto simp: keeps_def engine_call_def split: prod.split)

lemma keeps_or_throw [keeps_intros]: "keeps f (or_throw g r)"
  by (auto simp: or_throw_def intro: keeps_intros split: option.split)

lemma create_keeps [keeps_intros]: "keeps csContainer (PullImage p cfg)" "keeps csContainer (createContainer n p cfg hc)"
proof -
  show p: "keeps csContainer (PullImage p cfg)"
    unfolding PullImage_def by (intro keeps_intros) (auto intro: keeps_intros split: pull_result.split)
  show "keeps csContainer (createContainer n p cfg hc)"
    by (induction n) (auto intro!: keeps_intros p split: sum.split engine_error.split)
qed

lemma end_keeps [keeps_intros]:
  "keeps csContainer (cleanupContainer p c)" "keeps csContainer (checkExitStatus p c)"
  "keeps csContainer (after_wait p c wk)" "keeps csContainer (after_shell_wait p c wk)"
proof -
  show u: "keeps csContainer (cleanupContainer p c)" for c
    unfolding cleanupContainer_def by (intro keeps_intros)
  show c: "keeps csContainer (checkExitStatus p c)"
    unfolding checkExitStatus_def by (auto intro!: keeps_intros u split: sum.split)
  show "keeps csContainer (after_wait p c wk)" "keeps csContainer (after_shell_wait p c wk)"
    by (cases wk; auto simp: after_wait_def after_shell_wait_def intro!: keeps_intros u c)+
qed

lemma run_keeps:
  "keeps csContainer (container_execute n p cfg hc)" "keeps csContainer (container_shell n p cfg hc)"
  unfolding container_execute_def container_shell_def Let_def by (auto intro!: keeps_intros)

lemma Execute_container:
  "csContainer (snd (ContainerExecutor_Execute n p ec job s)) =
     (csContainer s)\<lparr>ccImage := resolved_image p job (ccImage (csContainer s))\<rparr>"
  by (auto simp: ContainerExecutor_Execute_def resolve_image_def op_then_def op_bind_def op_simps Let_def
        resolved_image_def split: prod.split dest: run_keeps [THEN keepsD])

text \<open>A small engine for the examples: it knows every image but \<open>absent\<close>, which a pull does not change, and
  starts a container when the world is not 0.\<close>

definition small_engine :: "wake \<Rightarrow> int \<Rightarrow> nat engine" where
  "small_engine wk code =
     \<lparr>en_create = (\<lambda>cfg hc pl w. (if cfImage cfg = ''absent'' then Inl (IsNotFound ''no such image'') else Inr ''c'', w)),
      en_pull = (\<lambda>_ _ _ w. (PullDone, w)), en_start = (\<lambda>_ w. (if w = 0 then Some ''no'' else None, w)),
      en_logs = (\<lambda>_ w. (None, w)), en_attach = (\<lambda>_ w. (None, w)), en_raw = (\<lambda>w. (None, w)),
      en_wait = (\<lambda>_ w. (wk, w)), en_stop = (\<lambda>_ w. (None, w)), en_remove = (\<lambda>_ w. (None, w)),
      en_inspect = (\<lambda>_ w. (Inr code, w))\<rparr>"

definition no_host :: host where
  "no_host = \<lparr>host_getenv = (\<lambda>_. None), host_cwd = None, host_home = ''/home/u'', host_stat = (\<lambda>_. StatNotExist),
     host_open = (\<lambda>_. None), host_evalsym = (\<lambda>_. None)\<rparr>"

definition anonymous :: "unit auth_params" where
  "anonymous = \<lparr>ap_home = Some ''/home/u'', ap_host = no_host, ap_load = (\<lambda>_. Inr ()), ap_empty = (),
     ap_lookup = (\<lambda>_ _. Inr \<lparr>acUsername = '''', acPassword = '''', acIdentityToken = ''''\<rparr>)\<rparr>"

definition tag_template :: tmpl_exec where
  "tag_template _ tmpl data env =
     (if tmpl = ''app:{{.Tag}}''
      then (case data ''Tag'' of Some (GStr v) \<Rightarrow> Inr (''app:'' @ v) | _ \<Rightarrow> Inl ''no Tag'') else Inr tmpl)"

definition small_container_params :: "wake \<Rightarrow> int \<Rightarrow> (nat, unit) container_params" where
  "small_container_params wk code =
     \<lparr>cp_engine = small_engine wk code, cp_auth = anonymous, cp_ports = (\<lambda>_. None), cp_tmpl = tag_template,
      cp_enum = (\<lambda>_. []), cp_stdin = False, cp_terminal = ((80, 24), False)\<rparr>"

definition container_in :: "string \<Rightarrow> nat \<Rightarrow> nat cstate" where
  "container_in img w = \<lparr>csWorld = w, csCalls = [], csContainer = NewContainerContext img []\<rparr>"

definition small_ctx :: ExecutionContext where
  "small_ctx = NewExecutionContext None '''' NewVariables None [] [] [] [] []"

definition tagged_job :: "string \<Rightarrow> Job" where
  "tagged_job tag = (NewJobFromCommand ''run'')\<lparr>jVars := FromMap [''Tag'' \<mapsto> tag]\<rparr>"

lemma small_Platform: "Platform (csContainer (container_in img w)) = Inr None"
  by (simp add: Platform_def container_in_def NewContainerContext_def)


text \<open>the image of a context may be a template over the variables of a job, but it is resolved only once: the
  text that the first job of the context found stays in the context, and every container of a later job
  is created from, and pulled as, that image, whatever the later job's variables are.\<close>

theorem image_of_first_job_stays:
  assumes "ParseTemplate (cp_tmpl p) (ccImage (csContainer s)) (VarsMap (jVars j1)) (VarsMap (jEnv j1)) = Inr img"
    and "\<forall>vars env. ParseTemplate (cp_tmpl p) img vars env = Inr img"
  shows "list_all (with_image img) (csCalls (snd (ContainerExecutor_Execute n p ec j2
    ((snd (ContainerExecutor_Execute m p ec j1 s))\<lparr>csCalls := []\<rparr>))))"
proof -
  let ?s = "(snd (ContainerExecutor_Execute m p ec j1 s))\<lparr>csCalls := []\<rparr>"
  have "resolved_image p j2 (ccImage (csContainer ?s)) = img"
    using assms by (simp add: Execute_container resolved_image_def)
  with Execute_image [of ?s p j2 n ec] show ?thesis by simp
qed

theorem image_of_first_job_stays_witness:
  "list_all (with_image ''app:1'') (csCalls (snd (ContainerExecutor_Execute 1 (small_container_params (Exited 0) 0) small_ctx
    (tagged_job ''2'') ((snd (ContainerExecutor_Execute 1 (small_container_params (Exited 0) 0) small_ctx (tagged_job ''1'')
      (container_in ''app:{{.Tag}}'' 1)))\<lparr>csCalls := []\<rparr>))))"
  by (rule image_of_first_job_stays)
    (simp_all add: small_container_params_def ParseTemplate_def tag_template_def tagged_job_def container_in_def
      NewContainerContext_def NewJobFromCommand_def FromMap_def)

text \<open>An image whose template cannot be resolved is no error: the job is run with an empty image name.\<close>

theorem failing_image_template_is_blank:
  assumes "ParseTemplate (cp_tmpl p) (ccImage (csContainer s)) (VarsMap (jVars j)) (VarsMap (jEnv j)) = Inl e" and "csCalls s = []"
  shows "list_all (with_image '''') (csCalls (snd (ContainerExecutor_Execute n p ec j s)))"
  using Execute_image [OF assms(2), of p j n ec] assms(1) by (simp add: resolved_image_def)

text \<open>the exit code of a container, any integer, reaches the runner as a byte: a code that is not zero is
  always a failure, and the status reported for it is the code modulo 256, which is zero for 256.\<close>

theorem container_exit_status:
  assumes "fst (en_inspect (cp_engine p) c (csWorld s)) = Inr code"
  shows "(fst (checkExitStatus p c s) = Inr () \<longleftrightarrow> code = 0) \<and>
    (code \<noteq> 0 \<longrightarrow> (\<exists>b. fst (checkExitStatus p c s) = Inl (ExitStatus b) \<and> int (unat b) = code mod 256))"
proof -
  have "int (unat (word_of_int code :: 8 word)) = code mod 256"
    by (simp add: unsigned_of_int take_bit_eq_mod)
  then show ?thesis
    using assms by (auto simp: checkExitStatus_def ce_steps cleanup_then)
qed

theorem container_exit_status_witness:
  "\<exists>b. fst (checkExitStatus (small_container_params (Exited 256) 256) ''c'' (container_in ''a'' 1)) = Inl (ExitStatus b) \<and>
    int (unat b) = 0"
proof -
  have "fst (en_inspect (cp_engine (small_container_params (Exited 256) 256)) ''c'' (csWorld (container_in ''a'' 1))) = Inr 256"
    by (simp add: small_container_params_def small_engine_def)
  from container_exit_status [OF this] show ?thesis by simp
qed

section \<open>An image that is not found\<close>

definition pull_timeout :: "'w cstate \<Rightarrow> int option" where
  "pull_timeout s = (let t = ccPullTimeout (csContainer s) in if 0 < t then Some t else None)"

lemma PullImage_done:
  assumes "AuthLookupFunc (cp_auth p) (cfImage cfg) (cfEnv cfg) = Inr auth"
    and "\<And>t w. fst (en_pull (cp_engine p) (cfImage cfg) auth t w) = PullDone"
  shows "PullImage p cfg s = (Inr (), s\<lparr>csWorld := snd (en_pull (cp_engine p) (cfImage cfg) auth (pull_timeout s) (csWorld s)),
    csCalls := csCalls s @ [CallPull (cfImage cfg)]\<rparr>)"
  using assms by (simp add: PullImage_def ce_steps pull_timeout_def Let_def)

definition pulled :: "('w, 'k) container_params \<Rightarrow> ContainerConfig \<Rightarrow> HostConfig \<Rightarrow> (string \<times> string) option \<Rightarrow> string \<Rightarrow> 'w cstate \<Rightarrow> 'w cstate" where
  "pulled p cfg hc pl auth s =
     s\<lparr>csWorld := snd (en_pull (cp_engine p) (cfImage cfg) auth (pull_timeout s) (snd (en_create (cp_engine p) cfg hc pl (csWorld s)))),
       csCalls := csCalls s @ [CallCreate cfg hc (fst (en_create (cp_engine p) cfg hc pl (csWorld s))), CallPull (cfImage cfg)]\<rparr>"

lemma createContainer_not_found:
  assumes "Platform (csContainer s) = Inr pl" and "fst (en_create (cp_engine p) cfg hc pl (csWorld s)) = Inl (IsNotFound m)"
    and "AuthLookupFunc (cp_auth p) (cfImage cfg) (cfEnv cfg) = Inr auth"
    and "\<And>t w. fst (en_pull (cp_engine p) (cfImage cfg) auth t w) = PullDone"
  shows "createContainer (Suc n) p cfg hc s = createContainer n p cfg hc (pulled p cfg hc pl auth s)"
  using assms(1,2)
  by (simp add: ce_steps op_then_def op_bind_eval(1) [OF PullImage_done [OF assms(3,4)]] pulled_def pull_timeout_def)

text \<open>when the engine does not find an image, the image is pulled and the creation tried again: if the engine
  finds what was just pulled, two attempts decide the outcome, and any greater bound gives the same.\<close>

theorem createContainer_two_attempts:
  assumes "Platform (csContainer s) = Inr pl" and "AuthLookupFunc (cp_auth p) (cfImage cfg) (cfEnv cfg) = Inr auth"
    and "\<And>t w. fst (en_pull (cp_engine p) (cfImage cfg) auth t w) = PullDone"
    and "\<And>t w m. fst (en_create (cp_engine p) cfg hc pl (snd (en_pull (cp_engine p) (cfImage cfg) auth t w))) \<noteq> Inl (IsNotFound m)"
  shows "createContainer (n + 2) p cfg hc s = createContainer 2 p cfg hc s \<and> fst (createContainer 2 p cfg hc s) \<noteq> Inl NeverCreated"
proof -
  have decided: "createContainer (Suc k) p cfg hc u = createContainer 1 p cfg hc u \<and> fst (createContainer 1 p cfg hc u) \<noteq> Inl NeverCreated"
    if "Platform (csContainer u) = Inr pl" "\<And>m. fst (en_create (cp_engine p) cfg hc pl (csWorld u)) \<noteq> Inl (IsNotFound m)" for k u
    using that by (auto simp: ce_steps split: sum.split engine_error.split)
  show ?thesis
  proof (cases "\<exists>m. fst (en_create (cp_engine p) cfg hc pl (csWorld s)) = Inl (IsNotFound m)")
    case True
    then obtain m where m: "fst (en_create (cp_engine p) cfg hc pl (csWorld s)) = Inl (IsNotFound m)" by blast
    let ?u = "pulled p cfg hc pl auth s"
    note step = createContainer_not_found [OF assms(1) m assms(2,3)]
    have "createContainer (Suc k) p cfg hc ?u = createContainer 1 p cfg hc ?u \<and> fst (createContainer 1 p cfg hc ?u) \<noteq> Inl NeverCreated" for k
      using assms(1,4) by (intro decided) (simp_all add: pulled_def)
    with step [of "Suc n"] step [of 1] show ?thesis by (simp add: numeral_2_eq_2)
  next
    case False
    with decided [of s] assms(1) show ?thesis by (metis add_2_eq_Suc' numeral_2_eq_2)
  qed
qed

theorem createContainer_two_attempts_witness:
  "createContainer (5 + 2) (small_container_params (Exited 0) 0) (container_config (\<lambda>_. None) (NewContainerContext ''a'' []) [] [] '''' False False)
     hc (container_in ''a'' 1) = createContainer 2 (small_container_params (Exited 0) 0)
       (container_config (\<lambda>_. None) (NewContainerContext ''a'' []) [] [] '''' False False) hc (container_in ''a'' 1)"
proof -
  let ?cfg = "container_config (\<lambda>_. None) (NewContainerContext ''a'' []) [] [] '''' False False"
  have "AuthLookupFunc (cp_auth (small_container_params (Exited 0) 0)) (cfImage ?cfg) (cfEnv ?cfg) = Inr ''''"
    by (simp add: small_container_params_def anonymous_def AuthLookupFunc_def registryAuthFile_def auth_files_def
        ConvertFromEnv_def container_config_def no_host_def)
  from createContainer_two_attempts [OF small_Platform this, of hc 5] show ?thesis
    by (simp add: small_container_params_def small_engine_def container_config_def NewContainerContext_def)
qed

text \<open>when a pull succeeds and the engine still does not find the image, the creation is tried again for
  ever: no number of attempts ends it.\<close>

theorem createContainer_never_returns:
  assumes "Platform (csContainer s) = Inr pl" and "AuthLookupFunc (cp_auth p) (cfImage cfg) (cfEnv cfg) = Inr auth"
    and "\<And>t w. fst (en_pull (cp_engine p) (cfImage cfg) auth t w) = PullDone"
    and "\<And>w. fst (en_create (cp_engine p) cfg hc pl w) = Inl (IsNotFound m)"
  shows "fst (createContainer n p cfg hc s) = Inl NeverCreated"
  using assms(1)
proof (induction n arbitrary: s)
  case (Suc n)
  have "Platform (csContainer (pulled p cfg hc pl auth s)) = Inr pl" using Suc.prems by (simp add: pulled_def)
  from Suc.IH [OF this] show ?case by (simp only: createContainer_not_found [OF Suc.prems assms(4,2,3)])
qed (simp add: op_simps)

theorem createContainer_never_returns_witness:
  "fst (createContainer 9 (small_container_params (Exited 0) 0)
     (container_config (\<lambda>_. None) (NewContainerContext ''absent'' []) [] [] '''' False False) hc (container_in ''absent'' 1)) = Inl NeverCreated"
  by (rule createContainer_never_returns [OF small_Platform, where auth = "''''" and m = "''no such image''"])
    (simp_all add: small_container_params_def anonymous_def AuthLookupFunc_def registryAuthFile_def auth_files_def
      ConvertFromEnv_def container_config_def no_host_def small_engine_def NewContainerContext_def)

theorem failing_image_template_is_blank_witness:
  "list_all (with_image '''') (csCalls (snd (ContainerExecutor_Execute 1 (small_container_params (Exited 0) 0) small_ctx
    (NewJobFromCommand ''run'') (container_in ''app:{{.Tag}}'' 1))))"
  by (rule failing_image_template_is_blank [where e = "''no Tag''"])
    (simp_all add: small_container_params_def ParseTemplate_def tag_template_def container_in_def
      NewContainerContext_def NewJobFromCommand_def NewVariables_def)

section \<open>The directory of a job\<close>

lemma clean_stack_local:
  "local_depth (length out) es \<Longrightarrow> \<forall>o1 \<in> set out. o1 \<noteq> ''..'' \<Longrightarrow> prefix base (clean_stack True (out @ rev base) es)"
proof (induction es arbitrary: out)
  case Nil
  then show ?case by simp
next
  case (Cons e es)
  consider "e = '''' \<or> e = ''.''" | "e = ''..''" | "e \<noteq> '''' \<and> e \<noteq> ''.'' \<and> e \<noteq> ''..''" by blast
  then show ?case
  proof cases
    case 1
    then show ?thesis using Cons.IH [of out] Cons.prems by auto
  next
    case 2
    with Cons.prems obtain o1 os where "out = o1 # os" by (cases out) auto
    then show ?thesis using 2 Cons.IH [of os] Cons.prems by simp
  next
    case 3
    then show ?thesis using Cons.IH [of "e # out"] Cons.prems by simp
  qed
qed

lemma JoinPath_abs: "IsAbs b \<Longrightarrow> d \<noteq> [] \<Longrightarrow> JoinPath [b, d] = Clean (b @ ''/'' @ d)"
  by (auto simp: JoinPath_def IsAbs_def HasPrefix_def)

lemma Split_eirctl: "Split (''/eirctl'' @ ''/'' @ d) ''/'' = ['''', ''eirctl''] @ Split d ''/''"
proof -
  have "unbordered ''/''" by (simp add: unbordered_def)
  from Split_Join_concat [OF this, of "['''', ''eirctl'', d]"]
  have "Split (''/eirctl'' @ ''/'' @ d) ''/'' = Split '''' ''/'' @ Split ''eirctl'' ''/'' @ Split d ''/''" by simp
  moreover have "Split '''' ''/'' = ['''']" "Split ''eirctl'' ''/'' = [''eirctl'']" by code_simp+
  ultimately show ?thesis by simp
qed

lemma clean_elems_eirctl: "clean_elems (''/eirctl'' @ ''/'' @ d) = clean_stack True [''eirctl''] (Split d ''/'')"
  unfolding clean_elems_def Split_eirctl by (simp add: IsAbs_def HasPrefix_def)

lemma eirctl_elems: "clean_elems ''/eirctl'' = [''eirctl'']" "IsAbs ''/eirctl''"
  by code_simp+

text \<open>a job whose directory, taken as a path, never climbs above its start is run below \<open>/eirctl\<close> in the
  container, also when that directory is an absolute path of the host.\<close>

theorem container_dir_inside:
  assumes "local_depth 0 (Split (jDir job) ''/'')"
  shows "inside ''/eirctl'' (container_dir ec job)"
proof (cases "ecDir ec = jDir job \<or> jDir job = ''''")
  case True
  then have "container_dir ec job = ''/eirctl''"
    by (auto simp: container_dir_def JoinPath_def) code_simp+
  then show ?thesis by (simp add: inside_def)
next
  case False
  then have d: "container_dir ec job = Clean (''/eirctl'' @ ''/'' @ jDir job)"
    by (simp add: container_dir_def JoinPath_abs eirctl_elems del: append_Cons)
  have "IsAbs (''/eirctl'' @ ''/'' @ jDir job)" by (simp add: IsAbs_def HasPrefix_def)
  then have "clean_elems (container_dir ec job) = clean_stack True [''eirctl''] (Split (jDir job) ''/'')"
    unfolding d by (simp only: clean_elems_Clean clean_elems_eirctl)
  with clean_stack_local [of "[]" "Split (jDir job) ''/''" "[''eirctl'']"] assms show ?thesis
    by (simp add: inside_def eirctl_elems)
qed

theorem container_dir_inside_witness:
  "inside ''/eirctl'' (container_dir small_ctx ((NewJobFromCommand ''run'')\<lparr>jDir := ''/home/u/../src''\<rparr>))"
  by (rule container_dir_inside) code_simp

text \<open>a job whose directory begins with the parent of the working directory leaves \<open>/eirctl\<close>: it is run in
  the root of the container.\<close>

theorem container_dir_leaves:
  assumes "plain_elem d" and "d \<noteq> ''eirctl''" and "jDir job = ''../'' @ d" and "ecDir ec \<noteq> jDir job"
  shows "container_dir ec job = ''/'' @ d \<and> \<not> inside ''/eirctl'' (container_dir ec job)"
proof -
  let ?p = "''/eirctl'' @ ''/'' @ jDir job"
  have d: "container_dir ec job = Clean ?p"
    using assms(3,4) by (simp add: container_dir_def JoinPath_abs eirctl_elems del: append_Cons)
  have p: "IsAbs ?p" by (simp add: IsAbs_def HasPrefix_def)
  have "unbordered ''/''" by (simp add: unbordered_def)
  from Split_Join_concat [OF this, of "[''..'', d]"] have "Split (''../'' @ d) ''/'' = Split ''..'' ''/'' @ Split d ''/''" by simp
  moreover have "Split ''..'' ''/'' = [''..'']" by code_simp
  moreover from assms(1) have "Split d ''/'' = [d]" using Split_plain [of "[d]"] by simp
  ultimately have "clean_elems ?p = [d]"
    using assms(1,3) by (simp only: clean_elems_eirctl) (simp add: plain_elem_def)
  with clean_elems_Clean [OF p] Clean_abs [OF p] have "clean_elems (Clean ?p) = [d]" "Clean ?p = CHR ''/'' # Join [d] ''/''"
    by metis+
  with d assms(2) show ?thesis by (simp add: inside_def eirctl_elems)
qed

theorem container_dir_leaves_witness:
  "container_dir small_ctx ((NewJobFromCommand ''run'')\<lparr>jDir := ''../etc''\<rparr>) = ''/etc''"
proof -
  have "plain_elem ''etc''" "ecDir small_ctx \<noteq> jDir ((NewJobFromCommand ''run'')\<lparr>jDir := ''../etc''\<rparr>)"
    by (simp_all add: plain_elem_def small_ctx_def NewExecutionContext_def)
  from container_dir_leaves [OF this(1) _ _ this(2)] show ?thesis by simp
qed

section \<open>Credentials\<close>

text \<open>the environment variable that names an authentication file takes precedence over the one that names a
  Docker configuration directory: when it is set, the other has no effect on the credentials.\<close>

theorem registry_auth_file_wins:
  assumes "ConvertFromEnv env ''REGISTRY_AUTH_FILE'' = Some f" and "ConvertFromEnv env' = (ConvertFromEnv env)(''DOCKER_CONFIG'' := v)"
  shows "AuthLookupFunc p img env' = AuthLookupFunc p img env"
proof -
  have "auth_files home env' = auth_files home env" for home
    by (simp add: auth_files_def assms)
  then show ?thesis by (cases "ap_home p") (simp_all add: AuthLookupFunc_def registryAuthFile_def)
qed

theorem registry_auth_file_wins_witness:
  "AuthLookupFunc anonymous ''i'' [''REGISTRY_AUTH_FILE=/a'', ''DOCKER_CONFIG=/d''] = AuthLookupFunc anonymous ''i'' [''REGISTRY_AUTH_FILE=/a'']"
proof -
  have s: "Split ''REGISTRY_AUTH_FILE=/a'' ''='' = [''REGISTRY_AUTH_FILE'', ''/a'']"
    "Split ''DOCKER_CONFIG=/d'' ''='' = [''DOCKER_CONFIG'', ''/d'']"
    by code_simp+
  show ?thesis
    by (rule registry_auth_file_wins [where f = "''/a''" and v = "Some ''/d''"])
      (simp_all add: ConvertFromEnv_def s Let_def)
qed

text \<open>the credentials are put between quotation marks as they are: two different pairs of a user name and a
  password whose texts hold quotation marks are sent as the same text, so what the registry reads is
  not what the user has stored.\<close>

theorem credentials_not_quoted:
  assumes "a \<noteq> ''''" and "c \<noteq> ''''"
    and "ap_lookup p af (hd (Split img ''/'')) = Inr \<lparr>acUsername = a @ sep @ b, acPassword = c, acIdentityToken = t\<rparr>"
    and "ap_lookup p' af (hd (Split img ''/'')) = Inr \<lparr>acUsername = a, acPassword = b @ sep @ c, acIdentityToken = t\<rparr>"
    and "registryAuthFile p env = Inr af" and "registryAuthFile p' env = Inr af"
    and "sep = CHR 0x22 # '','' @ CHR 0x22 # ''password'' @ CHR 0x22 # '':'' @ [CHR 0x22]"
  shows "AuthLookupFunc p img env = AuthLookupFunc p' img env"
  using assms by (simp add: AuthLookupFunc_def container_registry_auth_basic_def quoted_field_def bind_res_def)

definition logged_in :: "string \<Rightarrow> string \<Rightarrow> unit auth_params" where
  "logged_in user password = anonymous\<lparr>ap_lookup :=
     (\<lambda>_ _. Inr \<lparr>acUsername = user, acPassword = password, acIdentityToken = ''''\<rparr>)\<rparr>"

theorem credentials_not_quoted_witness:
  "AuthLookupFunc (logged_in (''u'' @ [CHR 0x22] @ '','' @ [CHR 0x22] @ ''password'' @ [CHR 0x22] @ '':'' @ [CHR 0x22] @ ''x'') ''y'') img [] =
   AuthLookupFunc (logged_in ''u'' (''x'' @ [CHR 0x22] @ '','' @ [CHR 0x22] @ ''password'' @ [CHR 0x22] @ '':'' @ [CHR 0x22] @ ''y'')) img []"
  by (rule credentials_not_quoted [where a = "''u''" and b = "''x''" and c = "''y''" and t = "''''" and af = "()", OF _ _ _ _ _ _ refl])
    (simp_all add: logged_in_def anonymous_def registryAuthFile_def auth_files_def ConvertFromEnv_def no_host_def)

end
