(* ===== verification/Terminal.thy ===== *)
theory Terminal
  imports GoStrings
begin

text \<open>
  \<open>runner/terminal.go\<close> and \<open>resizeShellTty\<close> of \<open>runner/executor_container.go\<close>: the size of the terminal for
  an interactive job. Asking the operating system for the size of a file descriptor and running \<open>stty\<close>
  are parameters.
\<close>

text \<open>\<open>strconv.Atoi\<close>: an optional sign, decimal digits, a value of 64 bits.\<close>

definition digits_value :: "string \<Rightarrow> int" where
  "digits_value ds = foldl (\<lambda>n c. 10 * n + (int (byte c) - 48)) 0 ds"

definition unsigned_value :: "string \<Rightarrow> int option" where
  "unsigned_value ds = (if ds \<noteq> [] \<and> list_all is_digit ds then Some (digits_value ds) else None)"

definition signed_value :: "string \<Rightarrow> int option" where
  "signed_value s =
     (if HasPrefix s ''-'' then map_option uminus (unsigned_value (drop 1 s))
      else if HasPrefix s ''+'' then unsigned_value (drop 1 s) else unsigned_value s)"

definition Atoi :: "string \<Rightarrow> int option" where
  "Atoi s = (case signed_value s of None \<Rightarrow> None | Some v \<Rightarrow> if - (2 ^ 63) \<le> v \<and> v < 2 ^ 63 then Some v else None)"

type_synonym TerminalSize = "int \<times> int"

text \<open>A size is a width and a height; \<open>tuGetSize\<close> gives a size and an error.\<close>

record TerminalUtils =
  tuGetSize :: "int \<Rightarrow> TerminalSize \<times> string option"
  tuIsTerminal :: "int \<Rightarrow> bool"
  tuStdInFd :: int
  tuStdOutFd :: int
  tuStty :: "string + string"

definition getTerminalSize :: "TerminalUtils \<Rightarrow> int \<Rightarrow> string + TerminalSize" where
  "getTerminalSize tu fd = (case tuGetSize tu fd of (sz, Some e) \<Rightarrow> Inl e | (sz, None) \<Rightarrow> Inr sz)"

definition getTerminalSizeFromSttyCommand :: "TerminalUtils \<Rightarrow> string + TerminalSize" where
  "getTerminalSizeFromSttyCommand tu =
     (case tuStty tu of
        Inl e \<Rightarrow> Inl ''failed to run command''
      | Inr output \<Rightarrow>
          (case Split output '' '' of
             [rows, columns] \<Rightarrow>
               (case (Atoi rows, Atoi columns) of
                  (Some height, Some width) \<Rightarrow> Inr (width, height)
                | _ \<Rightarrow> Inl ''Width or Height is invalid'')
           | _ \<Rightarrow> Inl ''Expected two integers back from stty''))"

definition InitInteractiveTerminal :: "TerminalUtils \<Rightarrow> TerminalSize \<times> int" where
  "InitInteractiveTerminal tu =
     (case getTerminalSize tu 0 of Inr sz \<Rightarrow> (sz, 0) | Inl _ \<Rightarrow>
     (case getTerminalSize tu (tuStdInFd tu) of Inr sz \<Rightarrow> (sz, tuStdInFd tu) | Inl _ \<Rightarrow>
     (case getTerminalSize tu (tuStdOutFd tu) of Inr sz \<Rightarrow> (sz, tuStdOutFd tu) | Inl _ \<Rightarrow>
     (case getTerminalSizeFromSttyCommand tu of Inr sz \<Rightarrow> (sz, -1) | Inl _ \<Rightarrow> ((80, 24), -1)))))"

definition UpdateSize :: "TerminalUtils \<Rightarrow> int \<Rightarrow> TerminalSize \<times> string option" where
  "UpdateSize tu fd =
     (case tuGetSize tu fd of (tsize, Some e) \<Rightarrow> (tsize, None) | (tsize, None) \<Rightarrow> (tsize, None))"

text \<open>The width and height the container's terminal is set to, if it is.\<close>

definition resizeShellTty :: "TerminalUtils \<Rightarrow> int \<Rightarrow> TerminalSize option" where
  "resizeShellTty tu fd =
     (if tuIsTerminal tu fd
      then (case UpdateSize tu fd of (tsize, Some e) \<Rightarrow> None | (tsize, None) \<Rightarrow> Some tsize)
      else None)"

section \<open>Properties\<close>

lemma unsigned_value_newline: "unsigned_value (s @ [CHR 0x0A]) = None"
  by (simp add: unsigned_value_def) code_simp

lemma Atoi_newline: "Atoi (s @ [CHR 0x0A]) = None"
proof (cases s)
  case Nil
  then show ?thesis by simp code_simp
next
  case (Cons c cs)
  then show ?thesis
    using unsigned_value_newline [of s] unsigned_value_newline [of cs]
    by (simp add: Atoi_def signed_value_def HasPrefix_def)
qed

text \<open>the last resort for the size of the terminal never succeeds: \<open>stty size\<close> ends its output with a newline,
  and a number that ends with a newline is not one, so whatever \<open>stty\<close> says the size is taken to be 80
  columns and 24 rows.\<close>

theorem stty_size_never_parsed:
  assumes "tuStty tu = Inr (out @ [CHR 0x0A])"
    and "\<forall>fd \<in> {0, tuStdInFd tu, tuStdOutFd tu}. snd (tuGetSize tu fd) \<noteq> None"
  shows "InitInteractiveTerminal tu = ((80, 24), -1)"
proof -
  have "\<exists>e. getTerminalSizeFromSttyCommand tu = Inl e"
  proof (cases "\<exists>rows columns. Split (out @ [CHR 0x0A]) '' '' = [rows, columns]")
    case True
    then obtain rows columns where s: "Split (out @ [CHR 0x0A]) '' '' = [rows, columns]" by blast
    then have "out @ [CHR 0x0A] = Join [rows, columns] '' ''" by (metis Join_Split list.distinct(1))
    then have e: "out @ [CHR 0x0A] = rows @ '' '' @ columns" by simp
    then have "columns \<noteq> []" by (cases columns) auto
    with e have "last columns = CHR 0x0A" by (metis append_is_Nil_conv last_append last_snoc list.distinct(1))
    with \<open>columns \<noteq> []\<close> have "columns = butlast columns @ [CHR 0x0A]" by (metis append_butlast_last_id)
    then have "Atoi columns = None" by (metis Atoi_newline)
    with assms(1) s show ?thesis by (simp add: getTerminalSizeFromSttyCommand_def split: option.split)
  next
    case False
    with assms(1) show ?thesis by (auto simp: getTerminalSizeFromSttyCommand_def split: list.split)
  qed
  with assms(2) show ?thesis
    by (auto simp: InitInteractiveTerminal_def getTerminalSize_def split: prod.splits option.splits)
qed

definition piped :: TerminalUtils where
  "piped = \<lparr>tuGetSize = (\<lambda>_. ((0, 0), Some ''ENOTTY'')), tuIsTerminal = (\<lambda>_. False), tuStdInFd = 0, tuStdOutFd = 1,
     tuStty = Inr (''50 132'' @ [CHR 0x0A])\<rparr>"

theorem stty_size_never_parsed_witness: "InitInteractiveTerminal piped = ((80, 24), -1)"
  by (rule stty_size_never_parsed [where out = "''50 132''"]) (simp_all add: piped_def)

text \<open>the size is that of the first of descriptor 0, standard input and standard output whose size can be read,
  and the descriptor is the one it was read from.\<close>

theorem InitInteractiveTerminal_first:
  assumes "find (\<lambda>fd. snd (tuGetSize tu fd) = None) [0, tuStdInFd tu, tuStdOutFd tu] = Some fd"
  shows "InitInteractiveTerminal tu = (fst (tuGetSize tu fd), fd)"
  using assms by (auto simp: InitInteractiveTerminal_def getTerminalSize_def split: prod.splits option.splits if_splits)

theorem InitInteractiveTerminal_first_witness:
  "InitInteractiveTerminal (piped\<lparr>tuGetSize := \<lambda>fd. if fd = 1 then ((132, 50), None) else ((0, 0), Some ''ENOTTY'')\<rparr>) = ((132, 50), 1)"
  by (subst InitInteractiveTerminal_first [where fd = 1]) (simp_all add: piped_def)

text \<open>A failure to read the new size of a resized terminal is not noticed: the container's terminal is set to
  whatever size came with the error.\<close>

theorem resize_ignores_failure:
  assumes "tuIsTerminal tu fd" and "tuGetSize tu fd = (sz, Some e)"
  shows "resizeShellTty tu fd = Some sz"
  using assms by (simp add: resizeShellTty_def UpdateSize_def)

theorem resize_ignores_failure_witness:
  "resizeShellTty (piped\<lparr>tuIsTerminal := \<lambda>_. True\<rparr>) 0 = Some (0, 0)"
  by (rule resize_ignores_failure) (simp_all add: piped_def)

end
