(* ===== verification/GithubSchema.thy ===== *)
theory GithubSchema
  imports Utils
begin

text \<open>
  The GitHub workflow types of \<open>internal/schema/github.go\<close> and their decoding. A Go map is the list of its
  pairs in the order a \<open>range\<close> meets them, with distinct keys: what may depend on that order is visible.
  A YAML document is a heap of nodes, so that an alias can lead anywhere, also to a node that contains it.
  Decoding a node into a Go value by reflection is the YAML package's and a parameter.
\<close>

section \<open>Values\<close>

text \<open>A value of type \<open>any\<close>: nil, a string, or something else with the text that \<open>fmt.Sprint\<close> makes of it.\<close>

datatype scalar = NilValue | Text string | Printed string

text \<open>The verb \<open>%v\<close>.\<close>

definition v_any :: "scalar \<Rightarrow> string" where
  "v_any v = (case v of NilValue \<Rightarrow> ''<nil>'' | Text s \<Rightarrow> s | Printed s \<Rightarrow> s)"

type_synonym 'v assoc = "(string \<times> 'v) list"

abbreviation field :: "string assoc \<Rightarrow> string \<Rightarrow> string" where
  "field m k \<equiv> get_or [] (map_of m) k"

abbreviation field_value :: "scalar assoc \<Rightarrow> string \<Rightarrow> scalar" where
  "field_value m k \<equiv> get_or NilValue (map_of m) k"

text \<open>\<open>m[k] = v\<close>: an existing key keeps its place, a new one may be met anywhere; here it comes last.\<close>

fun put :: "string \<Rightarrow> 'v \<Rightarrow> 'v assoc \<Rightarrow> 'v assoc" where
  "put k v [] = [(k, v)]"
| "put k v ((k', v') # m) = (if k' = k then (k, v) # m else (k', v') # put k v m)"

lemma map_of_put [simp]: "map_of (put k v m) = (map_of m)(k \<mapsto> v)"
  by (induction m) auto

lemma put_keys: "fst ` set (put k v m) = insert k (fst ` set m)"
  by (simp flip: dom_map_of_conv_image_fst)

lemma distinct_put: "distinct (map fst m) \<Longrightarrow> distinct (map fst (put k v m))"
proof (induction m)
  case Nil
  then show ?case by simp
next
  case (Cons x m)
  then show ?case
    using put_keys [of k v m] by (cases x) (auto simp del: set_map simp: image_iff set_map [symmetric, of fst])
qed

section \<open>Types\<close>

record GithubPushEvent =
  push_Branches :: "string list"
  push_Tags :: "string list"
  push_Paths :: "string list"
  push_PathsIgnore :: "string list"
  push_BranchesIgnore :: "string list"
  push_TagsIgnore :: "string list"

record GithubPullRequestEvent =
  pr_Branches :: "string list"
  pr_Paths :: "string list"
  pr_BranchesIgnore :: "string list"
  pr_PathsIgnore :: "string list"
  pr_Types :: "string list"

record GithubInput =
  in_Description :: string
  in_Required :: bool
  in_Default :: string
  in_Type :: string

record GithubWorkflowOutput =
  out_Description :: string
  out_Value :: string

record GithubWorkflowCallEvent =
  call_Inputs :: "GithubInput assoc"
  call_Outputs :: "GithubWorkflowOutput assoc"
  call_Secrets :: "scalar assoc"

record GithubWorkflowDispatchEvent =
  dispatch_Inputs :: "GithubInput assoc"

record GithubWorkflowRunEvent =
  run_Workflows :: "string list"
  run_Types :: "string list"
  run_Branches :: "string list"

text \<open>The trigger events; \<open>configured\<close> holds the names that the workflow gives, the unknown ones too.\<close>

record GithubTriggerEvents =
  Push :: GithubPushEvent
  PullRequest :: GithubPullRequestEvent
  PullRequestTarget :: GithubPullRequestEvent
  IssueComment :: "string list"
  RepositoryDispatch :: "string list"
  Schedule_events :: "string list"
  WorkflowCall :: GithubWorkflowCallEvent
  WorkflowDispatch :: GithubWorkflowDispatchEvent
  WorkflowRun :: GithubWorkflowRunEvent
  ev_configured :: "string list"

record GithubContainerCredentials =
  Username :: string
  Password :: string

text \<open>The credentials are a pointer: an address, and what is there.\<close>

record GithubContainer =
  Image :: string
  Credentials :: "(nat \<times> GithubContainerCredentials) option"
  con_Env :: "string assoc"
  con_Ports :: "scalar list"
  con_Volumes :: "string list"
  Options :: string

record GithubStep =
  step_Name :: string
  step_ID :: string
  step_Uses :: string
  step_Run :: string
  step_With :: "string assoc"
  step_Env :: "scalar assoc"
  step_Shell :: string
  step_ContinueOnError :: bool
  step_TimeoutMinutes :: int
  step_If :: string

record GithubConcurrency =
  Group :: string
  CancelInProgress :: scalar

record GithubStrategy =
  Matrix :: "scalar assoc"
  MaxParallel :: int
  FailFast :: bool

record GithubJob =
  job_Name :: string
  job_Needs :: "string list"
  job_Uses :: string
  job_With :: "string assoc"
  job_Secrets :: scalar
  job_Outputs :: "string assoc"
  job_RunsOn :: "string list"
  job_Container :: "GithubContainer option"
  job_Services :: "GithubContainer assoc"
  job_Steps :: "GithubStep list"
  job_If :: string
  job_Env :: "scalar assoc"
  job_Environment :: string
  job_Permissions :: "string assoc"
  job_Concurrency :: "GithubConcurrency option"
  job_TimeoutMinutes :: int
  job_Strategy :: "GithubStrategy option"
  job_configured :: "string list"

text \<open>The jobs in the order of the file; \<open>Values\<close> is \<open>None\<close> for the nil map of a workflow without jobs.\<close>

record OrderedMap =
  Keys :: "string list"
  Values :: "GithubJob assoc option"

record GithubDefaultRun =
  def_Shell :: string
  def_WorkingDirectory :: string

record GithubWorkflow =
  wf_Name :: string
  On :: "GithubTriggerEvents option"
  Jobs :: OrderedMap
  wf_Defaults :: "GithubDefaultRun option"
  wf_Env :: "scalar assoc"
  wf_Permissions :: "string assoc"
  wf_Concurrency :: "GithubConcurrency option"

section \<open>Zero values\<close>

definition zero_push :: GithubPushEvent where
  "zero_push = \<lparr>push_Branches = [], push_Tags = [], push_Paths = [], push_PathsIgnore = [], push_BranchesIgnore = [],
     push_TagsIgnore = []\<rparr>"

definition zero_pull_request :: GithubPullRequestEvent where
  "zero_pull_request = \<lparr>pr_Branches = [], pr_Paths = [], pr_BranchesIgnore = [], pr_PathsIgnore = [], pr_Types = []\<rparr>"

definition zero_input :: GithubInput where
  "zero_input = \<lparr>in_Description = [], in_Required = False, in_Default = [], in_Type = []\<rparr>"

definition zero_events :: "string list \<Rightarrow> GithubTriggerEvents" where
  "zero_events configured = \<lparr>Push = zero_push, PullRequest = zero_pull_request, PullRequestTarget = zero_pull_request,
     IssueComment = [], RepositoryDispatch = [], Schedule_events = [],
     WorkflowCall = \<lparr>call_Inputs = [], call_Outputs = [], call_Secrets = []\<rparr>,
     WorkflowDispatch = \<lparr>dispatch_Inputs = []\<rparr>,
     WorkflowRun = \<lparr>run_Workflows = [], run_Types = [], run_Branches = []\<rparr>, ev_configured = configured\<rparr>"

definition zero_container :: GithubContainer where
  "zero_container = \<lparr>Image = [], Credentials = None, con_Env = [], con_Ports = [], con_Volumes = [], Options = []\<rparr>"

definition zero_step :: GithubStep where
  "zero_step = \<lparr>step_Name = [], step_ID = [], step_Uses = [], step_Run = [], step_With = [], step_Env = [],
     step_Shell = [], step_ContinueOnError = False, step_TimeoutMinutes = 0, step_If = []\<rparr>"

definition zero_job :: "string list \<Rightarrow> GithubJob" where
  "zero_job configured = \<lparr>job_Name = [], job_Needs = [], job_Uses = [], job_With = [], job_Secrets = NilValue,
     job_Outputs = [], job_RunsOn = [], job_Container = None, job_Services = [], job_Steps = [], job_If = [],
     job_Env = [], job_Environment = [], job_Permissions = [], job_Concurrency = None, job_TimeoutMinutes = 0,
     job_Strategy = None, job_configured = configured\<rparr>"

definition NewOrderedMap :: OrderedMap where
  "NewOrderedMap = \<lparr>Keys = [], Values = Some []\<rparr>"

definition zero_workflow :: GithubWorkflow where
  "zero_workflow = \<lparr>wf_Name = [], On = None, Jobs = \<lparr>Keys = [], Values = None\<rparr>, wf_Defaults = None, wf_Env = [],
     wf_Permissions = [], wf_Concurrency = None\<rparr>"

section \<open>Reading\<close>

definition event_Has :: "GithubTriggerEvents option \<Rightarrow> string \<Rightarrow> bool" where
  "event_Has events name = (case events of None \<Rightarrow> False | Some ev \<Rightarrow> name \<in> set (ev_configured ev))"

definition ConfiguredNames :: "GithubTriggerEvents option \<Rightarrow> string list" where
  "ConfiguredNames events = (case events of None \<Rightarrow> [] | Some ev \<Rightarrow> ev_configured ev)"

lemma ConfiguredNames_event_Has: "name \<in> set (ConfiguredNames events) \<longleftrightarrow> event_Has events name"
  by (cases events) (simp_all add: ConfiguredNames_def event_Has_def)

definition job_Has :: "GithubJob \<Rightarrow> string \<Rightarrow> bool" where
  "job_Has job name \<longleftrightarrow> name \<in> set (job_configured job)"

text \<open>A nil step is refused.\<close>

definition AddStep :: "GithubStep option \<Rightarrow> GithubJob \<Rightarrow> string + GithubJob" where
  "AddStep s job =
     (case s of Some st \<Rightarrow> Inr (job\<lparr>job_Steps := job_Steps job @ [st]\<rparr>)
      | None \<Rightarrow> Inl ''github job, must include at least one'')"

text \<open>The map's \<open>Add\<close> appends the key whether it is there or not, and panics on a nil map.\<close>

definition OrderedMap_Add :: "string \<Rightarrow> GithubJob \<Rightarrow> OrderedMap \<Rightarrow> OrderedMap option" where
  "OrderedMap_Add key val om =
     (case Values om of None \<Rightarrow> None
      | Some m \<Rightarrow> Some (om\<lparr>Keys := Keys om @ [key], Values := Some (put key val m)\<rparr>))"

section \<open>YAML documents\<close>

datatype node_kind = ScalarNode | SequenceNode | MappingNode | AliasNode | OtherNode

text \<open>A node; \<open>Content\<close> and \<open>Alias\<close> are pointers, that is places in the document. \<open>Alias\<close> is read for
  alias nodes only, for which the parser always sets it.\<close>

record yaml_node =
  Kind :: node_kind
  Tag :: string
  Value :: string
  Content :: "nat list"
  Alias :: nat

type_synonym yaml_doc = "yaml_node list"

definition no_node :: yaml_node where
  "no_node = \<lparr>Kind = OtherNode, Tag = [], Value = [], Content = [], Alias = 0\<rparr>"

definition node_at :: "yaml_doc \<Rightarrow> nat \<Rightarrow> yaml_node" where
  "node_at doc p = (if p < length doc then doc ! p else no_node)"

text \<open>Aliases are followed up to one that was seen before.\<close>

function resolve_seen :: "yaml_doc \<Rightarrow> nat set \<Rightarrow> nat \<Rightarrow> nat" where
  "resolve_seen doc seen p =
     (if Kind (node_at doc p) = AliasNode \<and> p \<notin> seen
      then resolve_seen doc (insert p seen) (Alias (node_at doc p)) else p)"
  by pat_completeness auto
termination
proof (relation "measure (\<lambda>(doc, seen, p). card ({..<length doc} - seen))", goal_cases)
  case 1
  then show ?case by simp
next
  case (2 doc seen p)
  then have "p \<in> {..<length doc} - seen"
    by (auto simp: node_at_def no_node_def split: if_splits)
  then have "{..<length doc} - insert p seen \<subset> {..<length doc} - seen" by blast
  then show ?case by (simp add: psubset_card_mono)
qed

declare resolve_seen.simps [simp del]

definition resolveYAMLAlias :: "yaml_doc \<Rightarrow> nat \<Rightarrow> nat" where
  "resolveYAMLAlias doc p = resolve_seen doc {} p"

lemma resolve_not_alias: "Kind (node_at doc p) \<noteq> AliasNode \<Longrightarrow> resolveYAMLAlias doc p = p"
  by (simp add: resolveYAMLAlias_def resolve_seen.simps)

lemma resolve_one:
  "Kind (node_at doc p) = AliasNode \<Longrightarrow> Kind (node_at doc (Alias (node_at doc p))) \<noteq> AliasNode \<Longrightarrow>
   resolveYAMLAlias doc p = Alias (node_at doc p)"
  by (simp add: resolveYAMLAlias_def resolve_seen.simps)

text \<open>
  \<open>yamlMapping\<close> and \<open>mergeYAMLMapping\<close> call each other, and nothing ends the calls when a node is merged into
  itself; the first argument bounds their depth and \<open>None\<close> means that the bound was reached. The pairs of the
  content are read in order; a last node without a partner is left out.
\<close>

fun mapping_loop :: "(nat assoc \<Rightarrow> nat \<Rightarrow> nat assoc option) \<Rightarrow> yaml_doc \<Rightarrow> nat list \<Rightarrow> nat assoc \<Rightarrow> nat assoc option" where
  "mapping_loop merge doc (k # v # rest) values =
     (if Value (node_at doc k) = ''<<''
      then (case merge values v of None \<Rightarrow> None | Some vs \<Rightarrow> mapping_loop merge doc rest vs)
      else mapping_loop merge doc rest (put (Value (node_at doc k)) v values))"
| "mapping_loop merge doc [k] values = Some values"
| "mapping_loop merge doc [] values = Some values"

definition mapping_with :: "(nat assoc \<Rightarrow> nat \<Rightarrow> nat assoc option) \<Rightarrow> yaml_doc \<Rightarrow> nat \<Rightarrow> nat assoc option" where
  "mapping_with merge doc p =
     (let node = node_at doc (resolveYAMLAlias doc p) in
      if Kind node = MappingNode then mapping_loop merge doc (Content node) [] else Some [])"

fun merge_all :: "(nat assoc \<Rightarrow> nat \<Rightarrow> nat assoc option) \<Rightarrow> nat list \<Rightarrow> nat assoc \<Rightarrow> nat assoc option" where
  "merge_all merge [] values = Some values"
| "merge_all merge (p # ps) values =
     (case merge values p of None \<Rightarrow> None | Some vs \<Rightarrow> merge_all merge ps vs)"

definition put_missing :: "nat assoc \<Rightarrow> nat assoc \<Rightarrow> nat assoc" where
  "put_missing merged values =
     foldl (\<lambda>vs (k, v). if map_of vs k = None then put k v vs else vs) values merged"

primrec mergeYAMLMapping :: "nat \<Rightarrow> yaml_doc \<Rightarrow> nat assoc \<Rightarrow> nat \<Rightarrow> nat assoc option" where
  "mergeYAMLMapping 0 = (\<lambda>doc values p. None)"
| "mergeYAMLMapping (Suc n) = (\<lambda>doc values p.
     (let node = node_at doc (resolveYAMLAlias doc p) in
      if Kind node = SequenceNode then merge_all (mergeYAMLMapping n doc) (Content node) values
      else map_option (\<lambda>m. put_missing m values) (mapping_with (mergeYAMLMapping n doc) doc p)))"

definition yamlMapping :: "nat \<Rightarrow> yaml_doc \<Rightarrow> nat \<Rightarrow> nat assoc option" where
  "yamlMapping n doc p = mapping_with (mergeYAMLMapping n doc) doc p"

section \<open>Decoding\<close>

text \<open>The outcome of a decoding that may not return: \<open>None\<close>, or an error or a value.\<close>

type_synonym 'a returns = "(string + 'a) option"

definition ret_bind :: "'a returns \<Rightarrow> ('a \<Rightarrow> 'b returns) \<Rightarrow> 'b returns" where
  "ret_bind m f = (case m of None \<Rightarrow> None | Some (Inl e) \<Rightarrow> Some (Inl e) | Some (Inr v) \<Rightarrow> f v)"

text \<open>Decoding by reflection: a node into a value of a type without an \<open>UnmarshalYAML\<close> of its own.\<close>

record yaml_decode =
  d_string :: "yaml_doc \<Rightarrow> nat \<Rightarrow> string + string"
  d_int :: "yaml_doc \<Rightarrow> nat \<Rightarrow> string + int"
  d_any :: "yaml_doc \<Rightarrow> nat \<Rightarrow> string + scalar"
  d_strings :: "yaml_doc \<Rightarrow> nat \<Rightarrow> string + string list"
  d_string_map :: "yaml_doc \<Rightarrow> nat \<Rightarrow> string + string assoc"
  d_any_map :: "yaml_doc \<Rightarrow> nat \<Rightarrow> string + scalar assoc"
  d_push :: "yaml_doc \<Rightarrow> nat \<Rightarrow> string + GithubPushEvent"
  d_pull_request :: "yaml_doc \<Rightarrow> nat \<Rightarrow> string + GithubPullRequestEvent"
  d_types :: "yaml_doc \<Rightarrow> nat \<Rightarrow> string + string list"
  d_schedule :: "yaml_doc \<Rightarrow> nat \<Rightarrow> string + string list"
  d_workflow_call :: "yaml_doc \<Rightarrow> nat \<Rightarrow> string + GithubWorkflowCallEvent"
  d_workflow_dispatch :: "yaml_doc \<Rightarrow> nat \<Rightarrow> string + GithubWorkflowDispatchEvent"
  d_workflow_run :: "yaml_doc \<Rightarrow> nat \<Rightarrow> string + GithubWorkflowRunEvent"
  d_selection :: "yaml_doc \<Rightarrow> nat \<Rightarrow> string + (string \<times> string list)"
  d_steps :: "yaml_doc \<Rightarrow> nat \<Rightarrow> string + GithubStep option list"
  d_services :: "yaml_doc \<Rightarrow> nat \<Rightarrow> string + GithubContainer assoc"
  d_container :: "yaml_doc \<Rightarrow> nat \<Rightarrow> string + GithubContainer"
  d_strategy :: "yaml_doc \<Rightarrow> nat \<Rightarrow> string + GithubStrategy option"
  d_name :: "yaml_doc \<Rightarrow> nat \<Rightarrow> string + string"
  d_concurrency :: "yaml_doc \<Rightarrow> nat \<Rightarrow> string + GithubConcurrency"

text \<open>The decoder follows an alias and does not call \<open>UnmarshalYAML\<close> for a null.\<close>

definition is_null :: "yaml_doc \<Rightarrow> nat \<Rightarrow> bool" where
  "is_null doc p \<longleftrightarrow> Tag (node_at doc (resolveYAMLAlias doc p)) = ''!!null''"

definition StringList_UnmarshalYAML :: "yaml_decode \<Rightarrow> yaml_doc \<Rightarrow> nat \<Rightarrow> string + string list" where
  "StringList_UnmarshalYAML D doc p =
     (case Kind (node_at doc p) of
        ScalarNode \<Rightarrow> Inr [Value (node_at doc p)]
      | SequenceNode \<Rightarrow> d_strings D doc p
      | MappingNode \<Rightarrow>
          (case d_selection D doc p of Inl e \<Rightarrow> Inl e
           | Inr (grp, labels) \<Rightarrow> Inr ((if grp \<noteq> [] then [''group:'' @ grp] else []) @ labels))
      | _ \<Rightarrow> Inl ''expected a string, sequence, or runner selection mapping'')"

text \<open>The concise form: a scalar for one value, a sequence otherwise.\<close>

definition StringList_MarshalYAML :: "string list \<Rightarrow> string + string list" where
  "StringList_MarshalYAML values = (case values of [v] \<Rightarrow> Inl v | _ \<Rightarrow> Inr values)"

definition Concurrency_UnmarshalYAML :: "yaml_decode \<Rightarrow> yaml_doc \<Rightarrow> nat \<Rightarrow> string + GithubConcurrency" where
  "Concurrency_UnmarshalYAML D doc p =
     (if Kind (node_at doc p) = ScalarNode then Inr \<lparr>Group = Value (node_at doc p), CancelInProgress = NilValue\<rparr>
      else d_concurrency D doc p)"

text \<open>An event that is null, or unknown, is only noted. (The tag of an alias is empty.)\<close>

definition configure :: "yaml_decode \<Rightarrow> yaml_doc \<Rightarrow> string \<Rightarrow> nat option \<Rightarrow> GithubTriggerEvents \<Rightarrow> string + GithubTriggerEvents" where
  "configure D doc name value events =
     (let ev = events\<lparr>ev_configured := (if name \<in> set (ev_configured events) then ev_configured events
                                        else ev_configured events @ [name])\<rparr> in
      case value of
        None \<Rightarrow> Inr ev
      | Some p \<Rightarrow>
          if Tag (node_at doc p) = ''!!null'' then Inr ev
          else if name = ''push'' then bind_res (d_push D doc p) (\<lambda>v. Inr (ev\<lparr>Push := v\<rparr>))
          else if name = ''pull_request'' then bind_res (d_pull_request D doc p) (\<lambda>v. Inr (ev\<lparr>PullRequest := v\<rparr>))
          else if name = ''pull_request_target''
          then bind_res (d_pull_request D doc p) (\<lambda>v. Inr (ev\<lparr>PullRequestTarget := v\<rparr>))
          else if name = ''issue_comment'' then bind_res (d_types D doc p) (\<lambda>v. Inr (ev\<lparr>IssueComment := v\<rparr>))
          else if name = ''repository_dispatch''
          then bind_res (d_types D doc p) (\<lambda>v. Inr (ev\<lparr>RepositoryDispatch := v\<rparr>))
          else if name = ''schedule'' then bind_res (d_schedule D doc p) (\<lambda>v. Inr (ev\<lparr>Schedule_events := v\<rparr>))
          else if name = ''workflow_call'' then bind_res (d_workflow_call D doc p) (\<lambda>v. Inr (ev\<lparr>WorkflowCall := v\<rparr>))
          else if name = ''workflow_dispatch''
          then bind_res (d_workflow_dispatch D doc p) (\<lambda>v. Inr (ev\<lparr>WorkflowDispatch := v\<rparr>))
          else if name = ''workflow_run'' then bind_res (d_workflow_run D doc p) (\<lambda>v. Inr (ev\<lparr>WorkflowRun := v\<rparr>))
          else Inr ev)"

definition configure_named :: "yaml_decode \<Rightarrow> yaml_doc \<Rightarrow> nat \<Rightarrow> GithubTriggerEvents \<Rightarrow> string + GithubTriggerEvents" where
  "configure_named D doc p events =
     (let node = node_at doc (resolveYAMLAlias doc p) in
      if Kind node \<noteq> ScalarNode then Inl ''github trigger: expected an event name''
      else configure D doc (Value node) None events)"

definition events_UnmarshalYAML :: "nat \<Rightarrow> yaml_decode \<Rightarrow> yaml_doc \<Rightarrow> nat \<Rightarrow> GithubTriggerEvents returns" where
  "events_UnmarshalYAML n D doc p =
     (let q = resolveYAMLAlias doc p; node = node_at doc q in
      case Kind node of
        ScalarNode \<Rightarrow> Some (configure D doc (Value node) None (zero_events []))
      | SequenceNode \<Rightarrow> Some (fold_res (configure_named D doc) (Content node) (zero_events []))
      | MappingNode \<Rightarrow>
          map_option (\<lambda>m. fold_res (\<lambda>(name, v). configure D doc name (Some v)) m (zero_events [])) (yamlMapping n doc q)
      | _ \<Rightarrow> Some (Inl ''github trigger: expected a scalar, sequence, or mapping''))"

subsection \<open>Jobs\<close>

text \<open>The value of a key, decoded when it is there; the keys are taken in the order of the source's table.\<close>

definition when_given :: "nat assoc \<Rightarrow> string \<Rightarrow> (nat \<Rightarrow> string + 'v) \<Rightarrow> ('v \<Rightarrow> 'j \<Rightarrow> 'j) \<Rightarrow> 'j \<Rightarrow> string + 'j" where
  "when_given values name decode assign job =
     (case map_of values name of None \<Rightarrow> Inr job | Some p \<Rightarrow> bind_res (decode p) (\<lambda>v. Inr (assign v job)))"

definition decode_runs_on :: "yaml_decode \<Rightarrow> yaml_doc \<Rightarrow> nat \<Rightarrow> string + string list" where
  "decode_runs_on D doc p =
     (if is_null doc p then Inr [] else StringList_UnmarshalYAML D doc (resolveYAMLAlias doc p))"

definition decode_concurrency :: "yaml_decode \<Rightarrow> yaml_doc \<Rightarrow> nat \<Rightarrow> string + GithubConcurrency option" where
  "decode_concurrency D doc p =
     (if is_null doc p then Inr None else map_sum id Some (Concurrency_UnmarshalYAML D doc (resolveYAMLAlias doc p)))"

text \<open>The steps stay apart until they are validated, since a step may be nil here.\<close>

definition decodeGithubJobFields :: "yaml_decode \<Rightarrow> yaml_doc \<Rightarrow> nat assoc \<Rightarrow> GithubJob \<Rightarrow> string + (GithubJob \<times> GithubStep option list)" where
  "decodeGithubJobFields D doc values job =
     fold_res (\<lambda>f. f)
       [when_given values ''name'' (d_string D doc) (\<lambda>v (j, s). (j\<lparr>job_Name := v\<rparr>, s)),
        when_given values ''uses'' (d_string D doc) (\<lambda>v (j, s). (j\<lparr>job_Uses := v\<rparr>, s)),
        when_given values ''with'' (d_string_map D doc) (\<lambda>v (j, s). (j\<lparr>job_With := v\<rparr>, s)),
        when_given values ''secrets'' (d_any D doc) (\<lambda>v (j, s). (j\<lparr>job_Secrets := v\<rparr>, s)),
        when_given values ''outputs'' (d_string_map D doc) (\<lambda>v (j, s). (j\<lparr>job_Outputs := v\<rparr>, s)),
        when_given values ''runs-on'' (decode_runs_on D doc) (\<lambda>v (j, s). (j\<lparr>job_RunsOn := v\<rparr>, s)),
        when_given values ''steps'' (d_steps D doc) (\<lambda>v (j, s). (j, v)),
        when_given values ''if'' (d_string D doc) (\<lambda>v (j, s). (j\<lparr>job_If := v\<rparr>, s)),
        when_given values ''env'' (d_any_map D doc) (\<lambda>v (j, s). (j\<lparr>job_Env := v\<rparr>, s)),
        when_given values ''permissions'' (d_string_map D doc) (\<lambda>v (j, s). (j\<lparr>job_Permissions := v\<rparr>, s)),
        when_given values ''strategy'' (d_strategy D doc) (\<lambda>v (j, s). (j\<lparr>job_Strategy := v\<rparr>, s)),
        when_given values ''timeout-minutes'' (d_int D doc) (\<lambda>v (j, s). (j\<lparr>job_TimeoutMinutes := v\<rparr>, s)),
        when_given values ''services'' (d_services D doc) (\<lambda>v (j, s). (j\<lparr>job_Services := v\<rparr>, s)),
        when_given values ''concurrency'' (decode_concurrency D doc) (\<lambda>v (j, s). (j\<lparr>job_Concurrency := v\<rparr>, s))]
       (job, [])"

definition decodeGithubJobNeeds :: "yaml_decode \<Rightarrow> yaml_doc \<Rightarrow> nat option \<Rightarrow> GithubJob \<Rightarrow> string + GithubJob" where
  "decodeGithubJobNeeds D doc needs job =
     (case needs of
        None \<Rightarrow> Inr job
      | Some p \<Rightarrow>
          (case Kind (node_at doc p) of
             ScalarNode \<Rightarrow> Inr (job\<lparr>job_Needs := [Value (node_at doc p)]\<rparr>)
           | SequenceNode \<Rightarrow> bind_res (d_strings D doc p) (\<lambda>v. Inr (job\<lparr>job_Needs := v\<rparr>))
           | _ \<Rightarrow> Inl ''github job field needs: expected a scalar or sequence''))"

definition decodeGithubJobEnvironment :: "yaml_decode \<Rightarrow> yaml_doc \<Rightarrow> nat option \<Rightarrow> GithubJob \<Rightarrow> string + GithubJob" where
  "decodeGithubJobEnvironment D doc environment job =
     (case environment of
        None \<Rightarrow> Inr job
      | Some p \<Rightarrow>
          if Kind (node_at doc p) = ScalarNode then Inr (job\<lparr>job_Environment := Value (node_at doc p)\<rparr>)
          else bind_res (d_name D doc p) (\<lambda>v. Inr (job\<lparr>job_Environment := v\<rparr>)))"

definition decodeGithubJobContainer :: "yaml_decode \<Rightarrow> yaml_doc \<Rightarrow> nat option \<Rightarrow> GithubJob \<Rightarrow> string + GithubJob" where
  "decodeGithubJobContainer D doc container job =
     (case container of
        None \<Rightarrow> Inr job
      | Some p \<Rightarrow>
          if Tag (node_at doc p) = ''!!null'' then Inr job
          else if Kind (node_at doc p) = ScalarNode
          then Inr (job\<lparr>job_Container := Some (zero_container\<lparr>Image := Value (node_at doc p)\<rparr>)\<rparr>)
          else bind_res (d_container D doc p) (\<lambda>v. Inr (job\<lparr>job_Container := Some v\<rparr>)))"

definition validateGithubJobSteps :: "GithubStep option list \<Rightarrow> string + GithubStep list" where
  "validateGithubJobSteps steps =
     (case find_index (\<lambda>s. s = None) steps of
        Some i \<Rightarrow> Inl (''github job step '' @ Itoa (int i) @ '' must be a mapping'')
      | None \<Rightarrow> Inr (map the steps))"

definition job_UnmarshalYAML :: "nat \<Rightarrow> yaml_decode \<Rightarrow> yaml_doc \<Rightarrow> nat \<Rightarrow> GithubJob returns" where
  "job_UnmarshalYAML n D doc p =
     (let q = resolveYAMLAlias doc p in
      if Kind (node_at doc q) \<noteq> MappingNode then Some (Inl ''github job: expected a mapping node'')
      else map_option (\<lambda>values.
        bind_res (decodeGithubJobFields D doc values (zero_job (map fst values))) (\<lambda>(job, steps).
        bind_res (decodeGithubJobNeeds D doc (map_of values ''needs'') job) (\<lambda>job.
        bind_res (decodeGithubJobEnvironment D doc (map_of values ''environment'') job) (\<lambda>job.
        bind_res (decodeGithubJobContainer D doc (map_of values ''container'') job) (\<lambda>job.
        bind_res (validateGithubJobSteps steps) (\<lambda>ss. Inr (job\<lparr>job_Steps := ss\<rparr>)))))))
        (yamlMapping n doc q))"

subsection \<open>The jobs of a workflow\<close>

definition decode_job :: "nat \<Rightarrow> yaml_decode \<Rightarrow> yaml_doc \<Rightarrow> nat \<Rightarrow> GithubJob returns" where
  "decode_job n D doc p = (if is_null doc p then Some (Inr (zero_job [])) else job_UnmarshalYAML n D doc p)"

definition om_values :: "OrderedMap \<Rightarrow> GithubJob assoc" where
  "om_values om = (case Values om of None \<Rightarrow> [] | Some m \<Rightarrow> m)"

definition addYAMLJob :: "nat \<Rightarrow> yaml_decode \<Rightarrow> yaml_doc \<Rightarrow> string \<Rightarrow> nat \<Rightarrow> bool \<Rightarrow> OrderedMap \<Rightarrow> OrderedMap returns" where
  "addYAMLJob n D doc key p replace om =
     (if map_of (om_values om) key \<noteq> None \<and> \<not> replace then Some (Inr om)
      else ret_bind (decode_job n D doc (resolveYAMLAlias doc p)) (\<lambda>v.
        Some (Inr \<lparr>Keys = (if map_of (om_values om) key = None then Keys om @ [key] else Keys om),
                   Values = Some (put key v (om_values om))\<rparr>)))"

fun ret_fold :: "('a \<Rightarrow> 's \<Rightarrow> 's returns) \<Rightarrow> 'a list \<Rightarrow> 's \<Rightarrow> 's returns" where
  "ret_fold f [] s = Some (Inr s)"
| "ret_fold f (x # xs) s = ret_bind (f x s) (ret_fold f xs)"

definition yamlMergeNodes :: "yaml_doc \<Rightarrow> nat \<Rightarrow> nat list" where
  "yamlMergeNodes doc p =
     (let q = resolveYAMLAlias doc p in
      if Kind (node_at doc q) = SequenceNode then Content (node_at doc q) else [q])"

text \<open>The pairs of a mapping's content.\<close>

fun content_pairs :: "nat list \<Rightarrow> (nat \<times> nat) list" where
  "content_pairs (k # v # rest) = (k, v) # content_pairs rest"
| "content_pairs _ = []"

definition add_merged_node :: "nat \<Rightarrow> yaml_decode \<Rightarrow> yaml_doc \<Rightarrow> nat \<Rightarrow> OrderedMap \<Rightarrow> OrderedMap returns" where
  "add_merged_node n D doc p om =
     (case yamlMapping n doc p of None \<Rightarrow> None
      | Some m \<Rightarrow> ret_fold (\<lambda>(key, v). addYAMLJob n D doc key v False) m om)"

definition addMergedJobs :: "nat \<Rightarrow> yaml_decode \<Rightarrow> yaml_doc \<Rightarrow> nat list \<Rightarrow> OrderedMap \<Rightarrow> OrderedMap returns" where
  "addMergedJobs n D doc content =
     ret_fold (\<lambda>(k, v) om.
       if Value (node_at doc k) \<noteq> ''<<'' then Some (Inr om)
       else ret_fold (add_merged_node n D doc) (yamlMergeNodes doc v) om) (content_pairs content)"

definition OrderedMap_UnmarshalYAML :: "nat \<Rightarrow> yaml_decode \<Rightarrow> yaml_doc \<Rightarrow> nat \<Rightarrow> OrderedMap returns" where
  "OrderedMap_UnmarshalYAML n D doc p =
     (let node = node_at doc (resolveYAMLAlias doc p) in
      if Kind node \<noteq> MappingNode then Some (Inl ''OrderedMap: expected a mapping node'')
      else ret_bind (addMergedJobs n D doc (Content node) NewOrderedMap)
        (ret_fold (\<lambda>(k, v) om.
           if Value (node_at doc k) = ''<<'' then Some (Inr om)
           else addYAMLJob n D doc (Value (node_at doc k)) v True om) (content_pairs (Content node))))"

text \<open>Marshalling writes a pair of nodes for each key; marshalling a job is the YAML package's.\<close>

definition OrderedMap_MarshalYAML :: "(GithubJob \<Rightarrow> string + 'node) \<Rightarrow> OrderedMap \<Rightarrow> string + (string \<times> 'node) list" where
  "OrderedMap_MarshalYAML marshal om =
     fold_res (\<lambda>key out. bind_res (marshal (get_or (zero_job []) (map_of (om_values om)) key)) (\<lambda>v. Inr (out @ [(key, v)])))
       (Keys om) []"

section \<open>Merge keys\<close>

text \<open>The pairs that a mapping gives itself, and the nodes that it merges.\<close>

definition explicit_pairs :: "yaml_doc \<Rightarrow> nat list \<Rightarrow> nat assoc" where
  "explicit_pairs doc content =
     map (\<lambda>(k, v). (Value (node_at doc k), v)) (filter (\<lambda>(k, v). Value (node_at doc k) \<noteq> ''<<'') (content_pairs content))"

definition merged_nodes :: "yaml_doc \<Rightarrow> nat list \<Rightarrow> nat list" where
  "merged_nodes doc content = map snd (filter (\<lambda>(k, v). Value (node_at doc k) = ''<<'') (content_pairs content))"

text \<open>What several merged nodes give a key: the first of them that has it decides.\<close>

fun first_lookup :: "('p \<Rightarrow> ('k \<rightharpoonup> 'v) option) \<Rightarrow> 'p list \<Rightarrow> ('k \<rightharpoonup> 'v) option" where
  "first_lookup g [] = Some Map.empty"
| "first_lookup g (p # ps) =
     (case g p of None \<Rightarrow> None | Some m \<Rightarrow> map_option (\<lambda>later. later ++ m) (first_lookup g ps))"

definition merged_alone :: "nat \<Rightarrow> yaml_doc \<Rightarrow> nat \<Rightarrow> (string \<rightharpoonup> nat) option" where
  "merged_alone n doc p = map_option map_of (mergeYAMLMapping n doc [] p)"

lemma put_missing_simps [simp]:
  "put_missing [] vals = vals"
  "put_missing ((k, v) # ms) vals = put_missing ms (if map_of vals k = None then put k v vals else vals)"
  by (simp_all add: put_missing_def)

lemma map_of_put_missing: "map_of (put_missing ms vals) = map_of ms ++ map_of vals"
proof (induction ms arbitrary: vals)
  case Nil
  then show ?case by simp
next
  case (Cons x ms)
  obtain k v where x: "x = (k, v)" by fastforce
  show ?case
    by (cases "map_of vals k") (auto simp: x Cons.IH fun_eq_iff map_add_def split: option.split)
qed

lemma merge_all_lookup:
  assumes "\<And>vals p. map_option map_of (merge vals p) = map_option (\<lambda>m. m ++ map_of vals) (g p)"
  shows "map_option map_of (merge_all merge ps vals) = map_option (\<lambda>l. l ++ map_of vals) (first_lookup g ps)"
proof (induction ps arbitrary: vals)
  case Nil
  then show ?case by simp
next
  case (Cons p ps)
  show ?case
    using assms [of vals p] Cons.IH
    by (cases "g p") (auto simp: option.map_comp comp_def intro!: option.map_cong split: option.split)
qed

lemma mapping_loop_lookup:
  assumes g: "\<And>vals p. map_option map_of (merge vals p) = map_option (\<lambda>m. m ++ map_of vals) (g p)"
  shows "map_option map_of (mapping_loop merge doc c vals) =
    map_option (\<lambda>l. l ++ map_of vals ++ map_of (rev (explicit_pairs doc c))) (first_lookup g (merged_nodes doc c))"
proof (induction c arbitrary: vals rule: content_pairs.induct)
  case (1 k v rest)
  show ?case
  proof (cases "Value (node_at doc k) = ''<<''")
    case True
    then show ?thesis
      using g [of vals v] "1.IH"
      by (cases "g v")
        (auto simp: explicit_pairs_def merged_nodes_def option.map_comp comp_def split: option.split intro!: option.map_cong)
  next
    case False
    define n where "n = Value (node_at doc k)"
    have e: "map_of (rev (explicit_pairs doc (k # v # rest))) = [n \<mapsto> v] ++ map_of (rev (explicit_pairs doc rest))"
      using False by (simp add: explicit_pairs_def n_def)
    have m: "merged_nodes doc (k # v # rest) = merged_nodes doc rest"
      using False by (simp add: merged_nodes_def)
    have "map_of (put n v vals) = map_of vals ++ [n \<mapsto> v]" by simp
    with False show ?thesis
      by (simp only: mapping_loop.simps "1.IH" e m if_False map_add_assoc flip: n_def)
  qed
qed (simp_all add: explicit_pairs_def merged_nodes_def)

lemma merge_alone:
  "map_option map_of (mergeYAMLMapping n doc vals p) = map_option (\<lambda>m. m ++ map_of vals) (merged_alone n doc p)"
proof (induction n arbitrary: vals p)
  case 0
  then show ?case by (simp add: merged_alone_def)
next
  case (Suc n)
  show ?case
  proof (cases "Kind (node_at doc (resolveYAMLAlias doc p)) = SequenceNode")
    case True
    then show ?thesis
      using merge_all_lookup [of "mergeYAMLMapping n doc" "merged_alone n doc", OF Suc.IH]
      by (simp add: merged_alone_def option.map_comp comp_def)
  next
    case False
    then show ?thesis
      by (simp add: merged_alone_def option.map_comp comp_def map_of_put_missing)
  qed
qed

section \<open>Properties\<close>

text \<open>C31. what a mapping with merge keys gives a key: its own last pair for it, and otherwise the first of the
  nodes it merges that has it, wherever the merge keys stand between the pairs.\<close>

theorem yamlMapping_lookup:
  assumes "Kind (node_at doc p) = MappingNode"
  shows "map_option map_of (yamlMapping n doc p) =
    map_option (\<lambda>m. m ++ map_of (rev (explicit_pairs doc (Content (node_at doc p)))))
      (first_lookup (merged_alone n doc) (merged_nodes doc (Content (node_at doc p))))"
  using mapping_loop_lookup [of "mergeYAMLMapping n doc" "merged_alone n doc", OF merge_alone] assms
  by (simp add: yamlMapping_def mapping_with_def resolve_not_alias)

text \<open>A small document: a mapping of its own pair \<open>a\<close> that merges one with \<open>a\<close> and \<open>b\<close>.\<close>

definition scalar_node :: "string \<Rightarrow> yaml_node" where
  "scalar_node v = no_node\<lparr>Kind := ScalarNode, Tag := ''!!str'', Value := v\<rparr>"

definition merging_doc :: yaml_doc where
  "merging_doc =
     [no_node\<lparr>Kind := MappingNode, Content := [1, 2, 3, 4]\<rparr>, scalar_node ''<<'', no_node\<lparr>Kind := AliasNode, Alias := 5\<rparr>,
      scalar_node ''a'', scalar_node ''own'',
      no_node\<lparr>Kind := MappingNode, Content := [6, 7, 8, 9]\<rparr>, scalar_node ''a'', scalar_node ''merged'',
      scalar_node ''b'', scalar_node ''more'']"

lemmas merging_doc_simps = merging_doc_def scalar_node_def no_node_def node_at_def

lemma merging_doc_mapping: "yamlMapping 1 merging_doc 0 = Some [(''a'', 4), (''b'', 9)]"
  by (simp add: yamlMapping_def mapping_with_def resolveYAMLAlias_def resolve_seen.simps merging_doc_simps Let_def)

theorem yamlMapping_lookup_witness:
  "map_option map_of (yamlMapping 1 merging_doc 0) =
    map_option (\<lambda>m. m ++ map_of (rev (explicit_pairs merging_doc (Content (node_at merging_doc 0)))))
      (first_lookup (merged_alone 1 merging_doc) (merged_nodes merging_doc (Content (node_at merging_doc 0)))) \<and>
   map_option map_of (yamlMapping 1 merging_doc 0) = Some [''a'' \<mapsto> 4, ''b'' \<mapsto> 9]"
proof (rule conjI)
  show "map_option map_of (yamlMapping 1 merging_doc 0) =
    map_option (\<lambda>m. m ++ map_of (rev (explicit_pairs merging_doc (Content (node_at merging_doc 0)))))
      (first_lookup (merged_alone 1 merging_doc) (merged_nodes merging_doc (Content (node_at merging_doc 0))))"
    by (rule yamlMapping_lookup) (simp add: merging_doc_simps)
  show "map_option map_of (yamlMapping 1 merging_doc 0) = Some [''a'' \<mapsto> 4, ''b'' \<mapsto> 9]"
    by (simp add: merging_doc_mapping [simplified] fun_eq_iff)
qed

text \<open>Every node a node leads to is of a smaller rank: no anchored node contains its own alias.\<close>

definition ranked :: "yaml_doc \<Rightarrow> (nat \<Rightarrow> nat) \<Rightarrow> bool" where
  "ranked doc rank \<longleftrightarrow>
     list_all (\<lambda>p. list_all (\<lambda>c. rank c < rank p) (Content (node_at doc p)) \<and>
       (Kind (node_at doc p) = AliasNode \<longrightarrow> rank (Alias (node_at doc p)) < rank p)) [0..<length doc]"

lemma ranked_content: "ranked doc rank \<Longrightarrow> c \<in> set (Content (node_at doc p)) \<Longrightarrow> rank c < rank p"
  by (cases "p < length doc") (auto simp: ranked_def list_all_iff node_at_def no_node_def)

lemma ranked_alias: "ranked doc rank \<Longrightarrow> Kind (node_at doc p) = AliasNode \<Longrightarrow> rank (Alias (node_at doc p)) < rank p"
  by (cases "p < length doc") (auto simp: ranked_def list_all_iff node_at_def no_node_def)

lemma ranked_resolve: "ranked doc rank \<Longrightarrow> rank (resolve_seen doc seen p) \<le> rank p"
proof (induction doc seen p rule: resolve_seen.induct)
  case (1 doc seen p)
  then show ?case
    using ranked_alias [OF "1.prems", of p] by (auto simp: resolve_seen.simps [of doc seen p] intro: le_trans less_imp_le)
qed

lemma mapping_loop_returns:
  assumes "\<And>vals v. v \<in> set c \<Longrightarrow> merge vals v \<noteq> None"
  shows "mapping_loop merge doc c vals \<noteq> None"
  using assms
proof (induction c arbitrary: vals rule: content_pairs.induct)
  case (1 k v rest)
  then obtain vs where "merge vals v = Some vs" by fastforce
  with 1 show ?case by simp
qed simp_all

lemma merge_all_returns:
  assumes "\<And>vals v. v \<in> set ps \<Longrightarrow> merge vals v \<noteq> None"
  shows "merge_all merge ps vals \<noteq> None"
  using assms
proof (induction ps arbitrary: vals)
  case (Cons p ps)
  then obtain vs where "merge vals p = Some vs" by fastforce
  with Cons show ?case by simp
qed simp

lemma ranked_content_resolved:
  "ranked doc rank \<Longrightarrow> c \<in> set (Content (node_at doc (resolveYAMLAlias doc p))) \<Longrightarrow> rank c < rank p"
  using ranked_content [of doc rank c "resolveYAMLAlias doc p"] ranked_resolve [of doc rank "{}" p]
  by (simp add: resolveYAMLAlias_def)

lemma mapping_with_returns:
  assumes "ranked doc rank" and "\<And>vals c. rank c < rank p \<Longrightarrow> merge vals c \<noteq> None"
  shows "mapping_with merge doc p \<noteq> None"
  using assms mapping_loop_returns [of "Content (node_at doc (resolveYAMLAlias doc p))" merge doc "[]"]
    ranked_content_resolved [of doc rank _ p]
  by (auto simp: mapping_with_def Let_def)

lemma merge_returns: "ranked doc rank \<Longrightarrow> rank p < n \<Longrightarrow> mergeYAMLMapping n doc vals p \<noteq> None"
proof (induction n arbitrary: vals p)
  case (Suc n)
  then have m: "mergeYAMLMapping n doc vals c \<noteq> None" if "rank c < rank p" for vals c
    using that by auto
  from mapping_with_returns [OF Suc.prems(1) m]
    merge_all_returns [of "Content (node_at doc (resolveYAMLAlias doc p))" "mergeYAMLMapping n doc", OF m]
    ranked_content_resolved [OF Suc.prems(1), of _ p]
  show ?case by (simp add: Let_def)
qed simp

text \<open>reading a mapping ends in every document whose anchored nodes do not contain their own alias.\<close>

theorem yamlMapping_returns:
  assumes "ranked doc rank"
  shows "yamlMapping (rank p) doc p \<noteq> None"
  unfolding yamlMapping_def
  by (rule mapping_with_returns [OF assms]) (rule merge_returns [OF assms])

definition merging_rank :: "nat \<Rightarrow> nat" where
  "merging_rank p = (if p = 0 then 3 else if p = 2 then 2 else if p = 5 then 1 else 0)"

theorem yamlMapping_returns_witness: "yamlMapping (merging_rank 0) merging_doc 0 \<noteq> None"
proof (rule yamlMapping_returns)
  have "length merging_doc = 10" by (simp add: merging_doc_def)
  then show "ranked merging_doc merging_rank"
    by (simp add: ranked_def merging_rank_def upt_rec merging_doc_simps)
qed

text \<open>and it never ends when a mapping merges itself, \<open>&a {<<: *a}\<close>: whatever depth of calls the stack has room
  for, it is not enough, neither for the triggers of a workflow nor for a job.\<close>

theorem self_merge_never_returns:
  assumes m: "Kind (node_at doc p) = MappingNode" "Content (node_at doc p) = k # v # rest"
    and k: "Value (node_at doc k) = ''<<''" and v: "resolveYAMLAlias doc v = p"
  shows "yamlMapping n doc p = None \<and> events_UnmarshalYAML n D doc p = None \<and> job_UnmarshalYAML n D doc p = None"
proof -
  have "mergeYAMLMapping n doc vals v = None" for n vals
    using m k v by (induction n arbitrary: vals) (simp_all add: mapping_with_def)
  then have "yamlMapping n doc p = None"
    using m k by (simp add: yamlMapping_def mapping_with_def resolve_not_alias)
  then show ?thesis
    using m by (simp add: events_UnmarshalYAML_def job_UnmarshalYAML_def resolve_not_alias Let_def)
qed

definition self_merging_doc :: yaml_doc where
  "self_merging_doc = [no_node\<lparr>Kind := MappingNode, Content := [1, 2]\<rparr>, scalar_node ''<<'', no_node\<lparr>Kind := AliasNode, Alias := 0\<rparr>]"

theorem self_merge_never_returns_witness:
  fixes D :: yaml_decode
  shows "yamlMapping 1000 self_merging_doc 0 = None \<and> events_UnmarshalYAML 1000 D self_merging_doc 0 = None \<and>
    job_UnmarshalYAML 1000 D self_merging_doc 0 = None"
  by (rule self_merge_never_returns [of _ _ 1 2 "[]"])
    (simp_all add: self_merging_doc_def merging_doc_simps resolveYAMLAlias_def resolve_seen.simps)

lemma configure_configured:
  "configure D doc name p events = Inr ev \<Longrightarrow> set (ev_configured ev) = insert name (set (ev_configured events))"
  by (auto simp: configure_def Let_def bind_res_Inr_iff split: option.splits if_splits)

lemma configure_fold:
  "fold_res (\<lambda>(name, v). configure D doc name (Some v)) m events = Inr ev \<Longrightarrow>
   set (ev_configured ev) = set (ev_configured events) \<union> fst ` set m"
  by (induction m arbitrary: events) (auto simp: bind_res_Inr_iff dest: configure_configured)

lemma configure_named_fold:
  "fold_res (configure_named D doc) ps events = Inr ev \<Longrightarrow>
   set (ev_configured ev) = set (ev_configured events) \<union> (\<lambda>p. Value (node_at doc (resolveYAMLAlias doc p))) ` set ps"
  by (induction ps arbitrary: events)
    (auto simp: bind_res_Inr_iff configure_named_def Let_def dest: configure_configured split: if_splits)

text \<open>the triggers that \<open>on\<close> gives, in whichever form and whether known to the schema or not, are exactly the
  configured ones: a policy that looks at them sees them all.\<close>

theorem every_trigger_configured:
  assumes "events_UnmarshalYAML n D doc p = Some (Inr ev)"
  shows "set (ConfiguredNames (Some ev)) =
    (let node = node_at doc (resolveYAMLAlias doc p) in
     if Kind node = ScalarNode then {Value node}
     else if Kind node = SequenceNode then (\<lambda>q. Value (node_at doc (resolveYAMLAlias doc q))) ` set (Content node)
     else (case yamlMapping n doc (resolveYAMLAlias doc p) of None \<Rightarrow> {} | Some m \<Rightarrow> fst ` set m))"
  using assms
  by (auto simp: events_UnmarshalYAML_def ConfiguredNames_def Let_def zero_events_def
      dest!: configure_configured configure_fold configure_named_fold split: node_kind.splits if_splits)

text \<open>A scalar needs no decoding.\<close>

definition push_doc :: yaml_doc where
  "push_doc = [no_node\<lparr>Kind := SequenceNode, Content := [1, 2]\<rparr>, scalar_node ''push'', no_node\<lparr>Kind := AliasNode, Alias := 1\<rparr>]"

theorem every_trigger_configured_witness:
  fixes D :: yaml_decode
  shows "set (ConfiguredNames (Some (zero_events [''push'']))) =
    (let node = node_at push_doc (resolveYAMLAlias push_doc 0) in
     if Kind node = ScalarNode then {Value node}
     else if Kind node = SequenceNode
     then (\<lambda>q. Value (node_at push_doc (resolveYAMLAlias push_doc q))) ` set (Content node)
     else (case yamlMapping 0 push_doc (resolveYAMLAlias push_doc 0) of None \<Rightarrow> {} | Some m \<Rightarrow> fst ` set m))"
proof (rule every_trigger_configured)
  show "events_UnmarshalYAML 0 D push_doc 0 = Some (Inr (zero_events [''push'']))"
    by (simp add: events_UnmarshalYAML_def push_doc_def merging_doc_simps resolveYAMLAlias_def resolve_seen.simps
        configure_named_def configure_def zero_events_def Let_def)
qed

text \<open>The keys of an ordered map and its values agree.\<close>

definition keys_match :: "OrderedMap \<Rightarrow> bool" where
  "keys_match om \<longleftrightarrow> distinct (Keys om) \<and> set (Keys om) = dom (map_of (om_values om)) \<and>
     distinct (map fst (om_values om)) \<and> Values om \<noteq> None"

lemma ret_bind_Inr: "ret_bind m f = Some (Inr v) \<longleftrightarrow> (\<exists>u. m = Some (Inr u) \<and> f u = Some (Inr v))"
  by (auto simp: ret_bind_def split: option.splits sum.splits)

lemma ret_fold_inv:
  assumes "ret_fold f xs s = Some (Inr s')" and "P s"
    and "\<And>x s s'. x \<in> set xs \<Longrightarrow> P s \<Longrightarrow> f x s = Some (Inr s') \<Longrightarrow> P s'"
  shows "P s'"
  using assms by (induction xs arbitrary: s) (auto simp: ret_bind_Inr)

lemma addYAMLJob_keys: "addYAMLJob n D doc key p r om = Some (Inr om') \<Longrightarrow> keys_match om \<Longrightarrow> keys_match om'"
  by (auto simp: addYAMLJob_def ret_bind_Inr keys_match_def om_values_def distinct_put dom_def split: if_splits)

lemma NewOrderedMap_keys: "keys_match NewOrderedMap"
  by (simp add: keys_match_def NewOrderedMap_def om_values_def)

lemma add_merged_node_keys: "add_merged_node n D doc p om = Some (Inr om') \<Longrightarrow> keys_match om \<Longrightarrow> keys_match om'"
  by (auto simp: add_merged_node_def split: option.splits elim!: ret_fold_inv dest: addYAMLJob_keys)

lemma addMergedJobs_keys: "addMergedJobs n D doc c om = Some (Inr om') \<Longrightarrow> keys_match om \<Longrightarrow> keys_match om'"
  unfolding addMergedJobs_def
  by (erule ret_fold_inv) (auto split: if_splits elim!: ret_fold_inv dest: add_merged_node_keys)

text \<open>a decoded list of jobs names every job once, in order, and holds exactly the named jobs.\<close>

theorem decoded_jobs_ordered:
  assumes "OrderedMap_UnmarshalYAML n D doc p = Some (Inr om)"
  shows "keys_match om"
proof -
  from assms obtain om1 where
    1: "addMergedJobs n D doc (Content (node_at doc (resolveYAMLAlias doc p))) NewOrderedMap = Some (Inr om1)" and
    2: "ret_fold (\<lambda>(k, v) om. if Value (node_at doc k) = ''<<'' then Some (Inr om)
      else addYAMLJob n D doc (Value (node_at doc k)) v True om)
      (content_pairs (Content (node_at doc (resolveYAMLAlias doc p)))) om1 = Some (Inr om)"
    by (auto simp: OrderedMap_UnmarshalYAML_def Let_def ret_bind_Inr split: if_splits)
  from addMergedJobs_keys [OF 1 NewOrderedMap_keys] show ?thesis
    by (rule ret_fold_inv [OF 2]) (auto split: if_splits dest: addYAMLJob_keys)
qed

definition jobs_doc :: yaml_doc where
  "jobs_doc = [no_node\<lparr>Kind := MappingNode, Content := [1, 2]\<rparr>, scalar_node ''build'',
     no_node\<lparr>Kind := ScalarNode, Tag := ''!!null''\<rparr>]"

theorem decoded_jobs_ordered_witness:
  fixes D :: yaml_decode
  shows "keys_match \<lparr>Keys = [''build''], Values = Some [(''build'', zero_job [])]\<rparr>"
proof (rule decoded_jobs_ordered)
  show "OrderedMap_UnmarshalYAML 0 D jobs_doc 0 =
    Some (Inr \<lparr>Keys = [''build''], Values = Some [(''build'', zero_job [])]\<rparr>)"
    by (simp add: OrderedMap_UnmarshalYAML_def addMergedJobs_def addYAMLJob_def decode_job_def is_null_def
        jobs_doc_def merging_doc_simps resolveYAMLAlias_def resolve_seen.simps NewOrderedMap_def om_values_def
        ret_bind_def Let_def)
qed

text \<open>Adding a job under a name that is there makes the name occur twice.\<close>

lemma Add_twice:
  "OrderedMap_Add key job om = Some om' \<Longrightarrow> key \<in> set (Keys om) \<Longrightarrow> \<not> keys_match om'"
  by (auto simp: OrderedMap_Add_def keys_match_def split: option.splits)

text \<open>the jobs a job needs cannot be given by an alias, although an alias stands for its node everywhere else: the
  node is not resolved before its kind is looked at.\<close>

theorem needs_by_alias_refused:
  assumes "yamlMapping n doc p = Some m" "map_of m ''needs'' = Some q" "Kind (node_at doc q) = AliasNode"
    and "Kind (node_at doc p) = MappingNode"
  shows "\<exists>e. job_UnmarshalYAML n D doc p = Some (Inl e)"
proof -
  have n: "decodeGithubJobNeeds D doc (Some q) job = Inl ''github job field needs: expected a scalar or sequence''" for job
    using assms(3) by (simp add: decodeGithubJobNeeds_def)
  show ?thesis
    using assms
    by (cases "decodeGithubJobFields D doc m (zero_job (map fst m))")
      (auto simp: job_UnmarshalYAML_def resolve_not_alias Let_def bind_res_def n)
qed

definition needing_doc :: "yaml_doc" where
  "needing_doc = [no_node\<lparr>Kind := MappingNode, Content := [1, 2]\<rparr>, scalar_node ''needs'',
     no_node\<lparr>Kind := AliasNode, Alias := 3\<rparr>, scalar_node ''build'']"

theorem needs_by_alias_refused_witness:
  fixes D :: yaml_decode
  shows "\<exists>e. job_UnmarshalYAML 0 D needing_doc 0 = Some (Inl e)"
  by (rule needs_by_alias_refused [of _ _ _ "[(''needs'', 2)]" 2])
    (simp_all add: yamlMapping_def mapping_with_def needing_doc_def merging_doc_simps resolve_not_alias)

text \<open>a list of strings that was marshalled in its concise form is read back.\<close>

theorem StringList_roundtrip:
  assumes "case StringList_MarshalYAML vs of
      Inl v \<Rightarrow> Kind (node_at doc p) = ScalarNode \<and> Value (node_at doc p) = v
    | Inr ws \<Rightarrow> Kind (node_at doc p) = SequenceNode \<and> d_strings D doc p = Inr ws"
  shows "StringList_UnmarshalYAML D doc p = Inr vs"
  using assms by (auto simp: StringList_MarshalYAML_def StringList_UnmarshalYAML_def split: list.splits)

theorem StringList_roundtrip_witness:
  fixes D :: yaml_decode
  shows "StringList_UnmarshalYAML D [scalar_node ''ubuntu-latest''] 0 = Inr [''ubuntu-latest'']"
  by (rule StringList_roundtrip) (simp add: StringList_MarshalYAML_def merging_doc_simps)

end
