(* ===== verification/GoMatch.thy ===== *)
theory GoMatch
  imports GoStrings
begin

text \<open>
  \<open>path/filepath.Match\<close> on Unix: shell patterns with \<open>*\<close>, \<open>?\<close>, classes and escapes, matched against a
  whole name. A pattern that is not well-formed is an error, whatever the name.
\<close>

section \<open>Patterns\<close>

text \<open>A class is a list of ranges, and whether it is negated.\<close>

datatype pattern_item = AnyRun | AnyOne | Exactly char | InClass bool "(char \<times> char) list"

text \<open>\<open>getEsc\<close>: one end of a range; something must follow it.\<close>

fun getEsc :: "string \<Rightarrow> (char \<times> string) option" where
  "getEsc [] = None"
| "getEsc (c # cs) =
     (if c = CHR ''-'' \<or> c = CHR '']'' then None
      else if c = CHR 0x5C then (case cs of d # r # rest \<Rightarrow> Some (d, r # rest) | _ \<Rightarrow> None)
      else (case cs of [] \<Rightarrow> None | r # rest \<Rightarrow> Some (c, r # rest)))"

lemma getEsc_shorter: "getEsc s = Some (c, r) \<Longrightarrow> length r < length s"
  by (cases s) (auto split: if_splits list.splits)

text \<open>The ranges up to the closing bracket, of which there is at least one.\<close>

definition range_at :: "string \<Rightarrow> ((char \<times> char) \<times> string) option" where
  "range_at s =
     (case getEsc s of
        None \<Rightarrow> None
      | Some (lo, r) \<Rightarrow>
          if HasPrefix r ''-'' then (case getEsc (drop 1 r) of None \<Rightarrow> None | Some (hi, r') \<Rightarrow> Some ((lo, hi), r'))
          else Some ((lo, lo), r))"

lemma range_at_shorter: "range_at s = Some (x, r) \<Longrightarrow> length r < length s"
  by (auto simp: range_at_def split: option.splits if_splits dest!: getEsc_shorter)

function class_ranges :: "string \<Rightarrow> ((char \<times> char) list \<times> string) option" where
  "class_ranges s =
     (case range_at s of
        None \<Rightarrow> None
      | Some (x, r) \<Rightarrow>
          if HasPrefix r '']'' then Some ([x], drop 1 r)
          else (case class_ranges r of None \<Rightarrow> None | Some (xs, r') \<Rightarrow> Some (x # xs, r')))"
  by pat_completeness auto
termination by (relation "measure length") (auto dest: range_at_shorter)

declare class_ranges.simps [simp del]

lemma class_ranges_shorter: "class_ranges s = Some (xs, r) \<Longrightarrow> length r < length s"
proof (induction s arbitrary: xs r rule: class_ranges.induct)
  case (1 s)
  from "1.prems" obtain x r1 where x: "range_at s = Some (x, r1)"
    by (auto simp: class_ranges.simps [of s] split: option.splits)
  show ?case
  proof (cases "HasPrefix r1 '']''")
    case True
    with "1.prems" x have "r = drop 1 r1" by (simp add: class_ranges.simps [of s])
    with range_at_shorter [OF x] show ?thesis by simp
  next
    case False
    with "1.prems" x obtain ys where "class_ranges r1 = Some (ys, r)"
      by (auto simp: class_ranges.simps [of s] split: option.splits)
    from "1.IH" [OF x _ False this] range_at_shorter [OF x] show ?thesis by simp
  qed
qed

function parse_pattern :: "string \<Rightarrow> pattern_item list option" where
  "parse_pattern [] = Some []"
| "parse_pattern (c # cs) =
     (if c = CHR ''*'' then map_option ((#) AnyRun) (parse_pattern cs)
      else if c = CHR ''?'' then map_option ((#) AnyOne) (parse_pattern cs)
      else if c = CHR 0x5C then (case cs of [] \<Rightarrow> None | d # ds \<Rightarrow> map_option ((#) (Exactly d)) (parse_pattern ds))
      else if c = CHR ''['' then
        (let negated = HasPrefix cs ''^'' in
         case class_ranges (if negated then drop 1 cs else cs) of
           None \<Rightarrow> None
         | Some (xs, r) \<Rightarrow> map_option ((#) (InClass negated xs)) (parse_pattern r))
      else map_option ((#) (Exactly c)) (parse_pattern cs))"
  by pat_completeness auto
termination
  by (relation "measure length") (auto dest!: class_ranges_shorter split: if_splits)

declare parse_pattern.simps(2) [simp del]

text \<open>A run and a single character do not match a separator.\<close>

definition item_matches :: "pattern_item \<Rightarrow> char \<Rightarrow> bool" where
  "item_matches i c =
     (case i of AnyRun \<Rightarrow> c \<noteq> CHR ''/'' | AnyOne \<Rightarrow> c \<noteq> CHR ''/'' | Exactly d \<Rightarrow> c = d
      | InClass negated xs \<Rightarrow> list_ex (\<lambda>(lo, hi). byte lo \<le> byte c \<and> byte c \<le> byte hi) xs \<noteq> negated)"

fun matches_items :: "pattern_item list \<Rightarrow> string \<Rightarrow> bool" where
  "matches_items [] s = (s = [])"
| "matches_items (AnyRun # is) [] = matches_items is []"
| "matches_items (AnyRun # is) (c # cs) =
     (matches_items is (c # cs) \<or> item_matches AnyRun c \<and> matches_items (AnyRun # is) cs)"
| "matches_items (i # is) [] = False"
| "matches_items (i # is) (c # cs) = (item_matches i c \<and> matches_items is cs)"

definition Match :: "string \<Rightarrow> string \<Rightarrow> bool option" where
  "Match pattern name = map_option (\<lambda>is. matches_items is name) (parse_pattern pattern)"

section \<open>Facts\<close>

definition plain_char :: "char \<Rightarrow> bool" where
  "plain_char c \<longleftrightarrow> c \<notin> {CHR ''*'', CHR ''?'', CHR ''['', CHR 0x5C}"

lemma parse_plain: "\<forall>c \<in> set s. plain_char c \<Longrightarrow> parse_pattern s = Some (map Exactly s)"
  by (induction s) (simp_all add: plain_char_def parse_pattern.simps(2))

lemma matches_exactly: "matches_items (map Exactly s) t \<longleftrightarrow> t = s"
proof (induction s arbitrary: t)
  case Nil
  then show ?case by simp
next
  case (Cons c s)
  then show ?case by (cases t) (auto simp: item_matches_def)
qed

lemma Match_plain: "\<forall>c \<in> set s. plain_char c \<Longrightarrow> Match s name = Some (name = s)"
  by (simp add: Match_def parse_plain matches_exactly)

lemma matches_run: "matches_items [AnyRun] s \<longleftrightarrow> CHR ''/'' \<notin> set s"
  by (induction s) (auto simp: item_matches_def)

lemma Match_star: "Match ''*'' name = Some (CHR ''/'' \<notin> set name)"
  by (simp add: Match_def parse_pattern.simps(2) matches_run)

end
