(* ===== verification/WorkflowPolicy.thy ===== *)
theory WorkflowPolicy
  imports GithubSchema GoMatch
begin

text \<open>
  \<open>scripts/check-workflow-policy/main.go\<close>, the part that looks at every workflow by itself and at the flow of
  authority between them: permissions, pinned actions, checkouts of pull-request content, the events that
  reach a workflow through reusable calls, and the authority of a job. The required shape of the repository's
  own workflows is in the theory WorkflowTopology.
\<close>

section \<open>Names of the source\<close>

definition checkoutAction :: string where "checkoutAction = ''actions/checkout''"
definition checkoutActionPrefix :: string where "checkoutActionPrefix = ''actions/checkout@''"
definition secretExpressionMarker :: string where "secretExpressionMarker = ''secrets.''"
definition debugBuilderWorkflowPath :: string where "debugBuilderWorkflowPath = ''.github/workflows/debug-build.yml''"
definition debugRequestWorkflowPath :: string where
  "debugRequestWorkflowPath = ''.github/workflows/debug-build-request.yml''"
definition debugPublisherWorkflowPath :: string where
  "debugPublisherWorkflowPath = ''.github/workflows/publish-debug-release.yml''"
definition debugReleaseValidateJob :: string where "debugReleaseValidateJob = ''validate-build''"
definition pullRequestsPermission :: string where "pullRequestsPermission = ''pull-requests''"

lemmas policy_names = checkoutAction_def checkoutActionPrefix_def secretExpressionMarker_def
  debugBuilderWorkflowPath_def debugRequestWorkflowPath_def debugPublisherWorkflowPath_def
  debugReleaseValidateJob_def pullRequestsPermission_def

section \<open>Workflows\<close>

record Workflow = GithubWorkflow +
  wf_Path :: string

type_synonym workflows = "Workflow assoc"

abbreviation jobs :: "Workflow \<Rightarrow> GithubJob assoc" where
  "jobs w \<equiv> om_values (Jobs w)"

text \<open>What the checker says: one value for each of its messages.\<close>

datatype violation =
    ReadError string
  | InvalidYAML string string
  | NeedsJobs string
  | NoWorkflows
  | WorkflowPermissions string
  | JobPermissions string string
  | UnpinnedDocker string string
  | UnpinnedAction string string
  | DangerousCheckout string string
  | PrivilegedReusableCall string string
  | CacheWrite string string
  | Privilege string string
  | PersistentRunner string string
  | MissingWorkflow string
  | PolicyTopology | BrokerTrigger | BrokerAuthorization | BrokerBuild | BrokerFinalizer
  | BuilderMissing | BuilderTopology | PublisherTopology | ReleaseTopology string string | ScorecardTopology
  | SonarEnvelope | SonarJob | SonarJobAuthority | SonarSteps | SonarCheckout | SonarProvenance | SonarReports
  | SonarConfiguration | SonarMaterializer | SonarScanner | SonarToken

definition of_definition :: "string \<Rightarrow> GithubWorkflow \<Rightarrow> Workflow" where
  "of_definition p d = \<lparr>wf_Name = wf_Name d, On = On d, Jobs = Jobs d, wf_Defaults = wf_Defaults d, wf_Env = wf_Env d,
     wf_Permissions = wf_Permissions d, wf_Concurrency = wf_Concurrency d, wf_Path = p\<rparr>"

text \<open>Reading the YAML of a whole file is a parameter.\<close>

definition parseWorkflow :: "(string \<Rightarrow> string + GithubWorkflow) \<Rightarrow> string \<Rightarrow> string \<Rightarrow> violation + Workflow" where
  "parseWorkflow unmarshal p content =
     (case unmarshal content of
        Inl e \<Rightarrow> Inl (InvalidYAML p e)
      | Inr d \<Rightarrow> if Values (Jobs d) = None then Inl (NeedsJobs p) else Inr (of_definition p d))"

text \<open>The entries of the directory, each with whether it is one itself, and the reading of a file.\<close>

record policy_io =
  ReadDir :: "string \<Rightarrow> string + (string \<times> bool) list"
  ReadFile :: "string \<Rightarrow> string + string"
  Unmarshal :: "string \<Rightarrow> string + GithubWorkflow"

definition load_entry :: "policy_io \<Rightarrow> string \<Rightarrow> string \<times> bool \<Rightarrow> workflows \<Rightarrow> violation + workflows" where
  "load_entry io dir e ws =
     (case e of (name, is_dir) \<Rightarrow>
        if is_dir \<or> Ext name \<noteq> ''.yml'' \<and> Ext name \<noteq> ''.yaml'' then Inr ws
        else (case ReadFile io (JoinPath [dir, name]) of
                Inl e \<Rightarrow> Inl (ReadError (JoinPath [dir, name]))
              | Inr content \<Rightarrow>
                  bind_res (parseWorkflow (Unmarshal io) (''.github/workflows/'' @ name) content)
                    (\<lambda>w. Inr (put (wf_Path w) w ws))))"

definition LoadWorkflows :: "policy_io \<Rightarrow> string \<Rightarrow> violation + workflows" where
  "LoadWorkflows io root =
     (let dir = JoinPath [root, ''.github'', ''workflows''] in
      case ReadDir io dir of
        Inl e \<Rightarrow> Inl (ReadError dir)
      | Inr entries \<Rightarrow> fold_res (load_entry io dir) entries [])"

definition hasTrigger :: "Workflow \<Rightarrow> string \<Rightarrow> bool" where
  "hasTrigger w name = event_Has (On w) name"

definition hasOnlyTriggers :: "Workflow \<Rightarrow> string list \<Rightarrow> bool" where
  "hasOnlyTriggers w expected \<longleftrightarrow>
     length (ConfiguredNames (On w)) = length expected \<and> list_all (event_Has (On w)) expected"

definition concurrencyGroup :: "GithubJob \<Rightarrow> string" where
  "concurrencyGroup job = (case job_Concurrency job of None \<Rightarrow> [] | Some c \<Rightarrow> Group c)"

definition workflowConcurrencyGroup :: "Workflow \<Rightarrow> string" where
  "workflowConcurrencyGroup w = (case wf_Concurrency w of None \<Rightarrow> [] | Some c \<Rightarrow> Group c)"

definition scalarValue :: "scalar \<Rightarrow> string" where
  "scalarValue v = (case v of NilValue \<Rightarrow> [] | Text s \<Rightarrow> s | Printed s \<Rightarrow> s)"

section \<open>Permissions and actions\<close>

type_synonym Permissions = "string assoc"

definition samePermissions :: "Permissions \<Rightarrow> Permissions \<Rightarrow> bool" where
  "samePermissions actual expected \<longleftrightarrow>
     length actual = length expected \<and> list_all (\<lambda>(name, v). field actual name = v) expected"

definition expectedWorkflowPermissions :: "string \<Rightarrow> Permissions" where
  "expectedWorkflowPermissions p = [(''contents'', ''read'')]"

definition allowed_permissions :: "Permissions assoc assoc" where
  "allowed_permissions =
     [(debugRequestWorkflowPath,
        [(''authorize'', [(pullRequestsPermission, ''read'')]),
         (''build'', [(''contents'', ''read''), (pullRequestsPermission, ''read'')]),
         (''finalize'', [(''actions'', ''read''), (''contents'', ''read''), (pullRequestsPermission, ''read'')])]),
      (debugBuilderWorkflowPath, [(''build'', [(''contents'', ''read''), (pullRequestsPermission, ''read'')])]),
      (''.github/workflows/pr.yml'', [(''report'', [(''contents'', ''read''), (''checks'', ''write'')])]),
      (debugPublisherWorkflowPath,
        [(debugReleaseValidateJob, [(''actions'', ''read''), (''contents'', ''read''), (pullRequestsPermission, ''read'')]),
         (''publish'', [(''actions'', ''read''), (''contents'', ''write'')])]),
      (''.github/workflows/release.yml'', [(''release'', [(''contents'', ''write'')])]),
      (''.github/workflows/release_container.yml'',
        [(''build-and-push'', [(''contents'', ''read''), (''packages'', ''write'')])]),
      (''.github/workflows/scorecard.yml'',
        [(''analysis'', [(''contents'', ''read''), (''security-events'', ''write''), (''id-token'', ''write'')])])]"

definition expectedJobPermissions :: "Workflow \<Rightarrow> string \<Rightarrow> Permissions" where
  "expectedJobPermissions w job =
     (case map_of allowed_permissions (wf_Path w) of
        Some js \<Rightarrow> (case map_of js job of Some p \<Rightarrow> p | None \<Rightarrow> [(''contents'', ''read'')])
      | None \<Rightarrow> [(''contents'', ''read'')])"

text \<open>The regular expression \<open>@[0-9a-f]{40}$\<close>: the last forty bytes.\<close>

definition hex_digit :: "char \<Rightarrow> bool" where
  "hex_digit c \<longleftrightarrow> is_digit c \<or> 97 \<le> byte c \<and> byte c \<le> 102"

definition pinnedAction :: "string \<Rightarrow> bool" where
  "pinnedAction s \<longleftrightarrow>
     41 \<le> length s \<and> HasPrefix (drop (length s - 41) s) ''@'' \<and> list_all hex_digit (drop (length s - 40) s)"

definition step_pinned :: "string \<Rightarrow> GithubStep \<Rightarrow> violation option" where
  "step_pinned p st =
     (if step_Uses st = [] \<or> HasPrefix (step_Uses st) ''./'' then None
      else if HasPrefix (step_Uses st) ''docker://''
      then (if \<not> Contains (step_Uses st) ''@sha256:'' then Some (UnpinnedDocker p (step_Uses st)) else None)
      else if \<not> pinnedAction (step_Uses st) then Some (UnpinnedAction p (step_Uses st)) else None)"

definition validateActions :: "string \<Rightarrow> GithubJob \<Rightarrow> violation option" where
  "validateActions p job = first_error (map (step_pinned p) (job_Steps job))"

text \<open>\<open>actionUses\<close>: the text before the last \<open>@\<close>, letter case aside.\<close>

definition actionUses :: "string \<Rightarrow> string \<Rightarrow> bool" where
  "actionUses v action =
     (case LastIndexByte v (CHR ''@'') of None \<Rightarrow> False | Some i \<Rightarrow> 0 < i \<and> EqualFold (take i v) action)"

definition dangerous_checkout :: "GithubStep \<Rightarrow> bool" where
  "dangerous_checkout st \<longleftrightarrow>
     actionUses (step_Uses st) checkoutAction \<and>
     (Contains (field (step_With st) ''ref'') ''github.event.pull_request'' \<or>
      Contains (field (step_With st) ''ref'') ''github.event.workflow_run'')"

definition rejectScorecardDangerousCheckouts :: "Workflow \<Rightarrow> violation option" where
  "rejectScorecardDangerousCheckouts w =
     (if \<not> hasTrigger w ''pull_request_target'' \<and> \<not> hasTrigger w ''workflow_run'' then None
      else first_error (concat (map (\<lambda>(jobID, job).
        map (\<lambda>st. if dangerous_checkout st then Some (DangerousCheckout (wf_Path w) jobID) else None) (job_Steps job))
        (jobs w))))"

text \<open>A job's own permissions replace those of the workflow.\<close>

definition effective_permissions :: "Workflow \<Rightarrow> GithubJob \<Rightarrow> Permissions" where
  "effective_permissions w job = (if job_Has job ''permissions'' then job_Permissions job else wf_Permissions w)"

definition validate_job :: "Workflow \<Rightarrow> string \<times> GithubJob \<Rightarrow> violation option" where
  "validate_job w j =
     (case j of (jobID, job) \<Rightarrow>
        if \<not> samePermissions (effective_permissions w job) (expectedJobPermissions w jobID)
        then Some (JobPermissions (wf_Path w) jobID) else validateActions (wf_Path w) job)"

definition validateWorkflow :: "Workflow \<Rightarrow> violation option" where
  "validateWorkflow w =
     (if \<not> samePermissions (wf_Permissions w) (expectedWorkflowPermissions (wf_Path w))
      then Some (WorkflowPermissions (wf_Path w))
      else case first_error (map (validate_job w) (jobs w)) of
             Some e \<Rightarrow> Some e
           | None \<Rightarrow> rejectScorecardDangerousCheckouts w)"

section \<open>Events\<close>

definition knownReadOnlyRootEvents :: "string list" where
  "knownReadOnlyRootEvents = [''pull_request'', ''pull_request_target'', ''issue_comment'', ''workflow_run'']"

definition matches_main :: "string \<Rightarrow> bool option" where
  "matches_main pattern = Match (ReplaceAll pattern ''**'' ''*'') ''main''"

text \<open>The last matching pattern decides; a malformed one counts as a match of the default branch.\<close>

fun main_included :: "string list \<Rightarrow> bool \<Rightarrow> bool" where
  "main_included [] included = included"
| "main_included (pattern # ps) included =
     (case matches_main (TrimPrefix pattern ''!'') of
        None \<Rightarrow> True
      | Some matched \<Rightarrow> main_included ps (if matched then \<not> HasPrefix pattern ''!'' else included))"

fun main_not_ignored :: "string list \<Rightarrow> bool \<Rightarrow> bool" where
  "main_not_ignored [] ignored = (\<not> ignored)"
| "main_not_ignored (pattern # ps) ignored =
     (case matches_main pattern of
        None \<Rightarrow> True
      | Some matched \<Rightarrow> main_not_ignored ps (matched \<or> ignored))"

definition pushCanTargetDefaultBranch :: "Workflow \<Rightarrow> bool" where
  "pushCanTargetDefaultBranch w =
     (case On w of
        None \<Rightarrow> False
      | Some ev \<Rightarrow>
          if push_Branches (Push ev) \<noteq> [] then main_included (push_Branches (Push ev)) False
          else main_not_ignored (push_BranchesIgnore (Push ev)) False)"

definition eventWritesDefaultBranchCache :: "Workflow \<Rightarrow> string \<Rightarrow> bool" where
  "eventWritesDefaultBranchCache w event =
     (if event \<in> set [''workflow_dispatch'', ''repository_dispatch'', ''delete'', ''registry_package'', ''page_build'',
                      ''schedule''] then True
      else if event = ''push'' then pushCanTargetDefaultBranch w
      else if event = ''workflow_call'' then False
      else event \<notin> set knownReadOnlyRootEvents)"

definition eventUsesProtectedDefaultBranchSource :: "Workflow \<Rightarrow> string \<Rightarrow> bool" where
  "eventUsesProtectedDefaultBranchSource w event =
     (if event = ''pull_request'' then False else if event = ''push'' then pushCanTargetDefaultBranch w else True)"

subsection \<open>Reusable workflows\<close>

text \<open>An event with the workflow it starts.\<close>

type_synonym effectiveRootEvent = "string \<times> string"

type_synonym event_map = "string \<Rightarrow> effectiveRootEvent set"

definition directRootEvents :: "Workflow \<Rightarrow> effectiveRootEvent set" where
  "directRootEvents w =
     set (map (\<lambda>event. (event, wf_Path w)) (filter (\<lambda>event. event \<noteq> ''workflow_call'') (ConfiguredNames (On w))))"

definition localReusableWorkflowPath :: "string \<Rightarrow> string option" where
  "localReusableWorkflowPath uses =
     (if \<not> HasPrefix uses ''./.github/workflows/'' \<or> Contains uses ''@'' then None else Some (TrimPrefix uses ''./''))"

text \<open>The calls between the workflows that exist, caller first, as a range over workflows and jobs meets them.\<close>

definition job_calls :: "workflows \<Rightarrow> string \<Rightarrow> GithubJob \<Rightarrow> (string \<times> string) list" where
  "job_calls ws caller job =
     (case localReusableWorkflowPath (job_Uses job) of
        None \<Rightarrow> []
      | Some called \<Rightarrow> if map_of ws called = None then [] else [(caller, called)])"

definition reusable_calls :: "workflows \<Rightarrow> (string \<times> string) list" where
  "reusable_calls ws = concat (map (\<lambda>(p, w). concat (map (\<lambda>(_, job). job_calls ws p job) (jobs w))) ws)"

definition propagateRootEvents :: "string \<Rightarrow> string \<Rightarrow> event_map \<Rightarrow> bool \<times> event_map" where
  "propagateRootEvents source destination ev =
     (\<not> ev source \<subseteq> ev destination, ev(destination := ev destination \<union> ev source))"

fun propagate_calls :: "(string \<times> string) list \<Rightarrow> event_map \<Rightarrow> bool \<times> event_map" where
  "propagate_calls [] ev = (False, ev)"
| "propagate_calls ((caller, called) # cs) ev =
     (let (now, ev1) = propagateRootEvents caller called ev; (later, ev2) = propagate_calls cs ev1
      in (now \<or> later, ev2))"

definition propagateReusableEvents :: "workflows \<Rightarrow> event_map \<Rightarrow> bool \<times> event_map" where
  "propagateReusableEvents ws ev = propagate_calls (reusable_calls ws) ev"

text \<open>The loop; \<open>None\<close> would mean that it does not end.\<close>

partial_function (option) propagate_loop :: "workflows \<Rightarrow> event_map \<Rightarrow> event_map option" where
  "propagate_loop ws ev =
     (if fst (propagateReusableEvents ws ev) then propagate_loop ws (snd (propagateReusableEvents ws ev))
      else Some (snd (propagateReusableEvents ws ev)))"

definition direct_events :: "workflows \<Rightarrow> event_map" where
  "direct_events ws p = (case map_of ws p of None \<Rightarrow> {} | Some w \<Rightarrow> directRootEvents w)"

definition resolveEffectiveRootEvents :: "workflows \<Rightarrow> event_map option" where
  "resolveEffectiveRootEvents ws = propagate_loop ws (direct_events ws)"

section \<open>The authority of a job\<close>

record jobAuthority =
  protectedDefaultBranchSource :: bool
  repositoryOrSecretPrivilege :: bool
  persistentRunner :: bool
  defaultBranchCacheWrite :: bool

definition runnerMayPersist :: "GithubJob \<Rightarrow> bool" where
  "runnerMayPersist job =
     (case job_RunsOn job of
        [runner] \<Rightarrow> \<not> HasPrefix runner ''ubuntu-'' \<and> \<not> HasPrefix runner ''windows-'' \<and> \<not> HasPrefix runner ''macos-''
      | rs \<Rightarrow> rs \<noteq> [])"

definition has_marker :: "string \<Rightarrow> bool" where
  "has_marker s = Contains s secretExpressionMarker"

definition hasSecretInMap :: "scalar assoc \<Rightarrow> bool" where
  "hasSecretInMap m = list_ex (\<lambda>(_, v). has_marker (scalarValue v)) m"

definition hasSecretInStringMap :: "string assoc \<Rightarrow> bool" where
  "hasSecretInStringMap m = list_ex (\<lambda>(_, v). has_marker v) m"

definition step_has_secret :: "GithubStep \<Rightarrow> bool" where
  "step_has_secret st \<longleftrightarrow>
     has_marker (step_Run st) \<or> has_marker (step_Uses st) \<or> hasSecretInStringMap (step_With st) \<or> hasSecretInMap (step_Env st)"

definition hasSecretReference :: "GithubJob \<Rightarrow> bool" where
  "hasSecretReference job = list_ex step_has_secret (job_Steps job)"

definition jobSecretsConfigured :: "GithubJob \<Rightarrow> bool" where
  "jobSecretsConfigured job =
     (if \<not> job_Has job ''secrets'' then False
      else case job_Secrets job of NilValue \<Rightarrow> False | Text s \<Rightarrow> TrimSpace s \<noteq> [] | Printed _ \<Rightarrow> True)"

text \<open>
  The verb \<open>%v\<close>: the fields of a struct between braces, a map with its keys in order, and a pointer inside a
  struct as its address, whatever it points to.
\<close>

fun hex_digits :: "nat \<Rightarrow> string" where
  "hex_digits n =
     (let d = n mod 16; c = char_of (if d < 10 then 48 + d else 87 + d) in
      if n < 16 then [c] else hex_digits (n div 16) @ [c])"

declare hex_digits.simps [simp del]

definition v_map :: "string assoc \<Rightarrow> string" where
  "v_map m = ''map['' @ Join (map (\<lambda>(k, v). k @ '':'' @ v) (sort_key fst m)) '' '' @ '']''"

definition v_list :: "string list \<Rightarrow> string" where
  "v_list xs = ''['' @ Join xs '' '' @ '']''"

definition v_pointer :: "(nat \<times> 'a) option \<Rightarrow> string" where
  "v_pointer p = (case p of None \<Rightarrow> ''<nil>'' | Some (a, _) \<Rightarrow> ''0x'' @ hex_digits a)"

definition v_container :: "GithubContainer \<Rightarrow> string" where
  "v_container c =
     ''{'' @ Join [Image c, v_pointer (Credentials c), v_map (con_Env c), v_list (map v_any (con_Ports c)),
       v_list (con_Volumes c), Options c] '' '' @ ''}''"

definition container_has_marker :: "GithubContainer option \<Rightarrow> bool" where
  "container_has_marker c = has_marker (case c of None \<Rightarrow> ''<nil>'' | Some c \<Rightarrow> ''&'' @ v_container c)"

definition services_have_marker :: "GithubContainer assoc \<Rightarrow> bool" where
  "services_have_marker m = has_marker (v_map (map (\<lambda>(k, c). (k, v_container c)) m))"

definition jobHasRepositoryOrSecretPrivilege :: "Workflow \<Rightarrow> GithubJob \<Rightarrow> bool" where
  "jobHasRepositoryOrSecretPrivilege w job \<longleftrightarrow>
     list_ex (\<lambda>(name, v). v = ''write'' \<or> name = ''id-token'' \<and> v \<noteq> ''none'') (effective_permissions w job) \<or>
     job_Environment job \<noteq> [] \<or> hasSecretInMap (wf_Env w) \<or> hasSecretInMap (job_Env job) \<or>
     hasSecretInStringMap (job_With job) \<or> hasSecretReference job \<or> jobSecretsConfigured job \<or>
     container_has_marker (job_Container job) \<or> services_have_marker (job_Services job)"

text \<open>The event's own workflow says what the event can do; an unknown one is taken to be the job's.\<close>

definition source_of :: "workflows \<Rightarrow> Workflow \<Rightarrow> effectiveRootEvent \<Rightarrow> Workflow" where
  "source_of ws w e = (case map_of ws (snd e) of None \<Rightarrow> w | Some s \<Rightarrow> s)"

definition authorityForJob :: "workflows \<Rightarrow> Workflow \<Rightarrow> GithubJob \<Rightarrow> effectiveRootEvent set \<Rightarrow> jobAuthority" where
  "authorityForJob ws w job events =
     \<lparr>protectedDefaultBranchSource = (\<exists>e \<in> events. eventUsesProtectedDefaultBranchSource (source_of ws w e) (fst e)),
      repositoryOrSecretPrivilege = jobHasRepositoryOrSecretPrivilege w job,
      persistentRunner = runnerMayPersist job,
      defaultBranchCacheWrite = (\<exists>e \<in> events. eventWritesDefaultBranchCache (source_of ws w e) (fst e))\<rparr>"

section \<open>Pull-request content\<close>

definition untrusted_markers :: "string list" where
  "untrusted_markers = [''git checkout'', ''git fetch'', ''git clone'', ''git switch'', ''gh pr checkout'']"

definition hasUntrustedShellCheckout :: "GithubStep \<Rightarrow> bool" where
  "hasUntrustedShellCheckout st =
     (let command = ToLower (step_Run st) in
      if \<not> list_ex (Contains command) untrusted_markers then False
      else if Contains command ''${{'' \<or> Contains command ''$'' then True
      else list_ex (\<lambda>(_, v). Contains (scalarValue v) ''${{'') (step_Env st))"

definition trustedWorkflowRun :: "string \<Rightarrow> bool" where
  "trustedWorkflowRun condition \<longleftrightarrow>
     Contains condition (''github.event.workflow_run.event == 'push'' @ [CHR 0x27]) \<and>
     Contains condition ''github.event.workflow_run.head_repository.full_name == github.repository'' \<and>
     Contains condition (''github.event.workflow_run.head_branch == 'main'' @ [CHR 0x27])"

definition isUntrustedCheckout :: "GithubStep \<Rightarrow> GithubJob \<Rightarrow> bool" where
  "isUntrustedCheckout st job =
     (let repository = TrimSpace (field (step_With st) ''repository''); ref = TrimSpace (field (step_With st) ''ref'') in
      if \<not> actionUses (step_Uses st) checkoutAction then False
      else if Contains repository ''${{'' then True
      else if ref = [] \<or> ref = ''${{ github.event.pull_request.base.sha }}'' then False
      else if Contains ref ''github.event.workflow_run.head_sha'' then \<not> trustedWorkflowRun (job_If job)
      else Contains ref ''${{'')"

definition executesWorkspace :: "GithubStep \<Rightarrow> bool" where
  "executesWorkspace st =
     (if step_Run st \<noteq> [] \<or> HasPrefix (step_Uses st) ''./'' then True
      else if step_Uses st = [] \<or> HasPrefix (step_Uses st) checkoutActionPrefix then False
      else \<not> HasPrefix (step_Uses st) ''actions/setup-go@'' \<or> field (step_With st) ''cache'' \<noteq> ''false'')"

fun executes_after :: "GithubJob \<Rightarrow> GithubStep list \<Rightarrow> bool" where
  "executes_after job [] = False"
| "executes_after job (st # rest) =
     (isUntrustedCheckout st job \<and> list_ex executesWorkspace rest \<or> executes_after job rest)"

definition executesAfterUntrustedCheckout :: "GithubJob \<Rightarrow> bool" where
  "executesAfterUntrustedCheckout job = executes_after job (job_Steps job)"

definition jobHasUntrustedShellCheckout :: "GithubJob \<Rightarrow> bool" where
  "jobHasUntrustedShellCheckout job = list_ex hasUntrustedShellCheckout (job_Steps job)"

definition jobHasPrivilegedPRExecution :: "GithubJob \<Rightarrow> bool" where
  "jobHasPrivilegedPRExecution job \<longleftrightarrow> executesAfterUntrustedCheckout job \<or> jobHasUntrustedShellCheckout job"

definition job_flow :: "workflows \<Rightarrow> Workflow \<Rightarrow> effectiveRootEvent set \<Rightarrow> string \<times> GithubJob \<Rightarrow> violation option" where
  "job_flow ws w events j =
     (case j of (jobID, job) \<Rightarrow>
        let authority = authorityForJob ws w job events in
        if localReusableWorkflowPath (job_Uses job) \<noteq> None \<and>
           (repositoryOrSecretPrivilege authority \<or> persistentRunner authority)
        then Some (PrivilegedReusableCall (wf_Path w) jobID)
        else if \<not> jobHasPrivilegedPRExecution job then None
        else if defaultBranchCacheWrite authority then Some (CacheWrite (wf_Path w) jobID)
        else if repositoryOrSecretPrivilege authority then Some (Privilege (wf_Path w) jobID)
        else if persistentRunner authority then Some (PersistentRunner (wf_Path w) jobID)
        else None)"

definition validatePrivilegedFlow :: "workflows \<Rightarrow> Workflow \<Rightarrow> effectiveRootEvent set \<Rightarrow> violation option" where
  "validatePrivilegedFlow ws w events = first_error (map (job_flow ws w events) (jobs w))"

text \<open>The helper for fixtures, which also looks at the source of the workflow.\<close>

definition hasPrivilegedPRExecution :: "(string \<Rightarrow> string + GithubWorkflow) \<Rightarrow> string \<Rightarrow> bool" where
  "hasPrivilegedPRExecution unmarshal content =
     (case parseWorkflow unmarshal ''fixture.yml'' content of
        Inl _ \<Rightarrow> True
      | Inr w \<Rightarrow>
          list_ex (\<lambda>(_, job).
            let a = authorityForJob [(wf_Path w, w)] w job (directRootEvents w) in
            jobHasPrivilegedPRExecution job \<and>
            (protectedDefaultBranchSource a \<or> defaultBranchCacheWrite a \<or> repositoryOrSecretPrivilege a \<or> persistentRunner a))
            (jobs w))"

section \<open>The events that reach a workflow\<close>

text \<open>The specification: an event reaches a workflow along a chain of calls from the workflow it starts.\<close>

definition calls_from :: "workflows \<Rightarrow> string \<Rightarrow> string \<Rightarrow> bool" where
  "calls_from ws p q \<longleftrightarrow> (p, q) \<in> set (reusable_calls ws)"

definition root_events :: "workflows \<Rightarrow> event_map" where
  "root_events ws p = (\<Union>q \<in> {q. (calls_from ws)\<^sup>*\<^sup>* q p}. direct_events ws q)"

lemma propagate_calls_Cons [simp]:
  "fst (propagate_calls (c # cs) ev) \<longleftrightarrow>
     \<not> ev (fst c) \<subseteq> ev (snd c) \<or> fst (propagate_calls cs (ev(snd c := ev (snd c) \<union> ev (fst c))))"
  "snd (propagate_calls (c # cs) ev) = snd (propagate_calls cs (ev(snd c := ev (snd c) \<union> ev (fst c))))"
  by (cases c; auto simp: propagateRootEvents_def split: prod.splits)+

declare propagate_calls.simps(2) [simp del]

lemma propagate_calls_mono: "ev p \<subseteq> snd (propagate_calls cs ev) p"
proof (induction cs arbitrary: ev)
  case (Cons c cs)
  have "ev p \<subseteq> (ev(snd c := ev (snd c) \<union> ev (fst c))) p" by auto
  also have "\<dots> \<subseteq> snd (propagate_calls cs (ev(snd c := ev (snd c) \<union> ev (fst c)))) p" by (rule Cons.IH)
  finally show ?case by simp
qed simp

lemma propagate_no_news: "ev (fst c) \<subseteq> ev (snd c) \<Longrightarrow> ev(snd c := ev (snd c) \<union> ev (fst c)) = ev"
  by (simp add: fun_eq_iff sup_absorb1)

lemma propagate_calls_closed:
  "\<not> fst (propagate_calls cs ev) \<Longrightarrow> snd (propagate_calls cs ev) = ev \<and> (\<forall>c \<in> set cs. ev (fst c) \<subseteq> ev (snd c))"
  by (induction cs arbitrary: ev) (auto simp: propagate_no_news simp del: fun_upd_apply)

text \<open>Every pass stays within a family of sets that is closed under the calls, such as the specification.\<close>

lemma propagate_calls_below:
  assumes "\<And>p. ev p \<subseteq> R p" and "\<forall>c \<in> set cs. R (fst c) \<subseteq> R (snd c)"
  shows "snd (propagate_calls cs ev) p \<subseteq> R p"
  using assms
proof (induction cs arbitrary: ev)
  case (Cons c cs)
  have "(ev(snd c := ev (snd c) \<union> ev (fst c))) q \<subseteq> R q" for q
    using Cons.prems(1) [of q] Cons.prems(1) [of "fst c"] Cons.prems(2) by auto
  from Cons.IH [OF this] Cons.prems(2) show ?case by (simp del: fun_upd_apply)
qed simp

lemma propagate_calls_changed:
  "fst (propagate_calls cs ev) \<Longrightarrow> \<exists>c \<in> set cs. \<exists>e. e \<in> snd (propagate_calls cs ev) (snd c) \<and> e \<notin> ev (snd c)"
proof (induction cs arbitrary: ev)
  case (Cons c cs)
  define ev1 where "ev1 = ev(snd c := ev (snd c) \<union> ev (fst c))"
  show ?case
  proof (cases "ev (fst c) \<subseteq> ev (snd c)")
    case False
    then obtain e where e: "e \<in> ev1 (snd c)" "e \<notin> ev (snd c)" by (auto simp: ev1_def)
    from e(1) propagate_calls_mono [of ev1 "snd c" cs] have "e \<in> snd (propagate_calls cs ev1) (snd c)" by (rule rev_subsetD)
    with e(2) have "\<exists>e. e \<in> snd (propagate_calls (c # cs) ev) (snd c) \<and> e \<notin> ev (snd c)"
      by (intro exI [of _ e]) (simp flip: ev1_def del: fun_upd_apply)
    then show ?thesis by (meson list.set_intros(1))
  next
    case True
    from propagate_no_news [OF this] True Cons show ?thesis by (simp del: fun_upd_apply)
  qed
qed simp

lemma calls_exist: "(p, q) \<in> set (reusable_calls ws) \<Longrightarrow> map_of ws q \<noteq> None"
  by (auto simp: reusable_calls_def job_calls_def split: option.splits if_splits)

lemma root_events_direct: "direct_events ws p \<subseteq> root_events ws p"
  by (auto simp: root_events_def)

lemma root_events_closed: "calls_from ws p q \<Longrightarrow> root_events ws p \<subseteq> root_events ws q"
  unfolding root_events_def by (rule UN_mono) (auto intro: rtranclp.rtrancl_into_rtrancl)

lemma root_events_least:
  assumes "\<And>p. direct_events ws p \<subseteq> ev p" and "\<And>p q. calls_from ws p q \<Longrightarrow> ev p \<subseteq> ev q"
  shows "root_events ws p \<subseteq> ev p"
proof -
  have "(calls_from ws)\<^sup>*\<^sup>* q p \<Longrightarrow> ev q \<subseteq> ev p" for q
    by (induction rule: rtranclp_induct) (use assms(2) in blast)+
  with assms(1) show ?thesis by (auto simp: root_events_def)
qed

text \<open>How many events the called workflows can still get.\<close>

definition events_left :: "workflows \<Rightarrow> event_map \<Rightarrow> nat" where
  "events_left ws ev = (\<Sum>q \<in> snd ` set (reusable_calls ws). card (root_events ws q - ev q))"

lemma finite_direct_events: "finite (direct_events ws p)"
  by (simp add: direct_events_def directRootEvents_def split: option.split)

lemma direct_events_known: "direct_events ws q \<subseteq> (\<Union>p \<in> fst ` set ws. direct_events ws p)"
proof (cases "map_of ws q")
  case (Some w)
  then have "q \<in> fst ` set ws" by (metis map_of_SomeD fst_conv imageI)
  then show ?thesis by blast
qed (simp add: direct_events_def)

lemma finite_root_events: "finite (root_events ws p)"
proof -
  have "root_events ws p \<subseteq> (\<Union>q \<in> fst ` set ws. direct_events ws q)"
    using direct_events_known unfolding root_events_def by (intro UN_least) blast
  then show ?thesis by (rule finite_subset) (simp add: finite_direct_events)
qed

lemma events_left_decreases:
  assumes "fst (propagateReusableEvents ws ev)" and "\<And>p. ev p \<subseteq> root_events ws p"
  shows "events_left ws (snd (propagateReusableEvents ws ev)) < events_left ws ev"
proof -
  let ?ev = "snd (propagateReusableEvents ws ev)"
  obtain q e where q: "q \<in> snd ` set (reusable_calls ws)" "e \<in> ?ev q" "e \<notin> ev q"
    using propagate_calls_changed assms(1) unfolding propagateReusableEvents_def by blast
  have below: "?ev p \<subseteq> root_events ws p" for p
    unfolding propagateReusableEvents_def
    by (rule propagate_calls_below [OF assms(2)]) (simp add: root_events_closed calls_from_def)
  have le: "card (root_events ws p - ?ev p) \<le> card (root_events ws p - ev p)" for p
    by (rule card_mono)
      (use finite_root_events propagate_calls_mono [of ev p "reusable_calls ws"] in \<open>auto simp: propagateReusableEvents_def\<close>)
  have "card (root_events ws q - ?ev q) < card (root_events ws q - ev q)"
    by (rule psubset_card_mono)
      (use finite_root_events [of ws q] propagate_calls_mono [of ev q "reusable_calls ws"] q below [of q] in
        \<open>auto simp: propagateReusableEvents_def\<close>)
  with q(1) le show ?thesis
    unfolding events_left_def by (intro sum_strict_mono_ex1) auto
qed

lemma propagate_loop_spec:
  "(\<And>p. direct_events ws p \<subseteq> ev p) \<Longrightarrow> (\<And>p. ev p \<subseteq> root_events ws p) \<Longrightarrow> propagate_loop ws ev = Some (root_events ws)"
proof (induction "events_left ws ev" arbitrary: ev rule: less_induct)
  case less
  let ?ev = "snd (propagateReusableEvents ws ev)"
  show ?case
  proof (cases "fst (propagateReusableEvents ws ev)")
    case True
    have "direct_events ws p \<subseteq> ?ev p" for p
      using less.prems(1) [of p] propagate_calls_mono [of ev p "reusable_calls ws"]
      by (auto simp: propagateReusableEvents_def)
    moreover have "?ev p \<subseteq> root_events ws p" for p
      unfolding propagateReusableEvents_def
      by (rule propagate_calls_below [OF less.prems(2)]) (simp add: root_events_closed calls_from_def)
    ultimately have "propagate_loop ws ?ev = Some (root_events ws)"
      using less.hyps events_left_decreases [OF True less.prems(2)] by blast
    with True show ?thesis by (simp add: propagate_loop.simps [of ws ev])
  next
    case False
    with propagate_calls_closed [of "reusable_calls ws" ev]
    have e: "?ev = ev" "\<forall>c \<in> set (reusable_calls ws). ev (fst c) \<subseteq> ev (snd c)"
      by (simp_all add: propagateReusableEvents_def)
    then have "root_events ws p = ev p" for p
      using root_events_least [of ws ev p] less.prems by (force simp: calls_from_def)
    with False e(1) show ?thesis by (simp add: propagate_loop.simps [of ws ev] fun_eq_iff)
  qed
qed

lemma resolve_root_events: "resolveEffectiveRootEvents ws = Some (root_events ws)"
  unfolding resolveEffectiveRootEvents_def
  by (rule propagate_loop_spec) (simp_all add: root_events_direct)

section \<open>Properties\<close>

text \<open>C25. passing the events along the calls of reusable workflows, pass after pass, ends, whatever cycles the calls
  have, and gives every workflow exactly the events that reach it along a chain of calls.\<close>

theorem resolveEffectiveRootEvents_refines: "resolveEffectiveRootEvents ws = Some (root_events ws)"
  by (rule resolve_root_events)

lemma permissions_same_map:
  assumes "distinct (map fst actual)" "distinct (map fst expected)" "[] \<notin> snd ` set expected"
  shows "samePermissions actual expected \<longleftrightarrow> map_of actual = map_of expected"
proof -
  have dom: "card (dom (map_of m)) = length m" if "distinct (map fst m)" for m :: Permissions
    using that by (simp add: dom_map_of_conv_image_fst distinct_card flip: set_map)
  have all: "list_all (\<lambda>(name, v). field actual name = v) expected \<longleftrightarrow> map_of expected \<subseteq>\<^sub>m map_of actual"
  proof
    assume a: "list_all (\<lambda>(name, v). field actual name = v) expected"
    show "map_of expected \<subseteq>\<^sub>m map_of actual"
    proof (clarsimp simp: map_le_def)
      fix n v
      assume "map_of expected n = Some v"
      then have "(n, v) \<in> set expected" by (rule map_of_SomeD)
      with a assms(3) have "field actual n = v" "v \<noteq> []" by (force simp: list_all_iff)+
      then show "Some v = map_of actual n" using get_or_non_zero by metis
    qed
  next
    assume "map_of expected \<subseteq>\<^sub>m map_of actual"
    then show "list_all (\<lambda>(name, v). field actual name = v) expected"
      using assms(2) by (force simp: list_all_iff map_le_def get_or_def split: option.split)
  qed
  show ?thesis
  proof
    assume s: "samePermissions actual expected"
    then have le: "map_of expected \<subseteq>\<^sub>m map_of actual" by (simp add: samePermissions_def all)
    moreover have "dom (map_of expected) = dom (map_of actual)"
      using s dom [OF assms(1)] dom [OF assms(2)] map_le_implies_dom_le [OF le]
      by (simp add: samePermissions_def card_subset_eq finite_dom_map_of)
    ultimately show "map_of actual = map_of expected"
      by (metis map_le_antisym map_le_def)
  next
    assume "map_of actual = map_of expected"
    with dom [OF assms(1)] dom [OF assms(2)] show "samePermissions actual expected"
      unfolding samePermissions_def all by simp
  qed
qed

text \<open>Two sets of permissions are the same exactly when they are the same map.\<close>

theorem samePermissions_iff:
  assumes "distinct (map fst actual)" "distinct (map fst expected)" "[] \<notin> snd ` set expected"
  shows "samePermissions actual expected \<longleftrightarrow> map_of actual = map_of expected"
  by (rule permissions_same_map [OF assms])

theorem samePermissions_iff_witness:
  "samePermissions [(''packages'', ''write''), (''contents'', ''read'')] [(''contents'', ''read''), (''packages'', ''write'')] \<longleftrightarrow>
   map_of [(''packages'', ''write''), (''contents'', ''read'')] = map_of [(''contents'', ''read''), (''packages'', ''write'')]"
  by (rule samePermissions_iff) simp_all

text \<open>A workflow that passes: its permissions, the permissions of its jobs, and their actions.\<close>

lemma validateWorkflow_None:
  "validateWorkflow w = None \<longleftrightarrow>
     samePermissions (wf_Permissions w) (expectedWorkflowPermissions (wf_Path w)) \<and>
     (\<forall>(jobID, job) \<in> set (jobs w).
        samePermissions (effective_permissions w job) (expectedJobPermissions w jobID) \<and>
        (\<forall>st \<in> set (job_Steps job). step_pinned (wf_Path w) st = None)) \<and>
     rejectScorecardDangerousCheckouts w = None"
proof -
  have j: "validate_job w (jobID, job) = None \<longleftrightarrow>
      samePermissions (effective_permissions w job) (expectedJobPermissions w jobID) \<and>
      (\<forall>st \<in> set (job_Steps job). step_pinned (wf_Path w) st = None)" for jobID job
    by (simp add: validate_job_def validateActions_def)
  have fe: "first_error (map (validate_job w) (jobs w)) = None \<longleftrightarrow>
      (\<forall>(jobID, job) \<in> set (jobs w).
        samePermissions (effective_permissions w job) (expectedJobPermissions w jobID) \<and>
        (\<forall>st \<in> set (job_Steps job). step_pinned (wf_Path w) st = None))"
    using j by (auto simp: split_beta)
  show ?thesis
    unfolding validateWorkflow_def fe [symmetric] by (simp split: option.split del: first_error_None)
qed

lemma pinnedAction_iff:
  "pinnedAction s \<longleftrightarrow> (\<exists>a h. s = a @ ''@'' @ h \<and> length h = 40 \<and> list_all hex_digit h)"
proof
  assume p: "pinnedAction s"
  then have "HasPrefix (drop (length s - 41) s) ''@''" and l: "41 \<le> length s" by (simp_all add: pinnedAction_def)
  then obtain h where h: "drop (length s - 41) s = CHR ''@'' # h"
    by (auto simp: HasPrefix_iff prefix_def)
  have "drop (length s - 40) s = drop 1 (drop (length s - 41) s)"
  proof -
    have "length s - 40 = 1 + (length s - 41)" using l by arith
    then show ?thesis by (simp only: drop_drop)
  qed
  with h have h': "drop (length s - 40) s = h" by simp
  have "s = take (length s - 41) s @ ''@'' @ h"
    by (metis h append_take_drop_id append_Cons append_Nil)
  moreover have "length h = 40" using arg_cong [OF h', of length] l by simp
  ultimately show "\<exists>a h. s = a @ ''@'' @ h \<and> length h = 40 \<and> list_all hex_digit h"
    using p h' by (auto simp: pinnedAction_def)
next
  assume "\<exists>a h. s = a @ ''@'' @ h \<and> length h = 40 \<and> list_all hex_digit h"
  then show "pinnedAction s" by (auto simp: pinnedAction_def HasPrefix_iff)
qed

text \<open>C27. in a workflow that passes, every step that names an action names a local one, an image with a digest, or a
  commit of forty hexadecimal digits.\<close>

theorem passed_actions_pinned:
  assumes "validateWorkflow w = None" and "(jobID, job) \<in> set (jobs w)" and "st \<in> set (job_Steps job)"
  shows "step_Uses st = [] \<or> HasPrefix (step_Uses st) ''./'' \<or>
    (HasPrefix (step_Uses st) ''docker://'' \<and> Contains (step_Uses st) ''@sha256:'') \<or>
    (\<exists>a h. step_Uses st = a @ ''@'' @ h \<and> length h = 40 \<and> list_all hex_digit h)"
proof -
  from assms have "step_pinned (wf_Path w) st = None" by (auto simp: validateWorkflow_None)
  then show ?thesis by (auto simp: step_pinned_def pinnedAction_iff split: if_splits)
qed

text \<open>A workflow that has the permissions it needs, one job on a hosted runner, and its steps.\<close>

definition one_job :: "GithubStep list \<Rightarrow> GithubJob" where
  "one_job steps = (zero_job [''runs-on'', ''steps''])\<lparr>job_RunsOn := [''ubuntu-24.04''], job_Steps := steps\<rparr>"

definition one_job_workflow :: "string list \<Rightarrow> GithubJob \<Rightarrow> Workflow" where
  "one_job_workflow events job =
     of_definition ''.github/workflows/x.yml''
       (zero_workflow\<lparr>On := Some (zero_events events), Jobs := \<lparr>Keys = [''j''], Values = Some [(''j'', job)]\<rparr>,
          wf_Permissions := [(''contents'', ''read'')]\<rparr>)"

definition a_pin :: string where
  "a_pin = replicate 40 (CHR ''0'')"

definition checkout_of :: "string assoc \<Rightarrow> GithubStep" where
  "checkout_of args = zero_step\<lparr>step_Uses := ''actions/checkout@'' @ a_pin, step_With := args\<rparr>"

definition run_step :: "string \<Rightarrow> GithubStep" where
  "run_step command = zero_step\<lparr>step_Run := command\<rparr>"

lemmas one_job_simps = one_job_workflow_def one_job_def of_definition_def zero_workflow_def zero_events_def
  zero_job_def checkout_of_def run_step_def zero_step_def om_values_def effective_permissions_def job_Has_def

theorem passed_actions_pinned_witness:
  "let w = one_job_workflow [''push''] (one_job [checkout_of []]); st = checkout_of [] in
    step_Uses st = [] \<or> HasPrefix (step_Uses st) ''./'' \<or>
    (HasPrefix (step_Uses st) ''docker://'' \<and> Contains (step_Uses st) ''@sha256:'') \<or>
    (\<exists>a h. step_Uses st = a @ ''@'' @ h \<and> length h = 40 \<and> list_all hex_digit h)"
  unfolding Let_def
proof (rule passed_actions_pinned [of "one_job_workflow [''push''] (one_job [checkout_of []])" "''j''" "one_job [checkout_of []]"])
  have "validateWorkflow (one_job_workflow [''push''] (one_job [checkout_of []])) = None" by code_simp
  then show "validateWorkflow (one_job_workflow [''push''] (one_job [checkout_of []])) = None" .
qed (simp_all add: one_job_simps)

subsection \<open>The flow of authority\<close>

text \<open>A job that passes.\<close>

lemma job_flow_None:
  "job_flow ws w events (jobID, job) = None \<longleftrightarrow>
     (localReusableWorkflowPath (job_Uses job) \<noteq> None \<longrightarrow>
        \<not> jobHasRepositoryOrSecretPrivilege w job \<and> \<not> runnerMayPersist job) \<and>
     (jobHasPrivilegedPRExecution job \<longrightarrow>
        (\<forall>e \<in> events. \<not> eventWritesDefaultBranchCache (source_of ws w e) (fst e)) \<and>
        \<not> jobHasRepositoryOrSecretPrivilege w job \<and> \<not> runnerMayPersist job)"
  by (auto simp: job_flow_def authorityForJob_def Let_def)


definition pr_build :: GithubJob where
  "pr_build = one_job [checkout_of [(''ref'', ''${{ github.event.pull_request.head.sha }}'')], run_step ''make'']"

definition pr_workflows :: workflows where
  "pr_workflows = [(''.github/workflows/x.yml'', one_job_workflow [''pull_request''] pr_build)]"


subsection \<open>What is not seen\<close>

text \<open>The credentials of a job's container do not count, since the pointer to them is printed as an address: a build
  of pull-request content whose container is given a password from the secrets passes every check.\<close>

definition secret_password_workflow :: Workflow where
  "secret_password_workflow = one_job_workflow [''pull_request''] (pr_build\<lparr>job_Container := Some
     (zero_container\<lparr>Image := ''golang'',
       Credentials := Some (64, \<lparr>Username = ''ci'', Password = ''${{ secrets.REGISTRY }}''\<rparr>)\<rparr>)\<rparr>)"

theorem container_credentials_unseen:
  "jobHasRepositoryOrSecretPrivilege w (job\<lparr>job_Container := Some (c\<lparr>Credentials := Some (a, cr)\<rparr>)\<rparr>) =
     jobHasRepositoryOrSecretPrivilege w (job\<lparr>job_Container := Some (c\<lparr>Credentials := Some (a, cr')\<rparr>)\<rparr>) \<and>
   validateWorkflow secret_password_workflow = None \<and>
   validatePrivilegedFlow [(wf_Path secret_password_workflow, secret_password_workflow)] secret_password_workflow
     (directRootEvents secret_password_workflow) = None \<and>
   list_ex (\<lambda>(_, job). jobHasPrivilegedPRExecution job) (jobs secret_password_workflow)"
proof (intro conjI)
  show "jobHasRepositoryOrSecretPrivilege w (job\<lparr>job_Container := Some (c\<lparr>Credentials := Some (a, cr)\<rparr>)\<rparr>) =
     jobHasRepositoryOrSecretPrivilege w (job\<lparr>job_Container := Some (c\<lparr>Credentials := Some (a, cr')\<rparr>)\<rparr>)"
    by (simp add: jobHasRepositoryOrSecretPrivilege_def container_has_marker_def v_container_def v_pointer_def
        effective_permissions_def hasSecretReference_def jobSecretsConfigured_def job_Has_def)
  show "validateWorkflow secret_password_workflow = None" by code_simp
  show "validatePrivilegedFlow [(wf_Path secret_password_workflow, secret_password_workflow)] secret_password_workflow
     (directRootEvents secret_password_workflow) = None" by code_simp
  show "list_ex (\<lambda>(_, job). jobHasPrivilegedPRExecution job) (jobs secret_password_workflow)" by code_simp
qed

text \<open>A secret that is read with an index, \<open>secrets['NAME']\<close>, is not one: a build of pull-request content that
  gets it in its environment passes every check of the workflow and of the flow.\<close>

definition indexed_secret_workflow :: Workflow where
  "indexed_secret_workflow = one_job_workflow [''pull_request''] (one_job
     [checkout_of [(''ref'', ''${{ github.event.pull_request.head.sha }}'')],
      (run_step ''make'')\<lparr>step_Env := [(''TOKEN'', Text ''${{ secrets['NAME'] }}'')]\<rparr>])"

theorem indexed_secret_unseen:
  "validateWorkflow indexed_secret_workflow = None \<and>
   validatePrivilegedFlow [(wf_Path indexed_secret_workflow, indexed_secret_workflow)] indexed_secret_workflow
     (directRootEvents indexed_secret_workflow) = None \<and>
   list_ex (\<lambda>(_, job). jobHasPrivilegedPRExecution job) (jobs indexed_secret_workflow)"
proof (intro conjI)
  show "validateWorkflow indexed_secret_workflow = None" by code_simp
  show "validatePrivilegedFlow [(wf_Path indexed_secret_workflow, indexed_secret_workflow)] indexed_secret_workflow
     (directRootEvents indexed_secret_workflow) = None" by code_simp
  show "list_ex (\<lambda>(_, job). jobHasPrivilegedPRExecution job) (jobs indexed_secret_workflow)" by code_simp
qed

text \<open>a job that calls a workflow of another repository is held to nothing: neither the commit nor the secrets it
  hands over matter, since only local calls and steps are looked at.\<close>

theorem external_call_unchecked:
  assumes "job_Steps job = []" and "localReusableWorkflowPath (job_Uses job) = None"
  shows "validateActions p job = None \<and> job_flow ws w events (jobID, job) = None"
  using assms
  by (simp add: validateActions_def job_flow_None jobHasPrivilegedPRExecution_def
      executesAfterUntrustedCheckout_def jobHasUntrustedShellCheckout_def)

theorem external_call_unchecked_witness:
  fixes w :: Workflow
  shows "let job = (zero_job [''uses'', ''secrets''])\<lparr>job_Uses := ''other/repo/.github/workflows/x.yml@main'',
      job_Secrets := Text ''inherit''\<rparr> in
    validateActions ''x.yml'' job = None \<and> job_flow [] w {} (''j'', job) = None"
  unfolding Let_def
proof (rule external_call_unchecked)
  show "localReusableWorkflowPath (job_Uses ((zero_job [''uses'', ''secrets''])
    \<lparr>job_Uses := ''other/repo/.github/workflows/x.yml@main'', job_Secrets := Text ''inherit''\<rparr>)) = None"
    by code_simp
qed (simp add: zero_job_def)

text \<open>a condition is trusted as soon as it mentions the three comparisons, whatever stands around them: with an
  alternative that always holds, the checkout of any head of a workflow run is trusted.\<close>

theorem mentioned_condition_trusted:
  assumes "trustedWorkflowRun condition"
    and "TrimSpace (field (step_With st) ''ref'') = ''${{ github.event.workflow_run.head_sha }}''"
    and "field (step_With st) ''repository'' = []"
  shows "\<not> isUntrustedCheckout st (job\<lparr>job_If := before @ condition @ after\<rparr>)"
proof -
  have "trustedWorkflowRun (before @ condition @ after)"
    using assms(1) by (auto simp: trustedWorkflowRun_def intro: Contains_append)
  moreover have "Contains ''${{ github.event.workflow_run.head_sha }}'' ''github.event.workflow_run.head_sha''" by code_simp
  moreover have "TrimSpace [] = []" "\<not> Contains [] ''${{''" by code_simp+
  ultimately show ?thesis
    using assms(2,3) by (simp add: isUntrustedCheckout_def Let_def)
qed

definition trusted_condition :: string where
  "trusted_condition = Join [''github.event.workflow_run.event == 'push'' @ [CHR 0x27],
     ''github.event.workflow_run.head_repository.full_name == github.repository'',
     ''github.event.workflow_run.head_branch == 'main'' @ [CHR 0x27]] '' && ''"

theorem mentioned_condition_trusted_witness:
  "\<not> isUntrustedCheckout (checkout_of [(''ref'', ''${{ github.event.workflow_run.head_sha }}'')])
     ((one_job [])\<lparr>job_If := [] @ trusted_condition @ '' || always()''\<rparr>)"
proof (rule mentioned_condition_trusted)
  show "trustedWorkflowRun trusted_condition" by code_simp
  show "TrimSpace (field (step_With (checkout_of [(''ref'', ''${{ github.event.workflow_run.head_sha }}'')])) ''ref'') =
    ''${{ github.event.workflow_run.head_sha }}''" by code_simp
qed (simp add: checkout_of_def zero_step_def get_or_def)

text \<open>Git with an option before its command is not recognised.\<close>

theorem shell_checkout_unseen:
  "\<not> hasUntrustedShellCheckout (run_step ''git -C src checkout ${{ github.head_ref }} && make'') \<and>
   \<not> hasUntrustedShellCheckout (run_step ''git pull origin ${{ github.head_ref }} && make'') \<and>
   hasUntrustedShellCheckout (run_step ''git checkout ${{ github.head_ref }} && make'')"
  by (intro conjI; code_simp)

text \<open>A branch filter is a filter of GitHub, in which \<open>+\<close> repeats the character before it; it is matched as a
  file name, in which \<open>+\<close> is a character like any other, so that a push to the default branch goes unseen.\<close>

theorem repeated_character_unseen:
  "pushCanTargetDefaultBranch (one_job_workflow [''push''] (one_job []))
     \<and> \<not> pushCanTargetDefaultBranch ((one_job_workflow [''push''] (one_job []))
          \<lparr>On := Some ((zero_events [''push''])\<lparr>Push := zero_push\<lparr>push_Branches := [''mai+n'']\<rparr>\<rparr>)\<rparr>)"
  by (intro conjI; code_simp)

end
