(* ===== verification/WorkflowTopology.thy ===== *)
theory WorkflowTopology
  imports WorkflowPolicy
begin

text \<open>
  \<open>scripts/check-workflow-policy/main.go\<close>, the part that demands a certain shape of the repository's own
  workflows, and \<open>Validate\<close>, which puts everything together. The digest of a script, in hexadecimal, is a
  parameter.
\<close>

section \<open>Looking at steps\<close>

definition sonarTokenName :: string where "sonarTokenName = ''SONAR_TOKEN''"
definition sonarTokenExpression :: string where "sonarTokenExpression = ''${{ secrets.SONAR_TOKEN }}''"
definition persistCredentialsField :: string where "persistCredentialsField = ''persist-credentials''"
definition githubScriptActionPrefix :: string where "githubScriptActionPrefix = ''actions/github-script@''"
definition downloadArtifactAction :: string where "downloadArtifactAction = ''actions/download-artifact''"
definition downloadArtifactActionPrefix :: string where "downloadArtifactActionPrefix = ''actions/download-artifact@''"
definition uploadArtifactActionPrefix :: string where "uploadArtifactActionPrefix = ''actions/upload-artifact@''"
definition debugLayoutStepName :: string where "debugLayoutStepName = ''Validate bounded binary layout without execution''"
definition debugProvenanceStepName :: string where "debugProvenanceStepName = ''Create trusted clean-runner provenance''"

definition debugAuthorizeScriptSHA256 :: string where
  "debugAuthorizeScriptSHA256 = ''e7305c7b816eae30ff48df8753a890a056fd589bc5b7bf7830598063f67cfd32''"
definition debugBuilderValidateSHA256 :: string where
  "debugBuilderValidateSHA256 = ''fd7cbba9697ffaf09134f2dbf91a1e63555c25d5ccdde0e158750c883614952f''"
definition debugFinalizeValidateSHA256 :: string where
  "debugFinalizeValidateSHA256 = ''7d7adf685f6e2671749ce89b8db1cab64ddc33b431aed0bf33c7702e8dbddc1d''"
definition debugArtifactLayoutSHA256 :: string where
  "debugArtifactLayoutSHA256 = ''aa03ed77bdac4da73f3db9b6242108cdc3272ae8e07603a27f0f3ad1d98169c2''"
definition debugProvenanceCreateSHA256 :: string where
  "debugProvenanceCreateSHA256 = ''9814dc1d493ea793ee2cea450d630498d81b2dedfbfaa6ee2062d718b2034142''"
definition debugPublishValidateSHA256 :: string where
  "debugPublishValidateSHA256 = ''1627ebea3c9c742051dfa75dee11fc125ed9c12617eb6622c73c73aeec22002c''"
definition debugProvenanceValidateSHA256 :: string where
  "debugProvenanceValidateSHA256 = ''e3bd42f55585329e0b0003d67dc4e375198b913004d9a0d76f8b8ab15d146e49''"
definition debugProvenanceRecheckSHA256 :: string where
  "debugProvenanceRecheckSHA256 = ''948040e50d7d7b07589b449c9649d13bfdf5333a8954703503f2f94ba5d044dc''"

text \<open>The first step that uses an action, and the place behind it.\<close>

definition checkoutStep :: "GithubStep list \<Rightarrow> (nat \<times> nat) option" where
  "checkoutStep steps =
     map_option (\<lambda>i. (i, i + 1)) (find_index (\<lambda>st. actionUses (step_Uses st) checkoutAction) steps)"

definition hasCheckout :: "GithubJob \<Rightarrow> bool" where
  "hasCheckout job \<longleftrightarrow> checkoutStep (job_Steps job) \<noteq> None"

definition checkoutCount :: "GithubJob \<Rightarrow> nat" where
  "checkoutCount job = length (filter (\<lambda>st. actionUses (step_Uses st) checkoutAction) (job_Steps job))"

definition actionIndex :: "GithubJob \<Rightarrow> string \<Rightarrow> nat option" where
  "actionIndex job action = find_index (\<lambda>st. actionUses (step_Uses st) action) (job_Steps job)"

definition checkoutIndexForRef :: "GithubJob \<Rightarrow> string \<Rightarrow> nat option" where
  "checkoutIndexForRef job ref =
     find_index (\<lambda>st. HasPrefix (step_Uses st) checkoutActionPrefix \<and> field (step_With st) ''ref'' = ref) (job_Steps job)"

definition githubScriptIndexContaining :: "GithubJob \<Rightarrow> string \<Rightarrow> nat option" where
  "githubScriptIndexContaining job expected =
     find_index (\<lambda>st. HasPrefix (step_Uses st) githubScriptActionPrefix \<and> Contains (field (step_With st) ''script'') expected)
       (job_Steps job)"

text \<open>Both are there, and the first not behind the second.\<close>

definition in_order :: "nat option \<Rightarrow> nat option \<Rightarrow> bool" where
  "in_order i j = (case (i, j) of (Some a, Some b) \<Rightarrow> a \<le> b | _ \<Rightarrow> False)"

definition checkoutDisablesCredentials :: "GithubJob \<Rightarrow> nat option \<Rightarrow> bool" where
  "checkoutDisablesCredentials job index =
     (case index of None \<Rightarrow> False
      | Some i \<Rightarrow> i < length (job_Steps job) \<and> field (step_With (job_Steps job ! i)) persistCredentialsField = ''false'')"

definition isGithubHosted :: "GithubJob \<Rightarrow> bool" where
  "isGithubHosted job \<longleftrightarrow>
     length (job_RunsOn job) = 1 \<and> HasPrefix (hd (job_RunsOn job)) ''ubuntu-'' \<and> ''self-hosted'' \<notin> set (job_RunsOn job)"

definition containsCache :: "GithubJob \<Rightarrow> bool" where
  "containsCache job = list_ex (\<lambda>st. HasPrefix (step_Uses st) ''actions/cache@'') (job_Steps job)"

definition hasLocalAction :: "GithubJob \<Rightarrow> bool" where
  "hasLocalAction job = list_ex (\<lambda>st. HasPrefix (step_Uses st) ''./'') (job_Steps job)"

definition jobUses :: "GithubJob \<Rightarrow> string \<Rightarrow> bool" where
  "jobUses job p = list_ex (\<lambda>st. HasPrefix (step_Uses st) p) (job_Steps job)"

definition stepWithContains :: "GithubJob \<Rightarrow> string \<Rightarrow> string \<Rightarrow> string \<Rightarrow> bool" where
  "stepWithContains job usesPrefix key expected =
     list_ex (\<lambda>st. HasPrefix (step_Uses st) usesPrefix \<and> Contains (field (step_With st) key) expected) (job_Steps job)"

definition jobRunContains :: "GithubJob \<Rightarrow> string \<Rightarrow> string \<Rightarrow> bool" where
  "jobRunContains job stepName expected =
     list_ex (\<lambda>st. (stepName = [] \<or> step_Name st = stepName) \<and> Contains (step_Run st) expected) (job_Steps job)"

definition hasCheckoutWithoutCredentials :: "GithubJob \<Rightarrow> bool" where
  "hasCheckoutWithoutCredentials job =
     list_ex (\<lambda>st. HasPrefix (step_Uses st) checkoutActionPrefix \<and> field (step_With st) persistCredentialsField = ''false'')
       (job_Steps job)"

text \<open>Of the steps with a name the first decides.\<close>

definition stepDigestMatches :: "(string \<Rightarrow> string) \<Rightarrow> GithubJob \<Rightarrow> string \<Rightarrow> string \<Rightarrow> string \<Rightarrow> bool" where
  "stepDigestMatches sha256 job stepName fld expected =
     (case find (\<lambda>st. step_Name st = stepName) (job_Steps job) of
        None \<Rightarrow> False
      | Some st \<Rightarrow> sha256 (if fld \<noteq> ''run'' then field (step_With st) fld else step_Run st) = expected)"

definition exactDebugFinalizerSteps :: "(string \<Rightarrow> string) \<Rightarrow> GithubJob \<Rightarrow> bool" where
  "exactDebugFinalizerSteps sha256 job \<longleftrightarrow>
     length (job_Steps job) = 5 \<and>
     stepDigestMatches sha256 job ''Revalidate immutable identity before finalization'' ''script'' debugFinalizeValidateSHA256 \<and>
     step_Name (job_Steps job ! 1) = ''Download only the run-specific intermediate artifact'' \<and>
     actionUses (step_Uses (job_Steps job ! 1)) downloadArtifactAction \<and>
     stepDigestMatches sha256 job debugLayoutStepName ''run'' debugArtifactLayoutSHA256 \<and>
     stepDigestMatches sha256 job debugProvenanceStepName ''run'' debugProvenanceCreateSHA256 \<and>
     step_Name (job_Steps job ! 4) = ''Upload immutable final debug build artifact'' \<and>
     actionUses (step_Uses (job_Steps job ! 4)) ''actions/upload-artifact''"

definition downloaded_markers :: "string list" where
  "downloaded_markers = [''source '', ''bash '', ''sh '', ''chmod +x'', ''go run '', ''python '', ''python3 '', ''exec '',
     ''$github_path'', ''$github_env'', ''./release-assets'', ''./validated-artifact'']"

definition executesDownloadedContent :: "GithubJob \<Rightarrow> bool" where
  "executesDownloadedContent job =
     (case actionIndex job downloadArtifactAction of
        None \<Rightarrow> False
      | Some download \<Rightarrow>
          list_ex (\<lambda>st.
            step_Uses st \<noteq> [] \<and> \<not> actionUses (step_Uses st) ''softprops/action-gh-release'' \<or>
            list_ex (Contains (ToLower (step_Run st))) downloaded_markers)
            (drop (download + 1) (job_Steps job)))"

definition provenance_markers :: "string list" where
  "provenance_markers =
     [''.repository == $repository'', ''.event == $event'', ''.workflow_path == $workflow_path'',
      ''.pull_request == $pull_request'', ''.commit_sha | ascii_downcase'', ''.workflow_run_id == $workflow_run_id'',
      ''.workflow_run_attempt == $workflow_run_attempt'', ''.final_artifact == $final_artifact'',
      ''.finalized_by == \"finalize\"'', ''debug-build-intermediate-'', ''.semver | test('']"

definition validDebugProvenanceCheck :: "GithubJob \<Rightarrow> string \<Rightarrow> bool" where
  "validDebugProvenanceCheck job stepName =
     (case find (\<lambda>st. step_Name st = stepName) (job_Steps job) of
        None \<Rightarrow> False
      | Some st \<Rightarrow> list_all (Contains (step_Run st)) provenance_markers)"

definition expected_binaries :: "string list" where
  "expected_binaries =
     [''release-assets/bin/eirctl-windows-amd64.exe'', ''release-assets/bin/eirctl-windows-386.exe'',
      ''release-assets/bin/eirctl-windows-arm64.exe'', ''release-assets/bin/eirctl-darwin-amd64'',
      ''release-assets/bin/eirctl-darwin-arm64'', ''release-assets/bin/eirctl-linux-arm64'',
      ''release-assets/bin/eirctl-linux-amd64'']"

definition publisherUsesOnlyExpectedBinaries :: "GithubJob \<Rightarrow> bool" where
  "publisherUsesOnlyExpectedBinaries job =
     (case find (\<lambda>st. actionUses (step_Uses st) ''softprops/action-gh-release'') (job_Steps job) of
        None \<Rightarrow> False
      | Some st \<Rightarrow>
          let files = Fields (field (step_With st) ''files'') in
          length files = length expected_binaries \<and> card (set files) = length expected_binaries \<and>
          list_all (\<lambda>f. f \<in> set files) expected_binaries)"

definition isProtectedBaseCheckout :: "GithubStep \<Rightarrow> bool" where
  "isProtectedBaseCheckout st \<longleftrightarrow>
     actionUses (step_Uses st) checkoutAction \<and> field (step_With st) ''ref'' = [] \<and>
     field (step_With st) ''fetch-depth'' = ''1'' \<and> field (step_With st) persistCredentialsField = ''false''"

definition hasVerifiedStaticMainCheckout :: "GithubJob \<Rightarrow> bool" where
  "hasVerifiedStaticMainCheckout job =
     (case job_Steps job of
        checkout # verify # _ \<Rightarrow>
          actionUses (step_Uses checkout) checkoutAction \<and> field (step_With checkout) ''ref'' = ''main'' \<and>
          field (step_With checkout) persistCredentialsField = ''false'' \<and>
          step_Name verify = ''Verify the validated workflow-run revision'' \<and> length (step_Env verify) = 1 \<and>
          scalarValue (field_value (step_Env verify) ''VALIDATED_HEAD_SHA'') = ''${{ github.event.workflow_run.head_sha }}'' \<and>
          TrimSpace (step_Run verify) = ''test \"$(git rev-parse HEAD)\" = \"$VALIDATED_HEAD_SHA\"''
      | _ \<Rightarrow> False)"

definition jobHasEnvironment :: "GithubJob \<Rightarrow> bool" where
  "jobHasEnvironment job \<longleftrightarrow> job_Environment job \<noteq> []"

text \<open>The required workflow, or the complaint that it is missing.\<close>

definition requiredWorkflow :: "workflows \<Rightarrow> string \<Rightarrow> violation + Workflow" where
  "requiredWorkflow ws p = (case map_of ws p of None \<Rightarrow> Inl (MissingWorkflow p) | Some w \<Rightarrow> Inr w)"

definition with_required :: "workflows \<Rightarrow> string \<Rightarrow> (Workflow \<Rightarrow> violation option) \<Rightarrow> violation option" where
  "with_required ws p k = (case requiredWorkflow ws p of Inl e \<Rightarrow> Some e | Inr w \<Rightarrow> k w)"

text \<open>\<open>job, ok := workflow.Jobs.Values[id]\<close>\<close>

definition the_job :: "Workflow \<Rightarrow> string \<Rightarrow> GithubJob" where
  "the_job w jobID = get_or (zero_job []) (map_of (jobs w)) jobID"

definition has_job :: "Workflow \<Rightarrow> string \<Rightarrow> bool" where
  "has_job w jobID \<longleftrightarrow> map_of (jobs w) jobID \<noteq> None"

section \<open>The shape of the repository's workflows\<close>

definition protected_policy :: "Workflow \<Rightarrow> bool" where
  "protected_policy policy \<longleftrightarrow>
     (let steps = job_Steps (the_job policy ''policy'') in
      has_job policy ''policy'' \<and> hasTrigger policy ''pull_request_target'' \<and> 3 \<le> length steps \<and>
      isProtectedBaseCheckout (steps ! 0) \<and>
      Contains (step_Run (steps ! 2)) ''scripts/materialize-policy-candidate'' \<and>
      Contains (step_Run (steps ! 2)) ''go run ./scripts/check-workflow-policy --candidate-root'')"

definition validateProtectedPolicyTopology :: "workflows \<Rightarrow> violation option" where
  "validateProtectedPolicyTopology ws =
     with_required ws ''.github/workflows/trusted-workflow-policy.yml'' (\<lambda>policy.
       if \<not> protected_policy policy then Some PolicyTopology else None)"

text \<open>The request for a debug build: its trigger, and its three jobs.\<close>

definition broker_trigger :: "Workflow \<Rightarrow> bool" where
  "broker_trigger broker \<longleftrightarrow>
     length (jobs broker) = 3 \<and> has_job broker ''authorize'' \<and> has_job broker ''build'' \<and> has_job broker ''finalize'' \<and>
     hasOnlyTriggers broker [''issue_comment''] \<and>
     workflowConcurrencyGroup broker = ''debug-build-request-${{ github.event.issue.number }}'' \<and>
     (case wf_Concurrency broker of None \<Rightarrow> False | Some c \<Rightarrow> scalarValue (CancelInProgress c) = ''false'')"

definition broker_authorize :: "(string \<Rightarrow> string) \<Rightarrow> GithubJob \<Rightarrow> bool" where
  "broker_authorize sha256 authorize \<longleftrightarrow>
     Join (Fields (job_If authorize)) '' '' =
       (''github.event.issue.pull_request != null && github.event.comment.body == '/build-debug'' @ [CHR 0x27]) \<and>
     \<not> hasCheckout authorize \<and> \<not> jobHasUntrustedShellCheckout authorize \<and> \<not> hasLocalAction authorize \<and>
     samePermissions (job_Permissions authorize) [(pullRequestsPermission, ''read'')] \<and>
     length (job_Steps authorize) = 1 \<and> jobUses authorize githubScriptActionPrefix \<and>
     stepDigestMatches sha256 authorize ''Authorize exact debug-build request'' ''script'' debugAuthorizeScriptSHA256 \<and>
     stepWithContains authorize githubScriptActionPrefix ''script'' ''getCollaboratorPermissionLevel'' \<and>
     stepWithContains authorize githubScriptActionPrefix ''script'' ''['write', 'maintain', 'admin']'' \<and>
     stepWithContains authorize githubScriptActionPrefix ''script'' ''pullRequest.base.repo.full_name !== repository'' \<and>
     field (job_Outputs authorize) ''pull_request'' = ''${{ steps.authorize.outputs.pull_request }}'' \<and>
     field (job_Outputs authorize) ''commit_sha'' = ''${{ steps.authorize.outputs.commit_sha }}''"

definition broker_build :: "GithubJob \<Rightarrow> bool" where
  "broker_build build \<longleftrightarrow>
     job_Uses build = ''./.github/workflows/debug-build.yml'' \<and> ''authorize'' \<in> set (job_Needs build) \<and>
     field (job_With build) ''pull_request'' = ''${{ needs.authorize.outputs.pull_request }}'' \<and>
     field (job_With build) ''commit_sha'' = ''${{ needs.authorize.outputs.commit_sha }}'' \<and>
     samePermissions (job_Permissions build) [(''contents'', ''read''), (pullRequestsPermission, ''read'')] \<and>
     \<not> jobSecretsConfigured build \<and> job_Environment build = [] \<and> job_Steps build = [] \<and> job_RunsOn build = []"

definition broker_finalize :: "(string \<Rightarrow> string) \<Rightarrow> GithubJob \<Rightarrow> bool" where
  "broker_finalize sha256 finalize \<longleftrightarrow>
     ''authorize'' \<in> set (job_Needs finalize) \<and> ''build'' \<in> set (job_Needs finalize) \<and>
     exactDebugFinalizerSteps sha256 finalize \<and>
     in_order (githubScriptIndexContaining finalize ''github.rest.pulls.get'') (actionIndex finalize downloadArtifactAction) \<and>
     isGithubHosted finalize \<and>
     samePermissions (job_Permissions finalize)
       [(''actions'', ''read''), (''contents'', ''read''), (pullRequestsPermission, ''read'')] \<and>
     stepDigestMatches sha256 finalize ''Revalidate immutable identity before finalization'' ''script'' debugFinalizeValidateSHA256 \<and>
     stepDigestMatches sha256 finalize debugLayoutStepName ''run'' debugArtifactLayoutSHA256 \<and>
     stepDigestMatches sha256 finalize debugProvenanceStepName ''run'' debugProvenanceCreateSHA256 \<and>
     \<not> jobHasEnvironment finalize \<and> \<not> hasSecretReference finalize \<and> \<not> hasCheckout finalize \<and>
     stepWithContains finalize downloadArtifactActionPrefix ''name''
       ''debug-build-intermediate-${{ github.run_id }}-${{ github.run_attempt }}'' \<and>
     jobRunContains finalize debugLayoutStepName ''lstat().st_mode'' \<and>
     jobRunContains finalize debugProvenanceStepName ''finalized_by'' \<and>
     stepWithContains finalize uploadArtifactActionPrefix ''name'' ''debug-build-${{ github.run_id }}''"

definition validateDebugBrokerTopology :: "(string \<Rightarrow> string) \<Rightarrow> workflows \<Rightarrow> violation option" where
  "validateDebugBrokerTopology sha256 ws =
     with_required ws debugRequestWorkflowPath (\<lambda>broker.
       if \<not> broker_trigger broker then Some BrokerTrigger
       else if \<not> broker_authorize sha256 (the_job broker ''authorize'') then Some BrokerAuthorization
       else if \<not> broker_build (the_job broker ''build'') then Some BrokerBuild
       else if \<not> broker_finalize sha256 (the_job broker ''finalize'') then Some BrokerFinalizer
       else None)"

text \<open>The builder is reached by the comment on the request's workflow only. \<open>None\<close>: the events are never resolved.\<close>

definition hasOnlyEffectiveDebugCaller :: "workflows \<Rightarrow> bool option" where
  "hasOnlyEffectiveDebugCaller ws =
     map_option (\<lambda>events. events debugBuilderWorkflowPath = {(''issue_comment'', debugRequestWorkflowPath)})
       (resolveEffectiveRootEvents ws)"

definition builder_job :: "(string \<Rightarrow> string) \<Rightarrow> GithubTriggerEvents \<Rightarrow> GithubJob \<Rightarrow> bool" where
  "builder_job sha256 on buildJob \<longleftrightarrow>
     (let inputs = call_Inputs (WorkflowCall on);
          pullInput = get_or zero_input (map_of inputs) ''pull_request'';
          shaInput = get_or zero_input (map_of inputs) ''commit_sha'';
          checkout = checkoutIndexForRef buildJob ''${{ inputs.commit_sha }}'' in
      call_Secrets (WorkflowCall on) = [] \<and>
      in_Required pullInput \<and> in_Type pullInput = ''string'' \<and> in_Required shaInput \<and> in_Type shaInput = ''string'' \<and>
      in_order (githubScriptIndexContaining buildJob ''github.rest.pulls.get'') checkout \<and> isGithubHosted buildJob \<and>
      samePermissions (job_Permissions buildJob) [(''contents'', ''read''), (pullRequestsPermission, ''read'')] \<and>
      stepDigestMatches sha256 buildJob ''Revalidate pull-request identity before checkout'' ''script'' debugBuilderValidateSHA256 \<and>
      stepWithContains buildJob githubScriptActionPrefix ''script'' ''pullRequest.base.repo.full_name !== repository'' \<and>
      stepWithContains buildJob githubScriptActionPrefix ''script''
        ''pullRequest.head.sha.toLowerCase() !== commitSHA.toLowerCase()'' \<and>
      checkoutDisablesCredentials buildJob checkout \<and> stepWithContains buildJob ''actions/setup-go@'' ''cache'' ''false'' \<and>
      \<not> jobHasEnvironment buildJob \<and> \<not> hasSecretReference buildJob \<and> \<not> jobSecretsConfigured buildJob \<and>
      stepWithContains buildJob uploadArtifactActionPrefix ''name''
        ''debug-build-intermediate-${{ github.run_id }}-${{ github.run_attempt }}'' \<and>
      \<not> jobRunContains buildJob [] ''debug-build-provenance.json'' \<and>
      \<not> stepWithContains buildJob uploadArtifactActionPrefix ''name'' ''debug-build-${{ github.run_id }}'')"

definition validateDebugBuilderTopology :: "(string \<Rightarrow> string) \<Rightarrow> workflows \<Rightarrow> violation option option" where
  "validateDebugBuilderTopology sha256 ws =
     (case requiredWorkflow ws debugBuilderWorkflowPath of
        Inl e \<Rightarrow> Some (Some e)
      | Inr build \<Rightarrow>
          (case On build of
             None \<Rightarrow> Some (Some BuilderMissing)
           | Some on \<Rightarrow>
               if \<not> has_job build ''build'' then Some (Some BuilderMissing)
               else map_option (\<lambda>only_caller.
                 if length (jobs build) = 1 \<and> hasOnlyTriggers build [''workflow_call''] \<and> only_caller \<and>
                    builder_job sha256 on (the_job build ''build'')
                 then None else Some BuilderTopology)
                 (hasOnlyEffectiveDebugCaller ws)))"

definition publisher_validates :: "(string \<Rightarrow> string) \<Rightarrow> GithubJob \<Rightarrow> bool" where
  "publisher_validates sha256 validate \<longleftrightarrow>
     job_If validate = (''github.ref == 'refs/heads/main'' @ [CHR 0x27]) \<and>
     samePermissions (job_Permissions validate)
       [(''actions'', ''read''), (''contents'', ''read''), (pullRequestsPermission, ''read'')] \<and> \<not> jobHasEnvironment validate \<and>
     stepDigestMatches sha256 validate ''Validate selected request run, artifact, and PR revision'' ''script''
       debugPublishValidateSHA256 \<and>
     stepDigestMatches sha256 validate ''Verify clean-runner provenance before publication'' ''run'' debugProvenanceValidateSHA256 \<and>
     list_all (stepWithContains validate githubScriptActionPrefix ''script'')
       [(''run.path !== '.github/workflows/debug-build-request.yml'' @ [CHR 0x27]), (''run.event !== 'issue_comment'' @ [CHR 0x27]),
        (''run.conclusion !== 'success'' @ [CHR 0x27]), ''pr.head.sha.toLowerCase() !== commitSHA.toLowerCase()'', ''!candidate.expired'',
        ''matches.length !== 1'', ''artifact.workflow_run?.id !== runId'', ''String(run.run_attempt)''] \<and>
     stepWithContains validate downloadArtifactActionPrefix ''artifact-ids'' ''${{ steps.validate.outputs.artifact_id }}'' \<and>
     validDebugProvenanceCheck validate ''Verify clean-runner provenance before publication''"

definition publisher_publishes :: "(string \<Rightarrow> string) \<Rightarrow> GithubJob \<Rightarrow> bool" where
  "publisher_publishes sha256 publishJob \<longleftrightarrow>
     job_If publishJob = (''github.ref == 'refs/heads/main'' @ [CHR 0x27]) \<and>
     samePermissions (job_Permissions publishJob) [(''actions'', ''read''), (''contents'', ''write'')] \<and>
     job_Environment publishJob = ''debug-release'' \<and> debugReleaseValidateJob \<in> set (job_Needs publishJob) \<and>
     stepDigestMatches sha256 publishJob ''Recheck provenance on the protected publish runner'' ''run'' debugProvenanceRecheckSHA256 \<and>
     stepWithContains publishJob downloadArtifactActionPrefix ''artifact-ids'' ''${{ needs.validate-build.outputs.artifact_id }}'' \<and>
     validDebugProvenanceCheck publishJob ''Recheck provenance on the protected publish runner'' \<and>
     publisherUsesOnlyExpectedBinaries publishJob"

definition validateDebugPublisherTopology :: "(string \<Rightarrow> string) \<Rightarrow> workflows \<Rightarrow> violation option" where
  "validateDebugPublisherTopology sha256 ws =
     with_required ws debugPublisherWorkflowPath (\<lambda>publish.
       let validate = the_job publish debugReleaseValidateJob; publishJob = the_job publish ''publish'' in
       if hasOnlyTriggers publish [''workflow_dispatch''] \<and> has_job publish debugReleaseValidateJob \<and>
          has_job publish ''publish'' \<and> publisher_validates sha256 validate \<and> publisher_publishes sha256 publishJob \<and>
          \<not> hasCheckout validate \<and> \<not> hasCheckout publishJob \<and>
          \<not> executesDownloadedContent validate \<and> \<not> executesDownloadedContent publishJob
       then None else Some PublisherTopology)"

definition release_job :: "string \<Rightarrow> string \<times> GithubJob \<Rightarrow> violation option" where
  "release_job p j =
     (case j of (jobID, job) \<Rightarrow>
        if \<not> trustedWorkflowRun (job_If job) \<or> \<not> hasVerifiedStaticMainCheckout job then Some (ReleaseTopology p jobID) else None)"

definition validateReleaseTopology :: "workflows \<Rightarrow> violation option" where
  "validateReleaseTopology ws =
     first_error (map (\<lambda>p. with_required ws p (\<lambda>w. first_error (map (release_job p) (jobs w))))
       [''.github/workflows/release.yml'', ''.github/workflows/release_container.yml''])"

definition validateScorecardTopology :: "workflows \<Rightarrow> violation option" where
  "validateScorecardTopology ws =
     with_required ws ''.github/workflows/scorecard.yml'' (\<lambda>scorecard.
       if \<not> has_job scorecard ''analysis'' \<or> \<not> hasCheckoutWithoutCredentials (the_job scorecard ''analysis'')
       then Some ScorecardTopology else None)"

subsection \<open>The analysis of pull requests\<close>

definition trustedSonarWorkflowPath :: string where
  "trustedSonarWorkflowPath = ''.github/workflows/trusted-sonarcloud-pr.yml''"

definition trustedSonarExpectedConcurrency :: string where
  "trustedSonarExpectedConcurrency =
     ''sonar-pr-${{ github.event.workflow_run.pull_requests[0].number || format('{0}-{1}', '' @
     ''github.event.workflow_run.head_repository.id, github.event.workflow_run.head_branch) }}''"

definition validateTrustedSonarWorkflowEnvelope :: "Workflow \<Rightarrow> violation option" where
  "validateTrustedSonarWorkflowEnvelope w =
     (if length (jobs w) \<noteq> 1 \<or> \<not> hasTrigger w ''workflow_run'' \<or>
         (case On w of None \<Rightarrow> True | Some on \<Rightarrow> run_Workflows (WorkflowRun on) \<noteq> [''Lint and Test'']) \<or>
         \<not> samePermissions (wf_Permissions w) [(''contents'', ''read'')]
      then Some SonarEnvelope else None)"

definition validateTrustedSonarJob :: "Workflow \<Rightarrow> violation + GithubJob" where
  "validateTrustedSonarJob w =
     (let job = the_job w ''analyze'' in
      if \<not> has_job w ''analyze'' \<or> job_Environment job \<noteq> [] \<or> job_Has job ''permissions'' \<or> job_Has job ''container'' \<or>
         job_Has job ''services'' \<or>
         \<not> Contains (job_If job) (''github.event.workflow_run.conclusion == 'success'' @ [CHR 0x27]) \<or>
         \<not> Contains (job_If job) (''github.event.workflow_run.event == 'pull_request'' @ [CHR 0x27]) \<or>
         \<not> Contains (job_If job) ''github.event.workflow_run.repository.full_name == github.repository'' \<or>
         concurrencyGroup job \<noteq> trustedSonarExpectedConcurrency
      then Inl SonarJob
      else if containsCache job \<or> hasLocalAction job \<or> hasSecretInMap (wf_Env w) \<or> hasSecretInMap (job_Env job)
      then Inl SonarJobAuthority
      else Inr job)"

record trustedSonarSteps =
  ss_checkout :: GithubStep
  ss_provenance :: GithubStep
  ss_download :: GithubStep
  ss_validateReports :: GithubStep
  ss_configure :: GithubStep
  ss_materialize :: GithubStep
  ss_scanner :: GithubStep

definition parseTrustedSonarSteps :: "GithubJob \<Rightarrow> violation + trustedSonarSteps" where
  "parseTrustedSonarSteps job =
     (case job_Steps job of
        [a, b, c, d, e, f, g] \<Rightarrow>
          Inr \<lparr>ss_checkout = a, ss_provenance = b, ss_download = c, ss_validateReports = d, ss_configure = e,
            ss_materialize = f, ss_scanner = g\<rparr>
      | _ \<Rightarrow> Inl SonarSteps)"

definition validateTrustedSonarCheckout :: "GithubJob \<Rightarrow> GithubStep \<Rightarrow> violation option" where
  "validateTrustedSonarCheckout job checkout =
     (if step_Name checkout \<noteq> ''Check out trusted analyzer helpers'' \<or> \<not> actionUses (step_Uses checkout) checkoutAction \<or>
         field (step_With checkout) ''ref'' \<noteq> ''main'' \<or> field (step_With checkout) ''fetch-depth'' \<noteq> ''1'' \<or>
         field (step_With checkout) persistCredentialsField \<noteq> ''false'' \<or> field (step_With checkout) ''path'' \<noteq> ''trusted'' \<or>
         \<not> Contains (field (step_With checkout) ''sparse-checkout'') ''scripts/materialize-sonar-source/main.go'' \<or>
         \<not> Contains (field (step_With checkout) ''sparse-checkout'') ''scripts/validate-sonar-reports.sh'' \<or>
         checkoutCount job \<noteq> 1
      then Some SonarCheckout else None)"

definition sonar_provenance_markers :: "string list" where
  "sonar_provenance_markers =
     [(''expected_workflow='Lint and Test'' @ [CHR 0x27]), (''expected_event='pull_request'' @ [CHR 0x27]), (''expected_branch='main'' @ [CHR 0x27]),
      ''actions/runs/${RUN_ID}'', ''.head_repository.full_name'', ''.head_repository.owner.login'', ''.head_branch'',
      ''(length == 0 or length == 1)'', ''associated_pr_count == 1'', ''gh api --method GET \"repos/${repository}/pulls\"'',
      ''-f state=open'', ''-f base=\"$expected_branch\"'', ''-f head=\"${head_owner}:${head_ref}\"'', ''-f per_page=2'',
      ''if length != 1 then'', ''expected exactly one open pull request for verified workflow run head'',
      ''pull request candidate does not match verified workflow run head'', ''.state == \"open\"'',
      ''.base.repo.full_name == $repository'', ''.base.ref == $branch'', ''.head.repo.full_name == $head_repository'',
      ''.head.ref == $head_ref'', ''.head.sha == $sha'', ''actions/runs/${RUN_ID}/artifacts'', ''.workflow_run.id == $run_id'',
      ''.workflow_run.head_sha == $sha'', ''expected exactly one current Sonar report artifact'', ''head-repository=%s'']"

definition validateTrustedSonarProvenance :: "GithubStep \<Rightarrow> violation option" where
  "validateTrustedSonarProvenance provenance =
     (if step_ID provenance \<noteq> ''provenance'' \<or> step_Name provenance \<noteq> ''Resolve immutable upstream provenance'' \<or>
         \<not> list_all (Contains (step_Run provenance)) sonar_provenance_markers
      then Some SonarProvenance else None)"

definition validateTrustedSonarReports :: "GithubStep \<Rightarrow> GithubStep \<Rightarrow> violation option" where
  "validateTrustedSonarReports download validateReports =
     (if step_Name download \<noteq> ''Download only the verified Sonar report artifact'' \<or>
         \<not> actionUses (step_Uses download) downloadArtifactAction \<or> length (step_With download) \<noteq> 5 \<or>
         field (step_With download) ''repository'' \<noteq> ''${{ github.repository }}'' \<or>
         field (step_With download) ''artifact-ids'' \<noteq> ''${{ steps.provenance.outputs.artifact-id }}'' \<or>
         field (step_With download) ''run-id'' \<noteq> ''${{ steps.provenance.outputs.run-id }}'' \<or>
         field (step_With download) ''github-token'' \<noteq> ''${{ github.token }}'' \<or>
         field (step_With download) ''path'' \<noteq> ''analysis/reports'' \<or>
         step_Name validateReports \<noteq> ''Validate bounded passive report artifact'' \<or>
         TrimSpace (step_Run validateReports) \<noteq> ''trusted/scripts/validate-sonar-reports.sh analysis/reports''
      then Some SonarReports else None)"

definition sonar_configuration :: string where
  "sonar_configuration = Join
     [''mkdir -p analysis'', (''cat >analysis/sonar-project.properties <<'PROPERTIES'' @ [CHR 0x27]),
      ''sonar.host.url=https://sonarcloud.io'', ''sonar.organization=ensono'', ''sonar.projectKey=Ensono_eirctl'',
      ''sonar.scm.provider=git'', ''sonar.sources=source'', ''sonar.tests=source'', ''sonar.inclusions=source/**/*.go'',
      ''sonar.exclusions=source/**/*_test.go,source/**/*_windows.go,source/**/*_generated*.go,'' @
        ''source/**/*_generated/**,source/**/vendor/**,source/**/examples/**'',
      ''sonar.test.inclusions=source/**/*_test.go'',
      ''sonar.test.exclusions=source/**/*_generated*.go,source/**/*_generated/**,source/**/vendor/**'',
      ''sonar.sourceEncoding=UTF-8'', ''sonar.go.coverage.reportPaths=reports/.coverage/out'',
      ''sonar.go.tests.reportPaths=reports/.coverage/report-junit.xml'', ''sonar.qualitygate.wait=true'', ''PROPERTIES'']
     [CHR 0x0A]"

definition validateTrustedSonarConfiguration :: "GithubStep \<Rightarrow> violation option" where
  "validateTrustedSonarConfiguration conf =
     (if step_Name conf \<noteq> ''Create trusted scanner configuration'' \<or>
         TrimSpace (step_Run conf) \<noteq> sonar_configuration \<and>
         TrimSpace (step_Run conf) \<noteq> Replace1 sonar_configuration (''sonar.scm.provider=git'' @ [CHR 0x0A]) []
      then Some SonarConfiguration else None)"

definition sonar_materialize_command :: string where
  "sonar_materialize_command = Join
     [''go run trusted/scripts/materialize-sonar-source/main.go'', ''--base-repository \"${GITHUB_REPOSITORY}\"'',
      ''--base-branch main'', ''--head-repository \"${{ steps.provenance.outputs.head-repository }}\"'',
      ''--head-sha \"${{ steps.provenance.outputs.head-sha }}\"'', ''--pull-request \"${{ steps.provenance.outputs.pr-number }}\"'',
      ''--output analysis/source'', ''--bounds tree=384,go=160,path=160,file=131072,total=1048576''] '' ''"

definition validateTrustedSonarMaterializer :: "GithubStep \<Rightarrow> violation option" where
  "validateTrustedSonarMaterializer materialize =
     (if step_Name materialize \<noteq> ''Materialize bounded verified Go source through the Git Data API'' \<or>
         step_Uses materialize \<noteq> [] \<or>
         Join (Fields (step_Run materialize)) '' '' \<noteq> sonar_materialize_command \<or>
         length (step_Env materialize) \<noteq> 1 \<or> scalarValue (field_value (step_Env materialize) ''GH_TOKEN'') \<noteq> ''${{ github.token }}''
      then Some SonarMaterializer else None)"

definition sonar_scanner_args :: string where
  "sonar_scanner_args = Join
     [''-Dsonar.projectBaseDir=analysis'', ''-Dsonar.host.url=https://sonarcloud.io'', ''-Dsonar.organization=ensono'',
      ''-Dsonar.projectKey=Ensono_eirctl'', ''-Dsonar.scm.provider=git'', ''-Dsonar.sources=source'', ''-Dsonar.tests=source'',
      ''-Dsonar.go.coverage.reportPaths=reports/.coverage/out'',
      ''-Dsonar.go.tests.reportPaths=reports/.coverage/report-junit.xml'',
      ''-Dsonar.pullrequest.key=${{ steps.provenance.outputs.pr-number }}'',
      ''-Dsonar.pullrequest.branch=${{ steps.provenance.outputs.head-ref }}'', ''-Dsonar.pullrequest.base=main'',
      ''-Dsonar.scm.revision=${{ steps.provenance.outputs.head-sha }}'', ''-Dsonar.qualitygate.wait=true''] '' ''"

definition validateTrustedSonarScanner :: "GithubStep \<Rightarrow> violation option" where
  "validateTrustedSonarScanner scanner =
     (let args = Join (Fields (field (step_With scanner) ''args'')) '' '' in
      if step_Name scanner \<noteq> ''Scan passive pull-request data with SonarCloud'' \<or>
         step_Uses scanner \<noteq> ''SonarSource/sonarqube-scan-action@22918119ff8e1ca75a623e15c8296b6ea4fbe28f'' \<or>
         field (step_With scanner) ''scannerVersion'' \<noteq> ''8.1.0.6389'' \<or>
         field (step_With scanner) ''scannerBinariesUrl'' \<noteq>
           ''https://binaries.sonarsource.com/Distribution/sonar-scanner-cli'' \<or>
         field (step_With scanner) ''skipSignatureVerification'' \<noteq> ''false'' \<or>
         args \<noteq> sonar_scanner_args \<and> args \<noteq> Replace1 sonar_scanner_args ''-Dsonar.scm.provider=git '' []
      then Some SonarScanner else None)"

text \<open>The token is given to the scanner alone.\<close>

definition stepContainsForbiddenSonarReference :: "GithubStep \<Rightarrow> bool" where
  "stepContainsForbiddenSonarReference st \<longleftrightarrow>
     Contains (step_Run st) sonarTokenName \<or> Contains (step_Uses st) sonarTokenName \<or>
     list_ex (\<lambda>(_, v). Contains v sonarTokenName \<or> has_marker v) (step_With st)"

definition scannerStepSecretScopeValid :: "GithubStep \<Rightarrow> nat \<Rightarrow> nat \<Rightarrow> bool" where
  "scannerStepSecretScopeValid st index scannerIndex \<longleftrightarrow>
     list_all (\<lambda>(_, v).
       (Contains (scalarValue v) sonarTokenName \<or> has_marker (scalarValue v)) \<longrightarrow>
       index = scannerIndex \<and> scalarValue (field_value (step_Env st) sonarTokenName) = sonarTokenExpression \<and>
       length (step_Env st) = 1) (step_Env st) \<and>
     \<not> stepContainsForbiddenSonarReference st"

definition onlyScannerReceivesSonarToken :: "Workflow \<Rightarrow> GithubJob \<Rightarrow> nat \<Rightarrow> bool" where
  "onlyScannerReceivesSonarToken w job scannerIndex \<longleftrightarrow>
     \<not> hasSecretInMap (wf_Env w) \<and> \<not> hasSecretInMap (job_Env job) \<and>
     list_all (\<lambda>(index, st). scannerStepSecretScopeValid st index scannerIndex) (enumerate 0 (job_Steps job))"

definition sonar_step_checks :: "Workflow \<Rightarrow> GithubJob \<Rightarrow> trustedSonarSteps \<Rightarrow> violation option" where
  "sonar_step_checks w job steps =
     first_error
       [validateTrustedSonarCheckout job (ss_checkout steps),
        validateTrustedSonarProvenance (ss_provenance steps),
        validateTrustedSonarReports (ss_download steps) (ss_validateReports steps),
        validateTrustedSonarConfiguration (ss_configure steps),
        validateTrustedSonarMaterializer (ss_materialize steps),
        validateTrustedSonarScanner (ss_scanner steps),
        if \<not> onlyScannerReceivesSonarToken w job 6 then Some SonarToken else None]"

definition sonar_workflow :: "Workflow \<Rightarrow> violation option" where
  "sonar_workflow w =
     (case validateTrustedSonarWorkflowEnvelope w of Some e \<Rightarrow> Some e | None \<Rightarrow>
     (case validateTrustedSonarJob w of Inl e \<Rightarrow> Some e | Inr job \<Rightarrow>
     (case parseTrustedSonarSteps job of Inl e \<Rightarrow> Some e | Inr steps \<Rightarrow> sonar_step_checks w job steps)))"

definition validateTrustedSonarCloudTopology :: "workflows \<Rightarrow> violation option" where
  "validateTrustedSonarCloudTopology ws = with_required ws trustedSonarWorkflowPath sonar_workflow"

section \<open>The whole check\<close>

definition validateNonDebugRepositoryTopology :: "workflows \<Rightarrow> violation option" where
  "validateNonDebugRepositoryTopology ws =
     first_error [validateReleaseTopology ws, validateScorecardTopology ws, validateTrustedSonarCloudTopology ws]"

definition validateRepositoryTopology :: "(string \<Rightarrow> string) \<Rightarrow> workflows \<Rightarrow> violation option option" where
  "validateRepositoryTopology sha256 ws =
     (case first_error [validateProtectedPolicyTopology ws, validateDebugBrokerTopology sha256 ws] of
        Some e \<Rightarrow> Some (Some e)
      | None \<Rightarrow>
          map_option (\<lambda>builder.
            first_error [builder, validateDebugPublisherTopology sha256 ws, validateNonDebugRepositoryTopology ws])
            (validateDebugBuilderTopology sha256 ws))"

text \<open>The check of loaded workflows, and of a directory; \<open>None\<close>: it does not return.\<close>

definition validate_workflows :: "(string \<Rightarrow> string) \<Rightarrow> workflows \<Rightarrow> violation option option" where
  "validate_workflows sha256 ws =
     (if ws = [] then Some (Some NoWorkflows)
      else case first_error (map (\<lambda>(_, w). validateWorkflow w) ws) of
        Some e \<Rightarrow> Some (Some e)
      | None \<Rightarrow>
          (case resolveEffectiveRootEvents ws of
             None \<Rightarrow> None
           | Some events \<Rightarrow>
               (case first_error (map (\<lambda>(p, w). validatePrivilegedFlow ws w (events p)) ws) of
                  Some e \<Rightarrow> Some (Some e)
                | None \<Rightarrow> validateRepositoryTopology sha256 ws)))"

definition Validate_policy :: "(string \<Rightarrow> string) \<Rightarrow> policy_io \<Rightarrow> string \<Rightarrow> violation option option" where
  "Validate_policy sha256 io root =
     (case LoadWorkflows io root of Inl e \<Rightarrow> Some (Some e) | Inr ws \<Rightarrow> validate_workflows sha256 ws)"

section \<open>Properties\<close>

text \<open>When the check accepts.\<close>

lemma validate_builder_root:
  "validateDebugBuilderTopology sha256 ws = Some r \<Longrightarrow> r = None \<Longrightarrow>
   root_events ws debugBuilderWorkflowPath = {(''issue_comment'', debugRequestWorkflowPath)}"
  by (auto simp: validateDebugBuilderTopology_def hasOnlyEffectiveDebugCaller_def resolve_root_events
      split: sum.splits option.splits if_splits)

lemma validateRepositoryTopology_None:
  "validateRepositoryTopology sha256 ws = Some None \<longleftrightarrow>
     validateProtectedPolicyTopology ws = None \<and> validateDebugBrokerTopology sha256 ws = None \<and>
     validateDebugBuilderTopology sha256 ws = Some None \<and> validateDebugPublisherTopology sha256 ws = None \<and>
     validateNonDebugRepositoryTopology ws = None"
  unfolding validateRepositoryTopology_def
  by (cases "first_error [validateProtectedPolicyTopology ws, validateDebugBrokerTopology sha256 ws]")
    (auto simp del: first_error_None simp: first_error_None [of "[_, _]"] first_error_None [of "[_, _, _]"])

lemma validate_workflows_None:
  "validate_workflows sha256 ws = Some None \<longleftrightarrow>
     ws \<noteq> [] \<and> (\<forall>(p, w) \<in> set ws. validateWorkflow w = None) \<and>
     (\<forall>(p, w) \<in> set ws. validatePrivilegedFlow ws w (root_events ws p) = None) \<and>
     validateRepositoryTopology sha256 ws = Some None"
proof -
  have 1: "first_error (map (\<lambda>(_, w). validateWorkflow w) ws) = None \<longleftrightarrow> (\<forall>(p, w) \<in> set ws. validateWorkflow w = None)"
    by (auto simp: split_beta)
  have 2: "first_error (map (\<lambda>(p, w). validatePrivilegedFlow ws w (root_events ws p)) ws) = None \<longleftrightarrow>
      (\<forall>(p, w) \<in> set ws. validatePrivilegedFlow ws w (root_events ws p) = None)"
    by (auto simp: split_beta)
  show ?thesis
    unfolding validate_workflows_def 1 [symmetric] 2 [symmetric] resolve_root_events
    by (simp split: option.split del: first_error_None)
qed


lemma expected_write:
  assumes "(name, ''write'') \<in> set (expectedJobPermissions w jobID)"
  shows "(wf_Path w, jobID) \<in> {(''.github/workflows/pr.yml'', ''report''), (debugPublisherWorkflowPath, ''publish''),
    (''.github/workflows/release.yml'', ''release''), (''.github/workflows/release_container.yml'', ''build-and-push''),
    (''.github/workflows/scorecard.yml'', ''analysis'')}"
  using assms
  by (auto simp: expectedJobPermissions_def allowed_permissions_def policy_names split: option.splits if_splits)

text \<open>C28. in a repository that is accepted, a write permission is held by five jobs only: those that report a test,
  publish a debug release, publish a release, push its container and upload the scorecard.\<close>

theorem write_permissions_where_listed:
  assumes "validateWorkflow w = None" and "(jobID, job) \<in> set (jobs w)"
    and "distinct (map fst (effective_permissions w job))" and "(name, ''write'') \<in> set (effective_permissions w job)"
  shows "(wf_Path w, jobID) \<in> {(''.github/workflows/pr.yml'', ''report''), (debugPublisherWorkflowPath, ''publish''),
    (''.github/workflows/release.yml'', ''release''), (''.github/workflows/release_container.yml'', ''build-and-push''),
    (''.github/workflows/scorecard.yml'', ''analysis'')}"
proof -
  from assms(1,2) have same: "samePermissions (effective_permissions w job) (expectedJobPermissions w jobID)"
    by (auto simp: validateWorkflow_None)
  have exp: "distinct (map fst (expectedJobPermissions w jobID))" "[] \<notin> snd ` set (expectedJobPermissions w jobID)"
    by (auto simp: expectedJobPermissions_def allowed_permissions_def policy_names split: option.split)
  have "map_of (expectedJobPermissions w jobID) name = Some ''write''"
    using permissions_same_map [OF assms(3) exp] same map_of_is_SomeI [OF assms(3,4)] by simp
  then show ?thesis by (intro expected_write) (rule map_of_SomeD)
qed

definition release_workflow :: Workflow where
  "release_workflow =
     (one_job_workflow [] (one_job []))
       \<lparr>wf_Path := ''.github/workflows/release.yml'',
        Jobs := \<lparr>Keys = [''release''], Values = Some [(''release'', (zero_job [''permissions''])
          \<lparr>job_Permissions := [(''contents'', ''write'')]\<rparr>)]\<rparr>\<rparr>"

theorem write_permissions_where_listed_witness:
  "(wf_Path release_workflow, ''release'') \<in> {(''.github/workflows/pr.yml'', ''report''), (debugPublisherWorkflowPath, ''publish''),
    (''.github/workflows/release.yml'', ''release''), (''.github/workflows/release_container.yml'', ''build-and-push''),
    (''.github/workflows/scorecard.yml'', ''analysis'')}"
proof (rule write_permissions_where_listed)
  show "validateWorkflow release_workflow = None" by code_simp
  show "(''release'', (zero_job [''permissions''])\<lparr>job_Permissions := [(''contents'', ''write'')]\<rparr>) \<in> set (jobs release_workflow)"
    by (simp add: release_workflow_def om_values_def)
qed (simp_all add: effective_permissions_def job_Has_def zero_job_def)

text \<open>when the builder has the shape that is demanded, it is started, along whatever chain of calls, by nothing but
  a comment on the request for it: no push, no schedule and no pull request reaches the job that runs the code of
  a pull request.\<close>

theorem builder_started_by_request_only:
  assumes "validateDebugBuilderTopology sha256 ws = Some None"
    and "(calls_from ws)\<^sup>*\<^sup>* q debugBuilderWorkflowPath" and "event \<in> direct_events ws q"
  shows "event = (''issue_comment'', debugRequestWorkflowPath)"
  using validate_builder_root [OF assms(1)] assms(2,3) by (auto simp: root_events_def)

definition builder_workflow :: Workflow where
  "builder_workflow =
     (one_job_workflow [''workflow_call''] (one_job []))
       \<lparr>wf_Path := debugBuilderWorkflowPath,
        On := Some ((zero_events [''workflow_call''])\<lparr>WorkflowCall := \<lparr>call_Inputs =
          [(''pull_request'', zero_input\<lparr>in_Required := True, in_Type := ''string''\<rparr>),
           (''commit_sha'', zero_input\<lparr>in_Required := True, in_Type := ''string''\<rparr>)], call_Outputs = [], call_Secrets = []\<rparr>\<rparr>),
        Jobs := \<lparr>Keys = [''build''], Values = Some [(''build'', (one_job
          [zero_step\<lparr>step_Name := ''Revalidate pull-request identity before checkout'', step_Uses := githubScriptActionPrefix,
             step_With := [(''script'', ''github.rest.pulls.get pullRequest.base.repo.full_name !== repository '' @
               ''pullRequest.head.sha.toLowerCase() !== commitSHA.toLowerCase()'')]\<rparr>,
           checkout_of [(''ref'', ''${{ inputs.commit_sha }}''), (persistCredentialsField, ''false'')],
           zero_step\<lparr>step_Uses := ''actions/setup-go@'', step_With := [(''cache'', ''false'')]\<rparr>,
           zero_step\<lparr>step_Uses := uploadArtifactActionPrefix,
             step_With := [(''name'', ''debug-build-intermediate-${{ github.run_id }}-${{ github.run_attempt }}'')]\<rparr>])
          \<lparr>job_Permissions := [(''contents'', ''read''), (pullRequestsPermission, ''read'')]\<rparr>)]\<rparr>\<rparr>"

definition request_workflow :: Workflow where
  "request_workflow =
     (one_job_workflow [''issue_comment''] ((zero_job [''uses''])\<lparr>job_Uses := ''./.github/workflows/debug-build.yml''\<rparr>))
       \<lparr>wf_Path := debugRequestWorkflowPath\<rparr>"

definition debug_workflows :: workflows where
  "debug_workflows = [(debugBuilderWorkflowPath, builder_workflow), (debugRequestWorkflowPath, request_workflow)]"

lemma debug_caller: "hasOnlyEffectiveDebugCaller debug_workflows = Some True"
proof -
  have c: "reusable_calls debug_workflows = [(debugRequestWorkflowPath, debugBuilderWorkflowPath)]" by code_simp
  have d: "direct_events debug_workflows debugBuilderWorkflowPath = {}"
    "direct_events debug_workflows debugRequestWorkflowPath = {(''issue_comment'', debugRequestWorkflowPath)}" by code_simp+
  have n: "debugRequestWorkflowPath \<noteq> debugBuilderWorkflowPath" by (simp add: policy_names)
  have "propagate_loop debug_workflows (direct_events debug_workflows) = Some ev \<Longrightarrow>
      ev debugBuilderWorkflowPath = {(''issue_comment'', debugRequestWorkflowPath)}" for ev
    by (subst (asm) propagate_loop.simps, subst (asm) propagate_loop.simps)
      (use n in \<open>auto simp: propagateReusableEvents_def c d\<close>)
  with resolve_root_events [of debug_workflows] show ?thesis
    by (auto simp: hasOnlyEffectiveDebugCaller_def resolveEffectiveRootEvents_def)
qed

lemma debug_builder_accepted: "validateDebugBuilderTopology (\<lambda>_. debugBuilderValidateSHA256) debug_workflows = Some None"
proof -
  have w: "requiredWorkflow debug_workflows debugBuilderWorkflowPath = Inr builder_workflow"
    by (simp add: requiredWorkflow_def debug_workflows_def)
  obtain on where on: "On builder_workflow = Some on" by (simp add: builder_workflow_def)
  have "case On builder_workflow of None \<Rightarrow> False
    | Some on \<Rightarrow> builder_job (\<lambda>_. debugBuilderValidateSHA256) on (the_job builder_workflow ''build'')" by code_simp
  moreover have "has_job builder_workflow ''build''" "length (jobs builder_workflow) = 1"
    "hasOnlyTriggers builder_workflow [''workflow_call'']" by code_simp+
  ultimately show ?thesis
    by (simp add: validateDebugBuilderTopology_def w on debug_caller)
qed

theorem builder_started_by_request_only_witness:
  "direct_events debug_workflows debugRequestWorkflowPath \<subseteq> {(''issue_comment'', debugRequestWorkflowPath)}"
proof -
  have "reusable_calls debug_workflows = [(debugRequestWorkflowPath, debugBuilderWorkflowPath)]" by code_simp
  then have "(calls_from debug_workflows)\<^sup>*\<^sup>* debugRequestWorkflowPath debugBuilderWorkflowPath"
    by (intro r_into_rtranclp) (simp add: calls_from_def)
  from builder_started_by_request_only [OF debug_builder_accepted this] show ?thesis by blast
qed

subsection \<open>What the shape leaves open\<close>

text \<open>A workflow whose steps are switched off: a condition on each of them, its failure ignored, another shell.\<close>

definition switch_off :: "string \<Rightarrow> string \<Rightarrow> GithubStep \<Rightarrow> GithubStep" where
  "switch_off condition shell st = st\<lparr>step_If := condition, step_ContinueOnError := True, step_Shell := shell\<rparr>"

definition job_off :: "string \<Rightarrow> string \<Rightarrow> GithubJob \<Rightarrow> GithubJob" where
  "job_off c sh job = job\<lparr>job_Steps := map (switch_off c sh) (job_Steps job)\<rparr>"

definition workflow_off :: "string \<Rightarrow> string \<Rightarrow> Workflow \<Rightarrow> Workflow" where
  "workflow_off c sh w = w\<lparr>Jobs := (Jobs w)\<lparr>Values := map_option (map (\<lambda>(k, job). (k, job_off c sh job))) (Values (Jobs w))\<rparr>\<rparr>"

definition all_off :: "string \<Rightarrow> string \<Rightarrow> workflows \<Rightarrow> workflows" where
  "all_off c sh ws = map (\<lambda>(p, w). (p, workflow_off c sh w)) ws"

lemma switch_off_simps [simp]:
  "step_Name (switch_off c sh st) = step_Name st" "step_ID (switch_off c sh st) = step_ID st"
  "step_Uses (switch_off c sh st) = step_Uses st" "step_Run (switch_off c sh st) = step_Run st"
  "step_With (switch_off c sh st) = step_With st" "step_Env (switch_off c sh st) = step_Env st"
  by (simp_all add: switch_off_def)

lemma job_off_simps [simp]:
  "job_Steps (job_off c sh job) = map (switch_off c sh) (job_Steps job)"
  "job_If (job_off c sh job) = job_If job" "job_Uses (job_off c sh job) = job_Uses job"
  "job_Has (job_off c sh job) = job_Has job" "job_Permissions (job_off c sh job) = job_Permissions job"
  "job_Outputs (job_off c sh job) = job_Outputs job" "job_With (job_off c sh job) = job_With job"
  "job_Needs (job_off c sh job) = job_Needs job" "job_RunsOn (job_off c sh job) = job_RunsOn job"
  "job_Environment (job_off c sh job) = job_Environment job" "job_Env (job_off c sh job) = job_Env job"
  "job_Secrets (job_off c sh job) = job_Secrets job" "job_Container (job_off c sh job) = job_Container job"
  "job_Services (job_off c sh job) = job_Services job" "job_Concurrency (job_off c sh job) = job_Concurrency job"
  by (simp_all add: job_off_def job_Has_def fun_eq_iff)

lemma list_ex_map: "list_ex P (map f xs) \<longleftrightarrow> list_ex (\<lambda>x. P (f x)) xs"
  by (induction xs) auto

lemma find_index_map: "find_index P (map f xs) = find_index (\<lambda>x. P (f x)) xs"
  by (induction xs) auto

lemma find_map: "find P (map f xs) = map_option f (find (\<lambda>x. P (f x)) xs)"
  by (induction xs) auto

lemmas off_simps = find_index_map find_map list_ex_map filter_map comp_def drop_map nth_map

lemma step_off [simp]:
  "hasUntrustedShellCheckout (switch_off c sh st) = hasUntrustedShellCheckout st"
  "isUntrustedCheckout (switch_off c sh st) (job_off c sh job) = isUntrustedCheckout st job"
  "executesWorkspace (switch_off c sh st) = executesWorkspace st"
  "step_has_secret (switch_off c sh st) = step_has_secret st"
  "step_pinned p (switch_off c sh st) = step_pinned p st"
  "dangerous_checkout (switch_off c sh st) = dangerous_checkout st"
  "isProtectedBaseCheckout (switch_off c sh st) = isProtectedBaseCheckout st"
  "scannerStepSecretScopeValid (switch_off c sh st) i j = scannerStepSecretScopeValid st i j"
  by (simp_all add: hasUntrustedShellCheckout_def isUntrustedCheckout_def executesWorkspace_def step_has_secret_def
      step_pinned_def dangerous_checkout_def isProtectedBaseCheckout_def scannerStepSecretScopeValid_def
      stepContainsForbiddenSonarReference_def)

lemma executes_after_off [simp]: "executes_after (job_off c sh job) (map (switch_off c sh) steps) = executes_after job steps"
  by (induction steps) (auto simp: list_ex_map comp_def)

lemma steps_off [simp]:
  "checkoutStep (map (switch_off c sh) steps) = checkoutStep steps"
  "hasCheckout (job_off c sh job) = hasCheckout job"
  "checkoutCount (job_off c sh job) = checkoutCount job"
  "actionIndex (job_off c sh job) = actionIndex job"
  "checkoutIndexForRef (job_off c sh job) = checkoutIndexForRef job"
  "githubScriptIndexContaining (job_off c sh job) = githubScriptIndexContaining job"
  "isGithubHosted (job_off c sh job) = isGithubHosted job"
  "containsCache (job_off c sh job) = containsCache job"
  "hasLocalAction (job_off c sh job) = hasLocalAction job"
  "jobUses (job_off c sh job) = jobUses job"
  "stepWithContains (job_off c sh job) = stepWithContains job"
  "jobRunContains (job_off c sh job) = jobRunContains job"
  "hasCheckoutWithoutCredentials (job_off c sh job) = hasCheckoutWithoutCredentials job"
  "jobHasEnvironment (job_off c sh job) = jobHasEnvironment job"
  "hasSecretReference (job_off c sh job) = hasSecretReference job"
  "jobSecretsConfigured (job_off c sh job) = jobSecretsConfigured job"
  "jobHasUntrustedShellCheckout (job_off c sh job) = jobHasUntrustedShellCheckout job"
  "jobHasPrivilegedPRExecution (job_off c sh job) = jobHasPrivilegedPRExecution job"
  "runnerMayPersist (job_off c sh job) = runnerMayPersist job"
  "concurrencyGroup (job_off c sh job) = concurrencyGroup job"
  by (simp_all add: checkoutStep_def hasCheckout_def checkoutCount_def actionIndex_def checkoutIndexForRef_def
      githubScriptIndexContaining_def isGithubHosted_def containsCache_def hasLocalAction_def jobUses_def
      stepWithContains_def jobRunContains_def hasCheckoutWithoutCredentials_def
      jobHasEnvironment_def hasSecretReference_def jobSecretsConfigured_def jobHasUntrustedShellCheckout_def
      jobHasPrivilegedPRExecution_def executesAfterUntrustedCheckout_def runnerMayPersist_def concurrencyGroup_def
      off_simps fun_eq_iff)

lemma found_off [simp]:
  "stepDigestMatches sha256 (job_off c sh job) = stepDigestMatches sha256 job"
  "validDebugProvenanceCheck (job_off c sh job) = validDebugProvenanceCheck job"
  "publisherUsesOnlyExpectedBinaries (job_off c sh job) = publisherUsesOnlyExpectedBinaries job"
  by (auto simp: stepDigestMatches_def validDebugProvenanceCheck_def publisherUsesOnlyExpectedBinaries_def
      off_simps fun_eq_iff split: option.split)

lemma executesDownloadedContent_off [simp]:
  "executesDownloadedContent (job_off c sh job) = executesDownloadedContent job"
  by (simp add: executesDownloadedContent_def off_simps split: option.split)

lemma checkoutDisablesCredentials_off [simp]:
  "checkoutDisablesCredentials (job_off c sh job) i = checkoutDisablesCredentials job i"
  by (auto simp: checkoutDisablesCredentials_def split: option.split)

lemma hasVerifiedStaticMainCheckout_off [simp]:
  "hasVerifiedStaticMainCheckout (job_off c sh job) = hasVerifiedStaticMainCheckout job"
  by (auto simp: hasVerifiedStaticMainCheckout_def split: list.split)

lemma exactDebugFinalizerSteps_off [simp]:
  "exactDebugFinalizerSteps sha256 (job_off c sh job) = exactDebugFinalizerSteps sha256 job"
  by (auto simp: exactDebugFinalizerSteps_def)

lemma jobs_accepted_off [simp]:
  "broker_authorize sha256 (job_off c sh job) = broker_authorize sha256 job"
  "broker_build (job_off c sh job) = broker_build job"
  "broker_finalize sha256 (job_off c sh job) = broker_finalize sha256 job"
  "builder_job sha256 on (job_off c sh job) = builder_job sha256 on job"
  "publisher_validates sha256 (job_off c sh job) = publisher_validates sha256 job"
  "publisher_publishes sha256 (job_off c sh job) = publisher_publishes sha256 job"
  "release_job p (jobID, job_off c sh job) = release_job p (jobID, job)"
  by (simp_all add: broker_authorize_def broker_build_def broker_finalize_def builder_job_def publisher_validates_def
      publisher_publishes_def release_job_def Let_def)

lemma workflow_off_simps [simp]:
  "On (workflow_off c sh w) = On w" "wf_Permissions (workflow_off c sh w) = wf_Permissions w"
  "wf_Env (workflow_off c sh w) = wf_Env w" "wf_Concurrency (workflow_off c sh w) = wf_Concurrency w"
  "wf_Path (workflow_off c sh w) = wf_Path w"
  "jobs (workflow_off c sh w) = map (\<lambda>(k, job). (k, job_off c sh job)) (jobs w)"
  by (simp_all add: workflow_off_def om_values_def split: option.split)

lemma the_job_off [simp]:
  "the_job (workflow_off c sh w) jobID = job_off c sh (the_job w jobID)"
  "has_job (workflow_off c sh w) jobID = has_job w jobID"
  by (simp_all add: the_job_def has_job_def get_or_def map_of_map job_off_def zero_job_def split: option.split)

lemma flow_off [simp]:
  "effective_permissions (workflow_off c sh w) (job_off c sh job) = effective_permissions w job"
  "jobHasRepositoryOrSecretPrivilege (workflow_off c sh w) (job_off c sh job) = jobHasRepositoryOrSecretPrivilege w job"
  "hasTrigger (workflow_off c sh w) = hasTrigger w" "hasOnlyTriggers (workflow_off c sh w) = hasOnlyTriggers w"
  "workflowConcurrencyGroup (workflow_off c sh w) = workflowConcurrencyGroup w"
  "directRootEvents (workflow_off c sh w) = directRootEvents w"
  "eventWritesDefaultBranchCache (workflow_off c sh w) = eventWritesDefaultBranchCache w"
  "expectedJobPermissions (workflow_off c sh w) = expectedJobPermissions w"
  "broker_trigger (workflow_off c sh w) = broker_trigger w"
  by (simp_all add: effective_permissions_def jobHasRepositoryOrSecretPrivilege_def hasTrigger_def hasOnlyTriggers_def
      workflowConcurrencyGroup_def directRootEvents_def eventWritesDefaultBranchCache_def pushCanTargetDefaultBranch_def
      expectedJobPermissions_def broker_trigger_def fun_eq_iff)

lemma all_off_lookup [simp]: "map_of (all_off c sh ws) p = map_option (workflow_off c sh) (map_of ws p)"
  by (simp add: all_off_def map_of_map)

lemma calls_off [simp]: "reusable_calls (all_off c sh ws) = reusable_calls ws"
proof -
  have "job_calls (all_off c sh ws) p (job_off c sh job) = job_calls ws p job" for p job
    by (simp add: job_calls_def split: option.split)
  then show ?thesis
    unfolding reusable_calls_def all_off_def by (simp add: case_prod_unfold comp_def)
qed

lemma root_events_off [simp]: "root_events (all_off c sh ws) = root_events ws"
proof -
  have "direct_events (all_off c sh ws) = direct_events ws"
    by (simp add: direct_events_def fun_eq_iff split: option.split)
  moreover have "calls_from (all_off c sh ws) = calls_from ws"
    by (simp add: calls_from_def fun_eq_iff)
  ultimately show ?thesis unfolding root_events_def [abs_def] by (simp only:)
qed

lemma validateWorkflow_off [simp]: "validateWorkflow (workflow_off c sh w) = validateWorkflow w"
proof -
  have "validate_job (workflow_off c sh w) (k, job_off c sh job) = validate_job w (k, job)" for k job
    by (simp add: validate_job_def validateActions_def comp_def)
  moreover have "rejectScorecardDangerousCheckouts (workflow_off c sh w) = rejectScorecardDangerousCheckouts w"
    by (simp add: rejectScorecardDangerousCheckouts_def comp_def case_prod_unfold cong: if_cong)
  ultimately show ?thesis
    by (simp add: validateWorkflow_def comp_def case_prod_unfold del: first_error_None cong: option.case_cong)
qed

lemma validatePrivilegedFlow_off [simp]:
  "validatePrivilegedFlow (all_off c sh ws) (workflow_off c sh w) events = validatePrivilegedFlow ws w events"
proof -
  have s: "eventWritesDefaultBranchCache (source_of (all_off c sh ws) (workflow_off c sh w) e) =
      eventWritesDefaultBranchCache (source_of ws w e)" for e
    by (simp add: source_of_def split: option.split)
  have "job_flow (all_off c sh ws) (workflow_off c sh w) events (k, job_off c sh job) = job_flow ws w events (k, job)" for k job
    by (simp add: job_flow_def authorityForJob_def Let_def s)
  then show ?thesis by (simp add: validatePrivilegedFlow_def comp_def split_beta)
qed

lemma with_required_off:
  "with_required (all_off c sh ws) p k = with_required ws p (\<lambda>w. k (workflow_off c sh w))"
  by (simp add: with_required_def requiredWorkflow_def split: option.split)

lemma validateTrustedSonarJob_off:
  "validateTrustedSonarJob (workflow_off c sh w) = map_sum id (job_off c sh) (validateTrustedSonarJob w)"
  by (simp add: validateTrustedSonarJob_def Let_def)

definition steps_off :: "string \<Rightarrow> string \<Rightarrow> trustedSonarSteps \<Rightarrow> trustedSonarSteps" where
  "steps_off c sh s =
     \<lparr>ss_checkout = switch_off c sh (ss_checkout s), ss_provenance = switch_off c sh (ss_provenance s),
      ss_download = switch_off c sh (ss_download s), ss_validateReports = switch_off c sh (ss_validateReports s),
      ss_configure = switch_off c sh (ss_configure s), ss_materialize = switch_off c sh (ss_materialize s),
      ss_scanner = switch_off c sh (ss_scanner s)\<rparr>"

lemma parseTrustedSonarSteps_off:
  "parseTrustedSonarSteps (job_off c sh job) = map_sum id (steps_off c sh) (parseTrustedSonarSteps job)"
  by (auto simp: parseTrustedSonarSteps_def steps_off_def split: list.split)

lemma onlyScannerReceivesSonarToken_off:
  "onlyScannerReceivesSonarToken (workflow_off c sh w) (job_off c sh job) i = onlyScannerReceivesSonarToken w job i"
proof -
  have "list_all (\<lambda>(index, st). scannerStepSecretScopeValid st index i) (enumerate n (map (switch_off c sh) steps)) =
    list_all (\<lambda>(index, st). scannerStepSecretScopeValid st index i) (enumerate n steps)" for n steps
    by (induction steps arbitrary: n) auto
  then show ?thesis by (simp add: onlyScannerReceivesSonarToken_def)
qed

lemma sonar_off: "validateTrustedSonarCloudTopology (all_off c sh ws) = validateTrustedSonarCloudTopology ws"
proof -
  have e: "validateTrustedSonarWorkflowEnvelope (workflow_off c sh w) = validateTrustedSonarWorkflowEnvelope w" for w
    by (simp add: validateTrustedSonarWorkflowEnvelope_def)
  have s: "validateTrustedSonarCheckout (job_off c sh job) (switch_off c sh st) = validateTrustedSonarCheckout job st"
    "validateTrustedSonarProvenance (switch_off c sh st) = validateTrustedSonarProvenance st"
    "validateTrustedSonarReports (switch_off c sh st) (switch_off c sh st') = validateTrustedSonarReports st st'"
    "validateTrustedSonarConfiguration (switch_off c sh st) = validateTrustedSonarConfiguration st"
    "validateTrustedSonarMaterializer (switch_off c sh st) = validateTrustedSonarMaterializer st"
    "validateTrustedSonarScanner (switch_off c sh st) = validateTrustedSonarScanner st" for job st st'
    by (simp_all add: validateTrustedSonarCheckout_def validateTrustedSonarProvenance_def validateTrustedSonarReports_def
        validateTrustedSonarConfiguration_def validateTrustedSonarMaterializer_def validateTrustedSonarScanner_def)
  have "sonar_step_checks (workflow_off c sh w) (job_off c sh job) (steps_off c sh steps) = sonar_step_checks w job steps"
    for w job steps
    by (simp add: sonar_step_checks_def onlyScannerReceivesSonarToken_off steps_off_def s)
  then have "sonar_workflow (workflow_off c sh w) = sonar_workflow w" for w
    by (simp add: sonar_workflow_def e validateTrustedSonarJob_off parseTrustedSonarSteps_off split: option.split sum.split)
  then show ?thesis
    by (simp add: validateTrustedSonarCloudTopology_def with_required_off)
qed

lemma protected_policy_off: "protected_policy (workflow_off c sh w) = protected_policy w"
proof (cases "3 \<le> length (job_Steps (the_job w ''policy''))")
  case True
  then have "map (switch_off c sh) (job_Steps (the_job w ''policy'')) ! i = switch_off c sh (job_Steps (the_job w ''policy'') ! i)"
    if "i \<le> 2" for i
    using that by (intro nth_map) arith
  from this [of 0] this [of 2] show ?thesis by (simp add: protected_policy_def Let_def)
qed (simp add: protected_policy_def Let_def)

lemma topology_off: "validateRepositoryTopology sha256 (all_off c sh ws) = validateRepositoryTopology sha256 ws"
proof -
  have "validateProtectedPolicyTopology (all_off c sh ws) = validateProtectedPolicyTopology ws"
    by (simp add: validateProtectedPolicyTopology_def with_required_off protected_policy_off)
  moreover have "validateDebugBrokerTopology sha256 (all_off c sh ws) = validateDebugBrokerTopology sha256 ws"
    by (simp add: validateDebugBrokerTopology_def with_required_off cong: if_cong)
  moreover have "validateDebugBuilderTopology sha256 (all_off c sh ws) = validateDebugBuilderTopology sha256 ws"
    by (simp add: validateDebugBuilderTopology_def requiredWorkflow_def hasOnlyEffectiveDebugCaller_def
        resolve_root_events split: option.split)
  moreover have "validateDebugPublisherTopology sha256 (all_off c sh ws) = validateDebugPublisherTopology sha256 ws"
    by (simp add: validateDebugPublisherTopology_def with_required_off Let_def)
  moreover have "validateNonDebugRepositoryTopology (all_off c sh ws) = validateNonDebugRepositoryTopology ws"
    by (simp add: validateNonDebugRepositoryTopology_def validateReleaseTopology_def validateScorecardTopology_def
        with_required_off sonar_off comp_def case_prod_unfold)
  ultimately show ?thesis by (simp only: validateRepositoryTopology_def)
qed

text \<open>C30. the check does not look at a step's condition, at whether its failure is ignored, or at its shell: with every
  step of every workflow switched off, the validations and digests it insists on included, its verdict is the
  same.\<close>

theorem switched_off_steps_pass:
  "validate_workflows sha256 (all_off condition shell ws) = validate_workflows sha256 ws"
proof -
  have "all_off condition shell ws = [] \<longleftrightarrow> ws = []" by (simp add: all_off_def)
  moreover have "map (\<lambda>(_, w). validateWorkflow w) (all_off condition shell ws) = map (\<lambda>(_, w). validateWorkflow w) ws"
    by (simp add: all_off_def case_prod_unfold comp_def)
  moreover have "map (\<lambda>(p, w). validatePrivilegedFlow (all_off condition shell ws) w (events p)) (all_off condition shell ws) =
      map (\<lambda>(p, w). validatePrivilegedFlow ws w (events p)) ws" for events
  proof -
    have "map (\<lambda>(p, w). validatePrivilegedFlow W w (events p)) (all_off condition shell ws) =
      map (\<lambda>(p, w). validatePrivilegedFlow W (workflow_off condition shell w) (events p)) ws" for W
      by (simp add: all_off_def case_prod_unfold comp_def)
    then show ?thesis by simp
  qed
  ultimately show ?thesis
    by (simp only: validate_workflows_def topology_off resolve_root_events root_events_off)
qed

text \<open>No step but the scanner is given the token of the analysis.\<close>

theorem sonar_token_reaches_scanner_only:
  assumes "onlyScannerReceivesSonarToken w job scannerIndex" and "i < length (job_Steps job)" and "i \<noteq> scannerIndex"
  shows "\<not> Contains (step_Run (job_Steps job ! i)) sonarTokenName \<and>
    list_all (\<lambda>(_, v). \<not> Contains v sonarTokenName \<and> \<not> has_marker v) (step_With (job_Steps job ! i)) \<and>
    list_all (\<lambda>(_, v). \<not> Contains (scalarValue v) sonarTokenName \<and> \<not> has_marker (scalarValue v)) (step_Env (job_Steps job ! i))"
proof -
  have "scannerStepSecretScopeValid (job_Steps job ! i) i scannerIndex"
    using assms(1,2) by (force simp: onlyScannerReceivesSonarToken_def list_all_length nth_enumerate_eq)
  with assms(3) show ?thesis
    by (auto simp: scannerStepSecretScopeValid_def stepContainsForbiddenSonarReference_def list_all_iff list_ex_iff)
qed

theorem sonar_token_reaches_scanner_only_witness:
  "\<not> Contains (step_Run (job_Steps (one_job [run_step ''make'']) ! 0)) sonarTokenName \<and>
    list_all (\<lambda>(_, v). \<not> Contains v sonarTokenName \<and> \<not> has_marker v) (step_With (job_Steps (one_job [run_step ''make'']) ! 0)) \<and>
    list_all (\<lambda>(_, v). \<not> Contains (scalarValue v) sonarTokenName \<and> \<not> has_marker (scalarValue v))
      (step_Env (job_Steps (one_job [run_step ''make'']) ! 0))"
proof (rule sonar_token_reaches_scanner_only [of "one_job_workflow [] (one_job [run_step ''make''])" _ 6])
  show "onlyScannerReceivesSonarToken (one_job_workflow [] (one_job [run_step ''make''])) (one_job [run_step ''make'']) 6"
    by code_simp
qed (simp_all add: one_job_def)

text \<open>the steps of the finalizer are demanded by name and not by place: the provenance may be written before the
  binaries are validated.\<close>

theorem finalizer_validates_in_any_order:
  assumes "broker_finalize sha256 job" and steps: "job_Steps job = [a, b, c, d, e]"
    and "step_Name a = ''Revalidate immutable identity before finalization''"
    and "step_Name c = debugLayoutStepName" "step_Name d = debugProvenanceStepName"
  shows "broker_finalize sha256 (job\<lparr>job_Steps := [a, b, d, c, e]\<rparr>)"
proof -
  let ?job = "job\<lparr>job_Steps := [a, b, d, c, e]\<rparr>"
  from assms(1) have ex: "exactDebugFinalizerSteps sha256 job" by (simp add: broker_finalize_def)
  then have b: "step_Name b = ''Download only the run-specific intermediate artifact''"
    "actionUses (step_Uses b) downloadArtifactAction" and
    e: "step_Name e = ''Upload immutable final debug build artifact''"
    by (simp_all add: exactDebugFinalizerSteps_def steps nth_Cons')
  note n = assms(3-5) b(1) e debugLayoutStepName_def debugProvenanceStepName_def
  have digest: "stepDigestMatches sha256 ?job name fld x = stepDigestMatches sha256 job name fld x" for name fld x
    by (auto simp: stepDigestMatches_def steps n)
  have "exactDebugFinalizerSteps sha256 ?job"
    using ex unfolding exactDebugFinalizerSteps_def digest by (simp add: steps nth_Cons')
  moreover have "in_order (githubScriptIndexContaining ?job ''github.rest.pulls.get'') (actionIndex ?job downloadArtifactAction)"
    using assms(1) b(2)
    by (auto simp: broker_finalize_def in_order_def githubScriptIndexContaining_def actionIndex_def steps split: if_splits)
  moreover have "isGithubHosted ?job = isGithubHosted job" "jobHasEnvironment ?job = jobHasEnvironment job"
    by (simp_all add: isGithubHosted_def jobHasEnvironment_def)
  moreover have "hasSecretReference ?job = hasSecretReference job" "hasCheckout ?job = hasCheckout job"
    by (auto simp: hasSecretReference_def hasCheckout_def checkoutStep_def steps)
  moreover have "stepWithContains ?job u k x = stepWithContains job u k x" "jobRunContains ?job m x = jobRunContains job m x"
    for u k m x
    by (auto simp: stepWithContains_def jobRunContains_def steps)
  moreover have "job_Needs ?job = job_Needs job" "job_Permissions ?job = job_Permissions job" by simp_all
  ultimately show ?thesis
    using assms(1) unfolding broker_finalize_def digest by (simp only: simp_thms)
qed

definition finalizer_digest :: "string \<Rightarrow> string" where
  "finalizer_digest s =
     (if s = ''github.rest.pulls.get'' then debugFinalizeValidateSHA256
      else if s = ''lstat().st_mode'' then debugArtifactLayoutSHA256 else debugProvenanceCreateSHA256)"

definition named_step :: "string \<Rightarrow> string \<Rightarrow> string assoc \<Rightarrow> string \<Rightarrow> GithubStep" where
  "named_step name uses args command =
     zero_step\<lparr>step_Name := name, step_Uses := uses, step_With := args, step_Run := command\<rparr>"

definition finalizer_steps :: "GithubStep list" where
  "finalizer_steps =
     [named_step ''Revalidate immutable identity before finalization'' githubScriptActionPrefix
        [(''script'', ''github.rest.pulls.get'')] [],
      named_step ''Download only the run-specific intermediate artifact'' downloadArtifactActionPrefix
        [(''name'', ''debug-build-intermediate-${{ github.run_id }}-${{ github.run_attempt }}'')] [],
      named_step debugLayoutStepName [] [] ''lstat().st_mode'',
      named_step debugProvenanceStepName [] [] ''finalized_by'',
      named_step ''Upload immutable final debug build artifact'' uploadArtifactActionPrefix
        [(''name'', ''debug-build-${{ github.run_id }}'')] []]"

definition finalizer_job :: GithubJob where
  "finalizer_job = (one_job finalizer_steps)\<lparr>job_Needs := [''authorize'', ''build''],
     job_Permissions := [(''actions'', ''read''), (''contents'', ''read''), (pullRequestsPermission, ''read'')]\<rparr>"

theorem finalizer_validates_in_any_order_witness:
  "broker_finalize finalizer_digest (finalizer_job\<lparr>job_Steps :=
     [finalizer_steps ! 0, finalizer_steps ! 1, finalizer_steps ! 3, finalizer_steps ! 2, finalizer_steps ! 4]\<rparr>)"
proof (rule finalizer_validates_in_any_order)
  show "broker_finalize finalizer_digest finalizer_job" by code_simp
qed (simp_all add: finalizer_job_def finalizer_steps_def named_step_def one_job_def zero_step_def)

text \<open>every job of the two release workflows that are accepted starts from the branch main, without credentials
  left behind, and then compares what it has with the revision that was validated.\<close>

theorem releases_start_from_main:
  assumes "validateReleaseTopology ws = None"
    and "map_of ws p = Some w" and "p = ''.github/workflows/release.yml'' \<or> p = ''.github/workflows/release_container.yml''"
    and "(jobID, job) \<in> set (jobs w)"
  shows "trustedWorkflowRun (job_If job) \<and>
    (\<exists>checkout verify rest. job_Steps job = checkout # verify # rest \<and> actionUses (step_Uses checkout) checkoutAction \<and>
       field (step_With checkout) ''ref'' = ''main'' \<and> field (step_With checkout) persistCredentialsField = ''false'' \<and>
       TrimSpace (step_Run verify) = ''test \"$(git rev-parse HEAD)\" = \"$VALIDATED_HEAD_SHA\"'' \<and>
       map_of (step_Env verify) ''VALIDATED_HEAD_SHA'' \<noteq> None)"
proof -
  have "first_error (map (release_job p) (jobs w)) = None"
    using assms(1-3)
    by (auto simp: validateReleaseTopology_def with_required_def requiredWorkflow_def simp del: first_error_None
        simp add: first_error_None [of "[_, _]"])
  then have "release_job p (jobID, job) = None" using assms(4) by auto
  then have "trustedWorkflowRun (job_If job)" "hasVerifiedStaticMainCheckout job"
    by (auto simp: release_job_def split: if_splits)
  moreover have "field_value m k \<noteq> NilValue" if "scalarValue (field_value m k) = c # cs" for m k c cs
    using that by (auto simp: scalarValue_def)
  ultimately show ?thesis
    by (auto simp: hasVerifiedStaticMainCheckout_def get_or_def scalarValue_def split: list.splits option.splits)
qed

definition verified_job :: GithubJob where
  "verified_job = (one_job
     [checkout_of [(''ref'', ''main''), (persistCredentialsField, ''false'')],
      zero_step\<lparr>step_Name := ''Verify the validated workflow-run revision'',
        step_Env := [(''VALIDATED_HEAD_SHA'', Text ''${{ github.event.workflow_run.head_sha }}'')],
        step_Run := ''test \"$(git rev-parse HEAD)\" = \"$VALIDATED_HEAD_SHA\"''\<rparr>])\<lparr>job_If := trusted_condition\<rparr>"

definition release_workflows :: workflows where
  "release_workflows =
     [(''.github/workflows/release.yml'', one_job_workflow [''workflow_run''] verified_job),
      (''.github/workflows/release_container.yml'', one_job_workflow [''workflow_run''] verified_job)]"

theorem releases_start_from_main_witness:
  "trustedWorkflowRun (job_If verified_job) \<and>
    (\<exists>checkout verify rest. job_Steps verified_job = checkout # verify # rest \<and> actionUses (step_Uses checkout) checkoutAction \<and>
       field (step_With checkout) ''ref'' = ''main'' \<and> field (step_With checkout) persistCredentialsField = ''false'' \<and>
       TrimSpace (step_Run verify) = ''test \"$(git rev-parse HEAD)\" = \"$VALIDATED_HEAD_SHA\"'' \<and>
       map_of (step_Env verify) ''VALIDATED_HEAD_SHA'' \<noteq> None)"
proof (rule releases_start_from_main)
  show "validateReleaseTopology release_workflows = None" by code_simp
  show "map_of release_workflows ''.github/workflows/release.yml'' = Some (one_job_workflow [''workflow_run''] verified_job)"
    by (simp add: release_workflows_def)
  show "(''j'', verified_job) \<in> set (jobs (one_job_workflow [''workflow_run''] verified_job))"
    by (simp add: one_job_workflow_def of_definition_def om_values_def)
qed simp

end
