(* ===== verification/GoUtf8.thy ===== *)
theory GoUtf8
  imports GoStrings
begin

text \<open>Package \<open>unicode/utf8\<close>: a text is bytes, a byte that does not start a rune is a rune by itself.\<close>

definition continues :: "char \<Rightarrow> bool" where
  "continues c \<longleftrightarrow> 128 \<le> byte c \<and> byte c \<le> 191"

text \<open>The second byte: no overlong form, no surrogate, nothing above U+10FFFF.\<close>

definition second_byte :: "char \<Rightarrow> char \<Rightarrow> bool" where
  "second_byte a b \<longleftrightarrow>
     (if byte a = 224 then 160 \<le> byte b \<and> byte b \<le> 191
      else if byte a = 237 then 128 \<le> byte b \<and> byte b \<le> 159
      else if byte a = 240 then 144 \<le> byte b \<and> byte b \<le> 191
      else if byte a = 244 then 128 \<le> byte b \<and> byte b \<le> 143
      else continues b)"

text \<open>The width of the rune a text starts with; 0 when there is none.\<close>

fun rune_width :: "string \<Rightarrow> nat" where
  "rune_width [] = 0"
| "rune_width (a # s) =
     (if byte a < 128 then 1
      else if 194 \<le> byte a \<and> byte a \<le> 223 then (case s of b # _ \<Rightarrow> if continues b then 2 else 0 | [] \<Rightarrow> 0)
      else if 224 \<le> byte a \<and> byte a \<le> 239
      then (case s of b # c # _ \<Rightarrow> if second_byte a b \<and> continues c then 3 else 0 | _ \<Rightarrow> 0)
      else if 240 \<le> byte a \<and> byte a \<le> 244
      then (case s of b # c # d # _ \<Rightarrow> if second_byte a b \<and> continues c \<and> continues d then 4 else 0 | _ \<Rightarrow> 0)
      else 0)"

function runes :: "string \<Rightarrow> string list" where
  "runes [] = []"
| "runes (c # cs) = (let w = max 1 (rune_width (c # cs)) in take w (c # cs) # runes (drop w (c # cs)))"
  by pat_completeness auto
termination by (relation "measure length") (auto simp: Let_def)

declare runes.simps(2) [simp del]

definition ValidString :: "string \<Rightarrow> bool" where
  "ValidString s = list_all (\<lambda>r. rune_width r \<noteq> 0) (runes s)"

text \<open>\<open>unicode.IsControl\<close>: U+0000 to U+001F and U+007F to U+009F.\<close>

definition IsControl :: "string \<Rightarrow> bool" where
  "IsControl r =
     (case r of
        [c] \<Rightarrow> byte c < 32 \<or> byte c = 127
      | [a, b] \<Rightarrow> byte a = 194 \<and> 128 \<le> byte b \<and> byte b \<le> 159
      | _ \<Rightarrow> False)"

lemma runes_ascii: "list_all (\<lambda>c. byte c < 128) s \<Longrightarrow> runes s = map (\<lambda>c. [c]) s"
  by (induction s) (simp_all add: runes.simps(2))

lemma concat_runes: "concat (runes s) = s"
  by (induction s rule: runes.induct) (simp_all add: runes.simps(2) Let_def del: rune_width.simps)

end
