(* ===== verification/GenCI.thy ===== *)
theory GenCI
  imports Flattening GithubSchema GoUtf8 Definitions "HOL-Library.Multiset"
begin

text \<open>
  \<open>internal/genci\<close>: a pipeline is denormalized and turned into a workflow of a CI system. The orders in
  which Go ranges over maps, the sorting of more than twelve stages, and YAML are parameters.
\<close>

section \<open>Sorting\<close>

text \<open>\<open>sort.Sort\<close> of up to twelve elements is an insertion sort: an element moves to the front as long as it is
  less than the one before it. (The sorted part is kept in reverse.)\<close>

fun sift :: "('a \<Rightarrow> 'a \<Rightarrow> bool) \<Rightarrow> 'a \<Rightarrow> 'a list \<Rightarrow> 'a list" where
  "sift lt x [] = [x]"
| "sift lt x (y # ys) = (if lt x y then y # sift lt x ys else x # y # ys)"

definition insertionSort :: "('a \<Rightarrow> 'a \<Rightarrow> bool) \<Rightarrow> 'a list \<Rightarrow> 'a list" where
  "insertionSort lt xs = rev (foldl (\<lambda>sorted x. sift lt x sorted) [] xs)"

text \<open>What the generator depends on. Decoding the metadata is a marshalling to YAML and back.\<close>

record gen_io =
  gen_denorm :: denorm_params
  gen_pairs :: "(string \<rightharpoonup> gval) \<Rightarrow> (string \<times> gval) list"
  gen_sort :: "Stage list \<Rightarrow> Stage list"
  gen_job_meta :: "gval \<Rightarrow> string + GithubJob"
  gen_step_meta :: "gval \<Rightarrow> string + GithubStep"
  gen_workflow_meta :: "gval \<Rightarrow> string + GithubWorkflow"
  gen_encode :: "GithubWorkflow \<Rightarrow> string + string"

definition sort_stages :: "gen_io \<Rightarrow> Stage list \<Rightarrow> Stage list" where
  "sort_stages io xs = (if length xs \<le> 12 then insertionSort Less xs else gen_sort io xs)"

section \<open>Names and environments\<close>

text \<open>The regular expression replaces runes.\<close>

definition gha_char :: "char \<Rightarrow> bool" where
  "gha_char c \<longleftrightarrow> is_upper c \<or> is_lower c \<or> is_digit c \<or> c = CHR ''-'' \<or> c = CHR ''_''"

definition ghaNameConverter :: "string \<Rightarrow> string" where
  "ghaNameConverter str =
     concat (map (\<lambda>r. if length r = 1 \<and> gha_char (hd r) then r else ''_'') (runes str))"

definition value_scalar :: "gval \<Rightarrow> scalar" where
  "value_scalar v = (case v of GNil \<Rightarrow> NilValue | GStr s \<Rightarrow> Text s | _ \<Rightarrow> Printed (fmt_v v))"

definition env_map :: "gen_io \<Rightarrow> variables \<Rightarrow> scalar assoc" where
  "env_map io v = map (\<lambda>(k, x). (k, value_scalar x)) (gen_pairs io (VarsMap v))"

definition meta_env :: "scalar assoc \<Rightarrow> variables" where
  "meta_env env = FromMap (map_of (map (\<lambda>(k, v). (k, v_any v)) env))"

section \<open>Metadata\<close>

datatype gen_error =
    GenNil
  | GenFuel
  | GenDenormalize denorm_error
  | GenNotExist string
  | ErrInvalidCiMeta
  | GenParse
  | GenMeta string string
  | GenEncode string

definition GitHubCITarget :: string where "GitHubCITarget = ''github''"
definition BitbucketCITarget :: string where "BitbucketCITarget = ''bitbucket''"

text \<open>Without metadata for the target the zero value of the type is returned.\<close>

definition extractGeneratorMetadata :: "(gval \<Rightarrow> string + 't) \<Rightarrow> 't \<Rightarrow> string \<Rightarrow> (string \<rightharpoonup> gval) \<Rightarrow> string + 't" where
  "extractGeneratorMetadata decode zero target generatorMeta =
     (case generatorMeta target of None \<Rightarrow> Inr zero | Some g \<Rightarrow> decode g)"

section \<open>Jobs and steps\<close>

definition add_step :: "GithubStep \<Rightarrow> GithubJob \<Rightarrow> GithubJob" where
  "add_step st job = (case AddStep (Some st) job of Inl _ \<Rightarrow> job | Inr j \<Rightarrow> j)"

definition checkout_step :: GithubStep where
  "checkout_step = zero_step\<lparr>step_Uses := ''actions/checkout@v5''\<rparr>"

definition install_step :: GithubStep where
  "install_step = zero_step\<lparr>step_Name := ''Install eirctl'', step_ID := ''install-eirctl'', step_Shell := ''bash'',
     step_Run := Join
       [''rm -rf /tmp/eirctl-linux-amd64-v1.8.0-alpha-aaaabbbb1234'',
        ''wget https://github.com/Ensono/eirctl/releases/download/v1.8.0-alpha-aaaabbbb1234/eirctl-linux-amd64'' @
          '' -O /tmp/eirctl-linux-amd64-v1.8.0-alpha-aaaabbbb1234'',
        ''cp /tmp/eirctl-linux-amd64-v1.8.0-alpha-aaaabbbb1234 /usr/local/bin/eirctl'',
        ''chmod u+x /usr/local/bin/eirctl''] [CHR 0x0A]\<rparr>"

definition addDefaultStepsToJob :: "GithubJob \<Rightarrow> GithubJob" where
  "addDefaultStepsToJob job = add_step install_step (add_step checkout_step job)"

text \<open>An error of the step's metadata is ignored.\<close>

definition convertTaskToStep :: "gen_io \<Rightarrow> heap \<Rightarrow> Stage \<Rightarrow> ref \<Rightarrow> GithubStep" where
  "convertTaskToStep io h node t =
     (let own = Merge (sEnv node) (tEnv (hTasks h t));
          step = zero_step\<lparr>step_Name := ghaNameConverter (sName node), step_ID := ghaNameConverter (sName node),
            step_Run := ''eirctl run task '' @ TailExtract (tName (hTasks h t)), step_Env := env_map io own\<rparr> in
      case extractGeneratorMetadata (gen_step_meta io) zero_step GitHubCITarget (sGenerator node) of
        Inl _ \<Rightarrow> step
      | Inr gh \<Rightarrow>
          (let step = (if step_If gh \<noteq> [] then step\<lparr>step_If := step_If gh\<rparr> else step) in
           if step_Env gh \<noteq> [] then step\<lparr>step_Env := env_map io (Merge own (meta_env (step_Env gh)))\<rparr> else step))"

definition nodes_sorted :: "gen_io \<Rightarrow> heap \<Rightarrow> ref \<Rightarrow> gen_error + Stage list" where
  "nodes_sorted io h g =
     (let ns = BFSNodesFlattened (hGraphs h g) RootNodeName in
      if None \<in> set ns then Inl GenNil else Inr (sort_stages io (map (\<lambda>r. hStages h (the r)) ns)))"

text \<open>The recursion follows the nesting of the pipelines; the number bounds its depth.\<close>

fun flattenTasksInPipeline :: "gen_io \<Rightarrow> nat \<Rightarrow> heap \<Rightarrow> ref \<Rightarrow> GithubJob \<Rightarrow> gen_error + GithubJob" where
  "flattenTasksInPipeline io 0 h g job = Inl GenFuel"
| "flattenTasksInPipeline io (Suc k) h g job =
     bind_res (nodes_sorted io h g) (\<lambda>nodes.
       fold_res (\<lambda>node job.
         bind_res (case sPipeline node of None \<Rightarrow> Inr job | Some q \<Rightarrow> flattenTasksInPipeline io k h q job) (\<lambda>job.
         Inr (case sTask node of None \<Rightarrow> job | Some t \<Rightarrow> add_step (convertTaskToStep io h node t) job)))
       nodes job)"

definition addStepsToTopLevelJob :: "gen_io \<Rightarrow> nat \<Rightarrow> heap \<Rightarrow> Stage \<Rightarrow> GithubJob \<Rightarrow> gen_error + GithubJob" where
  "addStepsToTopLevelJob io k h node job =
     bind_res (case sPipeline node of None \<Rightarrow> Inr job | Some q \<Rightarrow> flattenTasksInPipeline io k h q job) (\<lambda>job.
     let job = (case sTask node of None \<Rightarrow> job | Some t \<Rightarrow> add_step (convertTaskToStep io h node t) job) in
     Inr (job\<lparr>job_Needs := job_Needs job @ map (\<lambda>v. ghaNameConverter (TailExtract v)) (sDependsOn node)\<rparr>))"

definition addMetaToJob :: "gen_io \<Rightarrow> Stage \<Rightarrow> GithubJob \<Rightarrow> gen_error + GithubJob" where
  "addMetaToJob io node job =
     (case extractGeneratorMetadata (gen_job_meta io) (zero_job []) GitHubCITarget (sGenerator node) of
        Inl e \<Rightarrow> Inl (GenMeta (sName node) e)
      | Inr gh \<Rightarrow>
          let job = (if job_If gh \<noteq> [] then job\<lparr>job_If := job_If gh\<rparr> else job);
              job = (if job_Environment gh \<noteq> [] then job\<lparr>job_Environment := job_Environment gh\<rparr> else job);
              job = (if job_RunsOn gh \<noteq> [] then job\<lparr>job_RunsOn := job_RunsOn gh\<rparr> else job) in
          Inr (if job_Env gh \<noteq> [] then job\<lparr>job_Env := env_map io (Merge (sEnv node) (meta_env (job_Env gh)))\<rparr> else job))"

definition job_key :: "Stage \<Rightarrow> string" where
  "job_key node = ghaNameConverter (TailExtract (sName node))"

definition build_job :: "gen_io \<Rightarrow> nat \<Rightarrow> heap \<Rightarrow> Stage \<Rightarrow> gen_error + GithubJob" where
  "build_job io k h node =
     bind_res (addStepsToTopLevelJob io k h node (addDefaultStepsToJob
       ((zero_job [])\<lparr>job_Name := job_key node, job_RunsOn := [''ubuntu-24.04''], job_Env := env_map io (sEnv node)\<rparr>)))
     (addMetaToJob io node)"

definition add_job :: "gen_io \<Rightarrow> nat \<Rightarrow> heap \<Rightarrow> Stage \<Rightarrow> OrderedMap \<Rightarrow> gen_error + OrderedMap" where
  "add_job io k h node om =
     bind_res (build_job io k h node) (\<lambda>job.
       case OrderedMap_Add (job_key node) job om of None \<Rightarrow> Inl GenNil | Some om' \<Rightarrow> Inr om')"

definition jobBuilder :: "gen_io \<Rightarrow> nat \<Rightarrow> heap \<Rightarrow> ref \<Rightarrow> GithubWorkflow \<Rightarrow> gen_error + GithubWorkflow" where
  "jobBuilder io k h g ciyaml =
     bind_res (nodes_sorted io h g) (\<lambda>nodes.
     bind_res (fold_res (add_job io k h) nodes (Jobs ciyaml)) (\<lambda>om. Inr (ciyaml\<lparr>Jobs := om\<rparr>)))"

section \<open>Conversion\<close>

record githubCiImpl =
  eirctlVersion :: string
  impl_generate :: "Generator option"

definition newGithubCiImpl :: "Generator option \<Rightarrow> githubCiImpl" where
  "newGithubCiImpl generate =
     \<lparr>eirctlVersion = (case generate of None \<Rightarrow> ''v2.0.0'' | Some g \<Rightarrow> if gnVersion g \<noteq> [] then gnVersion g else ''v2.0.0''),
      impl_generate = generate\<rparr>"

text \<open>The workflow that is encoded, from the denormalized pipeline.\<close>

definition workflow_of :: "gen_io \<Rightarrow> nat \<Rightarrow> githubCiImpl \<Rightarrow> heap \<Rightarrow> ref \<Rightarrow> gen_error + GithubWorkflow" where
  "workflow_of io k impl h dp =
     (case impl_generate impl of
        None \<Rightarrow> Inl ErrInvalidCiMeta
      | Some gen \<Rightarrow>
          (case extractGeneratorMetadata (gen_workflow_meta io) zero_workflow GitHubCITarget (gnTargetOptions gen) of
             Inl _ \<Rightarrow> Inl GenParse
           | Inr gh \<Rightarrow>
               if On gh = None then Inl ErrInvalidCiMeta
               else jobBuilder io k h dp
                 (zero_workflow\<lparr>wf_Name := gName (hGraphs h dp), Jobs := NewOrderedMap, On := On gh, wf_Env := wf_Env gh\<rparr>)))"

definition github_Convert :: "gen_io \<Rightarrow> nat \<Rightarrow> nat \<Rightarrow> nat \<Rightarrow> githubCiImpl \<Rightarrow> ref \<Rightarrow> heap \<Rightarrow> (gen_error + string) \<times> heap" where
  "github_Convert io n m k impl pipeline h =
     (case Denormalize (gen_denorm io) n m pipeline h of
        (Inl e, h') \<Rightarrow> (Inl (GenDenormalize e), h')
      | (Inr dp, h') \<Rightarrow>
          (bind_res (workflow_of io k impl h' dp) (\<lambda>w.
             case gen_encode io w of Inl e \<Rightarrow> Inl (GenEncode e) | Inr s \<Rightarrow> Inr s), h'))"

text \<open>The strategies: GitHub, and Bitbucket, which generates nothing.\<close>

datatype GenCi = GithubImpl githubCiImpl | BitbucketImpl

definition bitbucket_Convert :: "ref \<Rightarrow> heap \<Rightarrow> (gen_error + string) \<times> heap" where
  "bitbucket_Convert pipeline h = (Inr [], h)"

definition GenCi_New :: "string \<Rightarrow> Generator option \<Rightarrow> gen_error + GenCi" where
  "GenCi_New implTyp generate =
     (if implTyp = GitHubCITarget then Inr (GithubImpl (newGithubCiImpl generate))
      else if implTyp = BitbucketCITarget then Inr BitbucketImpl
      else Inl (GenNotExist implTyp))"

definition GenCi_Convert :: "gen_io \<Rightarrow> nat \<Rightarrow> nat \<Rightarrow> nat \<Rightarrow> GenCi \<Rightarrow> ref \<Rightarrow> heap \<Rightarrow> (gen_error + string) \<times> heap" where
  "GenCi_Convert io n m k g pipeline h =
     (case g of GithubImpl impl \<Rightarrow> github_Convert io n m k impl pipeline h | BitbucketImpl \<Rightarrow> bitbucket_Convert pipeline h)"

section \<open>Properties\<close>

lemma mset_sift [simp]: "mset (sift lt x ys) = add_mset x (mset ys)"
  by (induction ys) auto

lemma mset_insertionSort [simp]: "mset (insertionSort lt xs) = mset xs"
proof -
  have "mset (foldl (\<lambda>sorted x. sift lt x sorted) acc xs) = mset acc + mset xs" for acc
    by (induction xs arbitrary: acc) auto
  then show ?thesis by (simp add: insertionSort_def)
qed

definition sorts :: "gen_io \<Rightarrow> bool" where
  "sorts io \<longleftrightarrow> (\<forall>xs. mset (gen_sort io xs) = mset xs)"

lemma mset_sort_stages: "sorts io \<Longrightarrow> mset (sort_stages io xs) = mset xs"
  by (simp add: sort_stages_def sorts_def)

lemma add_step_Steps [simp]: "job_Steps (add_step st job) = job_Steps job @ [st]"
  by (simp add: add_step_def AddStep_def)

subsection \<open>Every task is one step\<close>

text \<open>The tasks of a pipeline and of the pipelines nested in it, each with its stage.\<close>

definition listed_stages :: "heap \<Rightarrow> ref \<Rightarrow> Stage list" where
  "listed_stages h g = map (hStages h) (List.map_filter id (BFSNodesFlattened (hGraphs h g) RootNodeName))"

fun task_stages :: "nat \<Rightarrow> heap \<Rightarrow> ref \<Rightarrow> (Stage \<times> ref) multiset" where
  "task_stages 0 h g = {#}"
| "task_stages (Suc k) h g =
     (\<Sum>node \<in># mset (listed_stages h g).
        (case sPipeline node of None \<Rightarrow> {#} | Some q \<Rightarrow> task_stages k h q) +
        (case sTask node of None \<Rightarrow> {#} | Some t \<Rightarrow> {#(node, t)#}))"

lemma nodes_sorted_mset:
  "sorts io \<Longrightarrow> nodes_sorted io h g = Inr nodes \<Longrightarrow> mset nodes = mset (listed_stages h g)"
proof -
  have "None \<notin> set ns \<Longrightarrow> List.map_filter id ns = map the ns" for ns :: "ref option list"
  proof (induction ns)
    case (Cons a ns)
    then show ?case by (cases a) (simp_all add: List.map_filter_simps)
  qed (simp add: List.map_filter_simps)
  then show "sorts io \<Longrightarrow> nodes_sorted io h g = Inr nodes \<Longrightarrow> mset nodes = mset (listed_stages h g)"
    by (auto simp: nodes_sorted_def Let_def mset_sort_stages listed_stages_def multiset.map_comp comp_def split: if_splits)
qed

definition steps_for :: "gen_io \<Rightarrow> heap \<Rightarrow> (Stage \<times> ref) multiset \<Rightarrow> GithubStep multiset" where
  "steps_for io h M = image_mset (\<lambda>(node, t). convertTaskToStep io h node t) M"

lemma steps_for_simps [simp]:
  "steps_for io h {#} = {#}" "steps_for io h (M + N) = steps_for io h M + steps_for io h N"
  "steps_for io h (add_mset (node, t) M) = add_mset (convertTaskToStep io h node t) (steps_for io h M)"
  by (simp_all add: steps_for_def)

lemma fold_steps:
  assumes "fold_res f nodes job = Inr job'"
    and "\<And>node job job'. node \<in> set nodes \<Longrightarrow> f node job = Inr job' \<Longrightarrow>
      \<exists>new. job_Steps job' = job_Steps job @ new \<and> mset new = F node"
  shows "\<exists>new. job_Steps job' = job_Steps job @ new \<and> mset new = (\<Sum>node \<in># mset nodes. F node)"
  using assms
proof (induction nodes arbitrary: job)
  case Nil
  then show ?case by simp
next
  case (Cons node nodes)
  then obtain job1 where j: "f node job = Inr job1" "fold_res f nodes job1 = Inr job'"
    by (auto simp: bind_res_Inr_iff)
  from Cons.prems(2) [OF _ j(1)] obtain n1 where "job_Steps job1 = job_Steps job @ n1" "mset n1 = F node" by auto
  moreover from Cons.IH [OF j(2)] Cons.prems(2) obtain n2 where
    "job_Steps job' = job_Steps job1 @ n2" "mset n2 = (\<Sum>node \<in># mset nodes. F node)" by auto
  ultimately show ?case by (intro exI [of _ "n1 @ n2"]) simp
qed

lemma flatten_steps:
  assumes "sorts io"
  shows "flattenTasksInPipeline io k h g job = Inr job' \<Longrightarrow>
    \<exists>new. job_Steps job' = job_Steps job @ new \<and> mset new = steps_for io h (task_stages k h g)"
proof (induction k arbitrary: g job job')
  case 0
  then show ?case by simp
next
  case (Suc k)
  let ?F = "\<lambda>node. (case sPipeline node of None \<Rightarrow> {#} | Some q \<Rightarrow> steps_for io h (task_stages k h q)) +
        (case sTask node of None \<Rightarrow> {#} | Some t \<Rightarrow> {#convertTaskToStep io h node t#})"
  from Suc.prems obtain nodes where n: "nodes_sorted io h g = Inr nodes" and
    f: "fold_res (\<lambda>node job.
         bind_res (case sPipeline node of None \<Rightarrow> Inr job | Some q \<Rightarrow> flattenTasksInPipeline io k h q job) (\<lambda>job.
         Inr (case sTask node of None \<Rightarrow> job | Some t \<Rightarrow> add_step (convertTaskToStep io h node t) job))) nodes job = Inr job'"
    by (auto simp: bind_res_Inr_iff)
  from f have "\<exists>new. job_Steps job' = job_Steps job @ new \<and> mset new = (\<Sum>node \<in># mset nodes. ?F node)"
  proof (rule fold_steps)
    fix node job job'
    assume "bind_res (case sPipeline node of None \<Rightarrow> Inr job | Some q \<Rightarrow> flattenTasksInPipeline io k h q job) (\<lambda>job.
         Inr (case sTask node of None \<Rightarrow> job | Some t \<Rightarrow> add_step (convertTaskToStep io h node t) job)) = Inr job'"
    then obtain u where u: "(case sPipeline node of None \<Rightarrow> Inr job | Some q \<Rightarrow> flattenTasksInPipeline io k h q job) = Inr u"
      and job': "job' = (case sTask node of None \<Rightarrow> u | Some t \<Rightarrow> add_step (convertTaskToStep io h node t) u)"
      by (auto simp: bind_res_Inr_iff)
    from u have "\<exists>new. job_Steps u = job_Steps job @ new \<and>
        mset new = (case sPipeline node of None \<Rightarrow> {#} | Some q \<Rightarrow> steps_for io h (task_stages k h q))"
      by (cases "sPipeline node") (auto dest: Suc.IH)
    then show "\<exists>new. job_Steps job' = job_Steps job @ new \<and> mset new = ?F node"
      by (cases "sTask node") (auto simp: job')
  qed
  moreover have "(\<Sum>node \<in># mset nodes. ?F node) = steps_for io h (task_stages (Suc k) h g)"
  proof -
    have "steps_for io h (\<Sum>node \<in># M. G node) = (\<Sum>node \<in># M. steps_for io h (G node))" for M :: "Stage multiset" and G
      by (induction M) auto
    moreover have "steps_for io h ((case sPipeline node of None \<Rightarrow> {#} | Some q \<Rightarrow> task_stages k h q) +
        (case sTask node of None \<Rightarrow> {#} | Some t \<Rightarrow> {#(node, t)#})) = ?F node" for node
      by (cases "sPipeline node"; cases "sTask node") simp_all
    ultimately show ?thesis
      by (simp only: task_stages.simps nodes_sorted_mset [OF assms n])
  qed
  ultimately show ?case by simp
qed

text \<open>C32. the job of a stage that runs a pipeline gets, behind the checkout and the installation, exactly one step for
  each task of the pipeline and of the pipelines nested in it.\<close>

theorem one_step_for_each_task:
  assumes "\<forall>xs. mset (gen_sort io xs) = mset xs"
    and "build_job io k h node = Inr job" and "sPipeline node = Some q" and "sTask node = None"
  shows "\<exists>steps. job_Steps job = checkout_step # install_step # steps \<and>
    mset steps = image_mset (\<lambda>(n, t). convertTaskToStep io h n t) (task_stages k h q)"
proof -
  let ?start = "addDefaultStepsToJob ((zero_job [])\<lparr>job_Name := job_key node, job_RunsOn := [''ubuntu-24.04''],
    job_Env := env_map io (sEnv node)\<rparr>)"
  from assms(2) obtain j1 where j1: "addStepsToTopLevelJob io k h node ?start = Inr j1" and
    j: "addMetaToJob io node j1 = Inr job"
    by (auto simp: build_job_def bind_res_Inr_iff)
  from j have s: "job_Steps job = job_Steps j1"
    by (auto simp: addMetaToJob_def Let_def split: sum.splits)
  from j1 assms(3,4) obtain j2 where j2: "flattenTasksInPipeline io k h q ?start = Inr j2" "job_Steps j1 = job_Steps j2"
    by (auto simp: addStepsToTopLevelJob_def bind_res_Inr_iff Let_def)
  have "sorts io" using assms(1) by (simp add: sorts_def)
  from flatten_steps [OF this j2(1)] show ?thesis
    by (auto simp: s j2(2) steps_for_def addDefaultStepsToJob_def zero_job_def)
qed

text \<open>A pipeline of two stages, the second with a nested pipeline.\<close>

definition gen_demo :: gen_io where
  "gen_demo = \<lparr>gen_denorm = in_order True, gen_pairs = \<lambda>m. [], gen_sort = id, gen_job_meta = \<lambda>_. Inr (zero_job []),
     gen_step_meta = \<lambda>_. Inr zero_step, gen_workflow_meta = \<lambda>_. Inr (zero_workflow\<lparr>On := Some (zero_events [''push''])\<rparr>),
     gen_encode = \<lambda>_. Inr []\<rparr>"

theorem one_step_for_each_task_witness:
  "\<exists>job steps. build_job gen_demo 2 nested_heap (node_of ''y'' None (Some 3)) = Inr job \<and>
    job_Steps job = checkout_step # install_step # steps \<and>
    mset steps = image_mset (\<lambda>(n, t). convertTaskToStep gen_demo nested_heap n t) (task_stages 2 nested_heap 3) \<and>
    length steps = 1"
proof -
  have b: "BFSNodesFlattened (hGraphs nested_heap 3) RootNodeName = [Some 15]"
    by code_simp
  then have n: "nodes_sorted gen_demo nested_heap 3 = Inr [node_of ''z'' (Some 20) None]"
    by (simp add: nodes_sorted_def sort_stages_def insertionSort_def nested_heap_def)
  obtain job where job: "build_job gen_demo 2 nested_heap (node_of ''y'' None (Some 3)) = Inr job"
    by (simp add: build_job_def addStepsToTopLevelJob_def numeral_2_eq_2 n node_of_def NewStage_def addMetaToJob_def
        extractGeneratorMetadata_def Let_def)
  have "\<exists>steps. job_Steps job = checkout_step # install_step # steps \<and>
    mset steps = image_mset (\<lambda>(n, t). convertTaskToStep gen_demo nested_heap n t) (task_stages 2 nested_heap 3)"
    by (rule one_step_for_each_task [OF _ job]) (simp_all add: gen_demo_def node_of_def NewStage_def)
  moreover have "size (task_stages 2 nested_heap 3) = 1"
    using b by (simp add: numeral_2_eq_2 listed_stages_def List.map_filter_simps nested_heap_def node_of_def NewStage_def)
  ultimately show ?thesis using job by (metis size_image_mset size_mset)
qed

subsection \<open>Jobs\<close>

lemma addMetaToJob_keeps: "addMetaToJob io node job = Inr job' \<Longrightarrow> job_Needs job' = job_Needs job"
  by (auto simp: addMetaToJob_def Let_def split: sum.splits)

lemma add_step_Needs [simp]: "job_Needs (add_step st job) = job_Needs job"
  by (simp add: add_step_def AddStep_def)

lemma fold_needs:
  assumes "fold_res f nodes job = Inr job'"
    and "\<And>node job job'. f node job = Inr job' \<Longrightarrow> job_Needs job' = job_Needs job"
  shows "job_Needs job' = job_Needs job"
  using assms(1) by (rule fold_res_inv [where P = "\<lambda>j. job_Needs j = job_Needs job"]) (simp_all add: assms(2))

lemma flatten_needs: "flattenTasksInPipeline io k h g job = Inr job' \<Longrightarrow> job_Needs job' = job_Needs job"
proof (induction k arbitrary: g job job')
  case (Suc k)
  from Suc.prems obtain nodes where
    "fold_res (\<lambda>node job.
         bind_res (case sPipeline node of None \<Rightarrow> Inr job | Some q \<Rightarrow> flattenTasksInPipeline io k h q job) (\<lambda>job.
         Inr (case sTask node of None \<Rightarrow> job | Some t \<Rightarrow> add_step (convertTaskToStep io h node t) job))) nodes job = Inr job'"
    by (auto simp: bind_res_Inr_iff)
  then show ?case
  proof (rule fold_needs)
    fix node job job'
    assume "bind_res (case sPipeline node of None \<Rightarrow> Inr job | Some q \<Rightarrow> flattenTasksInPipeline io k h q job) (\<lambda>job.
         Inr (case sTask node of None \<Rightarrow> job | Some t \<Rightarrow> add_step (convertTaskToStep io h node t) job)) = Inr job'"
    then obtain u where "(case sPipeline node of None \<Rightarrow> Inr job | Some q \<Rightarrow> flattenTasksInPipeline io k h q job) = Inr u"
      and "job' = (case sTask node of None \<Rightarrow> u | Some t \<Rightarrow> add_step (convertTaskToStep io h node t) u)"
      by (auto simp: bind_res_Inr_iff)
    then show "job_Needs job' = job_Needs job"
      by (cases "sPipeline node"; cases "sTask node") (auto dest: Suc.IH)
  qed
qed simp

lemma build_job_needs:
  assumes "build_job io k h node = Inr job"
  shows "job_Needs job = map (\<lambda>v. ghaNameConverter (TailExtract v)) (sDependsOn node)"
  using assms
  by (auto simp: build_job_def bind_res_Inr_iff addStepsToTopLevelJob_def Let_def addDefaultStepsToJob_def zero_job_def
      dest!: addMetaToJob_keeps flatten_needs split: option.splits)

lemma add_jobs:
  assumes "fold_res (add_job io k h) nodes om = Inr om'"
  shows "Keys om' = Keys om @ map job_key nodes \<and>
    (\<forall>key job. map_of (om_values om') key = Some job \<longrightarrow>
       (if key \<in> job_key ` set nodes
        then \<exists>xs node ys. nodes = xs @ node # ys \<and> job_key node = key \<and> key \<notin> job_key ` set ys \<and> build_job io k h node = Inr job
        else map_of (om_values om) key = Some job))"
  using assms
proof (induction nodes arbitrary: om)
  case Nil
  then show ?case by simp
next
  case (Cons node nodes)
  then obtain om1 where a: "add_job io k h node om = Inr om1" and f: "fold_res (add_job io k h) nodes om1 = Inr om'"
    by (auto simp: bind_res_Inr_iff)
  from a obtain job1 where 1: "build_job io k h node = Inr job1" "OrderedMap_Add (job_key node) job1 om = Some om1"
    by (auto simp: bind_res_Inr_iff add_job_def split: option.splits)
  from 1(2) have om1: "Keys om1 = Keys om @ [job_key node]" "map_of (om_values om1) = (map_of (om_values om))(job_key node \<mapsto> job1)"
    by (auto simp: OrderedMap_Add_def om_values_def split: option.splits)
  note IH = Cons.IH [OF f]
  show ?case
  proof (intro conjI allI impI)
    show "Keys om' = Keys om @ map job_key (node # nodes)" using IH om1(1) by simp
    fix key job
    assume v: "map_of (om_values om') key = Some job"
    show "if key \<in> job_key ` set (node # nodes)
        then \<exists>xs n ys. node # nodes = xs @ n # ys \<and> job_key n = key \<and> key \<notin> job_key ` set ys \<and> build_job io k h n = Inr job
        else map_of (om_values om) key = Some job"
    proof (cases "key \<in> job_key ` set nodes")
      case True
      with IH v obtain xs n ys where "nodes = xs @ n # ys" "job_key n = key" "key \<notin> job_key ` set ys" "build_job io k h n = Inr job"
        by (metis (mono_tags, lifting))
      with True show ?thesis
        by (simp, intro exI [of _ "node # xs"] exI [of _ n] exI [of _ ys]) simp
    next
      case False
      with IH v have "map_of (om_values om1) key = Some job" by simp
      with False om1(2) 1(1) show ?thesis
        by (auto intro!: exI [of _ "[]"] split: if_splits)
    qed
  qed
qed


text \<open>Two stages whose names differ only in a character that is not allowed in a job's name.\<close>

definition flat_heap :: "(Stage \<times> string list) list \<Rightarrow> heap" where
  "flat_heap stages = nested_heap\<lparr>
     hStages := (\<lambda>r. if 100 \<le> r \<and> r < 100 + length stages then fst (stages ! (r - 100)) else root_stage 30 ''m''),
     hGraphs := (\<lambda>_. (empty_graph 10 ''m'')\<lparr>
       gNodes := (map_of (zip (map (sName \<circ> fst) stages) [100..<100 + length stages]))(RootNodeName \<mapsto> 10),
       gChildren := (RootNodeName, map (sName \<circ> fst) (filter (\<lambda>s. sDependsOn (fst s) = []) stages))
         # map (\<lambda>(s, cs). (sName s, cs)) stages\<rparr>)\<rparr>"

definition task_node :: "string \<Rightarrow> string list \<Rightarrow> Stage" where
  "task_node name deps = NewStage 30 name [\<lambda>s. s\<lparr>sTask := Some 20, sDependsOn := deps\<rparr>]"

definition needing_heap :: heap where
  "needing_heap = flat_heap [(task_node ''a'' [], [''b'']), (task_node ''b'' [''a''], [])]"

lemma flat_heap_nodes:
  assumes "BFSNodesFlattened (hGraphs (flat_heap stages) g) RootNodeName = map (\<lambda>i. Some (100 + i)) is"
    and "\<forall>i \<in> set is. i < length stages"
  shows "nodes_sorted io (flat_heap stages) g = Inr (sort_stages io (map (\<lambda>i. fst (stages ! i)) is))"
  using assms by (auto simp: nodes_sorted_def Let_def flat_heap_def cong: map_cong)

lemma needing_nodes:
  "nodes_sorted gen_demo needing_heap 1 = Inr [task_node ''a'' [], task_node ''b'' [''a'']]"
proof -
  let ?stages = "[(task_node ''a'' [], [''b'']), (task_node ''b'' [''a''], [])]"
  have "BFSNodesFlattened (hGraphs (flat_heap ?stages) 1) RootNodeName = map (\<lambda>i. Some (100 + i)) [0, 1]" by code_simp
  from flat_heap_nodes [OF this, of gen_demo]
  have "nodes_sorted gen_demo (flat_heap ?stages) 1 = Inr (sort_stages gen_demo [task_node ''a'' [], task_node ''b'' [''a'']])"
    by simp
  moreover have "Less (task_node ''b'' [''a'']) (task_node ''a'' []) = False" by code_simp
  ultimately show ?thesis by (simp add: needing_heap_def sort_stages_def insertionSort_def)
qed


text \<open>two stages whose names differ only in characters that a job's name may not have become one job: its name is
  listed twice, and the job of the first is lost.\<close>

theorem colliding_job_lost:
  assumes "jobBuilder io k h g w = Inr w'" and "Jobs w = NewOrderedMap"
    and "nodes_sorted io h g = Inr (xs @ a # ys @ b # zs)" and "job_key a = job_key b" and "job_key b \<notin> job_key ` set zs"
  shows "\<not> distinct (Keys (Jobs w')) \<and>
    (\<forall>job. map_of (om_values (Jobs w')) (job_key a) = Some job \<longrightarrow> build_job io k h b = Inr job)"
proof -
  from assms(1,3) have f: "fold_res (add_job io k h) (xs @ a # ys @ b # zs) NewOrderedMap = Inr (Jobs w')"
    using assms(2) by (auto simp: jobBuilder_def bind_res_Inr_iff)
  note jobs = add_jobs [OF f]
  have "\<not> distinct (Keys (Jobs w'))" using jobs assms(4) by (simp add: NewOrderedMap_def)
  moreover have "build_job io k h b = Inr job" if v: "map_of (om_values (Jobs w')) (job_key a) = Some job" for job
  proof -
    have "job_key a \<in> job_key ` set (xs @ a # ys @ b # zs)" by simp
    with jobs v obtain us n vs where n: "xs @ a # ys @ b # zs = us @ n # vs" "job_key n = job_key a"
      "job_key a \<notin> job_key ` set vs" "build_job io k h n = Inr job" by metis
    have "n = b"
    proof -
      from n(1) have "(xs @ a # ys) @ b # zs = us @ n # vs" by simp
      then consider "us = xs @ a # ys" "n = b" | z where "us @ n # z = xs @ a # ys" "vs = z @ b # zs"
        | z where "us = (xs @ a # ys) @ b # z" "zs = z @ n # vs"
        by (auto simp: append_eq_append_conv2 Cons_eq_append_conv append_eq_Cons_conv)
      then show ?thesis
      proof cases
        case 2
        with n(3) assms(4) show ?thesis by auto
      next
        case 3
        with n(2) assms(4,5) show ?thesis by auto
      qed simp
    qed
    with n(4) show ?thesis by simp
  qed
  ultimately show ?thesis by blast
qed

subsection \<open>The order of the steps\<close>

text \<open>Four stages: \<open>c\<close> and \<open>d\<close> after \<open>b\<close>, \<open>a\<close> after \<open>b\<close> and \<open>d\<close>.\<close>

definition diamond :: "(Stage \<times> string list) list" where
  "diamond = [(task_node ''a'' [''b'', ''d''], []), (task_node ''b'' [], [''a'', ''c'', ''d'']),
     (task_node ''c'' [''b''], []), (task_node ''d'' [''b''], [''a''])]"

text \<open>The children are those that building the graph from the four stages records.\<close>

lemma diamond_graph:
  "map_sum id gChildren (NewExecutionGraph 10 ''m'' (zip [100..<104] (map fst diamond))) =
     Inr [(''b'', [''a'', ''c'', ''d'']), (''d'', [''a'']), (RootNodeName, [''b''])]"
  by code_simp

lemma diamond_sorted:
  "nodes_sorted io (flat_heap diamond) g =
     Inr [task_node ''b'' [], task_node ''a'' [''b'', ''d''], task_node ''c'' [''b''], task_node ''d'' [''b'']]"
proof -
  have "BFSNodesFlattened (hGraphs (flat_heap diamond) g) RootNodeName = map (\<lambda>i. Some (100 + i)) [1, 0, 2, 3]"
    by code_simp
  from flat_heap_nodes [OF this, of io]
  have "nodes_sorted io (flat_heap diamond) g = Inr (sort_stages io
      [task_node ''b'' [], task_node ''a'' [''b'', ''d''], task_node ''c'' [''b''], task_node ''d'' [''b'']])"
    by (simp add: diamond_def)
  moreover have "Less (task_node ''a'' [''b'', ''d'']) (task_node ''b'' []) = False"
    "Less (task_node ''c'' [''b'']) (task_node ''a'' [''b'', ''d'']) = False"
    "Less (task_node ''d'' [''b'']) (task_node ''c'' [''b'']) = False"
    by code_simp+
  ultimately show ?thesis
    by (simp add: sort_stages_def insertionSort_def)
qed

lemma step_Name_convert [simp]: "step_Name (convertTaskToStep io h node t) = ghaNameConverter (sName node)"
  by (simp add: convertTaskToStep_def Let_def split: sum.split)

text \<open>the steps of a job are in the order of a comparison that is not transitive: here the step of \<open>a\<close> comes
  before the step of \<open>d\<close>, on which it depends.\<close>

theorem step_before_its_dependency:
  "\<exists>job' steps. flattenTasksInPipeline io 1 (flat_heap diamond) g job = Inr job' \<and>
     job_Steps job' = job_Steps job @ steps \<and> map step_Name steps = [''b'', ''a'', ''c'', ''d''] \<and>
     ''d'' \<in> set (sDependsOn (fst (diamond ! 0))) \<and> sName (fst (diamond ! 0)) = ''a''"
proof -
  have "ghaNameConverter ''a'' = ''a''" "ghaNameConverter ''b'' = ''b''" "ghaNameConverter ''c'' = ''c''"
    "ghaNameConverter ''d'' = ''d''" by code_simp+
  then have "\<exists>job' steps. flattenTasksInPipeline io 1 (flat_heap diamond) g job = Inr job' \<and>
     job_Steps job' = job_Steps job @ steps \<and> map step_Name steps = [''b'', ''a'', ''c'', ''d'']"
    by (simp add: diamond_sorted) (simp add: task_node_def NewStage_def)
  then show ?thesis by (simp add: diamond_def task_node_def NewStage_def)
qed

subsection \<open>What is read and what is not\<close>

text \<open>The version that the configuration asks for is stored and never read: the workflow always installs the same.\<close>

lemma workflow_of_version:
  "workflow_of io k (newGithubCiImpl (Some \<lparr>gnVersion = v, gnTargetOptions = opts\<rparr>)) =
   workflow_of io k (newGithubCiImpl (Some \<lparr>gnVersion = v', gnTargetOptions = opts\<rparr>))"
  by (simp add: workflow_of_def newGithubCiImpl_def fun_eq_iff)

text \<open>The version that the configuration asks for changes nothing in what is generated.\<close>

theorem version_ignored:
  "github_Convert io n m k (newGithubCiImpl (Some \<lparr>gnVersion = v, gnTargetOptions = opts\<rparr>)) pipeline h =
   github_Convert io n m k (newGithubCiImpl (Some \<lparr>gnVersion = v', gnTargetOptions = opts\<rparr>)) pipeline h"
  by (simp only: github_Convert_def workflow_of_version [where v = v and v' = v'])

text \<open>The order in which a map's entries are visited lists the map.\<close>

definition lists_map :: "gen_io \<Rightarrow> variables \<Rightarrow> bool" where
  "lists_map io v \<longleftrightarrow> map_of (gen_pairs io (VarsMap v)) = VarsMap v"

lemma env_map_lookup: "lists_map io v \<Longrightarrow> map_of (env_map io v) k = map_option value_scalar (VarsMap v k)"
  by (simp add: env_map_def map_of_map lists_map_def)

text \<open>A step's environment is the stage's, overridden by the task's, overridden by that of the stage's metadata.\<close>

theorem step_environment:
  assumes "extractGeneratorMetadata (gen_step_meta io) zero_step GitHubCITarget (sGenerator node) = Inr gh"
    and "lists_map io (Merge (sEnv node) (tEnv (hTasks h t)))"
    and "lists_map io (Merge (Merge (sEnv node) (tEnv (hTasks h t))) (meta_env (step_Env gh)))"
  shows "map_of (step_Env (convertTaskToStep io h node t)) k =
    map_option value_scalar
      (case meta_env (step_Env gh) k of Some v \<Rightarrow> Some v
       | None \<Rightarrow> (case tEnv (hTasks h t) k of Some v \<Rightarrow> Some v | None \<Rightarrow> sEnv node k))"
proof -
  have "meta_env [] = Map.empty" by (simp add: meta_env_def FromMap_def)
  then show ?thesis
    using assms(1) env_map_lookup [OF assms(2)] env_map_lookup [OF assms(3)]
    by (auto simp: convertTaskToStep_def Let_def env_simps split: option.split)
qed

definition step_demo :: gen_io where
  "step_demo = gen_demo\<lparr>gen_pairs := (\<lambda>m. if m ''K'' = None then [] else [(''K'', the (m ''K''))]),
     gen_step_meta := (\<lambda>_. Inr (zero_step\<lparr>step_Env := [(''K'', Text ''meta'')]\<rparr>))\<rparr>"

definition step_heap :: heap where
  "step_heap = nested_heap\<lparr>hTasks := (\<lambda>_. (hTasks nested_heap 20)\<lparr>tEnv := [''K'' \<mapsto> GStr ''task'']\<rparr>)\<rparr>"

definition step_stage :: Stage where
  "step_stage = (task_node ''a'' [])\<lparr>sEnv := [''K'' \<mapsto> GStr ''stage''], sGenerator := [''github'' \<mapsto> GNil]\<rparr>"

theorem step_environment_witness:
  "map_of (step_Env (convertTaskToStep step_demo step_heap step_stage 20)) ''K'' = Some (Text ''meta'')"
proof -
  let ?gh = "zero_step\<lparr>step_Env := [(''K'', Text ''meta'')]\<rparr>"
  have meta: "meta_env (step_Env ?gh) = [''K'' \<mapsto> GStr ''meta'']"
    by (simp add: meta_env_def FromMap_def v_any_def fun_eq_iff)
  have env: "sEnv step_stage = [''K'' \<mapsto> GStr ''stage'']" "tEnv (hTasks step_heap 20) = [''K'' \<mapsto> GStr ''task'']"
    by (simp_all add: step_stage_def step_heap_def)
  have l: "lists_map step_demo v" if "\<forall>x. x \<noteq> ''K'' \<longrightarrow> v x = None" for v
  proof -
    have "map_of (gen_pairs step_demo v) x = v x" for x
      using that by (cases "x = ''K''") (auto simp: step_demo_def)
    then show ?thesis by (simp add: lists_map_def VarsMap_def fun_eq_iff)
  qed
  have "extractGeneratorMetadata (gen_step_meta step_demo) zero_step GitHubCITarget (sGenerator step_stage) = Inr ?gh"
    by (simp add: extractGeneratorMetadata_def step_demo_def step_stage_def GitHubCITarget_def)
  moreover have "lists_map step_demo (Merge (sEnv step_stage) (tEnv (hTasks step_heap 20)))"
    by (rule l) (simp add: env env_simps)
  moreover have "lists_map step_demo (Merge (Merge (sEnv step_stage) (tEnv (hTasks step_heap 20))) (meta_env (step_Env ?gh)))"
    by (rule l) (simp only: env meta, simp add: env_simps)
  ultimately have "map_of (step_Env (convertTaskToStep step_demo step_heap step_stage 20)) ''K'' =
    map_option value_scalar
      (case meta_env (step_Env ?gh) ''K'' of Some v \<Rightarrow> Some v
       | None \<Rightarrow> (case tEnv (hTasks step_heap 20) ''K'' of Some v \<Rightarrow> Some v | None \<Rightarrow> sEnv step_stage ''K''))"
    by (rule step_environment)
  also have "\<dots> = Some (Text ''meta'')"
    by (simp only: meta, simp add: value_scalar_def)
  finally show ?thesis .
qed

theorem colliding_job_lost_witness:
  "\<exists>w' job. jobBuilder gen_demo 1 (flat_heap [(task_node ''a b'' [], []), (task_node ''a.b'' [], [])]) 1
       (zero_workflow\<lparr>Jobs := NewOrderedMap\<rparr>) = Inr w' \<and>
     map_of (om_values (Jobs w')) ''a_b'' = Some job \<and> \<not> distinct (Keys (Jobs w')) \<and>
     build_job gen_demo 1 (flat_heap [(task_node ''a b'' [], []), (task_node ''a.b'' [], [])]) (task_node ''a.b'' []) = Inr job"
proof -
  let ?stages = "[(task_node ''a b'' [], []), (task_node ''a.b'' [], [])]"
  have "case jobBuilder gen_demo 1 (flat_heap ?stages) 1 (zero_workflow\<lparr>Jobs := NewOrderedMap\<rparr>) of
      Inl _ \<Rightarrow> False
    | Inr w' \<Rightarrow> map_of (om_values (Jobs w')) ''a_b'' \<noteq> None" by code_simp
  then obtain w' job where w: "jobBuilder gen_demo 1 (flat_heap ?stages) 1 (zero_workflow\<lparr>Jobs := NewOrderedMap\<rparr>) = Inr w'"
    "map_of (om_values (Jobs w')) ''a_b'' = Some job" by (auto split: sum.splits)
  have "BFSNodesFlattened (hGraphs (flat_heap ?stages) 1) RootNodeName = map (\<lambda>i. Some (100 + i)) [0, 1]" by code_simp
  from flat_heap_nodes [OF this, of gen_demo]
  have "nodes_sorted gen_demo (flat_heap ?stages) 1 = Inr (sort_stages gen_demo [task_node ''a b'' [], task_node ''a.b'' []])"
    by simp
  moreover have "Less (task_node ''a.b'' []) (task_node ''a b'' []) = False" by code_simp
  ultimately have n: "nodes_sorted gen_demo (flat_heap ?stages) 1 = Inr ([] @ task_node ''a b'' [] # [] @ task_node ''a.b'' [] # [])"
    by (simp add: sort_stages_def insertionSort_def)
  have key: "job_key (task_node ''a b'' []) = ''a_b''" "job_key (task_node ''a.b'' []) = ''a_b''" by code_simp+
  from colliding_job_lost [OF w(1) _ n] have "\<not> distinct (Keys (Jobs w')) \<and>
      build_job gen_demo 1 (flat_heap ?stages) (task_node ''a.b'' []) = Inr job"
    by (simp add: key w(2))
  with w show ?thesis by blast
qed

end
