(* ===== verification/Materialize.thy ===== *)
theory Materialize
  imports GoPaths GoUtf8 Prelude "HOL-Library.Word" "HOL-Library.Multiset" "HOL-Library.List_Lexorder" "HOL-Library.Char_ord"
begin

text \<open>
  \<open>scripts/materialize-sonar-source/main.go\<close>: the Go files of a pull request's head are fetched as Git objects,
  checked, and written below a new directory. The network, JSON, SHA-1, the flag and the URL parser are parameters;
  the file system is an interface of the code.
\<close>

section \<open>Bounds and identifiers\<close>

definition maxTreeEntries :: nat where "maxTreeEntries = 384"
definition maxGoFiles :: nat where "maxGoFiles = 160"
definition maxPathBytes :: nat where "maxPathBytes = 160"
definition maxFileBytes :: nat where "maxFileBytes = 128 * 1024"
definition maxTotalBytes :: nat where "maxTotalBytes = 1024 * 1024"
definition maxAPIResponse :: nat where "maxAPIResponse = 16 * 1024 * 1024"

definition reviewedBounds :: string where
  "reviewedBounds = ''tree=384,go=160,path=160,file=131072,total=1048576''"

definition lower_hex :: "char \<Rightarrow> bool" where
  "lower_hex c \<longleftrightarrow> is_digit c \<or> (97 \<le> byte c \<and> byte c \<le> 102)"

definition fullSHA :: "string \<Rightarrow> bool" where
  "fullSHA s \<longleftrightarrow> length s = 40 \<and> list_all lower_hex s"

definition repository_char :: "char \<Rightarrow> bool" where
  "repository_char c \<longleftrightarrow> is_upper c \<or> is_lower c \<or> is_digit c \<or> c = CHR ''_'' \<or> c = CHR ''.'' \<or> c = CHR ''-''"

definition repository :: "string \<Rightarrow> bool" where
  "repository s \<longleftrightarrow>
     (case Split s ''/'' of
        [owner, name] \<Rightarrow> owner \<noteq> [] \<and> name \<noteq> [] \<and> list_all repository_char owner \<and> list_all repository_char name
      | _ \<Rightarrow> False)"

section \<open>Data\<close>

record materialize_config =
  cfgAPIURL :: string
  cfgBaseRepository :: string
  cfgBaseBranch :: string
  cfgHeadRepository :: string
  cfgHeadSHA :: string
  cfgPullRequest :: int
  cfgOutput :: string
  cfgBounds :: string
  cfgToken :: string

record url =
  urlScheme :: string
  urlUser :: string
  urlHost :: string
  urlPath :: string
  urlRawQuery :: string
  urlFragment :: string

record apiClient =
  baseURL :: url
  token :: string

record commitResponse =
  cmSHA :: string
  cmTreeSHA :: string

record treeEntry =
  tePath :: string
  teMode :: string
  teType :: string
  teSHA :: string
  teSize :: "64 word option"

record treeResponse =
  trSHA :: string
  trTruncated :: bool
  trTree :: "treeEntry list"

record blobResponse =
  blSHA :: string
  blSize :: "64 word"
  blEncoding :: string
  blContent :: string

record pullResponse =
  plNumber :: int
  plBaseRef :: string
  plBaseRepo :: string
  plHeadSHA :: string
  plHeadRepo :: string

record materializeResult =
  mrTreeSHA :: string
  mrFileCount :: nat
  mrTotalSize :: "64 word"

record validatedTree =
  vtSha :: string
  vtSelected :: "treeEntry list"
  vtTotalSize :: "64 word"

datatype config_error =
    BadFlags string
  | PositionalArguments
  | BadRepositories
  | BadBaseBranch
  | BadHeadSHA
  | BadPullRequest
  | BadBounds
  | NoToken
  | BadOutput
  | BadAPIURL

datatype path_error = NotUTF8 | TooLong | NotCanonical | BadSegment | ControlCharacter

datatype request_error = RequestFailed string | UnexpectedStatus nat | DecodeFailed string | TrailingContent

datatype blob_error = BlobMismatch | BlobEncoding | BlobSize | BlobDigest

datatype file_error =
    CreateFile string
  | WriteFile string
  | ShortWrite
  | FileMode string
  | CloseFile string
  | CreateDirectory string
  | InspectDirectory string
  | NotADirectory

datatype mat_error =
    RequestError string request_error
  | UnreviewedBounds
  | CommitMismatch
  | TreeMismatch
  | TreeTruncated
  | TreeEntries nat
  | NoGoSource
  | UnsafePath string path_error
  | DuplicatePath string
  | BadIdentity string
  | ForbiddenMode string string string
  | BadSize string
  | TotalTooLarge
  | TooManyFiles
  | BlobError string blob_error
  | CreateRoot string
  | FileError string file_error
  | HeadChanged
  | NilDereference

section \<open>The file system and the network\<close>

text \<open>The interfaces \<open>fileSystem\<close> and \<open>exclusiveFile\<close>: operations on a world, an open file being a number.\<close>

datatype lstat = NotExist | LstatError string | FileInfo bool bool

record 'w fileSystem =
  fs_Mkdir :: "string \<Rightarrow> nat \<Rightarrow> 'w \<Rightarrow> string option \<times> 'w"
  fs_Lstat :: "string \<Rightarrow> 'w \<Rightarrow> lstat \<times> 'w"
  fs_OpenExclusive :: "string \<Rightarrow> nat \<Rightarrow> 'w \<Rightarrow> (string + nat) \<times> 'w"
  fs_RemoveAll :: "string \<Rightarrow> 'w \<Rightarrow> string option \<times> 'w"
  file_Write :: "nat \<Rightarrow> string \<Rightarrow> 'w \<Rightarrow> (nat \<times> string option) \<times> 'w"
  file_Chmod :: "nat \<Rightarrow> nat \<Rightarrow> 'w \<Rightarrow> string option \<times> 'w"
  file_Close :: "nat \<Rightarrow> 'w \<Rightarrow> string option \<times> 'w"

record http_request =
  rqURL :: string
  rqHeaders :: "(string \<times> string) list"

text \<open>A JSON decoder returns the value and the text it has not read.\<close>

record 'w network =
  http_Do :: "http_request \<Rightarrow> 'w \<Rightarrow> (string + nat \<times> string) \<times> 'w"
  json_commit :: "string \<Rightarrow> string + commitResponse \<times> string"
  json_tree :: "string \<Rightarrow> string + treeResponse \<times> string"
  json_blob :: "string \<Rightarrow> string + blobResponse \<times> string"
  json_pull :: "string \<Rightarrow> string + pullResponse \<times> string"
  sha1_hex :: "string \<Rightarrow> string"

type_synonym ('w, 'a) mat_op = "('w, mat_error, 'a) op"

text \<open>An operation of the interface whose error is wrapped.\<close>

definition op_try :: "('w \<Rightarrow> string option \<times> 'w) \<Rightarrow> (string \<Rightarrow> mat_error) \<Rightarrow> ('w, unit) mat_op" where
  "op_try f wrap = (\<lambda>w. case f w of (None, w') \<Rightarrow> (Inr (), w') | (Some e, w') \<Rightarrow> (Inl (wrap e), w'))"

definition op_check :: "bool \<Rightarrow> mat_error \<Rightarrow> ('w, unit) mat_op" where
  "op_check b e = op_lift (check b e)"

section \<open>Configuration\<close>

text \<open>The flags, with their default values, are parsed by a parameter into the fields and the arguments left.\<close>

definition parseConfig ::
  "(string list \<Rightarrow> string + (materialize_config \<times> string list)) \<Rightarrow> string \<Rightarrow> string list \<Rightarrow> config_error + materialize_config" where
  "parseConfig flags_Parse GH_TOKEN args =
     (case flags_Parse args of
        Inl e \<Rightarrow> Inl (BadFlags e)
      | Inr (cfg, rest) \<Rightarrow>
          let cfg = cfg\<lparr>cfgToken := GH_TOKEN\<rparr> in
          if length rest \<noteq> 0 then Inl PositionalArguments
          else if \<not> repository (cfgBaseRepository cfg) \<or> \<not> repository (cfgHeadRepository cfg) then Inl BadRepositories
          else if cfgBaseBranch cfg \<noteq> ''main'' then Inl BadBaseBranch
          else if \<not> fullSHA (cfgHeadSHA cfg) then Inl BadHeadSHA
          else if cfgPullRequest cfg \<le> 0 then Inl BadPullRequest
          else if cfgBounds cfg \<noteq> reviewedBounds then Inl BadBounds
          else if cfgToken cfg = [] then Inl NoToken
          else if cfgOutput cfg = [] \<or> \<not> IsLocal (cfgOutput cfg) \<or> Clean (cfgOutput cfg) \<noteq> cfgOutput cfg then Inl BadOutput
          else Inr cfg)"

definition newAPIClient :: "(string \<Rightarrow> string + url) \<Rightarrow> materialize_config \<Rightarrow> config_error + apiClient" where
  "newAPIClient url_Parse cfg =
     (case url_Parse (cfgAPIURL cfg) of
        Inl _ \<Rightarrow> Inl BadAPIURL
      | Inr u \<Rightarrow>
          if urlScheme u = [] \<or> urlHost u = [] \<or> urlRawQuery u \<noteq> [] \<or> urlFragment u \<noteq> [] then Inl BadAPIURL
          else Inr \<lparr>baseURL = u, token = cfgToken cfg\<rparr>)"

section \<open>Requests\<close>

text \<open>\<open>url.ResolveReference\<close> for a reference whose path starts with a slash: the dot segments are removed, and the
  path of the base URL is not used. The segments written so far are kept in reverse.\<close>

fun dot_segments :: "string list \<Rightarrow> string list \<Rightarrow> string list" where
  "dot_segments out [] = rev out"
| "dot_segments out (e # es) =
     (if e = ''.'' then dot_segments out es
      else if e = ''..'' then dot_segments (tl out) es
      else dot_segments (e # out) es)"

definition resolve_path :: "string \<Rightarrow> string" where
  "resolve_path p =
     (let es = Split (drop 1 p) ''/'' in
      ''/'' @ Join (dot_segments [] es @ (if last es = ''.'' \<or> last es = ''..'' then [''''] else [])) ''/'')"

definition ResolveReference :: "url \<Rightarrow> string \<Rightarrow> url" where
  "ResolveReference u endpoint =
     (case Cut endpoint ''?'' of
        None \<Rightarrow> u\<lparr>urlPath := resolve_path endpoint, urlRawQuery := [], urlFragment := []\<rparr>
      | Some (p, q) \<Rightarrow> u\<lparr>urlPath := resolve_path p, urlRawQuery := q, urlFragment := []\<rparr>)"

definition url_String :: "url \<Rightarrow> string" where
  "url_String u = urlScheme u @ ''://'' @ urlUser u @ urlHost u @ urlPath u @
     (if urlRawQuery u = [] then [] else ''?'' @ urlRawQuery u)"

definition api_request :: "apiClient \<Rightarrow> string \<Rightarrow> http_request" where
  "api_request c endpoint =
     \<lparr>rqURL = url_String (ResolveReference (baseURL c) endpoint),
      rqHeaders = [(''Accept'', ''application/vnd.github+json''), (''Authorization'', ''Bearer '' @ token c),
        (''X-GitHub-Api-Version'', ''2022-11-28'')]\<rparr>"

definition json_space :: "char \<Rightarrow> bool" where
  "json_space c \<longleftrightarrow> c = CHR '' '' \<or> byte c = 9 \<or> byte c = 10 \<or> byte c = 13"

text \<open>At most one byte more than the bound is read. After the value only white space may follow.\<close>

definition api_get :: "'w network \<Rightarrow> apiClient \<Rightarrow> (string \<Rightarrow> string + 'a \<times> string) \<Rightarrow> string \<Rightarrow> ('w, 'a) mat_op" where
  "api_get net c decode endpoint = (\<lambda>w.
     case http_Do net (api_request c endpoint) w of
       (Inl e, w') \<Rightarrow> (Inl (RequestError endpoint (RequestFailed e)), w')
     | (Inr (status, body), w') \<Rightarrow>
         if status \<noteq> 200 then (Inl (RequestError endpoint (UnexpectedStatus status)), w')
         else (case decode (take (maxAPIResponse + 1) body) of
             Inl e \<Rightarrow> (Inl (RequestError endpoint (DecodeFailed e)), w')
           | Inr (v, rest) \<Rightarrow>
               if list_all json_space rest then (Inr v, w') else (Inl (RequestError endpoint TrailingContent), w')))"

text \<open>\<open>url.PathEscape\<close> leaves the characters of a repository's name as they are. An index past the end panics.\<close>

definition repoEndpoint :: "string \<Rightarrow> string \<Rightarrow> mat_error + string" where
  "repoEndpoint repo path_end =
     (case Split repo ''/'' of
        owner # name # _ \<Rightarrow> Inr (''/repos/'' @ owner @ ''/'' @ name @ ''/'' @ path_end)
      | _ \<Rightarrow> Inl NilDereference)"

definition get_repo ::
  "'w network \<Rightarrow> apiClient \<Rightarrow> (string \<Rightarrow> string + 'a \<times> string) \<Rightarrow> string \<Rightarrow> string \<Rightarrow> ('w, 'a) mat_op" where
  "get_repo net c decode repo path_end = op_bind (op_lift (repoEndpoint repo path_end)) (api_get net c decode)"

section \<open>The tree\<close>

definition validateTreePath :: "string \<Rightarrow> path_error option" where
  "validateTreePath value =
     (if value = [] \<or> \<not> ValidString value then Some NotUTF8
      else if length value > maxPathBytes then Some TooLong
      else if HasPrefix value ''/'' \<or> Contains value [CHR 0x5C] \<or> Clean value \<noteq> value then Some NotCanonical
      else if list_ex (\<lambda>segment. segment = '''' \<or> segment = ''.'' \<or> segment = ''..'') (Split value ''/'')
      then Some BadSegment
      else if list_ex IsControl (runes value) then Some ControlCharacter
      else None)"

definition classifyTreeEntry :: "treeEntry \<Rightarrow> string set \<Rightarrow> mat_error + (bool \<times> string set)" where
  "classifyTreeEntry entry seen =
     (case validateTreePath (tePath entry) of
        Some e \<Rightarrow> Inl (UnsafePath (tePath entry) e)
      | None \<Rightarrow>
          if tePath entry \<in> seen then Inl (DuplicatePath (tePath entry))
          else let seen = insert (tePath entry) seen in
          if \<not> fullSHA (teSHA entry) then Inl (BadIdentity (tePath entry))
          else if teType entry = ''tree'' \<and> teMode entry = ''040000'' then Inr (False, seen)
          else if teType entry \<noteq> ''blob'' \<or> (teMode entry \<noteq> ''100644'' \<and> teMode entry \<noteq> ''100755'')
          then Inl (ForbiddenMode (tePath entry) (teType entry) (teMode entry))
          else Inr (teMode entry = ''100644'' \<and> HasSuffix (tePath entry) ''.go'', seen))"

text \<open>Sizes and their total are signed 64-bit integers.\<close>

definition accountGoEntry :: "treeEntry \<Rightarrow> 64 word \<Rightarrow> nat \<Rightarrow> mat_error + 64 word" where
  "accountGoEntry entry acc selectedCount =
     (case teSize entry of
        None \<Rightarrow> Inl (BadSize (tePath entry))
      | Some n \<Rightarrow>
          if sint n < 0 \<or> sint n > int maxFileBytes then Inl (BadSize (tePath entry))
          else let sum = acc + n in
          if sint sum > int maxTotalBytes then Inl TotalTooLarge
          else if selectedCount + 1 > maxGoFiles then Inl TooManyFiles
          else Inr sum)"

record tree_state =
  tsSeen :: "string set"
  tsSelected :: "treeEntry list"
  tsTotal :: "64 word"

definition visit_entry :: "treeEntry \<Rightarrow> tree_state \<Rightarrow> mat_error + tree_state" where
  "visit_entry entry st =
     bind_res (classifyTreeEntry entry (tsSeen st)) (\<lambda>(eligible, seen).
       let st = st\<lparr>tsSeen := seen\<rparr> in
       if \<not> eligible then Inr st
       else bind_res (accountGoEntry entry (tsTotal st) (length (tsSelected st))) (\<lambda>total.
         Inr (st\<lparr>tsTotal := total, tsSelected := tsSelected st @ [entry]\<rparr>)))"

definition validateTree :: "treeResponse \<Rightarrow> mat_error + (treeEntry list \<times> 64 word)" where
  "validateTree tree =
     (if trTruncated tree then Inl TreeTruncated
      else if length (trTree tree) = 0 \<or> length (trTree tree) > maxTreeEntries then Inl (TreeEntries (length (trTree tree)))
      else bind_res (fold_res visit_entry (trTree tree) \<lparr>tsSeen = {}, tsSelected = [], tsTotal = 0\<rparr>) (\<lambda>st.
        if length (tsSelected st) = 0 then Inl NoGoSource
        else Inr (sort_key tePath (tsSelected st), tsTotal st)))"

definition loadValidatedTree :: "'w network \<Rightarrow> apiClient \<Rightarrow> materialize_config \<Rightarrow> ('w, validatedTree) mat_op" where
  "loadValidatedTree net c cfg =
     op_bind (get_repo net c (json_commit net) (cfgHeadRepository cfg) (''git/commits/'' @ cfgHeadSHA cfg)) (\<lambda>commit.
     op_then (op_check (cmSHA commit = cfgHeadSHA cfg \<and> fullSHA (cmTreeSHA commit)) CommitMismatch) (
     op_bind (get_repo net c (json_tree net) (cfgHeadRepository cfg) (''git/trees/'' @ cmTreeSHA commit @ ''?recursive=1'')) (\<lambda>tree.
     op_then (op_check (trSHA tree = cmTreeSHA commit) TreeMismatch) (
     op_bind (op_lift (validateTree tree)) (\<lambda>(selected, total).
     op_return \<lparr>vtSha = trSHA tree, vtSelected = selected, vtTotalSize = total\<rparr>)))))"

section \<open>Blobs\<close>

text \<open>\<open>base64.StdEncoding.Strict()\<close>: line ends are skipped, the padding must be there and the bits that it leaves
  over must be zero.\<close>

definition alphabet64 :: string where
  "alphabet64 = ''ABCDEFGHIJKLMNOPQRSTUVWXYZabcdefghijklmnopqrstuvwxyz0123456789+/''"

definition value64 :: "char \<Rightarrow> nat option" where
  "value64 c = find_index (\<lambda>d. d = c) alphabet64"

definition quantum :: "char \<Rightarrow> char \<Rightarrow> char \<Rightarrow> char \<Rightarrow> string option" where
  "quantum a b c d =
     (case (value64 a, value64 b, value64 c, value64 d) of
        (Some p, Some q, Some r, Some s) \<Rightarrow>
          Some [char_of (p * 4 + q div 16), char_of (q mod 16 * 16 + r div 4), char_of (r mod 4 * 64 + s)]
      | _ \<Rightarrow> None)"

definition last_quantum :: "char \<Rightarrow> char \<Rightarrow> char \<Rightarrow> char \<Rightarrow> string option" where
  "last_quantum a b c d =
     (if d \<noteq> CHR ''='' then quantum a b c d
      else if c = CHR ''='' then
        (case (value64 a, value64 b) of
           (Some p, Some q) \<Rightarrow> if q mod 16 = 0 then Some [char_of (p * 4 + q div 16)] else None
         | _ \<Rightarrow> None)
      else
        (case (value64 a, value64 b, value64 c) of
           (Some p, Some q, Some r) \<Rightarrow>
             if r mod 4 = 0 then Some [char_of (p * 4 + q div 16), char_of (q mod 16 * 16 + r div 4)] else None
         | _ \<Rightarrow> None))"

fun decode_quanta :: "string \<Rightarrow> string option" where
  "decode_quanta [] = Some []"
| "decode_quanta [a, b, c, d] = last_quantum a b c d"
| "decode_quanta (a # b # c # d # e # s) =
     (case (quantum a b c d, decode_quanta (e # s)) of (Some x, Some y) \<Rightarrow> Some (x @ y) | _ \<Rightarrow> None)"
| "decode_quanta _ = None"

definition DecodeString :: "string \<Rightarrow> string option" where
  "DecodeString s = decode_quanta (filter (\<lambda>c. byte c \<noteq> 10 \<and> byte c \<noteq> 13) s)"

text \<open>The object that Git hashes.\<close>

definition git_blob :: "string \<Rightarrow> string" where
  "git_blob data = ''blob '' @ Itoa (int (length data)) @ [CHR 0x00] @ data"

definition check_blob :: "(string \<Rightarrow> string) \<Rightarrow> treeEntry \<Rightarrow> blobResponse \<Rightarrow> mat_error + string" where
  "check_blob sha1 entry blob =
     (case teSize entry of
        None \<Rightarrow> Inl NilDereference
      | Some n \<Rightarrow>
          if blSHA blob \<noteq> teSHA entry \<or> blSize blob \<noteq> n \<or> blEncoding blob \<noteq> ''base64'' then Inl (BlobError (tePath entry) BlobMismatch)
          else (case DecodeString (ReplaceAll (blContent blob) [CHR 0x0A] []) of
              None \<Rightarrow> Inl (BlobError (tePath entry) BlobEncoding)
            | Some data \<Rightarrow>
                if int (length data) \<noteq> sint n \<or> length data > maxFileBytes then Inl (BlobError (tePath entry) BlobSize)
                else if sha1 (git_blob data) \<noteq> teSHA entry then Inl (BlobError (tePath entry) BlobDigest)
                else Inr data))"

definition fetchBlob :: "'w network \<Rightarrow> apiClient \<Rightarrow> string \<Rightarrow> treeEntry \<Rightarrow> ('w, string) mat_op" where
  "fetchBlob net c headRepository entry =
     op_bind (get_repo net c (json_blob net) headRepository (''git/blobs/'' @ teSHA entry)) (\<lambda>blob.
     op_lift (check_blob (sha1_hex net) entry blob))"

section \<open>Files\<close>

definition writeOnce :: "'w fileSystem \<Rightarrow> string \<Rightarrow> nat \<Rightarrow> string \<Rightarrow> ('w, unit) mat_op" where
  "writeOnce fs relative f data = (\<lambda>w.
     case file_Write fs f data w of
       ((_, Some e), w') \<Rightarrow> (Inl (FileError relative (WriteFile e)), w')
     | ((written, None), w') \<Rightarrow> if written \<noteq> length data then (Inl (FileError relative ShortWrite), w') else (Inr (), w'))"

definition parent_directory :: "'w fileSystem \<Rightarrow> string \<Rightarrow> ('w, unit) mat_op" where
  "parent_directory fs directory = (\<lambda>w.
     case fs_Lstat fs directory w of
       (NotExist, w') \<Rightarrow> op_try (fs_Mkdir fs directory 493) (FileError directory \<circ> CreateDirectory) w'
     | (LstatError e, w') \<Rightarrow> (Inl (FileError directory (InspectDirectory e)), w')
     | (FileInfo isDir symlink, w') \<Rightarrow> if \<not> isDir \<or> symlink then (Inl (FileError directory NotADirectory), w') else (Inr (), w'))"

fun parent_directories :: "'w fileSystem \<Rightarrow> string \<Rightarrow> string list \<Rightarrow> ('w, unit) mat_op" where
  "parent_directories fs directory [] = op_return ()"
| "parent_directories fs directory (part # parts) =
     (let directory = JoinPath [directory, part] in
      op_then (parent_directory fs directory) (parent_directories fs directory parts))"

definition ensureParentDirectories :: "'w fileSystem \<Rightarrow> string \<Rightarrow> string \<Rightarrow> ('w, unit) mat_op" where
  "ensureParentDirectories fs root relative =
     (let parts = Split (Dir relative) ''/'' in
      if length parts = 1 \<and> hd parts = ''.'' then op_return () else parent_directories fs root parts)"

definition close_after :: "'w fileSystem \<Rightarrow> nat \<Rightarrow> ('w, unit) mat_op \<Rightarrow> ('w, unit) mat_op" where
  "close_after fs f m = (\<lambda>w. case m w of (Inl e, w') \<Rightarrow> (Inl e, snd (file_Close fs f w')) | (Inr u, w') \<Rightarrow> (Inr u, w'))"

definition write_open :: "'w fileSystem \<Rightarrow> string \<Rightarrow> string \<Rightarrow> nat \<Rightarrow> ('w, unit) mat_op" where
  "write_open fs relative data f =
     op_then (close_after fs f (writeOnce fs relative f data)) (
     op_then (close_after fs f (op_try (file_Chmod fs f 420) (FileError relative \<circ> FileMode)))
     (op_try (file_Close fs f) (FileError relative \<circ> CloseFile)))"

definition writeExclusive :: "'w fileSystem \<Rightarrow> string \<Rightarrow> string \<Rightarrow> string \<Rightarrow> ('w, unit) mat_op" where
  "writeExclusive fs root relative data =
     op_then (ensureParentDirectories fs root relative) (\<lambda>w.
       case fs_OpenExclusive fs (JoinPath [root, relative]) 384 w of
         (Inl e, w') \<Rightarrow> (Inl (FileError relative (CreateFile e)), w')
       | (Inr f, w') \<Rightarrow> write_open fs relative data f w')"

section \<open>The whole\<close>

definition materializeSelectedFiles ::
  "'w network \<Rightarrow> apiClient \<Rightarrow> 'w fileSystem \<Rightarrow> materialize_config \<Rightarrow> treeEntry list \<Rightarrow> ('w, unit) mat_op" where
  "materializeSelectedFiles net c fs cfg selected =
     op_for selected (\<lambda>entry.
       op_bind (fetchBlob net c (cfgHeadRepository cfg) entry) (writeExclusive fs (cfgOutput cfg) (tePath entry)))"

definition verifyCurrentHead :: "'w network \<Rightarrow> apiClient \<Rightarrow> materialize_config \<Rightarrow> ('w, unit) mat_op" where
  "verifyCurrentHead net c cfg =
     op_bind (get_repo net c (json_pull net) (cfgBaseRepository cfg) (''pulls/'' @ Itoa (cfgPullRequest cfg))) (\<lambda>pull.
     op_check (\<not> (plNumber pull \<noteq> cfgPullRequest cfg \<or> plBaseRepo pull \<noteq> cfgBaseRepository cfg \<or>
       plBaseRef pull \<noteq> cfgBaseBranch cfg \<or> plHeadRepo pull \<noteq> cfgHeadRepository cfg \<or> plHeadSHA pull \<noteq> cfgHeadSHA cfg))
       HeadChanged)"

text \<open>The deferred removal: when the rest fails, what \<open>Mkdir\<close> has created is removed, and its error ignored.\<close>

definition unless_complete :: "'w fileSystem \<Rightarrow> string \<Rightarrow> ('w, 'a) mat_op \<Rightarrow> ('w, 'a) mat_op" where
  "unless_complete fs output m = (\<lambda>w.
     case m w of (Inl e, w') \<Rightarrow> (Inl e, snd (fs_RemoveAll fs output w')) | (Inr v, w') \<Rightarrow> (Inr v, w'))"

definition materialize ::
  "'w network \<Rightarrow> apiClient \<Rightarrow> 'w fileSystem \<Rightarrow> materialize_config \<Rightarrow> ('w, materializeResult) mat_op" where
  "materialize net c fs cfg =
     op_then (op_check (cfgBounds cfg = reviewedBounds) UnreviewedBounds) (
     op_bind (loadValidatedTree net c cfg) (\<lambda>validated.
     op_then (op_try (fs_Mkdir fs (cfgOutput cfg) 493) CreateRoot) (
     unless_complete fs (cfgOutput cfg) (
       op_then (materializeSelectedFiles net c fs cfg (vtSelected validated)) (
       op_then (verifyCurrentHead net c cfg) (
       op_return \<lparr>mrTreeSHA = vtSha validated, mrFileCount = length (vtSelected validated),
         mrTotalSize = vtTotalSize validated\<rparr>))))))"

text \<open>The exit status of the command, and what it reports.\<close>

definition materialize_main ::
  "(string list \<Rightarrow> string + (materialize_config \<times> string list)) \<Rightarrow> (string \<Rightarrow> string + url) \<Rightarrow>
     'w network \<Rightarrow> 'w fileSystem \<Rightarrow> string \<Rightarrow> string list \<Rightarrow> 'w \<Rightarrow> (nat \<times> ((config_error + mat_error) + materializeResult)) \<times> 'w" where
  "materialize_main flags_Parse url_Parse net fs GH_TOKEN args = (\<lambda>w.
     case parseConfig flags_Parse GH_TOKEN args of
       Inl e \<Rightarrow> ((2, Inl (Inl e)), w)
     | Inr cfg \<Rightarrow>
         (case newAPIClient url_Parse cfg of
            Inl e \<Rightarrow> ((2, Inl (Inl e)), w)
          | Inr c \<Rightarrow>
              (case materialize net c fs cfg w of
                 (Inl e, w') \<Rightarrow> ((1, Inl (Inr e)), w')
               | (Inr result, w') \<Rightarrow> ((0, Inr result), w'))))"

section \<open>Accepted paths and trees\<close>

lemma validateTreePath_None:
  "validateTreePath value = None \<longleftrightarrow>
     ValidString value \<and> length value \<le> 160 \<and> plain_path value \<and> CHR 0x5C \<notin> set value \<and>
     (\<forall>r \<in> set (runes value). \<not> IsControl r)"
proof -
  have segments: "list_ex (\<lambda>segment. segment = '''' \<or> segment = ''.'' \<or> segment = ''..'') (Split value ''/'') \<longleftrightarrow>
      \<not> plain_path value"
    by (auto simp: plain_path_def list_all_iff list_ex_iff plain_elem_def dest: Split_slash_free)
  show ?thesis
  proof (cases "plain_path value")
    case True
    have "HasPrefix value ''/'' \<Longrightarrow> [] \<in> set (Split value ''/'')"
      using HasPrefix_split [of "value" "''/''"] Split_Cons_sep [of "CHR ''/''" "drop 1 value"] by simp
    moreover have "value = [] \<Longrightarrow> [] \<in> set (Split value ''/'')" by (simp add: Split_def)
    ultimately have "value \<noteq> []" "\<not> HasPrefix value ''/''"
      using True by (auto simp: plain_path_def list_all_iff plain_elem_def)
    then show ?thesis
      using True plain_path_Clean [OF True]
      unfolding validateTreePath_def segments
      by (simp add: maxPathBytes_def Contains_single list_ex_iff)
  next
    case False
    then show ?thesis unfolding validateTreePath_def segments by simp
  qed
qed

text \<open>C36. A path of a tree is accepted exactly when it is valid UTF-8 of at most 160 bytes whose segments are names, with
  neither a backslash nor a control character.\<close>

theorem validateTreePath_spec:
  "validateTreePath value = None \<longleftrightarrow>
     ValidString value \<and> length value \<le> 160 \<and> plain_path value \<and> CHR 0x5C \<notin> set value \<and>
     list_all (\<lambda>r. \<not> IsControl r) (runes value)"
  by (simp add: validateTreePath_None list_all_iff)

definition go_source :: "treeEntry \<Rightarrow> bool" where
  "go_source e \<longleftrightarrow> teType e = ''blob'' \<and> teMode e = ''100644'' \<and> HasSuffix (tePath e) ''.go''"

definition entry_size :: "treeEntry \<Rightarrow> int" where
  "entry_size e = (case teSize e of None \<Rightarrow> 0 | Some n \<Rightarrow> sint n)"

definition good_entry :: "treeEntry \<Rightarrow> bool" where
  "good_entry e \<longleftrightarrow> go_source e \<and> validateTreePath (tePath e) = None \<and> fullSHA (teSHA e) \<and>
     teSize e \<noteq> None \<and> 0 \<le> entry_size e \<and> entry_size e \<le> 131072"

definition tree_inv :: "treeEntry list \<Rightarrow> tree_state \<Rightarrow> bool" where
  "tree_inv done st \<longleftrightarrow> tsSelected st = filter go_source done \<and> tsSeen st = tePath ` set done \<and> distinct (map tePath done) \<and>
     list_all good_entry (tsSelected st) \<and> length (tsSelected st) \<le> 160 \<and>
     sint (tsTotal st) = sum_list (map entry_size (tsSelected st)) \<and> sint (tsTotal st) \<le> 1048576"

lemma sint_add_small:
  fixes a b :: "64 word"
  assumes "0 \<le> sint a" "sint a \<le> 1048576" "0 \<le> sint b" "sint b \<le> 131072"
  shows "sint (a + b) = sint a + sint b"
  using assms by (simp add: sint_word_ariths signed_take_bit_int_eq_self)

lemma good_entries_sum: "list_all good_entry es \<Longrightarrow> 0 \<le> sum_list (map entry_size es)"
  by (induction es) (auto simp: good_entry_def)

lemma visit_entry_inv:
  assumes "tree_inv done st" and "visit_entry e st = Inr st'"
  shows "tree_inv (done @ [e]) st'"
proof -
  from assms(2) obtain eligible seen where c: "classifyTreeEntry e (tsSeen st) = Inr (eligible, seen)"
    by (auto simp: visit_entry_def bind_res_Inr_iff)
  then have path: "validateTreePath (tePath e) = None" "tePath e \<notin> tsSeen st" "seen = insert (tePath e) (tsSeen st)"
    "fullSHA (teSHA e)" and el: "eligible = go_source e"
    by (auto simp: classifyTreeEntry_def go_source_def Let_def split: option.splits if_splits)
  from assms(1) have new: "distinct (map tePath (done @ [e]))" "seen = tePath ` set (done @ [e])"
    using path by (auto simp: tree_inv_def)
  show ?thesis
  proof (cases eligible)
    case False
    with assms c el new show ?thesis by (auto simp: visit_entry_def Let_def tree_inv_def)
  next
    case True
    with assms(2) c obtain bytes where a: "accountGoEntry e (tsTotal st) (length (tsSelected st)) = Inr bytes"
      and st': "st' = st\<lparr>tsSeen := seen, tsTotal := bytes, tsSelected := tsSelected st @ [e]\<rparr>"
      by (auto simp: visit_entry_def bind_res_Inr_iff Let_def)
    from a obtain n where n: "teSize e = Some n" "0 \<le> sint n" "sint n \<le> 131072" "bytes = tsTotal st + n"
      "sint bytes \<le> 1048576" "length (tsSelected st) + 1 \<le> 160"
      by (auto simp: accountGoEntry_def Let_def maxFileBytes_def maxTotalBytes_def maxGoFiles_def not_less
          split: option.splits if_splits)
    from assms(1) have "0 \<le> sint (tsTotal st)" "sint (tsTotal st) \<le> 1048576"
      using good_entries_sum by (auto simp: tree_inv_def)
    with n have s: "sint bytes = sint (tsTotal st) + entry_size e"
      by (simp add: sint_add_small entry_size_def)
    have "good_entry e" using True el path n by (simp add: good_entry_def entry_size_def)
    with assms(1) new s n True el show ?thesis
      by (simp add: tree_inv_def st' list_all_iff)
  qed
qed

lemma visit_entries_inv:
  "tree_inv done st \<Longrightarrow> fold_res visit_entry es st = Inr st' \<Longrightarrow> tree_inv (done @ es) st'"
  by (induction es arbitrary: "done" st) (fastforce simp: bind_res_Inr_iff dest: visit_entry_inv)+

lemma validateTree_Inr:
  assumes "validateTree tree = Inr (selected, bytes)"
  shows "selected = sort_key tePath (filter go_source (trTree tree))" and "list_all good_entry selected"
    and "distinct (map tePath (trTree tree))" and "selected \<noteq> []" and "length selected \<le> 160"
    and "sint bytes = sum_list (map entry_size selected)" and "sint bytes \<le> 1048576"
proof -
  from assms obtain st where st: "fold_res visit_entry (trTree tree) \<lparr>tsSeen = {}, tsSelected = [], tsTotal = 0\<rparr> = Inr st"
    "tsSelected st \<noteq> []" "selected = sort_key tePath (tsSelected st)" "bytes = tsTotal st"
    by (auto simp: validateTree_def bind_res_Inr_iff split: if_splits)
  have "tree_inv [] \<lparr>tsSeen = {}, tsSelected = [], tsTotal = 0\<rparr>" by (simp add: tree_inv_def)
  from visit_entries_inv [OF this st(1)] have inv: "tree_inv (trTree tree) st" by simp
  have "mset (map entry_size selected) = mset (map entry_size (tsSelected st))" by (simp add: st(3))
  then have "sum_list (map entry_size selected) = sum_list (map entry_size (tsSelected st))"
    by (metis sum_mset_sum_list)
  moreover have "selected \<noteq> []" using st(2,3) by (metis length_0_conv length_sort)
  ultimately show "selected = sort_key tePath (filter go_source (trTree tree))" "list_all good_entry selected"
    "distinct (map tePath (trTree tree))" "selected \<noteq> []" "length selected \<le> 160"
    "sint bytes = sum_list (map entry_size selected)" "sint bytes \<le> 1048576"
    using inv st(2-4) by (auto simp: tree_inv_def list_all_iff)
qed

text \<open>C35. A tree that is accepted has at most 384 entries with different paths; what is selected is every Go file of it that
  is not executable, in the order of the paths, at most 160 files of at most 128 KiB each and 1 MiB together, and the
  total, a 64-bit bytes, is the bytes of the sizes.\<close>

theorem validateTree_bounds:
  assumes "validateTree tree = Inr (selected, bytes)"
  shows "selected = sort_key tePath (filter go_source (trTree tree)) \<and> sorted_wrt (<) (map tePath selected) \<and>
    length (trTree tree) \<le> 384 \<and> selected \<noteq> [] \<and> length selected \<le> 160 \<and>
    (\<forall>e \<in> set selected. validateTreePath (tePath e) = None \<and> fullSHA (teSHA e) \<and> 0 \<le> entry_size e \<and> entry_size e \<le> 131072) \<and>
    sint bytes = sum_list (map entry_size selected) \<and> sint bytes \<le> 1048576"
proof -
  note v = validateTree_Inr [OF assms]
  have "distinct (map tePath (sort_key tePath (filter go_source (trTree tree))))"
    using v(3) by (simp add: distinct_map inj_on_def)
  moreover have "sorted (map tePath (sort_key tePath (filter go_source (trTree tree))))" by (rule sorted_sort_key)
  ultimately have "sorted_wrt (<) (map tePath selected)" by (simp add: v(1) strict_sorted_iff)
  moreover have "length (trTree tree) \<le> 384"
    using assms by (auto simp: validateTree_def maxTreeEntries_def split: if_splits)
  ultimately show ?thesis using v by (auto simp: list_all_iff good_entry_def)
qed

definition demo_sha :: string where "demo_sha = replicate 40 CHR ''a''"

definition demo_entries :: "treeEntry list" where
  "demo_entries =
     [\<lparr>tePath = ''b/z.go'', teMode = ''100644'', teType = ''blob'', teSHA = demo_sha, teSize = Some 3\<rparr>,
      \<lparr>tePath = ''b'', teMode = ''040000'', teType = ''tree'', teSHA = demo_sha, teSize = None\<rparr>,
      \<lparr>tePath = ''a.go'', teMode = ''100644'', teType = ''blob'', teSHA = demo_sha, teSize = Some 131072\<rparr>,
      \<lparr>tePath = ''x.go'', teMode = ''100755'', teType = ''blob'', teSHA = demo_sha, teSize = Some 9999999\<rparr>]"

definition demo_tree :: treeResponse where
  "demo_tree = \<lparr>trSHA = demo_sha, trTruncated = False, trTree = demo_entries\<rparr>"

lemma demo_account:
  "accountGoEntry (demo_entries ! 0) 0 0 = Inr 3" "accountGoEntry (demo_entries ! 2) 3 1 = Inr 131075"
  by (simp_all add: accountGoEntry_def demo_entries_def maxFileBytes_def maxTotalBytes_def maxGoFiles_def)

lemma demo_classify:
  "map (\<lambda>e. map_sum id fst (classifyTreeEntry e {})) demo_entries = [Inr True, Inr False, Inr True, Inr False]"
  by code_simp

lemma classify_unseen:
  "classifyTreeEntry e {} = Inr (b, s) \<Longrightarrow> tePath e \<notin> seen \<Longrightarrow>
     classifyTreeEntry e seen = Inr (b, insert (tePath e) seen)"
  by (auto simp: classifyTreeEntry_def Let_def split: option.splits if_splits)

lemma demo_classified:
  assumes "i < 4" and "tePath (demo_entries ! i) \<notin> seen"
  shows "classifyTreeEntry (demo_entries ! i) seen = Inr (i = 0 \<or> i = 2, insert (tePath (demo_entries ! i)) seen)"
proof -
  have "i < length demo_entries" using assms(1) by (simp add: demo_entries_def)
  then have "map_sum id fst (classifyTreeEntry (demo_entries ! i) {}) = [Inr True, Inr False, Inr True, Inr False] ! i"
    using demo_classify by (metis (no_types, lifting) nth_map)
  also have "\<dots> = Inr (i = 0 \<or> i = 2)"
    using assms(1) by (auto simp: less_Suc_eq numeral_eq_Suc)
  finally have m: "map_sum id fst (classifyTreeEntry (demo_entries ! i) {}) = Inr (i = 0 \<or> i = 2)" .
  have "map_sum id fst x = Inr b \<Longrightarrow> \<exists>s. x = Inr (b, s)" for x :: "mat_error + (bool \<times> string set)" and b
    by (cases x) auto
  from this [OF m] obtain s where "classifyTreeEntry (demo_entries ! i) {} = Inr (i = 0 \<or> i = 2, s)" by blast
  from classify_unseen [OF this assms(2)] show ?thesis .
qed

lemma demo_validated:
  "validateTree demo_tree = Inr ([demo_entries ! 2, demo_entries ! 0], 131075)"
proof -
  have l: "demo_entries = [demo_entries ! 0, demo_entries ! 1, demo_entries ! 2, demo_entries ! 3]"
    and p: "tePath (demo_entries ! 0) = ''b/z.go''" "tePath (demo_entries ! 1) = ''b''" "tePath (demo_entries ! 2) = ''a.go''"
      "tePath (demo_entries ! 3) = ''x.go''"
    by (simp_all add: demo_entries_def)
  have s: "sort_key tePath [demo_entries ! 0, demo_entries ! 2] = [demo_entries ! 2, demo_entries ! 0]" by code_simp
  have "fold_res visit_entry [demo_entries ! 0, demo_entries ! 1, demo_entries ! 2, demo_entries ! 3]
      \<lparr>tsSeen = {}, tsSelected = [], tsTotal = 0\<rparr> =
    Inr \<lparr>tsSeen = {''x.go'', ''a.go'', ''b'', ''b/z.go''}, tsSelected = [demo_entries ! 0, demo_entries ! 2], tsTotal = 131075\<rparr>"
    by (simp add: visit_entry_def demo_classified demo_classified [of 1, simplified] p p(2) [simplified]
        demo_account demo_account(2) [simplified] Let_def)
  then have f: "fold_res visit_entry demo_entries \<lparr>tsSeen = {}, tsSelected = [], tsTotal = 0\<rparr> =
    Inr \<lparr>tsSeen = {''x.go'', ''a.go'', ''b'', ''b/z.go''}, tsSelected = [demo_entries ! 0, demo_entries ! 2], tsTotal = 131075\<rparr>"
    by (subst l)
  have "length demo_entries = 4" by (simp add: demo_entries_def)
  then show ?thesis
    unfolding validateTree_def demo_tree_def by (simp add: maxTreeEntries_def f s del: sort_key_simps)
qed

theorem validateTree_bounds_witness:
  "validateTree demo_tree = Inr ([demo_entries ! 2, demo_entries ! 0], 131075) \<and>
     sint (131075 :: 64 word) = sum_list (map entry_size [demo_entries ! 2, demo_entries ! 0])"
  using validateTree_bounds [OF demo_validated] demo_validated by blast

section \<open>Base64\<close>

text \<open>The encoding of RFC 4648 with padding.\<close>

definition char64 :: "nat \<Rightarrow> char" where
  "char64 n = alphabet64 ! n"

fun encode64 :: "string \<Rightarrow> string" where
  "encode64 [] = []"
| "encode64 [x] = [char64 (byte x div 4), char64 (byte x mod 4 * 16), CHR ''='', CHR ''='']"
| "encode64 [x, y] =
     [char64 (byte x div 4), char64 (byte x mod 4 * 16 + byte y div 16), char64 (byte y mod 16 * 4), CHR ''='']"
| "encode64 (x # y # z # s) =
     char64 (byte x div 4) # char64 (byte x mod 4 * 16 + byte y div 16) #
     char64 (byte y mod 16 * 4 + byte z div 64) # char64 (byte z mod 64) # encode64 s"

lemma alphabet64_facts: "length alphabet64 = 64" "distinct alphabet64" "CHR ''='' \<notin> set alphabet64"
  by (simp_all add: alphabet64_def)

lemma value64_Some: "value64 c = Some n \<Longrightarrow> n < 64 \<and> char64 n = c \<and> c \<noteq> CHR ''=''"
  using find_index_Some [of "\<lambda>d. d = c" alphabet64 n] alphabet64_facts nth_mem [of n alphabet64]
  by (auto simp: value64_def char64_def)

lemma value64_char64: "n < 64 \<Longrightarrow> value64 (char64 n) = Some n"
proof -
  assume n: "n < 64"
  then have "value64 (char64 n) \<noteq> None"
    using nth_mem [of n alphabet64] alphabet64_facts(1) by (simp add: char64_def value64_def)
  then obtain m where m: "value64 (char64 n) = Some m" by blast
  with value64_Some [OF m] n show ?thesis
    using nth_eq_iff_index_eq [OF alphabet64_facts(2), of m n] by (simp add: char64_def alphabet64_facts(1))
qed

lemma char_of_byte [simp]: "char_of (byte c) = c"
  by (simp add: byte_def)

lemma byte_bound [simp]: "byte c < 256"
  by (simp add: byte_def)

lemma byte_char_of [simp]: "n < 256 \<Longrightarrow> byte (char_of n) = n"
  by (simp add: byte_def)

lemma char64_not_pad: "n < 64 \<Longrightarrow> char64 n \<noteq> CHR ''=''"
  using value64_char64 value64_Some by blast

text \<open>The parts of three bytes, as sextets.\<close>

lemma sextets:
  fixes x y z :: nat
  assumes "x < 256" "y < 256" "z < 256"
  shows "x div 4 < 64" "x mod 4 * 16 + y div 16 < 64" "y mod 16 * 4 + z div 64 < 64" "z mod 64 < 64"
    "x div 4 * 4 + (x mod 4 * 16 + y div 16) div 16 = x"
    "(x mod 4 * 16 + y div 16) mod 16 * 16 + (y mod 16 * 4 + z div 64) div 4 = y"
    "(y mod 16 * 4 + z div 64) mod 4 * 64 + z mod 64 = z"
  using assms by (simp_all add: less_mult_imp_div_less)

lemma octets:
  fixes p q r s :: nat
  assumes "p < 64" "q < 64" "r < 64" "s < 64"
  shows "p * 4 + q div 16 < 256" "q mod 16 * 16 + r div 4 < 256" "r mod 4 * 64 + s < 256"
    "(p * 4 + q div 16) div 4 = p" "(p * 4 + q div 16) mod 4 * 16 + (q mod 16 * 16 + r div 4) div 16 = q"
    "(q mod 16 * 16 + r div 4) mod 16 * 4 + (r mod 4 * 64 + s) div 64 = r" "(r mod 4 * 64 + s) mod 64 = s"
  using assms by (simp_all add: less_mult_imp_div_less)

lemma decode_encode_quantum:
  "quantum (char64 (byte x div 4)) (char64 (byte x mod 4 * 16 + byte y div 16))
     (char64 (byte y mod 16 * 4 + byte z div 64)) (char64 (byte z mod 64)) = Some [x, y, z]"
  by (simp only: quantum_def value64_char64 sextets [OF byte_bound byte_bound byte_bound] option.case prod.case char_of_byte)

text \<open>decoding inverts encoding, wherever line ends are put in.\<close>

lemma decode_encode: "decode_quanta (encode64 s) = Some s"
proof (induction s rule: encode64.induct)
  case (2 x)
  have "byte x div 4 < 64" "byte x mod 4 * 16 < 64" "byte x div 4 * 4 + byte x mod 4 * 16 div 16 = byte x"
    "byte x mod 4 * 16 mod 16 = 0"
    using sextets [of "byte x" 0 0] by simp_all
  then show ?case by (simp add: last_quantum_def value64_char64)
next
  case (3 x y)
  have "byte x div 4 < 64" "byte x mod 4 * 16 + byte y div 16 < 64" "byte y mod 16 * 4 < 64"
    "byte x div 4 * 4 + (byte x mod 4 * 16 + byte y div 16) div 16 = byte x"
    "(byte x mod 4 * 16 + byte y div 16) mod 16 * 16 + byte y mod 16 * 4 div 4 = byte y"
    using sextets [of "byte x" "byte y" 0] by simp_all
  then show ?case by (simp add: last_quantum_def value64_char64 char64_not_pad)
next
  case (4 x y z s)
  have p: "char64 (byte z mod 64) \<noteq> CHR ''=''" by (simp add: char64_not_pad)
  show ?case
  proof (cases "encode64 s")
    case Nil
    with 4 have "s = []" by simp
    with p show ?thesis by (simp add: last_quantum_def decode_encode_quantum)
  next
    case (Cons e t)
    with 4 show ?thesis by (simp add: decode_encode_quantum)
  qed
qed simp

lemma quantum_encodes:
  assumes "quantum a b c d = Some x"
  shows "encode64 (x @ s) = a # b # c # d # encode64 s \<and> d \<noteq> CHR ''=''"
proof -
  from assms obtain p q r t where v: "value64 a = Some p" "value64 b = Some q" "value64 c = Some r" "value64 d = Some t"
    and x: "x = [char_of (p * 4 + q div 16), char_of (q mod 16 * 16 + r div 4), char_of (r mod 4 * 64 + t)]"
    by (auto simp: quantum_def split: option.splits)
  note w = value64_Some [OF v(1)] value64_Some [OF v(2)] value64_Some [OF v(3)] value64_Some [OF v(4)]
  with octets [of p q r t] show ?thesis by (simp add: x)
qed

lemma last_quantum_encodes:
  assumes "last_quantum a b c d = Some x"
  shows "encode64 x = [a, b, c, d]"
proof (cases "d = CHR ''=''")
  case False
  with assms quantum_encodes [of a b c d x "[]"] show ?thesis by (simp add: last_quantum_def)
next
  case d: True
  show ?thesis
  proof (cases "c = CHR ''=''")
    case True
    with assms d obtain p q where v: "value64 a = Some p" "value64 b = Some q" "q mod 16 = 0" "x = [char_of (p * 4 + q div 16)]"
      by (auto simp: last_quantum_def split: option.splits if_splits)
    with value64_Some [OF v(1)] value64_Some [OF v(2)] octets [of p q 0 0] d True show ?thesis by simp
  next
    case False
    with assms d obtain p q r where v: "value64 a = Some p" "value64 b = Some q" "value64 c = Some r" "r mod 4 = 0"
      "x = [char_of (p * 4 + q div 16), char_of (q mod 16 * 16 + r div 4)]"
      by (auto simp: last_quantum_def split: option.splits if_splits)
    with value64_Some [OF v(1)] value64_Some [OF v(2)] value64_Some [OF v(3)] octets [of p q r 0] d
    show ?thesis by simp
  qed
qed

lemma decode_canonical: "decode_quanta s = Some x \<Longrightarrow> encode64 x = s"
proof (induction s arbitrary: x rule: decode_quanta.induct)
  case (2 a b c d)
  then show ?case by (simp add: last_quantum_encodes)
next
  case (3 a b c d e s)
  then obtain y z where "quantum a b c d = Some y" "decode_quanta (e # s) = Some z" "x = y @ z"
    by (auto split: option.splits)
  with 3 quantum_encodes [of a b c d y z] show ?case by (auto split: option.splits)
qed simp_all

text \<open>A text is accepted exactly when it is, up to line ends, the encoding of the bytes that are returned: of several
  encodings of the same bytes only one is.\<close>

theorem DecodeString_strict:
  "DecodeString s = Some x \<longleftrightarrow> filter (\<lambda>c. byte c \<noteq> 10 \<and> byte c \<noteq> 13) s = encode64 x"
proof
  assume "DecodeString s = Some x"
  then show "filter (\<lambda>c. byte c \<noteq> 10 \<and> byte c \<noteq> 13) s = encode64 x"
    unfolding DecodeString_def by (rule decode_canonical [symmetric])
next
  assume "filter (\<lambda>c. byte c \<noteq> 10 \<and> byte c \<noteq> 13) s = encode64 x"
  then show "DecodeString s = Some x" by (simp only: DecodeString_def decode_encode)
qed

text \<open>C37. a blob of the API is accepted with certain contents exactly when its identity, size and encoding are those
  of the tree's entry and its text is, up to line ends, the one base64 encoding of contents that have that size
  and hash to that identity: nothing that differs in a byte is accepted, and every faithful answer is.\<close>

theorem fetched_blob_exact:
  "check_blob sha1 entry blob = Inr data \<longleftrightarrow>
     (\<exists>n. teSize entry = Some n \<and> blSHA blob = teSHA entry \<and> blSize blob = n \<and> blEncoding blob = ''base64'' \<and>
        filter (\<lambda>c. byte c \<noteq> 10 \<and> byte c \<noteq> 13) (blContent blob) = encode64 data \<and>
        int (length data) = sint n \<and> length data \<le> 131072 \<and> sha1 (git_blob data) = teSHA entry)"
proof -
  have "filter (\<lambda>c. byte c \<noteq> 10 \<and> byte c \<noteq> 13) (ReplaceAll s [CHR 0x0A] []) =
      filter (\<lambda>c. byte c \<noteq> 10 \<and> byte c \<noteq> 13) s" for s
    by (auto simp: drop_char byte_def intro!: filter_cong)
  then have "DecodeString (ReplaceAll s [CHR 0x0A] []) = DecodeString s" for s by (simp add: DecodeString_def)
  then show ?thesis
    by (auto simp: check_blob_def DecodeString_strict [symmetric] maxFileBytes_def split: option.splits)
qed

section \<open>Paths below the output\<close>

definition below :: "string \<Rightarrow> string \<Rightarrow> bool" where
  "below p q \<longleftrightarrow> q = p \<or> HasPrefix q (p @ ''/'')"

lemma join_below: "plain_path d \<Longrightarrow> plain_path e \<Longrightarrow> below d (JoinPath [d, e])"
  using HasPrefix_self_append [of "d @ ''/''" e] by (simp add: plain_join(1) below_def)

lemma below_trans: "below a b \<Longrightarrow> below b c \<Longrightarrow> below a c"
proof -
  assume ab: "below a b" and bc: "below b c"
  show ?thesis
  proof (cases "b = a \<or> c = b")
    case False
    with ab bc have "HasPrefix b (a @ ''/'')" "HasPrefix c (b @ ''/'')" by (auto simp: below_def)
    then show ?thesis
      by (auto simp: below_def HasPrefix_iff prefix_def)
  qed (use ab bc in auto)
qed

lemma clean_stack_names:
  assumes "local_depth (length out) es" and "\<forall>e \<in> set out. plain_elem e" and "\<forall>e \<in> set es. CHR ''/'' \<notin> set e"
  shows "\<forall>e \<in> set (clean_stack False out es). plain_elem e"
  using assms
proof (induction es arbitrary: out)
  case (Cons e es)
  consider "e = '''' \<or> e = ''.''" | "e = ''..''" | "plain_elem e" "e \<noteq> ''''" "e \<noteq> ''.''" "e \<noteq> ''..''"
    using Cons.prems(3) by (auto simp: plain_elem_def)
  then show ?case
  proof cases
    case 1
    with Cons show ?thesis by auto
  next
    case 2
    then obtain o1 os where out: "out = o1 # os" using Cons.prems(1) by (cases out) auto
    with Cons.prems(2) have "o1 \<noteq> ''..''" by (auto simp: plain_elem_def)
    with 2 out Cons.prems Cons.IH [of os] show ?thesis by simp
  next
    case 3
    with Cons.prems Cons.IH [of "e # out"] show ?thesis by simp
  qed
qed simp

text \<open>A local path that is its own cleaning is made of names, unless it is the directory itself.\<close>

lemma local_plain:
  assumes "IsLocal p" and "Clean p = p" and "p \<noteq> ''.''"
  shows "plain_path p"
proof -
  have "local_depth (length ([] :: string list)) (Split p ''/'')" "\<not> IsAbs p" using assms(1) by (simp_all add: IsLocal_def)
  with clean_stack_names [of "[]" "Split p ''/''"] Split_slash_free [of _ p]
  have pl: "\<forall>e \<in> set (clean_elems p). plain_elem e" by (auto simp: clean_elems_def)
  have "clean_elems p \<noteq> [] \<and> Clean p = Join (clean_elems p) ''/''"
    using assms(2,3) \<open>\<not> IsAbs p\<close> by (auto simp: Clean_def Let_def split: if_splits)
  with pl assms(2) show ?thesis by (auto simp: plain_path_iff)
qed

text \<open>The directory of a path of names: the directory itself or again a path of names.\<close>

lemma Dir_plain:
  assumes "plain_path p"
  shows "Dir p = ''.'' \<or> plain_path (Dir p)"
proof (cases "LastIndexByte p CHR ''/''")
  case None
  then show ?thesis by (simp add: Dir_def Clean_def clean_elems_def Split_def IsAbs_def HasPrefix_def)
next
  case (Some i)
  from Dir_last_slash [OF this] obtain q r where q: "p = q @ CHR ''/'' # r" "take (Suc i) p = q @ ''/''" by auto
  have "Split p ''/'' = Split q ''/'' @ Split r ''/''" using Split_append [of "''/''" q r] by (simp add: q(1))
  with assms have "\<forall>e \<in> set (Split q ''/''). plain_elem e" by (simp add: plain_path_def list_all_iff)
  moreover have "Split (q @ ''/'') ''/'' = Split q ''/'' @ [[]]"
    using Split_append [of "''/''" q "[]"] by (simp add: Split_def)
  moreover have app: "clean_stack b out (es @ [[]]) = clean_stack b out es" for b out es
    by (induction es arbitrary: out) (auto split: list.split)
  ultimately have c: "clean_elems (q @ ''/'') = Split q ''/''"
    by (simp add: clean_elems_def clean_stack_plain)
  have "plain_path q" using \<open>\<forall>e \<in> set (Split q ''/''). plain_elem e\<close> by (simp add: plain_path_def list_all_iff)
  then have "\<not> IsAbs (q @ ''/'')"
  proof -
    have "q \<noteq> []" "\<not> IsAbs q"
    proof -
      show "q \<noteq> []" using \<open>plain_path q\<close> by (auto simp: plain_path_def Split_def plain_elem_def)
      show "\<not> IsAbs q"
      proof
        assume "IsAbs q"
        then obtain q' where "q = CHR ''/'' # q'" by (cases q) (auto simp: IsAbs_def HasPrefix_def)
        with \<open>plain_path q\<close> show False by (simp add: plain_path_def Split_Cons_sep plain_elem_def)
      qed
    qed
    then show ?thesis by (cases q) (auto simp: IsAbs_def HasPrefix_def)
  qed
  with c have "Clean (q @ ''/'') = q" by (simp add: Clean_def Join_Split)
  with q(2) Some \<open>plain_path q\<close> show ?thesis by (simp add: Dir_def)
qed

section \<open>What the file system promises\<close>

datatype node = NDir | NLink | NFile string nat

text \<open>
  The laws of the interface, on the tree of the world and the open files: nothing that is there is replaced, a file is
  written through its open file only, and an operation that fails changes nothing, but for a removal, which may have
  removed something. The network does not touch the tree.
\<close>

locale source_tree =
  fixes net :: "'w network" and fs :: "'w fileSystem"
    and tree :: "'w \<Rightarrow> string \<rightharpoonup> node" and opened :: "'w \<Rightarrow> nat \<rightharpoonup> string"
  assumes Do_law: "tree (snd (http_Do net req w)) = tree w"
    and Mkdir_law: "fs_Mkdir fs p m w = (e, w') \<Longrightarrow>
      (case e of None \<Rightarrow> tree w p = None \<and> p \<noteq> ''.'' \<and> tree w' = (tree w)(p \<mapsto> NDir) | Some _ \<Rightarrow> tree w' = tree w)"
    and Lstat_law: "tree (snd (fs_Lstat fs p w)) = tree w"
    and Open_law: "fs_OpenExclusive fs p m w = (r, w') \<Longrightarrow>
      (case r of Inl _ \<Rightarrow> tree w' = tree w
       | Inr f \<Rightarrow> tree w p = None \<and> (\<exists>m'. tree w' = (tree w)(p \<mapsto> NFile [] m')) \<and> opened w' f = Some p)"
    and Write_law: "opened w f = Some p \<Longrightarrow> tree w p = Some (NFile s m) \<Longrightarrow> file_Write fs f data w = ((n, e), w') \<Longrightarrow>
      tree w' = (tree w)(p \<mapsto> NFile (s @ take n data) m) \<and> opened w' = opened w"
    and Chmod_law: "opened w f = Some p \<Longrightarrow> tree w p = Some (NFile s m) \<Longrightarrow> file_Chmod fs f m' w = (e, w') \<Longrightarrow>
      tree w' = (case e of None \<Rightarrow> (tree w)(p \<mapsto> NFile s m') | Some _ \<Rightarrow> tree w) \<and> opened w' = opened w"
    and Close_law: "tree (snd (file_Close fs f w)) = tree w"
    and RemoveAll_law: "fs_RemoveAll fs p w = (e, w') \<Longrightarrow>
      (\<forall>q. \<not> below p q \<longrightarrow> tree w' q = tree w q) \<and> (\<forall>q. e = None \<and> below p q \<longrightarrow> tree w' q = None)"
begin

text \<open>Directories were made, at free places below a directory.\<close>

definition dirs_made :: "string \<Rightarrow> 'w \<Rightarrow> 'w \<Rightarrow> bool" where
  "dirs_made root w w' \<longleftrightarrow> (\<forall>q. tree w' q = tree w q \<or> tree w q = None \<and> tree w' q = Some NDir \<and> below root q)"

lemma dirs_made_trans: "dirs_made root w w' \<Longrightarrow> dirs_made root w' w'' \<Longrightarrow> dirs_made root w w''"
  unfolding dirs_made_def by (metis option.distinct(1))

lemma dirs_made_refl [simp]: "tree w' = tree w \<Longrightarrow> dirs_made root w w'"
  by (simp add: dirs_made_def)

lemma parent_directory_made:
  assumes "parent_directory fs d w = (r, w')" and "below root d"
  shows "dirs_made root w w'"
proof (cases "fs_Lstat fs d w")
  case (Pair l w1)
  then have 1: "tree w1 = tree w" using Lstat_law [of d w] by simp
  show ?thesis
  proof (cases l)
    case NotExist
    obtain e w2 where m: "fs_Mkdir fs d 493 w1 = (e, w2)" by fastforce
    with assms(1) Pair NotExist have "w' = w2" by (auto simp: parent_directory_def op_try_def split: option.splits)
    with Mkdir_law [OF m] 1 assms(2) show ?thesis
      by (cases e) (auto simp: dirs_made_def)
  qed (use assms(1) Pair 1 in \<open>auto simp: parent_directory_def split: if_splits\<close>)
qed

lemma parent_directories_made:
  assumes "parent_directories fs d parts w = (r, w')" and "below root d" and "plain_path d" and "\<forall>e \<in> set parts. plain_elem e"
  shows "dirs_made root w w'"
  using assms
proof (induction parts arbitrary: d w)
  case (Cons e parts)
  let ?d = "JoinPath [d, e]"
  have e: "plain_path e" using Cons.prems(4) by (simp add: plain_path_elem)
  note j = plain_join [OF Cons.prems(3) e]
  have b: "below root ?d" using below_trans [OF Cons.prems(2) join_below [OF Cons.prems(3) e]] .
  obtain r1 w1 where p: "parent_directory fs ?d w = (r1, w1)" by fastforce
  note m = parent_directory_made [OF p b]
  show ?case
  proof (cases r1)
    case (Inl _)
    with Cons.prems(1) p m show ?thesis by (simp add: Let_def op_then_def op_bind_def)
  next
    case (Inr u)
    with Cons.prems(1) p have "parent_directories fs ?d parts w1 = (r, w')" by (simp add: Let_def op_then_def op_bind_def)
    from Cons.IH [OF this b j(2)] Cons.prems(4) m show ?thesis by (auto intro: dirs_made_trans)
  qed
qed (simp add: op_return_def)

lemma parents_made:
  assumes "ensureParentDirectories fs root relative w = (r, w')" and "plain_path root" and "plain_path relative"
  shows "dirs_made root w w'"
proof (cases "Dir relative = ''.''")
  case True
  with assms(1) show ?thesis by (simp add: ensureParentDirectories_def Split_char_none op_return_def)
next
  case False
  with Dir_plain [OF assms(3)] have "\<forall>e \<in> set (Split (Dir relative) ''/''). plain_elem e"
    by (simp add: plain_path_def list_all_iff)
  with assms parent_directories_made [of root "Split (Dir relative) ''/''" w r w' root] show ?thesis
    by (auto simp: ensureParentDirectories_def below_def Let_def op_return_def split: if_splits)
qed

text \<open>What writing one file leaves: new directories, and at a place that was free the file.\<close>

definition file_made :: "string \<Rightarrow> string \<Rightarrow> 'w \<Rightarrow> 'w \<Rightarrow> bool" where
  "file_made root dest w w' \<longleftrightarrow>
     (\<forall>q. tree w' q = tree w q \<or> tree w q = None \<and> below root q \<and> (q = dest \<or> tree w' q = Some NDir))"

lemma write_open_made:
  assumes "write_open fs relative data f w = (r, w')" and "opened w f = Some p" and "tree w p = Some (NFile [] m)"
  shows "(\<forall>q. q \<noteq> p \<longrightarrow> tree w' q = tree w q) \<and> (r = Inr () \<longrightarrow> tree w' p = Some (NFile data 420))"
proof -
  obtain n e w1 where wr: "file_Write fs f data w = ((n, e), w1)" by (metis prod.collapse)
  note 1 = Write_law [OF assms(2,3) wr]
  note cl = Close_law [of f]
  show ?thesis
  proof (cases "e = None \<and> n = length data")
    case False
    then have "tree w' = tree w1 \<and> (\<exists>x. r = Inl x)"
      using assms(1) wr cl [of w1] by (cases e) (auto simp: write_open_def op_then_def op_bind_def close_after_def writeOnce_def)
    with 1 show ?thesis by auto
  next
    case True
    with 1 have o: "opened w1 f = Some p" "tree w1 p = Some (NFile data m)" using assms(2) by simp_all
    obtain e2 w2 where ch: "file_Chmod fs f 420 w1 = (e2, w2)" by fastforce
    note 2 = Chmod_law [OF o ch]
    show ?thesis
    proof (cases e2)
      case (Some x)
      then have "tree w' = tree w2 \<and> (\<exists>x. r = Inl x)"
        using assms(1) wr True ch cl [of w2]
        by (auto simp: write_open_def op_then_def op_bind_def close_after_def writeOnce_def op_try_def)
      with 1 2 Some show ?thesis by auto
    next
      case None
      then have "tree w' = tree w2"
        using assms(1) wr True ch cl [of w2]
        by (auto simp: write_open_def op_then_def op_bind_def close_after_def writeOnce_def op_try_def split: option.splits prod.splits)
      with 1 2 None show ?thesis by auto
    qed
  qed
qed

lemma writeExclusive_made:
  assumes "writeExclusive fs root relative data w = (r, w')" and "plain_path root" and "plain_path relative"
  shows "file_made root (root @ ''/'' @ relative) w w' \<and>
    (r = Inr () \<longrightarrow> tree w (root @ ''/'' @ relative) = None \<and> tree w' (root @ ''/'' @ relative) = Some (NFile data 420))"
proof -
  let ?p = "root @ ''/'' @ relative"
  note j = plain_join [OF assms(2,3)]
  have b: "below root ?p" using j(1) join_below [OF assms(2,3)] by simp
  obtain r1 w1 where p: "ensureParentDirectories fs root relative w = (r1, w1)" by fastforce
  note d = parents_made [OF p assms(2,3)]
  show ?thesis
  proof (cases r1)
    case (Inl e)
    with assms(1) p d show ?thesis
      by (auto simp: writeExclusive_def op_then_def op_bind_def file_made_def dirs_made_def)
  next
    case (Inr u)
    obtain r2 w2 where o: "fs_OpenExclusive fs ?p 384 w1 = (r2, w2)" by fastforce
    note ol = Open_law [OF o]
    show ?thesis
    proof (cases r2)
      case (Inl e)
      with assms(1) p o ol d \<open>r1 = Inr u\<close> j(1) show ?thesis
        by (auto simp: writeExclusive_def op_then_def op_bind_def file_made_def dirs_made_def)
    next
      case f: (Inr f)
      with ol obtain m where t: "tree w1 ?p = None" "tree w2 = (tree w1)(?p \<mapsto> NFile [] m)" "opened w2 f = Some ?p" by auto
      have wr: "write_open fs relative data f w2 = (r, w')"
        using assms(1) p o f \<open>r1 = Inr u\<close> j(1) by (simp add: writeExclusive_def op_then_def op_bind_def)
      have "tree w2 ?p = Some (NFile [] m)" using t(2) by simp
      note wm = write_open_made [OF wr t(3) this]
      have free: "tree w ?p = None" using d t(1) unfolding dirs_made_def by (metis option.distinct(1))
      have "tree w' q = tree w q \<or> tree w q = None \<and> below root q \<and> (q = ?p \<or> tree w' q = Some NDir)" for q
      proof (cases "q = ?p")
        case True
        with free b show ?thesis by simp
      next
        case False
        with wm t(2) have "tree w' q = tree w1 q" by simp
        with d show ?thesis by (auto simp: dirs_made_def)
      qed
      with wm free show ?thesis by (simp add: file_made_def)
    qed
  qed
qed

lemma get_keeps: "keeps tree (api_get net c decode endpoint)"
  unfolding keeps_def api_get_def using Do_law
  by (auto split: prod.splits sum.splits) (metis snd_conv)+

lemma get_repo_keeps: "keeps tree (get_repo net c decode repo path_end)"
  unfolding get_repo_def by (intro keeps_intros get_keeps)

lemma check_keeps [keeps_intros]: "keeps tree (op_check b e)"
  unfolding op_check_def by (intro keeps_intros)

lemma fetch_keeps: "keeps tree (fetchBlob net c repo e)"
  unfolding fetchBlob_def by (intro keeps_intros get_repo_keeps)

lemma load_keeps: "keeps tree (loadValidatedTree net c cfg)"
  unfolding loadValidatedTree_def case_prod_beta by (intro keeps_intros get_repo_keeps)

lemma verify_keeps: "keeps tree (verifyCurrentHead net c cfg)"
  unfolding verifyCurrentHead_def by (intro keeps_intros get_repo_keeps)

end

context source_tree
begin

text \<open>What was written: below the root only directories and the selected files are new.\<close>

definition only_selected :: "string \<Rightarrow> treeEntry list \<Rightarrow> 'w \<Rightarrow> 'w \<Rightarrow> bool" where
  "only_selected root sel w w' \<longleftrightarrow>
     (\<forall>q. tree w' q = tree w q \<or>
       tree w q = None \<and> below root q \<and> (q \<in> (\<lambda>e. root @ ''/'' @ tePath e) ` set sel \<or> tree w' q = Some NDir))"

definition verified :: "string \<Rightarrow> treeEntry \<Rightarrow> 'w \<Rightarrow> bool" where
  "verified root e w \<longleftrightarrow> (\<exists>data. tree w (root @ ''/'' @ tePath e) = Some (NFile data 420) \<and>
     sha1_hex net (git_blob data) = teSHA e \<and> int (length data) = entry_size e)"

lemma fetched:
  assumes "fetchBlob net c repo e w = (Inr data, w')"
  shows "tree w' = tree w \<and> sha1_hex net (git_blob data) = teSHA e \<and> int (length data) = entry_size e"
proof -
  have t: "tree w' = tree w" by (rule keepsD [OF fetch_keeps assms])
  from assms obtain blob where "check_blob (sha1_hex net) e blob = Inr data"
    by (auto simp: fetchBlob_def op_bind_Inr op_lift_def)
  then have "sha1_hex net (git_blob data) = teSHA e \<and> int (length data) = entry_size e"
    unfolding check_blob_def entry_size_def
    by (cases "teSize e"; cases "DecodeString (ReplaceAll (blContent blob) [CHR 0x0A] [])") (simp_all split: if_splits)
  with t show ?thesis by simp
qed

lemma selected_files_made:
  assumes "materializeSelectedFiles net c fs cfg sel w = (r, w')" and "plain_path (cfgOutput cfg)"
    and "\<forall>e \<in> set sel. plain_path (tePath e)"
  shows "only_selected (cfgOutput cfg) sel w w' \<and> (r = Inr () \<longrightarrow> (\<forall>e \<in> set sel. verified (cfgOutput cfg) e w'))"
  using assms
proof (induction sel arbitrary: w)
  case Nil
  then show ?case by (simp add: materializeSelectedFiles_def op_return_def only_selected_def)
next
  case (Cons e sel)
  let ?root = "cfgOutput cfg"
  obtain r1 w1 where f: "fetchBlob net c (cfgHeadRepository cfg) e w = (r1, w1)" by fastforce
  have t1: "tree w1 = tree w" using keepsD [OF fetch_keeps f] .
  show ?case
  proof (cases r1)
    case (Inl x)
    with Cons.prems(1) f t1 show ?thesis
      by (auto simp: materializeSelectedFiles_def op_then_def op_bind_def only_selected_def)
  next
    case (Inr data)
    obtain r2 w2 where wr: "writeExclusive fs ?root (tePath e) data w1 = (r2, w2)" by fastforce
    from writeExclusive_made [OF wr Cons.prems(2)] Cons.prems(3)
    have m: "file_made ?root (?root @ ''/'' @ tePath e) w1 w2"
      "r2 = Inr () \<Longrightarrow> tree w2 (?root @ ''/'' @ tePath e) = Some (NFile data 420)" by auto
    from m(1) t1 have o1: "only_selected ?root (e # sel) w w2" by (auto simp: file_made_def only_selected_def)
    show ?thesis
    proof (cases r2)
      case (Inl x)
      with Cons.prems(1) f wr Inr o1 show ?thesis
        by (auto simp: materializeSelectedFiles_def op_then_def op_bind_def)
    next
      case ok: (Inr u)
      with Cons.prems(1) f wr Inr have "materializeSelectedFiles net c fs cfg sel w2 = (r, w')"
        by (simp add: materializeSelectedFiles_def op_then_def op_bind_def)
      note IH = Cons.IH [OF this Cons.prems(2)]
      with Cons.prems(3) have o2: "only_selected ?root sel w2 w'" by simp
      have "only_selected ?root (e # sel) w w'"
        using o1 o2 unfolding only_selected_def by (smt (verit) image_insert insertCI list.simps(15) option.distinct(1))
      moreover have "tree w' (?root @ ''/'' @ tePath e) = Some (NFile data 420)"
        using o2 m(2) ok unfolding only_selected_def by (metis old.unit.exhaust option.distinct(1))
      then have "verified ?root e w'" using fetched [OF f [unfolded Inr]] by (auto simp: verified_def)
      ultimately show ?thesis using IH Cons.prems(3) by auto
    qed
  qed
qed

lemma loaded:
  assumes "loadValidatedTree net c cfg w = (Inr v, w')"
  shows "\<exists>t. validateTree t = Inr (vtSelected v, vtTotalSize v) \<and> trSHA t = vtSha v"
  using assms
  by (auto simp: loadValidatedTree_def op_bind_Inr op_then_def op_lift_def op_return_def)

lemma outcome:
  assumes "materialize net c fs cfg w = (r, w')" and "IsLocal (cfgOutput cfg)" and "Clean (cfgOutput cfg) = cfgOutput cfg"
    and "tree w (cfgOutput cfg) = None \<Longrightarrow> \<forall>q. below (cfgOutput cfg) q \<longrightarrow> tree w q = None"
  shows "(\<forall>q. \<not> below (cfgOutput cfg) q \<longrightarrow> tree w' q = tree w q) \<and>
    (case r of
       Inl _ \<Rightarrow> cfgOutput cfg = ''.'' \<or> tree w (cfgOutput cfg) \<noteq> None \<or> (\<forall>w. fst (fs_RemoveAll fs (cfgOutput cfg) w) = None) \<longrightarrow> tree w' = tree w
     | Inr res \<Rightarrow> tree w (cfgOutput cfg) = None \<and>
         (\<exists>t sel. validateTree t = Inr (sel, mrTotalSize res) \<and> trSHA t = mrTreeSHA res \<and> mrFileCount res = length sel \<and>
           only_selected (cfgOutput cfg) sel w w' \<and> (\<forall>e \<in> set sel. verified (cfgOutput cfg) e w')))"
proof -
  let ?out = "cfgOutput cfg"
  obtain r1 w1 where l: "loadValidatedTree net c cfg w = (r1, w1)" by fastforce
  have t1: "tree w1 = tree w" using keepsD [OF load_keeps l] .
  show ?thesis
  proof (cases "cfgBounds cfg = reviewedBounds \<and> (\<exists>v. r1 = Inr v)")
    case False
    then have "tree w' = tree w \<and> (\<exists>e. r = Inl e)"
      using assms(1) l t1
      by (cases r1) (auto simp: materialize_def op_then_def op_bind_def op_check_def op_lift_def check_def split: if_splits)
    then show ?thesis by auto
  next
    case True
    then obtain v where v: "cfgBounds cfg = reviewedBounds" "r1 = Inr v" by blast
    obtain e2 w2 where mk: "fs_Mkdir fs ?out 493 w1 = (e2, w2)" by fastforce
    note ml = Mkdir_law [OF mk]
    let ?body = "op_then (materializeSelectedFiles net c fs cfg (vtSelected v)) (
       op_then (verifyCurrentHead net c cfg) (
       op_return \<lparr>mrTreeSHA = vtSha v, mrFileCount = length (vtSelected v), mrTotalSize = vtTotalSize v\<rparr>))"
    show ?thesis
    proof (cases e2)
      case (Some x)
      then have "tree w' = tree w \<and> (\<exists>e. r = Inl e)"
        using assms(1) l v mk ml t1
        by (auto simp: materialize_def op_then_def op_bind_def op_check_def op_lift_def check_def op_try_def)
      then show ?thesis by auto
    next
      case None
      with ml t1 have free: "tree w ?out = None" "?out \<noteq> ''.''" "tree w2 = (tree w)(?out \<mapsto> NDir)" by auto
      from local_plain [OF assms(2,3) free(2)] have plain: "plain_path ?out" .
      obtain r3 w3 where b: "?body w2 = (r3, w3)" by fastforce
      have rest: "unless_complete fs ?out ?body w2 = (r, w')"
        using assms(1) l v mk None
        by (simp add: materialize_def op_then_def op_bind_def op_check_def op_lift_def check_def op_try_def)
      obtain t where t: "validateTree t = Inr (vtSelected v, vtTotalSize v)" "trSHA t = vtSha v"
        using loaded [OF l [unfolded v(2)]] by blast
      have paths: "\<forall>e \<in> set (vtSelected v). plain_path (tePath e)"
        using validateTree_Inr(2) [OF t(1)] by (simp add: list_all_iff good_entry_def validateTreePath_None)
      obtain r4 w4 where sf: "materializeSelectedFiles net c fs cfg (vtSelected v) w2 = (r4, w4)" by fastforce
      note made = selected_files_made [OF sf plain paths]
      have t34: "tree w3 = tree w4"
      proof -
        obtain r5 w5 where vc: "verifyCurrentHead net c cfg w4 = (r5, w5)" by fastforce
        have "tree w5 = tree w4" by (rule keepsD [OF verify_keeps vc])
        with b sf vc show ?thesis by (cases r4; cases r5) (auto simp: op_then_def op_bind_def op_return_def)
      qed
      have "only_selected ?out (vtSelected v) w w3"
        using made free t34 unfolding only_selected_def by (auto simp: below_def split: if_splits)
      then have o: "only_selected ?out (vtSelected v) w w3" .
      show ?thesis
      proof (cases r3)
        case (Inl e)
        obtain e5 w5 where rm: "fs_RemoveAll fs ?out w3 = (e5, w5)" by fastforce
        with rest b Inl have w': "w' = w5" "r = Inl e" by (auto simp: unless_complete_def)
        note rl = RemoveAll_law [OF rm]
        have out: "\<forall>q. \<not> below ?out q \<longrightarrow> tree w' q = tree w q"
          using o rl unfolding w'(1) only_selected_def by metis
        have "tree w' = tree w" if "\<forall>w. fst (fs_RemoveAll fs ?out w) = None"
        proof
          fix q
          from that rm have "e5 = None" by (metis fst_conv)
          with rl assms(4) [OF free(1)] out w'(1) show "tree w' q = tree w q" by (cases "below ?out q") auto
        qed
        with out w'(2) free(1,2) show ?thesis by simp
      next
        case (Inr res)
        with rest b have w': "w' = w3" "r = Inr res" by (auto simp: unless_complete_def)
        from b sf Inr have "r4 = Inr ()" and res: "res = \<lparr>mrTreeSHA = vtSha v, mrFileCount = length (vtSelected v),
            mrTotalSize = vtTotalSize v\<rparr>"
          by (auto simp: op_then_def op_bind_Inr op_return_def)
        with made t34 have "\<forall>e \<in> set (vtSelected v). verified ?out e w3" by (auto simp: verified_def)
        with o t res free(1) show ?thesis
          unfolding w' by (auto simp: only_selected_def)
      qed
    qed
  qed
qed

end

section \<open>The operating system\<close>

text \<open>
  \<open>osFileSystem\<close> calls package \<open>os\<close>. The clock counts the calls: a call may fail with the fault of its number, and
  a write may write less. The number of an open file is that of the call that opened it. A removal may fail.
\<close>

record os =
  os_tree :: "string \<rightharpoonup> node"
  os_files :: "nat \<rightharpoonup> string"
  os_clock :: nat
  os_fault :: "nat \<Rightarrow> string option"
  os_written :: "nat \<Rightarrow> nat"
  os_http :: "nat \<Rightarrow> http_request \<Rightarrow> string + nat \<times> string"

definition os_tick :: "os \<Rightarrow> os" where
  "os_tick w = w\<lparr>os_clock := Suc (os_clock w)\<rparr>"

definition os_directory :: "os \<Rightarrow> string \<Rightarrow> bool" where
  "os_directory w p \<longleftrightarrow> p = ''.'' \<or> p = ''/'' \<or> os_tree w p = Some NDir \<or> os_tree w p = Some NLink"

definition os_create :: "string \<Rightarrow> node \<Rightarrow> os \<Rightarrow> string option \<times> os" where
  "os_create p n w =
     (case os_fault w (os_clock w) of
        Some e \<Rightarrow> (Some e, os_tick w)
      | None \<Rightarrow>
          if p = ''.'' \<or> os_tree w p \<noteq> None then (Some ''file exists'', os_tick w)
          else if \<not> os_directory w (Dir p) then (Some ''no such file or directory'', os_tick w)
          else (None, os_tick (w\<lparr>os_tree := (os_tree w)(p \<mapsto> n)\<rparr>)))"

definition os_Mkdir :: "string \<Rightarrow> nat \<Rightarrow> os \<Rightarrow> string option \<times> os" where
  "os_Mkdir p m = os_create p NDir"

definition os_Lstat :: "string \<Rightarrow> os \<Rightarrow> lstat \<times> os" where
  "os_Lstat p w =
     (case os_fault w (os_clock w) of
        Some e \<Rightarrow> (LstatError e, os_tick w)
      | None \<Rightarrow>
          ((case os_tree w p of None \<Rightarrow> NotExist | Some NDir \<Rightarrow> FileInfo True False | Some NLink \<Rightarrow> FileInfo False True
            | Some (NFile _ _) \<Rightarrow> FileInfo False False), os_tick w))"

definition os_OpenExclusive :: "string \<Rightarrow> nat \<Rightarrow> os \<Rightarrow> (string + nat) \<times> os" where
  "os_OpenExclusive p m w =
     (case os_create p (NFile [] m) w of
        (Some e, w') \<Rightarrow> (Inl e, w')
      | (None, w') \<Rightarrow> (Inr (os_clock w), w'\<lparr>os_files := (os_files w')(os_clock w \<mapsto> p)\<rparr>))"

definition os_RemoveAll :: "string option \<Rightarrow> string \<Rightarrow> os \<Rightarrow> string option \<times> os" where
  "os_RemoveAll removal p w =
     (case removal of
        Some e \<Rightarrow> (Some e, os_tick w)
      | None \<Rightarrow> (None, os_tick (w\<lparr>os_tree := (\<lambda>q. if below p q then None else os_tree w q)\<rparr>)))"

definition os_at :: "nat \<Rightarrow> os \<Rightarrow> (string \<times> string \<times> nat) option" where
  "os_at f w =
     (case os_files w f of
        None \<Rightarrow> None
      | Some p \<Rightarrow> (case os_tree w p of Some (NFile s m) \<Rightarrow> Some (p, s, m) | _ \<Rightarrow> None))"

definition os_Write :: "nat \<Rightarrow> string \<Rightarrow> os \<Rightarrow> (nat \<times> string option) \<times> os" where
  "os_Write f data w =
     (case os_at f w of
        None \<Rightarrow> ((0, Some ''bad file descriptor''), os_tick w)
      | Some (p, s, m) \<Rightarrow>
          ((min (os_written w (os_clock w)) (length data), os_fault w (os_clock w)),
           os_tick (w\<lparr>os_tree := (os_tree w)(p \<mapsto> NFile (s @ take (os_written w (os_clock w)) data) m)\<rparr>)))"

definition os_Chmod :: "nat \<Rightarrow> nat \<Rightarrow> os \<Rightarrow> string option \<times> os" where
  "os_Chmod f m' w =
     (case os_at f w of
        None \<Rightarrow> (Some ''bad file descriptor'', os_tick w)
      | Some (p, s, m) \<Rightarrow>
          (case os_fault w (os_clock w) of
             Some e \<Rightarrow> (Some e, os_tick w)
           | None \<Rightarrow> (None, os_tick (w\<lparr>os_tree := (os_tree w)(p \<mapsto> NFile s m')\<rparr>))))"

definition os_Close :: "nat \<Rightarrow> os \<Rightarrow> string option \<times> os" where
  "os_Close f w = (os_fault w (os_clock w), os_tick (w\<lparr>os_files := (os_files w)(f := None)\<rparr>))"

definition osFileSystem :: "string option \<Rightarrow> os fileSystem" where
  "osFileSystem removal =
     \<lparr>fs_Mkdir = os_Mkdir, fs_Lstat = os_Lstat, fs_OpenExclusive = os_OpenExclusive, fs_RemoveAll = os_RemoveAll removal,
      file_Write = os_Write, file_Chmod = os_Chmod, file_Close = os_Close\<rparr>"

definition os_network :: "os network \<Rightarrow> os network" where
  "os_network net = net\<lparr>http_Do := (\<lambda>req w. (os_http w (os_clock w) req, os_tick w))\<rparr>"

lemma os_tick_simps [simp]: "os_tree (os_tick w) = os_tree w" "os_files (os_tick w) = os_files w"
  by (simp_all add: os_tick_def)

lemma os_create_law:
  "os_create p n w = (e, w') \<Longrightarrow> os_files w' = os_files w \<and>
     (case e of None \<Rightarrow> os_tree w p = None \<and> p \<noteq> ''.'' \<and> os_tree w' = (os_tree w)(p \<mapsto> n) | Some _ \<Rightarrow> os_tree w' = os_tree w)"
  by (auto simp: os_create_def split: option.splits if_splits)

interpretation os_source: source_tree "os_network net" "osFileSystem removal" os_tree os_files for net removal
proof
  show "os_tree (snd (http_Do (os_network net) req w)) = os_tree w" for req w
    by (simp add: os_network_def)
  show "case e of None \<Rightarrow> os_tree w p = None \<and> p \<noteq> ''.'' \<and> os_tree w' = (os_tree w)(p \<mapsto> NDir) | Some _ \<Rightarrow> os_tree w' = os_tree w"
    if "fs_Mkdir (osFileSystem removal) p m w = (e, w')" for p m w e w'
    using os_create_law [of p NDir w e w'] that by (simp add: osFileSystem_def os_Mkdir_def)
  show "os_tree (snd (fs_Lstat (osFileSystem removal) p w)) = os_tree w" for p w
    by (auto simp: osFileSystem_def os_Lstat_def split: option.splits)
  show "case r of Inl _ \<Rightarrow> os_tree w' = os_tree w
      | Inr f \<Rightarrow> os_tree w p = None \<and> (\<exists>m'. os_tree w' = (os_tree w)(p \<mapsto> NFile [] m')) \<and> os_files w' f = Some p"
    if "fs_OpenExclusive (osFileSystem removal) p m w = (r, w')" for p m w r w'
  proof -
    obtain e w1 where c: "os_create p (NFile [] m) w = (e, w1)" by fastforce
    with os_create_law [OF c] that show ?thesis
      by (cases e) (auto simp: osFileSystem_def os_OpenExclusive_def)
  qed
  show "os_tree w' = (os_tree w)(p \<mapsto> NFile (s @ take n data) m) \<and> os_files w' = os_files w"
    if "os_files w f = Some p" "os_tree w p = Some (NFile s m)" "file_Write (osFileSystem removal) f data w = ((n, e), w')"
    for w f p s m data n e w'
    using that by (auto simp: osFileSystem_def os_Write_def os_at_def min_def)
  show "os_tree w' = (case e of None \<Rightarrow> (os_tree w)(p \<mapsto> NFile s m') | Some _ \<Rightarrow> os_tree w) \<and> os_files w' = os_files w"
    if "os_files w f = Some p" "os_tree w p = Some (NFile s m)" "file_Chmod (osFileSystem removal) f m' w = (e, w')"
    for w f p s m m' e w'
    using that by (auto simp: osFileSystem_def os_Chmod_def os_at_def split: option.splits)
  show "os_tree (snd (file_Close (osFileSystem removal) f w)) = os_tree w" for f w
    by (simp add: osFileSystem_def os_Close_def)
  show "(\<forall>q. \<not> below p q \<longrightarrow> os_tree w' q = os_tree w q) \<and> (\<forall>q. e = None \<and> below p q \<longrightarrow> os_tree w' q = None)"
    if "fs_RemoveAll (osFileSystem removal) p w = (e, w')" for p w e w'
    using that by (auto simp: osFileSystem_def os_RemoveAll_def split: option.splits)
qed

section \<open>All or nothing\<close>

definition closed_tree :: "(string \<rightharpoonup> node) \<Rightarrow> bool" where
  "closed_tree T \<longleftrightarrow> (\<forall>p q. T p = None \<and> below p q \<longrightarrow> T q = None)"

lemma parsed_output: "parseConfig flags tok args = Inr cfg \<Longrightarrow> IsLocal (cfgOutput cfg) \<and> Clean (cfgOutput cfg) = cfgOutput cfg"
  by (auto simp: parseConfig_def Let_def split: sum.splits if_splits)

text \<open>C34. Outside the output nothing changes. A failure leaves the tree as it was, and an output that was there before
  untouched, unless the removal of what was written fails. After a success the output is new, and its files are exactly
  the selected files of an accepted tree, each with the content of the Git object that the tree names.\<close>

theorem materialize_all_or_nothing:
  assumes "parseConfig flags tok args = Inr cfg" and "closed_tree (os_tree w)"
    and "materialize (os_network net) c (osFileSystem removal) cfg w = (r, w')"
  shows "(\<forall>q. \<not> below (cfgOutput cfg) q \<longrightarrow> os_tree w' q = os_tree w q) \<and>
    (case r of
       Inl _ \<Rightarrow> os_tree w (cfgOutput cfg) \<noteq> None \<or> removal = None \<longrightarrow> os_tree w' = os_tree w
     | Inr res \<Rightarrow> os_tree w (cfgOutput cfg) = None \<and>
         (\<exists>t sel. validateTree t = Inr (sel, mrTotalSize res) \<and> trSHA t = mrTreeSHA res \<and> mrFileCount res = length sel \<and>
           (\<forall>e \<in> set sel. \<exists>data. os_tree w' (cfgOutput cfg @ ''/'' @ tePath e) = Some (NFile data 420) \<and>
              sha1_hex net (git_blob data) = teSHA e \<and> int (length data) = entry_size e) \<and>
           (\<forall>q data m. below (cfgOutput cfg) q \<and> os_tree w' q = Some (NFile data m) \<longrightarrow>
              (\<exists>e \<in> set sel. q = cfgOutput cfg @ ''/'' @ tePath e))))"
proof -
  let ?out = "cfgOutput cfg"
  have closed: "os_tree w ?out = None \<Longrightarrow> \<forall>q. below ?out q \<longrightarrow> os_tree w q = None"
    using assms(2) by (auto simp: closed_tree_def)
  have rm: "removal = None \<Longrightarrow> \<forall>w. fst (fs_RemoveAll (osFileSystem removal) ?out w) = None"
    by (simp add: osFileSystem_def os_RemoveAll_def)
  have sha: "sha1_hex (os_network net) = sha1_hex net" by (simp add: os_network_def)
  note o = os_source.outcome [OF assms(3) conjunct1 [OF parsed_output [OF assms(1)]]
      conjunct2 [OF parsed_output [OF assms(1)]] closed]
  show ?thesis
  proof (cases r)
    case (Inl e)
    with o rm show ?thesis by auto
  next
    case (Inr res)
    with o obtain t sel where t: "validateTree t = Inr (sel, mrTotalSize res)" "trSHA t = mrTreeSHA res"
      "mrFileCount res = length sel" "os_source.only_selected ?out sel w w'"
      "\<forall>e \<in> set sel. os_source.verified net ?out e w'" and free: "os_tree w ?out = None" by auto
    have "\<exists>e \<in> set sel. q = ?out @ ''/'' @ tePath e" if "below ?out q" "os_tree w' q = Some (NFile data m)" for q data m
      using t(4) closed [OF free] that unfolding os_source.only_selected_def
      by (metis (no_types, lifting) imageE node.distinct(3) option.distinct(1) option.inject)
    moreover have "\<forall>e \<in> set sel. \<exists>data. os_tree w' (?out @ ''/'' @ tePath e) = Some (NFile data 420) \<and>
        sha1_hex net (git_blob data) = teSHA e \<and> int (length data) = entry_size e"
      using t(5) by (simp add: os_source.verified_def sha)
    ultimately show ?thesis
      using conjunct1 [OF o] free t(1-3) unfolding Inr sum.case
      by (intro conjI exI [of _ t] exI [of _ sel]) blast+
  qed
qed

definition small_entry :: treeEntry where
  "small_entry = \<lparr>tePath = ''a.go'', teMode = ''100644'', teType = ''blob'', teSHA = demo_sha, teSize = Some 3\<rparr>"

definition demo_network :: "os network" where
  "demo_network =
     \<lparr>http_Do = (\<lambda>req w. (Inr (404, []), w)),
      json_commit = (\<lambda>s. Inr (\<lparr>cmSHA = demo_sha, cmTreeSHA = demo_sha\<rparr>, [])),
      json_tree = (\<lambda>s. Inr (\<lparr>trSHA = demo_sha, trTruncated = False, trTree = [small_entry]\<rparr>, [])),
      json_blob = (\<lambda>s. Inr (\<lparr>blSHA = demo_sha, blSize = 3, blEncoding = ''base64'', blContent = ''YWJj''\<rparr>, [])),
      json_pull = (\<lambda>s. Inr (\<lparr>plNumber = 7, plBaseRef = ''main'', plBaseRepo = ''o/r'', plHeadSHA = demo_sha, plHeadRepo = ''o/r''\<rparr>, [])),
      sha1_hex = (\<lambda>s. demo_sha)\<rparr>"

definition demo_config :: materialize_config where
  "demo_config = \<lparr>cfgAPIURL = [], cfgBaseRepository = ''o/r'', cfgBaseBranch = ''main'', cfgHeadRepository = ''o/r'',
     cfgHeadSHA = demo_sha, cfgPullRequest = 7, cfgOutput = ''out'', cfgBounds = reviewedBounds, cfgToken = ''t''\<rparr>"

definition demo_client :: apiClient where
  "demo_client = \<lparr>baseURL = \<lparr>urlScheme = ''https'', urlUser = [], urlHost = ''h'', urlPath = [], urlRawQuery = [],
     urlFragment = []\<rparr>, token = ''t''\<rparr>"

definition demo_os :: os where
  "demo_os = \<lparr>os_tree = Map.empty, os_files = Map.empty, os_clock = 0, os_fault = (\<lambda>_. None), os_written = (\<lambda>_. 100),
     os_http = (\<lambda>_ _. Inr (200, []))\<rparr>"

lemma demo_get:
  assumes "decode [] = Inr (v, [])" and "os_http w = (\<lambda>_ _. Inr (200, []))"
  shows "get_repo (os_network net) c decode ''o/r'' e w = (Inr v, os_tick w)"
proof -
  have "Split ''o/r'' ''/'' = [''o'', ''r'']" by code_simp
  with assms show ?thesis
    by (simp add: get_repo_def op_bind_def op_lift_def repoEndpoint_def api_get_def os_network_def maxAPIResponse_def)
qed

lemma small_validated:
  "validateTree \<lparr>trSHA = demo_sha, trTruncated = False, trTree = [small_entry]\<rparr> = Inr ([small_entry], 3)"
proof -
  have "classifyTreeEntry small_entry {} = Inr (True, {''a.go''})" by code_simp
  moreover have "accountGoEntry small_entry 0 0 = Inr 3"
    by (simp add: accountGoEntry_def small_entry_def maxFileBytes_def maxTotalBytes_def maxGoFiles_def)
  ultimately show ?thesis by (simp add: validateTree_def visit_entry_def Let_def maxTreeEntries_def)
qed

lemma demo_parsed: "parseConfig (\<lambda>args. Inr (demo_config, [])) ''t'' [] = Inr demo_config"
  by code_simp

lemma demo_blob: "check_blob (\<lambda>s. demo_sha) small_entry \<lparr>blSHA = demo_sha, blSize = 3, blEncoding = ''base64'', blContent = ''YWJj''\<rparr> =
  Inr ''abc''"
proof -
  have "DecodeString (ReplaceAll ''YWJj'' [CHR 0x0A] []) = Some ''abc''" by code_simp
  then show ?thesis by (simp add: check_blob_def small_entry_def maxFileBytes_def)
qed

lemma demo_json:
  "json_commit (os_network demo_network) [] = Inr (\<lparr>cmSHA = demo_sha, cmTreeSHA = demo_sha\<rparr>, [])"
  "json_tree (os_network demo_network) [] = Inr (\<lparr>trSHA = demo_sha, trTruncated = False, trTree = [small_entry]\<rparr>, [])"
  "json_blob (os_network demo_network) [] =
     Inr (\<lparr>blSHA = demo_sha, blSize = 3, blEncoding = ''base64'', blContent = ''YWJj''\<rparr>, [])"
  "json_pull (os_network demo_network) [] =
     Inr (\<lparr>plNumber = 7, plBaseRef = ''main'', plBaseRepo = ''o/r'', plHeadSHA = demo_sha, plHeadRepo = ''o/r''\<rparr>, [])"
  "sha1_hex (os_network demo_network) = (\<lambda>s. demo_sha)"
  by (simp_all add: os_network_def demo_network_def)

lemma demo_config_fields:
  "cfgBounds demo_config = reviewedBounds" "cfgHeadRepository demo_config = ''o/r''" "cfgBaseRepository demo_config = ''o/r''"
  "cfgHeadSHA demo_config = demo_sha" "cfgOutput demo_config = ''out''" "cfgPullRequest demo_config = 7"
  "cfgBaseBranch demo_config = ''main''"
  by (simp_all add: demo_config_def)

lemma os_tick_http [simp]: "os_http (os_tick w) = os_http w" "os_fault (os_tick w) = os_fault w" "os_written (os_tick w) = os_written w"
  by (simp_all add: os_tick_def)

lemma demo_load:
  assumes "os_http w = (\<lambda>_ _. Inr (200, []))"
  shows "loadValidatedTree (os_network demo_network) c demo_config w =
    (Inr \<lparr>vtSha = demo_sha, vtSelected = [small_entry], vtTotalSize = 3\<rparr>, os_tick (os_tick w))"
proof -
  have "fullSHA demo_sha" by code_simp
  then show ?thesis
    by (simp add: loadValidatedTree_def demo_config_fields op_bind_def op_then_def op_check_def op_lift_def op_return_def check_def
        demo_get [where decode = "json_commit (os_network demo_network)", OF demo_json(1)] demo_get [where decode = "json_tree (os_network demo_network)", OF demo_json(2)] assms small_validated)
qed

lemma demo_fetch:
  "os_http w = (\<lambda>_ _. Inr (200, [])) \<Longrightarrow>
     fetchBlob (os_network demo_network) c ''o/r'' small_entry w = (Inr ''abc'', os_tick w)"
  by (simp add: fetchBlob_def op_bind_def op_lift_def demo_get [where decode = "json_blob (os_network demo_network)", OF demo_json(3)] demo_json(5) demo_blob)

lemma demo_verify:
  "os_http w = (\<lambda>_ _. Inr (200, [])) \<Longrightarrow>
     verifyCurrentHead (os_network demo_network) c demo_config w = (Inr (), os_tick w)"
  by (simp add: verifyCurrentHead_def op_bind_def op_check_def op_lift_def check_def demo_config_fields demo_get [where decode = "json_pull (os_network demo_network)", OF demo_json(4)])

lemma demo_write:
  assumes "os_fault w = (\<lambda>_. None)" and "os_written w = (\<lambda>_. 100)" and "os_tree w = [''out'' \<mapsto> NDir]"
  shows "\<exists>w'. writeExclusive (osFileSystem None) ''out'' ''a.go'' ''abc'' w = (Inr (), w') \<and>
    os_tree w' ''out/a.go'' = Some (NFile ''abc'' 420) \<and> os_http w' = os_http w"
proof -
  have "JoinPath [''out'', ''a.go''] = ''out/a.go''" "Dir ''a.go'' = ''.''" "Dir ''out/a.go'' = ''out''"
    "Split ''.'' ''/'' = [''.'']"
    by code_simp+
  then show ?thesis
    by (simp add: writeExclusive_def ensureParentDirectories_def op_then_def op_bind_def op_return_def osFileSystem_def
        os_OpenExclusive_def os_create_def assms os_directory_def write_open_def close_after_def writeOnce_def os_Write_def
        os_at_def op_try_def os_Chmod_def os_Close_def Let_def)
qed

theorem materialize_all_or_nothing_witness:
  "\<exists>w'. materialize (os_network demo_network) demo_client (osFileSystem None) demo_config demo_os =
      (Inr \<lparr>mrTreeSHA = demo_sha, mrFileCount = 1, mrTotalSize = 3\<rparr>, w') \<and>
     os_tree w' ''out/a.go'' = Some (NFile ''abc'' 420) \<and>
     (\<forall>q. \<not> below ''out'' q \<longrightarrow> os_tree w' q = None)"
proof -
  let ?fs = "osFileSystem None"
  let ?w = "os_tick (os_tick demo_os)"
  obtain w1 where mk: "fs_Mkdir ?fs ''out'' 493 ?w = (None, w1)" "os_tree w1 = [''out'' \<mapsto> NDir]" "os_http w1 = os_http demo_os"
    "os_fault w1 = os_fault demo_os" "os_written w1 = os_written demo_os"
  proof -
    have "Dir ''out'' = ''.''" by code_simp
    then show ?thesis
      using that by (simp add: osFileSystem_def os_Mkdir_def os_create_def os_directory_def demo_os_def os_tick_def)
  qed
  have h: "os_http demo_os = (\<lambda>_ _. Inr (200, []))" "os_fault demo_os = (\<lambda>_. None)" "os_written demo_os = (\<lambda>_. 100)"
    by (simp_all add: demo_os_def)
  obtain w2 where wr: "writeExclusive ?fs ''out'' ''a.go'' ''abc'' (os_tick w1) = (Inr (), w2)"
    "os_tree w2 ''out/a.go'' = Some (NFile ''abc'' 420)" "os_http w2 = os_http w1"
    using demo_write [of "os_tick w1"] mk h by auto
  have p: "tePath small_entry = ''a.go''" by (simp add: small_entry_def)
  have w: "materialize (os_network demo_network) demo_client ?fs demo_config demo_os =
      (Inr \<lparr>mrTreeSHA = demo_sha, mrFileCount = 1, mrTotalSize = 3\<rparr>, os_tick w2)"
    by (simp add: materialize_def op_then_def op_bind_def op_check_def op_lift_def op_return_def check_def demo_config_fields
        demo_load h mk op_try_def unless_complete_def materializeSelectedFiles_def demo_fetch p wr demo_verify)
  have "closed_tree (os_tree demo_os)" by (simp add: closed_tree_def demo_os_def)
  from materialize_all_or_nothing [OF demo_parsed this w]
  have "\<forall>q. \<not> below (cfgOutput demo_config) q \<longrightarrow> os_tree (os_tick w2) q = os_tree demo_os q" by (rule conjunct1)
  then have "\<forall>q. \<not> below ''out'' q \<longrightarrow> os_tree (os_tick w2) q = None" by (simp add: demo_config_fields demo_os_def)
  with w wr(2) show ?thesis by auto
qed

section \<open>Where requests go\<close>

lemma dot_segments_plain: "\<forall>e \<in> set es. plain_elem e \<Longrightarrow> dot_segments out es = rev out @ es"
  by (induction es arbitrary: out) (auto simp: plain_elem_def)

lemma resolve_plain:
  assumes "plain_path p"
  shows "resolve_path (''/'' @ p) = ''/'' @ p"
proof -
  have "\<forall>e \<in> set (Split p ''/''). plain_elem e" using assms by (simp add: plain_path_def list_all_iff)
  moreover from this have "plain_elem (last (Split p ''/''))" by simp
  ultimately show ?thesis
    by (simp add: resolve_path_def Let_def dot_segments_plain Join_Split plain_elem_def)
qed

lemma repository_split:
  "repository repo \<Longrightarrow> \<exists>owner name. Split repo ''/'' = [owner, name] \<and> repo = owner @ ''/'' @ name"
proof -
  assume "repository repo"
  then obtain owner name where s: "Split repo ''/'' = [owner, name]"
    by (auto simp: repository_def split: list.splits)
  have "Join (Split repo ''/'') ''/'' = repo" by (simp add: Join_Split)
  with s show ?thesis by auto
qed

lemma repository_char_no_query: "repository_char c \<Longrightarrow> c \<noteq> CHR ''?''"
  by (auto simp: repository_char_def is_upper_def is_lower_def is_digit_def byte_def)

lemma Cut_query_none: "CHR ''?'' \<notin> set p \<Longrightarrow> Cut p ''?'' = None"
  by (simp add: Cut_None Contains_single)

text \<open>A request for an object of a repository whose parts are names asks for the path of that object, whatever the path
  of the base URL is.\<close>

theorem request_path_exact:
  assumes "repository repo" and "''.'' \<notin> set (Split repo ''/'')" and "''..'' \<notin> set (Split repo ''/'')"
    and "plain_path object" and "CHR ''?'' \<notin> set object"
  shows "\<exists>endpoint. repoEndpoint repo object = Inr endpoint \<and>
    urlPath (ResolveReference u endpoint) = ''/repos/'' @ repo @ ''/'' @ object"
proof -
  obtain owner name where r: "Split repo ''/'' = [owner, name]" "repo = owner @ ''/'' @ name"
    using repository_split [OF assms(1)] by blast
  have chars: "owner \<noteq> []" "name \<noteq> []" "list_all repository_char owner" "list_all repository_char name"
    using assms(1) r(1) by (simp_all add: repository_def)
  have plain: "plain_elem owner" "plain_elem name"
    using assms(2,3) chars r(1) Split_slash_free [of _ repo] by (auto simp: plain_elem_def)
  let ?p = "''repos/'' @ owner @ ''/'' @ name @ ''/'' @ object"
  have rep: "Split ''repos'' ''/'' = [''repos'']" by code_simp
  have "Split ?p ''/'' = ''repos'' # owner # name # Split object ''/''"
    using Split_append [of "''/''" "''repos''" "owner @ ''/'' @ name @ ''/'' @ object"]
      Split_append [of "''/''" owner "name @ ''/'' @ object"] Split_append [of "''/''" name object]
      plain rep
    by (simp add: Split_char_none plain_elem_def)
  moreover have "plain_elem ''repos''" by (simp add: plain_elem_def)
  ultimately have "plain_path ?p" using plain assms(4) by (simp add: plain_path_def)
  from resolve_plain [OF this] have "resolve_path (''/'' @ ?p) = ''/'' @ ?p" .
  moreover have "CHR ''?'' \<notin> set (''/'' @ ?p)"
    using chars assms(5) repository_char_no_query by (auto simp: list_all_iff)
  ultimately show ?thesis
    using r Cut_query_none [of "''/'' @ ?p"] by (simp add: repoEndpoint_def ResolveReference_def)
qed

theorem request_path_exact_witness:
  "\<exists>endpoint. repoEndpoint ''Ensono/eirctl'' ''pulls/7'' = Inr endpoint \<and>
    urlPath (ResolveReference (baseURL demo_client) endpoint) = ''/repos/Ensono/eirctl/pulls/7''"
proof -
  have "repository ''Ensono/eirctl''" "''.'' \<notin> set (Split ''Ensono/eirctl'' ''/'')" "''..'' \<notin> set (Split ''Ensono/eirctl'' ''/'')"
    "plain_path ''pulls/7''"
    by code_simp+
  from request_path_exact [OF this] show ?thesis by simp
qed

text \<open>Dots are characters of a repository's name: a head repository of two parent directories is accepted, and the
  requests for its objects leave the repositories of the API.\<close>

theorem repository_may_climb:
  "repository ''../..'' \<and>
    (\<exists>endpoint. repoEndpoint ''../..'' (''git/commits/'' @ demo_sha) = Inr endpoint \<and>
       urlPath (ResolveReference u endpoint) = ''/git/commits/'' @ demo_sha)"
proof -
  have "repository ''../..''" by code_simp
  moreover have "repoEndpoint ''../..'' (''git/commits/'' @ demo_sha) = Inr (''/repos/../../git/commits/'' @ demo_sha)" by code_simp
  moreover have "resolve_path (''/repos/../../git/commits/'' @ demo_sha) = ''/git/commits/'' @ demo_sha" by code_simp
  moreover have "Cut (''/repos/../../git/commits/'' @ demo_sha) ''?'' = None" by code_simp
  ultimately show ?thesis by (simp add: ResolveReference_def)
qed

text \<open>The path of the configured API URL is not part of any request.\<close>

lemma base_path_dropped:
  "api_request \<lparr>baseURL = u\<lparr>urlPath := p\<rparr>, token = t\<rparr> endpoint = api_request \<lparr>baseURL = u, token = t\<rparr> endpoint"
  by (cases "Cut endpoint ''?''") (auto simp: api_request_def ResolveReference_def url_String_def)

end
