(* ===== verification/SelfUpdate.thy ===== *)
theory SelfUpdate
  imports GoPaths Prelude
begin

text \<open>
  \<open>selfupdate\<close>: the \<open>update\<close> command renames the running binary, creates a new file in its place and writes what is
  downloaded into it. The operating system is a map of files with faults; the network and the URL parser are parameters.
\<close>

section \<open>The command\<close>

record UpdateCmdFlags =
  ufBaseUrl :: string
  ufVersion :: string

text \<open>The files with their content and mode; the answer of \<open>os.Executable\<close>; for each operation, the error it fails with.\<close>

datatype update_call = OsRename | OsCreate | OsWrite | OsChmod

record update_os =
  uoFiles :: "string \<rightharpoonup> string \<times> nat"
  uoExecutable :: "string + string"
  uoFault :: "update_call \<Rightarrow> string option"
  uoOut :: string

type_synonym 'a update_op = "(update_os, string, 'a) op"

definition os_fail :: "update_call \<Rightarrow> unit update_op" where
  "os_fail c = (\<lambda>w. case uoFault w c of None \<Rightarrow> (Inr (), w) | Some e \<Rightarrow> (Inl e, w))"

text \<open>\<open>osFsOps\<close>. A renamed file replaces one of that name; \<open>os.Create\<close> makes an empty file of mode 0666, or empties
  the one that is there.\<close>

definition upd_Executable :: "string update_op" where
  "upd_Executable = (\<lambda>w. (uoExecutable w, w))"

definition upd_Rename :: "string \<Rightarrow> string \<Rightarrow> unit update_op" where
  "upd_Rename oldpath newpath = op_then (os_fail OsRename) (\<lambda>w.
     case uoFiles w oldpath of
       None \<Rightarrow> (Inl ''no such file or directory'', w)
     | Some f \<Rightarrow> (Inr (), w\<lparr>uoFiles := (uoFiles w)(oldpath := None, newpath \<mapsto> f)\<rparr>))"

definition upd_Create :: "string \<Rightarrow> unit update_op" where
  "upd_Create name = op_then (os_fail OsCreate) (op_modify (\<lambda>w.
     w\<lparr>uoFiles := (uoFiles w)(name \<mapsto> ([], case uoFiles w name of None \<Rightarrow> 438 | Some (_, m) \<Rightarrow> m))\<rparr>))"

definition upd_Chmod :: "string \<Rightarrow> nat \<Rightarrow> unit update_op" where
  "upd_Chmod name m = op_then (os_fail OsChmod) (op_modify (\<lambda>w.
     w\<lparr>uoFiles := (uoFiles w)(name := map_option (\<lambda>(s, _). (s, m)) (uoFiles w name))\<rparr>))"

definition upd_write :: "string \<Rightarrow> string \<Rightarrow> unit update_op" where
  "upd_write name data = op_then (os_fail OsWrite) (op_modify (\<lambda>w.
     w\<lparr>uoFiles := (uoFiles w)(name := map_option (\<lambda>(s, m). (s @ data, m)) (uoFiles w name))\<rparr>))"

text \<open>What the version is fetched with: the system, the parser of URLs, and the answer of a server: an error, or the
  status, the bytes of the body that arrive and the error that ends them.\<close>

record update_io =
  uiGOOS :: string
  uiGOARCH :: string
  uiParse :: "string \<Rightarrow> string + string"
  uiDo :: "string \<Rightarrow> string + nat \<times> string \<times> string option"

record UpdateCmd =
  ucName :: string
  ucSuffix :: string
  ucGhReleaseUrl :: string
  ucGetVersionFn :: "UpdateCmdFlags \<Rightarrow> string \<Rightarrow> unit update_op"

definition EnrichFinalLink :: "update_io \<Rightarrow> string \<Rightarrow> string" where
  "EnrichFinalLink io link = (if uiGOOS io = ''windows'' then link @ ''.exe'' else link)"

definition download_suffix :: "update_io \<Rightarrow> string \<Rightarrow> string \<Rightarrow> string" where
  "download_suffix io name sfx =
     (if sfx \<noteq> [] then sfx else name @ ''-'' @ uiGOOS io @ ''-'' @ uiGOARCH io)"

definition releasePath :: "update_io \<Rightarrow> string \<Rightarrow> string \<Rightarrow> UpdateCmdFlags \<Rightarrow> string" where
  "releasePath io name sfx flags =
     (if ufVersion flags = ''latest'' then JoinPath [''latest/download'', download_suffix io name sfx]
      else JoinPath [''download/'' @ ufVersion flags, download_suffix io name sfx])"

text \<open>The status of the answer is not looked at. The body is copied to the file as it arrives.\<close>

definition GetVersion :: "update_io \<Rightarrow> string \<Rightarrow> string \<Rightarrow> UpdateCmdFlags \<Rightarrow> string \<Rightarrow> unit update_op" where
  "GetVersion io name sfx flags file =
     op_bind (op_lift (uiParse io (ufBaseUrl flags @ ''/'' @ EnrichFinalLink io (releasePath io name sfx flags)))) (\<lambda>link.
     op_bind (op_lift (uiDo io link)) (\<lambda>(status, body, broken).
     op_then (upd_write file body)
       (case broken of None \<Rightarrow> op_return () | Some e \<Rightarrow> op_throw e)))"

text \<open>\<open>New\<close> takes the method value before the options are applied; the method reads the suffix through the pointer.\<close>

definition UpdateCmd_New :: "update_io \<Rightarrow> string \<Rightarrow> string \<Rightarrow> (UpdateCmd \<Rightarrow> UpdateCmd) list \<Rightarrow> UpdateCmd" where
  "UpdateCmd_New io name ghReleaseUrl opts =
     (let apply = (\<lambda>g. foldl (\<lambda>uc opt. opt uc)
            \<lparr>ucName = name, ucSuffix = [], ucGhReleaseUrl = ghReleaseUrl, ucGetVersionFn = g\<rparr> opts) in
      apply (GetVersion io name (ucSuffix (apply (\<lambda>_ _. op_return ())))))"

definition WithGetVersionFunc :: "(UpdateCmdFlags \<Rightarrow> string \<Rightarrow> unit update_op) \<Rightarrow> UpdateCmd \<Rightarrow> UpdateCmd" where
  "WithGetVersionFunc fn uc = uc\<lparr>ucGetVersionFn := fn\<rparr>"

definition WithDownloadSuffix :: "string \<Rightarrow> UpdateCmd \<Rightarrow> UpdateCmd" where
  "WithDownloadSuffix sfx uc = uc\<lparr>ucSuffix := sfx\<rparr>"

definition oldName :: "string \<Rightarrow> string" where
  "oldName currentExecPath = JoinPath [Dir currentExecPath, Base currentExecPath @ ''.old'']"

definition prepSourceBinary :: "string \<Rightarrow> unit update_op" where
  "prepSourceBinary currentExecPath = upd_Rename currentExecPath (oldName currentExecPath)"

definition update_RunE :: "UpdateCmd \<Rightarrow> UpdateCmdFlags \<Rightarrow> unit update_op" where
  "update_RunE uc flags =
     op_bind upd_Executable (\<lambda>currentExecPath.
     op_then (prepSourceBinary currentExecPath) (
     op_then (upd_Create currentExecPath) (
     op_then (ucGetVersionFn uc flags currentExecPath) (
     op_then (upd_Chmod currentExecPath 493) (
     op_modify (\<lambda>w. w\<lparr>uoOut := uoOut w @ ucName uc @ '' has been updated'' @ [CHR 0x0A]\<rparr>))))))"

definition update_flags :: "UpdateCmd \<Rightarrow> string option \<Rightarrow> string option \<Rightarrow> UpdateCmdFlags" where
  "update_flags uc version baseUrl =
     \<lparr>ufBaseUrl = (case baseUrl of None \<Rightarrow> ucGhReleaseUrl uc | Some u \<Rightarrow> u),
      ufVersion = (case version of None \<Rightarrow> ''latest'' | Some v \<Rightarrow> v)\<rparr>"

section \<open>What an update does\<close>

text \<open>A system that does not fail, with the binary in its place.\<close>

definition update_ready :: "update_os \<Rightarrow> string \<Rightarrow> string \<Rightarrow> nat \<Rightarrow> bool" where
  "update_ready w p s m \<longleftrightarrow> uoExecutable w = Inr p \<and> uoFiles w p = Some (s, m) \<and> uoFault w = (\<lambda>_. None)"

lemma update_steps:
  assumes "update_ready w p s m" and "oldName p \<noteq> p"
  shows "update_RunE uc flags w =
    op_then (ucGetVersionFn uc flags p) (op_then (upd_Chmod p 493)
      (op_modify (\<lambda>w. w\<lparr>uoOut := uoOut w @ ucName uc @ '' has been updated'' @ [CHR 0x0A]\<rparr>)))
    (w\<lparr>uoFiles := (uoFiles w)(p \<mapsto> ([], 438), oldName p \<mapsto> (s, m))\<rparr>)"
  using assms
  by (simp add: update_RunE_def op_bind_def op_then_def op_modify_def upd_Executable_def prepSourceBinary_def upd_Rename_def
      upd_Create_def os_fail_def update_ready_def fun_upd_twist)

text \<open>C40. After an update the binary is what the server has sent, whatever the status of the answer is: the page of an error
  replaces the program, and the command reports success. The program it was is kept beside it.\<close>

theorem update_installs_any_answer:
  assumes "update_ready w p s m" and "oldName p \<noteq> p"
    and "uiParse io (ufBaseUrl flags @ ''/'' @ EnrichFinalLink io (releasePath io name sfx flags)) = Inr link"
    and "uiDo io link = Inr (status, body, None)"
  shows "\<exists>w'. update_RunE (UpdateCmd_New io name url [WithDownloadSuffix sfx]) flags w = (Inr (), w') \<and>
    uoFiles w' = (uoFiles w)(p \<mapsto> (body, 493), oldName p \<mapsto> (s, m)) \<and>
    uoOut w' = uoOut w @ name @ '' has been updated'' @ [CHR 0x0A]"
proof -
  have "uoFault w = (\<lambda>_. None)" using assms(1) by (simp add: update_ready_def)
  then show ?thesis
    using assms(2-4)
    by (simp add: update_steps [OF assms(1,2)] UpdateCmd_New_def WithDownloadSuffix_def GetVersion_def op_bind_def op_then_def
        op_lift_def op_return_def op_modify_def upd_write_def upd_Chmod_def os_fail_def fun_upd_twist)
qed

text \<open>A download that fails leaves no program: the binary is what had arrived, and not executable. The old one is not
  put back.\<close>

theorem failed_update_not_rolled_back:
  assumes "update_ready w p s m" and "oldName p \<noteq> p"
    and "uiParse io (ufBaseUrl flags @ ''/'' @ EnrichFinalLink io (releasePath io name sfx flags)) = Inr link"
    and "uiDo io link = Inr (status, body, Some e) \<or> uiDo io link = Inl e \<and> body = []"
  shows "\<exists>w'. update_RunE (UpdateCmd_New io name url [WithDownloadSuffix sfx]) flags w = (Inl e, w') \<and>
    uoFiles w' = (uoFiles w)(p \<mapsto> (body, 438), oldName p \<mapsto> (s, m)) \<and> uoOut w' = uoOut w"
proof -
  have "uoFault w = (\<lambda>_. None)" using assms(1) by (simp add: update_ready_def)
  then show ?thesis
    using assms(2-4)
    by (auto simp: update_steps [OF assms(1,2)] UpdateCmd_New_def WithDownloadSuffix_def GetVersion_def op_bind_def op_then_def
        op_lift_def op_throw_def op_modify_def upd_write_def os_fail_def fun_upd_twist)
qed

definition update_demo :: update_os where
  "update_demo = \<lparr>uoFiles = [''/bin/eirctl'' \<mapsto> (''old'', 493)], uoExecutable = Inr ''/bin/eirctl'', uoFault = (\<lambda>_. None), uoOut = []\<rparr>"

definition not_found :: update_io where
  "not_found = \<lparr>uiGOOS = ''linux'', uiGOARCH = ''amd64'', uiParse = Inr, uiDo = (\<lambda>_. Inr (404, ''Not Found'', None))\<rparr>"

definition cut_off :: update_io where
  "cut_off = not_found\<lparr>uiDo := (\<lambda>_. Inr (200, ''ne'', Some ''unexpected EOF''))\<rparr>"

lemma update_demo_ready: "update_ready update_demo ''/bin/eirctl'' ''old'' 493" "oldName ''/bin/eirctl'' = ''/bin/eirctl.old''"
  by (simp add: update_ready_def update_demo_def) code_simp

theorem update_installs_any_answer_witness:
  "\<exists>w'. update_RunE (UpdateCmd_New not_found ''eirctl'' ''https://x'' [WithDownloadSuffix []])
      \<lparr>ufBaseUrl = ''https://x'', ufVersion = ''v9''\<rparr> update_demo = (Inr (), w') \<and>
    uoFiles w' = [''/bin/eirctl'' \<mapsto> (''Not Found'', 493), ''/bin/eirctl.old'' \<mapsto> (''old'', 493)]"
proof -
  have n: "oldName ''/bin/eirctl'' \<noteq> ''/bin/eirctl''" by (simp add: update_demo_ready(2))
  have io: "uiParse not_found l = Inr l" "uiDo not_found l = Inr (404, ''Not Found'', None)" for l
    by (simp_all add: not_found_def)
  from update_installs_any_answer [OF update_demo_ready(1) n io] show ?thesis
    by (fastforce simp: update_demo_ready(2) update_demo_def)
qed

theorem failed_update_not_rolled_back_witness:
  "\<exists>w'. update_RunE (UpdateCmd_New cut_off ''eirctl'' ''https://x'' [WithDownloadSuffix []])
      \<lparr>ufBaseUrl = ''https://x'', ufVersion = ''v9''\<rparr> update_demo = (Inl ''unexpected EOF'', w') \<and>
    uoFiles w' = [''/bin/eirctl'' \<mapsto> (''ne'', 438), ''/bin/eirctl.old'' \<mapsto> (''old'', 493)]"
proof -
  have n: "oldName ''/bin/eirctl'' \<noteq> ''/bin/eirctl''" by (simp add: update_demo_ready(2))
  have io: "uiParse cut_off l = Inr l" "uiDo cut_off l = Inr (200, ''ne'', Some ''unexpected EOF'')" for l
    by (simp_all add: not_found_def cut_off_def)
  from failed_update_not_rolled_back [OF update_demo_ready(1) n io(1) disjI1 [OF io(2)]] show ?thesis
    by (fastforce simp: update_demo_ready(2) update_demo_def)
qed

text \<open>The address of a release: the latest one when no version is given.\<close>

theorem release_address:
  assumes "plain_elem name" and "plain_elem (uiGOOS io)" and "plain_elem (uiGOARCH io)" and "plain_elem version"
  shows "releasePath io name [] (update_flags uc None None) =
      ''latest/download/'' @ name @ ''-'' @ uiGOOS io @ ''-'' @ uiGOARCH io \<and>
    (version \<noteq> ''latest'' \<longrightarrow> releasePath io name [] (update_flags uc (Some version) None) =
      ''download/'' @ version @ ''/'' @ name @ ''-'' @ uiGOOS io @ ''-'' @ uiGOARCH io)"
proof -
  let ?f = "name @ ''-'' @ uiGOOS io @ ''-'' @ uiGOARCH io"
  have f: "plain_elem ?f" using assms(1-3) by (cases name) (auto simp: plain_elem_def)
  have j: "JoinPath [a @ ''/'' @ b, ?f] = a @ ''/'' @ b @ ''/'' @ ?f" if "plain_elem a" "plain_elem b" for a b
  proof -
    have "plain_path (a @ ''/'' @ b)" using that by (simp only: plain_path_append plain_path_elem simp_thms)
    from plain_join(1) [OF this plain_path_elem [OF f]] show ?thesis by simp
  qed
  have l: "plain_elem ''latest''" "plain_elem ''download''" by (simp_all add: plain_elem_def)
  show ?thesis
    using j [OF l] j [OF l(2) assms(4)]
    by (simp add: releasePath_def update_flags_def download_suffix_def)
qed

theorem release_address_witness:
  "releasePath not_found ''eirctl'' [] (update_flags (UpdateCmd_New not_found ''eirctl'' ''https://x'' []) None None) =
     ''latest/download/eirctl-linux-amd64''"
  using release_address [of "''eirctl''" not_found "''v1''" "UpdateCmd_New not_found ''eirctl'' ''https://x'' []"] by (simp add: not_found_def plain_elem_def)

end
