(* ===== verification/Command.thy ===== *)
theory Command
  imports ConfigLoad Runner GenCI
begin

text \<open>
  \<open>cmd\<close>: the command line over the other components. Flags and environment are read by cobra and viper, which are
  parameters: the value of each key, and whether a flag was given. The registration of the commands is left out.
\<close>

section \<open>The program\<close>

text \<open>The names and aliases of the commands that \<open>WithSubCommands\<close> adds, and \<open>completion\<close>.\<close>

definition subCommands :: "string list" where
  "subCommands = [''generate'', ''ci'', ''gen-ci'', ''g'', ''graph'', ''init'', ''list'', ''run'', ''shell'', ''show'',
     ''self-update'', ''update'', ''validate'', ''watch'', ''completion'']"

definition setDefaultCommandIfNonePresent :: "string list \<Rightarrow> string list" where
  "setDefaultCommandIfNonePresent argv =
     (let argv = (if length argv = 1 then [hd argv, ''run''] else argv) in
      if length argv = 2 \<and> argv ! 1 \<in> set [''-h'', ''--help'', ''-v'', ''--version''] then argv
      else if length argv > 1 then
        (if argv ! 1 \<in> set subCommands then argv else [hd argv, ''run''] @ drop 1 argv)
      else argv)"

text \<open>The exit status of the program, from what the command has returned; the status of a container or a shell that
  the error carries is passed on.\<close>

definition runMain :: "(exec_result \<times> string) option \<Rightarrow> nat" where
  "runMain err =
     (case err of
        None \<Rightarrow> 0
      | Some (e, _) \<Rightarrow> (case IsExitStatus e of Some code \<Rightarrow> unat code | None \<Rightarrow> 1))"

section \<open>Configuration\<close>

record cli =
  cliGetBool :: "string \<Rightarrow> bool"
  cliGetString :: "string \<Rightarrow> string"
  cliGetStringMapString :: "string \<Rightarrow> (string \<rightharpoonup> string)"
  cliChanged :: "string \<Rightarrow> bool"
  cliQuiet :: bool
  cliDryRun :: bool
  cliNoSummary :: bool
  cliExists :: "string \<Rightarrow> bool"

datatype log_level = InfoLevel | DebugLevel | TraceLevel

record cli_options =
  optGraphOrientationLeftRight :: bool
  optInitDir :: string
  optInitNoPrompt :: bool

datatype command_error =
    ErrIncompleteConfig string
  | ErrConfig config_error
  | ErrIncorrectPipelineTaskArg string
  | ErrSpecifiedObjectIsNotFound string string
  | ErrIncorrectContextName string
  | ErrNotV2Context string
  | ErrNotAPipeline
  | ErrNoFileName
  | ErrNoSuchPipelineName string
  | ErrGenerate gen_error
  | ErrWriteOutput string
  | ErrCommandPanic

definition configFileFinder :: "cli \<Rightarrow> command_error + string" where
  "configFileFinder c =
     (let configOpts = [cliGetString c ''config'', ''tasks.yaml'', ''taskctl.yaml''] in
      case find (cliExists c) configOpts of
        Some confFile \<Rightarrow> if confFile \<noteq> [] then Inr confFile else Inl (ErrIncompleteConfig (cliGetString c ''config''))
      | None \<Rightarrow> Inl (ErrIncompleteConfig (cliGetString c ''config'')))"

definition early_level :: "cli \<Rightarrow> log_level" where
  "early_level c =
     (if cliGetBool c ''verbose'' then TraceLevel else if cliGetBool c ''debug'' then DebugLevel else InfoLevel)"

text \<open>What the flags change in the configuration that was loaded, in the order of the code.\<close>

definition apply_debug :: "cli \<Rightarrow> Config \<times> log_level \<Rightarrow> Config \<times> log_level" where
  "apply_debug c = (\<lambda>(conf, l).
     let conf = (if cliChanged c ''debug'' then conf\<lparr>cDebug := cliGetBool c ''debug''\<rparr> else conf) in
     (conf, if cDebug conf then DebugLevel else l))"

definition apply_verbose :: "cli \<Rightarrow> Config \<times> log_level \<Rightarrow> Config \<times> log_level" where
  "apply_verbose c = (\<lambda>(conf, l).
     let conf = (if cliChanged c ''verbose'' then conf\<lparr>cVerbose := cliGetBool c ''verbose''\<rparr> else conf) in
     (conf, if cVerbose conf then TraceLevel else l))"

definition apply_switches :: "cli \<Rightarrow> Config \<Rightarrow> Config" where
  "apply_switches c conf =
     (let conf = (if cliQuiet c then conf\<lparr>cQuiet := cliQuiet c\<rparr> else conf);
          conf = (if cliDryRun c then conf\<lparr>cDryRun := cliDryRun c\<rparr> else conf);
          conf = conf\<lparr>cSummary := True\<rparr> in
      if cliNoSummary c then conf\<lparr>cSummary := \<not> cliNoSummary c\<rparr> else conf)"

definition apply_output :: "cli \<Rightarrow> Config \<Rightarrow> Config" where
  "apply_output c conf =
     (let conf = (if cliGetString c ''output'' \<noteq> [] then conf\<lparr>cOutput := cliGetString c ''output''\<rparr> else conf);
          conf = (if cliGetBool c ''raw'' then conf\<lparr>cOutput := ''raw''\<rparr> else conf);
          conf = (if cliGetBool c ''cockpit'' then conf\<lparr>cOutput := ''cockpit''\<rparr> else conf) in
      if cOutput conf = [] then conf\<lparr>cOutput := ''raw''\<rparr> else conf)"

definition cli_opts :: "cli \<Rightarrow> cli_options" where
  "cli_opts c = \<lparr>optGraphOrientationLeftRight = cliGetBool c ''lr'', optInitDir = cliGetString c ''dir'',
     optInitNoPrompt = cliGetBool c ''no-prompt''\<rparr>"

definition apply_flags :: "cli \<Rightarrow> Config \<Rightarrow> log_level \<Rightarrow> Config \<times> log_level" where
  "apply_flags c conf l =
     (let (conf, l) = apply_verbose c (apply_debug c (conf, l)) in (apply_output c (apply_switches c conf), l))"

text \<open>The loading is that of theory \<open>ConfigLoad\<close>, from the state \<open>s\<close> of a new loader.\<close>

definition initConfig ::
  "cli \<Rightarrow> ('w, 'r, 'k, 'c) config_params \<Rightarrow> nat \<Rightarrow> 'w config_loader \<Rightarrow>
     command_error + (Config \<times> log_level \<times> cli_options \<times> 'w config_loader)" where
  "initConfig c p n s =
     bind_res (configFileFinder c) (\<lambda>configFilePath.
       case Load p n configFilePath s of
         (Inl e, _) \<Rightarrow> Inl (ErrConfig e)
       | (Inr conf, s') \<Rightarrow> (let (conf, l) = apply_flags c conf (early_level c) in Inr (conf, l, cli_opts c, s')))"

section \<open>Targets\<close>

record argsToStringsMapper =
  taskOrPipelineName :: string
  pipelineName :: "ref option"
  taskName :: "ref option"
  argsList :: "string list"

definition argsValidator :: "string list \<Rightarrow> Config \<Rightarrow> command_error + argsToStringsMapper" where
  "argsValidator args conf =
     (case args of
        [] \<Rightarrow> Inl ErrCommandPanic
      | name # rest \<Rightarrow>
          if cPipelines conf name = None \<and> cTasks conf name = None \<and> cWatchers conf name = None
          then Inl (ErrIncorrectPipelineTaskArg name)
          else Inr \<lparr>taskOrPipelineName = name, pipelineName = cPipelines conf name, taskName = cTasks conf name, argsList = rest\<rparr>)"

record runner_config =
  rcContexts :: "string \<rightharpoonup> ExecutionContext"
  rcVariables :: variables
  rcOutputFormat :: string
  rcDryRun :: bool
  rcDiscards :: bool

definition buildTaskRunner :: "cli \<Rightarrow> string list \<Rightarrow> Config \<Rightarrow> command_error + (runner_config \<times> argsToStringsMapper)" where
  "buildTaskRunner c args conf =
     bind_res (argsValidator args conf) (\<lambda>m.
     let vars = FromMap (cliGetStringMapString c ''set'');
         vars = Set vars ''ArgsList'' (GList (map GStr (argsList m)));
         vars = Set vars ''Args'' (GStr (Join (argsList m) '' '')) in
     Inr (\<lparr>rcContexts = cContexts conf, rcVariables = vars, rcOutputFormat = cOutput conf, rcDryRun = cDryRun conf,
            rcDiscards = cQuiet conf\<rparr>, m))"

section \<open>Running\<close>

text \<open>A task is run by the runner of theory \<open>Runner\<close>; \<open>Finish\<close> is only reached after a success. \<open>order\<close> is the order in
  which the contexts to clean up are visited.\<close>

definition runTask :: "'w params \<Rightarrow> string list \<Rightarrow> ('w, unit) run" where
  "runTask p order = (\<lambda>s.
     case Run p s of (Inl e, s') \<Rightarrow> (Inl e, s') | (Inr _, s') \<Rightarrow> (Inr (), Finish p order s'))"

text \<open>What running a pipeline calls, in order, and what it returns.\<close>

datatype pipeline_call = CallDenormalize | CallDraw | CallSchedule | CallSummary bool | CallFinish

definition runPipeline ::
  "bool \<Rightarrow> bool \<Rightarrow> bool \<Rightarrow> string + 'g \<Rightarrow> ('g \<Rightarrow> string option) \<Rightarrow> ('g \<Rightarrow> string option \<times> 'g) \<Rightarrow> ('g \<Rightarrow> string option) \<Rightarrow>
     string option \<times> pipeline_call list" where
  "runPipeline showGraphOnly detailedSummary summary denormalized graphCmd schedule graph_error =
     (case denormalized of
        Inl e \<Rightarrow> (Some e, [CallDenormalize, CallFinish])
      | Inr ng \<Rightarrow>
          if showGraphOnly then (graphCmd ng, [CallDenormalize, CallDraw, CallFinish])
          else (graph_error (snd (schedule ng)),
            [CallDenormalize, CallSchedule] @ (if summary then [CallSummary detailedSummary] else []) @ [CallFinish]))"

datatype run_call = RunsPipeline ref | RunsTask ref

text \<open>The pipeline of that name comes before the task; with neither, nothing is run.\<close>

definition runTarget :: "argsToStringsMapper \<Rightarrow> run_call option" where
  "runTarget m =
     (case pipelineName m of
        Some g \<Rightarrow> Some (RunsPipeline g)
      | None \<Rightarrow> (case taskName m of Some t \<Rightarrow> Some (RunsTask t) | None \<Rightarrow> None))"

definition run_RunE :: "cli \<Rightarrow> string list \<Rightarrow> (Config \<Rightarrow> command_error + string) \<Rightarrow> Config \<Rightarrow> command_error + run_call option" where
  "run_RunE c args selection conf =
     bind_res (if args = [] then map_sum id (\<lambda>selected. if selected = [] then [] else [selected]) (selection conf) else Inr args)
     (\<lambda>args. if args = [] then Inr None
       else bind_res (buildTaskRunner c args conf) (\<lambda>(_, m). Inr (runTarget m)))"

definition run_pipeline_RunE :: "cli \<Rightarrow> string list \<Rightarrow> Config \<Rightarrow> command_error + run_call" where
  "run_pipeline_RunE c args conf =
     bind_res (buildTaskRunner c args conf) (\<lambda>(_, m).
       case pipelineName m of
         None \<Rightarrow> Inl (ErrSpecifiedObjectIsNotFound ''pipeline'' (hd args))
       | Some g \<Rightarrow> Inr (RunsPipeline g))"

definition run_task_RunE :: "cli \<Rightarrow> string list \<Rightarrow> Config \<Rightarrow> command_error + run_call" where
  "run_task_RunE c args conf =
     bind_res (buildTaskRunner c args conf) (\<lambda>(_, m).
       case taskName m of
         None \<Rightarrow> Inl (ErrSpecifiedObjectIsNotFound ''task'' (hd args))
       | Some t \<Rightarrow> Inr (RunsTask t))"

text \<open>The watchers that the command starts are all those of the configuration.\<close>

definition watch_RunE :: "cli \<Rightarrow> string list \<Rightarrow> Config \<Rightarrow> command_error + string set" where
  "watch_RunE c args conf = bind_res (buildTaskRunner c args conf) (\<lambda>_. Inr (dom (cWatchers conf)))"

text \<open>The interactive task of a container context.\<close>

definition shell_task :: "string \<Rightarrow> Task" where
  "shell_task contextName = (NewTask ''interactive'')\<lparr>tInteractive := True, tContext := contextName,
     tVariables := NewVariables, tCommands := [[]], tEnv := NewVariables, tEnvFile := None\<rparr>"

definition shell_RunE :: "string \<Rightarrow> Config \<Rightarrow> command_error + Task" where
  "shell_RunE contextName conf =
     (case cContexts conf contextName of
        None \<Rightarrow> Inl (ErrIncorrectContextName contextName)
      | Some configCtx \<Rightarrow>
          if ecContainer configCtx = None then Inl (ErrNotV2Context contextName) else Inr (shell_task contextName))"

definition validate_RunE :: "Config \<Rightarrow> string" where
  "validate_RunE conf = ''file ('' @ cSourceFile conf @ '') is valid'' @ [CHR 0x0A]"

text \<open>What \<open>show\<close> prints: a task comes before a pipeline, a pipeline before a context. The templates are a parameter's.\<close>

datatype shown = ShowTask ref | ShowPipeline ref | ShowContext string ExecutionContext

definition show_RunE :: "string \<Rightarrow> Config \<Rightarrow> command_error + shown" where
  "show_RunE name conf =
     (case cTasks conf name of
        Some t \<Rightarrow> Inr (ShowTask t)
      | None \<Rightarrow> (case cPipelines conf name of
          Some g \<Rightarrow> Inr (ShowPipeline g)
        | None \<Rightarrow> (case cContexts conf name of
            Some c \<Rightarrow> Inr (ShowContext name c)
          | None \<Rightarrow> Inl (ErrIncorrectPipelineTaskArg name))))"

definition graph_RunE :: "string \<Rightarrow> Config \<Rightarrow> command_error + ref" where
  "graph_RunE name conf =
     (case cPipelines conf name of None \<Rightarrow> Inl (ErrNoSuchPipelineName name) | Some g \<Rightarrow> Inr g)"

text \<open>\<open>list\<close>: the names of a section, sorted, or what stands for none. The single lists keep the order of the map.\<close>

definition list_section :: "string \<Rightarrow> string list \<Rightarrow> string" where
  "list_section none xs =
     (if xs = [] then none else concat (map (\<lambda>x. [CHR 0x0A] @ ''- '' @ x) xs))"

definition list_RunE :: "string list \<Rightarrow> string list \<Rightarrow> string list \<Rightarrow> string list \<Rightarrow> string" where
  "list_RunE contexts pipelines tasks watchers =
     (let nl = [CHR 0x0A] in
      ''Contexts:'' @ list_section '' no contexts '' (sort contexts) @ nl @ nl @
      ''Pipelines:'' @ list_section ('' no pipelines '' @ nl) (sort pipelines) @ nl @ nl @
      ''Tasks:'' @ list_section ('' no tasks '' @ nl) (sort tasks) @ nl @ nl @
      ''Watchers:'' @ list_section ('' no watchers '' @ nl) (sort watchers) @ nl)"

definition list_names :: "string list \<Rightarrow> string" where
  "list_names xs = concat (map (\<lambda>n. n @ [CHR 0x0A]) xs)"

section \<open>init\<close>

text \<open>The sample configuration, line by line; as a template it has no actions.\<close>

definition configTmpl :: string where
  "configTmpl = Join
     [''# This is an example of eirctl tasks configuration file.'',
      ''# More information at https://github.com/eirctl/eirctl'',
      ''pipelines:'',
      ''  pipeline1:'',
      ''    - task: task1'',
      ''    - task: task2'',
      ''      depends_on: task1'',
      [],
      ''tasks:'',
      ''  task1:'',
      ''    description: \"Example task 1\"'',
      ''    command: echo \"I'm task1\"'',
      ''  '',
      ''  task2:'',
      ''    description: \"Example task 2\"'',
      ''    command: echo \"I'm task2. Your date is $(date)\"'',
      [],
      ''watchers:'',
      ''  watcher1:'',
      ''    watch: [\"README.*\", \"pkg/**/*.go\"]'',
      ''    events: [create, write, remove, rename, chmod]'',
      ''    task: task1'',
      []]
     [CHR 0x0A]"

text \<open>The files of the directory and the content of each. The file is opened for writing and created when it is not
  there; it is not truncated.\<close>

definition write_over :: "string \<Rightarrow> string \<Rightarrow> string" where
  "write_over old new = new @ drop (length new) old"

definition writeConfig :: "string \<Rightarrow> (string \<rightharpoonup> string) \<Rightarrow> (string \<rightharpoonup> string)" where
  "writeConfig file fs = fs(file \<mapsto> write_over (case fs file of None \<Rightarrow> [] | Some s \<Rightarrow> s) configTmpl)"

text \<open>The form asks for the file's name and whether to overwrite.\<close>

definition runInit ::
  "string \<Rightarrow> (string + string \<times> bool) \<Rightarrow> string list \<Rightarrow> string \<Rightarrow> bool \<Rightarrow> (string \<rightharpoonup> string) \<Rightarrow> string + (string \<rightharpoonup> string)" where
  "runInit cwd form args initDir noPrompt fs =
     (let initDir = (if initDir = [] then cwd else initDir) in
      if length args > 0 \<and> noPrompt then Inr (writeConfig (JoinPath [initDir, hd args]) fs)
      else (case form of
          Inl e \<Rightarrow> Inl e
        | Inr (file, accepted) \<Rightarrow> if accepted then Inr (writeConfig (JoinPath [initDir, file]) fs) else Inr fs))"

definition init_RunE ::
  "cli \<Rightarrow> string \<Rightarrow> (string + string \<times> bool) \<Rightarrow> string list \<Rightarrow> (string \<rightharpoonup> string) \<Rightarrow>
     command_error + (string + (string \<rightharpoonup> string))" where
  "init_RunE c cwd form args fs =
     (if cliGetBool c ''no-prompt'' \<and> length args = 0 then Inl ErrNoFileName
      else Inr (runInit cwd form args (cliGetString c ''dir'') (cliGetBool c ''no-prompt'') fs))"

section \<open>generate\<close>

definition DefaultCIOutput :: "string \<rightharpoonup> string" where
  "DefaultCIOutput = [GitHubCITarget \<mapsto> ''.github/workflows'']"

text \<open>The file that is created, and its content; \<open>create\<close> is the error of creating or writing it.\<close>

definition generateDefinition ::
  "gen_io \<Rightarrow> nat \<Rightarrow> nat \<Rightarrow> nat \<Rightarrow> (string \<Rightarrow> string option) \<Rightarrow> Config \<Rightarrow> argsToStringsMapper \<Rightarrow> string \<Rightarrow> string \<Rightarrow> heap \<Rightarrow>
     (command_error + string \<times> string) \<times> heap" where
  "generateDefinition io n m k create conf mapper targetTyp outputDir h =
     (case pipelineName mapper of
        None \<Rightarrow> (Inl ErrNotAPipeline, h)
      | Some pipeline \<Rightarrow>
          (case GenCi_New targetTyp (cGenerate conf) of
             Inl e \<Rightarrow> (Inl (ErrGenerate e), h)
           | Inr g \<Rightarrow>
               (case GenCi_Convert io n m k g pipeline h of
                  (Inl e, h') \<Rightarrow> (Inl (ErrGenerate e), h')
                | (Inr b, h') \<Rightarrow>
                    let output = (if outputDir = []
                          then (case DefaultCIOutput targetTyp of Some defaultPath \<Rightarrow> defaultPath | None \<Rightarrow> outputDir)
                          else outputDir);
                        file = JoinPath [output, ConvertToMachineFriendly (gName (hGraphs h' pipeline)) @ ''.yml''] in
                    (case create file of Some e \<Rightarrow> (Inl (ErrWriteOutput e), h') | None \<Rightarrow> (Inr (file, b), h')))))"

section \<open>Summary and selection\<close>

definition in_color :: "string \<Rightarrow> string \<Rightarrow> string" where
  "in_color code s = [CHR 0x1B] @ ''['' @ code @ ''m'' @ s @ [CHR 0x1B] @ ''[0m''"

definition BOLD_TERMINAL :: "string \<Rightarrow> string" where
  "BOLD_TERMINAL s = [CHR 0x1B] @ ''[1m'' @ s"

definition GREEN_TERMINAL :: "string \<Rightarrow> string" where "GREEN_TERMINAL = in_color ''32''"
definition CYAN_TERMINAL :: "string \<Rightarrow> string" where "CYAN_TERMINAL = in_color ''36''"
definition RED_TERMINAL :: "string \<Rightarrow> string" where "RED_TERMINAL = in_color ''31''"
definition GREY_TERMINAL :: "string \<Rightarrow> string" where "GREY_TERMINAL = in_color ''18''"

definition stageNameHelper :: "string \<Rightarrow> string \<Rightarrow> string" where
  "stageNameHelper prf stage = Replace1 stage (prf @ ''->'') []"

text \<open>The messages of the error of a stage's task and of its pipeline; a nil error of an errored task panics. Durations
  are printed by a parameter.\<close>

definition printErrorStageSummary ::
  "(Stage \<Rightarrow> string) \<Rightarrow> (ref \<Rightarrow> Task) \<Rightarrow> (ref \<Rightarrow> string option) \<Rightarrow> Stage \<Rightarrow> string option" where
  "printErrorStageSummary dur tasks pipeline_error stage =
     (case (case sTask stage of None \<Rightarrow> Some [] | Some t \<Rightarrow> map_option TrimSpace (ErrorMessage (tasks t))) of
        None \<Rightarrow> None
      | Some log \<Rightarrow>
          let log = (case sPipeline stage of
                None \<Rightarrow> log
              | Some g \<Rightarrow> (case pipeline_error g of None \<Rightarrow> log | Some e \<Rightarrow> if log = [] then e else log)) in
          Some (RED_TERMINAL (''- Stage '' @ sName stage @ '' failed in '' @ dur stage @ [CHR 0x0A]) @
            (if log \<noteq> [] then RED_TERMINAL (''  > '' @ log @ [CHR 0x0A]) else [])))"

definition printStageSummary ::
  "(Stage \<Rightarrow> string) \<Rightarrow> (ref \<Rightarrow> Task) \<Rightarrow> (ref \<Rightarrow> string option) \<Rightarrow> Stage \<Rightarrow> string option" where
  "printStageSummary dur tasks pipeline_error stage =
     (case sStatus stage of
        StatusDone \<Rightarrow> Some (GREEN_TERMINAL (''- Stage '' @ sName stage @ '' was completed in '' @ dur stage @ [CHR 0x0A]))
      | StatusSkipped \<Rightarrow> Some (CYAN_TERMINAL (''- Stage '' @ sName stage @ '' was skipped'' @ [CHR 0x0A]))
      | StatusError \<Rightarrow> printErrorStageSummary dur tasks pipeline_error stage
      | StatusCanceled \<Rightarrow> Some (GREY_TERMINAL (''- Stage '' @ sName stage @ '' was cancelled'' @ [CHR 0x0A]))
      | _ \<Rightarrow> Some (RED_TERMINAL (''- Unexpected status '' @ Itoa (status_code (sStatus stage)) @ '' for stage '' @
          sName stage @ [CHR 0x0A])))"

text \<open>\<open>slices.SortFunc\<close> on at most twelve stages is an insertion sort, which is stable; \<open>sort_many\<close> is what it makes of
  more. A stage that was not started has the zero time.\<close>

definition started :: "Stage \<Rightarrow> int" where
  "started s = (case sStart s of None \<Rightarrow> -62135596800000000000 | Some t \<Rightarrow> t)"

definition sortStagesByStart :: "(Stage list \<Rightarrow> Stage list) \<Rightarrow> Stage list \<Rightarrow> Stage list" where
  "sortStagesByStart sort_many xs = (if length xs \<le> 12 then sort_key started xs else sort_many xs)"

definition PrintSummary ::
  "(Stage list \<Rightarrow> Stage list) \<Rightarrow> (Stage \<Rightarrow> string) \<Rightarrow> string \<Rightarrow> (ref \<Rightarrow> Task) \<Rightarrow> (ref \<Rightarrow> string option) \<Rightarrow> ExecutionGraph \<Rightarrow>
     (ref \<Rightarrow> Stage) \<Rightarrow> bool \<Rightarrow> string option" where
  "PrintSummary sort_many dur graph_dur tasks pipeline_error g stages detailedSummary =
     (let ns = BFSNodesFlattened g RootNodeName in
      if None \<in> set ns then None
      else let printed = map (\<lambda>s. printStageSummary dur tasks pipeline_error
                   (s\<lparr>sName := stageNameHelper (gName g) (sName s)\<rparr>))
                 (sortStagesByStart sort_many (map (\<lambda>r. stages (the r)) ns)) in
        if None \<in> set printed then None
        else Some (BOLD_TERMINAL (''Summary: '' @ [CHR 0x0A]) @ concat (map the printed) @
          BOLD_TERMINAL ''Total duration'' @ '': '' @ GREEN_TERMINAL graph_dur @ [CHR 0x0A]))"

text \<open>The items offered for selection: the pipelines, then, unless only they are asked for, the tasks, each sorted.\<close>

definition pipeline_item :: "store \<Rightarrow> Config \<Rightarrow> string \<Rightarrow> (string \<times> string) option" where
  "pipeline_item st conf name =
     (let ns = BFSNodesFlattened (stGraphs st (the (cPipelines conf name))) RootNodeName in
      if None \<in> set ns then None
      else Some (name, ''Pipeline stages: '' @ Join (map (\<lambda>r. sName (stStages st (the r))) ns) '',''))"

definition task_item :: "store \<Rightarrow> Config \<Rightarrow> string \<Rightarrow> string \<times> string" where
  "task_item st conf name =
     (let t = stTasks st (the (cTasks conf name));
          desc = (if tDescription t = [] then ''No description'' else tDescription t) in
      (tName t, ''Task: '' @ desc))"

definition BuildOptionsList :: "store \<Rightarrow> Config \<Rightarrow> string list \<Rightarrow> string list \<Rightarrow> bool \<Rightarrow> (string \<times> string) list option" where
  "BuildOptionsList st conf pipelines tasks showPipelineOnly =
     (let items = map (pipeline_item st conf) (sort pipelines) in
      if None \<in> set items then None
      else Some (map the items @ (if showPipelineOnly then [] else map (task_item st conf) (sort tasks))))"

section \<open>Properties of the program\<close>

text \<open>Choosing the default command twice is choosing it once, and what follows the program's name then is a command or
  one of four flags alone.\<close>

theorem default_command_stable:
  assumes "args \<noteq> []"
  shows "setDefaultCommandIfNonePresent (setDefaultCommandIfNonePresent args) = setDefaultCommandIfNonePresent args \<and>
    (let a = setDefaultCommandIfNonePresent args in
     length a > 1 \<and> hd a = hd args \<and>
     (a ! 1 \<in> set subCommands \<or> length a = 2 \<and> a ! 1 \<in> {''-h'', ''--help'', ''-v'', ''--version''}))"
proof -
  have run: "''run'' \<in> set subCommands" by (simp add: subCommands_def)
  obtain p rest where args: "args = p # rest" using assms by (cases args) auto
  show ?thesis
  proof (cases rest)
    case Nil
    with run args show ?thesis
      by (simp add: setDefaultCommandIfNonePresent_def del: set_simps) (simp add: subCommands_def)
  next
    case (Cons a as)
    consider "length args = 2 \<and> a \<in> set [''-h'', ''--help'', ''-v'', ''--version'']" | "a \<in> set subCommands"
      | "\<not> (length args = 2 \<and> a \<in> set [''-h'', ''--help'', ''-v'', ''--version''])" "a \<notin> set subCommands" by blast
    then show ?thesis
    proof cases
      case 1
      with args Cons have "setDefaultCommandIfNonePresent args = args" by (simp add: setDefaultCommandIfNonePresent_def)
      with 1 args Cons show ?thesis by simp
    next
      case 2
      with args Cons have "setDefaultCommandIfNonePresent args = args" by (simp add: setDefaultCommandIfNonePresent_def Let_def)
      with 2 args Cons show ?thesis by simp
    next
      case 3
      with args Cons have d: "setDefaultCommandIfNonePresent args = p # ''run'' # a # as"
        by (auto simp: setDefaultCommandIfNonePresent_def)
      have "setDefaultCommandIfNonePresent (p # ''run'' # a # as) = p # ''run'' # a # as"
        using run by (simp add: setDefaultCommandIfNonePresent_def)
      with d run args show ?thesis by simp
    qed
  qed
qed

theorem default_command_stable_witness:
  "setDefaultCommandIfNonePresent [''eirctl'', ''build'', ''--debug''] = [''eirctl'', ''run'', ''build'', ''--debug''] \<and>
   setDefaultCommandIfNonePresent (setDefaultCommandIfNonePresent [''eirctl'', ''build'', ''--debug'']) =
     setDefaultCommandIfNonePresent [''eirctl'', ''build'', ''--debug'']"
  using default_command_stable [of "[''eirctl'', ''build'', ''--debug'']"]
  by (simp add: setDefaultCommandIfNonePresent_def subCommands_def)

text \<open>What is not a listed name goes to \<open>run\<close>: the command \<open>help\<close>, and every command that follows a flag.\<close>

theorem commands_taken_for_targets:
  "setDefaultCommandIfNonePresent [''eirctl'', ''help''] = [''eirctl'', ''run'', ''help''] \<and>
   setDefaultCommandIfNonePresent [''eirctl'', ''-c'', file, ''list''] = [''eirctl'', ''run'', ''-c'', file, ''list'']"
  by (simp add: setDefaultCommandIfNonePresent_def subCommands_def)

text \<open>The exit status of the program is a byte, and it is zero exactly when the command has succeeded or its error
  carries the exit status zero.\<close>

theorem exit_status:
  "runMain err < 256 \<and> (runMain err = 0 \<longleftrightarrow> err = None \<or> (\<exists>m. err = Some (ExecStatus 0, m)))"
proof (cases err)
  case (Some x)
  obtain e m where x: "x = (e, m)" by fastforce
  have b: "unat c < 256" for c :: "8 word" using unsigned_less [of c, where 'a = nat] by simp
  show ?thesis
    by (cases e) (auto simp: runMain_def IsExitStatus_def Some x b unat_eq_zero)
qed (simp add: runMain_def)

section \<open>Properties of the configuration\<close>

text \<open>The output is that of the shortcut flags, \<open>cockpit\<close> before \<open>raw\<close>, else of the flag or the environment, else of the
  file, else raw.\<close>

theorem output_precedence:
  "cOutput (apply_output c conf) =
     (if cliGetBool c ''cockpit'' then ''cockpit''
      else if cliGetBool c ''raw'' then ''raw''
      else if cliGetString c ''output'' \<noteq> [] then cliGetString c ''output''
      else if cOutput conf \<noteq> [] then cOutput conf
      else ''raw'')"
  by (simp add: apply_output_def Let_def)

text \<open>The summary is shown unless the flag forbids it, whatever the configuration says.\<close>

theorem summary_setting_ignored:
  "cSummary (fst (apply_flags c conf l)) = (\<not> cliNoSummary c)"
  by (simp add: apply_flags_def apply_output_def apply_switches_def apply_verbose_def apply_debug_def Let_def)

text \<open>A configuration file that is asked for and does not exist is replaced by another that does.\<close>

theorem missing_config_replaced:
  assumes "\<not> cliExists c (cliGetString c ''config'')" and "cliExists c ''tasks.yaml'' \<or> cliExists c ''taskctl.yaml''"
  shows "\<exists>other. configFileFinder c = Inr other \<and> other \<noteq> cliGetString c ''config''"
  using assms by (auto simp: configFileFinder_def)

definition cli_demo :: cli where
  "cli_demo = \<lparr>cliGetBool = (\<lambda>k. k = ''raw''), cliGetString = (\<lambda>k. if k = ''config'' then ''prod.yaml'' else []),
     cliGetStringMapString = (\<lambda>_. Map.empty), cliChanged = (\<lambda>_. False), cliQuiet = False, cliDryRun = False,
     cliNoSummary = False, cliExists = (\<lambda>f. f = ''tasks.yaml'')\<rparr>"

theorem missing_config_replaced_witness:
  "configFileFinder cli_demo = Inr ''tasks.yaml'' \<and> cliGetString cli_demo ''config'' = ''prod.yaml''"
proof -
  have "\<not> cliExists cli_demo (cliGetString cli_demo ''config'')" "cliExists cli_demo ''tasks.yaml'' \<or> cliExists cli_demo ''taskctl.yaml''"
    by (simp_all add: cli_demo_def)
  from missing_config_replaced [OF this] show ?thesis by (auto simp: configFileFinder_def cli_demo_def)
qed

section \<open>Properties of the commands\<close>

text \<open>A name is run exactly as a pipeline when it names one, else as a task; the name of a watcher is accepted, and
  nothing is run.\<close>

theorem run_target:
  assumes "buildTaskRunner c (name # rest) conf = Inr (rc, m)"
  shows "runTarget m =
      (case cPipelines conf name of Some g \<Rightarrow> Some (RunsPipeline g) | None \<Rightarrow> map_option RunsTask (cTasks conf name)) \<and>
    (runTarget m = None \<longrightarrow> cWatchers conf name \<noteq> None) \<and>
    rcVariables rc ''Args'' = Some (GStr (Join rest '' '')) \<and> rcOutputFormat rc = cOutput conf"
  using assms
  by (auto simp: buildTaskRunner_def argsValidator_def runTarget_def Let_def env_simps split: if_splits option.splits)

definition watcher_config :: Config where
  "watcher_config = (NewConfig demo_params)\<lparr>cWatchers :=
     [''w'' \<mapsto> \<lparr>wName = ''w'', wPaths = [], wEvents = {}, wTask = 1\<rparr>, ''v'' \<mapsto> \<lparr>wName = ''v'', wPaths = [], wEvents = {}, wTask = 1\<rparr>]\<rparr>"

lemma watcher_config_fields [simp]:
  "cPipelines watcher_config = Map.empty" "cTasks watcher_config = Map.empty" "dom (cWatchers watcher_config) = {''v'', ''w''}"
  by (auto simp: watcher_config_def NewConfig_def)

theorem run_target_witness:
  "\<exists>rc m. buildTaskRunner cli_demo [''w'', ''x'', ''y''] watcher_config = Inr (rc, m) \<and> runTarget m = None \<and>
     rcVariables rc ''Args'' = Some (GStr ''x y'')"
proof -
  have "cWatchers watcher_config ''w'' \<noteq> None" by (simp add: watcher_config_def)
  then obtain rc m where b: "buildTaskRunner cli_demo [''w'', ''x'', ''y''] watcher_config = Inr (rc, m)"
    by (auto simp: buildTaskRunner_def argsValidator_def Let_def)
  from run_target [OF b] b show ?thesis by auto
qed

text \<open>Whatever names are given, once the first is accepted every watcher of the configuration is started.\<close>

theorem watch_starts_every_watcher:
  assumes "watch_RunE c (name # rest) conf = Inr ws"
  shows "ws = dom (cWatchers conf)"
  using assms by (auto simp: watch_RunE_def bind_res_Inr_iff)

theorem watch_starts_every_watcher_witness:
  "watch_RunE cli_demo [''w''] watcher_config = Inr {''v'', ''w''}"
proof -
  have "cWatchers watcher_config ''w'' \<noteq> None" by (simp add: watcher_config_def)
  then obtain ws where ws: "watch_RunE cli_demo [''w''] watcher_config = Inr ws"
    by (auto simp: watch_RunE_def buildTaskRunner_def argsValidator_def Let_def)
  with watch_starts_every_watcher [OF ws] show ?thesis by simp
qed

text \<open>The flag for a detailed summary changes nothing in what is printed.\<close>

theorem detailed_summary_ignored:
  "PrintSummary srt dur gdur tasks perr g stages detailed = PrintSummary srt dur gdur tasks perr g stages (\<not> detailed)"
  by (simp add: PrintSummary_def)

text \<open>The sample configuration is written over the beginning of the file that is there: what a longer file has after it
  stays.\<close>

theorem init_keeps_tail:
  assumes "fs file = Some old" and "length old > length configTmpl"
  shows "\<exists>tail. tail \<noteq> [] \<and> writeConfig file fs file = Some (configTmpl @ tail) \<and> drop (length configTmpl) old = tail"
  using assms by (simp add: writeConfig_def write_over_def)

theorem init_keeps_tail_witness:
  "writeConfig ''eirctl.yaml'' [''eirctl.yaml'' \<mapsto> configTmpl @ ''  mine: 1''] ''eirctl.yaml'' = Some (configTmpl @ ''  mine: 1'')"
  using init_keeps_tail [of "[''eirctl.yaml'' \<mapsto> configTmpl @ ''  mine: 1'']" "''eirctl.yaml''" "configTmpl @ ''  mine: 1''"]
  by simp

text \<open>For Bitbucket an empty file is written to the working directory, and the command succeeds.\<close>

theorem bitbucket_file_is_empty:
  assumes "pipelineName m = Some g" and "\<And>f. create f = None"
  shows "generateDefinition io a b k create conf m ''bitbucket'' [] h =
    (Inr (JoinPath [[], ConvertToMachineFriendly (gName (hGraphs h g)) @ ''.yml''], []), h)"
  using assms
  by (simp add: generateDefinition_def GenCi_New_def GitHubCITarget_def BitbucketCITarget_def GenCi_Convert_def
      bitbucket_Convert_def DefaultCIOutput_def)

theorem bitbucket_file_is_empty_witness:
  "generateDefinition gen_demo 1 1 1 (\<lambda>_. None) watcher_config \<lparr>taskOrPipelineName = ''p'', pipelineName = Some 1, taskName = None,
     argsList = []\<rparr> ''bitbucket'' [] nested_heap =
   (Inr (JoinPath [[], ConvertToMachineFriendly (gName (hGraphs nested_heap 1)) @ ''.yml''], []), nested_heap)"
  by (rule bitbucket_file_is_empty) simp_all

section \<open>A failed task and its contexts\<close>

text \<open>Operations that shut no context down.\<close>

definition never_down :: "('w, 'a) run \<Rightarrow> bool" where
  "never_down m \<longleftrightarrow> (\<forall>s r. ecOnceDown (rsHeap (snd (m s)) r) \<longrightarrow> ecOnceDown (rsHeap s r))"

named_theorems down_intros \<open>operations that shut no context down\<close>

lemma never_downD: "never_down m \<Longrightarrow> m s = (v, s') \<Longrightarrow> ecOnceDown (rsHeap s' r) \<Longrightarrow> ecOnceDown (rsHeap s r)"
  unfolding never_down_def by (metis snd_conv)

lemma never_downI: "(\<And>s v s' r. m s = (v, s') \<Longrightarrow> ecOnceDown (rsHeap s' r) \<Longrightarrow> ecOnceDown (rsHeap s r)) \<Longrightarrow> never_down m"
  unfolding never_down_def by (metis prod.collapse)

lemma never_down_keeps: "keeps rsHeap m \<Longrightarrow> never_down m"
  by (simp add: never_down_def keeps_def)

lemma never_down_bind [down_intros]: "never_down m \<Longrightarrow> (\<And>v. never_down (k v)) \<Longrightarrow> never_down (op_bind m k)"
proof (rule never_downI)
  fix s v s' r
  assume m: "never_down m" and k: "\<And>v. never_down (k v)" and b: "op_bind m k s = (v, s')" and d: "ecOnceDown (rsHeap s' r)"
  obtain x s1 where x: "m s = (x, s1)" by fastforce
  show "ecOnceDown (rsHeap s r)"
  proof (cases x)
    case (Inl e)
    with b x have "s1 = s'" by (simp add: op_bind_def)
    with never_downD [OF m x] d show ?thesis by simp
  next
    case (Inr u)
    with b x have "k u s1 = (v, s')" by (simp add: op_bind_def)
    from never_downD [OF k this d] never_downD [OF m x] show ?thesis by simp
  qed
qed

lemma never_down_then [down_intros]: "never_down m \<Longrightarrow> never_down n \<Longrightarrow> never_down (op_then m n)"
  unfolding op_then_def by (rule never_down_bind)

lemma never_down_basic [down_intros]:
  "never_down (op_return v)" "never_down (op_throw e)" "never_down (op_lift x)" "never_down (op_get g)"
  "never_down (op_world f)" "never_down (op_fail_if h)" "never_down (mod_task t)" "never_down (end_task p)"
  by (auto simp: never_down_def op_simps op_world_def op_fail_if_def mod_task_def end_task_def split: prod.splits)

lemma never_down_for [down_intros]: "(\<And>x. never_down (k x)) \<Longrightarrow> never_down (op_for xs k)"
  by (induction xs) (auto intro: down_intros)

lemma never_down_map [down_intros]: "(\<And>x. never_down (k x)) \<Longrightarrow> never_down (op_map xs k)"
  by (induction xs) (auto intro!: down_intros)

lemma never_down_error [down_intros]: "never_down m \<Longrightarrow> never_down (op_map_error f m)"
  by (rule never_downI) (auto simp: op_map_error_def split: prod.splits sum.splits dest: never_downD)

lemma never_down_if [down_intros]: "never_down m \<Longrightarrow> never_down n \<Longrightarrow> never_down (if b then m else n)"
  by simp

lemma never_down_service [down_intros]: "never_down (service_cmds f p r)"
  by (auto simp: never_down_def service_cmds_def Let_def split: prod.splits)

lemma never_down_Up [down_intros]: "never_down (Up p r)"
  by (auto simp: never_down_def Up_def Let_def set_ctx_def split: prod.splits if_splits)

lemma never_down_alloc [down_intros]: "\<not> ecOnceDown c \<Longrightarrow> never_down (alloc_ctx c)"
  by (simp add: never_down_def alloc_ctx_def set_ctx_def)

lemma never_down_lookup [down_intros]: "never_down (lookup_ctx p t r)"
proof -
  have "never_down (op_modify (\<lambda>s. s\<lparr>rsCleanup := (rsCleanup s)(n \<mapsto> c)\<rparr>))" for n c
    by (simp add: never_down_def op_simps)
  then show ?thesis unfolding lookup_ctx_def by (auto split: option.splits intro: down_intros)
qed

lemma never_down_context [down_intros]: "never_down (contextForTask p t)"
proof -
  have "\<not> ecOnceDown (DefaultContext e)" for e by (simp add: DefaultContext_def NewExecutionContext_def)
  moreover have "never_down (op_modify (\<lambda>s. set_ctx r ((rsHeap s r)\<lparr>ecEnv := f s\<rparr>) s))" for r and f :: "'a rstate \<Rightarrow> variables"
    by (simp add: never_down_def op_simps set_ctx_def)
  ultimately show ?thesis unfolding contextForTask_def Before_def by (intro down_intros) auto
qed

lemma never_down_compile [down_intros]: "never_down (compileCommand p r t command env vars)"
proof -
  have "never_down (process_env p r env)"
    by (auto simp: never_down_def process_env_def ProcessEnvfile_def set_ctx_def split: option.splits if_splits)
  then show ?thesis unfolding compileCommand_def Let_def by (intro down_intros)
qed

lemma never_down_execute [down_intros]: "never_down (execute p t jobs)"
proof -
  have "never_down (op_modify (\<lambda>s. s\<lparr>rsTask := f s\<rparr>))" for f by (simp add: never_down_def op_simps)
  moreover have "never_down (execute_job p t c job)" for c job
    unfolding execute_job_def note_exit_def fail_task_def
    by (intro down_intros) (auto split: option.splits intro: down_intros)
  ultimately show ?thesis unfolding execute_def by (intro down_intros)
qed

lemma never_down_CompileTask [down_intros]: "never_down (CompileTask p r t env vars)"
  unfolding CompileTask_def Let_def case_prod_unfold
  by (intro down_intros) (auto split: list.splits intro: down_intros)

lemma never_down_store [down_intros]: "never_down (storeTaskOutput p t)"
proof -
  have "never_down (op_modify (\<lambda>s. s\<lparr>rsEnv := f s\<rparr>))" for f by (simp add: never_down_def op_simps)
  then show ?thesis unfolding storeTaskOutput_def by (auto split: option.splits intro: down_intros)
qed

lemma never_down_body: "never_down (run_body p t r)"
  unfolding run_body_def checkTaskCondition_def runner_before_def runner_after_def Let_def by (intro down_intros)

lemma never_down_Run: "never_down (Run p)"
  unfolding never_down_def
proof (intro allI impI)
  fix s r assume d: "ecOnceDown (rsHeap (snd (Run p s)) r)"
  let ?t = "rsTask s"
  obtain v1 s1 where c: "contextForTask p ?t s = (v1, s1)" by fastforce
  note 1 = never_downD [OF never_down_context c, of r]
  show "ecOnceDown (rsHeap s r)"
  proof (cases "\<exists>x. v1 = Inr x \<and> p_new_output p ?t (if tInteractive ?t then ''raw'' else p_output_format p) = None")
    case False
    with d c 1 show ?thesis by (cases v1) (auto simp: Run_def Let_def split: option.splits)
  next
    case True
    then obtain x where x: "v1 = Inr x" "p_new_output p ?t (if tInteractive ?t then ''raw'' else p_output_format p) = None" by blast
    obtain v2 s2 where b: "run_body p ?t x s1 = (v2, s2)" by fastforce
    obtain v3 s3 where a: "After p x s2 = (v3, s3)" by fastforce
    from x c b a d have "ecOnceDown (rsHeap s3 r)" by (simp add: Run_def Let_def run_deferred_def split: if_splits)
    from never_downD [OF never_down_service a [unfolded After_def] this] never_downD [OF never_down_body b] 1
    show ?thesis by blast
  qed
qed

lemma Finish_downs:
  "n \<in> set order \<Longrightarrow> rsCleanup s n = Some r \<Longrightarrow> ecOnceDown (rsHeap (Finish p order s) r)"
proof -
  have kept: "rsCleanup (Down p q s) = rsCleanup s" "ecOnceDown (rsHeap s r) \<Longrightarrow> ecOnceDown (rsHeap (Down p q s) r)"
    "ecOnceDown (rsHeap (Down p r s) r)" for q s
    by (auto simp: Down_def Let_def set_ctx_def)
  have stays: "ecOnceDown (rsHeap s r) \<Longrightarrow> ecOnceDown (rsHeap (Finish p xs s) r)" for xs s
    unfolding Finish_def by (induction xs arbitrary: s) (auto split: option.split intro: kept)
  show "n \<in> set order \<Longrightarrow> rsCleanup s n = Some r \<Longrightarrow> ecOnceDown (rsHeap (Finish p order s) r)"
  proof (induction order arbitrary: s)
    case (Cons m order)
    show ?case
    proof (cases "m = n")
      case True
      with Cons.prems stays [of "Down p r s" order] kept(3) show ?thesis by (simp add: Finish_def)
    next
      case False
      with Cons.prems Cons.IH show ?thesis by (cases "rsCleanup s m") (auto simp: Finish_def kept(1))
    qed
  qed simp
qed


definition bad_format :: "nat params" where
  "bad_format = count_params\<lparr>p_new_output := \<lambda>t f. Some ''unknown decorator''\<rparr>"


end
