(* ===== verification/Spec2Isabelle.thy ===== *)
theory Spec2Isabelle
  imports Scheduler Flattened RunCancel ConfigLoad RunStage Output ContainerExec Terminal WorkflowTopology GenCI Materialize SelfUpdate Command
begin

text \<open>
  A verification development for eirctl (Go), a task and pipeline runner: a configuration file declares tasks
  (lists of shell commands), the contexts they run in (the host or a container) and pipelines (directed acyclic
  graphs of stages, each of which runs a task or another pipeline); \<open>eirctl run\<close> loads it, flattens a
  pipeline and runs its stages, each as soon as the stages it depends on have ended.

  \<^bold>\<open>From the code to the theories.\<close> Below \<open>src/\<close>; every definition has the name of the function it
  translates, where Isabelle allows it, and a function that is cut into parts has a definition for each.

  \<^item> Foundations: \<open>Prelude\<close> (results \<open>error + 'a\<close>, operations \<open>'s \<Rightarrow> (error + 'a) \<times> 's\<close> that pass a
    state, the locales of transition systems), \<open>GoStrings\<close>, \<open>GoPaths\<close>, \<open>GoUtf8\<close>, \<open>GoMatch\<close> (what the code uses
    of \<open>strings\<close>, \<open>strconv\<close>, \<open>path\<close>, \<open>path/filepath\<close>, \<open>unicode/utf8\<close>; a string is a list of bytes).
  \<^item> \<open>Variables\<close>: \<open>variables/variables.go\<close>. \<open>Utils\<close>: \<open>internal/utils\<close>: env files and the sandbox of their
    paths, conversions, cascaded names. \<open>Tasks\<close>: \<open>task/task.go\<close>.
  \<^item> \<open>Stage\<close>, \<open>Graph\<close>, \<open>Scheduler\<close>, \<open>RunStage\<close>, \<open>Denormalize\<close>, \<open>Flattening\<close>, \<open>Flattened\<close>: package \<open>scheduler\<close>. The graph with
    its two adjacency maps and the search for cycles; \<open>Schedule\<close> with the goroutines of the stages as a step
    relation; the flattening of nested pipelines over a heap of shared stages, tasks, env files and graphs.
  \<^item> \<open>Contexts\<close>, \<open>Runner\<close>, \<open>RunCancel\<close>, \<open>ContainerExec\<close>, \<open>Terminal\<close>: package \<open>runner\<close> and
    \<open>internal/config/context.go\<close>. Contexts and the environment they hand to a container, the compilation of a task to jobs,
    \<open>TaskRunner.Run\<close> with its deferred part, the protocol of its cancellation, and the execution of a job in a
    container against the calls of an engine, of which a trace is kept.
  \<^item> \<open>Output\<close>: package \<open>output\<close>, the raw, prefixed and cockpit writers and the capture of task outputs.
  \<^item> \<open>Definitions\<close>, \<open>Imports\<close>, \<open>SshConfig\<close>, \<open>GitSource\<close>, \<open>Loader\<close>, \<open>Build\<close>, \<open>Watch\<close>, \<open>ConfigLoad\<close>:
    \<open>internal/config\<close>, \<open>internal/schema/schema.go\<close> and \<open>internal/watch\<close>. What a file holds and how two are merged; imports from files, directories, URLs and git
    with hashes and a cache; the SSH options and the check of host keys; tasks, pipelines and watchers
    built from the definitions over a store of shared objects; the search for the default file and the validation.
  \<^item> \<open>GithubSchema\<close>, \<open>GenCI\<close>: \<open>internal/schema/github.go\<close> (workflows decoded from YAML nodes with merges and
    aliases) and \<open>internal/genci\<close> (a pipeline turned into a workflow).
  \<^item> \<open>Command\<close>, \<open>SelfUpdate\<close>: \<open>cmd\<close>, \<open>internal/cmdutils\<close> and \<open>selfupdate\<close>.
  \<^item> \<open>WorkflowPolicy\<close>, \<open>WorkflowTopology\<close>, \<open>Materialize\<close>: the two programs of \<open>scripts\<close> that guard the
    repository's own CI: the policy its workflows are checked against, and the fetch of a pull request's Go
    sources as verified Git objects.

  \<^bold>\<open>How the components meet.\<close> \<open>Command\<close> loads (\<open>ConfigLoad\<close>, \<open>Loader\<close>, \<open>Imports\<close>, \<open>GitSource\<close>) and builds
  (\<open>Build\<close>) a configuration, takes its contexts to a runner (\<open>Runner\<close>) and runs a task, or flattens a pipeline
  (\<open>Flattening\<close>) and schedules it (\<open>Scheduler\<close>), whose goroutines prepare (\<open>RunStage\<close>) and run a stage's task
  on the runner (\<open>Runner\<close>, \<open>ContainerExec\<close>), with its output going through \<open>Output\<close>. This theory closes the
  chain from the configuration to the schedule. \<open>GenCI\<close> starts from the same flattened pipeline, and
  \<open>WorkflowPolicy\<close> decodes with the same types as \<open>GithubSchema\<close>.

  \<^bold>\<open>State.\<close> Go pointers that are shared are references into a store (\<open>Build\<close>, \<open>Denormalize\<close>, the contexts of
  \<open>Runner\<close>), so that writes through one name are seen through another. Goroutines are step relations
  (\<open>Scheduler.step\<close>, \<open>RunCancel.cancel_step\<close>, \<open>Watch.watch_step\<close>), one step for each access to the
  state that others see; their properties are proved for every reachable state. A Go map that is ranged over
  is a parameter that lists it in any order, or the list of its entries. Errors are constructors of an error
  type, a panic is one of them (\<open>NilDereference\<close>, \<open>Panicked\<close>), and a call that never returns is \<open>None\<close> or the end of the fuel.

  \<^bold>\<open>What is shown.\<close>
  \<^item> The graph: construction succeeds exactly on acyclic edges, the two maps are converse, the breadth-first listing is complete.
  \<^item> The schedule: order, containment of failures, progress of each pass, its bound, the outcome, and that it
    never gets stuck on what the configuration builds.
  \<^item> Flattening: it ends unless a pipeline is nested in itself (and then it does not), tasks are not shared,
    the precedence of environments, and that the schedule of the flattened pipeline keeps the order of the
    configured one.
  \<^item> Running: the layers of a job's environment, what a container does not see, that contexts start once, which
    containers are left behind, how failures reach the exit status.
  \<^item> Loading: it ends for cyclic imports, keeps a file's own definitions, writes nothing whose hash does not
    match, reads env files in the sandbox only, and trusts no SSH host that is not known.
  \<^item> The scripts: the events that reach a workflow are those of the closure of its callers (a refinement of the
    code's worklist), pull request content runs without privilege, actions are pinned, write permissions are
    where they are listed; the materializer writes all of the verified tree or nothing.
  \<^item> What the code does and its documentation does not say: theorems named after the behaviour (such as
    \<open>sibling_taken_for_child\<close>, \<open>missing_config_replaced\<close>, \<open>update_installs_any_answer\<close>), on the model as it is.

  \<^bold>\<open>Interfaces.\<close> \<open>layered_env\<close> (\<open>Variables\<close>), \<open>succ_graph\<close> (\<open>Graph\<close>), \<open>transition_system\<close> and
  \<open>terminating_system\<close> (\<open>Prelude\<close>; interpreted on the schedule, a pass of it and the watcher), \<open>heap_invariant\<close>
  (\<open>Flattening\<close>; interpreted on the three invariants the recursions keep), \<open>rebuild_invariant\<close> (\<open>Flattening\<close>; on the
  two invariants of rebuilding), \<open>output_decorator\<close> (\<open>Output\<close>; on the
  three writers and their choice) and \<open>source_tree\<close> (\<open>Materialize\<close>; on a file system of paths) are locales,
  interpreted on the definitions of the code.

  \<^bold>\<open>Bounds and fuel.\<close> \<open>Loader.load\<close> counts nested imports: one more than the number of sources is enough, as a source that
  is being loaded is not loaded again (\<open>load_terminates\<close>). \<open>Flatten\<close> and \<open>rebuildFromDenormalized\<close> count the
  depth: \<open>Denormalize_ends\<close> gives depths from which on the result is the same; the recursion of \<open>GenCI\<close> follows the depth of the
  rebuilt pipeline. \<open>createContainer\<close> counts attempts: two are enough for an engine that finds what it pulled, none is for one that does not.
  \<open>yamlMapping\<close> counts merges: the rank of an acyclic document is enough (\<open>yamlMapping_returns\<close>) and no number
  is for one that merges itself. \<open>propagate_loop\<close> of the policy is a partial function, and \<open>Validate_returns\<close>
  shows that it returns. The searches of the graph recurse on the stages not yet visited. Words are used where widths matter: exit codes
  (8 and 64 bits), sizes of blobs and trees (64 bits).

  \<^bold>\<open>Parameters.\<close> Third-party libraries and the outside are arguments of the definitions: the operating system and
  file systems, HTTP, the container engine, the shell interpreter (mvdan.cc/sh), git (go-git, ssh_config),
  YAML and JSON decoders and encoders, templates, mergo's merges, hashes, pflag, the clock. Hypotheses about them are stated
  where they are used, and each property with a hypothesis has a witness.

  \<^bold>\<open>Not modelled.\<close> The registration of commands and flags with cobra and viper, the text user interface, the
  templates of \<open>show\<close> and the drawing of graphs (\<open>cmd/eirctl/graph.go\<close>, a dot library): presentation. The copying of
  streams between a container and the terminal, progress bars and spinners. \<open>internal/schema/bitbucket.go\<close> and \<open>gitlab.go\<close>: types no
  code uses. \<open>tools/schemagenerator\<close> (reflection) and \<open>docs.go\<close> (embedded files). Mutexes that guard one access to a
  field. Timeouts of contexts, beyond the cancellation they cause.
\<close>

section \<open>From the configuration to the schedule\<close>

lemma built_wf_graph:
  assumes "wf_pipeline s gr ns"
  shows "wf_graph (stGraphs s gr) (stStages s)"
proof -
  let ?g = "stGraphs s gr"
  have gw: "growing s gr ns" and deps: "\<And>n r. n \<in> set ns \<Longrightarrow> gNodes ?g n = Some r \<Longrightarrow>
      set (sDependsOn (stStages s r)) \<subseteq> insert RootNodeName (set ns)"
    using assms by (auto simp: wf_pipeline_def)
  from gw have ac: "acyclic (edges (gChildren ?g))" and dm: "dom (gNodes ?g) = insert RootNodeName (set ns)"
    and ro: "RootNodeName \<notin> set ns" and cm: "edges (gParent ?g) = (edges (gChildren ?g))\<inverse>"
    and er: "gErrors ?g = []" and ed: "edges (gChildren ?g) = declared_edges s ?g ns"
    by (auto simp: growing_def Let_def converse_maps_def)
  from gw obtain rr where rr: "gNodes ?g RootNodeName = Some rr" "sStatus (stStages s rr) = StatusDone"
    by (auto simp: growing_def Let_def)
  have fit: "\<exists>r. gNodes ?g n = Some r \<and> stage_fits n (stStages s r)" if "n \<in> set ns" for n
    using gw that by (auto simp: growing_def Let_def)
  have fits: "stage_fits n (stStages s r)" if "gNodes ?g n = Some r" "n \<noteq> RootNodeName" for n r
    using that dm fit [of n] by auto
  have edge: "n \<in> set ns \<and> p \<in> insert RootNodeName (set ns)" if pn: "(p, n) \<in> edges (gChildren ?g)" for p n
  proof -
    from pn ed obtain m where m: "m \<in> set ns" "(p, n) \<in> new_edges (stStages s (the (gNodes ?g m)))"
      by (auto simp: declared_edges_def)
    with fit [OF m(1)] obtain r where r: "gNodes ?g m = Some r" "stage_fits m (stStages s r)"
      "(p, n) \<in> new_edges (stStages s r)" by auto
    with deps [OF m(1) r(1)] m(1) show ?thesis
      by (auto simp: new_edges_def stage_fits_def split: if_splits)
  qed
  have inj: "inj_on (gNodes ?g) (dom (gNodes ?g))"
  proof (rule inj_onI)
    fix a b assume ab: "a \<in> dom (gNodes ?g)" "b \<in> dom (gNodes ?g)" "gNodes ?g a = gNodes ?g b"
    then obtain r where r: "gNodes ?g a = Some r" "gNodes ?g b = Some r" by auto
    show "a = b"
    proof (cases "a = RootNodeName \<or> b = RootNodeName")
      case True
      with r rr(1) have "r = rr" by auto
      with rr(2) fits [OF r(1)] fits [OF r(2)] True show ?thesis by (auto simp: stage_fits_def)
    next
      case False
      then show ?thesis using fits [OF r(1)] fits [OF r(2)] by (auto simp: stage_fits_def)
    qed
  qed
  have par: "(n, p) \<in> edges (gParent ?g) \<Longrightarrow> n \<in> set ns \<and> p \<in> dom (gNodes ?g)" for n p
    unfolding cm dm using edge by auto
  have nopar: "succs (gParent ?g) RootNodeName = []"
    using par [of RootNodeName] ro by (metis edges_iff last_in_set)
  have "sName (stStages s r) = n \<and> sStatus (stStages s r) = StatusWaiting \<and>
      set (succs (gParent ?g) n) \<subseteq> dom (gNodes ?g)" if "gNodes ?g n = Some r" "n \<noteq> RootNodeName" for n r
    using fits [OF that] par [of n] by (auto simp: stage_fits_def)
  with ac cm dm rr inj nopar er show ?thesis by (simp add: wf_graph_def)
qed


lemma declared_dependency:
  assumes "wf_pipeline s gr ns" and "gNodes (stGraphs s gr) n = Some r" and "n \<noteq> RootNodeName"
    and "d \<in> set (sDependsOn (stStages s r))"
  shows "(d, n) \<in> edges (gChildren (stGraphs s gr))"
proof -
  from assms(1) have dm: "dom (gNodes (stGraphs s gr)) = insert RootNodeName (set ns)"
    and ed: "edges (gChildren (stGraphs s gr)) = declared_edges s (stGraphs s gr) ns"
    by (auto simp: wf_pipeline_def growing_def Let_def)
  from assms(2,3) dm have n: "n \<in> set ns" by auto
  have "\<exists>r. gNodes (stGraphs s gr) n = Some r \<and> r < stNext s \<and> stage_fits n (stStages s r)"
    using assms(1) n by (simp add: wf_pipeline_def growing_def Let_def)
  with assms(2) have "sName (stStages s r) = n" by (simp add: stage_fits_def)
  with assms(4) have "(d, n) \<in> new_edges (stStages s r)" by (auto simp: new_edges_def)
  with n assms(2) show ?thesis unfolding ed declared_edges_def by (intro UN_I [of n]) simp_all
qed



lemma built_plain_source:
  assumes w: "wf_pipeline s gr ns" and h: "hGraphs h gr = stGraphs s gr" "hStages h = stStages s"
    and plain: "\<forall>n \<in> set ns. segment n"
    and own: "\<And>n r. gNodes (stGraphs s gr) n = Some r \<Longrightarrow> RootNodeName \<notin> set (sDependsOn (stStages s r))"
  shows "plain_source h (hGraphs h gr)"
proof -
  let ?g = "stGraphs s gr"
  from w have dm: "dom (gNodes ?g) = insert RootNodeName (set ns)" and ac: "acyclic (edges (gChildren ?g))"
    and ed: "edges (gChildren ?g) = declared_edges s ?g ns"
    by (auto simp: wf_pipeline_def growing_def Let_def)
  have dep: "d \<in> set ns" if "n \<in> set ns" "gNodes ?g n = Some r" "d \<in> set (sDependsOn (stStages s r))" for n r d
    using w own [OF that(2)] that by (auto simp: wf_pipeline_def)
  have fin: "finite (edges (gChildren ?g))" unfolding ed declared_edges_def by (auto simp: new_edges_def)
  have "n \<in> set ns \<longrightarrow> (RootNodeName, n) \<in> (edges (gChildren ?g))\<^sup>*" for n
  proof (induction n rule: wf_induct_rule [OF finite_acyclic_wf [OF fin ac]])
    case (1 n)
    show ?case
    proof
      assume n: "n \<in> set ns"
      with w obtain r where r: "gNodes ?g n = Some r" "sName (stStages s r) = n"
        by (auto simp: wf_pipeline_def growing_def Let_def stage_fits_def)
      show "(RootNodeName, n) \<in> (edges (gChildren ?g))\<^sup>*"
      proof (cases "sDependsOn (stStages s r)")
        case Nil
        then have "(RootNodeName, n) \<in> declared_edges s ?g ns"
          using n r by (auto simp: declared_edges_def new_edges_def intro!: bexI [of _ n])
        then show ?thesis unfolding ed by blast
      next
        case (Cons d ds)
        then have d: "d \<in> set (sDependsOn (stStages s r))" by simp
        have "n \<noteq> RootNodeName" using w n by (auto simp: wf_pipeline_def growing_def Let_def)
        from declared_dependency [OF w r(1) this d] have "(d, n) \<in> edges (gChildren ?g)" .
        with 1 dep [OF n r(1) d] show ?thesis by (meson rtrancl.rtrancl_into_rtrancl)
      qed
    qed
  qed
  then have "plain_names ?g" using dm plain by (auto simp: plain_names_def)
  moreover have "d \<noteq> RootNodeName \<and> gNodes ?g d \<noteq> None"
    if n: "gNodes ?g n = Some r" "n \<noteq> RootNodeName" "d \<in> set (sDependsOn (stStages s r))" for n r d
  proof -
    have "n \<in> set ns" using n dm by auto
    from dep [OF this n(1,3)] have "d \<in> dom (gNodes ?g)" unfolding dm by simp
    moreover have "d \<noteq> RootNodeName" using own [OF n(1)] n(3) by auto
    ultimately show ?thesis by blast
  qed
  ultimately show ?thesis by (simp add: plain_source_def h)
qed

text \<open>The whole way of \<open>eirctl run\<close>: a pipeline that the configuration built, whose stages have names without the
  separator and do not depend on the root by name, is flattened and scheduled. What is proved of the flattened
  graph holds, and the order is that of the configuration.\<close>

theorem configured_pipeline_runs_in_order:
  assumes "orders mo def" and "buildFromDefinition bp mo def dir s0 = (Inr cfg, s)" and "cPipelines cfg name = Some gr"
    and h: "hGraphs h = stGraphs s" "hStages h = stStages s"
    and plain: "\<And>n r. gNodes (stGraphs s gr) n = Some r \<Longrightarrow> segment n \<and> RootNodeName \<notin> set (sDependsOn (stStages s r))"
    and "levelled p h (hNext h) G lev" and "gr \<in> G"
    and "\<And>n. set (dp_children p (stGraphs s gr) n) = set (succs (gChildren (stGraphs s gr)) n)"
    and "Denormalize p k m gr h = (Inr dg, h')" and "lists_table p (hTable h')" and "reachable (hGraphs h' dg) (hStages h') c"
  shows "pc c \<noteq> Panicked \<and> ((\<forall>res. pc c \<noteq> Returned res) \<longrightarrow> (\<exists>t. step (hGraphs h' dg) (hStages h') c t)) \<and>
    (\<forall>n orig. gNodes (stGraphs s gr) n = Some orig \<longrightarrow> n \<noteq> RootNodeName \<longrightarrow>
       (\<exists>r. gNodes (hGraphs h' dg) (CascadeName [gName (stGraphs s gr)] n) = Some r \<and>
          copy_of [gName (stGraphs s gr)] (stStages s orig) (hStages h' r) \<and>
          (go c r \<noteq> GNone \<longrightarrow> (\<forall>d \<in> set (sDependsOn (stStages s orig)). \<exists>q.
             gNodes (hGraphs h' dg) (CascadeName [gName (stGraphs s gr)] d) = Some q \<and> passed (hStages h') c q))))"
proof -
  from built_well_formed [OF assms(1,2)] assms(3) obtain ns where w: "wf_pipeline s gr ns"
    by (metis domD domI option.sel)
  have "segment n" if "n \<in> set ns" for n
    using that plain w by (fastforce simp: wf_pipeline_def growing_def Let_def)
  with built_plain_source [OF w _ h(2)] plain h(1) have src: "plain_source h (hGraphs h gr)" by auto
  have ch: "set (dp_children p (hGraphs h gr) n) = set (succs (gChildren (hGraphs h gr)) n)" for n
    using assms(9) by (simp add: h)
  show ?thesis by (rule scheduled_runs [OF assms(7,8) ch src assms(10-12), unfolded h])
qed

end
